(* ===== verification/Prelude.thy ===== *)
theory Prelude
  imports
    Main
    "HOL-Library.Word"
    "HOL-Library.AList"
    "HOL-Library.Char_ord"
    "HOL-Library.List_Lexorder"
    "HOL-Library.Multiset"
begin

text \<open>
  What the components share: the Go values the model works with (bytes, strings as byte
  sequences, errors), the pieces of the Go standard library the sources call
  (\<^verbatim>\<open>strconv.Itoa\<close>, \<^verbatim>\<open>strings\<close>, \<^verbatim>\<open>encoding/binary\<close>, \<^verbatim>\<open>io.ReadFull\<close>), Go maps as
  association lists with distinct keys, and the generic lemmas on them.

  A Go string is a byte sequence; \<^typ>\<open>string\<close> is a list of 8-bit characters, so it is the
  same thing. \<^verbatim>\<open>strings.ToLower\<close> and \<^verbatim>\<open>strings.TrimSpace\<close> are modelled on the ASCII range:
  bytes from 128 on are left as they are, where Go would decode them as UTF-8 runes.
\<close>

named_theorems kv_simps \<open>laws of the association-list model of Go maps\<close>
named_theorems wire_simps \<open>evaluation of the byte codecs\<close>

section \<open>Errors\<close>

text \<open>
  An error value with its text. \<^term>\<open>Errorf\<close> is a new error, \<open>Wrapf p e\<close> is
  \<^verbatim>\<open>fmt.Errorf("p%w", e)\<close>; the others are the sentinel values of \<^verbatim>\<open>io\<close>, \<^verbatim>\<open>net\<close> and
  \<^verbatim>\<open>context\<close>.
\<close>

datatype goerr =
    EOF
  | ErrUnexpectedEOF
  | ErrShortWrite
  | NetErrClosed
  | Canceled
  | Errorf string
  | Wrapf string goerr

fun err_text :: "goerr \<Rightarrow> string" where
  "err_text EOF = ''EOF''"
| "err_text ErrUnexpectedEOF = ''unexpected EOF''"
| "err_text ErrShortWrite = ''short write''"
| "err_text NetErrClosed = ''use of closed network connection''"
| "err_text Canceled = ''context canceled''"
| "err_text (Errorf s) = s"
| "err_text (Wrapf p e) = p @ err_text e"

text \<open>\<^verbatim>\<open>errors.Is\<close>: the error itself or one it wraps.\<close>

fun errors_is :: "goerr \<Rightarrow> goerr \<Rightarrow> bool" where
  "errors_is (Wrapf p e) t = (Wrapf p e = t \<or> errors_is e t)"
| "errors_is e t = (e = t)"

type_synonym 'a res = "goerr + 'a"

definition bindE :: "'a res \<Rightarrow> ('a \<Rightarrow> 'b res) \<Rightarrow> 'b res" where
  "bindE m f = (case m of Inl e \<Rightarrow> Inl e | Inr x \<Rightarrow> f x)"

lemma bindE_simps [simp]:
  "bindE (Inl e) f = Inl e"
  "bindE (Inr x) f = f x"
  by (simp_all add: bindE_def)

lemma bindE_Inr_iff:
  "bindE m f = Inr y \<longleftrightarrow> (\<exists>x. m = Inr x \<and> f x = Inr y)"
  by (cases m) simp_all

lemma bindE_Inl_iff:
  "bindE m f = Inl e \<longleftrightarrow> m = Inl e \<or> (\<exists>x. m = Inr x \<and> f x = Inl e)"
  by (cases m) simp_all

definition guardE :: "bool \<Rightarrow> goerr \<Rightarrow> unit res" where
  "guardE b e = (if b then Inr () else Inl e)"

lemma guardE_simps [simp]:
  "guardE True e = Inr ()"
  "guardE False e = Inl e"
  "guardE b e = Inr u \<longleftrightarrow> b"
  "guardE b e = Inl e' \<longleftrightarrow> \<not> b \<and> e' = e"
  by (auto simp: guardE_def)

section \<open>Bytes and big-endian integers\<close>

type_synonym byte = "8 word"
type_synonym u16 = "16 word"
type_synonym u32 = "32 word"
type_synonym u64 = "64 word"

lemma unat_bound: "unat (w :: 'a::len word) < 2 ^ LENGTH('a)"
  by (rule unsigned_less)

fun be_enc :: "nat \<Rightarrow> nat \<Rightarrow> byte list" where
  "be_enc 0 x = []"
| "be_enc (Suc n) x = be_enc n (x div 256) @ [word_of_nat x]"

definition be_dec :: "byte list \<Rightarrow> nat" where
  "be_dec bs = foldl (\<lambda>a b. a * 256 + unat b) 0 bs"

lemma length_be_enc [simp]: "length (be_enc n x) = n"
  by (induction n arbitrary: x) simp_all

lemma be_dec_snoc [simp]: "be_dec (bs @ [b]) = be_dec bs * 256 + unat b"
  by (simp add: be_dec_def)

lemma be_dec_Nil [simp]: "be_dec [] = 0"
  by (simp add: be_dec_def)

lemma be_dec_enc: "be_dec (be_enc n x) = x mod 256 ^ n"
proof (induction n arbitrary: x)
  case 0
  then show ?case by simp
next
  case (Suc n)
  have "be_dec (be_enc (Suc n) x) = (x div 256) mod 256 ^ n * 256 + x mod 256"
    by (simp add: Suc unat_of_nat)
  also have "\<dots> = x mod (256 * 256 ^ n)"
    by (subst mod_mult2_eq) simp
  finally show ?case by simp
qed

lemma be_dec_bound: "be_dec bs < 256 ^ length bs"
proof (induction bs rule: rev_induct)
  case Nil
  then show ?case by simp
next
  case (snoc b bs)
  have "unat b < 256" using unat_bound [of b] by simp
  with snoc show ?case by simp
qed

lemma be_enc_dec: "be_enc (length bs) (be_dec bs) = bs"
proof (induction bs rule: rev_induct)
  case Nil
  then show ?case by simp
next
  case (snoc b bs)
  have b: "unat b < 256" using unat_bound [of b] by simp
  then have "(be_dec bs * 256 + unat b) div 256 = be_dec bs" by simp
  moreover have "(word_of_nat (be_dec bs * 256 + unat b) :: byte) = b"
  proof -
    have "(word_of_nat (be_dec bs * 256 + unat b) :: byte)
        = word_of_nat (be_dec bs) * 256 + word_of_nat (unat b)" by simp
    also have "(256 :: byte) = 0" by simp
    finally show ?thesis by simp
  qed
  ultimately show ?case using snoc by simp
qed

text \<open>\<^verbatim>\<open>binary.BigEndian.AppendUint16\<close>, \<^verbatim>\<open>Uint16\<close> and the 64-bit pair.\<close>

definition put_u16 :: "u16 \<Rightarrow> byte list" where
  "put_u16 w = be_enc 2 (unat w)"

definition get_u16 :: "byte list \<Rightarrow> u16" where
  "get_u16 bs = word_of_nat (be_dec bs)"

definition put_u64 :: "u64 \<Rightarrow> byte list" where
  "put_u64 w = be_enc 8 (unat w)"

definition get_u64 :: "byte list \<Rightarrow> u64" where
  "get_u64 bs = word_of_nat (be_dec bs)"

lemma length_put [simp]: "length (put_u16 w) = 2" "length (put_u64 v) = 8"
  by (simp_all add: put_u16_def put_u64_def)

lemma get_put_u16 [simp]: "get_u16 (put_u16 w) = w"
proof -
  have "unat w < 256 ^ 2" using unat_bound [of w] by simp
  then show ?thesis by (simp add: get_u16_def put_u16_def be_dec_enc del: be_enc.simps)
qed

lemma get_put_u64 [simp]: "get_u64 (put_u64 w) = w"
proof -
  have "unat w < 256 ^ 8" using unat_bound [of w] by simp
  then show ?thesis by (simp add: get_u64_def put_u64_def be_dec_enc del: be_enc.simps)
qed

lemma put_get_u16: "length bs = 2 \<Longrightarrow> put_u16 (get_u16 bs) = bs"
  using be_enc_dec [of bs] be_dec_bound [of bs]
  by (simp add: put_u16_def get_u16_def unat_of_nat del: be_enc.simps)

lemma put_get_u64: "length bs = 8 \<Longrightarrow> put_u64 (get_u64 bs) = bs"
  using be_enc_dec [of bs] be_dec_bound [of bs]
  by (simp add: put_u64_def get_u64_def unat_of_nat del: be_enc.simps)

lemma unat_u16_of_nat: "n < 65536 \<Longrightarrow> unat (word_of_nat n :: u16) = n"
  by (simp add: unat_of_nat)

lemma unat_get_u16: "length bs = 2 \<Longrightarrow> unat (get_u16 bs) = be_dec bs"
  using be_dec_bound [of bs] by (simp add: get_u16_def unat_of_nat)

text \<open>\<^verbatim>\<open>[]byte(s)\<close> and \<^verbatim>\<open>string(b)\<close>.\<close>

definition bytes_of :: "string \<Rightarrow> byte list" where
  "bytes_of s = map of_char s"

definition string_of :: "byte list \<Rightarrow> string" where
  "string_of bs = map (\<lambda>b. char_of (unat b)) bs"

lemma length_bytes_of [simp]: "length (bytes_of s) = length s" "length (string_of bs) = length bs"
  by (simp_all add: bytes_of_def string_of_def)

lemma bytes_of_Nil_iff [simp]: "bytes_of s = [] \<longleftrightarrow> s = []" "string_of bs = [] \<longleftrightarrow> bs = []"
  by (simp_all add: bytes_of_def string_of_def)

lemma bytes_of_append [simp]: "bytes_of (s @ t) = bytes_of s @ bytes_of t"
  by (simp add: bytes_of_def)

lemma unat_of_char [simp]: "unat (of_char c :: byte) = of_char c"
proof -
  have "(of_char c :: nat) mod 256 = of_char c" by (rule of_char_mod_256)
  moreover have "(of_char c :: byte) = word_of_nat (of_char c)" by (simp only: of_nat_of_char)
  ultimately show ?thesis by (simp add: unat_of_nat del: of_char_mod_256)
qed

lemma string_bytes [simp]: "string_of (bytes_of s) = s"
  by (simp add: string_of_def bytes_of_def comp_def)

lemma bytes_string [simp]: "bytes_of (string_of bs) = bs"
proof -
  have "(of_char (char_of (unat b)) :: byte) = b" for b :: byte
  proof -
    have "(of_char (char_of (unat b)) :: byte) = word_of_nat (of_char (char_of (unat b)))"
      by (simp only: of_nat_of_char)
    also have "\<dots> = word_of_nat (unat b mod 256)" by (simp only: of_char_of)
    also have "\<dots> = b" using unat_bound [of b] by simp
    finally show ?thesis .
  qed
  then show ?thesis by (simp add: string_of_def bytes_of_def comp_def)
qed

lemma bytes_of_inject [simp]: "bytes_of s = bytes_of t \<longleftrightarrow> s = t"
  by (metis string_bytes)

section \<open>Reading and writing byte streams\<close>

text \<open>
  \<^verbatim>\<open>io.ReadFull\<close> on a stream that holds the bytes \<open>s\<close> and then ends: a read that gets
  nothing fails with \<^verbatim>\<open>EOF\<close>, a short one with \<^verbatim>\<open>ErrUnexpectedEOF\<close>.
\<close>

definition read_full :: "nat \<Rightarrow> byte list \<Rightarrow> (byte list \<times> byte list) res" where
  "read_full n s =
     (if n \<le> length s then Inr (take n s, drop n s)
      else if s = [] then Inl EOF else Inl ErrUnexpectedEOF)"

lemma read_full_append [simp]: "length xs = n \<Longrightarrow> read_full n (xs @ ys) = Inr (xs, ys)"
  by (simp add: read_full_def)

lemma read_full_Inr: "read_full n s = Inr (xs, ys) \<longleftrightarrow> s = xs @ ys \<and> length xs = n"
  by (auto simp: read_full_def)

text \<open>
  A writer: the bytes it has taken and the answers of its next \<^verbatim>\<open>Write\<close> calls, each the
  number of bytes it takes (never more than it is given, as \<^verbatim>\<open>io.Writer\<close> demands) and
  its error. With no answers left it takes everything.
\<close>

record writer =
  w_out :: "byte list"
  w_sched :: "(nat \<times> goerr option) list"

definition w_write :: "writer \<Rightarrow> byte list \<Rightarrow> (nat \<times> goerr option) \<times> writer" where
  "w_write w p =
     (case w_sched w of
        [] \<Rightarrow> ((length p, None), w\<lparr>w_out := w_out w @ p\<rparr>)
      | (n, e) # rest \<Rightarrow>
          (let k = min n (length p)
           in ((k, e), w\<lparr>w_out := w_out w @ take k p, w_sched := rest\<rparr>)))"

lemma w_write_out:
  "w_write w p = ((k, e), w') \<Longrightarrow> k \<le> length p \<and> w_out w' = w_out w @ take k p"
  by (auto simp: w_write_def Let_def split: list.splits)

section \<open>Go maps as association lists\<close>

text \<open>
  A Go map that the code iterates over is an association list with distinct keys. The
  order of the list is one of the orders in which Go may iterate.
\<close>

type_synonym ('k, 'v) kv = "('k \<times> 'v) list"

definition kv_keys :: "('k, 'v) kv \<Rightarrow> 'k list" where
  "kv_keys m = map fst m"

definition kv_ok :: "('k, 'v) kv \<Rightarrow> bool" where
  "kv_ok m \<longleftrightarrow> distinct (map fst m)"

definition kv_get :: "('k, 'v) kv \<Rightarrow> 'k \<Rightarrow> 'v option" where
  "kv_get m k = map_of m k"

definition kv_put :: "'k \<Rightarrow> 'v \<Rightarrow> ('k, 'v) kv \<Rightarrow> ('k, 'v) kv" where
  "kv_put k v m = AList.update k v m"

definition kv_del :: "'k \<Rightarrow> ('k, 'v) kv \<Rightarrow> ('k, 'v) kv" where
  "kv_del k m = AList.delete k m"

lemma kv_ok_Nil [simp]: "kv_ok []"
  by (simp add: kv_ok_def)

lemma kv_get_Nil [simp]: "kv_get [] k = None"
  by (simp add: kv_get_def)

lemma kv_ok_put [simp]: "kv_ok m \<Longrightarrow> kv_ok (kv_put k v m)"
  by (simp add: kv_ok_def kv_put_def distinct_update)

lemma kv_ok_del [simp]: "kv_ok m \<Longrightarrow> kv_ok (kv_del k m)"
  by (simp add: kv_ok_def kv_del_def distinct_delete)

lemma kv_ok_filter [simp]: "kv_ok m \<Longrightarrow> kv_ok (filter P m)"
  by (simp add: kv_ok_def distinct_map_filter)

lemma kv_get_put [kv_simps]: "kv_get (kv_put k v m) k' = (if k' = k then Some v else kv_get m k')"
  by (simp add: kv_get_def kv_put_def update_conv)

lemma kv_get_del [kv_simps]: "kv_get (kv_del k m) k' = (if k' = k then None else kv_get m k')"
  by (simp add: kv_get_def kv_del_def delete_conv)

lemma kv_get_mem: "kv_ok m \<Longrightarrow> kv_get m k = Some v \<longleftrightarrow> (k, v) \<in> set m"
  by (auto simp: kv_get_def kv_ok_def dest: map_of_SomeD)

lemma kv_get_None: "kv_get m k = None \<longleftrightarrow> k \<notin> set (kv_keys m)"
  by (simp add: kv_get_def kv_keys_def map_of_eq_None_iff)

lemma kv_keys_put: "set (kv_keys (kv_put k v m)) = insert k (set (kv_keys m))"
  by (auto simp: kv_keys_def kv_put_def update_keys List.insert_def)

lemma kv_keys_del: "set (kv_keys (kv_del k m)) = set (kv_keys m) - {k}"
  by (auto simp: kv_keys_def kv_del_def delete_keys)

lemma kv_del_filter: "kv_del k m = filter (\<lambda>p. fst p \<noteq> k) m"
  unfolding kv_del_def AList.delete_eq by (rule filter_cong) auto

lemma set_kv_put:
  "kv_ok m \<Longrightarrow> set (kv_put k v m) = insert (k, v) {p \<in> set m. fst p \<noteq> k}"
  by (rule set_eqI)
     (metis (mono_tags, lifting) fst_conv insert_iff kv_get_mem kv_get_put kv_ok_put mem_Collect_eq
       option.inject prod.collapse snd_conv)

lemma set_kv_del: "set (kv_del k m) = {p \<in> set m. fst p \<noteq> k}"
  by (simp add: kv_del_filter)

lemma kv_get_filter:
  "kv_ok m \<Longrightarrow> kv_get (filter P m) k = Some v \<longleftrightarrow> kv_get m k = Some v \<and> P (k, v)"
  by (simp add: kv_get_mem)

lemma kv_del_put_same [simp]: "kv_del k (kv_put k v m) = kv_del k m"
  by (induction m) (auto simp: kv_del_filter kv_put_def)

lemma kv_put_new: "kv_get m k = None \<Longrightarrow> kv_put k v m = m @ [(k, v)]"
  by (induction m) (auto simp: kv_get_def kv_put_def split: if_splits)

text \<open>How many entries satisfy a predicate, after an insertion of a new key and a deletion.\<close>

lemma length_filter_put_new:
  "kv_get m k = None \<Longrightarrow>
   length (filter P (kv_put k v m)) = length (filter P m) + (if P (k, v) then 1 else 0)"
  by (simp add: kv_put_new)

lemma length_filter_del:
  "kv_ok m \<Longrightarrow> kv_get m k = Some v \<Longrightarrow>
   length (filter P m) = length (filter P (kv_del k m)) + (if P (k, v) then 1 else 0)"
proof (induction m)
  case Nil
  then show ?case by simp
next
  case (Cons x m)
  show ?case
  proof (cases "fst x = k")
    case True
    with Cons.prems have "filter (\<lambda>p. fst p \<noteq> k) m = m" "v = snd x"
      by (auto simp: kv_ok_def kv_get_def filter_id_conv rev_image_eqI)
    with True show ?thesis by (cases x) (simp add: kv_del_filter)
  next
    case False
    with Cons.prems have "kv_ok m" "kv_get m k = Some v"
      by (auto simp: kv_ok_def kv_get_def)
    from Cons.IH [OF this] False show ?thesis by (simp add: kv_del_filter)
  qed
qed

lemma mset_kv_del:
  "kv_ok m \<Longrightarrow> kv_get m k = Some v \<Longrightarrow> mset m = add_mset (k, v) (mset (kv_del k m))"
proof (induction m)
  case (Cons p m)
  show ?case
  proof (cases "fst p = k")
    case True
    with Cons.prems have "v = snd p" "k \<notin> fst ` set m" by (auto simp: kv_ok_def kv_get_def)
    moreover from this have "kv_del k m = m" by (force simp: kv_del_filter filter_id_conv)
    ultimately show ?thesis using True by (auto simp: kv_del_filter)
  next
    case False
    with Cons.prems have "kv_ok m" "kv_get m k = Some v" by (auto simp: kv_ok_def kv_get_def)
    from Cons.IH [OF this] False show ?thesis by (simp add: kv_del_filter)
  qed
qed simp

section \<open>Strings\<close>

text \<open>\<^verbatim>\<open>strconv.Itoa\<close> and the verb \<^verbatim>\<open>%d\<close> on a number that is not negative.\<close>

fun itoa :: "nat \<Rightarrow> string" where
  "itoa n = (if n < 10 then [char_of (48 + n)] else itoa (n div 10) @ [char_of (48 + n mod 10)])"

declare itoa.simps [simp del]

definition itoa_int :: "int \<Rightarrow> string" where
  "itoa_int i = (if i < 0 then CHR ''-'' # itoa (nat (- i)) else itoa (nat i))"

definition is_digit :: "char \<Rightarrow> bool" where
  "is_digit c \<longleftrightarrow> 48 \<le> (of_char c :: nat) \<and> (of_char c :: nat) \<le> 57"

text \<open>The value of a digit string, to invert \<^const>\<open>itoa\<close>.\<close>

definition digits_val :: "string \<Rightarrow> nat" where
  "digits_val s = foldl (\<lambda>a c. a * 10 + (of_char c - 48)) 0 s"

lemma of_char_of_digit [simp]: "n < 10 \<Longrightarrow> of_char (char_of (48 + n)) = (48 + n :: nat)"
  by (simp add: of_char_of)

lemma char_of_digit:
  "char_of (48::nat) = CHR ''0''" "char_of (49::nat) = CHR ''1''" "char_of (50::nat) = CHR ''2''"
  "char_of (51::nat) = CHR ''3''" "char_of (52::nat) = CHR ''4''" "char_of (53::nat) = CHR ''5''"
  "char_of (54::nat) = CHR ''6''" "char_of (55::nat) = CHR ''7''" "char_of (56::nat) = CHR ''8''"
  "char_of (57::nat) = CHR ''9''"
  by code_simp+

lemma itoa_digits: "\<forall>c \<in> set (itoa n). is_digit c"
proof (induction n rule: itoa.induct)
  case (1 n)
  then show ?case
    by (cases "n < 10") (auto simp: itoa.simps [of n] is_digit_def)
qed

lemma itoa_nonempty [simp]: "itoa n \<noteq> []"
  by (simp add: itoa.simps [of n])

lemma digits_val_itoa [simp]: "digits_val (itoa n) = n"
proof (induction n rule: itoa.induct)
  case (1 n)
  show ?case
  proof (cases "n < 10")
    case True
    then show ?thesis by (simp add: itoa.simps [of n] digits_val_def)
  next
    case False
    have "digits_val (itoa n) = digits_val (itoa (n div 10)) * 10 + n mod 10"
      using False by (simp add: itoa.simps [of n] digits_val_def)
    with False 1 show ?thesis by simp
  qed
qed

lemma itoa_inject [simp]: "itoa m = itoa n \<longleftrightarrow> m = n"
  by (metis digits_val_itoa)

lemma itoa_no_char: "\<not> is_digit c \<Longrightarrow> c \<notin> set (itoa n)"
  using itoa_digits by blast

text \<open>
  Cutting at the last occurrence of a separator: two joined texts are equal only part by
  part when the separator does not occur in what follows it.
\<close>

lemma append_sep_inject:
  assumes "c \<notin> set t" "c \<notin> set t'"
  shows "s @ c # t = s' @ c # t' \<longleftrightarrow> s = s' \<and> t = t'"
proof
  assume eq: "s @ c # t = s' @ c # t'"
  have tw: "takeWhile (\<lambda>x. x \<noteq> c) (rev (s @ c # t)) = rev t" if "c \<notin> set t" for s t
    using takeWhile_append2 [of "rev t" "\<lambda>x. x \<noteq> c" "c # rev s"] that by auto
  from tw [OF assms(1), of s] tw [OF assms(2), of s'] eq have "t = t'" by simp
  with eq show "s = s' \<and> t = t'" by simp
qed simp

text \<open>ASCII lower-casing and white space.\<close>

definition lower_char :: "char \<Rightarrow> char" where
  "lower_char c =
     (let n = (of_char c :: nat) in if 65 \<le> n \<and> n \<le> 90 then char_of (n + 32) else c)"

definition to_lower :: "string \<Rightarrow> string" where
  "to_lower s = map lower_char s"

definition is_space :: "char \<Rightarrow> bool" where
  "is_space c \<longleftrightarrow> (of_char c :: nat) \<in> {9, 10, 11, 12, 13, 32}"

definition trim_space :: "string \<Rightarrow> string" where
  "trim_space s = rev (dropWhile is_space (rev (dropWhile is_space s)))"

definition trim_suffix :: "string \<Rightarrow> string \<Rightarrow> string" where
  "trim_suffix s suf =
     (if length suf \<le> length s \<and> drop (length s - length suf) s = suf
      then take (length s - length suf) s else s)"

definition has_prefix :: "string \<Rightarrow> string \<Rightarrow> bool" where
  "has_prefix s p \<longleftrightarrow> take (length p) s = p"

text \<open>The verb \<^verbatim>\<open>%q\<close>, on texts without quotes, escapes and non-printing characters.\<close>

definition quote :: "string \<Rightarrow> string" where
  "quote s = [CHR 0x22] @ s @ [CHR 0x22]"

text \<open>\<^verbatim>\<open>strings.Contains\<close>.\<close>

fun str_contains :: "string \<Rightarrow> string \<Rightarrow> bool" where
  "str_contains [] p \<longleftrightarrow> p = []"
| "str_contains (c # s) p \<longleftrightarrow> has_prefix (c # s) p \<or> str_contains s p"

lemma str_contains_iff: "str_contains s p \<longleftrightarrow> (\<exists>a b. s = a @ p @ b)"
proof (induction s)
  case Nil
  then show ?case by auto
next
  case (Cons c s)
  have "has_prefix (c # s) p \<longleftrightarrow> (\<exists>b. c # s = p @ b)"
    unfolding has_prefix_def by (metis append_eq_conv_conj)
  moreover have "(\<exists>a b. s = a @ p @ b) \<or> (\<exists>b. c # s = p @ b) \<longleftrightarrow> (\<exists>a b. c # s = a @ p @ b)"
    by (metis Cons_eq_append_conv append_Cons append_Nil)
  ultimately show ?case using Cons by auto
qed

lemma str_contains_wrap: "str_contains s p \<Longrightarrow> str_contains (x @ s @ y) p"
  unfolding str_contains_iff by (metis append.assoc)

lemma of_char_bound: "(of_char c :: nat) < 256"
  by (metis mod_less_divisor of_char_mod_256 zero_less_numeral)

lemma lower_char_idem [simp]: "lower_char (lower_char c) = lower_char c"
proof -
  have "(of_char c :: nat) < 256" by (rule of_char_bound)
  then show ?thesis by (simp add: lower_char_def Let_def of_char_of)
qed

lemma to_lower_idem [simp]: "to_lower (to_lower s) = to_lower s"
  by (simp add: to_lower_def comp_def)

lemma is_space_lower [simp]: "is_space (lower_char c) = is_space c"
proof -
  have "(of_char c :: nat) < 256" by (rule of_char_bound)
  then show ?thesis by (auto simp: lower_char_def Let_def is_space_def of_char_of)
qed

lemma trim_space_id: "\<forall>c \<in> set s. \<not> is_space c \<Longrightarrow> trim_space s = s"
proof -
  assume a: "\<forall>c \<in> set s. \<not> is_space c"
  have d: "dropWhile is_space xs = xs" if "\<forall>c \<in> set xs. \<not> is_space c" for xs
    using that by (cases xs) simp_all
  from a have "dropWhile is_space (rev s) = rev s" by (intro d) simp
  with d [OF a] show ?thesis by (simp add: trim_space_def)
qed

lemma trim_suffix_dot_id: "s = [] \<or> last s \<noteq> CHR ''.'' \<Longrightarrow> trim_suffix s ''.'' = s"
proof (cases s rule: rev_cases)
  case (snoc xs x)
  moreover assume "s = [] \<or> last s \<noteq> CHR ''.''"
  ultimately show ?thesis by (simp add: trim_suffix_def)
qed (simp add: trim_suffix_def)

section \<open>Transition systems and their invariants\<close>

inductive reach :: "('s \<Rightarrow> bool) \<Rightarrow> ('s \<Rightarrow> 's \<Rightarrow> bool) \<Rightarrow> 's \<Rightarrow> bool"
  for init :: "'s \<Rightarrow> bool" and step :: "'s \<Rightarrow> 's \<Rightarrow> bool"
where
  reach_init: "init s \<Longrightarrow> reach init step s"
| reach_step: "reach init step s \<Longrightarrow> step s t \<Longrightarrow> reach init step t"

text \<open>
  What a component with a step relation owes: an invariant that holds at the start and
  that every step keeps. Every reachable state then has it.
\<close>

locale inv_system =
  fixes init :: "'s \<Rightarrow> bool"
    and step :: "'s \<Rightarrow> 's \<Rightarrow> bool"
    and inv :: "'s \<Rightarrow> bool"
  assumes inv_init: "init s \<Longrightarrow> inv s"
    and inv_step: "inv s \<Longrightarrow> step s t \<Longrightarrow> inv t"
begin

lemma reach_inv: "reach init step s \<Longrightarrow> inv s"
  by (induction rule: reach.induct) (auto intro: inv_init inv_step)

lemma reach_inv_step: "reach init step s \<Longrightarrow> step s t \<Longrightarrow> inv s \<and> inv t"
  using reach_inv inv_step by blast

end

end
