(* ===== verification/Store.thy ===== *)
theory Store
  imports Prelude
begin

text \<open>
  The persistent client state: \<^verbatim>\<open>internal/store\<close> and the atomic file replacement of
  \<^verbatim>\<open>internal/fsatomic\<close> it saves through.

  A \<^verbatim>\<open>Store\<close> is its path, the state in memory and the disk it saves to. A file is either the
  JSON text of a state, kept as the state it decodes to, or a text that does not decode. Slices
  are lists; a nil and an empty slice are the same list, as the JSON tags (\<^verbatim>\<open>omitempty\<close>) and
  the code treat them. The map of clusters keeps its nil map and its nil pointers, because the
  code tests for them. What the operating system answers is an argument of every operation.
\<close>

section \<open>Replacing a file: fsatomic.WriteFile\<close>

type_synonym 'c disk = "string \<Rightarrow> 'c option"

text \<open>
  The answers of the system calls of one \<^verbatim>\<open>WriteFile\<close>: the name \<^verbatim>\<open>CreateTemp\<close> chose, what the
  temporary file holds when it is created and after an incomplete write, and the error of each
  call. \<open>we_remove\<close> is the outcome of the deferred \<^verbatim>\<open>os.Remove\<close>, which the code ignores.
\<close>

record 'c wenv =
  we_temp :: string
  we_empty :: 'c
  we_partial :: 'c
  we_mkdir :: "goerr option"
  we_create :: "goerr option"
  we_chmod :: "goerr option"
  we_write :: "goerr option"
  we_sync :: "goerr option"
  we_close :: "goerr option"
  we_rename :: "goerr option"
  we_remove :: "goerr option"

definition removeTemp :: "'c wenv \<Rightarrow> 'c disk \<Rightarrow> 'c disk" where
  "removeTemp env d = (if we_remove env = None then d(we_temp env := None) else d)"

text \<open>
  The result with every state the disk goes through, the last one first: a crash leaves one
  of them.
\<close>

definition WriteFile :: "'c wenv \<Rightarrow> string \<Rightarrow> 'c \<Rightarrow> 'c disk \<Rightarrow> goerr option \<times> 'c disk list" where
  "WriteFile env path data d =
     (case we_mkdir env of Some e \<Rightarrow> (Some (Wrapf ''create directory: '' e), [d]) | None \<Rightarrow>
      case we_create env of Some e \<Rightarrow> (Some (Wrapf ''create temporary file: '' e), [d]) | None \<Rightarrow>
      let d1 = d(we_temp env \<mapsto> we_empty env) in
      case we_chmod env of
        Some e \<Rightarrow> (Some (Wrapf ''set temporary file permissions: '' e), [removeTemp env d1, d1, d])
      | None \<Rightarrow>
      let dp = d(we_temp env \<mapsto> we_partial env) in
      case we_write env of
        Some e \<Rightarrow> (Some (Wrapf ''write temporary file: '' e), [removeTemp env dp, dp, d1, d])
      | None \<Rightarrow>
      let d2 = d(we_temp env \<mapsto> data) in
      case we_sync env of
        Some e \<Rightarrow> (Some (Wrapf ''sync temporary file: '' e), [removeTemp env d2, d2, dp, d1, d])
      | None \<Rightarrow>
      case we_close env of
        Some e \<Rightarrow> (Some (Wrapf ''close temporary file: '' e), [removeTemp env d2, d2, dp, d1, d])
      | None \<Rightarrow>
      case we_rename env of
        Some e \<Rightarrow> (Some (Wrapf ''replace file: '' e), [removeTemp env d2, d2, dp, d1, d])
      | None \<Rightarrow>
      let d3 = d(we_temp env := None, path \<mapsto> data) in
      (None, [removeTemp env d3, d3, d2, dp, d1, d]))"

lemmas WriteFile_unfold = WriteFile_def removeTemp_def Let_def

lemma WriteFile_nonempty: "snd (WriteFile env path data d) \<noteq> []"
  by (simp add: WriteFile_unfold split: option.splits)

lemma WriteFile_target:
  assumes "we_temp env \<noteq> path" and "d' \<in> set (snd (WriteFile env path data d))"
  shows "d' path = d path \<or> d' path = Some data"
  using assms by (auto simp: WriteFile_unfold split: option.splits if_splits)

lemma WriteFile_result:
  assumes "we_temp env \<noteq> path"
  shows "fst (WriteFile env path data d) = None \<Longrightarrow> hd (snd (WriteFile env path data d)) path = Some data"
    and "fst (WriteFile env path data d) \<noteq> None \<Longrightarrow> hd (snd (WriteFile env path data d)) path = d path"
  using assms by (auto simp: WriteFile_unfold split: option.splits if_splits)

lemma WriteFile_others:
  assumes "q \<noteq> path" "q \<noteq> we_temp env" and "d' \<in> set (snd (WriteFile env path data d))"
  shows "d' q = d q"
  using assms by (auto simp: WriteFile_unfold split: option.splits if_splits)

lemma WriteFile_no_temp:
  assumes "we_temp env \<noteq> path" "d (we_temp env) = None" "we_remove env = None"
  shows "hd (snd (WriteFile env path data d)) (we_temp env) = None"
  using assms by (auto simp: WriteFile_unfold split: option.splits if_splits)

section \<open>The state: model.go\<close>

definition currentVersion :: int where "currentVersion = 1"
definition DefaultMCPPort :: int where "DefaultMCPPort = 30808"

record MCPConfig =
  mcp_Enabled :: bool
  mcp_Port :: int
  mcp_TokenEnabled :: bool
  mcp_Token :: string

record UIState =
  ui_LastContext :: string
  ui_LastNamespace :: string
  ui_KubeconfigFiles :: "string list"

record HostAliasSpec =
  ha_Domain :: string
  ha_IP :: string

record ManualNetwork =
  mn_PodCIDRs :: "string list"
  mn_ServiceCIDRs :: "string list"
  mn_DNSServer :: string
  mn_ClusterDomains :: "string list"
  mn_DNSNamespace :: string

record PortForwardSpec =
  pf_Namespace :: string
  pf_Kind :: string
  pf_Name :: string
  pf_Protocol :: string
  pf_RemotePort :: u16
  pf_LocalPort :: u16

record StorePortMapping =
  spm_ServicePort :: "32 word"
  spm_Protocol :: string
  spm_LocalHost :: string
  spm_LocalPort :: int

record ExchangeSpec =
  ex_Namespace :: string
  ex_Service :: string
  ex_Ports :: "StorePortMapping list"

record MirrorSpec =
  mi_Namespace :: string
  mi_Service :: string
  mi_Ports :: "StorePortMapping list"

record PreviewSpec =
  pv_Namespace :: string
  pv_Name :: string
  pv_Ports :: "StorePortMapping list"

record ClusterState =
  cl_Namespace :: string
  cl_ConnectionMode :: string
  cl_Connected :: bool
  cl_PortForwards :: "PortForwardSpec list"
  cl_Exchanges :: "ExchangeSpec list"
  cl_Mirrors :: "MirrorSpec list"
  cl_Previews :: "PreviewSpec list"
  cl_HostAliases :: "HostAliasSpec list"
  cl_ManualNetwork :: "ManualNetwork option"

text \<open>\<^verbatim>\<open>map[string]*ClusterState\<close>: the map may be nil, and so may a pointer in it.\<close>

type_synonym clusterMap = "(string, ClusterState option) kv"

record State =
  sta_Version :: int
  sta_UI :: UIState
  sta_MCP :: MCPConfig
  sta_Clusters :: "clusterMap option"

definition zeroUI :: UIState where
  "zeroUI = \<lparr>ui_LastContext = [], ui_LastNamespace = [], ui_KubeconfigFiles = []\<rparr>"

definition zeroMCP :: MCPConfig where
  "zeroMCP = \<lparr>mcp_Enabled = False, mcp_Port = 0, mcp_TokenEnabled = False, mcp_Token = []\<rparr>"

definition zeroCluster :: ClusterState where
  "zeroCluster = \<lparr>cl_Namespace = [], cl_ConnectionMode = [], cl_Connected = False, cl_PortForwards = [],
     cl_Exchanges = [], cl_Mirrors = [], cl_Previews = [], cl_HostAliases = [], cl_ManualNetwork = None\<rparr>"

definition zeroManualNetwork :: ManualNetwork where
  "zeroManualNetwork = \<lparr>mn_PodCIDRs = [], mn_ServiceCIDRs = [], mn_DNSServer = [],
     mn_ClusterDomains = [], mn_DNSNamespace = []\<rparr>"

text \<open>Ranging over the map: nothing for a nil map.\<close>

definition clusters :: "State \<Rightarrow> clusterMap" where
  "clusters st = (case sta_Clusters st of None \<Rightarrow> [] | Some m \<Rightarrow> m)"

text \<open>\<^verbatim>\<open>state.Clusters[name]\<close>: nil for a missing key.\<close>

definition clusterAt :: "State \<Rightarrow> string \<Rightarrow> ClusterState option" where
  "clusterAt st name = (case kv_get (clusters st) name of None \<Rightarrow> None | Some c \<Rightarrow> c)"

section \<open>Copies: clone.go\<close>

definition normalizeMCP :: "MCPConfig \<Rightarrow> MCPConfig" where
  "normalizeMCP cfg = (if mcp_Port cfg \<le> 0 then cfg\<lparr>mcp_Port := DefaultMCPPort\<rparr> else cfg)"

definition cloneStrings :: "string list \<Rightarrow> string list" where
  "cloneStrings items = (if length items = 0 then [] else items)"

definition cloneHostAliases :: "HostAliasSpec list \<Rightarrow> HostAliasSpec list" where
  "cloneHostAliases items = (if length items = 0 then [] else items)"

definition cloneManualNetwork :: "ManualNetwork \<Rightarrow> ManualNetwork" where
  "cloneManualNetwork item =
     \<lparr>mn_PodCIDRs = cloneStrings (mn_PodCIDRs item), mn_ServiceCIDRs = cloneStrings (mn_ServiceCIDRs item),
      mn_DNSServer = mn_DNSServer item, mn_ClusterDomains = cloneStrings (mn_ClusterDomains item),
      mn_DNSNamespace = mn_DNSNamespace item\<rparr>"

definition clonePortForwards :: "PortForwardSpec list \<Rightarrow> PortForwardSpec list" where
  "clonePortForwards items = (if length items = 0 then [] else items)"

definition clonePortMappings :: "StorePortMapping list \<Rightarrow> StorePortMapping list" where
  "clonePortMappings items = (if length items = 0 then [] else items)"

definition cloneExchanges :: "ExchangeSpec list \<Rightarrow> ExchangeSpec list" where
  "cloneExchanges items =
     (if length items = 0 then []
      else map (\<lambda>item. \<lparr>ex_Namespace = ex_Namespace item, ex_Service = ex_Service item,
                        ex_Ports = clonePortMappings (ex_Ports item)\<rparr>) items)"

definition cloneMirrors :: "MirrorSpec list \<Rightarrow> MirrorSpec list" where
  "cloneMirrors items =
     (if length items = 0 then []
      else map (\<lambda>item. \<lparr>mi_Namespace = mi_Namespace item, mi_Service = mi_Service item,
                        mi_Ports = clonePortMappings (mi_Ports item)\<rparr>) items)"

definition clonePreviews :: "PreviewSpec list \<Rightarrow> PreviewSpec list" where
  "clonePreviews items =
     (if length items = 0 then []
      else map (\<lambda>item. \<lparr>pv_Namespace = pv_Namespace item, pv_Name = pv_Name item,
                        pv_Ports = clonePortMappings (pv_Ports item)\<rparr>) items)"

definition cloneCluster :: "ClusterState \<Rightarrow> ClusterState" where
  "cloneCluster item =
     \<lparr>cl_Namespace = cl_Namespace item, cl_ConnectionMode = cl_ConnectionMode item,
      cl_Connected = cl_Connected item, cl_PortForwards = clonePortForwards (cl_PortForwards item),
      cl_Exchanges = cloneExchanges (cl_Exchanges item), cl_Mirrors = cloneMirrors (cl_Mirrors item),
      cl_Previews = clonePreviews (cl_Previews item), cl_HostAliases = cloneHostAliases (cl_HostAliases item),
      cl_ManualNetwork = (case cl_ManualNetwork item of None \<Rightarrow> None | Some n \<Rightarrow> Some (cloneManualNetwork n))\<rparr>"

fun cloneClusters :: "clusterMap \<Rightarrow> clusterMap" where
  "cloneClusters [] = []"
| "cloneClusters ((name, None) # items) = cloneClusters items"
| "cloneClusters ((name, Some item) # items) = (name, Some (cloneCluster item)) # cloneClusters items"

definition cloneState :: "State \<Rightarrow> State" where
  "cloneState st =
     \<lparr>sta_Version = sta_Version st,
      sta_UI = \<lparr>ui_LastContext = ui_LastContext (sta_UI st), ui_LastNamespace = ui_LastNamespace (sta_UI st),
                ui_KubeconfigFiles = cloneStrings (ui_KubeconfigFiles (sta_UI st))\<rparr>,
      sta_MCP = normalizeMCP (sta_MCP st),
      sta_Clusters = Some (cloneClusters (clusters st))\<rparr>"

section \<open>Loading and saving: store.go\<close>

text \<open>What a file holds: the JSON text of a state, or a text that does not decode.\<close>

datatype stateFile = StateFile State | Undecodable string

record Store =
  st_path :: string
  st_state :: State
  st_disk :: "stateFile disk"

record senv = "stateFile wenv" +
  se_encode :: "goerr option"

definition newState :: State where
  "newState = \<lparr>sta_Version = currentVersion, sta_UI = zeroUI, sta_MCP = zeroMCP, sta_Clusters = Some []\<rparr>"

definition ErrNotExist :: goerr where "ErrNotExist = Errorf ''file does not exist''"

text \<open>\<^verbatim>\<open>Load\<close>, with the error of \<^verbatim>\<open>os.ReadFile\<close> for another reason than a missing file.\<close>

definition Load :: "goerr option \<Rightarrow> Store \<Rightarrow> goerr option \<times> Store" where
  "Load readErr s =
     (case readErr of Some e \<Rightarrow> (Some e, s) | None \<Rightarrow>
      case st_disk s (st_path s) of
        None \<Rightarrow> (Some ErrNotExist, s)
      | Some (Undecodable e) \<Rightarrow> (Some (Wrapf ''decode state: '' (Errorf e)), s)
      | Some (StateFile st) \<Rightarrow>
          let st1 = (if sta_Clusters st = None then st\<lparr>sta_Clusters := Some []\<rparr> else st);
              st2 = (if sta_Version st1 = 0 then st1\<lparr>sta_Version := currentVersion\<rparr> else st1)
          in (None, s\<lparr>st_state := st2\<rparr>))"

text \<open>
  \<^verbatim>\<open>Open\<close>: the default path is what \<^verbatim>\<open>DefaultPath\<close> computes from the home directory (an argument,
  \<^verbatim>\<open>os.UserHomeDir\<close>).
\<close>

definition DefaultPath :: "string res \<Rightarrow> string res" where
  "DefaultPath userHome =
     (case userHome of Inl e \<Rightarrow> Inl (Wrapf ''find user home directory: '' e)
      | Inr home \<Rightarrow> Inr (home @ ''/.kubeloop/state.json''))"

definition OpenStore :: "string res \<Rightarrow> goerr option \<Rightarrow> string \<Rightarrow> stateFile disk \<Rightarrow> Store res" where
  "OpenStore userHome readErr path0 d =
     bindE (if path0 = [] then DefaultPath userHome else Inr path0)
       (\<lambda>path. case Load readErr \<lparr>st_path = path, st_state = newState, st_disk = d\<rparr> of
          (None, s) \<Rightarrow> Inr s
        | (Some e, s) \<Rightarrow> if errors_is e ErrNotExist then Inr s else Inl e)"

definition saveLocked :: "senv \<Rightarrow> Store \<Rightarrow> goerr option \<times> Store" where
  "saveLocked env s =
     (let st1 = (st_state s)\<lparr>sta_Version := currentVersion\<rparr>;
          st2 = (if sta_Clusters st1 = None then st1\<lparr>sta_Clusters := Some []\<rparr> else st1);
          s2 = s\<lparr>st_state := st2\<rparr>
      in case se_encode env of
           Some e \<Rightarrow> (Some (Wrapf ''encode state: '' e), s2)
         | None \<Rightarrow>
             (let (err, ds) = WriteFile (wenv.truncate env) (st_path s) (StateFile st2) (st_disk s2);
                  s3 = s2\<lparr>st_disk := hd ds\<rparr>
              in case err of Some e \<Rightarrow> (Some (Wrapf ''save state: '' e), s3) | None \<Rightarrow> (None, s3)))"

definition Save :: "senv \<Rightarrow> Store \<Rightarrow> goerr option \<times> Store" where
  "Save env s = saveLocked env s"

definition Snapshot :: "Store \<Rightarrow> State" where
  "Snapshot s = cloneState (st_state s)"

text \<open>\<^verbatim>\<open>normalizeStorePath\<close>, over \<^verbatim>\<open>filepath.Clean\<close> and \<^verbatim>\<open>filepath.Abs\<close>.\<close>

definition normalizeStorePath :: "(string \<Rightarrow> string) \<Rightarrow> (string \<Rightarrow> string res) \<Rightarrow> string \<Rightarrow> string res" where
  "normalizeStorePath clean abs0 path0 =
     (let path = clean path0 in
      if path = [] \<or> path = ''.'' then Inl (Errorf ''kubeconfig path is required'')
      else case abs0 path of Inl e \<Rightarrow> Inl (Wrapf ''resolve kubeconfig path: '' e) | Inr p \<Rightarrow> Inr p)"

section \<open>Cluster intents: cluster_state.go\<close>

text \<open>
  \<^verbatim>\<open>ensureClusterLocked\<close> gives a pointer into the map; the model gives its value, and
  \<open>putCluster\<close> is the write through the pointer.
\<close>

definition ensureClusterLocked :: "string \<Rightarrow> State \<Rightarrow> ClusterState \<times> State" where
  "ensureClusterLocked contextName st =
     (let st1 = (if sta_Clusters st = None then st\<lparr>sta_Clusters := Some []\<rparr> else st) in
      case clusterAt st1 contextName of
        Some item \<Rightarrow> (item, st1)
      | None \<Rightarrow> (zeroCluster, st1\<lparr>sta_Clusters := Some (kv_put contextName (Some zeroCluster) (clusters st1))\<rparr>))"

definition putCluster :: "string \<Rightarrow> ClusterState \<Rightarrow> State \<Rightarrow> State" where
  "putCluster contextName c st = st\<lparr>sta_Clusters := Some (kv_put contextName (Some c) (clusters st))\<rparr>"

text \<open>
  The setters share their shape: nothing for an empty context, then a write through
  \<^verbatim>\<open>ensureClusterLocked\<close>, then \<^verbatim>\<open>saveLocked\<close>.
\<close>

definition updateCluster :: "(ClusterState \<Rightarrow> ClusterState) \<Rightarrow> string \<Rightarrow> State \<Rightarrow> State" where
  "updateCluster f contextName st =
     (let (cluster, st1) = ensureClusterLocked contextName st in putCluster contextName (f cluster) st1)"

definition setClusterField ::
  "senv \<Rightarrow> (ClusterState \<Rightarrow> ClusterState) \<Rightarrow> string \<Rightarrow> Store \<Rightarrow> goerr option \<times> Store" where
  "setClusterField env f contextName s =
     (if contextName = [] then (None, s)
      else saveLocked env (s\<lparr>st_state := updateCluster f contextName (st_state s)\<rparr>))"

text \<open>
  The loop that takes the flag from the other contexts, in the order the map is ranged over.
  A nil pointer is dereferenced: the program panics with the flags before it already cleared.
\<close>

fun disconnectOthers :: "string \<Rightarrow> clusterMap \<Rightarrow> bool \<times> clusterMap" where
  "disconnectOthers contextName [] = (True, [])"
| "disconnectOthers contextName ((name, item) # items) =
     (if name = contextName
      then (let (ok, rest) = disconnectOthers contextName items in (ok, (name, item) # rest))
      else case item of
        None \<Rightarrow> (False, (name, None) # items)
      | Some c \<Rightarrow> (let (ok, rest) = disconnectOthers contextName items
                  in (ok, (name, Some (c\<lparr>cl_Connected := False\<rparr>)) # rest)))"

text \<open>A call returns its error, or panics.\<close>

datatype ret = Returns "goerr option" | Panics

definition SetConnected :: "senv \<Rightarrow> string \<Rightarrow> string \<Rightarrow> bool \<Rightarrow> Store \<Rightarrow> ret \<times> Store" where
  "SetConnected env contextName namespace connected s =
     (if contextName = [] then (Returns None, s)
      else
        let ui1 = (sta_UI (st_state s))\<lparr>ui_LastContext := contextName\<rparr>;
            ui2 = (if namespace \<noteq> [] then ui1\<lparr>ui_LastNamespace := namespace\<rparr> else ui1);
            (c0, st1) = ensureClusterLocked contextName ((st_state s)\<lparr>sta_UI := ui2\<rparr>);
            c1 = c0\<lparr>cl_Connected := connected\<rparr>;
            c2 = (if namespace \<noteq> [] then c1\<lparr>cl_Namespace := namespace\<rparr> else c1);
            st2 = putCluster contextName c2 st1
        in if connected then
             (case disconnectOthers contextName (clusters st2) of
                (False, m) \<Rightarrow> (Panics, s\<lparr>st_state := st2\<lparr>sta_Clusters := Some m\<rparr>\<rparr>)
              | (True, m) \<Rightarrow>
                  (let (e, s') = saveLocked env (s\<lparr>st_state := st2\<lparr>sta_Clusters := Some m\<rparr>\<rparr>) in (Returns e, s')))
           else (let (e, s') = saveLocked env (s\<lparr>st_state := st2\<rparr>) in (Returns e, s')))"

definition SetConnectionMode :: "senv \<Rightarrow> string \<Rightarrow> string \<Rightarrow> Store \<Rightarrow> goerr option \<times> Store" where
  "SetConnectionMode env contextName mode s =
     (if contextName = [] then (None, s)
      else if mode \<noteq> ''tun'' \<and> mode \<noteq> ''socks''
      then (Some (Errorf (''invalid connection mode '' @ quote mode)), s)
      else setClusterField env (\<lambda>c. c\<lparr>cl_ConnectionMode := mode\<rparr>) contextName s)"

definition SetPortForwards :: "senv \<Rightarrow> string \<Rightarrow> PortForwardSpec list \<Rightarrow> Store \<Rightarrow> goerr option \<times> Store" where
  "SetPortForwards env contextName items s =
     setClusterField env (\<lambda>c. c\<lparr>cl_PortForwards := clonePortForwards items\<rparr>) contextName s"

definition clearIntents :: "ClusterState \<Rightarrow> ClusterState" where
  "clearIntents c = c\<lparr>cl_PortForwards := [], cl_Exchanges := [], cl_Mirrors := []\<rparr>"

fun clearLoop :: "clusterMap \<Rightarrow> bool \<times> clusterMap" where
  "clearLoop [] = (False, [])"
| "clearLoop ((name, None) # items) =
     (let (changed, rest) = clearLoop items in (changed, (name, None) # rest))"
| "clearLoop ((name, Some c) # items) =
     (let (changed, rest) = clearLoop items
      in (length (cl_PortForwards c) > 0 \<or> length (cl_Exchanges c) > 0 \<or> length (cl_Mirrors c) > 0 \<or> changed,
          (name, Some (clearIntents c)) # rest))"

definition ClearSessionIntents :: "senv \<Rightarrow> Store \<Rightarrow> goerr option \<times> Store" where
  "ClearSessionIntents env s =
     (case sta_Clusters (st_state s) of
        None \<Rightarrow> (None, s)
      | Some m \<Rightarrow>
          (let (changed, m') = clearLoop m;
               s' = s\<lparr>st_state := (st_state s)\<lparr>sta_Clusters := Some m'\<rparr>\<rparr>
           in if \<not> changed then (None, s') else saveLocked env s'))"

record intentCounts =
  ic_PodPortForwards :: nat
  ic_NetworkPortForwards :: nat
  ic_Exchanges :: nat
  ic_Mirrors :: nat

fun countForwards :: "PortForwardSpec list \<Rightarrow> intentCounts \<Rightarrow> intentCounts" where
  "countForwards [] counts = counts"
| "countForwards (item # items) counts =
     countForwards items
       (if pf_Kind item = ''pod'' then counts\<lparr>ic_PodPortForwards := ic_PodPortForwards counts + 1\<rparr>
        else counts\<lparr>ic_NetworkPortForwards := ic_NetworkPortForwards counts + 1\<rparr>)"

fun countClusters :: "clusterMap \<Rightarrow> intentCounts \<Rightarrow> intentCounts" where
  "countClusters [] counts = counts"
| "countClusters ((name, None) # items) counts = countClusters items counts"
| "countClusters ((name, Some c) # items) counts =
     (let counts1 = countForwards (cl_PortForwards c) counts
      in countClusters items
           (counts1\<lparr>ic_Exchanges := ic_Exchanges counts1 + length (cl_Exchanges c),
                    ic_Mirrors := ic_Mirrors counts1 + length (cl_Mirrors c)\<rparr>))"

definition SessionIntentCounts :: "Store \<Rightarrow> intentCounts" where
  "SessionIntentCounts s =
     countClusters (clusters (st_state s))
       \<lparr>ic_PodPortForwards = 0, ic_NetworkPortForwards = 0, ic_Exchanges = 0, ic_Mirrors = 0\<rparr>"

definition SetExchanges :: "senv \<Rightarrow> string \<Rightarrow> ExchangeSpec list \<Rightarrow> Store \<Rightarrow> goerr option \<times> Store" where
  "SetExchanges env contextName items s =
     setClusterField env (\<lambda>c. c\<lparr>cl_Exchanges := cloneExchanges items\<rparr>) contextName s"

definition SetMirrors :: "senv \<Rightarrow> string \<Rightarrow> MirrorSpec list \<Rightarrow> Store \<Rightarrow> goerr option \<times> Store" where
  "SetMirrors env contextName items s =
     setClusterField env (\<lambda>c. c\<lparr>cl_Mirrors := cloneMirrors items\<rparr>) contextName s"

definition SetPreviews :: "senv \<Rightarrow> string \<Rightarrow> PreviewSpec list \<Rightarrow> Store \<Rightarrow> goerr option \<times> Store" where
  "SetPreviews env contextName items s =
     setClusterField env (\<lambda>c. c\<lparr>cl_Previews := clonePreviews items\<rparr>) contextName s"

definition HostAliases :: "Store \<Rightarrow> string \<Rightarrow> HostAliasSpec list" where
  "HostAliases s contextName =
     (case clusterAt (st_state s) contextName of None \<Rightarrow> [] | Some c \<Rightarrow> cloneHostAliases (cl_HostAliases c))"

definition SetHostAliases :: "senv \<Rightarrow> string \<Rightarrow> HostAliasSpec list \<Rightarrow> Store \<Rightarrow> goerr option \<times> Store" where
  "SetHostAliases env contextName items s =
     setClusterField env
       (\<lambda>c. c\<lparr>cl_HostAliases := (if length items = 0 then [] else cloneHostAliases items)\<rparr>) contextName s"

definition getManualNetwork :: "Store \<Rightarrow> string \<Rightarrow> ManualNetwork" where
  "getManualNetwork s contextName =
     (case clusterAt (st_state s) contextName of
        None \<Rightarrow> zeroManualNetwork
      | Some c \<Rightarrow> (case cl_ManualNetwork c of None \<Rightarrow> zeroManualNetwork | Some n \<Rightarrow> cloneManualNetwork n))"

definition SetManualNetwork :: "senv \<Rightarrow> string \<Rightarrow> ManualNetwork \<Rightarrow> Store \<Rightarrow> goerr option \<times> Store" where
  "SetManualNetwork env contextName network s =
     setClusterField env
       (\<lambda>c. c\<lparr>cl_ManualNetwork :=
          (if length (mn_PodCIDRs network) = 0 \<and> length (mn_ServiceCIDRs network) = 0 \<and>
              mn_DNSServer network = [] \<and> length (mn_ClusterDomains network) = 0 \<and>
              mn_DNSNamespace network = []
           then None else Some (cloneManualNetwork network))\<rparr>) contextName s"

definition Cluster :: "Store \<Rightarrow> string \<Rightarrow> ClusterState" where
  "Cluster s contextName =
     (case clusterAt (st_state s) contextName of None \<Rightarrow> zeroCluster | Some c \<Rightarrow> cloneCluster c)"

section \<open>Settings: settings.go\<close>

definition MCP :: "Store \<Rightarrow> MCPConfig" where
  "MCP s = normalizeMCP (sta_MCP (st_state s))"

definition SetMCP :: "senv \<Rightarrow> MCPConfig \<Rightarrow> Store \<Rightarrow> goerr option \<times> Store" where
  "SetMCP env cfg s = saveLocked env (s\<lparr>st_state := (st_state s)\<lparr>sta_MCP := normalizeMCP cfg\<rparr>\<rparr>)"

definition SetUI :: "senv \<Rightarrow> string \<Rightarrow> string \<Rightarrow> Store \<Rightarrow> goerr option \<times> Store" where
  "SetUI env contextName namespace s =
     (let st1 = (st_state s)\<lparr>sta_UI := (sta_UI (st_state s))
                   \<lparr>ui_LastContext := contextName, ui_LastNamespace := namespace\<rparr>\<rparr>;
          st2 = (if contextName \<noteq> []
                 then updateCluster (\<lambda>c. if namespace \<noteq> [] then c\<lparr>cl_Namespace := namespace\<rparr> else c) contextName st1
                 else st1)
      in saveLocked env (s\<lparr>st_state := st2\<rparr>))"

definition KubeconfigFiles :: "Store \<Rightarrow> string list" where
  "KubeconfigFiles s = cloneStrings (ui_KubeconfigFiles (sta_UI (st_state s)))"

definition setFiles :: "string list \<Rightarrow> Store \<Rightarrow> Store" where
  "setFiles files s =
     s\<lparr>st_state := (st_state s)\<lparr>sta_UI := (sta_UI (st_state s))\<lparr>ui_KubeconfigFiles := files\<rparr>\<rparr>\<rparr>"

definition AddKubeconfigFile ::
  "senv \<Rightarrow> (string \<Rightarrow> string) \<Rightarrow> (string \<Rightarrow> string res) \<Rightarrow> string \<Rightarrow> Store \<Rightarrow> goerr option \<times> Store" where
  "AddKubeconfigFile env clean abs0 path0 s =
     (case normalizeStorePath clean abs0 path0 of
        Inl e \<Rightarrow> (Some e, s)
      | Inr path \<Rightarrow>
          let files = ui_KubeconfigFiles (sta_UI (st_state s)) in
          if path \<in> set files then (None, s)
          else saveLocked env (setFiles (files @ [path]) s))"

definition RemoveKubeconfigFile ::
  "senv \<Rightarrow> (string \<Rightarrow> string) \<Rightarrow> (string \<Rightarrow> string res) \<Rightarrow> string \<Rightarrow> Store \<Rightarrow> goerr option \<times> Store" where
  "RemoveKubeconfigFile env clean abs0 path0 s =
     (case normalizeStorePath clean abs0 path0 of
        Inl e \<Rightarrow> (Some e, s)
      | Inr path \<Rightarrow>
          let files = ui_KubeconfigFiles (sta_UI (st_state s));
              next0 = filter (\<lambda>existing. existing \<noteq> path) files in
          if length next0 = length files
          then (Some (Errorf (''kubeconfig file not found: '' @ path)), s)
          else saveLocked env (setFiles next0 s))"

section \<open>What a save leaves in memory and on disk\<close>

lemma clone_ids [simp]:
  "cloneStrings xs = xs" "cloneHostAliases hs = hs" "clonePortForwards ps = ps" "clonePortMappings ms = ms"
  "cloneExchanges es = es" "cloneMirrors rs = rs" "clonePreviews vs = vs" "cloneManualNetwork n = n"
  by (auto simp: cloneStrings_def cloneHostAliases_def clonePortForwards_def clonePortMappings_def
      cloneExchanges_def cloneMirrors_def clonePreviews_def cloneManualNetwork_def intro!: map_idI)

lemma cloneCluster_id [simp]: "cloneCluster c = c"
  by (cases "cl_ManualNetwork c") (simp_all add: cloneCluster_def)

lemma cloneClusters_filter: "cloneClusters m = filter (\<lambda>p. snd p \<noteq> None) m"
  by (induction m rule: cloneClusters.induct) simp_all

definition savedState :: "State \<Rightarrow> State" where
  "savedState st = st\<lparr>sta_Version := currentVersion, sta_Clusters := Some (clusters st)\<rparr>"

lemma clusters_savedState [simp]: "clusters (savedState st) = clusters st"
  by (simp add: savedState_def clusters_def)

lemma clusterAt_savedState [simp]: "clusterAt (savedState st) = clusterAt st"
  by (simp add: clusterAt_def fun_eq_iff)

lemma savedState_idem [simp]: "savedState (savedState st) = savedState st"
  by (simp add: savedState_def clusters_def)

definition file_state :: "State \<Rightarrow> State" where
  "file_state st =
     (let st1 = (if sta_Clusters st = None then st\<lparr>sta_Clusters := Some []\<rparr> else st)
      in if sta_Version st1 = 0 then st1\<lparr>sta_Version := currentVersion\<rparr> else st1)"

lemma clusters_file_state [simp]: "clusters (file_state st) = clusters st"
  by (simp add: file_state_def Let_def clusters_def)

lemma file_state_saved [simp]: "file_state (savedState st) = savedState st"
  by (simp add: file_state_def savedState_def currentVersion_def)

lemma saveLocked_eq:
  "saveLocked env s =
     (let st = savedState (st_state s);
          w = WriteFile (wenv.truncate env) (st_path s) (StateFile st) (st_disk s)
      in case se_encode env of
           Some e \<Rightarrow> (Some (Wrapf ''encode state: '' e), s\<lparr>st_state := st\<rparr>)
         | None \<Rightarrow> (map_option (Wrapf ''save state: '') (fst w), s\<lparr>st_state := st, st_disk := hd (snd w)\<rparr>))"
proof -
  have st: "(if sta_Clusters ((st_state s)\<lparr>sta_Version := currentVersion\<rparr>) = None
             then (st_state s)\<lparr>sta_Version := currentVersion\<rparr>\<lparr>sta_Clusters := Some []\<rparr>
             else (st_state s)\<lparr>sta_Version := currentVersion\<rparr>) = savedState (st_state s)"
    by (auto simp: savedState_def clusters_def)
  show ?thesis
    unfolding saveLocked_def Let_def st by (simp add: case_prod_beta split: option.split)
qed

lemma saveLocked_state [simp]:
  "st_state (snd (saveLocked env s)) = savedState (st_state s)" "st_path (snd (saveLocked env s)) = st_path s"
  by (simp_all add: saveLocked_eq Let_def split: option.split)

text \<open>The cases of a save: nothing written, or the state in memory.\<close>

lemma saveLocked_cases:
  assumes "we_temp env \<noteq> st_path s"
  obtains (saved) d where "saveLocked env s = (None, s\<lparr>st_state := savedState (st_state s), st_disk := d\<rparr>)"
      "d (st_path s) = Some (StateFile (savedState (st_state s)))"
  | (failed) e d where "saveLocked env s = (Some e, s\<lparr>st_state := savedState (st_state s), st_disk := d\<rparr>)"
      "d (st_path s) = st_disk s (st_path s)"
proof -
  let ?st = "savedState (st_state s)"
  let ?w = "WriteFile (wenv.truncate env) (st_path s) (StateFile ?st) (st_disk s)"
  have tmp: "we_temp (wenv.truncate env) \<noteq> st_path s"
    using assms by (simp add: wenv.truncate_def)
  note eq = saveLocked_eq [of env s, unfolded Let_def]
  show thesis
  proof (cases "se_encode env")
    case None
    show thesis
    proof (cases "fst ?w")
      case None
      with \<open>se_encode env = None\<close> show thesis
        by (intro saved [of "hd (snd ?w)"]) (simp_all add: eq WriteFile_result(1) [OF tmp])
    next
      case (Some e)
      with \<open>se_encode env = None\<close> show thesis
        by (intro failed [of "Wrapf ''save state: '' e" "hd (snd ?w)"])
           (simp_all add: eq WriteFile_result(2) [OF tmp])
    qed
  next
    case (Some e)
    then show thesis
      by (intro failed [of "Wrapf ''encode state: '' e" "st_disk s"]) (simp_all add: eq)
  qed
qed

lemma OpenStore_file:
  assumes "path \<noteq> []" "d path = Some (StateFile st)"
  shows "OpenStore userHome None path d = Inr \<lparr>st_path = path, st_state = file_state st, st_disk = d\<rparr>"
  using assms by (simp add: OpenStore_def Load_def file_state_def Let_def)

lemma OpenStore_missing:
  assumes "path \<noteq> []" "d path = None"
  shows "OpenStore userHome None path d = Inr \<lparr>st_path = path, st_state = newState, st_disk = d\<rparr>"
  using assms by (simp add: OpenStore_def Load_def ErrNotExist_def)

lemma OpenStore_Inr:
  assumes "OpenStore userHome readErr path d = Inr s" "path \<noteq> []"
  shows "st_path s = path \<and> st_disk s = d \<and>
    (st_state s = newState \<or> (\<exists>st. d path = Some (StateFile st) \<and> st_state s = file_state st))"
proof -
  define s0 where "s0 = \<lparr>st_path = path, st_state = newState, st_disk = d\<rparr>"
  obtain e s1 where l: "Load readErr s0 = (e, s1)" by fastforce
  with assms have s: "s = s1" by (simp add: OpenStore_def s0_def split: option.splits if_splits)
  have "s1 = s0 \<or> (\<exists>st. d path = Some (StateFile st) \<and> s1 = s0\<lparr>st_state := file_state st\<rparr>)"
  proof (cases "readErr = None \<and> (\<exists>st. d path = Some (StateFile st))")
    case True
    with l show ?thesis by (auto simp: Load_def s0_def file_state_def Let_def)
  next
    case False
    with l show ?thesis by (auto simp: Load_def s0_def split: option.splits stateFile.splits)
  qed
  with s show ?thesis by (auto simp: s0_def)
qed

section \<open>The fields of one context\<close>

lemma ensureClusterLocked_eq:
  "ensureClusterLocked n st =
     (case clusterAt st n of
        Some c \<Rightarrow> (c, st\<lparr>sta_Clusters := Some (clusters st)\<rparr>)
      | None \<Rightarrow> (zeroCluster, st\<lparr>sta_Clusters := Some (kv_put n (Some zeroCluster) (clusters st))\<rparr>))"
  by (cases "sta_Clusters st") (auto simp: ensureClusterLocked_def clusterAt_def clusters_def split: option.split)

lemma kv_put_twice [simp]: "kv_put k v (kv_put k w m) = kv_put k v m"
  by (induction m) (auto simp: kv_put_def)

definition at_or_zero :: "State \<Rightarrow> string \<Rightarrow> ClusterState" where
  "at_or_zero st n = (case clusterAt st n of None \<Rightarrow> zeroCluster | Some c \<Rightarrow> c)"

lemma updateCluster_eq:
  "updateCluster f n st = st\<lparr>sta_Clusters := Some (kv_put n (Some (f (at_or_zero st n))) (clusters st))\<rparr>"
  by (auto simp: updateCluster_def ensureClusterLocked_eq putCluster_def clusters_def at_or_zero_def
      split: option.split)

lemma Cluster_at_or_zero: "Cluster s n = at_or_zero (st_state s) n"
  by (simp add: Cluster_def at_or_zero_def split: option.split)

lemma clusterAt_updateCluster [simp]:
  "clusterAt (updateCluster f n st) k = (if k = n then Some (f (at_or_zero st n)) else clusterAt st k)"
  by (auto simp: updateCluster_eq clusterAt_def clusters_def kv_simps split: option.split)

lemma disconnectOthers_spec:
  "(\<forall>p \<in> set m. snd p = None \<longrightarrow> fst p = n) \<Longrightarrow>
   disconnectOthers n m =
     (True, map (\<lambda>(k, c). (k, if k = n then c else map_option (\<lambda>x. x\<lparr>cl_Connected := False\<rparr>) c)) m)"
  by (induction m) (auto split: option.split)

lemma disconnectOthers_panic:
  "(k, None) \<in> set m \<Longrightarrow> k \<noteq> n \<Longrightarrow> fst (disconnectOthers n m) = False"
  by (induction m) (auto split: if_splits option.splits prod.splits)

lemma clearLoop_eq:
  "clearLoop m =
     (\<exists>p \<in> set m. \<exists>c. snd p = Some c \<and> (cl_PortForwards c \<noteq> [] \<or> cl_Exchanges c \<noteq> [] \<or> cl_Mirrors c \<noteq> []),
      map (\<lambda>(k, c). (k, map_option clearIntents c)) m)"
  by (induction m rule: clearLoop.induct) auto

section \<open>Operations, faults, crashes and restarts as a transition system\<close>

datatype storeOp =
    OpConnected string string bool
  | OpMode string string
  | OpPortForwards string "PortForwardSpec list"
  | OpExchanges string "ExchangeSpec list"
  | OpMirrors string "MirrorSpec list"
  | OpPreviews string "PreviewSpec list"
  | OpHostAliases string "HostAliasSpec list"
  | OpManualNetwork string ManualNetwork
  | OpClear
  | OpMCP MCPConfig
  | OpUI string string
  | OpAddFile string
  | OpRemoveFile string
  | OpSave

record paths =
  ps_clean :: "string \<Rightarrow> string"
  ps_abs :: "string \<Rightarrow> string res"

abbreviation returns :: "goerr option \<times> Store \<Rightarrow> ret \<times> Store" where
  "returns r \<equiv> (Returns (fst r), snd r)"

fun run :: "paths \<Rightarrow> senv \<Rightarrow> storeOp \<Rightarrow> Store \<Rightarrow> ret \<times> Store" where
  "run ps env (OpConnected n ns b) s = SetConnected env n ns b s"
| "run ps env (OpMode n mode) s = returns (SetConnectionMode env n mode s)"
| "run ps env (OpPortForwards n xs) s = returns (SetPortForwards env n xs s)"
| "run ps env (OpExchanges n xs) s = returns (SetExchanges env n xs s)"
| "run ps env (OpMirrors n xs) s = returns (SetMirrors env n xs s)"
| "run ps env (OpPreviews n xs) s = returns (SetPreviews env n xs s)"
| "run ps env (OpHostAliases n xs) s = returns (SetHostAliases env n xs s)"
| "run ps env (OpManualNetwork n x) s = returns (SetManualNetwork env n x s)"
| "run ps env OpClear s = returns (ClearSessionIntents env s)"
| "run ps env (OpMCP cfg) s = returns (SetMCP env cfg s)"
| "run ps env (OpUI n ns) s = returns (SetUI env n ns s)"
| "run ps env (OpAddFile p) s = returns (AddKubeconfigFile env (ps_clean ps) (ps_abs ps) p s)"
| "run ps env (OpRemoveFile p) s = returns (RemoveKubeconfigFile env (ps_clean ps) (ps_abs ps) p s)"
| "run ps env OpSave s = returns (Save env s)"

text \<open>
  A state of the store: no key twice, no nil pointer, and at most one context to reconnect.
\<close>

definition connectedAt :: "State \<Rightarrow> string \<Rightarrow> bool" where
  "connectedAt st n = (case clusterAt st n of None \<Rightarrow> False | Some c \<Rightarrow> cl_Connected c)"

definition state_ok :: "State \<Rightarrow> bool" where
  "state_ok st \<longleftrightarrow> kv_ok (clusters st) \<and> (\<forall>p \<in> set (clusters st). snd p \<noteq> None) \<and>
     (\<forall>a b. connectedAt st a \<and> connectedAt st b \<longrightarrow> a = b)"

lemma state_ok_new [simp]: "state_ok newState"
  by (simp add: state_ok_def newState_def clusters_def connectedAt_def clusterAt_def)

lemma connectedAt_cong: "clusters st = clusters st' \<Longrightarrow> connectedAt st = connectedAt st'"
  by (simp add: connectedAt_def clusterAt_def fun_eq_iff)

lemma state_ok_cong: "clusters st = clusters st' \<Longrightarrow> state_ok st = state_ok st'"
  using connectedAt_cong [of st st'] by (simp add: state_ok_def)

lemma state_ok_saved [simp]: "state_ok (savedState st) = state_ok st"
  by (rule state_ok_cong) simp

lemma state_ok_file [simp]: "state_ok (file_state st) = state_ok st"
  by (rule state_ok_cong) simp

lemma state_ok_updateCluster:
  assumes ok: "state_ok st" and keep: "\<And>c. cl_Connected (f c) = cl_Connected c"
  shows "state_ok (updateCluster f n st)"
proof -
  have c: "clusters (updateCluster f n st) = kv_put n (Some (f (at_or_zero st n))) (clusters st)"
    by (simp add: updateCluster_eq clusters_def)
  have "connectedAt (updateCluster f n st) k = connectedAt st k" for k
    by (auto simp: connectedAt_def keep at_or_zero_def zeroCluster_def split: option.split)
  with ok show ?thesis by (auto simp: state_ok_def c set_kv_put)
qed

lemma kv_get_map_val: "kv_get (map (\<lambda>(k, c). (k, g k c)) m) k = map_option (g k) (kv_get m k)"
  by (induction m) (auto simp: kv_get_def)

lemma kv_ok_map_val [simp]: "kv_ok (map (\<lambda>(k, c). (k, g k c)) m) = kv_ok m"
  by (simp add: kv_ok_def comp_def case_prod_beta)

text \<open>What \<^verbatim>\<open>SetConnected\<close> leaves of a state without nil pointers.\<close>

definition connectState :: "string \<Rightarrow> string \<Rightarrow> bool \<Rightarrow> State \<Rightarrow> State" where
  "connectState n ns b st =
     (let ui = (sta_UI st)\<lparr>ui_LastContext := n\<rparr>;
          c = (at_or_zero st n)\<lparr>cl_Connected := b\<rparr>;
          m = kv_put n (Some (if ns \<noteq> [] then c\<lparr>cl_Namespace := ns\<rparr> else c)) (clusters st)
      in st\<lparr>sta_UI := (if ns \<noteq> [] then ui\<lparr>ui_LastNamespace := ns\<rparr> else ui),
            sta_Clusters := Some (if b
              then map (\<lambda>(k, c). (k, if k = n then c else map_option (\<lambda>x. x\<lparr>cl_Connected := False\<rparr>) c)) m
              else m)\<rparr>)"

lemma clusters_ui [simp]: "clusters (st\<lparr>sta_UI := u\<rparr>) = clusters st" "clusterAt (st\<lparr>sta_UI := u\<rparr>) = clusterAt st"
  by (simp_all add: clusters_def clusterAt_def fun_eq_iff)

lemma clusters_with [simp]: "clusters (st\<lparr>sta_Clusters := Some m\<rparr>) = m"
  by (simp add: clusters_def)

lemma SetConnected_eq:
  assumes "\<forall>p \<in> set (clusters (st_state s)). snd p \<noteq> None" "n \<noteq> []" "kv_ok (clusters (st_state s))"
  shows "SetConnected env n ns b s = returns (saveLocked env (s\<lparr>st_state := connectState n ns b (st_state s)\<rparr>))"
proof -
  let ?st = "st_state s"
  let ?ui = "(sta_UI ?st)\<lparr>ui_LastContext := n\<rparr>"
  let ?ui2 = "if ns \<noteq> [] then ?ui\<lparr>ui_LastNamespace := ns\<rparr> else ?ui"
  let ?c = "(at_or_zero ?st n)\<lparr>cl_Connected := b\<rparr>"
  let ?c2 = "if ns \<noteq> [] then ?c\<lparr>cl_Namespace := ns\<rparr> else ?c"
  let ?m = "kv_put n (Some ?c2) (clusters ?st)"
  obtain c0 st1 where en: "ensureClusterLocked n (?st\<lparr>sta_UI := ?ui2\<rparr>) = (c0, st1)" by fastforce
  have c0: "c0 = at_or_zero ?st n" and put: "putCluster n c st1 = ?st\<lparr>sta_UI := ?ui2, sta_Clusters := Some (kv_put n (Some c) (clusters ?st))\<rparr>" for c
    using en by (auto simp: ensureClusterLocked_eq at_or_zero_def putCluster_def clusters_def split: option.splits)
  have "\<forall>p \<in> set ?m. snd p = None \<longrightarrow> fst p = n"
    using assms by (auto simp: set_kv_put)
  note d = disconnectOthers_spec [OF this]
  show ?thesis
    using assms(2) en put d unfolding SetConnected_def connectState_def c0
    by (cases "ns = []"; cases b) (simp_all add: Let_def case_prod_beta)
qed

lemma clusterAt_connectState:
  "clusterAt (connectState n ns b st) k =
     (if k = n then Some (let c = (at_or_zero st n)\<lparr>cl_Connected := b\<rparr>
                          in if ns \<noteq> [] then c\<lparr>cl_Namespace := ns\<rparr> else c)
      else if b then map_option (\<lambda>x. x\<lparr>cl_Connected := False\<rparr>) (clusterAt st k) else clusterAt st k)"
  by (auto simp: connectState_def Let_def clusterAt_def clusters_def kv_get_map_val kv_simps split: option.split)

lemma state_ok_connectState:
  assumes "state_ok st" shows "state_ok (connectState n ns b st)"
proof -
  have ok: "kv_ok (clusters st)" and nn: "\<forall>p \<in> set (clusters st). snd p \<noteq> None"
    using assms by (simp_all add: state_ok_def)
  have "connectedAt (connectState n ns b st) k = (if k = n then b else \<not> b \<and> connectedAt st k)" for k
    by (auto simp: connectedAt_def clusterAt_connectState Let_def split: option.split)
  moreover have "kv_ok (clusters (connectState n ns b st))"
    using ok by (simp add: connectState_def Let_def)
  moreover have "\<forall>p \<in> set (clusters (connectState n ns b st)). snd p \<noteq> None"
    using ok nn by (auto simp: connectState_def Let_def set_kv_put)
  ultimately show ?thesis using assms unfolding state_ok_def by (metis (no_types, lifting))
qed

lemma setClusterField_eq:
  "setClusterField env f n s =
     (if n = [] then (None, s) else saveLocked env (s\<lparr>st_state := updateCluster f n (st_state s)\<rparr>))"
  by (simp add: setClusterField_def)

lemmas setter_defs = SetConnectionMode_def SetPortForwards_def SetExchanges_def SetMirrors_def
  SetPreviews_def SetHostAliases_def SetManualNetwork_def

lemma setManual_returns:
  "returns (SetManualNetwork env n network s) = returns (setClusterField env
     (\<lambda>c. c\<lparr>cl_ManualNetwork := (if network = zeroManualNetwork then None else Some network)\<rparr>) n s)"
proof -
  have "(length (mn_PodCIDRs network) = 0 \<and> length (mn_ServiceCIDRs network) = 0 \<and> mn_DNSServer network = [] \<and>
      length (mn_ClusterDomains network) = 0 \<and> mn_DNSNamespace network = []) = (network = zeroManualNetwork)"
    by (cases network) (auto simp: zeroManualNetwork_def)
  then show ?thesis by (simp only: SetManualNetwork_def clone_ids)
qed

lemma clearIntents_id:
  "cl_PortForwards c = [] \<Longrightarrow> cl_Exchanges c = [] \<Longrightarrow> cl_Mirrors c = [] \<Longrightarrow> clearIntents c = c"
  by (cases c) (simp add: clearIntents_def)

lemma clearIntents_connected [simp]: "cl_Connected (clearIntents c) = cl_Connected c"
  by (simp add: clearIntents_def)

definition clearState :: "State \<Rightarrow> State" where
  "clearState st = st\<lparr>sta_Clusters := Some (map (\<lambda>(k, c). (k, map_option clearIntents c)) (clusters st))\<rparr>"

lemma clusterAt_clearState [simp]: "clusterAt (clearState st) k = map_option clearIntents (clusterAt st k)"
  using kv_get_map_val [of "\<lambda>_. map_option clearIntents" "clusters st" k]
  by (simp add: clearState_def clusterAt_def split: option.split)

lemma state_ok_clearState: "state_ok st \<Longrightarrow> state_ok (clearState st)"
proof -
  assume ok: "state_ok st"
  have "connectedAt (clearState st) = connectedAt st"
    by (auto simp: connectedAt_def fun_eq_iff split: option.split)
  with ok show "state_ok (clearState st)"
    using kv_ok_map_val [of "\<lambda>_. map_option clearIntents" "clusters st"]
    by (auto simp: state_ok_def clearState_def)
qed

lemma ClearSessionIntents_cases:
  obtains (kept) "ClearSessionIntents env s = (None, s)" "clearState (st_state s) = (st_state s)\<lparr>sta_Clusters := Some (clusters (st_state s))\<rparr>"
  | (saves) "ClearSessionIntents env s = saveLocked env (s\<lparr>st_state := clearState (st_state s)\<rparr>)"
proof -
  show thesis
  proof (cases "sta_Clusters (st_state s)")
  case None
  then show thesis by (intro kept) (simp_all add: ClearSessionIntents_def clearState_def clusters_def)
next
  case (Some m)
  let ?P = "\<exists>p \<in> set m. \<exists>c. snd p = Some c \<and> (cl_PortForwards c \<noteq> [] \<or> cl_Exchanges c \<noteq> [] \<or> cl_Mirrors c \<noteq> [])"
  have cl: "clusters (st_state s) = m" using Some by (simp add: clusters_def)
  show thesis
  proof (cases ?P)
    case True
    with Some cl show thesis
      by (intro saves) (simp add: ClearSessionIntents_def clearLoop_eq clearState_def)
  next
    case False
    have one: "map_option clearIntents c = c" if "(k, c) \<in> set m" for k c
      using False that by (cases c) (auto intro!: clearIntents_id)
    have "map (\<lambda>(k, c). (k, map_option clearIntents c)) m = m"
      by (rule map_idI) (auto simp: one)
    with False Some cl show thesis
      by (intro kept) (simp_all add: ClearSessionIntents_def clearLoop_eq clearState_def)
  qed
  qed
qed

text \<open>
  Every operation on a good state either leaves the store alone or saves a good state; none
  of them panics.
\<close>

lemma run_cases:
  assumes ok: "state_ok (st_state s)"
  obtains (kept) e where "run ps env op s = (Returns e, s)"
  | (saves) st where "run ps env op s = returns (saveLocked env (s\<lparr>st_state := st\<rparr>))" "state_ok st"
proof -
  have upd: thesis if "run ps env op s = returns (setClusterField env f n s)"
    and "\<And>c. cl_Connected (f c) = cl_Connected c" for f n
    using that kept saves [of "updateCluster f n (st_state s)"] state_ok_updateCluster [OF ok, of f n]
    by (cases "n = []") (simp_all add: setClusterField_eq)
  have same: "state_ok st" if "clusters st = clusters (st_state s)" for st
    using ok state_ok_cong [OF that] by simp
  have files: thesis if "run ps env op s = returns (saveLocked env (setFiles fs s))" for fs
    using that saves [OF _ same] by (simp add: setFiles_def)
  show thesis
  proof (cases op)
    case (OpConnected n ns b)
    show thesis
    proof (cases "n = []")
      case True
      then show thesis using OpConnected kept [of None] by (simp add: SetConnected_def)
    next
      case False
      then show thesis
        using OpConnected ok saves [OF _ state_ok_connectState [OF ok]]
        by (simp add: SetConnected_eq state_ok_def)
    qed
  next
    case (OpMode n mode)
    show thesis
    proof (cases "n = [] \<or> mode \<noteq> ''tun'' \<and> mode \<noteq> ''socks''")
      case True
      then show thesis using OpMode kept by (auto simp: SetConnectionMode_def)
    next
      case False
      then show thesis
        by (intro upd [of "\<lambda>c. c\<lparr>cl_ConnectionMode := mode\<rparr>" n]) (auto simp: OpMode SetConnectionMode_def)
    qed
  next
    case (OpPortForwards n xs) then show thesis
      by (intro upd [of "\<lambda>c. c\<lparr>cl_PortForwards := clonePortForwards xs\<rparr>" n]) (simp_all add: setter_defs)
  next
    case (OpExchanges n xs) then show thesis
      by (intro upd [of "\<lambda>c. c\<lparr>cl_Exchanges := cloneExchanges xs\<rparr>" n]) (simp_all add: setter_defs)
  next
    case (OpMirrors n xs) then show thesis
      by (intro upd [of "\<lambda>c. c\<lparr>cl_Mirrors := cloneMirrors xs\<rparr>" n]) (simp_all add: setter_defs)
  next
    case (OpPreviews n xs) then show thesis
      by (intro upd [of "\<lambda>c. c\<lparr>cl_Previews := clonePreviews xs\<rparr>" n]) (simp_all add: setter_defs)
  next
    case (OpHostAliases n xs) then show thesis
      by (intro upd [of "\<lambda>c. c\<lparr>cl_HostAliases := if length xs = 0 then [] else cloneHostAliases xs\<rparr>" n]) (simp_all add: setter_defs)
  next
    case (OpManualNetwork n x)
    then show thesis
      by (intro upd [OF trans [OF _ setManual_returns]]) (simp_all only: run.simps, simp)
  next
    case OpClear
    show thesis
      by (rule ClearSessionIntents_cases [of env s])
         (use OpClear kept saves [OF _ state_ok_clearState [OF ok]] in simp_all)
  next
    case (OpMCP cfg)
    then show thesis
      by (intro saves [OF _ same, of "(st_state s)\<lparr>sta_MCP := normalizeMCP cfg\<rparr>"])
         (simp_all add: SetMCP_def clusters_def)
  next
    case (OpUI n ns)
    let ?st = "(st_state s)\<lparr>sta_UI := (sta_UI (st_state s))\<lparr>ui_LastContext := n, ui_LastNamespace := ns\<rparr>\<rparr>"
    let ?f = "\<lambda>c. if ns \<noteq> [] then c\<lparr>cl_Namespace := ns\<rparr> else c"
    have ok1: "state_ok ?st" by (rule same) simp
    show thesis
    proof (rule saves)
      show "run ps env op s =
        returns (saveLocked env (s\<lparr>st_state := (if n \<noteq> [] then updateCluster ?f n ?st else ?st)\<rparr>))"
        by (simp add: OpUI SetUI_def Let_def)
      show "state_ok (if n \<noteq> [] then updateCluster ?f n ?st else ?st)"
        using state_ok_updateCluster [OF ok1, of ?f n] ok1 by (cases "n = []") simp_all
    qed
  next
    case (OpAddFile p)
    show thesis
    proof (cases "normalizeStorePath (ps_clean ps) (ps_abs ps) p")
      case (Inl e)
      then show thesis using OpAddFile kept by (simp add: AddKubeconfigFile_def)
    next
      case (Inr path)
      show thesis
      proof (cases "path \<in> set (ui_KubeconfigFiles (sta_UI (st_state s)))")
        case True
        then show thesis using OpAddFile Inr kept by (simp add: AddKubeconfigFile_def)
      next
        case False
        then show thesis using OpAddFile Inr
          by (intro files [of "ui_KubeconfigFiles (sta_UI (st_state s)) @ [path]"]) (simp add: AddKubeconfigFile_def)
      qed
    qed
  next
    case (OpRemoveFile p)
    let ?fs = "ui_KubeconfigFiles (sta_UI (st_state s))"
    show thesis
    proof (cases "normalizeStorePath (ps_clean ps) (ps_abs ps) p")
      case (Inl e)
      then show thesis using OpRemoveFile kept by (simp add: RemoveKubeconfigFile_def)
    next
      case (Inr path)
      show thesis
      proof (cases "length (filter (\<lambda>x. x \<noteq> path) ?fs) = length ?fs")
        case True
        then show thesis using OpRemoveFile Inr kept by (simp add: RemoveKubeconfigFile_def)
      next
        case False
        then show thesis using OpRemoveFile Inr
          by (intro files [of "filter (\<lambda>x. x \<noteq> path) ?fs"]) (simp add: RemoveKubeconfigFile_def)
      qed
    qed
  next
    case OpSave
    then show thesis using saves [of "st_state s"] ok by (simp add: Save_def)
  qed
qed

text \<open>
  The life of the store on one machine: operations, whose save may fail; a crash while an
  operation replaces the file, after which the program starts again from whatever state the
  disk was in; and an orderly restart.
\<close>

definition disk_ok :: "Store \<Rightarrow> bool" where
  "disk_ok s \<longleftrightarrow> (\<forall>st. st_disk s (st_path s) = Some (StateFile st) \<longrightarrow> state_ok st)"

definition store_init :: "string \<Rightarrow> Store \<Rightarrow> bool" where
  "store_init path s \<longleftrightarrow> path \<noteq> [] \<and> s = \<lparr>st_path = path, st_state = newState, st_disk = (\<lambda>_. None)\<rparr>"

inductive store_step :: "Store \<Rightarrow> Store \<Rightarrow> bool" where
  step_op: "we_temp env \<noteq> st_path s \<Longrightarrow> run ps env op s = (r, s') \<Longrightarrow> store_step s s'"
| step_crash: "we_temp env \<noteq> st_path s \<Longrightarrow> run ps env op s = (r, s1) \<Longrightarrow>
     d \<in> set (snd (WriteFile (wenv.truncate env) (st_path s) (StateFile (st_state s1)) (st_disk s))) \<Longrightarrow>
     OpenStore userHome readErr (st_path s) d = Inr s' \<Longrightarrow> store_step s s'"
| step_restart: "OpenStore userHome readErr (st_path s) (st_disk s) = Inr s' \<Longrightarrow> store_step s s'"

definition store_inv :: "Store \<Rightarrow> bool" where
  "store_inv s \<longleftrightarrow> st_path s \<noteq> [] \<and> state_ok (st_state s) \<and> disk_ok s"

lemma run_inv:
  assumes "store_inv s" "we_temp env \<noteq> st_path s" "run ps env op s = (r, s')"
  shows "store_inv s' \<and> st_path s' = st_path s \<and> r \<noteq> Panics"
proof -
  from assms(1) have ok: "state_ok (st_state s)" by (simp add: store_inv_def)
  show ?thesis
  proof (cases rule: run_cases [OF ok, of ps env op])
    case (1 e)
    with assms show ?thesis by auto
  next
    case (2 st)
    from assms(2) have "we_temp env \<noteq> st_path (s\<lparr>st_state := st\<rparr>)" by simp
    then show ?thesis
      by (cases rule: saveLocked_cases)
         (use assms 2 in \<open>auto simp: store_inv_def disk_ok_def\<close>)
  qed
qed

lemma open_inv:
  assumes "OpenStore userHome readErr path d = Inr s" "path \<noteq> []"
    and "\<And>st. d path = Some (StateFile st) \<Longrightarrow> state_ok st"
  shows "store_inv s"
  using OpenStore_Inr [OF assms(1,2)] assms(2,3) by (auto simp: store_inv_def disk_ok_def)

interpretation ss: inv_system "store_init path" store_step store_inv for path
proof (unfold_locales, goal_cases)
  case (1 s)
  then show ?case by (simp add: store_init_def store_inv_def disk_ok_def)
next
  case (2 s t)
  from 2(2) show ?case
  proof cases
    case (step_op env ps op r)
    then show ?thesis using run_inv [OF 2(1)] by blast
  next
    case (step_crash env ps op r s1 d userHome readErr)
    from run_inv [OF 2(1) step_crash(1,2)] have s1: "state_ok (st_state s1)" by (simp add: store_inv_def)
    from step_crash(1) have "we_temp (wenv.truncate env) \<noteq> st_path s" by (simp add: wenv.truncate_def)
    from WriteFile_target [OF this step_crash(3)] s1 2(1)
    have "state_ok st" if "d (st_path s) = Some (StateFile st)" for st
      using that by (auto simp: store_inv_def disk_ok_def)
    with open_inv [OF step_crash(4)] 2(1) show ?thesis by (simp add: store_inv_def)
  next
    case (step_restart userHome readErr)
    with open_inv [OF this] 2(1) show ?thesis by (auto simp: store_inv_def disk_ok_def)
  qed
qed

text \<open>
  C27. Only one context may reconnect automatically: whatever operations run, whichever of their
  saves fail, and wherever the program crashes and starts again, at most one context is marked
  connected, in memory and in the state file; and in every such state the operations return
  (the loop of \<^verbatim>\<open>SetConnected\<close> meets no nil pointer).
\<close>

theorem store_single_connected:
  assumes "reach (store_init path) store_step s"
  shows "(connectedAt (st_state s) a \<and> connectedAt (st_state s) b \<longrightarrow> a = b) \<and>
    (st_disk s (st_path s) = Some (StateFile st) \<and> connectedAt st a \<and> connectedAt st b \<longrightarrow> a = b) \<and>
    (we_temp env \<noteq> st_path s \<longrightarrow> fst (run ps env op s) \<noteq> Panics)"
proof -
  have inv: "store_inv s" by (rule ss.reach_inv [OF assms])
  then have "connectedAt (st_state s) a \<and> connectedAt (st_state s) b \<longrightarrow> a = b"
    "st_disk s (st_path s) = Some (StateFile st) \<and> connectedAt st a \<and> connectedAt st b \<longrightarrow> a = b"
    by (auto simp: store_inv_def disk_ok_def state_ok_def)
  moreover have "we_temp env \<noteq> st_path s \<longrightarrow> fst (run ps env op s) \<noteq> Panics"
    using run_inv [OF inv] by (metis prod.collapse)
  ultimately show ?thesis by blast
qed

definition ex_senv :: senv where
  "ex_senv = \<lparr>we_temp = ''/h/.state.json.tmp-1'', we_empty = Undecodable ''empty'', we_partial = Undecodable ''cut'',
     we_mkdir = None, we_create = None, we_chmod = None, we_write = None, we_sync = None, we_close = None,
     we_rename = None, we_remove = None, se_encode = None\<rparr>"

definition ex_paths :: paths where
  "ex_paths = \<lparr>ps_clean = (\<lambda>p. p), ps_abs = Inr\<rparr>"

definition ex_store :: Store where
  "ex_store = \<lparr>st_path = ''/h/state.json'', st_state = newState, st_disk = (\<lambda>_. None)\<rparr>"

definition ex_store2 :: Store where
  "ex_store2 = snd (SetConnected ex_senv ''dev'' ''web'' True ex_store)"

definition ex_store3 :: Store where
  "ex_store3 = snd (SetConnected ex_senv ''prod'' ''api'' True ex_store2)"

lemma ex_temp [simp]: "we_temp ex_senv = ''/h/.state.json.tmp-1''" "st_path ex_store = ''/h/state.json''"
  by (simp_all add: ex_senv_def ex_store_def)

lemma ex_store_inv: "store_inv ex_store"
  by (simp add: store_inv_def ex_store_def disk_ok_def)

lemma ex_store2_step: "store_step ex_store ex_store2"
  using step_op [of ex_senv ex_store ex_paths "OpConnected ''dev'' ''web'' True"]
  by (simp add: ex_store2_def prod_eq_iff)

lemma ex_store2_inv: "store_inv ex_store2" "st_path ex_store2 = ''/h/state.json''"
  using run_inv [OF ex_store_inv, of ex_senv ex_paths "OpConnected ''dev'' ''web'' True"]
  by (simp_all add: ex_store2_def prod_eq_iff)

lemma ex_store3_step: "store_step ex_store2 ex_store3"
  using step_op [of ex_senv ex_store2 ex_paths "OpConnected ''prod'' ''api'' True"] ex_store2_inv
  by (simp add: ex_store3_def prod_eq_iff)

lemma ex_store3_reach: "reach (store_init ''/h/state.json'') store_step ex_store3"
proof -
  have "reach (store_init ''/h/state.json'') store_step ex_store"
    by (rule reach_init) (simp add: store_init_def ex_store_def)
  then show ?thesis using ex_store2_step ex_store3_step by (blast intro: reach_step)
qed

lemma ex_store3_path: "st_path ex_store3 = ''/h/state.json''"
  using run_inv [OF ex_store2_inv(1), of ex_senv ex_paths "OpConnected ''prod'' ''api'' True"] ex_store2_inv(2)
  by (simp add: ex_store3_def prod_eq_iff)

lemma ex_store3_prod: "connectedAt (st_state ex_store3) ''prod''"
  by code_simp

theorem store_single_connected_witness:
  "connectedAt (st_state ex_store3) ''prod'' \<and> \<not> connectedAt (st_state ex_store3) ''dev'' \<and>
   fst (run ex_paths ex_senv (OpConnected ''dev'' ''web'' True) ex_store3) \<noteq> Panics"
  using store_single_connected [OF ex_store3_reach, of "''prod''" "''dev''"]
    store_single_connected [OF ex_store3_reach, where env = ex_senv and ps = ex_paths
      and op = "OpConnected ''dev'' ''web'' True"] ex_store3_prod ex_store3_path by simp

section \<open>What the next start finds\<close>

text \<open>The state in memory is the one in the file.\<close>

definition synced :: "Store \<Rightarrow> bool" where
  "synced s \<longleftrightarrow> st_path s \<noteq> [] \<and> savedState (st_state s) = st_state s \<and>
     st_disk s (st_path s) = Some (StateFile (st_state s))"

lemma synced_open:
  assumes "synced s"
  shows "OpenStore userHome None (st_path s) (st_disk s) = Inr s"
proof -
  from assms have st: "st_state s = savedState (st_state s)" by (simp add: synced_def)
  have "file_state (st_state s) = st_state s"
    by (subst st, subst file_state_saved, rule st [symmetric])
  then show ?thesis using assms by (simp add: synced_def OpenStore_file)
qed

text \<open>
  What a start finds after an operation: when the operation returned no error, the program
  that starts next has exactly the state in memory at that time; when its save failed, the state
  before the operation, although the operation has changed the memory. The state file is a whole
  state in either case.
\<close>

theorem store_restart:
  assumes "synced s" "state_ok (st_state s)" "we_temp env \<noteq> st_path s"
    and "run ps env op s = (Returns e, s')"
  shows "(e = None \<longrightarrow> OpenStore userHome None (st_path s) (st_disk s') = Inr s') \<and>
    (e \<noteq> None \<longrightarrow> OpenStore userHome None (st_path s) (st_disk s') = Inr (s\<lparr>st_disk := st_disk s'\<rparr>))"
proof (cases rule: run_cases [OF assms(2), of ps env op])
  case (1 e')
  with assms(4) have "s' = s" by simp
  with synced_open [OF assms(1)] show ?thesis by simp
next
  case (2 st)
  from assms(3) have "we_temp env \<noteq> st_path (s\<lparr>st_state := st\<rparr>)" by simp
  then show ?thesis
  proof (cases rule: saveLocked_cases)
    case (saved d)
    with 2 assms(4) have s': "s' = s\<lparr>st_state := savedState st, st_disk := d\<rparr>" and e: "e = None" by simp_all
    have "synced s'" using saved assms(1) by (simp add: s' synced_def)
    from synced_open [OF this] e show ?thesis by (simp add: s')
  next
    case (failed e' d)
    with 2 assms(4) have s': "s' = s\<lparr>st_state := savedState st, st_disk := d\<rparr>" and e: "e = Some e'" by simp_all
    have "synced (s\<lparr>st_disk := d\<rparr>)" using failed assms(1) by (simp add: synced_def)
    from synced_open [OF this] e show ?thesis by (simp add: s')
  qed
qed

lemma ex_store2_synced: "synced ex_store2"
  by (simp add: synced_def) code_simp

definition ex_full :: senv where
  "ex_full = ex_senv\<lparr>we_write := Some (Errorf ''no space left on device'')\<rparr>"

theorem store_restart_witness:
  "OpenStore (Inr ''/h'') None ''/h/state.json'' (st_disk ex_store3) = Inr ex_store3 \<and>
   OpenStore (Inr ''/h'') None ''/h/state.json''
     (st_disk (snd (run ex_paths ex_full (OpMode ''dev'' ''socks'') ex_store2))) =
     Inr (ex_store2\<lparr>st_disk := st_disk (snd (run ex_paths ex_full (OpMode ''dev'' ''socks'') ex_store2))\<rparr>) \<and>
   cl_ConnectionMode (Cluster (snd (run ex_paths ex_full (OpMode ''dev'' ''socks'') ex_store2)) ''dev'') = ''socks''"
proof -
  have ok: "state_ok (st_state ex_store2)" using ex_store2_inv by (simp add: store_inv_def)
  have t: "we_temp ex_senv \<noteq> st_path ex_store2" "we_temp ex_full \<noteq> st_path ex_store2"
    using ex_store2_inv by (simp_all add: ex_full_def)
  have r1: "run ex_paths ex_senv (OpConnected ''prod'' ''api'' True) ex_store2 = (Returns None, ex_store3)"
  proof -
    have "fst (run ex_paths ex_senv (OpConnected ''prod'' ''api'' True) ex_store2) = Returns None" by code_simp
    then show ?thesis by (simp add: ex_store3_def prod_eq_iff)
  qed
  have r2: "\<exists>e. run ex_paths ex_full (OpMode ''dev'' ''socks'') ex_store2 =
    (Returns (Some e), snd (run ex_paths ex_full (OpMode ''dev'' ''socks'') ex_store2))"
  proof -
    have "(case fst (run ex_paths ex_full (OpMode ''dev'' ''socks'') ex_store2) of
        Returns (Some e) \<Rightarrow> True | _ \<Rightarrow> False)" by code_simp
    then show ?thesis by (auto simp: prod_eq_iff split: ret.splits option.splits)
  qed
  have m: "cl_ConnectionMode (Cluster (snd (run ex_paths ex_full (OpMode ''dev'' ''socks'') ex_store2)) ''dev'') = ''socks''"
    by code_simp
  show ?thesis
    using store_restart [OF ex_store2_synced ok t(1) r1, of "Inr ''/h''"] r2 m
      store_restart [OF ex_store2_synced ok t(2), of ex_paths "OpMode ''dev'' ''socks''" "Some e" for e]
      ex_store2_inv(2) by (metis option.distinct(1))
qed

text \<open>
  The state file is replaced as a whole: at every point of \<^verbatim>\<open>fsatomic.WriteFile\<close>, whichever
  call fails, the file under the path is the old one or the complete new one; after success it is
  the new one and after an error the old one; no other file than the temporary one is touched, and
  that one is gone at the end unless its removal fails.
\<close>

theorem writefile_atomic:
  assumes "we_temp env \<noteq> path"
  shows "(\<forall>d' \<in> set (snd (WriteFile env path data d)).
            (d' path = d path \<or> d' path = Some data) \<and>
            (\<forall>q. q \<noteq> path \<and> q \<noteq> we_temp env \<longrightarrow> d' q = d q)) \<and>
    hd (snd (WriteFile env path data d)) path =
      (if fst (WriteFile env path data d) = None then Some data else d path) \<and>
    (d (we_temp env) = None \<and> we_remove env = None \<longrightarrow>
      hd (snd (WriteFile env path data d)) (we_temp env) = None)"
  using WriteFile_target [OF assms, of _ data d] WriteFile_others [of _ path env _ data d]
    WriteFile_result [OF assms, of data d] WriteFile_no_temp [OF assms, of d data]
  by auto

theorem writefile_atomic_witness:
  "list_all (\<lambda>d'. d' ''/h/state.json'' = None \<or> d' ''/h/state.json'' = Some (StateFile newState))
     (snd (WriteFile (wenv.truncate ex_full) ''/h/state.json'' (StateFile newState) (\<lambda>_. None))) \<and>
   hd (snd (WriteFile (wenv.truncate ex_full) ''/h/state.json'' (StateFile newState) (\<lambda>_. None))) ''/h/state.json'' = None"
proof -
  have t: "we_temp (wenv.truncate ex_full) \<noteq> ''/h/state.json''"
    by (simp add: ex_full_def wenv.truncate_def)
  have "fst (WriteFile (wenv.truncate ex_full) ''/h/state.json'' (StateFile newState) (\<lambda>_. None)) \<noteq> None"
    by (simp add: WriteFile_def ex_full_def ex_senv_def wenv.truncate_def Let_def)
  with writefile_atomic [OF t, of "StateFile newState" "\<lambda>_. None"] show ?thesis by (simp add: list_all_iff)
qed

text \<open>
  A state file whose \<^verbatim>\<open>clusters\<close> hold a null value is accepted by \<^verbatim>\<open>Load\<close>, and every other
  operation skips the entry; marking another context connected then panics, with nothing saved.
\<close>

theorem set_connected_nil_panics:
  assumes "(k, None) \<in> set (clusters (st_state s))" "kv_ok (clusters (st_state s))" "n \<noteq> []" "k \<noteq> n"
  shows "fst (SetConnected env n ns True s) = Panics \<and>
    st_disk (snd (SetConnected env n ns True s)) = st_disk s"
proof -
  let ?u = "(sta_UI (st_state s))\<lparr>ui_LastContext := n\<rparr>"
  let ?u2 = "if ns \<noteq> [] then ?u\<lparr>ui_LastNamespace := ns\<rparr> else ?u"
  obtain c0 st1 where en: "ensureClusterLocked n ((st_state s)\<lparr>sta_UI := ?u2\<rparr>) = (c0, st1)" by fastforce
  have put: "clusters (putCluster n c st1) = kv_put n (Some c) (clusters (st_state s))" for c
    using en by (auto simp: ensureClusterLocked_eq putCluster_def split: option.splits)
  have "(k, None) \<in> set (kv_put n (Some c) (clusters (st_state s)))" for c
    using assms by (simp add: set_kv_put)
  then have "fst (disconnectOthers n (kv_put n (Some c) (clusters (st_state s)))) = False" for c
    by (rule disconnectOthers_panic) (rule assms)
  then have d: "\<exists>m. disconnectOthers n (kv_put n (Some c) (clusters (st_state s))) = (False, m)" for c
    by (metis prod.collapse)
  let ?c = "if ns \<noteq> [] then c0\<lparr>cl_Connected := True, cl_Namespace := ns\<rparr> else c0\<lparr>cl_Connected := True\<rparr>"
  from d [of ?c] obtain m where m: "disconnectOthers n (kv_put n (Some ?c) (clusters (st_state s))) = (False, m)" ..
  show ?thesis
    using assms(3) en put m unfolding SetConnected_def
    by (cases "ns = []") (simp_all add: Let_def)
qed

definition ex_nil_store :: Store where
  "ex_nil_store = ex_store\<lparr>st_disk := (\<lambda>_. None)(''/h/state.json'' \<mapsto>
     StateFile (newState\<lparr>sta_Clusters := Some [(''old'', None)]\<rparr>))\<rparr>"

theorem set_connected_nil_panics_witness:
  "fst (Load None ex_nil_store) = None \<and>
   fst (SetConnected ex_senv ''dev'' ''web'' True (snd (Load None ex_nil_store))) = Panics"
proof -
  have l: "fst (Load None ex_nil_store) = None"
    "clusters (st_state (snd (Load None ex_nil_store))) = [(''old'', None)]"
    by (simp_all add: Load_def ex_nil_store_def ex_store_def newState_def clusters_def currentVersion_def Let_def)
  then have "(''old'', None) \<in> set (clusters (st_state (snd (Load None ex_nil_store))))"
    "kv_ok (clusters (st_state (snd (Load None ex_nil_store))))" by (simp_all add: kv_ok_def)
  from set_connected_nil_panics [OF this, of "''dev''"] l show ?thesis by simp
qed

end
