(* ===== verification/Tunnel.thy ===== *)
theory Tunnel
  imports Prelude
begin

text \<open>
  The Gateway wire protocol, \<^verbatim>\<open>internal/tunnel/protocol.go\<close> and
  \<^verbatim>\<open>internal/tunnel/control.go\<close>: the session header, the open, control and accept
  requests, status replies, length-prefixed datagrams and control messages.

  A reader is a function from the bytes of the stream to the value and the bytes left. A
  writer builds its bytes (\<open>\<dots>Bytes\<close>, the value the Go code hands to \<^verbatim>\<open>writeAll\<close>)
  and sends them with \<open>writeAll\<close>. The interface locales \<open>wire_codec\<close> and
  \<open>strict_codec\<close> state what a reader owes its writer; the protocol's codecs
  interpret them.
\<close>

section \<open>Interfaces of a framed codec\<close>

fun encode_all :: "('a \<Rightarrow> byte list res) \<Rightarrow> 'a list \<Rightarrow> byte list res" where
  "encode_all enc [] = Inr []"
| "encode_all enc (x # xs) =
     bindE (enc x) (\<lambda>b. bindE (encode_all enc xs) (\<lambda>bs. Inr (b @ bs)))"

fun decode_n :: "(byte list \<Rightarrow> ('a \<times> byte list) res) \<Rightarrow> nat \<Rightarrow> byte list \<Rightarrow> ('a list \<times> byte list) res"
where
  "decode_n dec 0 s = Inr ([], s)"
| "decode_n dec (Suc n) s =
     bindE (dec s) (\<lambda>(x, s'). bindE (decode_n dec n s') (\<lambda>(xs, r). Inr (x # xs, r)))"

locale wire_codec =
  fixes ok :: "'a \<Rightarrow> bool"
    and enc :: "'a \<Rightarrow> byte list res"
    and dec :: "byte list \<Rightarrow> ('a \<times> byte list) res"
  assumes round: "ok x \<Longrightarrow> enc x = Inr bs \<Longrightarrow> dec (bs @ rest) = Inr (x, rest)"
begin

lemma prefix_free:
  assumes "ok x" "ok y" "enc x = Inr bs" "enc y = Inr cs" "bs @ r = cs @ r'"
  shows "x = y \<and> r = r'"
  using round [of x bs r] round [of y cs r'] assms by simp

lemma enc_inject: "ok x \<Longrightarrow> ok y \<Longrightarrow> enc x = Inr bs \<Longrightarrow> enc y = Inr bs \<Longrightarrow> x = y"
  using prefix_free by blast

lemma stream_round:
  "list_all ok xs \<Longrightarrow> encode_all enc xs = Inr bs \<Longrightarrow>
   decode_n dec (length xs) (bs @ rest) = Inr (xs, rest)"
proof (induction xs arbitrary: bs)
  case Nil
  then show ?case by simp
next
  case (Cons x xs)
  then obtain b cs where b: "enc x = Inr b" and cs: "encode_all enc xs = Inr cs" and bs: "bs = b @ cs"
    by (auto simp: bindE_Inr_iff)
  from Cons have "decode_n dec (length xs) (cs @ rest) = Inr (xs, rest)" using cs by simp
  moreover have "dec (b @ cs @ rest) = Inr (x, cs @ rest)" using round b Cons.prems by simp
  ultimately show ?case by (simp add: bs)
qed

end

locale strict_codec = wire_codec +
  assumes canon: "dec s = Inr (x, rest) \<Longrightarrow> ok x \<and> (\<exists>bs. enc x = Inr bs \<and> s = bs @ rest)"
begin

lemma dec_iff: "dec s = Inr (x, rest) \<longleftrightarrow> ok x \<and> (\<exists>bs. enc x = Inr bs \<and> s = bs @ rest)"
  using canon round by blast

lemma dec_same_prefix:
  assumes "dec s = Inr (x, rest)" "dec s' = Inr (x, rest')"
  shows "\<exists>bs. s = bs @ rest \<and> s' = bs @ rest'"
  using canon [OF assms(1)] canon [OF assms(2)] by auto

end

section \<open>Requests and headers\<close>

abbreviation CommandTCP :: byte where "CommandTCP \<equiv> 1"
abbreviation CommandUDP :: byte where "CommandUDP \<equiv> 2"
abbreviation CommandControl :: byte where "CommandControl \<equiv> 3"
abbreviation CommandAccept :: byte where "CommandAccept \<equiv> 4"
abbreviation StatusOK :: byte where "StatusOK \<equiv> 0"
abbreviation StatusError :: byte where "StatusError \<equiv> 1"
abbreviation MaxDatagramSize :: nat where "MaxDatagramSize \<equiv> 65507"
abbreviation maxHostSize :: nat where "maxHostSize \<equiv> 1024"
abbreviation maxErrorSize :: nat where "maxErrorSize \<equiv> 4096"
abbreviation maxIDSize :: nat where "maxIDSize \<equiv> 256"

text \<open>The marker \<^verbatim>\<open>{'K', 'C', 'G', 2}\<close>.\<close>

definition magic :: "byte list" where
  "magic = [75, 67, 71, 2]"

text \<open>\<^verbatim>\<open>[32]byte\<close>: a byte list of length 32 (\<open>token_ok\<close>).\<close>

type_synonym SessionToken = "byte list"

definition token_ok :: "SessionToken \<Rightarrow> bool" where
  "token_ok t \<longleftrightarrow> length t = 32"

definition zero_token :: SessionToken where
  "zero_token = replicate 32 0"

record SessionHeader =
  hdr_Command :: byte
  hdr_Token :: SessionToken

record OpenRequest =
  Command :: byte
  Host :: string
  Port :: u16

text \<open>\<^verbatim>\<open>net.JoinHostPort\<close> and \<^verbatim>\<open>OpenRequest.Address\<close>.\<close>

definition join_host_port :: "string \<Rightarrow> string \<Rightarrow> string" where
  "join_host_port host port =
     (if CHR '':'' \<in> set host then ''['' @ host @ '']:'' @ port else host @ '':'' @ port)"

definition Address :: "OpenRequest \<Rightarrow> string" where
  "Address r = join_host_port (Host r) (itoa (unat (Port r)))"

function writeAll :: "writer \<Rightarrow> byte list \<Rightarrow> goerr option \<times> writer" where
  "writeAll w v =
     (if v = [] then (None, w)
      else case w_write w v of ((n, e), w') \<Rightarrow>
        (case e of
           Some err \<Rightarrow> (Some err, w')
         | None \<Rightarrow> if n = 0 then (Some ErrShortWrite, w') else writeAll w' (drop n v)))"
  by pat_completeness auto
termination
  by (relation "measure (length \<circ> snd)") auto

declare writeAll.simps [simp del]

text \<open>Sending what an encoder built: nothing is written when it fails.\<close>

definition send_res :: "writer \<Rightarrow> byte list res \<Rightarrow> goerr option \<times> writer" where
  "send_res w r = (case r of Inl e \<Rightarrow> (Some e, w) | Inr v \<Rightarrow> writeAll w v)"

definition appendSessionHeader :: "byte list \<Rightarrow> byte \<Rightarrow> SessionToken \<Rightarrow> byte list res" where
  "appendSessionHeader value command token =
     (if token = zero_token then Inl (Errorf ''Gateway session token is required'')
      else Inr (value @ magic @ [command] @ token))"

definition appendUint16String :: "byte list \<Rightarrow> string \<Rightarrow> byte list" where
  "appendUint16String value text = value @ put_u16 (word_of_nat (length text)) @ bytes_of text"

definition OpenBytes :: "OpenRequest \<Rightarrow> SessionToken \<Rightarrow> byte list res" where
  "OpenBytes request token =
     (if Command request \<noteq> CommandTCP \<and> Command request \<noteq> CommandUDP
      then Inl (Errorf (''unsupported command '' @ itoa (unat (Command request))))
      else if Host request = [] \<or> length (Host request) > maxHostSize
      then Inl (Errorf ''target host length is invalid'')
      else if Port request = 0 then Inl (Errorf ''target port is required'')
      else bindE (appendSessionHeader [] (Command request) token) (\<lambda>value.
        Inr (appendUint16String value (Host request) @ put_u16 (Port request))))"

definition WriteOpen :: "writer \<Rightarrow> OpenRequest \<Rightarrow> SessionToken \<Rightarrow> goerr option \<times> writer" where
  "WriteOpen w request token = send_res w (OpenBytes request token)"

definition ReadSessionHeader :: "byte list \<Rightarrow> (SessionHeader \<times> byte list) res" where
  "ReadSessionHeader r =
     bindE (read_full 37 r) (\<lambda>(header, rest).
       if take 4 header \<noteq> magic then Inl (Errorf ''invalid tunnel protocol magic'')
       else let token = drop 5 header in
         if token = zero_token then Inl (Errorf ''Gateway session token is required'')
         else Inr (\<lparr>hdr_Command = header ! 4, hdr_Token = token\<rparr>, rest))"

definition ReadOpenBody :: "byte list \<Rightarrow> byte \<Rightarrow> (OpenRequest \<times> byte list) res" where
  "ReadOpenBody r command =
     (if command \<noteq> CommandTCP \<and> command \<noteq> CommandUDP
      then Inl (Errorf (''unsupported command '' @ itoa (unat command)))
      else bindE (read_full 2 r) (\<lambda>(sizeBuf, r).
        let hostSize = unat (get_u16 sizeBuf) in
        if hostSize = 0 \<or> hostSize > maxHostSize
        then Inl (Errorf ''target host length is invalid'')
        else bindE (read_full (hostSize + 2) r) (\<lambda>(target, r).
          let port = get_u16 (drop hostSize target) in
          if port = 0 then Inl (Errorf ''target port is required'')
          else Inr (\<lparr>Command = command, Host = string_of (take hostSize target), Port = port\<rparr>, r))))"

definition ReadOpen :: "byte list \<Rightarrow> (OpenRequest \<times> byte list) res" where
  "ReadOpen r = bindE (ReadSessionHeader r) (\<lambda>(header, r). ReadOpenBody r (hdr_Command header))"

definition WriteControlSession :: "writer \<Rightarrow> SessionToken \<Rightarrow> goerr option \<times> writer" where
  "WriteControlSession w token = send_res w (appendSessionHeader [] CommandControl token)"

definition AcceptBytes :: "u64 \<Rightarrow> SessionToken \<Rightarrow> byte list res" where
  "AcceptBytes streamID token =
     bindE (appendSessionHeader [] CommandAccept token) (\<lambda>value. Inr (value @ put_u64 streamID))"

definition WriteAccept :: "writer \<Rightarrow> u64 \<Rightarrow> SessionToken \<Rightarrow> goerr option \<times> writer" where
  "WriteAccept w streamID token = send_res w (AcceptBytes streamID token)"

definition ReadAcceptStreamID :: "byte list \<Rightarrow> (u64 \<times> byte list) res" where
  "ReadAcceptStreamID r = bindE (read_full 8 r) (\<lambda>(raw, r). Inr (get_u64 raw, r))"

section \<open>Status replies and datagrams\<close>

definition StatusBytes :: "goerr option \<Rightarrow> byte list" where
  "StatusBytes err =
     (case err of
        None \<Rightarrow> [StatusOK]
      | Some e \<Rightarrow>
          let message = take maxErrorSize (err_text e)
          in [StatusError] @ put_u16 (word_of_nat (length message)) @ bytes_of message)"

definition WriteStatus :: "writer \<Rightarrow> goerr option \<Rightarrow> goerr option \<times> writer" where
  "WriteStatus w err = writeAll w (StatusBytes err)"

definition ReadStatus :: "byte list \<Rightarrow> (unit \<times> byte list) res" where
  "ReadStatus r =
     bindE (read_full 1 r) (\<lambda>(status, r).
       if status ! 0 = StatusOK then Inr ((), r)
       else if status ! 0 = StatusError then
         bindE (read_full 2 r) (\<lambda>(size, r).
           let messageSize = unat (get_u16 size) in
           if messageSize > maxErrorSize then Inl (Errorf ''gateway error message is too large'')
           else bindE (read_full messageSize r) (\<lambda>(message, r). Inl (Errorf (string_of message))))
       else Inl (Errorf (''invalid gateway status '' @ itoa (unat (status ! 0)))))"

definition datagram_size_error :: "nat \<Rightarrow> goerr" where
  "datagram_size_error n = Errorf (''invalid datagram size '' @ itoa n)"

text \<open>The two writes of \<^verbatim>\<open>WriteDatagram\<close>, size and payload, in one byte sequence.\<close>

definition DatagramBytes :: "byte list \<Rightarrow> byte list res" where
  "DatagramBytes payload =
     (if payload = [] \<or> length payload > MaxDatagramSize then Inl (datagram_size_error (length payload))
      else Inr (put_u16 (word_of_nat (length payload)) @ payload))"

definition WriteDatagram :: "writer \<Rightarrow> byte list \<Rightarrow> goerr option \<times> writer" where
  "WriteDatagram w payload =
     (if payload = [] \<or> length payload > MaxDatagramSize
      then (Some (datagram_size_error (length payload)), w)
      else case writeAll w (put_u16 (word_of_nat (length payload))) of
        (Some e, w) \<Rightarrow> (Some e, w)
      | (None, w) \<Rightarrow> writeAll w payload)"

definition ReadDatagram :: "byte list \<Rightarrow> (byte list \<times> byte list) res" where
  "ReadDatagram r =
     bindE (read_full 2 r) (\<lambda>(size, r).
       let payloadSize = unat (get_u16 size) in
       if payloadSize = 0 \<or> payloadSize > MaxDatagramSize then Inl (datagram_size_error payloadSize)
       else read_full payloadSize r)"

section \<open>Control messages\<close>

abbreviation CtrlRegister :: byte where "CtrlRegister \<equiv> 1"
abbreviation CtrlUnregister :: byte where "CtrlUnregister \<equiv> 2"
abbreviation CtrlInboundReady :: byte where "CtrlInboundReady \<equiv> 3"
abbreviation CtrlAck :: byte where "CtrlAck \<equiv> 4"
abbreviation CtrlError :: byte where "CtrlError \<equiv> 5"
abbreviation NetworkTCP :: byte where "NetworkTCP \<equiv> 1"
abbreviation NetworkUDP :: byte where "NetworkUDP \<equiv> 2"

record ControlMessage =
  Type :: byte
  InterceptID :: string
  Network :: byte
  ListenPort :: u16
  StreamID :: u64
  Error :: string

text \<open>\<^verbatim>\<open>ControlMessage{Type: t}\<close>.\<close>

definition ctrl_message :: "byte \<Rightarrow> ControlMessage" where
  "ctrl_message t =
     \<lparr>Type = t, InterceptID = [], Network = 0, ListenPort = 0, StreamID = 0, Error = []\<rparr>"

definition validateInterceptID :: "string \<Rightarrow> unit res" where
  "validateInterceptID ID =
     (if ID = [] \<or> length ID > maxIDSize then Inl (Errorf ''intercept id length is invalid'') else Inr ())"

definition validateNetwork :: "byte \<Rightarrow> unit res" where
  "validateNetwork network =
     (if network \<noteq> NetworkTCP \<and> network \<noteq> NetworkUDP
      then Inl (Errorf (''unsupported network '' @ itoa (unat network))) else Inr ())"

definition readLengthPrefixed :: "byte list \<Rightarrow> (string \<times> byte list) res" where
  "readLengthPrefixed payload =
     (if length payload < 2 then Inl (Errorf ''missing length prefix'')
      else let size = unat (get_u16 (take 2 payload)) in
        if size = 0 \<or> size > maxIDSize then Inl (Errorf ''id length is invalid'')
        else if length payload < 2 + size then Inl (Errorf ''truncated id payload'')
        else Inr (string_of (take size (drop 2 payload)), drop (2 + size) payload))"

definition encodeControlPayload :: "ControlMessage \<Rightarrow> byte list res" where
  "encodeControlPayload message =
     (if Type message = CtrlRegister then
        bindE (validateInterceptID (InterceptID message)) (\<lambda>_.
        bindE (validateNetwork (Network message)) (\<lambda>_.
        if ListenPort message = 0 then Inl (Errorf ''listen port is required'')
        else Inr (appendUint16String [] (InterceptID message) @ [Network message]
                  @ put_u16 (ListenPort message))))
      else if Type message = CtrlUnregister then
        bindE (validateInterceptID (InterceptID message)) (\<lambda>_.
        Inr (appendUint16String [] (InterceptID message)))
      else if Type message = CtrlInboundReady then
        bindE (validateInterceptID (InterceptID message)) (\<lambda>_.
        if StreamID message = 0 then Inl (Errorf ''stream id is required'')
        else bindE (validateNetwork (Network message)) (\<lambda>_.
          Inr (appendUint16String (put_u64 (StreamID message)) (InterceptID message)
               @ [Network message])))
      else if Type message = CtrlAck then Inr []
      else if Type message = CtrlError then
        if Error message = [] then Inl (Errorf ''error message is required'')
        else Inr (bytes_of (take maxErrorSize (Error message)))
      else Inl (Errorf (''unsupported control message type '' @ itoa (unat (Type message)))))"

definition decodeControlPayload :: "byte \<Rightarrow> byte list \<Rightarrow> ControlMessage res" where
  "decodeControlPayload messageType payload =
     (let message = ctrl_message messageType in
      if messageType = CtrlRegister then
        bindE (readLengthPrefixed payload) (\<lambda>(ID, rest).
          if length rest \<noteq> 3 then Inl (Errorf ''invalid register payload'')
          else bindE (validateNetwork (rest ! 0)) (\<lambda>_.
            if get_u16 (take 2 (drop 1 rest)) = 0 then Inl (Errorf ''listen port is required'')
            else Inr (message\<lparr>InterceptID := ID, Network := rest ! 0,
                              ListenPort := get_u16 (take 2 (drop 1 rest))\<rparr>)))
      else if messageType = CtrlUnregister then
        bindE (readLengthPrefixed payload) (\<lambda>(ID, rest).
          if length rest \<noteq> 0 then Inl (Errorf ''invalid unregister payload'')
          else Inr (message\<lparr>InterceptID := ID\<rparr>))
      else if messageType = CtrlInboundReady then
        if length payload < 11 then Inl (Errorf ''invalid inbound-ready payload'')
        else bindE (readLengthPrefixed (drop 8 payload)) (\<lambda>(ID, rest).
          if length rest \<noteq> 1 then Inl (Errorf ''invalid inbound-ready payload'')
          else if get_u64 (take 8 payload) = 0 then Inl (Errorf ''stream id is required'')
          else bindE (validateNetwork (rest ! 0)) (\<lambda>_.
            Inr (message\<lparr>InterceptID := ID, Network := rest ! 0,
                         StreamID := get_u64 (take 8 payload)\<rparr>)))
      else if messageType = CtrlAck then
        if length payload \<noteq> 0 then Inl (Errorf ''invalid ack payload'') else Inr message
      else if messageType = CtrlError then
        if length payload = 0 then Inl (Errorf ''error message is required'')
        else Inr (message\<lparr>Error := string_of payload\<rparr>)
      else Inl (Errorf (''unsupported control message type '' @ itoa (unat messageType))))"

text \<open>The header and payload of \<^verbatim>\<open>WriteControlMessage\<close> in one byte sequence.\<close>

definition ControlBytes :: "ControlMessage \<Rightarrow> byte list res" where
  "ControlBytes message =
     bindE (encodeControlPayload message) (\<lambda>payload.
       Inr ([Type message] @ put_u16 (word_of_nat (length payload)) @ payload))"

definition WriteControlMessage :: "writer \<Rightarrow> ControlMessage \<Rightarrow> goerr option \<times> writer" where
  "WriteControlMessage w message =
     (case encodeControlPayload message of
        Inl e \<Rightarrow> (Some e, w)
      | Inr payload \<Rightarrow>
          (case writeAll w ([Type message] @ put_u16 (word_of_nat (length payload))) of
             (Some e, w) \<Rightarrow> (Some e, w)
           | (None, w) \<Rightarrow> writeAll w payload))"

definition ReadControlMessage :: "byte list \<Rightarrow> (ControlMessage \<times> byte list) res" where
  "ReadControlMessage r =
     bindE (read_full 3 r) (\<lambda>(header, r).
       let messageType = header ! 0; size = unat (get_u16 (take 2 (drop 1 header))) in
       if size > maxHostSize + maxIDSize + 32 then Inl (Errorf ''control message is too large'')
       else bindE (if size > 0 then read_full size r else Inr ([], r)) (\<lambda>(payload, r).
         bindE (decodeControlPayload messageType payload) (\<lambda>message. Inr (message, r))))"

section \<open>Writing\<close>

lemma writeAll_out:
  "writeAll w v = (e, w') \<Longrightarrow>
   \<exists>k \<le> length v. w_out w' = w_out w @ take k v \<and> (e = None \<longrightarrow> k = length v)"
proof (induction w v rule: writeAll.induct)
  case (1 w v)
  show ?case
  proof (cases "v = []")
    case True
    with "1.prems" show ?thesis by (simp add: writeAll.simps)
  next
    case False
    obtain n f w1 where wr: "w_write w v = ((n, f), w1)" by (metis prod.collapse)
    note out = w_write_out [OF wr]
    show ?thesis
    proof (cases "f = None \<and> n \<noteq> 0")
      case True
      with "1.prems" wr False have rec: "writeAll w1 (drop n v) = (e, w')"
        by (simp add: writeAll.simps [of w v])
      from "1.IH" [OF False wr [symmetric] refl _ _ rec] True obtain k
        where k: "k \<le> length (drop n v)" "w_out w' = w_out w1 @ take k (drop n v)"
          "e = None \<longrightarrow> k = length (drop n v)" by auto
      have "w_out w' = w_out w @ take (n + k) v" using out k(2) by (simp add: take_add)
      with k out show ?thesis by (intro exI [of _ "n + k"]) auto
    next
      case False': False
      with "1.prems" wr False have "e \<noteq> None \<and> w' = w1"
        by (auto simp: writeAll.simps [of w v] split: option.splits if_splits)
      with out show ?thesis by blast
    qed
  qed
qed

lemma writeAll_None: "writeAll w v = (None, w') \<Longrightarrow> w_out w' = w_out w @ v"
  by (drule writeAll_out) auto

text \<open>
  \<^verbatim>\<open>writeAll\<close> terminates on every writer that keeps the \<^verbatim>\<open>io.Writer\<close> contract and,
  whatever partial writes happen, it reports success exactly when it has sent every
  byte in order; when it fails, what was sent is a prefix of the value.
\<close>

theorem writeAll_complete:
  "case writeAll w v of
     (None, w') \<Rightarrow> w_out w' = w_out w @ v
   | (Some e, w') \<Rightarrow> \<exists>sent unsent. v = sent @ unsent \<and> w_out w' = w_out w @ sent"
proof (cases "writeAll w v")
  case (Pair e w')
  from writeAll_out [OF this] obtain k
    where k: "w_out w' = w_out w @ take k v" "e = None \<longrightarrow> k = length v" by blast
  show ?thesis
  proof (cases e)
    case None
    with Pair k show ?thesis by simp
  next
    case (Some err)
    have "v = take k v @ drop k v" by simp
    with Pair Some k(1) show ?thesis by (simp only: prod.case option.case) blast
  qed
qed

section \<open>The codecs\<close>

lemma length_magic [simp]: "length magic = 4"
  by (simp add: magic_def)

lemma unat_length_u16 [simp]:
  "length xs < 65536 \<Longrightarrow> unat (word_of_nat (length xs) :: u16) = length xs"
  by (rule unat_u16_of_nat)

definition frame_ok :: "SessionHeader \<Rightarrow> bool" where
  "frame_ok h \<longleftrightarrow> token_ok (hdr_Token h)"

definition HeaderBytes :: "SessionHeader \<Rightarrow> byte list res" where
  "HeaderBytes h = appendSessionHeader [] (hdr_Command h) (hdr_Token h)"

lemma header_split:
  "length h = 37 \<Longrightarrow> h = take 4 h @ [h ! 4] @ drop 5 h"
  by (simp add: Cons_nth_drop_Suc numeral_eq_Suc)

interpretation hdr: strict_codec frame_ok HeaderBytes ReadSessionHeader
proof unfold_locales
  fix x bs rest
  assume "frame_ok x" "HeaderBytes x = Inr bs"
  then have bs: "bs = magic @ hdr_Command x # hdr_Token x" "length bs = 37" "hdr_Token x \<noteq> zero_token"
    by (auto simp: HeaderBytes_def frame_ok_def token_ok_def appendSessionHeader_def split: if_splits)
  then have "read_full 37 (bs @ rest) = Inr (bs, rest)" by (intro read_full_append)
  with bs show "ReadSessionHeader (bs @ rest) = Inr (x, rest)"
    by (simp add: ReadSessionHeader_def nth_append)
next
  fix s x rest
  assume "ReadSessionHeader s = Inr (x, rest)"
  then obtain h where h: "length h = 37" "s = h @ rest" "take 4 h = magic" "drop 5 h \<noteq> zero_token"
      "x = \<lparr>hdr_Command = h ! 4, hdr_Token = drop 5 h\<rparr>"
    by (auto simp: ReadSessionHeader_def bindE_Inr_iff read_full_Inr Let_def split: if_splits)
  with header_split [OF h(1)]
  show "frame_ok x \<and> (\<exists>bs. HeaderBytes x = Inr bs \<and> s = bs @ rest)"
    by (simp add: frame_ok_def token_ok_def HeaderBytes_def appendSessionHeader_def)
qed

text \<open>A whole open request: the header and the body read after it.\<close>

definition open_ok :: "SessionToken \<times> OpenRequest \<Rightarrow> bool" where
  "open_ok x \<longleftrightarrow> token_ok (fst x)"

definition ReadOpenFrame :: "byte list \<Rightarrow> ((SessionToken \<times> OpenRequest) \<times> byte list) res" where
  "ReadOpenFrame r = bindE (ReadSessionHeader r) (\<lambda>(header, r).
     bindE (ReadOpenBody r (hdr_Command header)) (\<lambda>(request, r). Inr ((hdr_Token header, request), r)))"

definition OpenBody :: "OpenRequest \<Rightarrow> byte list" where
  "OpenBody request = put_u16 (word_of_nat (length (Host request))) @ bytes_of (Host request)
     @ put_u16 (Port request)"

definition open_valid :: "OpenRequest \<Rightarrow> bool" where
  "open_valid r \<longleftrightarrow> (Command r = CommandTCP \<or> Command r = CommandUDP) \<and>
     Host r \<noteq> [] \<and> length (Host r) \<le> maxHostSize \<and> Port r \<noteq> 0"

lemma OpenBytes_Inr:
  "OpenBytes r t = Inr bs \<longleftrightarrow> open_valid r \<and>
     (\<exists>hb. HeaderBytes \<lparr>hdr_Command = Command r, hdr_Token = t\<rparr> = Inr hb \<and> bs = hb @ OpenBody r)"
  by (auto simp: OpenBytes_def open_valid_def HeaderBytes_def OpenBody_def appendUint16String_def
      bindE_Inr_iff)

lemma ReadOpenBody_OpenBody:
  "open_valid r \<Longrightarrow> ReadOpenBody (OpenBody r @ rest) (Command r) = Inr (r, rest)"
  using read_full_append [of "bytes_of (Host r) @ put_u16 (Port r)" "length (Host r) + 2" rest]
  by (simp add: ReadOpenBody_def OpenBody_def open_valid_def Let_def)

lemma ReadOpenBody_canon:
  assumes "ReadOpenBody s c = Inr (r, rest)"
  shows "open_valid r \<and> Command r = c \<and> s = OpenBody r @ rest"
proof -
  from assms obtain sz tgt where c: "c = CommandTCP \<or> c = CommandUDP"
    and sz: "length sz = 2" and tgt: "length tgt = unat (get_u16 sz) + 2"
    and s: "s = sz @ tgt @ rest" and hs: "0 < unat (get_u16 sz)" "unat (get_u16 sz) \<le> maxHostSize"
    and p: "get_u16 (drop (unat (get_u16 sz)) tgt) \<noteq> 0"
    and r: "r = \<lparr>Command = c, Host = string_of (take (unat (get_u16 sz)) tgt),
                 Port = get_u16 (drop (unat (get_u16 sz)) tgt)\<rparr>"
    by (auto simp: ReadOpenBody_def Let_def bindE_Inr_iff read_full_Inr split: if_splits)
  have "put_u16 (get_u16 (drop (unat (get_u16 sz)) tgt)) = drop (unat (get_u16 sz)) tgt"
    by (rule put_get_u16) (simp add: tgt)
  moreover have "put_u16 (get_u16 sz) = sz" using sz by (rule put_get_u16)
  ultimately have "OpenBody r = sz @ tgt"
    by (simp add: OpenBody_def r tgt)
  moreover have "Host r \<noteq> []" using hs tgt by (auto simp: r string_of_def)
  ultimately show ?thesis using c hs p tgt s by (auto simp: open_valid_def r)
qed

interpretation opn: strict_codec open_ok "\<lambda>(t, r). OpenBytes r t" ReadOpenFrame
proof unfold_locales
  fix x :: "SessionToken \<times> OpenRequest" and bs rest
  assume a: "open_ok x" "(case x of (t, r) \<Rightarrow> OpenBytes r t) = Inr bs"
  obtain t r where x: "x = (t, r)" by (cases x)
  let ?h = "\<lparr>hdr_Command = Command r, hdr_Token = t\<rparr>"
  from a x obtain hb where hb: "HeaderBytes ?h = Inr hb" "bs = hb @ OpenBody r" "open_valid r"
    by (auto simp: OpenBytes_Inr)
  from a x have "frame_ok ?h" by (simp add: open_ok_def frame_ok_def)
  from hdr.round [OF this hb(1), of "OpenBody r @ rest"] hb x
  show "ReadOpenFrame (bs @ rest) = Inr (x, rest)"
    by (simp add: ReadOpenFrame_def ReadOpenBody_OpenBody)
next
  fix s and x :: "SessionToken \<times> OpenRequest" and rest
  assume "ReadOpenFrame s = Inr (x, rest)"
  then obtain h r1 where h: "ReadSessionHeader s = Inr (h, r1)"
    and b: "ReadOpenBody r1 (hdr_Command h) = Inr (snd x, rest)" and x: "fst x = hdr_Token h"
    by (auto simp: ReadOpenFrame_def bindE_Inr_iff)
  from ReadOpenBody_canon [OF b] hdr.canon [OF h] x
  show "open_ok x \<and> (\<exists>bs. (case x of (t, r) \<Rightarrow> OpenBytes r t) = Inr bs \<and> s = bs @ rest)"
    by (cases x, cases h) (auto simp: OpenBytes_Inr open_ok_def frame_ok_def)
qed

text \<open>Datagrams.\<close>

interpretation dgram: strict_codec "\<lambda>_. True" DatagramBytes ReadDatagram
proof unfold_locales
  fix x bs rest
  assume "DatagramBytes x = Inr bs"
  then show "ReadDatagram (bs @ rest) = Inr (x, rest)"
    by (auto simp: DatagramBytes_def ReadDatagram_def Let_def split: if_splits)
next
  fix s x rest
  assume "ReadDatagram s = Inr (x, rest)"
  then obtain sz where sz: "length sz = 2" "s = sz @ x @ rest" "length x = unat (get_u16 sz)"
      "0 < length x" "length x \<le> MaxDatagramSize"
    by (auto simp: ReadDatagram_def Let_def bindE_Inr_iff read_full_Inr split: if_splits)
  then show "True \<and> (\<exists>bs. DatagramBytes x = Inr bs \<and> s = bs @ rest)"
    by (auto simp: DatagramBytes_def put_get_u16)
qed

text \<open>
  Control messages. A message is normal when the fields its type does not carry are
  zero, as in every message the code builds, and its error text is no longer than what
  the reader accepts.
\<close>

definition ctrl_limit :: nat where
  "ctrl_limit = maxHostSize + maxIDSize + 32"

definition ctrl_ok :: "ControlMessage \<Rightarrow> bool" where
  "ctrl_ok m \<longleftrightarrow>
     (Type m = CtrlRegister \<and> StreamID m = 0 \<and> Error m = []) \<or>
     (Type m = CtrlUnregister \<and> Network m = 0 \<and> ListenPort m = 0 \<and> StreamID m = 0 \<and> Error m = []) \<or>
     (Type m = CtrlInboundReady \<and> ListenPort m = 0 \<and> Error m = []) \<or>
     (Type m = CtrlAck \<and> m = ctrl_message CtrlAck) \<or>
     (Type m = CtrlError \<and> m = (ctrl_message CtrlError)\<lparr>Error := Error m\<rparr> \<and>
        length (Error m) \<le> ctrl_limit)"

lemmas ctrl_payload_defs = encodeControlPayload_def decodeControlPayload_def Let_def
  validateInterceptID_def validateNetwork_def ctrl_message_def appendUint16String_def

lemma validate_Inr:
  "validateInterceptID i = Inr u \<longleftrightarrow> i \<noteq> [] \<and> length i \<le> maxIDSize"
  "validateNetwork n = Inr u \<longleftrightarrow> n = NetworkTCP \<or> n = NetworkUDP"
  by (auto simp: validateInterceptID_def validateNetwork_def)

lemma readLengthPrefixed_put:
  "i \<noteq> [] \<Longrightarrow> length i \<le> maxIDSize \<Longrightarrow>
   readLengthPrefixed (put_u16 (word_of_nat (length i)) @ bytes_of i @ rest) = Inr (i, rest)"
  by (simp add: readLengthPrefixed_def Let_def)

lemma readLengthPrefixed_canon:
  assumes "readLengthPrefixed p = Inr (i, rest)"
  shows "p = put_u16 (word_of_nat (length i)) @ bytes_of i @ rest \<and> i \<noteq> [] \<and> length i \<le> maxIDSize"
proof -
  let ?n = "unat (get_u16 (take 2 p))"
  from assms have n: "2 + ?n \<le> length p" "0 < ?n" "?n \<le> maxIDSize"
    and i: "i = string_of (take ?n (drop 2 p))" and rest: "rest = drop (2 + ?n) p"
    by (auto simp: readLengthPrefixed_def Let_def split: if_splits)
  have "length i = ?n" using n by (simp add: i)
  moreover have "put_u16 (get_u16 (take 2 p)) = take 2 p" using n by (intro put_get_u16) simp
  moreover have "p = take 2 p @ take ?n (drop 2 p) @ drop (2 + ?n) p"
    by (metis append_take_drop_id drop_drop add.commute)
  moreover have "i \<noteq> []" using n calculation(1) by auto
  ultimately show ?thesis using n by (simp add: i rest)
qed

lemma encode_length:
  "encodeControlPayload m = Inr p \<Longrightarrow> ctrl_ok m \<Longrightarrow> length p \<le> ctrl_limit"
  by (auto simp: ctrl_payload_defs ctrl_ok_def ctrl_limit_def split: if_splits)

lemma encode_length_u16: "encodeControlPayload m = Inr p \<Longrightarrow> length p < 65536"
  by (auto simp: ctrl_payload_defs split: if_splits)

lemma encode_register:
  assumes "encodeControlPayload m = Inr p" "Type m = CtrlRegister"
  shows "validateInterceptID (InterceptID m) = Inr ()" "validateNetwork (Network m) = Inr ()"
    "ListenPort m \<noteq> 0"
    "p = put_u16 (word_of_nat (length (InterceptID m))) @ bytes_of (InterceptID m)
       @ [Network m] @ put_u16 (ListenPort m)"
  using assms by (auto simp: encodeControlPayload_def bindE_Inr_iff appendUint16String_def split: if_splits)

lemma encode_ready:
  assumes "encodeControlPayload m = Inr p" "Type m = CtrlInboundReady"
  shows "validateInterceptID (InterceptID m) = Inr ()" "validateNetwork (Network m) = Inr ()"
    "StreamID m \<noteq> 0"
    "p = put_u64 (StreamID m) @ put_u16 (word_of_nat (length (InterceptID m)))
       @ bytes_of (InterceptID m) @ [Network m]"
  using assms by (auto simp: encodeControlPayload_def bindE_Inr_iff appendUint16String_def split: if_splits)

lemma encode_unregister:
  assumes "encodeControlPayload m = Inr p" "Type m = CtrlUnregister"
  shows "validateInterceptID (InterceptID m) = Inr ()"
    "p = put_u16 (word_of_nat (length (InterceptID m))) @ bytes_of (InterceptID m)"
  using assms by (auto simp: encodeControlPayload_def bindE_Inr_iff appendUint16String_def split: if_splits)

lemma decode_encode:
  assumes "ctrl_ok m" "encodeControlPayload m = Inr p"
  shows "decodeControlPayload (Type m) p = Inr m"
proof -
  consider "Type m = CtrlRegister" | "Type m = CtrlUnregister" | "Type m = CtrlInboundReady"
    | "Type m = CtrlAck" | "Type m = CtrlError"
    using assms(1) by (auto simp: ctrl_ok_def)
  then show ?thesis
  proof cases
    case 1
    note e = encode_register [OF assms(2) 1]
    from e(1) have "readLengthPrefixed p = Inr (InterceptID m, [Network m] @ put_u16 (ListenPort m))"
      unfolding e(4) by (intro readLengthPrefixed_put) (simp_all add: validate_Inr)
    with e(2,3) assms(1) 1 show ?thesis
      by (cases m) (simp add: decodeControlPayload_def ctrl_ok_def ctrl_message_def)
  next
    case 2
    note e = encode_unregister [OF assms(2) 2]
    from e(1) readLengthPrefixed_put [of "InterceptID m" "[]"]
    have "readLengthPrefixed p = Inr (InterceptID m, [])" by (simp add: e(2) validate_Inr)
    with assms(1) 2 show ?thesis
      by (cases m) (simp add: decodeControlPayload_def ctrl_ok_def ctrl_message_def)
  next
    case 3
    note e = encode_ready [OF assms(2) 3]
    from e(1) have "readLengthPrefixed (drop 8 p) = Inr (InterceptID m, [Network m])"
      by (simp add: e(4) readLengthPrefixed_put validate_Inr)
    moreover have "11 \<le> length p" "take 8 p = put_u64 (StreamID m)" by (simp_all add: e(4))
    ultimately show ?thesis using e(2,3) assms(1) 3
      by (cases m) (simp add: decodeControlPayload_def ctrl_ok_def ctrl_message_def)
  next
    case 4
    with assms show ?thesis
      by (auto simp: encodeControlPayload_def decodeControlPayload_def ctrl_ok_def)
  next
    case 5
    with assms show ?thesis
      by (auto simp: encodeControlPayload_def decodeControlPayload_def ctrl_ok_def ctrl_limit_def
        split: if_splits)
  qed
qed

lemma encode_decode:
  assumes "decodeControlPayload t p = Inr m" "length p \<le> ctrl_limit"
  shows "ctrl_ok m \<and> Type m = t \<and> encodeControlPayload m = Inr p"
proof -
  consider "t = CtrlRegister" | "t = CtrlUnregister" | "t = CtrlInboundReady" | "t = CtrlAck" | "t = CtrlError"
    using assms(1) by (auto simp: decodeControlPayload_def Let_def split: if_splits)
  then show ?thesis
  proof cases
    case 1
    with assms obtain i rest where rl: "readLengthPrefixed p = Inr (i, rest)" and r: "length rest = 3"
        "rest ! 0 = NetworkTCP \<or> rest ! 0 = NetworkUDP" "get_u16 (take 2 (drop 1 rest)) \<noteq> 0"
      and m: "m = (ctrl_message t)\<lparr>InterceptID := i, Network := rest ! 0,
                  ListenPort := get_u16 (take 2 (drop 1 rest))\<rparr>"
      by (auto simp: decodeControlPayload_def bindE_Inr_iff validate_Inr split: if_splits)
    have "rest = [rest ! 0] @ take 2 (drop 1 rest)" using r(1)
      by (cases rest) (auto simp: numeral_eq_Suc)
    moreover have "put_u16 (get_u16 (take 2 (drop 1 rest))) = take 2 (drop 1 rest)"
      using r(1) by (intro put_get_u16) simp
    ultimately show ?thesis using r readLengthPrefixed_canon [OF rl] 1
      by (auto simp: m ctrl_ok_def ctrl_message_def encodeControlPayload_def bindE_Inr_iff
          validate_Inr appendUint16String_def)
  next
    case 2
    with assms obtain i where rl: "readLengthPrefixed p = Inr (i, [])"
      and m: "m = (ctrl_message t)\<lparr>InterceptID := i\<rparr>"
      by (auto simp: decodeControlPayload_def bindE_Inr_iff split: if_splits)
    show ?thesis using readLengthPrefixed_canon [OF rl] 2
      by (auto simp: m ctrl_ok_def ctrl_message_def encodeControlPayload_def bindE_Inr_iff
          validate_Inr appendUint16String_def)
  next
    case 3
    with assms obtain i rest where rl: "readLengthPrefixed (drop 8 p) = Inr (i, rest)" and
        r: "length rest = 1" "11 \<le> length p" "rest ! 0 = NetworkTCP \<or> rest ! 0 = NetworkUDP"
        "get_u64 (take 8 p) \<noteq> 0"
      and m: "m = (ctrl_message t)\<lparr>InterceptID := i, Network := rest ! 0, StreamID := get_u64 (take 8 p)\<rparr>"
      by (auto simp: decodeControlPayload_def bindE_Inr_iff validate_Inr split: if_splits)
    have "rest = [rest ! 0]" using r(1) by (cases rest) auto
    moreover have "put_u64 (get_u64 (take 8 p)) = take 8 p" using r(2) by (intro put_get_u64) simp
    moreover have "p = take 8 p @ drop 8 p" by simp
    ultimately show ?thesis using r readLengthPrefixed_canon [OF rl] 3
      by (auto simp: m ctrl_ok_def ctrl_message_def encodeControlPayload_def bindE_Inr_iff
          validate_Inr appendUint16String_def)
  next
    case 4
    with assms show ?thesis
      by (auto simp: decodeControlPayload_def ctrl_ok_def ctrl_message_def encodeControlPayload_def
          split: if_splits)
  next
    case 5
    with assms show ?thesis
      by (auto simp: decodeControlPayload_def ctrl_ok_def ctrl_message_def encodeControlPayload_def
          ctrl_limit_def split: if_splits)
  qed
qed

interpretation ctl: strict_codec ctrl_ok ControlBytes ReadControlMessage
proof unfold_locales
  fix m bs rest
  assume ok: "ctrl_ok m" and "ControlBytes m = Inr bs"
  then obtain p where p: "encodeControlPayload m = Inr p"
    and bs: "bs = [Type m] @ put_u16 (word_of_nat (length p)) @ p"
    by (auto simp: ControlBytes_def bindE_Inr_iff)
  have "read_full 3 (bs @ rest) = Inr ([Type m] @ put_u16 (word_of_nat (length p)), p @ rest)"
    using read_full_append [of "[Type m] @ put_u16 (word_of_nat (length p))" 3 "p @ rest"]
    by (simp add: bs)
  moreover note encode_length [OF p ok] encode_length_u16 [OF p] decode_encode [OF ok p]
  ultimately show "ReadControlMessage (bs @ rest) = Inr (m, rest)"
    by (auto simp: ReadControlMessage_def Let_def ctrl_limit_def)
next
  fix s m rest
  assume "ReadControlMessage s = Inr (m, rest)"
  then obtain h p where h: "length h = 3" "s = h @ p @ rest"
    and sz: "length p = unat (get_u16 (take 2 (drop 1 h)))" "length p \<le> ctrl_limit"
    and d: "decodeControlPayload (h ! 0) p = Inr m"
    by (auto simp: ReadControlMessage_def Let_def bindE_Inr_iff read_full_Inr ctrl_limit_def
        split: if_splits)
  have "h = [h ! 0] @ take 2 (drop 1 h)" using h(1) by (cases h) (auto simp: numeral_eq_Suc)
  moreover have "put_u16 (get_u16 (take 2 (drop 1 h))) = take 2 (drop 1 h)"
    using h(1) by (intro put_get_u16) simp
  ultimately show "ctrl_ok m \<and> (\<exists>bs. ControlBytes m = Inr bs \<and> s = bs @ rest)"
    using encode_decode [OF d sz(2)] h(2) sz(1) by (auto simp: ControlBytes_def)
qed

section \<open>Properties of the protocol\<close>

lemma send_res_None:
  "send_res w r = (None, w') \<Longrightarrow> \<exists>v. r = Inr v \<and> w_out w' = w_out w @ v"
  by (auto simp: send_res_def split: sum.splits dest: writeAll_None)

lemma ReadOpen_frame:
  "ReadOpen s = Inr (r, rest) \<longleftrightarrow> (\<exists>t. ReadOpenFrame s = Inr ((t, r), rest))"
  by (auto simp: ReadOpen_def ReadOpenFrame_def bindE_Inr_iff)

lemma unat_min_u16 [simp]: "unat (word_of_nat (min n maxErrorSize) :: u16) = min n maxErrorSize"
  by (rule unat_u16_of_nat) simp

lemma read_one [simp]: "read_full (Suc 0) (x # s) = Inr ([x], s)"
  by (simp add: read_full_def)

text \<open>
  What \<^verbatim>\<open>WriteOpen\<close> sends, over any writer that takes it in pieces,
  \<^verbatim>\<open>ReadOpen\<close> reads back as the same request, and it leaves the bytes that follow.
\<close>

theorem open_roundtrip:
  assumes "token_ok t" and "WriteOpen w r t = (None, w')"
  shows "\<exists>bs. w_out w' = w_out w @ bs \<and> ReadOpen (bs @ rest) = Inr (r, rest)"
proof -
  from send_res_None [OF assms(2) [unfolded WriteOpen_def]] obtain bs
    where "OpenBytes r t = Inr bs" "w_out w' = w_out w @ bs" by blast
  moreover from this assms(1) opn.round [of "(t, r)" bs rest]
  have "ReadOpenFrame (bs @ rest) = Inr ((t, r), rest)" by (simp add: open_ok_def)
  ultimately show ?thesis by (auto simp: ReadOpen_frame)
qed

text \<open>
  C40. \<^verbatim>\<open>ReadOpen\<close> accepts exactly the canonical encoding of a valid request: the
  marker, a TCP or UDP command, a token that is not zero, a host of 1 to 1024 bytes and a
  port other than 0. Nothing else on the wire opens a target.
\<close>

theorem ReadOpen_iff:
  "ReadOpen s = Inr (r, rest) \<longleftrightarrow>
     open_valid r \<and>
     (\<exists>t. token_ok t \<and> t \<noteq> zero_token \<and> s = magic @ [Command r] @ t @ OpenBody r @ rest)"
  unfolding ReadOpen_frame opn.dec_iff
  by (auto simp: OpenBytes_Inr HeaderBytes_def appendSessionHeader_def open_ok_def)

text \<open>
  A sequence of control messages sent back to back is read back message by message,
  for every message the protocol admits (error texts of up to 1312 bytes included), and
  whatever follows is left in the stream.
\<close>

theorem control_stream:
  assumes "list_all ctrl_ok ms" and "encode_all ControlBytes ms = Inr bs"
  shows "decode_n ReadControlMessage (length ms) (bs @ rest) = Inr (ms, rest)"
  using assms by (rule ctl.stream_round)

text \<open>
  \<^verbatim>\<open>ReadControlMessage\<close> accepts exactly the encodings of the messages of C4: no
  malformed register, unregister, ready, ack or error message is let through.
\<close>

theorem control_accepts_iff:
  "ReadControlMessage s = Inr (m, rest) \<longleftrightarrow>
     ctrl_ok m \<and> (\<exists>bs. ControlBytes m = Inr bs \<and> s = bs @ rest)"
  by (rule ctl.dec_iff)

text \<open>
  The writer admits error texts of up to 4096 bytes, the reader refuses a payload of
  more than 1312: a longer error is sent and makes the peer's read fail, which ends its
  control session.
\<close>

theorem control_error_unreadable:
  assumes "ctrl_limit < length e"
  shows "\<exists>bs. ControlBytes ((ctrl_message CtrlError)\<lparr>Error := e\<rparr>) = Inr bs \<and>
     ReadControlMessage (bs @ rest) = Inl (Errorf ''control message is too large'')"
proof -
  let ?p = "bytes_of (take maxErrorSize e)"
  let ?h = "[CtrlError] @ put_u16 (word_of_nat (length ?p))"
  have p: "encodeControlPayload ((ctrl_message CtrlError)\<lparr>Error := e\<rparr>) = Inr ?p"
    using assms by (auto simp: encodeControlPayload_def ctrl_message_def)
  then have "ControlBytes ((ctrl_message CtrlError)\<lparr>Error := e\<rparr>) = Inr (?h @ ?p)"
    by (simp add: ControlBytes_def ctrl_message_def)
  moreover have "read_full 3 ((?h @ ?p) @ rest) = Inr (?h, ?p @ rest)"
    using read_full_append [of ?h 3 "?p @ rest"] by simp
  moreover have "ctrl_limit < length ?p" using assms by (simp add: ctrl_limit_def)
  ultimately show ?thesis using encode_length_u16 [OF p]
    by (simp add: ReadControlMessage_def ctrl_limit_def Let_def)
qed

text \<open>
  A status reply is read back: success as success, and an error as its text, cut at
  4096 bytes.
\<close>

theorem status_roundtrip:
  "ReadStatus (StatusBytes None @ rest) = Inr ((), rest) \<and>
   ReadStatus (StatusBytes (Some e) @ rest) = Inl (Errorf (take maxErrorSize (err_text e)))"
  using read_full_append [of "bytes_of (take maxErrorSize (err_text e))" _ rest]
  by (simp add: StatusBytes_def ReadStatus_def Let_def)

text \<open>
  Framing keeps datagram boundaries: the datagrams written to a tunnel are the ones
  read from it, in order, none merged, split or lost.
\<close>

theorem datagram_stream:
  assumes "encode_all DatagramBytes ps = Inr bs"
  shows "decode_n ReadDatagram (length ps) (bs @ rest) = Inr (ps, rest)"
  using dgram.stream_round [of ps bs rest] assms by (simp add: list_all_iff)

section \<open>Witnesses\<close>

definition ex_token :: SessionToken where
  "ex_token = 7 # replicate 31 0"

definition ex_open :: OpenRequest where
  "ex_open = \<lparr>Command = CommandTCP, Host = ''db'', Port = 5432\<rparr>"

definition ex_writer :: writer where
  "ex_writer = \<lparr>w_out = [], w_sched = [(3, None), (30, None)]\<rparr>"

lemma ex_open_sent: "fst (WriteOpen ex_writer ex_open ex_token) = None"
  by code_simp

theorem open_roundtrip_witness:
  "token_ok ex_token \<and>
   (\<exists>bs. w_out (snd (WriteOpen ex_writer ex_open ex_token)) = w_out ex_writer @ bs \<and>
      ReadOpen (bs @ [9]) = Inr (ex_open, [9]))"
proof -
  have "token_ok ex_token" by (simp add: token_ok_def ex_token_def)
  moreover have "WriteOpen ex_writer ex_open ex_token = (None, snd (WriteOpen ex_writer ex_open ex_token))"
    using ex_open_sent by (metis prod.collapse)
  ultimately show ?thesis using open_roundtrip by blast
qed

definition ex_ctrl :: "ControlMessage list" where
  "ex_ctrl = [(ctrl_message CtrlRegister)\<lparr>InterceptID := ''ns/svc:tcp:80'', Network := NetworkTCP, ListenPort := 20001\<rparr>,
     (ctrl_message CtrlError)\<lparr>Error := ''listen port 20001 already in use''\<rparr>]"

theorem control_stream_witness:
  "\<exists>bs. encode_all ControlBytes ex_ctrl = Inr bs \<and>
     decode_n ReadControlMessage (length ex_ctrl) (bs @ [1]) = Inr (ex_ctrl, [1])"
proof -
  have "list_all ctrl_ok ex_ctrl" by (simp add: ex_ctrl_def ctrl_ok_def ctrl_message_def ctrl_limit_def)
  moreover have "\<exists>bs. encode_all ControlBytes ex_ctrl = Inr bs"
    by (simp add: ex_ctrl_def ControlBytes_def ctrl_payload_defs)
  ultimately show ?thesis using control_stream by blast
qed

theorem control_error_unreadable_witness:
  "\<exists>bs. ControlBytes ((ctrl_message CtrlError)\<lparr>Error := replicate 2000 CHR ''x''\<rparr>) = Inr bs \<and>
     ReadControlMessage (bs @ []) = Inl (Errorf ''control message is too large'')"
  by (rule control_error_unreadable) (simp add: ctrl_limit_def)

theorem datagram_stream_witness:
  "\<exists>bs. encode_all DatagramBytes [[5], [6, 7]] = Inr bs \<and>
     decode_n ReadDatagram (length [[5], [6, 7 :: byte]]) (bs @ [1]) = Inr ([[5], [6, 7]], [1])"
proof -
  have "\<exists>bs. encode_all DatagramBytes [[5], [6, 7]] = Inr bs" by (simp add: DatagramBytes_def)
  then show ?thesis using datagram_stream by blast
qed

end
