(* ===== verification/Netip.thy ===== *)
theory Netip
  imports Prelude
begin

text \<open>
  The values of \<^verbatim>\<open>net/netip\<close> the sources compute with: addresses of both families,
  prefixes, and the predicates \<^verbatim>\<open>IsPrivate\<close>, \<^verbatim>\<open>IsLoopback\<close>, \<^verbatim>\<open>IsLinkLocalUnicast\<close>,
  \<^verbatim>\<open>IsMulticast\<close>, with \<^verbatim>\<open>Masked\<close> and \<^verbatim>\<open>Contains\<close>. An address is its family and its
  bits; zones are left out (the sources drop them or compare addresses without one).
\<close>

type_synonym u128 = "128 word"

datatype addr = V4 u32 | V6 u128

fun Is4 :: "addr \<Rightarrow> bool" where
  "Is4 (V4 _) = True"
| "Is4 (V6 _) = False"

fun BitLen :: "addr \<Rightarrow> nat" where
  "BitLen (V4 _) = 32"
| "BitLen (V6 _) = 128"

fun addr_nat :: "addr \<Rightarrow> nat" where
  "addr_nat (V4 w) = unat w"
| "addr_nat (V6 w) = unat w"

text \<open>The address of the same family with other bits.\<close>

fun with_nat :: "addr \<Rightarrow> nat \<Rightarrow> addr" where
  "with_nat (V4 _) n = V4 (word_of_nat n)"
| "with_nat (V6 _) n = V6 (word_of_nat n)"

text \<open>\<^verbatim>\<open>Unmap\<close>: an IPv4-mapped IPv6 address becomes the IPv4 address.\<close>

definition is_4in6 :: "u128 \<Rightarrow> bool" where
  "is_4in6 w \<longleftrightarrow> unat w div 2 ^ 32 = 0xFFFF"

fun Unmap :: "addr \<Rightarrow> addr" where
  "Unmap (V4 w) = V4 w"
| "Unmap (V6 w) = (if is_4in6 w then V4 (word_of_nat (unat w)) else V6 w)"

text \<open>The bytes of an address, most significant first: \<^verbatim>\<open>v4(i)\<close>, \<^verbatim>\<open>v6(i)\<close>.\<close>

definition octet :: "addr \<Rightarrow> nat \<Rightarrow> nat" where
  "octet a i = addr_nat a div 2 ^ (BitLen a - 8 * (i + 1)) mod 256"

text \<open>The predicates, on an address that is not an IPv4-mapped one (the sources unmap).\<close>

definition IsPrivate :: "addr \<Rightarrow> bool" where
  "IsPrivate ip =
     (let a = Unmap ip in
      if Is4 a
      then octet a 0 = 10 \<or> (octet a 0 = 172 \<and> octet a 1 div 16 = 1) \<or> (octet a 0 = 192 \<and> octet a 1 = 168)
      else octet a 0 div 2 = 0xFC div 2)"

definition IsLoopback :: "addr \<Rightarrow> bool" where
  "IsLoopback ip = (let a = Unmap ip in if Is4 a then octet a 0 = 127 else addr_nat a = 1)"

definition IsLinkLocalUnicast :: "addr \<Rightarrow> bool" where
  "IsLinkLocalUnicast ip =
     (let a = Unmap ip in
      if Is4 a then octet a 0 = 169 \<and> octet a 1 = 254
      else octet a 0 = 0xFE \<and> octet a 1 div 64 = 2)"

definition IsMulticast :: "addr \<Rightarrow> bool" where
  "IsMulticast ip = (let a = Unmap ip in if Is4 a then octet a 0 div 16 = 14 else octet a 0 = 0xFF)"

section \<open>Prefixes\<close>

record prefix =
  pfx_addr :: addr
  pfx_bits :: nat

definition prefix_ok :: "prefix \<Rightarrow> bool" where
  "prefix_ok p \<longleftrightarrow> pfx_bits p \<le> BitLen (pfx_addr p)"

text \<open>The leading \<open>n\<close> bits of an address, as a number.\<close>

definition top_bits :: "nat \<Rightarrow> addr \<Rightarrow> nat" where
  "top_bits n a = addr_nat a div 2 ^ (BitLen a - n)"

definition Contains :: "prefix \<Rightarrow> addr \<Rightarrow> bool" where
  "Contains p a \<longleftrightarrow> Is4 (pfx_addr p) = Is4 a \<and>
     top_bits (pfx_bits p) a = top_bits (pfx_bits p) (pfx_addr p)"

definition Masked :: "prefix \<Rightarrow> prefix" where
  "Masked p =
     (let a = pfx_addr p; k = BitLen a - pfx_bits p
      in p\<lparr>pfx_addr := with_nat a (addr_nat a div 2 ^ k * 2 ^ k)\<rparr>)"

lemma Is4_with_nat [simp]: "Is4 (with_nat a n) = Is4 a"
  by (cases a) simp_all

lemma BitLen_with_nat [simp]: "BitLen (with_nat a n) = BitLen a"
  by (cases a) simp_all

lemma BitLen_Is4: "BitLen a = (if Is4 a then 32 else 128)"
  by (cases a) simp_all

lemma addr_nat_bound: "addr_nat a < 2 ^ BitLen a"
proof (cases a)
  case (V4 w)
  then show ?thesis using unat_bound [of w] by simp
next
  case (V6 w)
  then show ?thesis using unat_bound [of w] by simp
qed

lemma addr_nat_with_nat: "n < 2 ^ BitLen a \<Longrightarrow> addr_nat (with_nat a n) = n"
  by (cases a) (simp_all add: unat_of_nat)

lemma with_nat_addr_nat [simp]: "with_nat a (addr_nat a) = a"
  by (cases a) simp_all

lemma addr_eqI: "Is4 a = Is4 b \<Longrightarrow> addr_nat a = addr_nat b \<Longrightarrow> a = b"
  by (cases a; cases b) (simp_all add: word_unat_eq_iff)

lemma Masked_simps [simp]:
  "pfx_bits (Masked p) = pfx_bits p"
  "BitLen (pfx_addr (Masked p)) = BitLen (pfx_addr p)"
  "Is4 (pfx_addr (Masked p)) = Is4 (pfx_addr p)"
  by (simp_all add: Masked_def Let_def)

lemma addr_nat_Masked:
  "addr_nat (pfx_addr (Masked p)) =
     addr_nat (pfx_addr p) div 2 ^ (BitLen (pfx_addr p) - pfx_bits p) * 2 ^ (BitLen (pfx_addr p) - pfx_bits p)"
proof -
  let ?x = "addr_nat (pfx_addr p)" and ?k = "BitLen (pfx_addr p) - pfx_bits p"
  have "?x div 2 ^ ?k * 2 ^ ?k \<le> ?x" by (rule div_times_less_eq_dividend)
  also have "\<dots> < 2 ^ BitLen (pfx_addr p)" by (rule addr_nat_bound)
  finally show ?thesis by (simp add: Masked_def Let_def addr_nat_with_nat)
qed

lemma top_bits_Masked [simp]:
  "top_bits (pfx_bits p) (pfx_addr (Masked p)) = top_bits (pfx_bits p) (pfx_addr p)"
  by (simp add: top_bits_def addr_nat_Masked)

lemma Contains_Masked [simp]: "Contains (Masked p) a \<longleftrightarrow> Contains p a"
  by (simp add: Contains_def)

lemma Masked_Masked [simp]: "Masked (Masked p) = Masked p"
proof -
  have "pfx_addr (Masked (Masked p)) = pfx_addr (Masked p)"
    by (rule addr_eqI) (simp_all add: addr_nat_Masked)
  then show ?thesis by (simp add: Masked_def Let_def)
qed

lemma Contains_self [simp]: "Contains p (pfx_addr p)" "Contains p (pfx_addr (Masked p))"
  by (simp_all add: Contains_def)

text \<open>Fewer bits are decided by more bits, so a shorter prefix of the same address covers.\<close>

lemma top_bits_mono:
  assumes "m \<le> n" "n \<le> BitLen a" "Is4 a = Is4 b" "top_bits n a = top_bits n b"
  shows "top_bits m a = top_bits m b"
proof -
  have eq: "BitLen a = BitLen b" using assms(3) by (simp add: BitLen_Is4)
  have "top_bits m x = top_bits n x div 2 ^ (n - m)" if "n \<le> BitLen x" for x
  proof -
    have "BitLen x - m = (BitLen x - n) + (n - m)" using that assms(1) by simp
    then show ?thesis by (simp add: top_bits_def power_add div_mult2_eq)
  qed
  with assms eq show ?thesis by simp
qed

text \<open>The addresses a prefix covers, and when one prefix covers another.\<close>

definition covers :: "prefix \<Rightarrow> prefix \<Rightarrow> bool" where
  "covers p q \<longleftrightarrow> (\<forall>a. Contains q a \<longrightarrow> Contains p a)"

lemma covers_refl [simp]: "covers p p"
  by (simp add: covers_def)

lemma covers_trans: "covers p q \<Longrightarrow> covers q r \<Longrightarrow> covers p r"
  by (simp add: covers_def)

lemma covers_Masked [simp]: "covers p (Masked q) \<longleftrightarrow> covers p q" "covers (Masked p) q \<longleftrightarrow> covers p q"
  by (simp_all add: covers_def)

lemma coversI:
  assumes "Contains p (pfx_addr q)" "pfx_bits p \<le> pfx_bits q" "prefix_ok q"
  shows "covers p q"
  unfolding covers_def
proof (intro allI impI)
  fix a assume a: "Contains q a"
  then have is4: "Is4 a = Is4 (pfx_addr q)" by (simp add: Contains_def)
  moreover from is4 assms(3) have "pfx_bits q \<le> BitLen a" by (simp add: prefix_ok_def BitLen_Is4)
  moreover from a have "top_bits (pfx_bits q) a = top_bits (pfx_bits q) (pfx_addr q)"
    by (simp add: Contains_def)
  ultimately have "top_bits (pfx_bits p) a = top_bits (pfx_bits p) (pfx_addr q)"
    using top_bits_mono [OF assms(2)] by blast
  with a assms(1) show "Contains p a" by (simp add: Contains_def)
qed

section \<open>Printing\<close>

text \<open>\<^verbatim>\<open>Addr.String\<close> for IPv4.\<close>

definition v4_string :: "addr \<Rightarrow> string" where
  "v4_string a = itoa (octet a 0) @ ''.'' @ itoa (octet a 1) @ ''.'' @ itoa (octet a 2) @ ''.''
     @ itoa (octet a 3)"

text \<open>
  \<^verbatim>\<open>Addr.String\<close> for IPv6: eight groups in lower-case hexadecimal, the first longest run of
  at least two zero groups shortened to \<^verbatim>\<open>::\<close>, an IPv4-mapped address in mixed notation.
\<close>

definition hex_digit :: "nat \<Rightarrow> char" where
  "hex_digit n = char_of (if n < 10 then 48 + n else 87 + n)"

fun itohex :: "nat \<Rightarrow> string" where
  "itohex n = (if n < 16 then [hex_digit n] else itohex (n div 16) @ [hex_digit (n mod 16)])"

declare itohex.simps [simp del]

definition v6_groups :: "addr \<Rightarrow> nat list" where
  "v6_groups a = map (\<lambda>i. addr_nat a div 2 ^ (112 - 16 * i) mod 65536) [0..<8]"

definition best_zero_run :: "nat list \<Rightarrow> nat \<times> nat" where
  "best_zero_run gs =
     foldl (\<lambda>(s, e) i. let l = length (takeWhile (\<lambda>g. g = 0) (drop i gs))
        in if 2 \<le> l \<and> e - s < l then (i, i + l) else (s, e)) (255, 255) [0..<8]"

fun intersperse_str :: "string \<Rightarrow> string list \<Rightarrow> string" where
  "intersperse_str sep [] = []"
| "intersperse_str sep [x] = x"
| "intersperse_str sep (x # xs) = x @ sep @ intersperse_str sep xs"

fun addr_string :: "addr \<Rightarrow> string" where
  "addr_string (V4 w) = v4_string (V4 w)"
| "addr_string (V6 w) =
     (if is_4in6 w then ''::ffff:'' @ v4_string (Unmap (V6 w))
      else let gs = v6_groups (V6 w) in
        case best_zero_run gs of (s, e) \<Rightarrow>
          if s = 255 then intersperse_str '':'' (map itohex gs)
          else intersperse_str '':'' (map itohex (take s gs)) @ ''::''
               @ intersperse_str '':'' (map itohex (drop e gs)))"

definition prefix_string :: "prefix \<Rightarrow> string" where
  "prefix_string p = addr_string (pfx_addr p) @ ''/'' @ itoa (pfx_bits p)"

section \<open>Host and port texts\<close>

text \<open>
  \<^verbatim>\<open>net.SplitHostPort\<close>. The errors carry the text of \<^verbatim>\<open>net.AddrError\<close>.
\<close>

definition split_host_port :: "string \<Rightarrow> (string \<times> string) res" where
  "split_host_port hp =
     (let err = (\<lambda>why. Inl (Errorf (''address '' @ hp @ '': '' @ why))) in
      if CHR '':'' \<notin> set hp then err ''missing port in address''
      else
        let port = rev (takeWhile (\<lambda>c. c \<noteq> CHR '':'') (rev hp));
            i = length hp - length port - 1 in
        if hd hp = CHR ''['' then
          (if CHR '']'' \<notin> set hp then err ''missing ']' in address''
           else
             let e = length (takeWhile (\<lambda>c. c \<noteq> CHR '']'') hp) in
             if e + 1 = length hp then err ''missing port in address''
             else if e + 1 \<noteq> i then
               (if hp ! (e + 1) = CHR '':'' then err ''too many colons in address''
                else err ''missing port in address'')
             else if CHR ''['' \<in> set (tl hp) then err ''unexpected '[' in address''
             else if CHR '']'' \<in> set (drop (e + 1) hp) then err ''unexpected ']' in address''
             else Inr (take (e - 1) (tl hp), port))
        else
          let host = take i hp in
          if CHR '':'' \<in> set host then err ''too many colons in address''
          else if CHR ''['' \<in> set hp then err ''unexpected '[' in address''
          else if CHR '']'' \<in> set hp then err ''unexpected ']' in address''
          else Inr (host, port))"

text \<open>\<^verbatim>\<open>strconv.ParseUint(s, 10, bits)\<close>.\<close>

definition parse_uint :: "nat \<Rightarrow> string \<Rightarrow> nat res" where
  "parse_uint bits s =
     (if s = [] \<or> \<not> list_all is_digit s then Inl (Errorf (''strconv.ParseUint: parsing '' @ quote s @ '': invalid syntax''))
      else if 2 ^ bits \<le> digits_val s then Inl (Errorf (''strconv.ParseUint: parsing '' @ quote s @ '': value out of range''))
      else Inr (digits_val s))"

lemma parse_uint_itoa: "n < 2 ^ bits \<Longrightarrow> parse_uint bits (itoa n) = Inr n"
  using itoa_digits [of n] by (simp add: parse_uint_def list_all_iff)

lemma split_host_port_plain:
  assumes "CHR '':'' \<notin> set host" "CHR ''['' \<notin> set host" "CHR '']'' \<notin> set host"
    and "CHR '':'' \<notin> set port" "CHR ''['' \<notin> set port" "CHR '']'' \<notin> set port"
  shows "split_host_port (host @ '':'' @ port) = Inr (host, port)"
proof -
  let ?hp = "host @ '':'' @ port"
  have tw: "takeWhile (\<lambda>c. c \<noteq> CHR '':'') (rev ?hp) = rev port"
    using takeWhile_append2 [of "rev port" "\<lambda>c. c \<noteq> CHR '':''" "CHR '':'' # rev host"] assms(4)
    by (simp add: append_assoc) metis
  have "hd ?hp \<noteq> CHR ''[''" using assms(2) by (cases host) auto
  with assms tw show ?thesis by (simp add: split_host_port_def Let_def)
qed

lemma itoa_plain: "CHR '':'' \<notin> set (itoa n)" "CHR ''['' \<notin> set (itoa n)" "CHR '']'' \<notin> set (itoa n)"
  by (rule itoa_no_char, simp add: is_digit_def of_char_def)+

section \<open>Splitting texts, and reading IPv4 texts\<close>

text \<open>\<^verbatim>\<open>strings.Split\<close> with a separator of one byte.\<close>

fun split_on :: "char \<Rightarrow> string \<Rightarrow> string list" where
  "split_on c [] = [[]]"
| "split_on c (x # xs) =
     (if x = c then [] # split_on c xs
      else case split_on c xs of [] \<Rightarrow> [[x]] | w # ws \<Rightarrow> (x # w) # ws)"

lemma split_on_nonempty [simp]: "split_on c s \<noteq> []"
  by (induction s) (auto split: list.split)

lemma split_on_none: "c \<notin> set s \<Longrightarrow> split_on c s = [s]"
  by (induction s) auto

lemma split_on_sep: "c \<notin> set s \<Longrightarrow> split_on c (s @ c # t) = s # split_on c t"
  by (induction s) auto

text \<open>
  \<^verbatim>\<open>netip.ParseAddr\<close> and \<^verbatim>\<open>ParsePrefix\<close> on IPv4 texts: four decimal fields up to 255 without leading
  zeros, and a length up to 32.
\<close>

definition parse_field :: "nat \<Rightarrow> string \<Rightarrow> nat option" where
  "parse_field limit s =
     (if s \<noteq> [] \<and> list_all is_digit s \<and> (length s = 1 \<or> hd s \<noteq> CHR ''0'') \<and> digits_val s \<le> limit
      then Some (digits_val s) else None)"

definition parse_addr4 :: "string \<Rightarrow> addr option" where
  "parse_addr4 s =
     (case map (parse_field 255) (split_on (CHR ''.'') s) of
        [Some a, Some b, Some c, Some d] \<Rightarrow> Some (V4 (word_of_nat (((a * 256 + b) * 256 + c) * 256 + d)))
      | _ \<Rightarrow> None)"

definition parse_prefix4 :: "string \<Rightarrow> prefix option" where
  "parse_prefix4 s =
     (case split_on (CHR ''/'') s of
        [a, n] \<Rightarrow>
          (case (parse_addr4 a, parse_field 32 n) of
             (Some x, Some k) \<Rightarrow> Some \<lparr>pfx_addr = x, pfx_bits = k\<rparr>
           | _ \<Rightarrow> None)
      | _ \<Rightarrow> None)"

lemma itoa_hd: "n \<noteq> 0 \<Longrightarrow> hd (itoa n) \<noteq> CHR ''0''"
proof (induction n rule: itoa.induct)
  case (1 n)
  show ?case
  proof (cases "n < 10")
    case True
    have "(of_char (char_of (48 + n)) :: nat) = 48 + n" using True by simp
    moreover have "(of_char (CHR ''0'') :: nat) = 48" by simp
    ultimately have "char_of (48 + n) \<noteq> CHR ''0''" using 1(2) by (metis add_cancel_left_right)
    with True show ?thesis by (simp add: itoa.simps [of n])
  next
    case False
    then have "n div 10 \<noteq> 0" by simp
    with 1(1) False show ?thesis by (simp add: itoa.simps [of n])
  qed
qed

lemma parse_field_itoa: "n \<le> limit \<Longrightarrow> parse_field limit (itoa n) = Some n"
proof -
  assume n: "n \<le> limit"
  have "length (itoa n) = 1 \<or> hd (itoa n) \<noteq> CHR ''0''"
  proof (cases "n = 0")
    case True
    then show ?thesis by (simp add: itoa.simps)
  qed (simp add: itoa_hd)
  with n itoa_digits [of n] show ?thesis by (simp add: parse_field_def list_all_iff)
qed

lemma digits_no_sep: "CHR ''.'' \<notin> set (itoa n)" "CHR ''/'' \<notin> set (itoa n)"
  by (rule itoa_no_char, simp add: is_digit_def of_char_def)+

lemma parse_addr4_string: "parse_addr4 (addr_string (V4 w)) = Some (V4 w)"
proof -
  let ?x = "unat w"
  let ?a = "octet (V4 w) 0" and ?b = "octet (V4 w) 1" and ?c = "octet (V4 w) 2" and ?d = "octet (V4 w) 3"
  have lim: "?a \<le> 255" "?b \<le> 255" "?c \<le> 255" "?d \<le> 255"
    by (simp_all add: octet_def less_Suc_eq_le [symmetric])
  have x: "?x < 2 ^ 32" using unat_bound [of w] by simp
  have div256: "y div 256 * 256 + y mod 256 = y" for y :: nat by simp
  have o: "?a = ?x div 256 div 256 div 256" "?b = ?x div 256 div 256 mod 256" "?c = ?x div 256 mod 256" "?d = ?x mod 256"
    using x by (simp_all add: octet_def flip: div_mult2_eq)
  have sum: "((?a * 256 + ?b) * 256 + ?c) * 256 + ?d = ?x"
    unfolding o by (simp only: div256)
  have "split_on (CHR ''.'') (addr_string (V4 w)) = [itoa ?a, itoa ?b, itoa ?c, itoa ?d]"
    by (simp add: v4_string_def split_on_sep split_on_none digits_no_sep)
  then show ?thesis using lim sum by (simp add: parse_addr4_def parse_field_itoa)
qed

lemma v4_no_slash: "CHR ''/'' \<notin> set (addr_string (V4 w))"
  by (simp add: v4_string_def digits_no_sep)

lemma parse_prefix4_string:
  assumes "prefix_ok p" "Is4 (pfx_addr p)"
  shows "parse_prefix4 (prefix_string p) = Some p"
proof -
  obtain w where w: "pfx_addr p = V4 w" using assms(2) by (cases "pfx_addr p") auto
  have b: "pfx_bits p \<le> 32" using assms(1) w by (simp add: prefix_ok_def)
  have "split_on (CHR ''/'') (prefix_string p) = [addr_string (V4 w), itoa (pfx_bits p)]"
    using v4_no_slash [of w] unfolding prefix_string_def w
    by (simp add: split_on_sep split_on_none digits_no_sep del: addr_string.simps)
  then show ?thesis using b w by (simp add: parse_prefix4_def parse_addr4_string parse_field_itoa del: addr_string.simps)
qed

lemma parse_prefix4_ok: "parse_prefix4 s = Some p \<Longrightarrow> prefix_ok p"
  by (auto simp: parse_prefix4_def parse_addr4_def parse_field_def prefix_ok_def
      split: list.splits option.splits if_splits)

end
