(* ===== verification/PortForward.thy ===== *)
theory PortForward
  imports Tunnel Netip
begin

text \<open>
  Port-forwards: \<^verbatim>\<open>internal/portfwd\<close>. The manager (\<^verbatim>\<open>manager.go\<close>), the check of a forward
  (\<^verbatim>\<open>test.go\<close>) and the tables of connections of the two routed forwarders
  (\<^verbatim>\<open>routed_tcp.go\<close>, \<^verbatim>\<open>routed_udp.go\<close>).

  A forwarder is known by a number, its address and what its \<^verbatim>\<open>Close\<close> answers. The cluster API
  and the listening sockets of the operating system are an argument. \<^verbatim>\<open>Start\<close> takes the lock
  twice; \<open>pfOpen\<close> is what it does before the second time and \<open>pfCommit\<close> the section under the
  lock, so that other calls can run in between.
\<close>

section \<open>The manager\<close>

definition KindPod :: string where "KindPod = ''pod''"
definition KindService :: string where "KindService = ''service''"

record pfRequest =
  rq_Context :: string
  rq_Namespace :: string
  rq_Kind :: string
  rq_Name :: string
  rq_Protocol :: string
  rq_RemotePort :: u16
  rq_LocalPort :: u16

record pfInfo =
  pi_ID :: string
  pi_Context :: string
  pi_Namespace :: string
  pi_Kind :: string
  pi_Name :: string
  pi_PodName :: string
  pi_Protocol :: string
  pi_RemotePort :: u16
  pi_LocalPort :: u16
  pi_Address :: string

record forwarder =
  fw_id :: nat
  fw_Address :: string
  fw_Close :: "goerr option"

record pfAPI =
  ResolveServiceBackend :: "string \<Rightarrow> string \<Rightarrow> string \<Rightarrow> 32 word \<Rightarrow> (string \<times> u16) res"
  ResolveRoutedTarget :: "pfRequest \<Rightarrow> string res"
  StartPodPortForward :: "string \<Rightarrow> string \<Rightarrow> string \<Rightarrow> u16 \<Rightarrow> u16 \<Rightarrow> forwarder res"
  ResolveUDPAddr :: "string \<Rightarrow> goerr option"
  ListenUDP :: "string \<Rightarrow> forwarder res"
  ListenTCP :: "string \<Rightarrow> forwarder res"

record runtimeForward =
  rf_info :: pfInfo
  rf_forwarder :: forwarder
  rf_routed :: bool

text \<open>\<open>pm_trafficDialer\<close>: whether a dialer is set.\<close>

record pfManager =
  pm_nextID :: u64
  pm_active :: "(string, runtimeForward) kv"
  pm_trafficDialer :: bool
  pm_trafficContext :: string

definition newPfManager :: pfManager where
  "newPfManager = \<lparr>pm_nextID = 0, pm_active = [], pm_trafficDialer = False, pm_trafficContext = []\<rparr>"

definition SetTrafficDialer :: "string \<Rightarrow> bool \<Rightarrow> pfManager \<Rightarrow> pfManager" where
  "SetTrafficDialer contextName dialer m = m\<lparr>pm_trafficContext := contextName, pm_trafficDialer := dialer\<rparr>"

definition pfList :: "pfManager \<Rightarrow> pfInfo list" where
  "pfList m = map (rf_info \<circ> snd) (pm_active m)"

definition localPortFromAddress :: "string \<Rightarrow> u16 res" where
  "localPortFromAddress address =
     (case split_host_port address of
        Inl e \<Rightarrow> Inl (Wrapf ''parse forward address: '' e)
      | Inr (host, portText) \<Rightarrow>
          (case parse_uint 16 portText of
             Inl e \<Rightarrow> Inl (Errorf (''invalid local port '' @ quote portText))
           | Inr port \<Rightarrow> if port = 0 then Inl (Errorf (''invalid local port '' @ quote portText))
                         else Inr (word_of_nat port)))"

text \<open>The checks and defaults at the head of \<^verbatim>\<open>Start\<close>.\<close>

definition normalizeRequest :: "pfRequest \<Rightarrow> pfRequest res" where
  "normalizeRequest request =
     (if rq_Context request = [] then Inl (Errorf ''context is required'')
      else
        let r1 = (if rq_Namespace request = [] then request\<lparr>rq_Namespace := ''default''\<rparr> else request) in
        if rq_Name r1 = [] then Inl (Errorf ''target name is required'')
        else if rq_RemotePort r1 = 0 then Inl (Errorf ''remote port is required'')
        else
          let p0 = to_lower (trim_space (rq_Protocol r1));
              p = (if p0 = [] then ''tcp'' else p0) in
          if p \<noteq> ''tcp'' \<and> p \<noteq> ''udp'' then Inl (Errorf (''unsupported protocol '' @ quote p))
          else Inr (r1\<lparr>rq_Protocol := p,
                       rq_Kind := (if rq_Kind r1 = [] then KindPod else rq_Kind r1)\<rparr>))"

text \<open>
  A forwarder that was opened for a request, with the local port its address shows. On an error
  the forwarders that were opened have been closed again.
\<close>

record pending =
  pd_request :: pfRequest
  pd_pod :: string
  pd_port :: u16
  pd_forwarder :: forwarder
  pd_routed :: bool

type_synonym pf_opening = "pending res \<times> forwarder list \<times> forwarder list"

definition checkForwarder :: "pfRequest \<Rightarrow> string \<Rightarrow> bool \<Rightarrow> forwarder \<Rightarrow> pf_opening" where
  "checkForwarder request pod routed f =
     (case localPortFromAddress (fw_Address f) of
        Inl e \<Rightarrow> (Inl e, [f], [f])
      | Inr port \<Rightarrow> (Inr \<lparr>pd_request = request, pd_pod = pod, pd_port = port, pd_forwarder = f, pd_routed = routed\<rparr>,
                     [f], []))"

definition startRouted :: "pfAPI \<Rightarrow> pfRequest \<Rightarrow> string \<Rightarrow> pf_opening" where
  "startRouted api request target =
     (let listenAddress = join_host_port ''127.0.0.1'' (itoa (unat (rq_LocalPort request))) in
      if rq_Protocol request = ''udp'' then
        (case ResolveUDPAddr api listenAddress of
           Some e \<Rightarrow> (Inl (Wrapf ''resolve UDP port-forward listener: '' e), [], [])
         | None \<Rightarrow>
             (case ListenUDP api listenAddress of
                Inl e \<Rightarrow> (Inl (Wrapf ''listen for UDP port-forward: '' e), [], [])
              | Inr f \<Rightarrow> checkForwarder request [] True f))
      else
        (case ListenTCP api listenAddress of
           Inl e \<Rightarrow> (Inl (Wrapf ''listen for port-forward: '' e), [], [])
         | Inr f \<Rightarrow> checkForwarder request [] True f))"

definition startNative :: "pfAPI \<Rightarrow> pfRequest \<Rightarrow> pf_opening" where
  "startNative api request =
     (let target =
        (if rq_Kind request = KindPod then Inr (rq_Name request, rq_RemotePort request)
         else if rq_Kind request = KindService
         then ResolveServiceBackend api (rq_Context request) (rq_Namespace request) (rq_Name request)
                (ucast (rq_RemotePort request))
         else Inl (Errorf (''unsupported kind '' @ quote (rq_Kind request))))
      in case target of
           Inl e \<Rightarrow> (Inl e, [], [])
         | Inr (podName, remotePort) \<Rightarrow>
             (case StartPodPortForward api (rq_Context request) (rq_Namespace request) podName
                     (rq_LocalPort request) remotePort of
                Inl e \<Rightarrow> (Inl e, [], [])
              | Inr f \<Rightarrow> checkForwarder request podName False f))"

definition pfOpen :: "pfAPI \<Rightarrow> pfManager \<Rightarrow> pfRequest \<Rightarrow> pf_opening" where
  "pfOpen api m request0 =
     (case normalizeRequest request0 of
        Inl e \<Rightarrow> (Inl e, [], [])
      | Inr request \<Rightarrow>
          if pm_trafficDialer m \<and> rq_Context request = pm_trafficContext m then
            (case ResolveRoutedTarget api request of
               Inl e \<Rightarrow> (Inl e, [], [])
             | Inr target \<Rightarrow> startRouted api request target)
          else if rq_Protocol request = ''udp''
          then (Inl (Errorf ''UDP port-forward requires an active KubeLoop session''), [], [])
          else startNative api request)"

definition pfCommit :: "pfManager \<Rightarrow> pending \<Rightarrow> pfInfo \<times> pfManager" where
  "pfCommit m p =
     (let nid = pm_nextID m + 1;
          ID = ''pf-'' @ itoa (unat nid);
          rq = pd_request p;
          info = \<lparr>pi_ID = ID, pi_Context = rq_Context rq, pi_Namespace = rq_Namespace rq, pi_Kind = rq_Kind rq,
                  pi_Name = rq_Name rq, pi_PodName = pd_pod p, pi_Protocol = rq_Protocol rq,
                  pi_RemotePort = rq_RemotePort rq, pi_LocalPort = pd_port p,
                  pi_Address = fw_Address (pd_forwarder p)\<rparr>
      in (info, m\<lparr>pm_nextID := nid,
                  pm_active := kv_put ID \<lparr>rf_info = info, rf_forwarder = pd_forwarder p, rf_routed = pd_routed p\<rparr>
                                 (pm_active m)\<rparr>))"

text \<open>The whole call, with what other calls do to the manager before its second lock.\<close>

definition pfStart :: "pfAPI \<Rightarrow> (pfManager \<Rightarrow> pfManager) \<Rightarrow> pfManager \<Rightarrow> pfRequest \<Rightarrow> pfInfo res \<times> pfManager" where
  "pfStart api others m request =
     (case pfOpen api m request of
        (Inl e, _) \<Rightarrow> (Inl e, others m)
      | (Inr p, _) \<Rightarrow> (let (info, m') = pfCommit (others m) p in (Inr info, m')))"

definition pfStop :: "string \<Rightarrow> pfManager \<Rightarrow> goerr option \<times> forwarder list \<times> pfManager" where
  "pfStop ID m =
     (let runtime = kv_get (pm_active m) ID;
          m' = m\<lparr>pm_active := kv_del ID (pm_active m)\<rparr>
      in case runtime of
           None \<Rightarrow> (Some (Errorf (''port-forward '' @ quote ID @ '' not found'')), [], m')
         | Some rt \<Rightarrow> (fw_Close (rf_forwarder rt), [rf_forwarder rt], m'))"

definition pfStopAll :: "pfManager \<Rightarrow> forwarder list \<times> pfManager" where
  "pfStopAll m = (map (rf_forwarder \<circ> snd) (pm_active m), m\<lparr>pm_active := []\<rparr>)"

fun collectRouted :: "(string, runtimeForward) kv \<Rightarrow> runtimeForward list \<times> (string, runtimeForward) kv" where
  "collectRouted [] = ([], [])"
| "collectRouted ((ID, item) # rest) =
     (let (items, kept) = collectRouted rest
      in if \<not> rf_routed item then (items, (ID, item) # kept) else (item # items, kept))"

definition StopRouted :: "pfManager \<Rightarrow> forwarder list \<times> pfManager" where
  "StopRouted m =
     (let (items, kept) = collectRouted (pm_active m) in (map rf_forwarder items, m\<lparr>pm_active := kept\<rparr>))"

text \<open>\<^verbatim>\<open>Test\<close>, with the answers of the dial and of closing the connection.\<close>

definition pfTest :: "(string \<Rightarrow> goerr option res) \<Rightarrow> string \<Rightarrow> pfManager \<Rightarrow> goerr option" where
  "pfTest dial ID m =
     (case kv_get (pm_active m) ID of
        None \<Rightarrow> Some (Errorf (''port-forward '' @ quote ID @ '' not found''))
      | Some rt \<Rightarrow>
          if to_lower (pi_Protocol (rf_info rt)) \<noteq> ''tcp''
          then Some (Errorf ''generic connectivity tests are only supported for TCP sessions'')
          else case dial (pi_Address (rf_info rt)) of
                 Inl e \<Rightarrow> Some (Wrapf (''dial '' @ pi_Address (rf_info rt) @ '': '') e)
               | Inr closeErr \<Rightarrow> closeErr)"

section \<open>What Start opens, and what becomes of it\<close>

lemma localPortFromAddress_nonzero: "localPortFromAddress a = Inr p \<Longrightarrow> p \<noteq> 0"
proof -
  assume a: "localPortFromAddress a = Inr p"
  then obtain h t n where "split_host_port a = Inr (h, t)" "parse_uint 16 t = Inr n" "n \<noteq> 0" "p = word_of_nat n"
    by (auto simp: localPortFromAddress_def split: sum.splits if_splits)
  moreover from this(2) have "n < 2 ^ 16"
    by (auto simp: parse_uint_def split: if_splits)
  ultimately show "p \<noteq> 0" by (simp add: unat_u16_of_nat flip: unat_eq_zero)
qed

lemma localPort_join:
  assumes "p \<noteq> 0"
  shows "localPortFromAddress (join_host_port ''127.0.0.1'' (itoa (unat p))) = Inr p"
proof -
  have "split_host_port (''127.0.0.1'' @ '':'' @ itoa (unat p)) = Inr (''127.0.0.1'', itoa (unat p))"
    by (rule split_host_port_plain) (simp_all add: itoa_plain)
  moreover have "parse_uint 16 (itoa (unat p)) = Inr (unat p)"
    using unat_bound [of p] by (intro parse_uint_itoa) simp
  ultimately show ?thesis using assms
    by (simp add: localPortFromAddress_def join_host_port_def unat_eq_zero)
qed

lemma checkForwarder_account:
  assumes "checkForwarder request pod routed f = (r, os, cs)"
  shows "mset os = (case r of Inl e \<Rightarrow> {#} | Inr p \<Rightarrow> {#pd_forwarder p#}) + mset cs"
    and "r = Inr p \<Longrightarrow> p = \<lparr>pd_request = request, pd_pod = pod, pd_port = pd_port p, pd_forwarder = f, pd_routed = routed\<rparr> \<and>
           localPortFromAddress (fw_Address f) = Inr (pd_port p)"
  using assms by (auto simp: checkForwarder_def split: sum.splits)

lemma startRouted_account:
  assumes "startRouted api request target = (r, os, cs)"
  shows "mset os = (case r of Inl e \<Rightarrow> {#} | Inr p \<Rightarrow> {#pd_forwarder p#}) + mset cs"
    and "r = Inr p \<Longrightarrow> pd_request p = request \<and> pd_routed p \<and>
           localPortFromAddress (fw_Address (pd_forwarder p)) = Inr (pd_port p)"
  using assms
  by (auto simp: startRouted_def Let_def checkForwarder_def split: sum.splits if_splits option.splits)

lemma startNative_account:
  assumes "startNative api request = (r, os, cs)"
  shows "mset os = (case r of Inl e \<Rightarrow> {#} | Inr p \<Rightarrow> {#pd_forwarder p#}) + mset cs"
    and "r = Inr p \<Longrightarrow> pd_request p = request \<and> \<not> pd_routed p \<and> rq_Kind request \<in> {KindPod, KindService} \<and>
           localPortFromAddress (fw_Address (pd_forwarder p)) = Inr (pd_port p) \<and>
           (\<exists>port. (if rq_Kind request = KindPod then pd_pod p = rq_Name request \<and> port = rq_RemotePort request
             else ResolveServiceBackend api (rq_Context request) (rq_Namespace request) (rq_Name request)
               (ucast (rq_RemotePort request)) = Inr (pd_pod p, port)) \<and>
             StartPodPortForward api (rq_Context request) (rq_Namespace request) (pd_pod p)
               (rq_LocalPort request) port = Inr (pd_forwarder p))"
proof -
  obtain t where t: "t = (if rq_Kind request = KindPod then Inr (rq_Name request, rq_RemotePort request)
         else if rq_Kind request = KindService
         then ResolveServiceBackend api (rq_Context request) (rq_Namespace request) (rq_Name request)
                (ucast (rq_RemotePort request))
         else Inl (Errorf (''unsupported kind '' @ quote (rq_Kind request))))" by blast
  note eq = assms [unfolded startNative_def Let_def, folded t]
  show "mset os = (case r of Inl e \<Rightarrow> {#} | Inr p \<Rightarrow> {#pd_forwarder p#}) + mset cs"
    using eq by (auto simp: checkForwarder_def split: sum.splits prod.splits)
  assume "r = Inr p"
  with eq obtain pod port f where tt: "t = Inr (pod, port)"
    and f: "StartPodPortForward api (rq_Context request) (rq_Namespace request) pod (rq_LocalPort request) port = Inr f"
    and c: "checkForwarder request pod False f = (Inr p, os, cs)"
    by (auto split: sum.splits prod.splits)
  from checkForwarder_account(2) [OF c refl] have p: "pd_pod p = pod" "pd_forwarder p = f" "pd_request p = request"
    "\<not> pd_routed p" "localPortFromAddress (fw_Address f) = Inr (pd_port p)"
    by (metis pending.select_convs)+
  have k: "rq_Kind request \<in> {KindPod, KindService}" using t tt by (auto split: if_splits)
  show "pd_request p = request \<and> \<not> pd_routed p \<and> rq_Kind request \<in> {KindPod, KindService} \<and>
           localPortFromAddress (fw_Address (pd_forwarder p)) = Inr (pd_port p) \<and>
           (\<exists>port. (if rq_Kind request = KindPod then pd_pod p = rq_Name request \<and> port = rq_RemotePort request
             else ResolveServiceBackend api (rq_Context request) (rq_Namespace request) (rq_Name request)
               (ucast (rq_RemotePort request)) = Inr (pd_pod p, port)) \<and>
             StartPodPortForward api (rq_Context request) (rq_Namespace request) (pd_pod p)
               (rq_LocalPort request) port = Inr (pd_forwarder p))"
    using p k f t tt by (auto split: if_splits intro!: exI [of _ port])
qed

lemma pfOpen_account:
  assumes "pfOpen api m request = (r, os, cs)"
  shows "mset os = (case r of Inl e \<Rightarrow> {#} | Inr p \<Rightarrow> {#pd_forwarder p#}) + mset cs"
  using assms
  by (auto simp: pfOpen_def split: sum.splits if_splits dest: startRouted_account(1) startNative_account(1))

lemma normalizeRequest_spec:
  "normalizeRequest r = Inr r' \<Longrightarrow>
     rq_Context r' \<noteq> [] \<and> rq_Namespace r' \<noteq> [] \<and> rq_Name r' \<noteq> [] \<and> rq_RemotePort r' \<noteq> 0 \<and>
     (rq_Protocol r' = ''tcp'' \<or> rq_Protocol r' = ''udp'') \<and> rq_Kind r' \<noteq> [] \<and>
     rq_Context r' = rq_Context r \<and> rq_Name r' = rq_Name r \<and> rq_RemotePort r' = rq_RemotePort r \<and>
     rq_LocalPort r' = rq_LocalPort r"
  by (auto simp: normalizeRequest_def Let_def KindPod_def split: if_splits)

lemma pfOpen_Inr:
  assumes "pfOpen api m request = (Inr p, os, cs)"
  shows "normalizeRequest request = Inr (pd_request p)"
    and "localPortFromAddress (fw_Address (pd_forwarder p)) = Inr (pd_port p)"
    and "pd_routed p \<longleftrightarrow> pm_trafficDialer m \<and> rq_Context request = pm_trafficContext m"
    and "rq_Protocol (pd_request p) = ''udp'' \<Longrightarrow> pd_routed p"
proof -
  obtain rq where n: "normalizeRequest request = Inr rq"
    using assms by (auto simp: pfOpen_def split: sum.splits)
  have c: "rq_Context rq = rq_Context request" using normalizeRequest_spec [OF n] by simp
  have "pd_request p = rq \<and> localPortFromAddress (fw_Address (pd_forwarder p)) = Inr (pd_port p) \<and>
    (pd_routed p \<longleftrightarrow> pm_trafficDialer m \<and> rq_Context request = pm_trafficContext m) \<and>
    (rq_Protocol rq = ''udp'' \<longrightarrow> pd_routed p)"
  proof (cases "pm_trafficDialer m \<and> rq_Context request = pm_trafficContext m")
    case True
    then obtain t where "startRouted api rq t = (Inr p, os, cs)"
      using assms n c by (auto simp: pfOpen_def split: sum.splits)
    from startRouted_account(2) [OF this refl] True show ?thesis by simp
  next
    case False
    then have "rq_Protocol rq \<noteq> ''udp''" "startNative api rq = (Inr p, os, cs)"
      using assms n c by (auto simp: pfOpen_def split: if_splits)
    with startNative_account(2) [OF this(2) refl] False show ?thesis by simp
  qed
  with n show "normalizeRequest request = Inr (pd_request p)"
    "localPortFromAddress (fw_Address (pd_forwarder p)) = Inr (pd_port p)"
    "pd_routed p \<longleftrightarrow> pm_trafficDialer m \<and> rq_Context request = pm_trafficContext m"
    "rq_Protocol (pd_request p) = ''udp'' \<Longrightarrow> pd_routed p" by auto
qed

lemma collectRouted_eq:
  "collectRouted m = (map snd (filter (rf_routed \<circ> snd) m), filter (\<lambda>p. \<not> rf_routed (snd p)) m)"
  by (induction m rule: collectRouted.induct) auto

section \<open>Starts and stops that interleave\<close>

record pfsys =
  pf_m :: pfManager
  pf_pending :: "pending list"
  pf_opened :: "forwarder multiset"
  pf_closed :: "forwarder multiset"

definition pf_init :: "pfsys \<Rightarrow> bool" where
  "pf_init s \<longleftrightarrow> s = \<lparr>pf_m = newPfManager, pf_pending = [], pf_opened = {#}, pf_closed = {#}\<rparr>"

inductive pf_step :: "pfsys \<Rightarrow> pfsys \<Rightarrow> bool" where
  pf_open: "pfOpen api (pf_m s) request = (r, os, cs) \<Longrightarrow>
     pf_step s (s\<lparr>pf_pending := (case r of Inl e \<Rightarrow> pf_pending s | Inr p \<Rightarrow> p # pf_pending s),
                 pf_opened := pf_opened s + mset os, pf_closed := pf_closed s + mset cs\<rparr>)"
| pf_commit: "p \<in> set (pf_pending s) \<Longrightarrow> unat (pm_nextID (pf_m s)) + 1 < 2 ^ 64 \<Longrightarrow>
     pf_step s (s\<lparr>pf_m := snd (pfCommit (pf_m s) p), pf_pending := remove1 p (pf_pending s)\<rparr>)"
| pf_stop: "pfStop ID (pf_m s) = (e, cs, m') \<Longrightarrow>
     pf_step s (s\<lparr>pf_m := m', pf_closed := pf_closed s + mset cs\<rparr>)"
| pf_stopAll: "pfStopAll (pf_m s) = (cs, m') \<Longrightarrow>
     pf_step s (s\<lparr>pf_m := m', pf_closed := pf_closed s + mset cs\<rparr>)"
| pf_stopRouted: "StopRouted (pf_m s) = (cs, m') \<Longrightarrow>
     pf_step s (s\<lparr>pf_m := m', pf_closed := pf_closed s + mset cs\<rparr>)"
| pf_dialer: "pf_step s (s\<lparr>pf_m := SetTrafficDialer c d (pf_m s)\<rparr>)"

abbreviation active_fws :: "pfManager \<Rightarrow> forwarder multiset" where
  "active_fws m \<equiv> image_mset (rf_forwarder \<circ> snd) (mset (pm_active m))"

definition ids_ok :: "pfManager \<Rightarrow> bool" where
  "ids_ok m \<longleftrightarrow> kv_ok (pm_active m) \<and>
     (\<forall>(ID, rt) \<in> set (pm_active m). pi_ID (rf_info rt) = ID \<and> pi_Address (rf_info rt) = fw_Address (rf_forwarder rt) \<and>
        (\<exists>k. k \<le> unat (pm_nextID m) \<and> ID = ''pf-'' @ itoa k))"

definition pf_inv :: "pfsys \<Rightarrow> bool" where
  "pf_inv s \<longleftrightarrow> ids_ok (pf_m s) \<and>
     pf_opened s = image_mset pd_forwarder (mset (pf_pending s)) + active_fws (pf_m s) + pf_closed s"

lemma pfCommit_fresh:
  assumes "ids_ok m" "unat (pm_nextID m) + 1 < 2 ^ 64"
  shows "kv_get (pm_active m) (''pf-'' @ itoa (unat (pm_nextID m + 1))) = None"
    and "unat (pm_nextID m + 1) = unat (pm_nextID m) + 1"
proof -
  show u: "unat (pm_nextID m + 1) = unat (pm_nextID m) + 1"
    using assms(2) by (simp add: unat_word_ariths)
  show "kv_get (pm_active m) (''pf-'' @ itoa (unat (pm_nextID m + 1))) = None"
  proof (rule ccontr)
    assume "\<not> ?thesis"
    then obtain rt where "(''pf-'' @ itoa (unat (pm_nextID m + 1)), rt) \<in> set (pm_active m)"
      by (auto simp: kv_get_def dest: map_of_SomeD)
    with assms(1) obtain k where "k \<le> unat (pm_nextID m)" "unat (pm_nextID m + 1) = k"
      unfolding ids_ok_def by fastforce
    with u show False by simp
  qed
qed

lemma pfCommit_simps:
  "pm_active (snd (pfCommit m p)) =
     kv_put (pi_ID (fst (pfCommit m p)))
       \<lparr>rf_info = fst (pfCommit m p), rf_forwarder = pd_forwarder p, rf_routed = pd_routed p\<rparr> (pm_active m)"
  "pm_nextID (snd (pfCommit m p)) = pm_nextID m + 1"
  "pi_ID (fst (pfCommit m p)) = ''pf-'' @ itoa (unat (pm_nextID m + 1))"
  "pi_Address (fst (pfCommit m p)) = fw_Address (pd_forwarder p)"
  by (simp_all add: pfCommit_def Let_def)

lemma ids_ok_commit:
  assumes "ids_ok m" "unat (pm_nextID m) + 1 < 2 ^ 64"
  shows "ids_ok (snd (pfCommit m p))"
    and "active_fws (snd (pfCommit m p)) = add_mset (pd_forwarder p) (active_fws m)"
proof -
  note fresh = pfCommit_fresh [OF assms]
  show "active_fws (snd (pfCommit m p)) = add_mset (pd_forwarder p) (active_fws m)"
    using fresh(1) by (simp add: pfCommit_simps kv_put_new)
  have old: "\<exists>k. k \<le> unat (pm_nextID m) + 1 \<and> ID = ''pf-'' @ itoa k"
    "pi_ID (rf_info rt) = ID" "pi_Address (rf_info rt) = fw_Address (rf_forwarder rt)"
    if "(ID, rt) \<in> set (pm_active m)" for ID rt
    using assms(1) that unfolding ids_ok_def by (fastforce intro: le_SucI)+
  have "kv_ok (pm_active m)" using assms(1) by (simp add: ids_ok_def)
  then show "ids_ok (snd (pfCommit m p))"
    using old by (auto simp: ids_ok_def pfCommit_simps fresh set_kv_put)
qed

lemma ids_ok_shrink:
  assumes "ids_ok m" "set xs \<subseteq> set (pm_active m)" "kv_ok xs"
  shows "ids_ok (m\<lparr>pm_active := xs\<rparr>)"
  using assms by (auto simp: ids_ok_def)

interpretation pfs: inv_system pf_init pf_step pf_inv
proof (unfold_locales, goal_cases)
  case (1 s)
  then show ?case by (simp add: pf_init_def pf_inv_def ids_ok_def newPfManager_def)
next
  case (2 s t)
  from 2(1) have ids: "ids_ok (pf_m s)" and ok: "kv_ok (pm_active (pf_m s))"
    and acc: "pf_opened s = image_mset pd_forwarder (mset (pf_pending s)) + active_fws (pf_m s) + pf_closed s"
    by (simp_all add: pf_inv_def ids_ok_def)
  from 2(2) show ?case
  proof cases
    case (pf_open api request r os cs)
    from pfOpen_account [OF pf_open(2)] show ?thesis
      using ids acc by (auto simp: pf_inv_def pf_open(1) split: sum.splits)
  next
    case (pf_commit p)
    define xs where "xs = remove1 p (pf_pending s)"
    from pf_commit(2) have "mset (pf_pending s) = add_mset p (mset xs)" by (simp add: xs_def)
    with acc have "pf_opened s = image_mset pd_forwarder (mset xs) +
      active_fws (snd (pfCommit (pf_m s) p)) + pf_closed s"
      by (simp only: ids_ok_commit(2) [OF ids pf_commit(3)]) simp
    with ids_ok_commit(1) [OF ids pf_commit(3)] show ?thesis
      by (simp add: pf_inv_def pf_commit(1) xs_def)
  next
    case (pf_stop ID e cs m')
    show ?thesis
    proof (cases "kv_get (pm_active (pf_m s)) ID")
      case None
      then have "kv_del ID (pm_active (pf_m s)) = pm_active (pf_m s)"
        by (auto simp: kv_del_filter filter_id_conv kv_get_None kv_keys_def rev_image_eqI)
      with None pf_stop ids acc show ?thesis by (simp add: pf_inv_def pfStop_def)
    next
      case (Some rt)
      from ids_ok_shrink [OF ids, of "kv_del ID (pm_active (pf_m s))"] ok
      have "ids_ok (pf_m s\<lparr>pm_active := kv_del ID (pm_active (pf_m s))\<rparr>)" by (auto simp: set_kv_del)
      with Some pf_stop acc mset_kv_del [OF ok Some] show ?thesis by (auto simp: pf_inv_def pfStop_def)
    qed
  next
    case (pf_stopAll cs m')
    with acc ids show ?thesis by (auto simp: pf_inv_def pfStopAll_def ids_ok_def comp_def)
  next
    case (pf_stopRouted cs m')
    let ?a = "pm_active (pf_m s)"
    have m': "m' = (pf_m s)\<lparr>pm_active := filter (\<lambda>p. \<not> rf_routed (snd p)) ?a\<rparr>"
      and cs: "cs = map (rf_forwarder \<circ> snd) (filter (rf_routed \<circ> snd) ?a)"
      using pf_stopRouted(2) by (auto simp: StopRouted_def collectRouted_eq)
    have "mset ?a = mset (filter (rf_routed \<circ> snd) ?a) + mset (filter (\<lambda>p. \<not> rf_routed (snd p)) ?a)"
      by (simp add: comp_def)
    then have "active_fws (pf_m s) = mset cs + active_fws m'"
      by (metis (no_types, lifting) cs image_mset_union m' mset_map pfManager.select_convs(2) pfManager.simps(7) pfManager.surjective pfManager.update_convs(2))
    moreover have "ids_ok m'"
      unfolding m' using ok by (intro ids_ok_shrink [OF ids]) auto
    ultimately show ?thesis using acc
      by (simp add: pf_inv_def pf_stopRouted(1) m' ac_simps)
  next
    case (pf_dialer c d)
    with ids acc show ?thesis by (simp add: pf_inv_def ids_ok_def SetTrafficDialer_def)
  qed
qed

text \<open>
  C28. No forwarder is lost: however starts, stops and changes of the dialer interleave, each
  forwarder that was opened is exactly one of: waiting for its start to publish it, active under
  an ID of its own, or closed. So \<^verbatim>\<open>StopAll\<close> with no start under way leaves nothing open.
\<close>

theorem port_forwards_accounted:
  assumes "reach pf_init pf_step s"
  shows "pf_opened s = image_mset pd_forwarder (mset (pf_pending s)) + active_fws (pf_m s) + pf_closed s \<and>
    kv_ok (pm_active (pf_m s)) \<and>
    (\<forall>ID rt. kv_get (pm_active (pf_m s)) ID = Some rt \<longrightarrow> pi_ID (rf_info rt) = ID) \<and>
    (pf_pending s = [] \<longrightarrow> pf_closed s + mset (fst (pfStopAll (pf_m s))) = pf_opened s)"
proof -
  from pfs.reach_inv [OF assms] have inv: "pf_inv s" .
  then have "kv_get (pm_active (pf_m s)) ID = Some rt \<longrightarrow> pi_ID (rf_info rt) = ID" for ID rt
    by (auto simp: pf_inv_def ids_ok_def kv_get_def dest!: map_of_SomeD)
  with inv show ?thesis by (simp add: pf_inv_def ids_ok_def pfStopAll_def comp_def)
qed


definition ex_fw :: forwarder where
  "ex_fw = \<lparr>fw_id = 1, fw_Address = ''127.0.0.1:8080'', fw_Close = None\<rparr>"

definition ex_api :: pfAPI where
  "ex_api = \<lparr>ResolveServiceBackend = (\<lambda>c ns n p. Inr (''web-0'', 8080)), ResolveRoutedTarget = (\<lambda>r. Inr ''10.0.0.7:80''),
     StartPodPortForward = (\<lambda>c ns n l r. Inr ex_fw), ResolveUDPAddr = (\<lambda>a. None),
     ListenUDP = (\<lambda>a. Inr ex_fw), ListenTCP = (\<lambda>a. Inr ex_fw)\<rparr>"

definition ex_pfRequest :: pfRequest where
  "ex_pfRequest = \<lparr>rq_Context = ''dev'', rq_Namespace = [], rq_Kind = ''service'', rq_Name = ''web'', rq_Protocol = '' TCP'',
     rq_RemotePort = 80, rq_LocalPort = 0\<rparr>"

definition ex_pending :: pending where
  "ex_pending = \<lparr>pd_request = ex_pfRequest\<lparr>rq_Namespace := ''default'', rq_Protocol := ''tcp''\<rparr>, pd_pod = ''web-0'',
     pd_port = 8080, pd_forwarder = ex_fw, pd_routed = False\<rparr>"

lemma ex_localPort: "localPortFromAddress ''127.0.0.1:8080'' = Inr 8080"
  using localPort_join [of 8080] by (simp add: join_host_port_def itoa.simps char_of_digit)

lemma ex_open: "pfOpen ex_api m ex_pfRequest = (Inr ex_pending, [ex_fw], [])" if "\<not> pm_trafficDialer m" for m
proof -
  have "to_lower (trim_space '' TCP'') = ''tcp''" by code_simp
  with that show ?thesis
    by (simp add: pfOpen_def normalizeRequest_def ex_pfRequest_def startNative_def ex_api_def KindPod_def KindService_def
        checkForwarder_def ex_fw_def ex_localPort ex_pending_def)
qed

definition ex_pfsys :: pfsys where
  "ex_pfsys = \<lparr>pf_m = snd (pfCommit newPfManager ex_pending), pf_pending = [], pf_opened = {#ex_fw#}, pf_closed = {#}\<rparr>"

lemma ex_pfsys_reach: "reach pf_init pf_step ex_pfsys"
proof -
  let ?s0 = "\<lparr>pf_m = newPfManager, pf_pending = [], pf_opened = {#}, pf_closed = {#}\<rparr>"
  let ?s1 = "\<lparr>pf_m = newPfManager, pf_pending = [ex_pending], pf_opened = {#ex_fw#}, pf_closed = {#}\<rparr>"
  have "reach pf_init pf_step ?s0" by (rule reach_init) (simp add: pf_init_def)
  moreover have "pf_step ?s0 ?s1"
    using pf_open [OF ex_open, of ?s0] by (simp add: newPfManager_def)
  moreover have "pf_step ?s1 ex_pfsys"
    using pf_commit [of ex_pending ?s1] by (simp add: newPfManager_def ex_pfsys_def)
  ultimately show ?thesis by (blast intro: reach_step)
qed

theorem port_forwards_accounted_witness:
  "pf_opened ex_pfsys = {#ex_fw#} \<and> pf_closed ex_pfsys + mset (fst (pfStopAll (pf_m ex_pfsys))) = {#ex_fw#}"
  using port_forwards_accounted [OF ex_pfsys_reach] by (simp add: ex_pfsys_def)

text \<open>
  A start that succeeds: the request passed every check, its defaults are filled in, and the
  forward is listed as asked for with the port its listener really has (never 0); a UDP forward
  goes through the traffic dialer of the active session; and stopping it by its ID closes exactly
  its forwarder and leaves the table as the others had left it. A start that fails has closed what
  it opened and left the table alone.
\<close>

theorem port_forward_start_stop:
  assumes ids: "ids_ok (others m)" "unat (pm_nextID (others m)) + 1 < 2 ^ 64"
    and open0: "pfOpen api m request = (r, os, cs)"
  shows "case pfStart api others m request of
     (Inl e, m') \<Rightarrow> r = Inl e \<and> m' = others m \<and> mset os = mset cs
   | (Inr info, m') \<Rightarrow> \<exists>rq f. normalizeRequest request = Inr rq \<and>
       info = \<lparr>pi_ID = pi_ID info, pi_Context = rq_Context request, pi_Namespace = rq_Namespace rq, pi_Kind = rq_Kind rq,
         pi_Name = rq_Name request, pi_PodName = pi_PodName info, pi_Protocol = rq_Protocol rq,
         pi_RemotePort = rq_RemotePort request, pi_LocalPort = pi_LocalPort info, pi_Address = fw_Address f\<rparr> \<and>
       rq_Protocol rq \<in> {''tcp'', ''udp''} \<and> rq_Namespace rq \<noteq> [] \<and>
       localPortFromAddress (fw_Address f) = Inr (pi_LocalPort info) \<and> pi_LocalPort info \<noteq> 0 \<and>
       (rq_Protocol rq = ''udp'' \<longrightarrow> pm_trafficDialer m \<and> rq_Context request = pm_trafficContext m) \<and>
       info \<in> set (pfList m') \<and> mset os = add_mset f (mset cs) \<and>
       pfStop (pi_ID info) m' = (fw_Close f, [f], (others m)\<lparr>pm_nextID := pm_nextID m'\<rparr>)"
proof (cases r)
  case (Inl e)
  with open0 pfOpen_account [OF open0] show ?thesis by (simp add: pfStart_def)
next
  case (Inr p)
  note o = open0 [unfolded Inr]
  let ?info = "fst (pfCommit (others m) p)" and ?m = "snd (pfCommit (others m) p)"
  have st: "pfStart api others m request = (Inr ?info, ?m)"
    by (simp add: pfStart_def o case_prod_beta)
  from normalizeRequest_spec [OF pfOpen_Inr(1) [OF o]] have n: "rq_Context (pd_request p) = rq_Context request"
    "rq_Name (pd_request p) = rq_Name request" "rq_RemotePort (pd_request p) = rq_RemotePort request"
    "rq_Protocol (pd_request p) \<in> {''tcp'', ''udp''}" "rq_Namespace (pd_request p) \<noteq> []" by auto
  have fields: "?info = \<lparr>pi_ID = pi_ID ?info, pi_Context = rq_Context request, pi_Namespace = rq_Namespace (pd_request p),
      pi_Kind = rq_Kind (pd_request p), pi_Name = rq_Name request, pi_PodName = pi_PodName ?info,
      pi_Protocol = rq_Protocol (pd_request p), pi_RemotePort = rq_RemotePort request,
      pi_LocalPort = pi_LocalPort ?info, pi_Address = fw_Address (pd_forwarder p)\<rparr>"
    by (simp add: pfCommit_def Let_def n)
  have port: "pi_LocalPort ?info = pd_port p" by (simp add: pfCommit_def Let_def)
  note lp = pfOpen_Inr(2) [OF o] localPortFromAddress_nonzero [OF pfOpen_Inr(2) [OF o]]
  have fresh: "kv_get (pm_active (others m)) (pi_ID ?info) = None"
    using pfCommit_fresh(1) [OF ids] by (simp add: pfCommit_simps)
  have act: "pm_active ?m = pm_active (others m) @
      [(pi_ID ?info, \<lparr>rf_info = ?info, rf_forwarder = pd_forwarder p, rf_routed = pd_routed p\<rparr>)]"
    by (simp only: pfCommit_simps(1) kv_put_new [OF fresh])
  have stop: "pfStop (pi_ID ?info) ?m = (fw_Close (pd_forwarder p), [pd_forwarder p], (others m)\<lparr>pm_nextID := pm_nextID ?m\<rparr>)"
  proof -
    have "kv_del (pi_ID ?info) (pm_active (others m)) = pm_active (others m)"
      using fresh by (auto simp: kv_del_filter filter_id_conv kv_get_None kv_keys_def rev_image_eqI)
    then have "kv_del (pi_ID ?info) (pm_active ?m) = pm_active (others m)"
      by (simp only: act) (simp add: kv_del_filter)
    moreover have "kv_get (pm_active ?m) (pi_ID ?info) =
        Some \<lparr>rf_info = ?info, rf_forwarder = pd_forwarder p, rf_routed = pd_routed p\<rparr>"
      by (simp only: pfCommit_simps(1) kv_get_put) simp
    ultimately show ?thesis by (simp add: pfStop_def) (simp add: pfCommit_def Let_def)
  qed
  have "info_in": "?info \<in> set (pfList ?m)" by (simp add: pfList_def act)
  show ?thesis
    unfolding st prod.case sum.case
    apply (intro exI [of _ "pd_request p"] exI [of _ "pd_forwarder p"] conjI impI)
    using pfOpen_Inr [OF o] fields n lp port info_in stop pfOpen_account [OF o] by simp_all
qed

theorem port_forward_start_stop_witness:
  "(case pfStart ex_api (\<lambda>m. m) newPfManager ex_pfRequest of
      (Inr info, m') \<Rightarrow> pi_LocalPort info = 8080 \<and> info \<in> set (pfList m') \<and> snd (snd (pfStop (pi_ID info) m')) =
         newPfManager\<lparr>pm_nextID := pm_nextID m'\<rparr>
    | _ \<Rightarrow> False)"
proof -
  have o: "pfOpen ex_api newPfManager ex_pfRequest = (Inr ex_pending, [ex_fw], [])"
    by (rule ex_open) (simp add: newPfManager_def)
  obtain info m' where st: "pfStart ex_api (\<lambda>m. m) newPfManager ex_pfRequest = (Inr info, m')"
    by (simp add: pfStart_def o case_prod_beta)
  have ids: "ids_ok ((\<lambda>m. m) newPfManager)" "unat (pm_nextID ((\<lambda>m. m) newPfManager)) + 1 < 2 ^ 64"
    by (simp_all add: newPfManager_def ids_ok_def)
  have "pi_LocalPort info = 8080" using st by (auto simp: pfStart_def o pfCommit_def ex_pending_def Let_def)
  with port_forward_start_stop [of "\<lambda>m. m" newPfManager, OF ids o] st show ?thesis by auto
qed

section \<open>The routed UDP forwarder: one upstream per client\<close>

text \<open>
  The table of associations under its lock, the cancelled context, and the upstream connections
  whose \<^verbatim>\<open>Close\<close> has been called, each known by the number of its dial. \<open>uf_closing\<close> are those
  that \<^verbatim>\<open>Close\<close> has collected or \<^verbatim>\<open>removeAssociation\<close> has taken out and not closed yet.
\<close>

record routedUDPForwarder =
  uf_cancelled :: bool
  uf_associations :: "(string, nat) kv"
  uf_closing :: "nat list"
  uf_closed :: "nat list"

definition newRoutedUDPForwarder :: routedUDPForwarder where
  "newRoutedUDPForwarder = \<lparr>uf_cancelled = False, uf_associations = [], uf_closing = [], uf_closed = []\<rparr>"

text \<open>The first section of \<^verbatim>\<open>association\<close> under the lock, and the second, after the dial.\<close>

definition findAssociation :: "string \<Rightarrow> routedUDPForwarder \<Rightarrow> nat option" where
  "findAssociation key f = kv_get (uf_associations f) key"

definition addAssociation :: "string \<Rightarrow> nat \<Rightarrow> routedUDPForwarder \<Rightarrow> nat res \<times> routedUDPForwarder" where
  "addAssociation key upstream f =
     (if uf_cancelled f then (Inl Canceled, f\<lparr>uf_closed := upstream # uf_closed f\<rparr>)
      else case kv_get (uf_associations f) key of
             Some existing \<Rightarrow> (Inr existing, f\<lparr>uf_closed := upstream # uf_closed f\<rparr>)
           | None \<Rightarrow> (Inr upstream, f\<lparr>uf_associations := kv_put key upstream (uf_associations f)\<rparr>))"

definition removeAssociation :: "string \<Rightarrow> nat \<Rightarrow> routedUDPForwarder \<Rightarrow> routedUDPForwarder" where
  "removeAssociation key item f =
     (let f' = (if kv_get (uf_associations f) key = Some item
                then f\<lparr>uf_associations := kv_del key (uf_associations f)\<rparr> else f)
      in f'\<lparr>uf_closing := item # uf_closing f'\<rparr>)"

text \<open>\<^verbatim>\<open>Close\<close>: the context is cancelled, and later the table is collected and cleared.\<close>

definition udpCancel :: "routedUDPForwarder \<Rightarrow> routedUDPForwarder" where
  "udpCancel f = f\<lparr>uf_cancelled := True\<rparr>"

definition udpCollect :: "routedUDPForwarder \<Rightarrow> routedUDPForwarder" where
  "udpCollect f = f\<lparr>uf_associations := [], uf_closing := map snd (uf_associations f) @ uf_closing f\<rparr>"

definition closeUpstream :: "nat \<Rightarrow> routedUDPForwarder \<Rightarrow> routedUDPForwarder" where
  "closeUpstream c f = f\<lparr>uf_closing := remove1 c (uf_closing f), uf_closed := c # uf_closed f\<rparr>"

record udpsys =
  us_f :: routedUDPForwarder
  us_dials :: nat
  us_dialed :: "(string \<times> nat) list"
  us_collected :: bool

definition udp_init :: "udpsys \<Rightarrow> bool" where
  "udp_init s \<longleftrightarrow> s = \<lparr>us_f = newRoutedUDPForwarder, us_dials = 0, us_dialed = [], us_collected = False\<rparr>"

text \<open>
  The goroutines of one forwarder: the serving loop dials for a client it has no association for
  and then inserts; replies and failed writes remove an association; \<^verbatim>\<open>Close\<close> cancels, then
  collects; collected and removed connections are closed one by one.
\<close>

inductive udp_step :: "udpsys \<Rightarrow> udpsys \<Rightarrow> bool" where
  udp_dial: "findAssociation key (us_f s) = None \<Longrightarrow>
     udp_step s (s\<lparr>us_dials := us_dials s + 1, us_dialed := (key, us_dials s) # us_dialed s\<rparr>)"
| udp_insert: "(key, c) \<in> set (us_dialed s) \<Longrightarrow>
     udp_step s (s\<lparr>us_f := snd (addAssociation key c (us_f s)), us_dialed := remove1 (key, c) (us_dialed s)\<rparr>)"
| udp_remove: "c < us_dials s \<Longrightarrow> c \<notin> snd ` set (us_dialed s) \<Longrightarrow>
     udp_step s (s\<lparr>us_f := removeAssociation key c (us_f s)\<rparr>)"
| udp_cancel: "udp_step s (s\<lparr>us_f := udpCancel (us_f s)\<rparr>)"
| udp_collect: "uf_cancelled (us_f s) \<Longrightarrow> udp_step s (s\<lparr>us_f := udpCollect (us_f s), us_collected := True\<rparr>)"
| udp_close: "c \<in> set (uf_closing (us_f s)) \<Longrightarrow> udp_step s (s\<lparr>us_f := closeUpstream c (us_f s)\<rparr>)"

lemma set_remove1_cover: "set xs \<subseteq> insert x (set (remove1 x xs))"
  by (induction xs) auto

text \<open>Where the connections of the forwarder are.\<close>

definition udp_conns :: "routedUDPForwarder \<Rightarrow> nat set" where
  "udp_conns f = snd ` set (uf_associations f) \<union> set (uf_closing f) \<union> set (uf_closed f)"

definition udp_inv :: "udpsys \<Rightarrow> bool" where
  "udp_inv s \<longleftrightarrow>
     kv_ok (uf_associations (us_f s)) \<and>
     (us_collected s \<longrightarrow> uf_cancelled (us_f s) \<and> uf_associations (us_f s) = []) \<and>
     {..<us_dials s} \<subseteq> snd ` set (us_dialed s) \<union> udp_conns (us_f s)"

lemma udp_conns_add: "udp_conns (snd (addAssociation key c f)) = insert c (udp_conns f)"
  by (auto simp: addAssociation_def udp_conns_def kv_put_new split: option.split)

lemma udp_conns_remove:
  assumes "kv_ok (uf_associations f)"
  shows "udp_conns f \<subseteq> udp_conns (removeAssociation key c f)"
proof (cases "kv_get (uf_associations f) key = Some c")
  case True
  have "snd ` set (uf_associations f) \<subseteq> insert c (snd ` set (kv_del key (uf_associations f)))"
  proof clarsimp
    fix k d assume kd: "(k, d) \<in> set (uf_associations f)" "d \<notin> snd ` set (kv_del key (uf_associations f))"
    then have "k = key" by (force simp: set_kv_del)
    with kd(1) True assms show "d = c" by (simp add: kv_get_mem [symmetric])
  qed
  with True show ?thesis by (auto simp: removeAssociation_def udp_conns_def)
next
  case False
  then show ?thesis by (auto simp: removeAssociation_def udp_conns_def)
qed

lemma udp_conns_close: "udp_conns f \<subseteq> udp_conns (closeUpstream c f)"
  using set_remove1_cover [of "uf_closing f" c] by (auto simp: udp_conns_def closeUpstream_def)

interpretation udp: inv_system udp_init udp_step udp_inv
proof (unfold_locales, goal_cases)
  case (1 s)
  then show ?case by (simp add: udp_init_def udp_inv_def newRoutedUDPForwarder_def)
next
  case (2 s t)
  let ?f = "us_f s"
  from 2(1) have ok: "kv_ok (uf_associations ?f)"
    and col: "us_collected s \<longrightarrow> uf_cancelled ?f \<and> uf_associations ?f = []"
    and cov: "{..<us_dials s} \<subseteq> snd ` set (us_dialed s) \<union> udp_conns ?f"
    by (simp_all add: udp_inv_def)
  from 2(2) show ?case
  proof cases
    case (udp_dial key)
    with ok col cov show ?thesis by (auto simp: udp_inv_def lessThan_Suc)
  next
    case (udp_insert key c)
    have "snd ` set (us_dialed s) \<subseteq> insert c (snd ` set (remove1 (key, c) (us_dialed s)))"
      using set_remove1_cover [of "us_dialed s" "(key, c)"] by force
    with cov have "{..<us_dials s} \<subseteq> snd ` set (remove1 (key, c) (us_dialed s)) \<union>
        udp_conns (snd (addAssociation key c ?f))"
      unfolding udp_conns_add by blast
    moreover have "kv_ok (uf_associations (snd (addAssociation key c ?f)))"
      "us_collected s \<longrightarrow> uf_cancelled (snd (addAssociation key c ?f)) \<and>
         uf_associations (snd (addAssociation key c ?f)) = []"
      using ok col by (auto simp: addAssociation_def split: option.split)
    ultimately show ?thesis by (simp add: udp_inv_def udp_insert(1))
  next
    case (udp_remove c key)
    have "kv_ok (uf_associations (removeAssociation key c ?f))"
      "us_collected s \<longrightarrow> uf_cancelled (removeAssociation key c ?f) \<and> uf_associations (removeAssociation key c ?f) = []"
      using ok col by (auto simp: removeAssociation_def Let_def)
    moreover have "{..<us_dials s} \<subseteq> snd ` set (us_dialed s) \<union> udp_conns (removeAssociation key c ?f)"
      using cov udp_conns_remove [OF ok, of key c] by blast
    ultimately show ?thesis by (simp add: udp_inv_def udp_remove(1))
  next
    case udp_cancel
    with ok col cov show ?thesis by (simp add: udp_inv_def udpCancel_def udp_conns_def)
  next
    case udp_collect
    then have "udp_conns (udpCollect ?f) = udp_conns ?f"
      by (auto simp: udpCollect_def udp_conns_def)
    with udp_collect cov show ?thesis by (simp add: udp_inv_def) (simp add: udpCollect_def)
  next
    case (udp_close c)
    have "{..<us_dials s} \<subseteq> snd ` set (us_dialed s) \<union> udp_conns (closeUpstream c ?f)"
      using cov udp_conns_close [of ?f c] by blast
    with udp_close(1) ok col show ?thesis by (simp add: udp_inv_def) (simp add: closeUpstream_def)
  qed
qed

text \<open>
  The upstream connections of a UDP forward: a client has at most one association at any time;
  once \<^verbatim>\<open>Close\<close> has cleared the table nothing enters it again; and every connection that was ever
  dialed is still waiting to be inserted, in the table, about to be closed, or closed. When the
  goroutines of a closed forwarder have come to their ends, every connection is closed.
\<close>

theorem udp_forward_no_leak:
  assumes "reach udp_init udp_step s"
  shows "kv_ok (uf_associations (us_f s)) \<and>
    (us_collected s \<longrightarrow> uf_associations (us_f s) = [] \<and>
       (\<forall>key c. fst (addAssociation key c (us_f s)) = Inl Canceled)) \<and>
    (us_collected s \<and> us_dialed s = [] \<and> uf_closing (us_f s) = [] \<longrightarrow>
       {..<us_dials s} \<subseteq> set (uf_closed (us_f s)))"
  using udp.reach_inv [OF assms] by (auto simp: udp_inv_def udp_conns_def addAssociation_def)


definition ex_udp :: udpsys where
  "ex_udp = \<lparr>us_f = \<lparr>uf_cancelled = True, uf_associations = [], uf_closing = [], uf_closed = [0]\<rparr>,
     us_dials = 1, us_dialed = [], us_collected = True\<rparr>"

lemma ex_udp_reach: "reach udp_init udp_step ex_udp"
proof -
  let ?f = newRoutedUDPForwarder
  let ?g = "\<lambda>f d b. \<lparr>us_f = f, us_dials = 1, us_dialed = d, us_collected = b\<rparr>"
  let ?z = "\<lparr>us_f = ?f, us_dials = 0, us_dialed = [], us_collected = False\<rparr>"
  let ?f1 = "?f\<lparr>uf_associations := [(''1.2.3.4:5'', 0)]\<rparr>"
  let ?f2 = "?f1\<lparr>uf_cancelled := True\<rparr>"
  let ?f3 = "?f\<lparr>uf_cancelled := True, uf_closing := [0]\<rparr>"
  have r: "reach udp_init udp_step ?z" by (rule reach_init) (simp add: udp_init_def)
  have t1: "udp_step ?z (?g ?f [(''1.2.3.4:5'', 0)] False)"
    using udp_dial [of "''1.2.3.4:5''" ?z] by (simp add: findAssociation_def newRoutedUDPForwarder_def)
  have t2: "udp_step (?g ?f [(''1.2.3.4:5'', 0)] False) (?g ?f1 [] False)"
    using udp_insert [of "''1.2.3.4:5''" 0 "?g ?f [(''1.2.3.4:5'', 0)] False"]
    by (simp add: addAssociation_def newRoutedUDPForwarder_def kv_put_new)
  have t3: "udp_step (?g ?f1 [] False) (?g ?f2 [] False)"
    using udp_cancel [of "?g ?f1 [] False"] by (simp add: udpCancel_def)
  have t4: "udp_step (?g ?f2 [] False) (?g ?f3 [] True)"
    using udp_collect [of "?g ?f2 [] False"] by (simp add: udpCollect_def newRoutedUDPForwarder_def)
  have t5: "udp_step (?g ?f3 [] True) ex_udp"
    using udp_close [of 0 "?g ?f3 [] True"] by (simp add: closeUpstream_def newRoutedUDPForwarder_def ex_udp_def)
  note go = reach_step [where init = udp_init and step = udp_step]
  show ?thesis by (rule go [OF go [OF go [OF go [OF go [OF r t1] t2] t3] t4] t5])
qed

theorem udp_forward_no_leak_witness:
  "{..<us_dials ex_udp} \<subseteq> set (uf_closed (us_f ex_udp)) \<and> us_dials ex_udp = 1 \<and>
   fst (addAssociation ''1.2.3.4:5'' 1 (us_f ex_udp)) = Inl Canceled"
  using udp_forward_no_leak [OF ex_udp_reach] by (simp add: ex_udp_def)

section \<open>The routed TCP forwarder: tracked connections\<close>

record routedForwarder =
  tf_cancelled :: bool
  tf_conns :: "nat list"
  tf_closed :: "nat list"

definition newRoutedForwarder :: routedForwarder where
  "newRoutedForwarder = \<lparr>tf_cancelled = False, tf_conns = [], tf_closed = []\<rparr>"

definition track :: "nat \<Rightarrow> routedForwarder \<Rightarrow> bool \<times> routedForwarder" where
  "track conn f =
     (if tf_cancelled f then (False, f\<lparr>tf_closed := conn # tf_closed f\<rparr>)
      else (True, f\<lparr>tf_conns := List.insert conn (tf_conns f)\<rparr>))"

definition untrack :: "nat \<Rightarrow> routedForwarder \<Rightarrow> routedForwarder" where
  "untrack conn f = f\<lparr>tf_conns := removeAll conn (tf_conns f)\<rparr>"

text \<open>\<^verbatim>\<open>Close\<close>: cancel, and then, under the lock, close every tracked connection.\<close>

definition tcpCancel :: "routedForwarder \<Rightarrow> routedForwarder" where
  "tcpCancel f = f\<lparr>tf_cancelled := True\<rparr>"

definition tcpSweep :: "routedForwarder \<Rightarrow> routedForwarder" where
  "tcpSweep f = f\<lparr>tf_closed := tf_conns f @ tf_closed f\<rparr>"

record tcpsys =
  ts_f :: routedForwarder
  ts_conns :: nat
  ts_fresh :: "nat list"
  ts_swept :: bool

definition tcp_init :: "tcpsys \<Rightarrow> bool" where
  "tcp_init s \<longleftrightarrow> s = \<lparr>ts_f = newRoutedForwarder, ts_conns = 0, ts_fresh = [], ts_swept = False\<rparr>"

text \<open>
  \<^verbatim>\<open>serve\<close> accepts a client and \<^verbatim>\<open>forward\<close> dials the target; each connection is then tracked. The
  deferred calls of a goroutine close its connections before they untrack them.
\<close>

inductive tcp_step :: "tcpsys \<Rightarrow> tcpsys \<Rightarrow> bool" where
  tcp_accept: "tcp_step s (s\<lparr>ts_conns := ts_conns s + 1, ts_fresh := ts_conns s # ts_fresh s\<rparr>)"
| tcp_track: "c \<in> set (ts_fresh s) \<Longrightarrow>
     tcp_step s (s\<lparr>ts_f := snd (track c (ts_f s)), ts_fresh := remove1 c (ts_fresh s)\<rparr>)"
| tcp_end: "c \<in> set (tf_conns (ts_f s)) \<Longrightarrow>
     tcp_step s (s\<lparr>ts_f := (ts_f s)\<lparr>tf_closed := c # tf_closed (ts_f s)\<rparr>\<rparr>)"
| tcp_untrack: "c \<in> set (tf_closed (ts_f s)) \<Longrightarrow> tcp_step s (s\<lparr>ts_f := untrack c (ts_f s)\<rparr>)"
| tcp_cancel: "tcp_step s (s\<lparr>ts_f := tcpCancel (ts_f s)\<rparr>)"
| tcp_sweep: "tf_cancelled (ts_f s) \<Longrightarrow> tcp_step s (s\<lparr>ts_f := tcpSweep (ts_f s), ts_swept := True\<rparr>)"

definition tcp_inv :: "tcpsys \<Rightarrow> bool" where
  "tcp_inv s \<longleftrightarrow>
     {..<ts_conns s} \<subseteq> set (ts_fresh s) \<union> set (tf_conns (ts_f s)) \<union> set (tf_closed (ts_f s)) \<and>
     (ts_swept s \<longrightarrow> tf_cancelled (ts_f s) \<and> set (tf_conns (ts_f s)) \<subseteq> set (tf_closed (ts_f s)))"

interpretation tcp: inv_system tcp_init tcp_step tcp_inv
proof (unfold_locales, goal_cases)
  case (1 s)
  then show ?case by (simp add: tcp_init_def tcp_inv_def)
next
  case (2 s t)
  from 2(1) have cov: "{..<ts_conns s} \<subseteq> set (ts_fresh s) \<union> set (tf_conns (ts_f s)) \<union> set (tf_closed (ts_f s))"
    and sw: "ts_swept s \<longrightarrow> tf_cancelled (ts_f s) \<and> set (tf_conns (ts_f s)) \<subseteq> set (tf_closed (ts_f s))"
    by (simp_all add: tcp_inv_def)
  from 2(2) show ?case
  proof cases
    case tcp_accept
    with cov sw show ?thesis by (auto simp: tcp_inv_def lessThan_Suc)
  next
    case (tcp_track c)
    have "set (ts_fresh s) \<subseteq> insert c (set (remove1 c (ts_fresh s)))" by (rule set_remove1_cover)
    with cov have "{..<ts_conns s} \<subseteq> set (remove1 c (ts_fresh s)) \<union>
        (insert c (set (tf_conns (ts_f s)) \<union> set (tf_closed (ts_f s))))" by blast
    then show ?thesis using sw by (auto simp: tcp_inv_def tcp_track(1) track_def)
  next
    case (tcp_end c)
    with cov sw show ?thesis by (auto simp: tcp_inv_def)
  next
    case (tcp_untrack c)
    with cov sw show ?thesis by (auto simp: tcp_inv_def untrack_def)
  next
    case tcp_cancel
    with cov sw show ?thesis by (simp add: tcp_inv_def tcpCancel_def)
  next
    case tcp_sweep
    with cov sw show ?thesis by (auto simp: tcp_inv_def tcpSweep_def)
  qed
qed

text \<open>
  A closed TCP forward: once \<^verbatim>\<open>Close\<close> has swept the table, every connection it tracked is closed,
  and one that was accepted or dialed in the meantime is closed when it is tracked.
\<close>

lemma tcp_forward_no_leak:
  assumes "reach tcp_init tcp_step s" "ts_swept s"
  shows "{..<ts_conns s} \<subseteq> set (ts_fresh s) \<union> set (tf_closed (ts_f s))"
    and "\<not> fst (track c (ts_f s)) \<and> c \<in> set (tf_closed (snd (track c (ts_f s))))"
  using tcp.reach_inv [OF assms(1)] assms(2) by (auto simp: tcp_inv_def track_def)

end
