(* ===== verification/Ports.thy ===== *)
theory Ports
  imports Tunnel
begin

text \<open>
  The data model and the port arithmetic of \<^verbatim>\<open>internal/intercept\<close> (\<^verbatim>\<open>model.go\<close>,
  \<^verbatim>\<open>ports.go\<close>, the address functions of \<^verbatim>\<open>mirror.go\<close>): how a request for a Service is
  turned into Gateway listen ports, and the names under which they are registered.

  A Go \<^verbatim>\<open>int32\<close> is a 32-bit word read with \<^const>\<open>sint\<close>, so the conversions
  \<^verbatim>\<open>int32(uint32)\<close> and \<^verbatim>\<open>uint16(int32)\<close> are the identity and \<^const>\<open>ucast\<close>; a Go \<^verbatim>\<open>int\<close>
  is an integer. The allocator \<^verbatim>\<open>func() int32\<close> passed to the builders is the counter
  \<^verbatim>\<open>nextPort\<close> threaded through them.
\<close>

section \<open>Data\<close>

type_synonym i32 = "32 word"

abbreviation ProtocolTCP :: string where "ProtocolTCP \<equiv> ''TCP''"
abbreviation ProtocolUDP :: string where "ProtocolUDP \<equiv> ''UDP''"
abbreviation ModeExchange :: string where "ModeExchange \<equiv> ''exchange''"
abbreviation ModeMirror :: string where "ModeMirror \<equiv> ''mirror''"

record ServicePort =
  sp_Name :: string
  sp_Protocol :: string
  sp_Port :: i32

record Service =
  svc_Namespace :: string
  svc_Name :: string
  svc_ClusterIP :: string
  svc_Selector :: "(string, string) kv"
  svc_Ports :: "ServicePort list"

record BackendPort =
  bp_Name :: string
  bp_Protocol :: string
  bp_Port :: i32

record Backend =
  be_Address :: string
  be_Ports :: "BackendPort list"

record InterceptPort =
  ip_Name :: string
  ip_Protocol :: string
  ip_ServicePort :: i32
  ip_ListenPort :: i32

record PortMapping =
  pm_ServicePort :: i32
  pm_Protocol :: string
  pm_LocalHost :: string
  pm_LocalPort :: int

record Mapping =
  mp_Namespace :: string
  mp_Service :: string
  mp_Ports :: "PortMapping list"
  mp_Mode :: string

record PreviewRequest =
  pr_Namespace :: string
  pr_Name :: string
  pr_Ports :: "PortMapping list"

record Info =
  inf_ID :: string
  inf_Namespace :: string
  inf_Service :: string
  inf_ClusterIP :: string
  inf_Preview :: bool
  inf_Mode :: string
  inf_Ports :: "InterceptPort list"
  inf_Locals :: "PortMapping list"

section \<open>Protocols and names\<close>

definition normalizeProtocol :: "string \<Rightarrow> string" where
  "normalizeProtocol v = (if v = ''udp'' \<or> v = ''UDP'' \<or> v = ''Udp'' then ''UDP'' else ''TCP'')"

definition equalProtocol :: "string \<Rightarrow> string \<Rightarrow> bool" where
  "equalProtocol a b =
     (let a = (if a = [] then ''TCP'' else a); b = (if b = [] then ''TCP'' else b)
      in normalizeProtocol a = normalizeProtocol b)"

definition protocolToNetwork :: "string \<Rightarrow> byte" where
  "protocolToNetwork p = (if normalizeProtocol p = ProtocolUDP then NetworkUDP else NetworkTCP)"

definition networkName :: "byte \<Rightarrow> string" where
  "networkName n = (if n = NetworkUDP then ''udp'' else ''tcp'')"

text \<open>\<^verbatim>\<open>fmt.Sprintf("%s:%s:%d", interceptID, networkName(network), port.ServicePort)\<close>.\<close>

definition subID :: "string \<Rightarrow> byte \<Rightarrow> i32 \<Rightarrow> string" where
  "subID interceptID network port =
     interceptID @ '':'' @ networkName network @ '':'' @ itoa_int (sint port)"

abbreviation port_subID :: "string \<Rightarrow> InterceptPort \<Rightarrow> string" where
  "port_subID interceptID p \<equiv> subID interceptID (protocolToNetwork (ip_Protocol p)) (ip_ServicePort p)"

text \<open>\<^verbatim>\<open>allocateListenPort\<close>: \<^verbatim>\<open>int32(atomic.AddUint32(&m.nextPort, 1))\<close>.\<close>

definition allocateListenPort :: "u32 \<Rightarrow> i32 \<times> u32" where
  "allocateListenPort nextPort = (nextPort + 1, nextPort + 1)"

section \<open>Building ports\<close>

text \<open>The loop of \<^verbatim>\<open>normalizePreviewPorts\<close>, with the keys seen so far.\<close>

fun normalizeLoop :: "string list \<Rightarrow> PortMapping list \<Rightarrow> PortMapping list res" where
  "normalizeLoop seen [] = Inr []"
| "normalizeLoop seen (port # ports) =
     (if sint (pm_ServicePort port) \<le> 0 \<or> sint (pm_ServicePort port) > 65535
      then Inl (Errorf (''invalid service port '' @ itoa_int (sint (pm_ServicePort port))))
      else if pm_LocalPort port \<le> 0 \<or> pm_LocalPort port > 65535
      then Inl (Errorf (''invalid local port '' @ itoa_int (pm_LocalPort port)))
      else
        (let port = (if pm_LocalHost port = [] then port\<lparr>pm_LocalHost := ''127.0.0.1''\<rparr> else port);
             port = (if pm_Protocol port = [] then port\<lparr>pm_Protocol := ''TCP''\<rparr> else port);
             key = normalizeProtocol (pm_Protocol port) @ '':'' @ itoa_int (sint (pm_ServicePort port))
         in if key \<in> set seen then Inl (Errorf (''duplicate service port '' @ key))
            else bindE (normalizeLoop (key # seen) ports) (\<lambda>locals. Inr (port # locals))))"

definition normalizePreviewPorts :: "PortMapping list \<Rightarrow> PortMapping list res" where
  "normalizePreviewPorts ports =
     (if ports = [] then Inl (Errorf ''at least one port mapping is required'')
      else normalizeLoop [] ports)"

fun buildPreviewPorts :: "PortMapping list \<Rightarrow> u32 \<Rightarrow> InterceptPort list \<times> u32" where
  "buildPreviewPorts [] np = ([], np)"
| "buildPreviewPorts (local # locals) np =
     (let protocol = (if normalizeProtocol (pm_Protocol local) = ''UDP'' then ProtocolUDP else ProtocolTCP);
          name = to_lower protocol @ ''-'' @ itoa_int (sint (pm_ServicePort local));
          (listen, np) = allocateListenPort np;
          (ports, np) = buildPreviewPorts locals np
      in (\<lparr>ip_Name = name, ip_Protocol = protocol, ip_ServicePort = pm_ServicePort local,
           ip_ListenPort = listen\<rparr> # ports, np))"

definition sp_protocol :: "ServicePort \<Rightarrow> string" where
  "sp_protocol p = (if sp_Protocol p = [] then ProtocolTCP else sp_Protocol p)"

definition sp_matches :: "PortMapping \<Rightarrow> ServicePort \<Rightarrow> bool" where
  "sp_matches local p \<longleftrightarrow>
     sp_Port p = pm_ServicePort local \<and> equalProtocol (pm_Protocol local) (sp_protocol p)"

text \<open>The loops of \<^verbatim>\<open>buildPortsForLocals\<close>; the inner one stops at the first match.\<close>

fun buildPortsLoop :: "Service \<Rightarrow> PortMapping list \<Rightarrow> u32 \<Rightarrow> InterceptPort list res \<times> u32" where
  "buildPortsLoop service [] np = (Inr [], np)"
| "buildPortsLoop service (local # locals) np =
     (case find (sp_matches local) (svc_Ports service) of
        None \<Rightarrow> (Inl (Errorf (''service port '' @ itoa_int (sint (pm_ServicePort local)) @ ''/''
                  @ pm_Protocol local @ '' not found on '' @ svc_Namespace service @ ''/''
                  @ svc_Name service)), np)
      | Some p \<Rightarrow>
          (let name = (if sp_Name p = []
                 then networkName (protocolToNetwork (sp_protocol p)) @ ''-'' @ itoa_int (sint (sp_Port p))
                 else sp_Name p);
               (listen, np) = allocateListenPort np;
               port = \<lparr>ip_Name = name, ip_Protocol = sp_protocol p, ip_ServicePort = sp_Port p,
                       ip_ListenPort = listen\<rparr>
           in case buildPortsLoop service locals np of
                (Inl e, np) \<Rightarrow> (Inl e, np)
              | (Inr ports, np) \<Rightarrow> (Inr (port # ports), np)))"

definition buildPortsForLocals ::
  "Service \<Rightarrow> PortMapping list \<Rightarrow> u32 \<Rightarrow> InterceptPort list res \<times> u32" where
  "buildPortsForLocals service locals np =
     (case buildPortsLoop service locals np of
        (Inr [], np) \<Rightarrow> (Inl (Errorf ''no ports to intercept''), np)
      | r \<Rightarrow> r)"

definition default_local :: "ServicePort \<Rightarrow> PortMapping" where
  "default_local p =
     \<lparr>pm_ServicePort = sp_Port p, pm_Protocol = (if sp_Protocol p = [] then ''TCP'' else sp_Protocol p),
      pm_LocalHost = ''127.0.0.1'', pm_LocalPort = sint (sp_Port p)\<rparr>"

definition fill_local :: "PortMapping \<Rightarrow> PortMapping" where
  "fill_local p =
     \<lparr>pm_ServicePort = pm_ServicePort p,
      pm_Protocol = (if pm_Protocol p = [] then ''TCP'' else pm_Protocol p),
      pm_LocalHost = (if pm_LocalHost p = [] then ''127.0.0.1'' else pm_LocalHost p),
      pm_LocalPort = (if pm_LocalPort p = 0 then sint (pm_ServicePort p) else pm_LocalPort p)\<rparr>"

definition resolveLocals :: "Mapping \<Rightarrow> Service \<Rightarrow> PortMapping list res" where
  "resolveLocals m service =
     (if mp_Ports m = [] then
        (let locals = map default_local (svc_Ports service)
         in if locals = [] then Inl (Errorf ''service has no ports'') else Inr locals)
      else Inr (map fill_local (mp_Ports m)))"

definition localFor :: "InterceptPort \<Rightarrow> PortMapping list \<Rightarrow> PortMapping" where
  "localFor port locals =
     (case find (\<lambda>local. pm_ServicePort local = ip_ServicePort port \<and>
                    equalProtocol (pm_Protocol local) (ip_Protocol port)) locals of
        Some local \<Rightarrow> local
      | None \<Rightarrow> \<lparr>pm_ServicePort = ip_ServicePort port, pm_Protocol = ip_Protocol port,
                 pm_LocalHost = ''127.0.0.1'', pm_LocalPort = sint (ip_ServicePort port)\<rparr>)"

section \<open>Mirror backends\<close>

definition bp_protocol :: "BackendPort \<Rightarrow> string" where
  "bp_protocol p = (if bp_Protocol p = [] then ProtocolTCP else bp_Protocol p)"

definition matchBackendPort :: "BackendPort list \<Rightarrow> InterceptPort \<Rightarrow> string \<Rightarrow> i32 option" where
  "matchBackendPort ports want protocol =
     (case find (\<lambda>port. bp_protocol port = protocol \<and>
                    (ip_Name want \<noteq> [] \<and> bp_Name port = ip_Name want \<or> bp_Port port = ip_ServicePort want)) ports of
        Some port \<Rightarrow> Some (bp_Port port)
      | None \<Rightarrow>
          (case ports of
             [port] \<Rightarrow> if bp_protocol port = protocol then Some (bp_Port port) else None
           | _ \<Rightarrow> None))"

fun primaryLoop :: "Backend list \<Rightarrow> InterceptPort \<Rightarrow> string \<Rightarrow> string option" where
  "primaryLoop [] port protocol = None"
| "primaryLoop (backend # backends) port protocol =
     (case matchBackendPort (be_Ports backend) port protocol of
        Some portNum \<Rightarrow>
          if be_Address backend \<noteq> []
          then Some (join_host_port (be_Address backend) (itoa_int (sint portNum)))
          else primaryLoop backends port protocol
      | None \<Rightarrow> primaryLoop backends port protocol)"

definition primaryAddress :: "Backend list \<Rightarrow> InterceptPort \<Rightarrow> string res" where
  "primaryAddress backends port =
     (case primaryLoop backends port (if ip_Protocol port = [] then ProtocolTCP else ip_Protocol port) of
        Some a \<Rightarrow> Inr a
      | None \<Rightarrow> Inl (Errorf (''no ready backend for service port '' @ ip_Name port @ ''/''
                   @ itoa_int (sint (ip_ServicePort port)))))"

fun primaryAddrsLoop ::
  "Backend list \<Rightarrow> InterceptPort list \<Rightarrow> (string, PortMapping) kv \<Rightarrow> string \<Rightarrow> (string, string) kv \<Rightarrow>
   (string, string) kv res"
where
  "primaryAddrsLoop backends [] portKeys interceptID out = Inr out"
| "primaryAddrsLoop backends (port # ports) portKeys interceptID out =
     (let sub = port_subID interceptID port in
      if kv_get portKeys sub = None then primaryAddrsLoop backends ports portKeys interceptID out
      else bindE (primaryAddress backends port)
             (\<lambda>addr. primaryAddrsLoop backends ports portKeys interceptID (kv_put sub addr out)))"

definition buildPrimaryAddrs ::
  "Backend list \<Rightarrow> InterceptPort list \<Rightarrow> (string, PortMapping) kv \<Rightarrow> string \<Rightarrow> (string, string) kv res"
where
  "buildPrimaryAddrs backends ports portKeys interceptID =
     (if backends = [] then Inl (Errorf ''service has no endpoints to mirror'')
      else bindE (primaryAddrsLoop backends ports portKeys interceptID [])
        (\<lambda>out. if out = [] then Inl (Errorf ''no mirror backends resolved'') else Inr out))"

section \<open>Names of registrations\<close>

lemma itoa_int_inject [simp]: "itoa_int a = itoa_int b \<longleftrightarrow> a = b"
proof -
  have "CHR ''-'' \<notin> set (itoa n)" for n by (rule itoa_no_char) (simp add: is_digit_def)
  then have "CHR ''-'' # s \<noteq> itoa n" for s n by (metis list.set_intros(1))
  then show ?thesis by (auto simp: itoa_int_def dest: sym)
qed

lemma itoa_int_no_colon: "CHR '':'' \<notin> set (itoa_int i)"
  using itoa_no_char [of "CHR '':''"] by (simp add: itoa_int_def is_digit_def)

lemma sint_inject: "sint (a :: i32) = sint b \<longleftrightarrow> a = b"
  by (rule word_eq_iff_signed [symmetric])

lemma networkName_no_colon: "CHR '':'' \<notin> set (networkName n)"
  by (simp add: networkName_def)

lemma protocolToNetwork_cases: "protocolToNetwork p = NetworkTCP \<or> protocolToNetwork p = NetworkUDP"
  by (simp add: protocolToNetwork_def)

lemma subID_inject:
  "subID i (protocolToNetwork p) n = subID i' (protocolToNetwork p') n' \<longleftrightarrow>
   i = i' \<and> protocolToNetwork p = protocolToNetwork p' \<and> n = n'"
proof
  assume eq: "subID i (protocolToNetwork p) n = subID i' (protocolToNetwork p') n'"
  then have "(i @ CHR '':'' # networkName (protocolToNetwork p)) @ CHR '':'' # itoa_int (sint n) =
     (i' @ CHR '':'' # networkName (protocolToNetwork p')) @ CHR '':'' # itoa_int (sint n')"
    by (simp add: subID_def)
  from iffD1 [OF append_sep_inject [OF itoa_int_no_colon itoa_int_no_colon] this]
  have "i @ CHR '':'' # networkName (protocolToNetwork p) = i' @ CHR '':'' # networkName (protocolToNetwork p')"
    and "sint n = sint n'" by simp_all
  moreover from iffD1 [OF append_sep_inject [OF networkName_no_colon networkName_no_colon] this(1)]
  have "i = i'" "networkName (protocolToNetwork p) = networkName (protocolToNetwork p')" by simp_all
  ultimately show "i = i' \<and> protocolToNetwork p = protocolToNetwork p' \<and> n = n'"
    by (auto simp: networkName_def protocolToNetwork_def sint_inject split: if_splits)
qed simp

lemma equalProtocol_network:
  "equalProtocol a b \<longleftrightarrow> protocolToNetwork a = protocolToNetwork b"
  by (auto simp: equalProtocol_def protocolToNetwork_def normalizeProtocol_def)

section \<open>Preview ports\<close>

definition preview_default :: "PortMapping \<Rightarrow> PortMapping" where
  "preview_default p =
     (let p = (if pm_LocalHost p = [] then p\<lparr>pm_LocalHost := ''127.0.0.1''\<rparr> else p)
      in if pm_Protocol p = [] then p\<lparr>pm_Protocol := ''TCP''\<rparr> else p)"

definition port_range :: "PortMapping \<Rightarrow> bool" where
  "port_range p \<longleftrightarrow> 0 < sint (pm_ServicePort p) \<and> sint (pm_ServicePort p) \<le> 65535 \<and>
     0 < pm_LocalPort p \<and> pm_LocalPort p \<le> 65535"

definition pm_id :: "PortMapping \<Rightarrow> byte \<times> i32" where
  "pm_id p = (protocolToNetwork (pm_Protocol p), pm_ServicePort p)"

definition ip_id :: "InterceptPort \<Rightarrow> byte \<times> i32" where
  "ip_id p = (protocolToNetwork (ip_Protocol p), ip_ServicePort p)"

definition port_key :: "PortMapping \<Rightarrow> string" where
  "port_key p = normalizeProtocol (pm_Protocol p) @ '':'' @ itoa_int (sint (pm_ServicePort p))"

lemma port_key_inject: "port_key p = port_key q \<longleftrightarrow> pm_id p = pm_id q"
proof -
  have "CHR '':'' \<notin> set (normalizeProtocol a)" for a by (simp add: normalizeProtocol_def)
  then have "port_key p = port_key q \<longleftrightarrow>
      normalizeProtocol (pm_Protocol p) = normalizeProtocol (pm_Protocol q) \<and> pm_ServicePort p = pm_ServicePort q"
    using append_sep_inject [OF itoa_int_no_colon [of "sint (pm_ServicePort p)"] itoa_int_no_colon
        [of "sint (pm_ServicePort q)"]] by (simp add: port_key_def sint_inject)
  then show ?thesis by (auto simp: pm_id_def protocolToNetwork_def normalizeProtocol_def)
qed

lemma preview_default_sel [simp]:
  "pm_ServicePort (preview_default p) = pm_ServicePort p" "pm_LocalPort (preview_default p) = pm_LocalPort p"
  "port_key (preview_default p) = port_key p"
  "pm_id (preview_default p) = pm_id p"
  by (simp_all add: pm_id_def preview_default_def Let_def port_key_def normalizeProtocol_def protocolToNetwork_def)

lemma normalizeLoop_step:
  "normalizeLoop seen (p # ps) =
     (if \<not> (0 < sint (pm_ServicePort p) \<and> sint (pm_ServicePort p) \<le> 65535)
      then Inl (Errorf (''invalid service port '' @ itoa_int (sint (pm_ServicePort p))))
      else if \<not> (0 < pm_LocalPort p \<and> pm_LocalPort p \<le> 65535)
      then Inl (Errorf (''invalid local port '' @ itoa_int (pm_LocalPort p)))
      else if port_key p \<in> set seen then Inl (Errorf (''duplicate service port '' @ port_key p))
      else bindE (normalizeLoop (port_key p # seen) ps) (\<lambda>locals. Inr (preview_default p # locals)))"
  by (auto simp: Let_def port_key_def preview_default_def normalizeProtocol_def)

declare normalizeLoop.simps(2) [simp del]

lemma normalizeLoop_Inr:
  "normalizeLoop seen ps = Inr ls \<longleftrightarrow>
     ls = map preview_default ps \<and> list_all port_range ps \<and>
     distinct (map pm_id ps) \<and> (\<forall>p \<in> set ps. port_key p \<notin> set seen)"
proof (induction ps arbitrary: seen ls)
  case (Cons p ps)
  have *: "(\<forall>q \<in> set ps. port_key q \<notin> set (port_key p # seen)) \<longleftrightarrow>
      pm_id p \<notin> set (map pm_id ps) \<and> (\<forall>q \<in> set ps. port_key q \<notin> set seen)"
    by (auto simp: port_key_inject image_iff)
  show ?case
    using * by (auto simp: normalizeLoop_step Cons.IH bindE_Inr_iff port_range_def)
qed auto

lemma listen_ports_Cons:
  "map (\<lambda>k. np + word_of_nat (Suc k)) [0..<Suc n] =
   ((np :: u32) + 1) # map (\<lambda>k. np + 1 + word_of_nat (Suc k)) [0..<n]"
  by (simp add: upt_conv_Cons map_Suc_upt [symmetric] comp_def del: upt_Suc)

lemma buildPreviewPorts_shape:
  "buildPreviewPorts ls np = (ports, np') \<Longrightarrow>
   map ip_id ports = map pm_id ls \<and>
   map ip_ListenPort ports = map (\<lambda>k. np + word_of_nat (Suc k)) [0..<length ls] \<and>
   np' = np + word_of_nat (length ls)"
proof (induction ls arbitrary: np ports)
  case (Cons l ls)
  from Cons.prems obtain ports1 where p1: "buildPreviewPorts ls (np + 1) = (ports1, np')"
    and ports: "ports = \<lparr>ip_Name = to_lower (if normalizeProtocol (pm_Protocol l) = ''UDP'' then ProtocolUDP else ProtocolTCP)
         @ ''-'' @ itoa_int (sint (pm_ServicePort l)),
       ip_Protocol = (if normalizeProtocol (pm_Protocol l) = ''UDP'' then ProtocolUDP else ProtocolTCP),
       ip_ServicePort = pm_ServicePort l, ip_ListenPort = np + 1\<rparr> # ports1"
    by (auto simp: Let_def allocateListenPort_def split: prod.splits)
  with Cons.IH [OF p1] listen_ports_Cons [of np "length ls"] show ?case
    by (simp add: ports pm_id_def ip_id_def protocolToNetwork_def normalizeProtocol_def del: upt_Suc)
qed simp

lemma find_unique:
  "distinct (map f xs) \<Longrightarrow> x \<in> set xs \<Longrightarrow> (\<And>y. P y \<longleftrightarrow> f y = f x) \<Longrightarrow> find P xs = Some x"
  by (induction xs) auto

lemma localFor_own:
  assumes "distinct (map pm_id ls)" "map ip_id ports = map pm_id ls"
  shows "map (\<lambda>p. localFor p ls) ports = ls"
proof (rule nth_equalityI)
  show len: "length (map (\<lambda>p. localFor p ls) ports) = length ls" using arg_cong [OF assms(2), of length] by simp
  fix i assume i: "i < length (map (\<lambda>p. localFor p ls) ports)"
  with len arg_cong [OF assms(2), of "\<lambda>xs. xs ! i"] have "ip_id (ports ! i) = pm_id (ls ! i)" by simp
  then have "find (\<lambda>local. pm_ServicePort local = ip_ServicePort (ports ! i) \<and>
      equalProtocol (pm_Protocol local) (ip_Protocol (ports ! i))) ls = Some (ls ! i)"
    using i len by (intro find_unique [OF assms(1)]) (auto simp: equalProtocol_network pm_id_def ip_id_def)
  with i show "map (\<lambda>p. localFor p ls) ports ! i = ls ! i" by (simp add: localFor_def)
qed

lemma distinct_subIDs:
  "distinct (map ip_id ports) \<Longrightarrow> distinct (map (port_subID i) ports)"
  by (induction ports) (auto simp: subID_inject ip_id_def)

text \<open>
  \<^verbatim>\<open>normalizePreviewPorts\<close> accepts exactly the lists of port mappings that are not
  empty, whose ports are all between 1 and 65535 and that map no port of a protocol twice;
  it fills in the missing hosts and protocols and keeps the order.
\<close>

theorem normalizePreviewPorts_iff:
  "normalizePreviewPorts ps = Inr ls \<longleftrightarrow>
     ps \<noteq> [] \<and> ls = map preview_default ps \<and> list_all port_range ps \<and> distinct (map pm_id ps)"
  by (auto simp: normalizePreviewPorts_def normalizeLoop_Inr)

text \<open>
  The Gateway ports of a preview are one for each mapping and in their order: no two
  are registered under the same name, each leads back to the very mapping it was made for,
  and the listen ports are the next ones of the counter.
\<close>

theorem preview_ports_correct:
  assumes "normalizePreviewPorts ps = Inr ls" and "buildPreviewPorts ls np = (ports, np')"
  shows "distinct (map (port_subID i) ports) \<and> map (\<lambda>p. localFor p ls) ports = ls \<and>
    map ip_ListenPort ports = map (\<lambda>k. np + word_of_nat (Suc k)) [0..<length ps]"
proof -
  from assms(1) have ls: "ls = map preview_default ps" "distinct (map pm_id ps)"
    by (auto simp: normalizePreviewPorts_def normalizeLoop_Inr split: if_splits)
  have "map pm_id ls = map pm_id ps" by (simp add: ls(1) comp_def)
  with ls(2) have d: "distinct (map pm_id ls)" by simp
  note shape = buildPreviewPorts_shape [OF assms(2)]
  from shape d have "distinct (map ip_id ports)" by simp
  with localFor_own [OF d] shape distinct_subIDs show ?thesis by (simp add: ls(1))
qed

section \<open>Service ports\<close>

definition sp_id :: "ServicePort \<Rightarrow> byte \<times> i32" where
  "sp_id p = (protocolToNetwork (sp_protocol p), sp_Port p)"

lemma sp_matches_id: "sp_matches l p \<longleftrightarrow> sp_id p = pm_id l"
  by (auto simp: sp_matches_def sp_id_def pm_id_def equalProtocol_network)

lemma buildPortsLoop_Inr:
  "buildPortsLoop svc ls np = (Inr ports, np') \<Longrightarrow>
   map ip_id ports = map pm_id ls \<and> pm_id ` set ls \<subseteq> sp_id ` set (svc_Ports svc) \<and>
   map ip_ListenPort ports = map (\<lambda>k. np + word_of_nat (Suc k)) [0..<length ls]"
proof (induction ls arbitrary: np ports)
  case (Cons l ls)
  from Cons.prems obtain p ports1 port where p: "find (sp_matches l) (svc_Ports svc) = Some p"
    and p1: "buildPortsLoop svc ls (np + 1) = (Inr ports1, np')" and ports: "ports = port # ports1"
    and port: "ip_Protocol port = sp_protocol p" "ip_ServicePort port = sp_Port p" "ip_ListenPort port = np + 1"
    by (auto simp: Let_def allocateListenPort_def split: prod.splits option.splits sum.splits)
  from p have "p \<in> set (svc_Ports svc)" "sp_id p = pm_id l"
    by (auto simp: find_Some_iff sp_matches_id)
  moreover from this port have "ip_id port = pm_id l" by (simp add: ip_id_def sp_id_def)
  ultimately have "pm_id ` set (l # ls) \<subseteq> sp_id ` set (svc_Ports svc)"
    "map ip_id ports = map pm_id (l # ls)"
    using Cons.IH [OF p1] by (auto simp: ports intro: rev_image_eqI)
  then show ?case using Cons.IH [OF p1] listen_ports_Cons [of np "length ls"]
    by (simp add: ports port(3) del: upt_Suc)
qed simp

lemma buildPortsLoop_total:
  "pm_id ` set ls \<subseteq> sp_id ` set (svc_Ports svc) \<Longrightarrow> \<exists>ports np'. buildPortsLoop svc ls np = (Inr ports, np')"
proof (induction ls arbitrary: np)
  case (Cons l ls)
  then obtain p0 where "p0 \<in> set (svc_Ports svc)" "sp_id p0 = pm_id l" by auto
  then have "find (sp_matches l) (svc_Ports svc) \<noteq> None" by (auto simp: find_None_iff sp_matches_id)
  then obtain p where "find (sp_matches l) (svc_Ports svc) = Some p" by blast
  moreover obtain ports np' where "buildPortsLoop svc ls (np + 1) = (Inr ports, np')"
    using Cons by fastforce
  ultimately show ?case by (simp add: Let_def allocateListenPort_def)
qed simp

lemma buildPortsForLocals_Inr:
  "buildPortsForLocals svc ls np = (Inr ports, np') \<longleftrightarrow> buildPortsLoop svc ls np = (Inr ports, np') \<and> ports \<noteq> []"
  by (auto simp: buildPortsForLocals_def split: prod.splits sum.splits list.splits)

lemma buildPorts_ids:
  "buildPortsForLocals svc ls np = (Inr ports, np') \<Longrightarrow> map ip_id ports = map pm_id ls"
  unfolding buildPortsForLocals_Inr using buildPortsLoop_Inr by blast

text \<open>
  \<^verbatim>\<open>buildPortsForLocals\<close> succeeds exactly when at least one mapping is asked for and
  every one names a port of the Service with the same protocol; the result is then one
  Gateway port for each mapping, in order, on the next listen ports of the counter.
\<close>

theorem service_ports_correct:
  "(case buildPortsForLocals svc ls np of
      (Inr ports, np') \<Rightarrow> ls \<noteq> [] \<and> pm_id ` set ls \<subseteq> sp_id ` set (svc_Ports svc) \<and>
         map ip_id ports = map pm_id ls \<and>
         map ip_ListenPort ports = map (\<lambda>k. np + word_of_nat (Suc k)) [0..<length ls]
    | (Inl e, np') \<Rightarrow> \<not> (ls \<noteq> [] \<and> pm_id ` set ls \<subseteq> sp_id ` set (svc_Ports svc)))"
proof (cases "buildPortsForLocals svc ls np")
  case (Pair r np')
  show ?thesis
  proof (cases r)
    case (Inr ports)
    with Pair have b: "buildPortsLoop svc ls np = (Inr ports, np')" "ports \<noteq> []"
      by (simp_all add: buildPortsForLocals_Inr)
    from buildPortsLoop_Inr [OF b(1)] b(2) Pair Inr show ?thesis by auto
  next
    case (Inl e)
    have False if "ls \<noteq> []" "pm_id ` set ls \<subseteq> sp_id ` set (svc_Ports svc)"
    proof -
      from buildPortsLoop_total [OF that(2), of np] obtain ports np'
        where b: "buildPortsLoop svc ls np = (Inr ports, np')" by blast
      from buildPortsLoop_Inr [OF b] that(1) have "ports \<noteq> []" by auto
      with b have "buildPortsForLocals svc ls np = (Inr ports, np')" by (simp add: buildPortsForLocals_Inr)
      with Pair Inl show False by simp
    qed
    with Pair Inl show ?thesis by auto
  qed
qed

text \<open>
  A mapping that names no ports takes over the whole Service: every port of a Service
  whose ports are distinct (as the API server demands) gets a Gateway port of its own name,
  which is served by the same port number on the local host.
\<close>

theorem default_mapping_covers_service:
  assumes "mp_Ports m = []" and "svc_Ports svc \<noteq> []" and "distinct (map sp_id (svc_Ports svc))"
  shows "\<exists>ls ports np'. resolveLocals m svc = Inr ls \<and> buildPortsForLocals svc ls np = (Inr ports, np') \<and>
    map ip_id ports = map sp_id (svc_Ports svc) \<and> distinct (map (port_subID i) ports) \<and>
    map (\<lambda>p. localFor p ls) ports = map default_local (svc_Ports svc)"
proof -
  let ?ls = "map default_local (svc_Ports svc)"
  have id: "pm_id (default_local p) = sp_id p" for p
    by (simp add: default_local_def pm_id_def sp_id_def sp_protocol_def)
  then have ids: "map pm_id ?ls = map sp_id (svc_Ports svc)" by simp
  then have "pm_id ` set ?ls \<subseteq> sp_id ` set (svc_Ports svc)" by (auto simp: id)
  from buildPortsLoop_total [OF this, of np] obtain ports np'
    where b: "buildPortsLoop svc ?ls np = (Inr ports, np')" by blast
  note shape = buildPortsLoop_Inr [OF b]
  then have pid: "map ip_id ports = map sp_id (svc_Ports svc)" using ids by simp
  with assms(2) have "ports \<noteq> []" by auto
  with b have "buildPortsForLocals svc ?ls np = (Inr ports, np')" by (simp add: buildPortsForLocals_Inr)
  moreover have "resolveLocals m svc = Inr ?ls" using assms(1,2) by (simp add: resolveLocals_def)
  moreover have "map (\<lambda>p. localFor p ?ls) ports = ?ls"
    by (intro localFor_own) (simp_all only: pid ids assms(3))
  moreover have "distinct (map (port_subID i) ports)" using assms(3) by (intro distinct_subIDs) (simp add: pid)
  ultimately show ?thesis using pid by blast
qed

section \<open>Mirror backends, properties\<close>

lemma matchBackendPort_Some:
  "matchBackendPort ps want protocol = Some n \<Longrightarrow>
   \<exists>p \<in> set ps. bp_Port p = n \<and> bp_protocol p = protocol"
  by (auto simp: matchBackendPort_def find_Some_iff split: option.splits list.splits if_splits)

lemma primaryLoop_Some:
  "primaryLoop bs port protocol = Some a \<Longrightarrow>
   \<exists>b \<in> set bs. \<exists>p \<in> set (be_Ports b). bp_protocol p = protocol \<and> be_Address b \<noteq> [] \<and>
     a = join_host_port (be_Address b) (itoa_int (sint (bp_Port p)))"
  by (induction bs) (auto split: option.splits if_splits dest!: matchBackendPort_Some)

lemma primaryAddrsLoop_Inr:
  assumes "primaryAddrsLoop bs ports keys i out = Inr out'"
  shows "(\<forall>s a. kv_get out' s = Some a \<longrightarrow> kv_get out s = Some a \<or>
            (\<exists>p \<in> set ports. s = port_subID i p \<and> primaryAddress bs p = Inr a)) \<and>
         (\<forall>s. kv_get out' s \<noteq> None \<longleftrightarrow> kv_get out s \<noteq> None \<or>
            kv_get keys s \<noteq> None \<and> s \<in> port_subID i ` set ports)"
  using assms
proof (induction ports arbitrary: out)
  case (Cons p ps)
  show ?case
  proof (cases "kv_get keys (port_subID i p) = None")
    case True
    with Cons.prems Cons.IH [of out] show ?thesis by (auto simp: Let_def)
  next
    case False
    with Cons.prems obtain a where a: "primaryAddress bs p = Inr a"
      and r: "primaryAddrsLoop bs ps keys i (kv_put (port_subID i p) a out) = Inr out'"
      by (auto simp: Let_def bindE_Inr_iff)
    from Cons.IH [OF r] a False show ?thesis
      by (auto simp: kv_simps split: if_splits)
  qed
qed auto

text \<open>
  C17. A mirror sends a port's requests to a ready backend: when \<^verbatim>\<open>buildPrimaryAddrs\<close>
  succeeds, exactly the registered ports have a primary address, and each address is that
  of a backend, with a port of the protocol that was asked for.
\<close>

theorem mirror_primary_sound:
  assumes "buildPrimaryAddrs bs ports keys i = Inr out"
  shows "(kv_get out s \<noteq> None \<longleftrightarrow> kv_get keys s \<noteq> None \<and> s \<in> port_subID i ` set ports) \<and>
    (kv_get out s = Some a \<longrightarrow>
       (\<exists>p b q. p \<in> set ports \<and> s = port_subID i p \<and> b \<in> set bs \<and> q \<in> set (be_Ports b) \<and>
          bp_protocol q = (if ip_Protocol p = [] then ProtocolTCP else ip_Protocol p) \<and>
          be_Address b \<noteq> [] \<and> a = join_host_port (be_Address b) (itoa_int (sint (bp_Port q)))))"
proof -
  from assms have l: "primaryAddrsLoop bs ports keys i [] = Inr out"
    by (auto simp: buildPrimaryAddrs_def bindE_Inr_iff split: if_splits)
  have "kv_get out s \<noteq> None \<longleftrightarrow> kv_get keys s \<noteq> None \<and> s \<in> port_subID i ` set ports"
    using primaryAddrsLoop_Inr [OF l] by (simp only: kv_get_Nil simp_thms)
  moreover have "\<exists>p b q. p \<in> set ports \<and> s = port_subID i p \<and> b \<in> set bs \<and> q \<in> set (be_Ports b) \<and>
          bp_protocol q = (if ip_Protocol p = [] then ProtocolTCP else ip_Protocol p) \<and>
          be_Address b \<noteq> [] \<and> a = join_host_port (be_Address b) (itoa_int (sint (bp_Port q)))"
    if "kv_get out s = Some a"
  proof -
    from primaryAddrsLoop_Inr [OF l] that obtain p where p: "p \<in> set ports" "s = port_subID i p"
      "primaryAddress bs p = Inr a" by (auto simp: kv_get_Nil)
    then have "primaryLoop bs p (if ip_Protocol p = [] then ProtocolTCP else ip_Protocol p) = Some a"
      by (auto simp: primaryAddress_def split: option.splits)
    from primaryLoop_Some [OF this] p show ?thesis by blast
  qed
  ultimately show ?thesis by blast
qed

section \<open>Witnesses\<close>

definition ex_locals :: "PortMapping list" where
  "ex_locals = [\<lparr>pm_ServicePort = 80, pm_Protocol = [], pm_LocalHost = [], pm_LocalPort = 3000\<rparr>,
     \<lparr>pm_ServicePort = 53, pm_Protocol = ''udp'', pm_LocalHost = ''localhost'', pm_LocalPort = 5353\<rparr>]"

definition ex_service :: Service where
  "ex_service = \<lparr>svc_Namespace = ''shop'', svc_Name = ''api'', svc_ClusterIP = ''10.96.0.7'', svc_Selector = [],
     svc_Ports = [\<lparr>sp_Name = ''http'', sp_Protocol = ''TCP'', sp_Port = 80\<rparr>,
       \<lparr>sp_Name = [], sp_Protocol = ''UDP'', sp_Port = 53\<rparr>]\<rparr>"

definition ex_backends :: "Backend list" where
  "ex_backends = [\<lparr>be_Address = ''10.1.0.9'',
     be_Ports = [\<lparr>bp_Name = ''http'', bp_Protocol = ''TCP'', bp_Port = 8080\<rparr>]\<rparr>]"

definition ex_port :: InterceptPort where
  "ex_port = \<lparr>ip_Name = ''http'', ip_Protocol = ''TCP'', ip_ServicePort = 80, ip_ListenPort = 20001\<rparr>"

theorem preview_ports_correct_witness:
  "\<exists>ls ports np'. normalizePreviewPorts ex_locals = Inr ls \<and> buildPreviewPorts ls 20000 = (ports, np') \<and>
     distinct (map (port_subID ''shop/api'') ports) \<and> map (\<lambda>p. localFor p ls) ports = ls"
proof -
  have n: "normalizePreviewPorts ex_locals = Inr (map preview_default ex_locals)"
    by (simp add: normalizePreviewPorts_def normalizeLoop_Inr ex_locals_def port_range_def pm_id_def
        protocolToNetwork_def normalizeProtocol_def)
  obtain ports np' where b: "buildPreviewPorts (map preview_default ex_locals) 20000 = (ports, np')"
    by fastforce
  from preview_ports_correct [OF n b] n b show ?thesis by blast
qed

theorem default_mapping_covers_service_witness:
  "\<exists>ls ports np'.
     resolveLocals \<lparr>mp_Namespace = ''shop'', mp_Service = ''api'', mp_Ports = [], mp_Mode = []\<rparr> ex_service = Inr ls \<and>
     buildPortsForLocals ex_service ls 20000 = (Inr ports, np') \<and> length ports = 2 \<and>
     distinct (map (port_subID ''shop/api'') ports)"
proof -
  have "svc_Ports ex_service \<noteq> []" "distinct (map sp_id (svc_Ports ex_service))" "length (svc_Ports ex_service) = 2"
    by (simp_all add: ex_service_def sp_id_def)
  then obtain ls ports np' where
    "resolveLocals \<lparr>mp_Namespace = ''shop'', mp_Service = ''api'', mp_Ports = [], mp_Mode = []\<rparr> ex_service = Inr ls"
    "buildPortsForLocals ex_service ls 20000 = (Inr ports, np')"
    "map ip_id ports = map sp_id (svc_Ports ex_service)" "distinct (map (port_subID ''shop/api'') ports)"
    using default_mapping_covers_service
      [of "\<lparr>mp_Namespace = ''shop'', mp_Service = ''api'', mp_Ports = [], mp_Mode = []\<rparr>" ex_service 20000 "''shop/api''"]
    by auto
  moreover from this(3) \<open>length (svc_Ports ex_service) = 2\<close> have "length ports = 2" by (metis length_map)
  ultimately show ?thesis by blast
qed

theorem mirror_primary_sound_witness:
  "\<exists>out. buildPrimaryAddrs ex_backends [ex_port] [(port_subID ''shop/api'' ex_port, localFor ex_port [])] ''shop/api'' = Inr out \<and>
     kv_get out (port_subID ''shop/api'' ex_port) \<noteq> None"
proof -
  let ?k = "[(port_subID ''shop/api'' ex_port, localFor ex_port [])]"
  have p: "primaryAddress ex_backends ex_port = Inr (join_host_port ''10.1.0.9'' (itoa_int (sint (8080 :: i32))))"
    by (simp add: primaryAddress_def ex_backends_def ex_port_def matchBackendPort_def bp_protocol_def)
  have b: "buildPrimaryAddrs ex_backends [ex_port] ?k ''shop/api'' =
     Inr [(port_subID ''shop/api'' ex_port, join_host_port ''10.1.0.9'' (itoa_int (sint (8080 :: i32))))]"
    by (simp add: buildPrimaryAddrs_def p kv_get_def kv_put_def) (simp add: ex_backends_def)
  from mirror_primary_sound [OF b, of "port_subID ''shop/api'' ex_port" "[]"] b show ?thesis
    by (simp add: kv_get_def)
qed

end
