(* ===== verification/Registry.thy ===== *)
theory Registry
  imports Ports "HOL-Library.Multiset"
begin

text \<open>
  The indexes of the intercept manager: \<^verbatim>\<open>runtimeRegistry\<close> (\<^verbatim>\<open>registry.go\<close>) with its
  reservations, the host routes of \<^verbatim>\<open>host_routes.go\<close>, and \<^verbatim>\<open>registrationFromRuntime\<close>,
  \<^verbatim>\<open>conflictError\<close> and the lookups of \<^verbatim>\<open>manager.go\<close> and \<^verbatim>\<open>traffic.go\<close>. Every function
  here is one call under \<^verbatim>\<open>Manager.mu\<close>. Several starts and stops interleave in the
  relation \<open>reg_step\<close>, whose steps are the critical sections of the manager that touch the
  registry.
\<close>

section \<open>The registry\<close>

type_synonym hostRouteKey = "string \<times> u16"

text \<open>A lease is named by a number; so is, through it, the runtime that owns it.\<close>

type_synonym lease = nat

record runtimeIntercept =
  ri_info :: Info
  ri_lease :: lease
  ri_portKeys :: "(string, PortMapping) kv"
  ri_primaryAddrs :: "(string, string) kv option"
  ri_hostKeys :: "hostRouteKey list"
  ri_stopping :: bool

record runtimeRegistry =
  byID :: "(string, runtimeIntercept) kv"
  byKey :: "(string, string) kv"
  starting :: "(string, u64) kv"
  nextReservation :: u64

definition newRuntimeRegistry :: runtimeRegistry where
  "newRuntimeRegistry = \<lparr>byID = [], byKey = [], starting = [], nextReservation = 0\<rparr>"

definition runtimeKey :: "string \<Rightarrow> string \<Rightarrow> string" where
  "runtimeKey namespace service = namespace @ ''/'' @ service"

abbreviation ri_key :: "runtimeIntercept \<Rightarrow> string" where
  "ri_key rt \<equiv> runtimeKey (inf_Namespace (ri_info rt)) (inf_Service (ri_info rt))"

abbreviation ri_ID :: "runtimeIntercept \<Rightarrow> string" where
  "ri_ID rt \<equiv> inf_ID (ri_info rt)"

definition reg_get :: "runtimeRegistry \<Rightarrow> string \<Rightarrow> runtimeIntercept option" where
  "reg_get r ID = kv_get (byID r) ID"

text \<open>\<^verbatim>\<open>r.byID[r.byKey[key]]\<close>: a missing key reads as the empty id.\<close>

definition getByKey :: "runtimeRegistry \<Rightarrow> string \<Rightarrow> runtimeIntercept option" where
  "getByKey r key = kv_get (byID r) (case kv_get (byKey r) key of None \<Rightarrow> [] | Some ID \<Rightarrow> ID)"

definition containsKey :: "runtimeRegistry \<Rightarrow> string \<Rightarrow> bool" where
  "containsKey r key \<longleftrightarrow> kv_get (byKey r) key \<noteq> None"

definition reserve :: "runtimeRegistry \<Rightarrow> string \<Rightarrow> (u64 \<times> bool) \<times> runtimeRegistry" where
  "reserve r key =
     (if containsKey r key then ((0, False), r)
      else if kv_get (starting r) key \<noteq> None then ((0, False), r)
      else let reservation = nextReservation r + 1
           in ((reservation, True),
               r\<lparr>nextReservation := reservation, starting := kv_put key reservation (starting r)\<rparr>))"

definition reserved :: "runtimeRegistry \<Rightarrow> string \<Rightarrow> u64 \<Rightarrow> bool" where
  "reserved r key reservation \<longleftrightarrow>
     (case kv_get (starting r) key of None \<Rightarrow> 0 | Some v \<Rightarrow> v) = reservation \<and> reservation \<noteq> 0"

definition release :: "runtimeRegistry \<Rightarrow> string \<Rightarrow> u64 \<Rightarrow> runtimeRegistry" where
  "release r key reservation =
     (if reserved r key reservation then r\<lparr>starting := kv_del key (starting r)\<rparr> else r)"

definition reg_add :: "runtimeRegistry \<Rightarrow> runtimeIntercept \<Rightarrow> runtimeRegistry" where
  "reg_add r rt = r\<lparr>byID := kv_put (ri_ID rt) rt (byID r), byKey := kv_put (ri_key rt) (ri_ID rt) (byKey r)\<rparr>"

definition reg_remove :: "runtimeRegistry \<Rightarrow> string \<Rightarrow> runtimeIntercept option \<times> runtimeRegistry" where
  "reg_remove r ID =
     (case kv_get (byID r) ID of
        None \<Rightarrow> (None, r)
      | Some rt \<Rightarrow> (Some rt, r\<lparr>byID := kv_del ID (byID r), byKey := kv_del (ri_key rt) (byKey r)\<rparr>))"

text \<open>\<^verbatim>\<open>ids\<close> is sorted; \<^verbatim>\<open>values\<close> follows it.\<close>

definition ids :: "runtimeRegistry \<Rightarrow> string list" where
  "ids r = sort (kv_keys (byID r))"

definition reg_values :: "runtimeRegistry \<Rightarrow> runtimeIntercept list" where
  "reg_values r = List.map_filter (kv_get (byID r)) (ids r)"

definition listPreviews :: "runtimeRegistry \<Rightarrow> Info list" where
  "listPreviews r = filter inf_Preview (map ri_info (reg_values r))"

definition info_mode :: "Info \<Rightarrow> string" where
  "info_mode i = (if inf_Mode i = [] then ModeExchange else inf_Mode i)"

definition listByMode :: "runtimeRegistry \<Rightarrow> string \<Rightarrow> Info list" where
  "listByMode r mode = filter (\<lambda>i. \<not> inf_Preview i \<and> info_mode i = mode) (map ri_info (reg_values r))"

record controlRegistration =
  cr_id :: string
  cr_network :: byte
  cr_listenPort :: u16

fun registrationLoop :: "string \<Rightarrow> InterceptPort list \<Rightarrow> string \<Rightarrow> (byte \<times> u16) option" where
  "registrationLoop ID [] sub = None"
| "registrationLoop ID (port # ports) sub =
     (let network = (if normalizeProtocol (ip_Protocol port) = ProtocolUDP then NetworkUDP else NetworkTCP) in
      if subID ID network (ip_ServicePort port) \<noteq> sub then registrationLoop ID ports sub
      else if sint (ip_ListenPort port) \<le> 0 \<or> sint (ip_ListenPort port) > 65535 then None
      else Some (network, ucast (ip_ListenPort port)))"

definition registrationFromRuntime :: "runtimeIntercept \<Rightarrow> string \<Rightarrow> (byte \<times> u16) option" where
  "registrationFromRuntime rt sub = registrationLoop (ri_ID rt) (inf_Ports (ri_info rt)) sub"

definition runtime_registrations :: "runtimeIntercept \<Rightarrow> controlRegistration list" where
  "runtime_registrations rt =
     List.map_filter (\<lambda>sub. case registrationFromRuntime rt sub of
         None \<Rightarrow> None
       | Some (n, p) \<Rightarrow> Some \<lparr>cr_id = sub, cr_network = n, cr_listenPort = p\<rparr>)
       (kv_keys (ri_portKeys rt))"

definition registrations :: "runtimeRegistry \<Rightarrow> controlRegistration list" where
  "registrations r = sort_key cr_id (concat (map runtime_registrations (reg_values r)))"

text \<open>\<^verbatim>\<open>findPort\<close>: the first runtime, in an order Go picks, that has the port.\<close>

definition findPort ::
  "runtimeRegistry \<Rightarrow> string \<Rightarrow> (PortMapping \<times> string \<times> string \<times> bool) option" where
  "findPort r sub =
     (case find (\<lambda>(ID, rt). kv_get (ri_portKeys rt) sub \<noteq> None) (byID r) of
        None \<Rightarrow> None
      | Some (ID, rt) \<Rightarrow>
          (case kv_get (ri_portKeys rt) sub of
             None \<Rightarrow> None
           | Some mapping \<Rightarrow>
               Some (mapping,
                 (case ri_primaryAddrs rt of
                    None \<Rightarrow> []
                  | Some a \<Rightarrow> (case kv_get a sub of None \<Rightarrow> [] | Some addr \<Rightarrow> addr)),
                 info_mode (ri_info rt), inf_Preview (ri_info rt))))"

definition conflictError :: "string \<Rightarrow> string \<Rightarrow> runtimeIntercept option \<Rightarrow> goerr" where
  "conflictError key wantMode existing =
     (case existing of
        None \<Rightarrow> Errorf (''service '' @ key @ '' is already in use'')
      | Some rt \<Rightarrow>
          if inf_Preview (ri_info rt) then Errorf (''service '' @ key @ '' is already used by preview'')
          else let have' = info_mode (ri_info rt) in
            if (wantMode = ModeExchange \<or> wantMode = ModeMirror) \<and>
               (have' = ModeExchange \<or> have' = ModeMirror) \<and> wantMode \<noteq> have'
            then Errorf (''exchange and mirror are mutually exclusive; stop '' @ have' @ '' on '' @ key @ '' first'')
            else Errorf (''service '' @ key @ '' is already in '' @ have'))"

section \<open>Host routes\<close>

record hostRoute =
  hr_mode :: string
  hr_preview :: bool
  hr_local :: PortMapping
  hr_primaryAddr :: string

type_synonym hostRouteRegistry = "(hostRouteKey, hostRoute) kv"

definition normalizeRouteHost :: "string \<Rightarrow> string" where
  "normalizeRouteHost host = to_lower (trim_space host)"

definition addHost :: "string list \<Rightarrow> string \<Rightarrow> string list" where
  "addHost hosts host =
     (let host = normalizeRouteHost host in
      if host = [] \<or> host = ''none'' then hosts
      else if host \<in> set hosts then hosts
      else hosts @ [host])"

definition serviceRewriteHosts :: "Service \<Rightarrow> string list" where
  "serviceRewriteHosts service =
     (let hosts = addHost [] (svc_ClusterIP service);
          name = svc_Name service; namespace = svc_Namespace service
      in if name \<noteq> [] \<and> namespace \<noteq> [] then
           addHost (addHost (addHost hosts
             (name @ ''.'' @ namespace @ ''.svc.cluster.local''))
             (name @ ''.'' @ namespace @ ''.svc''))
             (name @ ''.'' @ namespace)
         else hosts)"

definition port_route ::
  "(string, PortMapping) kv \<Rightarrow> (string, string) kv option \<Rightarrow> string \<Rightarrow> bool \<Rightarrow> string \<Rightarrow> InterceptPort \<Rightarrow> hostRoute"
where
  "port_route portKeys primaryAddrs mode preview interceptID port =
     (let sub = port_subID interceptID port
      in \<lparr>hr_mode = mode, hr_preview = preview,
          hr_local = (case kv_get portKeys sub of Some mapped \<Rightarrow> mapped | None \<Rightarrow> localFor port []),
          hr_primaryAddr = (case primaryAddrs of
             None \<Rightarrow> []
           | Some a \<Rightarrow> (case kv_get a sub of None \<Rightarrow> [] | Some addr \<Rightarrow> addr))\<rparr>)"

definition putHosts :: "string list \<Rightarrow> u16 \<Rightarrow> hostRoute \<Rightarrow> hostRouteRegistry \<Rightarrow> hostRouteRegistry" where
  "putHosts hosts port route r = fold (\<lambda>host r. kv_put (host, port) route r) hosts r"

fun installLoop ::
  "string list \<Rightarrow> (InterceptPort \<Rightarrow> hostRoute) \<Rightarrow> InterceptPort list \<Rightarrow> hostRouteRegistry \<Rightarrow>
   hostRouteKey list \<times> hostRouteRegistry"
where
  "installLoop hosts route [] r = ([], r)"
| "installLoop hosts route (port # ports) r =
     (let p = ucast (ip_ServicePort port);
          (keys, r') = installLoop hosts route ports (putHosts hosts p (route port) r)
      in (map (\<lambda>host. (host, p)) hosts @ keys, r'))"

definition install ::
  "hostRouteRegistry \<Rightarrow> Service \<Rightarrow> InterceptPort list \<Rightarrow> (string, PortMapping) kv \<Rightarrow>
   (string, string) kv option \<Rightarrow> string \<Rightarrow> bool \<Rightarrow> string \<Rightarrow> hostRouteKey list \<times> hostRouteRegistry"
where
  "install r service ports portKeys primaryAddrs mode preview interceptID =
     (let hosts = serviceRewriteHosts service in
      if hosts = [] then ([], r)
      else installLoop hosts
        (port_route portKeys primaryAddrs (if mode = [] then ModeExchange else mode) preview interceptID) ports r)"

definition routes_remove :: "hostRouteRegistry \<Rightarrow> hostRouteKey list \<Rightarrow> hostRouteRegistry" where
  "routes_remove r keys = fold kv_del keys r"

definition routes_lookup :: "hostRouteRegistry \<Rightarrow> string \<Rightarrow> u16 \<Rightarrow> hostRoute option" where
  "routes_lookup r host port = kv_get r (normalizeRouteHost host, port)"

section \<open>Concurrent starts and stops\<close>

text \<open>
  The registry, the starts in progress with the key and the reservation each holds, and two
  histories: the leases published and the leases taken out by a stop. A start publishes
  only what it reserved, under the name built from its namespace and Service.
\<close>

record regsys =
  rg :: runtimeRegistry
  starts :: "(nat, string \<times> u64) kv"
  published :: "lease list"
  retired :: "lease list"

definition reg_init :: "regsys \<Rightarrow> bool" where
  "reg_init g \<longleftrightarrow> g = \<lparr>rg = newRuntimeRegistry, starts = [], published = [], retired = []\<rparr>"

text \<open>What a start builds: one entry of \<^verbatim>\<open>portKeys\<close> for each port, and none twice.\<close>

definition rt_ok :: "runtimeIntercept \<Rightarrow> bool" where
  "rt_ok rt \<longleftrightarrow> ri_ID rt = ri_key rt \<and> kv_ok (ri_portKeys rt) \<and>
     distinct (map ip_id (inf_Ports (ri_info rt))) \<and>
     set (kv_keys (ri_portKeys rt)) = port_subID (ri_ID rt) ` set (inf_Ports (ri_info rt))"

inductive reg_step :: "regsys \<Rightarrow> regsys \<Rightarrow> bool" where
  start_begin: "kv_get (starts g) t = None \<Longrightarrow> reserve (rg g) key = ((res, True), r') \<Longrightarrow>
     reg_step g (g\<lparr>rg := r', starts := kv_put t (key, res) (starts g)\<rparr>)"
| start_publish: "kv_get (starts g) t = Some (key, res) \<Longrightarrow> reserved (rg g) key res \<Longrightarrow>
     ri_key rt = key \<Longrightarrow> rt_ok rt \<Longrightarrow>
     reg_step g (g\<lparr>rg := release (reg_add (rg g) rt) key res, starts := kv_del t (starts g),
                   published := ri_lease rt # published g\<rparr>)"
| start_abort: "kv_get (starts g) t = Some (key, res) \<Longrightarrow>
     reg_step g (g\<lparr>rg := release (rg g) key res, starts := kv_del t (starts g)\<rparr>)"
| stop: "reg_remove (rg g) ID = (Some rt, r') \<Longrightarrow>
     reg_step g (g\<lparr>rg := r', retired := ri_lease rt # retired g\<rparr>)"

definition live_leases :: "runtimeRegistry \<Rightarrow> lease multiset" where
  "live_leases r = image_mset (\<lambda>(ID, rt). ri_lease rt) (mset (byID r))"

definition index_inv :: "runtimeRegistry \<Rightarrow> bool" where
  "index_inv r \<longleftrightarrow> kv_ok (byID r) \<and> kv_ok (byKey r) \<and> kv_ok (starting r) \<and>
     (\<forall>ID rt. kv_get (byID r) ID = Some rt \<longrightarrow> ri_ID rt = ID \<and> rt_ok rt \<and> kv_get (byKey r) ID = Some ID) \<and>
     (\<forall>k ID. kv_get (byKey r) k = Some ID \<longrightarrow> ID = k \<and> kv_get (byID r) k \<noteq> None) \<and>
     (\<forall>k. kv_get (byKey r) k \<noteq> None \<longrightarrow> kv_get (starting r) k = None)"

definition starts_inv :: "regsys \<Rightarrow> bool" where
  "starts_inv g \<longleftrightarrow>
     (\<forall>t k v. kv_get (starts g) t = Some (k, v) \<longrightarrow> kv_get (starting (rg g)) k = Some v) \<and>
     (\<forall>t t' k v v'. kv_get (starts g) t = Some (k, v) \<longrightarrow> kv_get (starts g) t' = Some (k, v') \<longrightarrow> t = t')"

definition reg_inv :: "regsys \<Rightarrow> bool" where
  "reg_inv g \<longleftrightarrow> index_inv (rg g) \<and> starts_inv g \<and>
     mset (published g) = live_leases (rg g) + mset (retired g)"

lemma release_index: "index_inv r \<Longrightarrow> index_inv (release r k v)"
  by (auto simp: release_def index_inv_def kv_simps)

lemma reserve_index:
  "index_inv r \<Longrightarrow> reserve r k = ((v, True), r') \<Longrightarrow> index_inv r'"
  by (auto simp: reserve_def index_inv_def kv_simps containsKey_def Let_def split: if_splits)

lemma add_index:
  assumes "index_inv r" "rt_ok rt" "kv_get (starting r) (ri_key rt) = Some v"
  shows "index_inv ((reg_add r rt)\<lparr>starting := kv_del (ri_key rt) (starting r)\<rparr>)"
proof -
  have ID: "ri_ID rt = ri_key rt" using assms(2) by (simp add: rt_ok_def)
  have "kv_get (byKey r) (ri_key rt) = None" using assms(1,3) by (auto simp: index_inv_def)
  then have "kv_get (byID r) (ri_key rt) = None" using assms(1) by (fastforce simp: index_inv_def)
  with assms(1,2) ID show ?thesis by (auto simp: index_inv_def reg_add_def kv_simps)
qed

lemma remove_index:
  assumes "index_inv r" "reg_remove r i = (Some rt, r')"
  shows "index_inv r' \<and> live_leases r = add_mset (ri_lease rt) (live_leases r')"
proof -
  from assms(2) have rt: "kv_get (byID r) i = Some rt"
    and r': "r' = r\<lparr>byID := kv_del i (byID r), byKey := kv_del (ri_key rt) (byKey r)\<rparr>"
    by (auto simp: reg_remove_def split: option.splits)
  with assms(1) have "ri_ID rt = i" "rt_ok rt" unfolding index_inv_def by blast+
  then have key: "ri_key rt = i" by (simp add: rt_ok_def)
  have "index_inv r'" using assms(1) unfolding r' key by (auto simp: index_inv_def kv_simps)
  moreover have "mset (byID r) = add_mset (i, rt) (mset (byID r'))"
    using assms(1) rt by (simp add: r' index_inv_def mset_kv_del)
  ultimately show ?thesis by (simp add: live_leases_def)
qed

lemma reserved_get: "reserved r k v \<Longrightarrow> kv_get (starting r) k = Some v"
  by (auto simp: reserved_def split: option.splits)

lemma reg_step_inv: "reg_step g g' \<Longrightarrow> reg_inv g \<Longrightarrow> reg_inv g'"
proof (induction rule: reg_step.induct)
  case (start_begin g t key res r')
  then have r': "kv_get (starting (rg g)) key = None" "starting r' = kv_put key res (starting (rg g))"
    "byID r' = byID (rg g)"
    by (auto simp: reserve_def Let_def split: if_splits)
  with start_begin have "starts_inv (g\<lparr>rg := r', starts := kv_put t (key, res) (starts g)\<rparr>)"
    unfolding reg_inv_def starts_inv_def by (simp add: kv_simps) (metis option.discI)
  with start_begin r' reserve_index [of "rg g" key res r'] show ?case
    by (simp add: reg_inv_def live_leases_def)
next
  case (start_publish g t key res rt)
  let ?r = "(reg_add (rg g) rt)\<lparr>starting := kv_del key (starting (rg g))\<rparr>"
  have s: "kv_get (starting (rg g)) key = Some res" using start_publish(2) by (rule reserved_get)
  have eq: "release (reg_add (rg g) rt) key res = ?r"
    using start_publish(2) by (simp add: release_def reserved_def reg_add_def)
  from start_publish have inv: "index_inv (rg g)" "starts_inv g" by (simp_all add: reg_inv_def)
  have idx: "index_inv ?r" using add_index [OF inv(1) start_publish(4)] s start_publish(3) by simp
  have "kv_get (byKey (rg g)) key = None" using inv(1) s by (auto simp: index_inv_def)
  then have "kv_get (byID (rg g)) key = None" using inv(1) by (fastforce simp: index_inv_def)
  then have "live_leases ?r = add_mset (ri_lease rt) (live_leases (rg g))"
    using start_publish(3,4) by (simp add: live_leases_def reg_add_def rt_ok_def kv_put_new)
  moreover have "starts_inv (g\<lparr>rg := ?r, starts := kv_del t (starts g), published := ri_lease rt # published g\<rparr>)"
    using inv(2) start_publish(1) unfolding starts_inv_def by (simp add: kv_simps) blast
  ultimately show ?case using start_publish idx by (simp add: reg_inv_def eq)
next
  case (start_abort g t key res)
  have "starts_inv (g\<lparr>rg := release (rg g) key res, starts := kv_del t (starts g)\<rparr>)"
    using start_abort unfolding reg_inv_def starts_inv_def release_def
    by (simp add: kv_simps) blast
  with start_abort release_index show ?case
    by (simp add: reg_inv_def live_leases_def release_def split: if_splits)
next
  case (stop g ID rt r')
  then have "starting r' = starting (rg g)" by (auto simp: reg_remove_def split: option.splits)
  with stop remove_index [of "rg g" ID rt r'] show ?case
    by (auto simp: reg_inv_def starts_inv_def)
qed

interpretation rs: inv_system reg_init reg_step reg_inv
proof unfold_locales
  fix g assume "reg_init g"
  then show "reg_inv g"
    by (simp add: reg_init_def reg_inv_def index_inv_def starts_inv_def newRuntimeRegistry_def live_leases_def)
next
  fix g g' assume "reg_inv g" "reg_step g g'"
  then show "reg_inv g'" by (rule reg_step_inv [rotated])
qed


text \<open>
  C13. An inbound stream is served by the intercept that registered its port: \<^verbatim>\<open>findPort\<close>
  gives the mapping, mode and primary address of that runtime, in whatever order Go
  iterates over the map.
\<close>

theorem findPort_owner:
  assumes "reach reg_init reg_step g" and "reg_get (rg g) ID = Some rt"
    and "kv_get (ri_portKeys rt) sub = Some mapping" and "mset m = mset (byID (rg g))"
  shows "findPort ((rg g)\<lparr>byID := m\<rparr>) sub =
    Some (mapping, (case ri_primaryAddrs rt of None \<Rightarrow> [] | Some a \<Rightarrow> (case kv_get a sub of None \<Rightarrow> [] | Some x \<Rightarrow> x)),
      info_mode (ri_info rt), inf_Preview (ri_info rt))"
proof -
  from rs.reach_inv [OF assms(1)] have inv: "index_inv (rg g)" by (simp add: reg_inv_def)
  have own: "\<exists>p. sub = port_subID i' p" if "kv_get (byID (rg g)) i' = Some rt'" "kv_get (ri_portKeys rt') sub \<noteq> None"
    for i' rt'
  proof -
    from inv that(1) have "rt_ok rt'" "ri_ID rt' = i'" unfolding index_inv_def by blast+
    moreover from that(2) have "sub \<in> set (kv_keys (ri_portKeys rt'))" by (simp add: kv_get_None)
    ultimately show ?thesis by (auto simp: rt_ok_def)
  qed
  have ok: "kv_ok (byID (rg g))" using inv by (simp add: index_inv_def)
  have sm: "set m = set (byID (rg g))" using assms(4) by (metis set_mset_mset)
  have "find (\<lambda>(ID, rt). kv_get (ri_portKeys rt) sub \<noteq> None) m \<noteq> None"
    using assms(2,3) ok by (auto simp: find_None_iff sm reg_get_def kv_get_mem)
  then obtain i' rt' where f: "find (\<lambda>(ID, rt). kv_get (ri_portKeys rt) sub \<noteq> None) m = Some (i', rt')" by force
  then have mem: "(i', rt') \<in> set m" "kv_get (ri_portKeys rt') sub \<noteq> None"
    by (auto simp: find_Some_iff in_set_conv_nth)
  then have g': "kv_get (byID (rg g)) i' = Some rt'" using ok by (simp add: sm kv_get_mem)
  from own [OF g' mem(2)] own [of ID rt] assms(2,3) have "i' = ID"
    by (auto simp: reg_get_def subID_inject)
  with g' assms(2) have "rt' = rt" by (simp add: reg_get_def)
  with f assms(3) show ?thesis by (simp add: findPort_def)
qed

section \<open>Registrations to restore\<close>

definition listen_range :: "InterceptPort \<Rightarrow> bool" where
  "listen_range p \<longleftrightarrow> 0 < sint (ip_ListenPort p) \<and> sint (ip_ListenPort p) \<le> 65535"

lemma network_of_protocol:
  "(if normalizeProtocol x = ProtocolUDP then NetworkUDP else NetworkTCP) = protocolToNetwork x"
  by (simp add: protocolToNetwork_def)

lemma registrationLoop_own:
  "distinct (map ip_id ps) \<Longrightarrow> p \<in> set ps \<Longrightarrow>
   registrationLoop i ps (port_subID i p) =
     (if listen_range p then Some (protocolToNetwork (ip_Protocol p), ucast (ip_ListenPort p)) else None)"
proof (induction ps)
  case (Cons q ps)
  have "port_subID i q = port_subID i p \<longleftrightarrow> ip_id q = ip_id p" by (auto simp: subID_inject ip_id_def)
  with Cons show ?case
    by (auto simp: network_of_protocol Let_def listen_range_def ip_id_def)
qed simp

definition port_registration :: "string \<Rightarrow> InterceptPort \<Rightarrow> controlRegistration" where
  "port_registration ID p = \<lparr>cr_id = port_subID ID p, cr_network = protocolToNetwork (ip_Protocol p),
     cr_listenPort = ucast (ip_ListenPort p)\<rparr>"

lemma set_map_filter: "set (List.map_filter f xs) = {y. \<exists>x \<in> set xs. f x = Some y}"
  by (force simp: map_filter_def)

lemma set_values: "index_inv r \<Longrightarrow> rt \<in> set (reg_values r) \<longleftrightarrow> (\<exists>i. kv_get (byID r) i = Some rt)"
  by (auto simp: reg_values_def ids_def set_map_filter kv_keys_def kv_get_mem index_inv_def image_iff)
     (metis kv_get_mem fst_conv option.inject)

lemma set_registrations:
  assumes "index_inv r"
  shows "set (registrations r) =
    {port_registration i p | i rt p. kv_get (byID r) i = Some rt \<and> p \<in> set (inf_Ports (ri_info rt)) \<and> listen_range p}"
    (is "_ = ?R")
proof -
  have one: "set (runtime_registrations rt) = {port_registration i p | p. p \<in> set (inf_Ports (ri_info rt)) \<and> listen_range p}"
    if "kv_get (byID r) i = Some rt" for i rt
  proof -
    from assms that have rt: "ri_ID rt = i" "rt_ok rt" unfolding index_inv_def by blast+
    then have keys: "set (kv_keys (ri_portKeys rt)) = port_subID i ` set (inf_Ports (ri_info rt))"
      and d: "distinct (map ip_id (inf_Ports (ri_info rt)))" by (simp_all add: rt_ok_def)
    have "registrationFromRuntime rt (port_subID i p) =
        (if listen_range p then Some (protocolToNetwork (ip_Protocol p), ucast (ip_ListenPort p)) else None)"
      if "p \<in> set (inf_Ports (ri_info rt))" for p
      using registrationLoop_own [OF d that, of i] by (simp add: registrationFromRuntime_def rt(1))
    then show ?thesis
      unfolding runtime_registrations_def set_map_filter keys by (fastforce simp: port_registration_def split: if_splits)
  qed
  have "x \<in> set (registrations r) \<longleftrightarrow> x \<in> ?R" for x
  proof -
    have "x \<in> set (registrations r) \<longleftrightarrow> (\<exists>rt \<in> set (reg_values r). x \<in> set (runtime_registrations rt))"
      by (simp add: registrations_def)
    also have "\<dots> \<longleftrightarrow> (\<exists>i rt. kv_get (byID r) i = Some rt \<and> x \<in> set (runtime_registrations rt))"
      using set_values [OF assms] by blast
    also have "\<dots> \<longleftrightarrow> x \<in> ?R" using one by blast
    finally show ?thesis .
  qed
  then show ?thesis by blast
qed

text \<open>
  What a recovery registers again: exactly the ports of the intercepts that are
  running, each under its own name with its network and listen port, ordered by name.
\<close>

theorem recovery_registrations:
  assumes "reach reg_init reg_step g"
    and "\<And>i rt. reg_get (rg g) i = Some rt \<Longrightarrow> list_all listen_range (inf_Ports (ri_info rt))"
  shows "sorted (map cr_id (registrations (rg g))) \<and>
    set (registrations (rg g)) =
      {port_registration i p | i rt p. reg_get (rg g) i = Some rt \<and> p \<in> set (inf_Ports (ri_info rt))}"
proof
  show "sorted (map cr_id (registrations (rg g)))" by (simp add: registrations_def)
  from rs.reach_inv [OF assms(1)] have "index_inv (rg g)" by (simp add: reg_inv_def)
  from set_registrations [OF this] assms(2)
  show "set (registrations (rg g)) =
      {port_registration i p | i rt p. reg_get (rg g) i = Some rt \<and> p \<in> set (inf_Ports (ri_info rt))}"
    unfolding reg_get_def list_all_iff by blast
qed

text \<open>
  The counter of listen ports is never brought back into range. From 65536 on, the
  conversion to \<^verbatim>\<open>uint16\<close> lets the port be registered under its low 16 bits, and a
  recovery leaves it out: an intercept started that late does not come back.
\<close>

theorem listen_port_overflow_not_restored:
  assumes "65535 \<le> unat np" and "unat np < 2 ^ 31 - 1" and "kv_get (byID r) i = Some rt"
    and "index_inv r" and "p \<in> set (inf_Ports (ri_info rt))" and "ip_ListenPort p = fst (allocateListenPort np)"
  shows "port_subID i p \<notin> cr_id ` set (registrations r)"
proof -
  let ?w = "fst (allocateListenPort np)"
  have u: "unat ?w = Suc (unat np)" using assms(2) by (simp add: allocateListenPort_def unat_word_ariths)
  have "int (Suc n) < 2147483648" if "n < 2 ^ 31 - 1" for n :: nat using that by simp
  note b = this [OF assms(2)]
  have "sint ?w = int (unat ?w)"
    unfolding sint_uint uint_nat u using b by (simp add: signed_take_bit_int_eq_self)
  then have "sint ?w = int (Suc (unat np))" by (simp only: u)
  moreover have "\<not> int (Suc n) \<le> 65535" if "65535 \<le> n" for n :: nat using that by simp
  ultimately have "\<not> listen_range p" using assms(1) unfolding listen_range_def assms(6) by metis
  moreover have "q = p" if "port_subID i' q = port_subID i p" "kv_get (byID r) i' = Some rt'" "q \<in> set (inf_Ports (ri_info rt'))"
    for i' q rt'
  proof -
    from that(1) have "i' = i" "ip_id q = ip_id p" by (auto simp: subID_inject ip_id_def)
    with that(2) assms(3) have "rt' = rt" by simp
    moreover from assms(3,4) have "distinct (map ip_id (inf_Ports (ri_info rt)))"
      unfolding index_inv_def rt_ok_def by blast
    then have "inj_on ip_id (set (inf_Ports (ri_info rt)))" by (simp add: distinct_map)
    ultimately show ?thesis using \<open>ip_id q = ip_id p\<close> that(3) assms(5) by (metis inj_onD)
  qed
  ultimately show ?thesis
    unfolding set_registrations [OF assms(4)] port_registration_def by fastforce
qed

section \<open>Host routes, properties\<close>

lemma putHosts_get:
  "kv_get (putHosts hosts n route r) (h, p) = (if h \<in> set hosts \<and> p = n then Some route else kv_get r (h, p))"
  unfolding putHosts_def by (induction hosts arbitrary: r) (auto simp: kv_simps)

text \<open>The last of the ports with a number wins, whatever its protocol.\<close>

definition last_port :: "InterceptPort list \<Rightarrow> u16 \<Rightarrow> InterceptPort option" where
  "last_port ports n = find (\<lambda>p. ucast (ip_ServicePort p) = n) (rev ports)"

lemma find_append: "find P (xs @ ys) = (case find P xs of None \<Rightarrow> find P ys | Some x \<Rightarrow> Some x)"
  by (induction xs) auto

lemma installLoop_get:
  "installLoop hosts route ports r = (keys, r') \<Longrightarrow>
   kv_get r' (h, n) = (case (if h \<in> set hosts then last_port ports n else None) of
     Some p \<Rightarrow> Some (route p) | None \<Rightarrow> kv_get r (h, n)) \<and>
   ((h, n) \<in> set keys \<longleftrightarrow> h \<in> set hosts \<and> last_port ports n \<noteq> None)"
proof (induction ports arbitrary: r keys)
  case (Cons q ps)
  let ?n = "ucast (ip_ServicePort q)"
  from Cons.prems obtain keys1 where k: "keys = map (\<lambda>h. (h, ?n)) hosts @ keys1"
    and l: "installLoop hosts route ps (putHosts hosts ?n (route q) r) = (keys1, r')"
    by (auto simp: Let_def split: prod.splits)
  have "last_port (q # ps) n = (case last_port ps n of None \<Rightarrow> if ?n = n then Some q else None | Some p \<Rightarrow> Some p)"
    by (simp add: last_port_def find_append split: option.split)
  with Cons.IH [OF l] show ?case
    by (auto simp: k putHosts_get split: option.splits)
qed (simp add: last_port_def)

lemma routes_remove_get: "kv_get (routes_remove r keys) k = (if k \<in> set keys then None else kv_get r k)"
  unfolding routes_remove_def by (induction keys arbitrary: r) (auto simp: kv_simps)

lemma install_get:
  assumes "install r svc ports portKeys prim mode preview i = (keys, r')"
  shows "kv_get r' (h, n) = (case (if h \<in> set (serviceRewriteHosts svc) then last_port ports n else None) of
      Some p \<Rightarrow> Some (port_route portKeys prim (if mode = [] then ModeExchange else mode) preview i p)
    | None \<Rightarrow> kv_get r (h, n)) \<and>
    ((h, n) \<in> set keys \<longleftrightarrow> h \<in> set (serviceRewriteHosts svc) \<and> last_port ports n \<noteq> None)"
proof (cases "serviceRewriteHosts svc = []")
  case True
  with assms show ?thesis by (simp add: install_def)
next
  case False
  with assms have "installLoop (serviceRewriteHosts svc)
      (port_route portKeys prim (if mode = [] then ModeExchange else mode) preview i) ports r = (keys, r')"
    by (simp add: install_def Let_def)
  from installLoop_get [OF this, of h n] show ?thesis .
qed

lemma trim_space_idem: "trim_space (trim_space s) = trim_space s"
proof -
  have d: "dropWhile is_space (dropWhile is_space xs) = dropWhile is_space xs" for xs
    by (simp add: dropWhile_idem)
  let ?a = "dropWhile is_space s"
  have "dropWhile is_space (rev (dropWhile is_space (rev ?a))) = rev (dropWhile is_space (rev ?a))"
  proof (cases "dropWhile is_space (rev ?a)" rule: rev_cases)
    case (snoc ys y)
    have "\<exists>zs. ?a = y # zs"
    proof -
      have "rev ?a = takeWhile is_space (rev ?a) @ ys @ [y]" using snoc by (metis takeWhile_dropWhile_id)
      then show ?thesis by (metis rev_append rev_rev_ident append_Cons append_assoc rev.simps(2) append_Nil rev_singleton_conv)
    qed
    then have "\<not> is_space y" by (metis hd_dropWhile list.discI list.sel(1))
    then show ?thesis by (simp add: snoc)
  next
    case Nil
    show ?thesis unfolding Nil by simp
  qed
  then show ?thesis unfolding trim_space_def by (simp add: d)
qed

lemma trim_space_lower: "trim_space (to_lower s) = to_lower (trim_space s)"
  by (simp add: trim_space_def to_lower_def rev_map dropWhile_map comp_def)

lemma normalizeRouteHost_idem [simp]: "normalizeRouteHost (normalizeRouteHost h) = normalizeRouteHost h"
  by (simp add: normalizeRouteHost_def trim_space_lower trim_space_idem)

lemma addHost_set:
  "set (addHost hs x) = set hs \<union> ({normalizeRouteHost x} - {[], ''none''})"
  by (auto simp: addHost_def Let_def)

text \<open>The four names of a Service, normalised.\<close>

definition service_names :: "Service \<Rightarrow> string set" where
  "service_names svc = {svc_ClusterIP svc} \<union>
     (if svc_Name svc \<noteq> [] \<and> svc_Namespace svc \<noteq> [] then
        {svc_Name svc @ ''.'' @ svc_Namespace svc @ ''.svc.cluster.local'',
         svc_Name svc @ ''.'' @ svc_Namespace svc @ ''.svc'', svc_Name svc @ ''.'' @ svc_Namespace svc}
      else {})"

lemma serviceRewriteHosts_set:
  "set (serviceRewriteHosts svc) = normalizeRouteHost ` service_names svc - {[], ''none''}"
proof (cases "svc_Name svc \<noteq> [] \<and> svc_Namespace svc \<noteq> []")
  case True
  then have "set (serviceRewriteHosts svc) = (\<Union>x \<in> service_names svc. {normalizeRouteHost x} - {[], ''none''})"
    by (simp add: serviceRewriteHosts_def service_names_def addHost_set Let_def Un_ac)
  then show ?thesis by auto
next
  case False
  then have "serviceRewriteHosts svc = addHost [] (svc_ClusterIP svc)" "service_names svc = {svc_ClusterIP svc}"
    unfolding serviceRewriteHosts_def service_names_def Let_def if_not_P [OF False] by simp_all
  then show ?thesis by (simp add: addHost_set)
qed

text \<open>
  Installing the routes of an intercept makes every name of the Service (its cluster
  IP and its three DNS names, in any letter case) lead to the mapping of the port, leaves
  all other routes as they are, and removing the keys it returned takes exactly these routes
  out again.
\<close>

theorem host_routes_install_remove:
  assumes "install r svc ports portKeys prim mode preview i = (keys, r')"
  shows "routes_lookup r' host n =
     (case (if normalizeRouteHost host \<in> normalizeRouteHost ` service_names svc - {[], ''none''}
            then last_port ports n else None) of
        Some p \<Rightarrow> Some (port_route portKeys prim (if mode = [] then ModeExchange else mode) preview i p)
      | None \<Rightarrow> routes_lookup r host n) \<and>
   routes_lookup (routes_remove r' keys) host n =
     (if normalizeRouteHost host \<in> normalizeRouteHost ` service_names svc - {[], ''none''} \<and> last_port ports n \<noteq> None
      then None else routes_lookup r host n)"
  using install_get [OF assms, of "normalizeRouteHost host" n]
  unfolding routes_lookup_def routes_remove_get serviceRewriteHosts_set
  by (auto split: option.splits)

text \<open>
  C19. A host route does not record its protocol. Of two ports of a Service with the same
  number, such as DNS over TCP and over UDP, the one listed last serves both: \<^verbatim>\<open>HostTCP\<close>
  hands a TCP connection to the local target of the UDP port.
\<close>

theorem host_route_ignores_protocol:
  assumes "install r svc (ports @ [p, q]) portKeys prim mode preview i = (keys, r')"
    and "ip_ServicePort p = ip_ServicePort q" and "ip_Protocol p = ProtocolTCP" and "ip_Protocol q = ProtocolUDP"
    and "host \<in> set (serviceRewriteHosts svc)" and "kv_get portKeys (port_subID i q) = Some mapping"
  shows "\<exists>route. kv_get r' (host, ucast (ip_ServicePort p)) = Some route \<and> hr_local route = mapping"
  using install_get [OF assms(1), of host "ucast (ip_ServicePort p)"] assms(2-)
  by (simp add: last_port_def port_route_def Let_def)

section \<open>Witnesses\<close>

definition ex_mapping :: PortMapping where
  "ex_mapping = \<lparr>pm_ServicePort = 80, pm_Protocol = ''TCP'', pm_LocalHost = ''127.0.0.1'', pm_LocalPort = 3000\<rparr>"

definition ex_runtime_on :: "InterceptPort \<Rightarrow> runtimeIntercept" where
  "ex_runtime_on p = \<lparr>ri_info = \<lparr>inf_ID = ''shop/api'', inf_Namespace = ''shop'', inf_Service = ''api'',
       inf_ClusterIP = ''10.96.0.7'', inf_Preview = False, inf_Mode = ModeExchange, inf_Ports = [p],
       inf_Locals = [ex_mapping]\<rparr>,
     ri_lease = 1, ri_portKeys = [(port_subID ''shop/api'' p, ex_mapping)],
     ri_primaryAddrs = None, ri_hostKeys = [], ri_stopping = False\<rparr>"

definition ex_running_on :: "InterceptPort \<Rightarrow> regsys" where
  "ex_running_on p = \<lparr>rg = \<lparr>byID = [(''shop/api'', ex_runtime_on p)], byKey = [(''shop/api'', ''shop/api'')],
     starting = [], nextReservation = 1\<rparr>, starts = [], published = [1], retired = []\<rparr>"

lemma ex_runtime_ok: "rt_ok (ex_runtime_on p)" "ri_key (ex_runtime_on p) = ''shop/api''"
  by (simp_all add: rt_ok_def ex_runtime_on_def runtimeKey_def kv_ok_def kv_keys_def)

definition ex_idle :: regsys where
  "ex_idle = \<lparr>rg = newRuntimeRegistry, starts = [], published = [], retired = []\<rparr>"

definition ex_starting :: regsys where
  "ex_starting = \<lparr>rg = \<lparr>byID = [], byKey = [], starting = [(''shop/api'', 1)], nextReservation = 1\<rparr>,
     starts = [(0, (''shop/api'', 1))], published = [], retired = []\<rparr>"

lemma ex_start_begin: "reg_step ex_idle ex_starting"
proof -
  have "reserve (rg ex_idle) ''shop/api'' = ((1, True), rg ex_starting)" "kv_get (starts ex_idle) 0 = None"
    by (simp_all add: ex_idle_def ex_starting_def reserve_def containsKey_def newRuntimeRegistry_def kv_get_def kv_put_def)
  from start_begin [OF this(2,1)] show ?thesis
    by (simp add: ex_idle_def ex_starting_def kv_put_def)
qed

lemma ex_start_publish: "reg_step ex_starting (ex_running_on p)"
proof -
  have r: "reserved (rg ex_starting) ''shop/api'' 1" "kv_get (starts ex_starting) 0 = Some (''shop/api'', 1)"
    by (simp_all add: ex_starting_def reserved_def kv_get_def)
  have "release (reg_add (rg ex_starting) (ex_runtime_on p)) ''shop/api'' 1 = rg (ex_running_on p)"
    by (simp add: release_def reserved_def reg_add_def ex_starting_def ex_running_on_def kv_get_def kv_put_def
        kv_del_def ex_runtime_on_def runtimeKey_def)
  with start_publish [OF r(2,1) ex_runtime_ok(2,1), of p] show ?thesis
    by (simp add: ex_starting_def ex_running_on_def kv_del_def ex_runtime_on_def)
qed

lemma reach_ex_running: "reach reg_init reg_step (ex_running_on p)"
proof -
  have "reach reg_init reg_step ex_idle" by (rule reach_init) (simp add: reg_init_def ex_idle_def)
  from reach_step [OF reach_step [OF this ex_start_begin] ex_start_publish] show ?thesis .
qed

lemma ex_running_get: "reg_get (rg (ex_running_on p)) i = (if i = ''shop/api'' then Some (ex_runtime_on p) else None)"
  by (simp add: reg_get_def ex_running_on_def kv_get_def)


theorem findPort_owner_witness:
  "findPort (rg (ex_running_on ex_port)) (port_subID ''shop/api'' ex_port) =
     Some (ex_mapping, [], ModeExchange, False)"
  using findPort_owner [OF reach_ex_running [of ex_port], of "''shop/api''" "ex_runtime_on ex_port"
      "port_subID ''shop/api'' ex_port" ex_mapping "byID (rg (ex_running_on ex_port))"]
  by (simp add: ex_running_get) (simp add: ex_runtime_on_def kv_get_def info_mode_def)

theorem recovery_registrations_witness:
  "set (registrations (rg (ex_running_on ex_port))) = {port_registration ''shop/api'' ex_port}"
proof -
  have "list_all listen_range (inf_Ports (ri_info rt))"
    if "reg_get (rg (ex_running_on ex_port)) i = Some rt" for i rt
    using that by (auto simp: ex_running_get ex_runtime_on_def ex_port_def listen_range_def split: if_splits)
  from recovery_registrations [OF reach_ex_running this] show ?thesis
    by (auto simp: ex_running_get ex_runtime_on_def)
qed

theorem listen_port_overflow_not_restored_witness:
  "port_subID ''shop/api'' (ex_port\<lparr>ip_ListenPort := 67000\<rparr>) \<notin>
     cr_id ` set (registrations (rg (ex_running_on (ex_port\<lparr>ip_ListenPort := 67000\<rparr>))))"
proof -
  let ?p = "ex_port\<lparr>ip_ListenPort := 67000\<rparr>"
  have idx: "index_inv (rg (ex_running_on ?p))"
    using rs.reach_inv [OF reach_ex_running [of ?p]] by (simp add: reg_inv_def)
  have "kv_get (byID (rg (ex_running_on ?p))) ''shop/api'' = Some (ex_runtime_on ?p)"
    by (simp add: ex_running_on_def kv_get_def)
  from listen_port_overflow_not_restored [of 66999, OF _ _ this idx, of ?p] show ?thesis
    by (simp add: ex_runtime_on_def allocateListenPort_def)
qed

theorem host_routes_install_remove_witness:
  "\<exists>keys r'. install [] ex_service [ex_port] [] None ModeExchange False ''shop/api'' = (keys, r') \<and>
     routes_lookup (routes_remove r' keys) ''api.shop'' 80 = None"
proof -
  obtain keys r' where i: "install [] ex_service [ex_port] [] None ModeExchange False ''shop/api'' = (keys, r')"
    by fastforce
  from host_routes_install_remove [OF i, of "''api.shop''" 80] i show ?thesis
    by (auto simp: routes_lookup_def)
qed

theorem host_route_ignores_protocol_witness:
  "\<exists>keys r' route. install [] ex_service [ex_port, ex_port\<lparr>ip_Protocol := ProtocolUDP\<rparr>]
      [(port_subID ''shop/api'' (ex_port\<lparr>ip_Protocol := ProtocolUDP\<rparr>), ex_mapping)] None ModeExchange False ''shop/api''
      = (keys, r') \<and>
    kv_get r' (''10.96.0.7'', 80) = Some route \<and> hr_local route = ex_mapping"
proof -
  let ?q = "ex_port\<lparr>ip_Protocol := ProtocolUDP\<rparr>"
  let ?k = "[(port_subID ''shop/api'' ?q, ex_mapping)]"
  obtain keys r' where i: "install [] ex_service ([] @ [ex_port, ?q]) ?k None ModeExchange False ''shop/api'' = (keys, r')"
    by fastforce
  have n: "normalizeRouteHost ''10.96.0.7'' = ''10.96.0.7''" by code_simp
  have "''10.96.0.7'' \<in> set (serviceRewriteHosts ex_service)"
    unfolding serviceRewriteHosts_set service_names_def
    using n by (intro DiffI rev_image_eqI [of "''10.96.0.7''"]) (simp_all add: ex_service_def)
  from host_route_ignores_protocol [OF i _ _ _ this, of ex_mapping] i show ?thesis
    by (simp add: ex_port_def kv_get_def)
qed

end
