(* ===== verification/Gateway.thy ===== *)
theory Gateway
  imports Tunnel Netip
begin

text \<open>
  The in-cluster Gateway, \<^verbatim>\<open>internal/gateway\<close>: the tables of \<^verbatim>\<open>Server\<close> (control
  sessions, tenants, reverse listeners, pending streams), the handlers of
  \<^verbatim>\<open>server.go\<close>, \<^verbatim>\<open>reverse.go\<close>, \<^verbatim>\<open>pending.go\<close> and the TCP accept loop, and the
  address check that keeps tunnels inside private networks.

  Each critical section under \<^verbatim>\<open>Server.mu\<close> is one function on \<open>server\<close>. The concurrent
  system is the relation \<open>gw_step\<close> over them: registrations release the lock between the
  check, the \<^verbatim>\<open>net.Listen\<close> and the insertion, so those are separate steps, and the
  sockets the operating system holds open are part of the state.
\<close>

section \<open>State\<close>

text \<open>A control session is named by a number, in place of its address.\<close>

type_synonym ctrl = nat

record interceptListener =
  l_id :: string
  l_network :: byte
  l_port :: u16
  l_control :: ctrl

record pendingStream =
  p_id :: u64
  p_token :: SessionToken
  p_network :: byte

record server =
  nextStream :: u64
  controls :: "(ctrl, SessionToken) kv"
  tenants :: "(SessionToken, int) kv"
  listeners :: "(SessionToken \<times> string, interceptListener) kv"
  pending :: "(u64, pendingStream) kv"

definition NewServer :: server where
  "NewServer = \<lparr>nextStream = 0, controls = [], tenants = [], listeners = [], pending = []\<rparr>"

text \<open>\<^verbatim>\<open>s.tenants[token]\<close>: 0 when the key is absent.\<close>

definition tenant_count :: "server \<Rightarrow> SessionToken \<Rightarrow> int" where
  "tenant_count s token = (case kv_get (tenants s) token of None \<Rightarrow> 0 | Some n \<Rightarrow> n)"

definition tenantActive :: "server \<Rightarrow> SessionToken \<Rightarrow> bool" where
  "tenantActive s token \<longleftrightarrow> tenant_count s token > 0"

section \<open>Control sessions\<close>

text \<open>The first critical section of \<^verbatim>\<open>handleControl\<close>.\<close>

definition addControl :: "server \<Rightarrow> ctrl \<Rightarrow> SessionToken \<Rightarrow> server" where
  "addControl s c token =
     s\<lparr>controls := kv_put c token (controls s),
       tenants := kv_put token (tenant_count s token + 1) (tenants s)\<rparr>"

text \<open>
  \<^verbatim>\<open>removeControl\<close>: the listeners to stop, the pending streams to close, and the tables
  without them.
\<close>

definition removeControl ::
  "server \<Rightarrow> ctrl \<Rightarrow> SessionToken \<Rightarrow> interceptListener list \<times> pendingStream list \<times> server"
where
  "removeControl s c token =
     (let n = tenant_count s token - 1;
          lastTenantControl = (n = 0);
          tenants' = (if n = 0 then kv_del token (tenants s) else kv_put token n (tenants s));
          toClose = map snd (filter (\<lambda>(k, l). l_control l = c) (listeners s));
          listeners' = filter (\<lambda>(k, l). l_control l \<noteq> c) (listeners s);
          pendingToClose = (if lastTenantControl
            then map snd (filter (\<lambda>(i, p). p_token p = token) (pending s)) else []);
          pending' = (if lastTenantControl
            then filter (\<lambda>(i, p). p_token p \<noteq> token) (pending s) else pending s)
      in (toClose, pendingToClose,
          s\<lparr>controls := kv_del c (controls s), tenants := tenants', listeners := listeners',
            pending := pending'\<rparr>))"

section \<open>Reverse listeners\<close>

definition already_registered :: "string \<Rightarrow> goerr" where
  "already_registered ID = Errorf (''intercept '' @ quote ID @ '' already registered'')"

definition port_in_use :: "u16 \<Rightarrow> goerr" where
  "port_in_use port = Errorf (''listen port '' @ itoa (unat port) @ '' already in use'')"

text \<open>The checks of \<^verbatim>\<open>registerIntercept\<close> up to the first unlock.\<close>

definition registerCheck :: "server \<Rightarrow> SessionToken \<Rightarrow> ControlMessage \<Rightarrow> unit res" where
  "registerCheck s token message =
     (if unat (ListenPort message) < 1024 then Inl (Errorf ''listen port must be >= 1024'')
      else if kv_get (listeners s) (token, InterceptID message) \<noteq> None
      then Inl (already_registered (InterceptID message))
      else if list_ex (\<lambda>(k, l). l_port l = ListenPort message \<and> l_network l = Network message) (listeners s)
      then Inl (port_in_use (ListenPort message))
      else Inr ())"

text \<open>The \<^verbatim>\<open>switch message.Network\<close>, given the answer of the operating system.\<close>

definition registerListen :: "ControlMessage \<Rightarrow> goerr option \<Rightarrow> unit res" where
  "registerListen message listenErr =
     (if Network message = NetworkTCP then
        (case listenErr of Some e \<Rightarrow> Inl (Wrapf ''listen tcp: '' e) | None \<Rightarrow> Inr ())
      else if Network message = NetworkUDP then
        (case listenErr of Some e \<Rightarrow> Inl (Wrapf ''listen udp: '' e) | None \<Rightarrow> Inr ())
      else Inl (Errorf (''unsupported network '' @ itoa (unat (Network message)))))"

text \<open>The last critical section: the key is checked again before the insertion.\<close>

definition registerCommit ::
  "server \<Rightarrow> ctrl \<Rightarrow> SessionToken \<Rightarrow> ControlMessage \<Rightarrow> goerr option \<times> server"
where
  "registerCommit s c token message =
     (let key = (token, InterceptID message) in
      if kv_get (listeners s) key \<noteq> None then (Some (already_registered (InterceptID message)), s)
      else (None, s\<lparr>listeners := kv_put key
              \<lparr>l_id = InterceptID message, l_network = Network message,
               l_port = ListenPort message, l_control = c\<rparr> (listeners s)\<rparr>))"

text \<open>
  The whole of \<^verbatim>\<open>registerIntercept\<close>, with the answer of the operating system and what the
  other goroutines do to the tables while the lock is free.
\<close>

definition registerIntercept ::
  "server \<Rightarrow> ctrl \<Rightarrow> SessionToken \<Rightarrow> ControlMessage \<Rightarrow> goerr option \<Rightarrow> (server \<Rightarrow> server) \<Rightarrow>
   goerr option \<times> server"
where
  "registerIntercept s c token message listenErr interfere =
     (case registerCheck s token message of
        Inl e \<Rightarrow> (Some e, s)
      | Inr _ \<Rightarrow>
          (case registerListen message listenErr of
             Inl e \<Rightarrow> (Some e, interfere s)
           | Inr _ \<Rightarrow> registerCommit (interfere s) c token message))"

text \<open>\<^verbatim>\<open>unregisterIntercept\<close>: only the owner's listener is removed.\<close>

definition unregisterIntercept ::
  "server \<Rightarrow> ctrl \<Rightarrow> SessionToken \<Rightarrow> string \<Rightarrow> interceptListener option \<times> server"
where
  "unregisterIntercept s c token ID =
     (case kv_get (listeners s) (token, ID) of
        Some l \<Rightarrow> if l_control l = c then (Some l, s\<lparr>listeners := kv_del (token, ID) (listeners s)\<rparr>)
                  else (None, s)
      | None \<Rightarrow> (None, s))"

text \<open>
  One message in the loop of \<^verbatim>\<open>handleControl\<close>: the new tables and the reply. The quiet
  system of this function has one control session acting at a time.
\<close>

definition controlReply ::
  "server \<Rightarrow> ctrl \<Rightarrow> SessionToken \<Rightarrow> ControlMessage \<Rightarrow> goerr option \<Rightarrow> ControlMessage \<times> server"
where
  "controlReply s c token message listenErr =
     (if Type message = CtrlRegister then
        (case registerIntercept s c token message listenErr id of
           (Some e, s') \<Rightarrow> ((ctrl_message CtrlError)\<lparr>Error := err_text e\<rparr>, s')
         | (None, s') \<Rightarrow> (ctrl_message CtrlAck, s'))
      else if Type message = CtrlUnregister then
        (ctrl_message CtrlAck, snd (unregisterIntercept s c token (InterceptID message)))
      else ((ctrl_message CtrlError)\<lparr>Error := ''unsupported control type '' @ itoa (unat (Type message))\<rparr>, s))"

section \<open>Pending streams\<close>

definition offerPending :: "server \<Rightarrow> pendingStream \<Rightarrow> bool \<times> server" where
  "offerPending s p =
     (if kv_get (pending s) (p_id p) \<noteq> None then (False, s)
      else (True, s\<lparr>pending := kv_put (p_id p) p (pending s)\<rparr>))"

definition takePending :: "server \<Rightarrow> u64 \<Rightarrow> pendingStream option \<times> server" where
  "takePending s streamID =
     (kv_get (pending s) streamID, s\<lparr>pending := kv_del streamID (pending s)\<rparr>)"

definition takePendingFor :: "server \<Rightarrow> SessionToken \<Rightarrow> u64 \<Rightarrow> pendingStream option \<times> server" where
  "takePendingFor s token streamID =
     (case kv_get (pending s) streamID of
        None \<Rightarrow> (None, s)
      | Some p \<Rightarrow> if p_token p \<noteq> token then (None, s) else takePending s streamID)"

text \<open>
  A new inbound stream, as the accept loops do it: a fresh number, the offer, and the
  announcement with \<^verbatim>\<open>CtrlInboundReady\<close>; \<open>replyErr\<close> is the answer of the write on the
  control channel.
\<close>

definition announceStream ::
  "server \<Rightarrow> interceptListener \<Rightarrow> SessionToken \<Rightarrow> byte \<Rightarrow> goerr option \<Rightarrow> ControlMessage option \<times> server"
where
  "announceStream s l token network replyErr =
     (let streamID = nextStream s + 1;
          s1 = s\<lparr>nextStream := streamID\<rparr>;
          p = \<lparr>p_id = streamID, p_token = token, p_network = network\<rparr>
      in case offerPending s1 p of
           (False, s2) \<Rightarrow> (None, s2)
         | (True, s2) \<Rightarrow>
             (case replyErr of
                None \<Rightarrow> (Some ((ctrl_message CtrlInboundReady)\<lparr>InterceptID := l_id l,
                           Network := network, StreamID := streamID\<rparr>), s2)
              | Some e \<Rightarrow> (None, snd (takePending s2 streamID))))"

text \<open>One accepted connection in \<^verbatim>\<open>acceptTCP\<close>.\<close>

definition acceptTCP ::
  "server \<Rightarrow> interceptListener \<Rightarrow> SessionToken \<Rightarrow> goerr option \<Rightarrow> ControlMessage option \<times> server"
where
  "acceptTCP s l token replyErr = announceStream s l token NetworkTCP replyErr"

text \<open>
  \<^verbatim>\<open>handleAccept\<close> after the header: the answer and the stream it connects; \<open>statusErr\<close> is
  the answer of the write of the success status, and a stream whose status is not
  delivered is taken off the table and closed.
\<close>

datatype accept_outcome =
    AcceptClosed
  | AcceptStatus goerr
  | AcceptDropped pendingStream
  | AcceptServe pendingStream

definition handleAccept ::
  "server \<Rightarrow> SessionToken \<Rightarrow> byte list \<Rightarrow> goerr option \<Rightarrow> accept_outcome \<times> server"
where
  "handleAccept s token r statusErr =
     (if \<not> tenantActive s token then (AcceptStatus (Errorf ''Gateway session is not active''), s)
      else case ReadAcceptStreamID r of
        Inl e \<Rightarrow> (AcceptClosed, s)
      | Inr (streamID, _) \<Rightarrow>
          (case takePendingFor s token streamID of
             (None, s') \<Rightarrow> (AcceptStatus (Errorf (''unknown stream '' @ itoa (unat streamID))), s')
           | (Some p, s') \<Rightarrow>
               (if statusErr \<noteq> None then (AcceptDropped p, s') else (AcceptServe p, s'))))"

section \<open>Outbound tunnels\<close>

definition isClusterAddress :: "addr \<Rightarrow> bool" where
  "isClusterAddress ip \<longleftrightarrow>
     IsPrivate ip \<and> \<not> IsLoopback ip \<and> \<not> IsLinkLocalUnicast ip \<and> \<not> IsMulticast ip"

text \<open>
  \<^verbatim>\<open>resolvePrivate\<close>; \<open>lookup\<close> is the resolver (\<^verbatim>\<open>LookupNetIP\<close>), whose addresses the code
  does not trust.
\<close>

definition resolvePrivate :: "(string \<Rightarrow> addr list res) \<Rightarrow> string \<Rightarrow> u16 \<Rightarrow> string res" where
  "resolvePrivate lookup host port =
     (if to_lower host = ''localhost'' then Inl (Errorf ''loopback targets are not allowed'')
      else case lookup host of
        Inl e \<Rightarrow> Inl (Wrapf ''resolve target: '' e)
      | Inr addresses \<Rightarrow>
          (case find isClusterAddress (map Unmap addresses) of
             Some ip \<Rightarrow> Inr (join_host_port (addr_string ip) (itoa (unat port)))
           | None \<Rightarrow> Inl (Errorf (''target '' @ quote host @ '' does not resolve to a private cluster address''))))"

datatype outbound_outcome =
    OutClosed
  | OutStatus goerr
  | OutRelay string string

text \<open>
  \<^verbatim>\<open>handleOutbound\<close>: refuse, or dial the resolved address on \<^verbatim>\<open>tcp\<close> or \<^verbatim>\<open>udp\<close> and relay
  once the success status is written.
\<close>

definition handleOutbound ::
  "server \<Rightarrow> (string \<Rightarrow> addr list res) \<Rightarrow> (string \<Rightarrow> string \<Rightarrow> goerr option) \<Rightarrow>
   SessionHeader \<Rightarrow> byte list \<Rightarrow> goerr option \<Rightarrow> outbound_outcome"
where
  "handleOutbound s lookup dial header r statusErr =
     (if \<not> tenantActive s (hdr_Token header) then OutStatus (Errorf ''Gateway session is not active'')
      else case ReadOpenBody r (hdr_Command header) of
        Inl e \<Rightarrow> OutClosed
      | Inr (request, _) \<Rightarrow>
          (case resolvePrivate lookup (Host request) (Port request) of
             Inl e \<Rightarrow> OutStatus e
           | Inr target \<Rightarrow>
               (let network = (if Command request = CommandUDP then ''udp'' else ''tcp'') in
                case dial network target of
                  Some e \<Rightarrow> OutStatus (Wrapf ''dial target: '' e)
                | None \<Rightarrow> if statusErr \<noteq> None then OutClosed else OutRelay network target)))"

datatype dispatch =
    RejectHandshake goerr
  | DoOutbound outbound_outcome
  | DoControl SessionToken
  | DoAccept accept_outcome
  | UnsupportedCommand byte

text \<open>\<^verbatim>\<open>handle\<close>: what a new connection is.\<close>

definition handle ::
  "server \<Rightarrow> (string \<Rightarrow> addr list res) \<Rightarrow> (string \<Rightarrow> string \<Rightarrow> goerr option) \<Rightarrow> byte list \<Rightarrow>
   goerr option \<Rightarrow> dispatch \<times> server"
where
  "handle s lookup dial client statusErr =
     (case ReadSessionHeader client of
        Inl e \<Rightarrow> (RejectHandshake e, s)
      | Inr (header, r) \<Rightarrow>
          if hdr_Command header = CommandTCP \<or> hdr_Command header = CommandUDP
          then (DoOutbound (handleOutbound s lookup dial header r statusErr), s)
          else if hdr_Command header = CommandControl then (DoControl (hdr_Token header), s)
          else if hdr_Command header = CommandAccept then
            (case handleAccept s (hdr_Token header) r statusErr of (out, s') \<Rightarrow> (DoAccept out, s'))
          else (UnsupportedCommand (hdr_Command header), s))"

section \<open>The concurrent system\<close>

datatype reg_phase = Checked ControlMessage | Listening ControlMessage

text \<open>
  The tables, the sockets the operating system holds open with their owners, the
  registrations between two critical sections, the sockets on their way to be closed
  (\<^verbatim>\<open>listener.stop\<close> runs outside the lock), and two histories: the streams offered, with
  the tenant each was offered for, and the streams delivered, with who got them.
\<close>

record gwsys =
  srv :: server
  socks :: "(byte \<times> u16, ctrl \<times> string) kv"
  inflight :: "(ctrl, reg_phase) kv"
  closing :: "(byte \<times> u16) list"
  offered :: "(u64 \<times> SessionToken) list"
  delivered :: "(u64 \<times> SessionToken) list"

definition gw_init :: "gwsys \<Rightarrow> bool" where
  "gw_init g \<longleftrightarrow>
     g = \<lparr>srv = NewServer, socks = [], inflight = [], closing = [], offered = [], delivered = []\<rparr>"

abbreviation msg_sock :: "ControlMessage \<Rightarrow> byte \<times> u16" where
  "msg_sock m \<equiv> (Network m, ListenPort m)"

abbreviation l_sock :: "interceptListener \<Rightarrow> byte \<times> u16" where
  "l_sock l \<equiv> (l_network l, l_port l)"

text \<open>
  A session acts on its own messages one at a time, so it disconnects or unregisters only
  when none of its registrations is in flight. The operating system lets a socket be
  opened only when no socket of that network and port is open. A stream may be announced
  for any listener and tenant, also by an accept loop that outlives its listener; a stream
  leaves the table unserved when it expires or when its acceptor cannot be told.
\<close>

inductive gw_step :: "gwsys \<Rightarrow> gwsys \<Rightarrow> bool" where
  connect: "kv_get (controls (srv g)) c = None \<Longrightarrow>
     gw_step g (g\<lparr>srv := addControl (srv g) c token\<rparr>)"
| reg_check: "kv_get (controls (srv g)) c = Some token \<Longrightarrow> kv_get (inflight g) c = None \<Longrightarrow>
     registerCheck (srv g) token m = Inr () \<Longrightarrow>
     gw_step g (g\<lparr>inflight := kv_put c (Checked m) (inflight g)\<rparr>)"
| reg_listen: "kv_get (inflight g) c = Some (Checked m) \<Longrightarrow> registerListen m None = Inr () \<Longrightarrow>
     kv_get (socks g) (msg_sock m) = None \<Longrightarrow>
     gw_step g (g\<lparr>socks := kv_put (msg_sock m) (c, InterceptID m) (socks g),
                  inflight := kv_put c (Listening m) (inflight g)\<rparr>)"
| reg_listen_fail: "kv_get (inflight g) c = Some (Checked m) \<Longrightarrow> registerListen m e = Inl e' \<Longrightarrow>
     gw_step g (g\<lparr>inflight := kv_del c (inflight g)\<rparr>)"
| reg_commit: "kv_get (inflight g) c = Some (Listening m) \<Longrightarrow> kv_get (controls (srv g)) c = Some token \<Longrightarrow>
     registerCommit (srv g) c token m = (None, s') \<Longrightarrow>
     gw_step g (g\<lparr>srv := s', inflight := kv_del c (inflight g)\<rparr>)"
| reg_dup: "kv_get (inflight g) c = Some (Listening m) \<Longrightarrow> kv_get (controls (srv g)) c = Some token \<Longrightarrow>
     registerCommit (srv g) c token m = (Some e, s') \<Longrightarrow>
     gw_step g (g\<lparr>srv := s', inflight := kv_del c (inflight g), closing := msg_sock m # closing g\<rparr>)"
| unregister: "kv_get (controls (srv g)) c = Some token \<Longrightarrow> kv_get (inflight g) c = None \<Longrightarrow>
     unregisterIntercept (srv g) c token i = (Some l, s') \<Longrightarrow>
     gw_step g (g\<lparr>srv := s', closing := l_sock l # closing g\<rparr>)"
| disconnect: "kv_get (controls (srv g)) c = Some token \<Longrightarrow> kv_get (inflight g) c = None \<Longrightarrow>
     removeControl (srv g) c token = (ls, ps, s') \<Longrightarrow>
     gw_step g (g\<lparr>srv := s', closing := map l_sock ls @ closing g\<rparr>)"
| close_socket: "np \<in> set (closing g) \<Longrightarrow>
     gw_step g (g\<lparr>socks := kv_del np (socks g), closing := removeAll np (closing g)\<rparr>)"
| inbound: "gw_step g (g\<lparr>srv := snd (announceStream (srv g) l token network replyErr),
                         offered := (nextStream (srv g) + 1, token) # offered g\<rparr>)"
| accept: "handleAccept (srv g) token r None = (AcceptServe p, s') \<Longrightarrow>
     gw_step g (g\<lparr>srv := s', delivered := (p_id p, token) # delivered g\<rparr>)"
| expire: "gw_step g (g\<lparr>srv := snd (takePending (srv g) i)\<rparr>)"

section \<open>Invariant\<close>

text \<open>Tenants: the count of a token is the number of its live control sessions.\<close>

definition tenants_inv :: "server \<Rightarrow> bool" where
  "tenants_inv s \<longleftrightarrow> kv_ok (controls s) \<and> kv_ok (tenants s) \<and>
     (\<forall>t. kv_get (tenants s) t =
        (let n = length (filter (\<lambda>(c, t'). t' = t) (controls s))
         in if n = 0 then None else Some (int n)))"

text \<open>Listeners: each is filed under its own name and its owner's token, and owns its socket.\<close>

definition listeners_inv :: "gwsys \<Rightarrow> bool" where
  "listeners_inv g \<longleftrightarrow> kv_ok (listeners (srv g)) \<and> kv_ok (socks g) \<and> kv_ok (inflight g) \<and>
     (\<forall>t i l. kv_get (listeners (srv g)) (t, i) = Some l \<longrightarrow>
        l_id l = i \<and> kv_get (controls (srv g)) (l_control l) = Some t \<and>
        kv_get (socks g) (l_sock l) = Some (l_control l, i) \<and> l_sock l \<notin> set (closing g)) \<and>
     (\<forall>c m. kv_get (inflight g) c = Some (Checked m) \<longrightarrow> kv_get (controls (srv g)) c \<noteq> None) \<and>
     (\<forall>c m. kv_get (inflight g) c = Some (Listening m) \<longrightarrow>
        kv_get (controls (srv g)) c \<noteq> None \<and>
        kv_get (socks g) (msg_sock m) = Some (c, InterceptID m) \<and> msg_sock m \<notin> set (closing g) \<and>
        (\<forall>k l. kv_get (listeners (srv g)) k = Some l \<longrightarrow> l_sock l \<noteq> msg_sock m)) \<and>
     (\<forall>np \<in> set (closing g). kv_get (socks g) np \<noteq> None)"

text \<open>Streams, as long as the 64-bit stream counter has not wrapped around.\<close>

definition streams_inv :: "gwsys \<Rightarrow> bool" where
  "streams_inv g \<longleftrightarrow> kv_ok (pending (srv g)) \<and>
     (\<forall>i p. kv_get (pending (srv g)) i = Some p \<longrightarrow> p_id p = i \<and> (i, p_token p) \<in> set (offered g)) \<and>
     set (delivered g) \<subseteq> set (offered g) \<and>
     (length (offered g) < 2 ^ 64 \<longrightarrow>
        unat (nextStream (srv g)) = length (offered g) \<and>
        (\<forall>(i, t) \<in> set (offered g). unat i \<le> length (offered g)) \<and>
        distinct (map fst (offered g)) \<and> distinct (map fst (delivered g)) \<and>
        (\<forall>i t. (i, t) \<in> set (delivered g) \<longrightarrow> kv_get (pending (srv g)) i = None))"

definition gw_inv :: "gwsys \<Rightarrow> bool" where
  "gw_inv g \<longleftrightarrow> tenants_inv (srv g) \<and> listeners_inv g \<and> streams_inv g"

subsection \<open>Tenants\<close>

lemma tenant_count_inv:
  "tenants_inv s \<Longrightarrow> tenant_count s t = int (length (filter (\<lambda>(c, t'). t' = t) (controls s)))"
  by (auto simp: tenants_inv_def tenant_count_def Let_def)

lemma addControl_tenants:
  assumes "tenants_inv s" "kv_get (controls s) c = None"
  shows "tenants_inv (addControl s c token)"
  using assms(1) tenant_count_inv [OF assms(1)] length_filter_put_new [OF assms(2)]
  by (auto simp: tenants_inv_def addControl_def kv_get_put Let_def)

lemma removeControl_tenants:
  assumes "tenants_inv s" "kv_get (controls s) c = Some token"
    and "removeControl s c token = (ls, ps, s')"
  shows "tenants_inv s'"
proof -
  let ?n = "\<lambda>m t. length (filter (\<lambda>(c, t'). t' = t) m)"
  have ok: "kv_ok (controls s)" using assms(1) by (simp add: tenants_inv_def)
  have n: "?n (controls s) t = ?n (kv_del c (controls s)) t + (if t = token then 1 else 0)" for t
    using length_filter_del [OF ok assms(2), of "\<lambda>(c, t'). t' = t"] by auto
  have s': "controls s' = kv_del c (controls s)"
    "tenants s' = (if tenant_count s token - 1 = 0 then kv_del token (tenants s)
       else kv_put token (tenant_count s token - 1) (tenants s))"
    using assms(3) by (auto simp: removeControl_def Let_def)
  show ?thesis
    using assms(1) n tenant_count_inv [OF assms(1), of token]
    by (auto simp: tenants_inv_def s' kv_get_put kv_get_del Let_def)
qed

text \<open>The other operations leave the sessions and the tenants alone.\<close>

lemma registerCommit_frame:
  "registerCommit s c token m = (e, s') \<Longrightarrow>
   controls s' = controls s \<and> tenants s' = tenants s \<and> pending s' = pending s \<and> nextStream s' = nextStream s"
  by (auto simp: registerCommit_def Let_def split: if_splits)

lemma unregister_frame:
  "unregisterIntercept s c token i = (l, s') \<Longrightarrow>
   controls s' = controls s \<and> tenants s' = tenants s \<and> pending s' = pending s \<and> nextStream s' = nextStream s"
  by (auto simp: unregisterIntercept_def split: option.splits if_splits)

lemma takePendingFor_frame:
  "takePendingFor s token i = (p, s') \<Longrightarrow>
   controls s' = controls s \<and> tenants s' = tenants s \<and> listeners s' = listeners s \<and> nextStream s' = nextStream s"
  by (auto simp: takePendingFor_def takePending_def split: option.splits if_splits)

lemma handleAccept_serve:
  "handleAccept s token r e = (AcceptServe p, s') \<Longrightarrow>
   \<exists>i. takePendingFor s token i = (Some p, s') \<and> tenantActive s token"
  by (auto simp: handleAccept_def split: if_splits sum.splits prod.splits option.splits)

lemma announce_frame:
  "controls (snd (announceStream s l t n e)) = controls s"
  "tenants (snd (announceStream s l t n e)) = tenants s"
  "listeners (snd (announceStream s l t n e)) = listeners s"
  "nextStream (snd (announceStream s l t n e)) = nextStream s + 1"
  by (simp_all add: announceStream_def offerPending_def takePending_def Let_def split: option.splits)

lemma announce_pending:
  "kv_get (pending (snd (announceStream s l t n e))) i = Some p \<Longrightarrow>
   kv_get (pending s) i = Some p \<or>
   (i = nextStream s + 1 \<and> p = \<lparr>p_id = i, p_token = t, p_network = n\<rparr>)"
  by (auto simp: announceStream_def offerPending_def takePending_def Let_def kv_simps
      split: option.splits if_splits)

lemma tenants_inv_cong:
  "controls s' = controls s \<Longrightarrow> tenants s' = tenants s \<Longrightarrow> tenants_inv s' = tenants_inv s"
  by (simp add: tenants_inv_def)

lemma gw_step_tenants: "gw_step g g' \<Longrightarrow> tenants_inv (srv g) \<Longrightarrow> tenants_inv (srv g')"
proof (induction rule: gw_step.induct)
  case (connect g c token)
  then show ?case by (simp add: addControl_tenants)
next
  case (disconnect g c token ls ps s')
  then show ?case using removeControl_tenants by simp
next
  case (accept g token r p s')
  then show ?case
    by (metis handleAccept_serve takePendingFor_frame tenants_inv_cong gwsys.select_convs(1)
        gwsys.surjective gwsys.update_convs(1,6))
qed (auto dest!: registerCommit_frame unregister_frame simp: announce_frame takePending_def
     elim: tenants_inv_cong [THEN iffD2, rotated 2])

subsection \<open>Listeners and sockets\<close>

lemma listeners_inv_same:
  assumes "listeners_inv g"
    and "listeners (srv g') = listeners (srv g)" "controls (srv g') = controls (srv g)"
    and "socks g' = socks g" "inflight g' = inflight g" "closing g' = closing g"
  shows "listeners_inv g'"
  using assms by (simp add: listeners_inv_def)

lemma listeners_connect:
  assumes "listeners_inv g" "kv_get (controls (srv g)) c = None"
  shows "listeners_inv (g\<lparr>srv := addControl (srv g) c token\<rparr>)"
  using assms unfolding listeners_inv_def
  by (simp add: addControl_def kv_simps) (metis option.discI)

lemma listeners_check:
  assumes "listeners_inv g" "kv_get (controls (srv g)) c = Some token" "kv_get (inflight g) c = None"
  shows "listeners_inv (g\<lparr>inflight := kv_put c (Checked m) (inflight g)\<rparr>)"
  using assms unfolding listeners_inv_def by (simp add: kv_simps)

lemma listeners_listen:
  assumes "listeners_inv g" "kv_get (inflight g) c = Some (Checked m)" "kv_get (socks g) (msg_sock m) = None"
  shows "listeners_inv (g\<lparr>socks := kv_put (msg_sock m) (c, InterceptID m) (socks g),
                  inflight := kv_put c (Listening m) (inflight g)\<rparr>)"
proof -
  from assms(1,3) have "msg_sock m \<notin> set (closing g)"
    "kv_get (listeners (srv g)) k = Some l \<Longrightarrow> l_sock l \<noteq> msg_sock m" for k l
    unfolding listeners_inv_def by (blast, metis option.discI surj_pair)
  moreover from assms(1,3) have "kv_get (inflight g) c' = Some (Listening m') \<Longrightarrow> msg_sock m' \<noteq> msg_sock m" for c' m'
    unfolding listeners_inv_def by (metis option.discI)
  moreover from assms(1,2) have "kv_get (controls (srv g)) c \<noteq> None"
    unfolding listeners_inv_def by blast
  ultimately show ?thesis using assms unfolding listeners_inv_def by (simp add: kv_simps) blast
qed

lemma listeners_drop_inflight:
  assumes "listeners_inv g"
  shows "listeners_inv (g\<lparr>inflight := kv_del c (inflight g)\<rparr>)"
  using assms unfolding listeners_inv_def by (simp add: kv_simps)

lemma listeners_close_socket:
  assumes "listeners_inv g" "np \<in> set (closing g)"
  shows "listeners_inv (g\<lparr>socks := kv_del np (socks g), closing := removeAll np (closing g)\<rparr>)"
  using assms unfolding listeners_inv_def by (simp add: kv_simps) metis

lemma listeners_commit:
  assumes inv: "listeners_inv g" and fl: "kv_get (inflight g) c = Some (Listening m)"
    and tok: "kv_get (controls (srv g)) c = Some token"
    and com: "registerCommit (srv g) c token m = (None, s')"
  shows "listeners_inv (g\<lparr>srv := s', inflight := kv_del c (inflight g)\<rparr>)"
proof -
  let ?l = "\<lparr>l_id = InterceptID m, l_network = Network m, l_port = ListenPort m, l_control = c\<rparr>"
  from com have s': "listeners s' = kv_put (token, InterceptID m) ?l (listeners (srv g))"
    "controls s' = controls (srv g)"
    by (auto simp: registerCommit_def Let_def split: if_splits)
  from inv fl have m: "kv_get (socks g) (msg_sock m) = Some (c, InterceptID m)"
    "msg_sock m \<notin> set (closing g)"
    unfolding listeners_inv_def by blast+
  have other: "msg_sock m \<noteq> msg_sock m'" if "kv_get (inflight g) c' = Some (Listening m')" "c' \<noteq> c" for c' m'
  proof -
    from inv that(1) have "kv_get (socks g) (msg_sock m') = Some (c', InterceptID m')"
      unfolding listeners_inv_def by blast
    with m(1) that(2) show ?thesis by auto
  qed
  show ?thesis using inv m tok other unfolding listeners_inv_def
    by (simp add: s' kv_simps)
qed

lemma listeners_dup:
  assumes inv: "listeners_inv g" and fl: "kv_get (inflight g) c = Some (Listening m)"
    and com: "registerCommit (srv g) c token m = (Some e, s')"
  shows "listeners_inv (g\<lparr>srv := s', inflight := kv_del c (inflight g), closing := msg_sock m # closing g\<rparr>)"
proof -
  from com have s': "s' = srv g" by (auto simp: registerCommit_def Let_def split: if_splits)
  from inv fl have m: "kv_get (socks g) (msg_sock m) = Some (c, InterceptID m)"
    "\<forall>k l. kv_get (listeners (srv g)) k = Some l \<longrightarrow> l_sock l \<noteq> msg_sock m"
    unfolding listeners_inv_def by blast+
  have other: "msg_sock m' \<noteq> msg_sock m" if "kv_get (inflight g) c' = Some (Listening m')" "c' \<noteq> c" for c' m'
  proof -
    from inv that(1) have "kv_get (socks g) (msg_sock m') = Some (c', InterceptID m')"
      unfolding listeners_inv_def by blast
    with m(1) that(2) show ?thesis by auto
  qed
  show ?thesis using inv m other unfolding listeners_inv_def
    by (simp add: s' kv_simps)
qed

text \<open>The table without some listeners, their sockets handed over to be closed.\<close>

lemma listeners_remove:
  assumes inv: "listeners_inv g"
    and ls: "listeners s' = filter (\<lambda>x. \<not> P x) (listeners (srv g))"
    and cs: "\<And>t i l c. kv_get (listeners (srv g)) (t, i) = Some l \<Longrightarrow> \<not> P ((t, i), l) \<Longrightarrow>
               kv_get (controls s') (l_control l) = kv_get (controls (srv g)) (l_control l)"
    and fl: "\<And>c. kv_get (inflight g) c \<noteq> None \<Longrightarrow> kv_get (controls s') c = kv_get (controls (srv g)) c"
    and cl: "set nps = {l_sock l | k l. (k, l) \<in> set (listeners (srv g)) \<and> P (k, l)}"
  shows "listeners_inv (g\<lparr>srv := s', closing := nps @ closing g\<rparr>)"
proof -
  have ok: "kv_ok (listeners (srv g))" using inv by (simp add: listeners_inv_def)
  have get: "kv_get (listeners s') k = Some l \<longleftrightarrow> kv_get (listeners (srv g)) k = Some l \<and> \<not> P (k, l)" for k l
    by (simp add: ls kv_get_filter ok)
  have np: "np \<in> set nps \<longleftrightarrow> (\<exists>t i l. kv_get (listeners (srv g)) (t, i) = Some l \<and> P ((t, i), l) \<and> np = l_sock l)" for np
    by (auto simp: cl kv_get_mem [OF ok])
  have sock: "kv_get (socks g) (l_sock l) = Some (l_control l, i) \<and> kv_get (controls (srv g)) (l_control l) = Some t"
    if "kv_get (listeners (srv g)) (t, i) = Some l" for t i l
    using inv that unfolding listeners_inv_def by blast
  have uniq: "(t, i) = (t', i')"
    if "kv_get (listeners (srv g)) (t, i) = Some l" "kv_get (listeners (srv g)) (t', i') = Some l'"
      "l_sock l = l_sock l'" for t i l t' i' l'
    using sock [OF that(1)] sock [OF that(2)] that(3) by auto
  have a: "l_sock l \<notin> set nps" if "kv_get (listeners s') (t, i) = Some l" for t i l
    using that uniq unfolding get np by (metis option.inject)
  have b: "msg_sock m \<notin> set nps" if "kv_get (inflight g) c = Some (Listening m)" for c m
    using that inv unfolding np listeners_inv_def by metis
  have c: "kv_get (socks g) x \<noteq> None" if "x \<in> set nps" for x
    using that sock unfolding np by (metis option.discI)
  let ?g = "g\<lparr>srv := s', closing := nps @ closing g\<rparr>"
  have "kv_ok (listeners (srv ?g)) \<and> kv_ok (socks ?g) \<and> kv_ok (inflight ?g)"
    using inv ok by (simp add: ls listeners_inv_def)
  moreover have "l_id l = i \<and> kv_get (controls (srv ?g)) (l_control l) = Some t \<and>
        kv_get (socks ?g) (l_sock l) = Some (l_control l, i) \<and> l_sock l \<notin> set (closing ?g)"
    if "kv_get (listeners (srv ?g)) (t, i) = Some l" for t i l
  proof -
    from that have l: "kv_get (listeners (srv g)) (t, i) = Some l" "\<not> P ((t, i), l)" by (simp_all add: get)
    from inv l(1) have "l_id l = i" "l_sock l \<notin> set (closing g)" unfolding listeners_inv_def by blast+
    with sock [OF l(1)] cs [OF l] a that show ?thesis by simp
  qed
  moreover have "kv_get (controls (srv ?g)) c \<noteq> None"
    if "kv_get (inflight ?g) c = Some ph" for c ph
  proof -
    from that inv have "kv_get (controls (srv g)) c \<noteq> None"
      by (cases ph) (auto simp: listeners_inv_def)
    with fl that show ?thesis by simp
  qed
  moreover have "kv_get (socks ?g) (msg_sock m) = Some (c, InterceptID m) \<and> msg_sock m \<notin> set (closing ?g) \<and>
        (\<forall>k l. kv_get (listeners (srv ?g)) k = Some l \<longrightarrow> l_sock l \<noteq> msg_sock m)"
    if "kv_get (inflight ?g) c = Some (Listening m)" for c m
  proof -
    from that inv have "kv_get (socks g) (msg_sock m) = Some (c, InterceptID m)" "msg_sock m \<notin> set (closing g)"
      "\<forall>k l. kv_get (listeners (srv g)) k = Some l \<longrightarrow> l_sock l \<noteq> msg_sock m"
      unfolding listeners_inv_def by auto
    with b that get show ?thesis by simp blast
  qed
  moreover have "\<forall>np \<in> set (closing ?g). kv_get (socks ?g) np \<noteq> None"
    using c inv by (auto simp: listeners_inv_def)
  ultimately show ?thesis unfolding listeners_inv_def [of ?g] by blast
qed

lemma listeners_unregister:
  assumes inv: "listeners_inv g"
    and un: "unregisterIntercept (srv g) c token i = (Some l, s')"
  shows "listeners_inv (g\<lparr>srv := s', closing := l_sock l # closing g\<rparr>)"
proof -
  have ok: "kv_ok (listeners (srv g))" using inv by (simp add: listeners_inv_def)
  from un have l: "kv_get (listeners (srv g)) (token, i) = Some l"
    and s': "s' = (srv g)\<lparr>listeners := kv_del (token, i) (listeners (srv g))\<rparr>"
    by (auto simp: unregisterIntercept_def split: option.splits if_splits)
  have "listeners_inv (g\<lparr>srv := s', closing := [l_sock l] @ closing g\<rparr>)"
    by (rule listeners_remove [OF inv, where P = "\<lambda>x. fst x = (token, i)"])
       (use l in \<open>auto simp: s' kv_del_filter kv_get_mem [OF ok] dest: eq_key_imp_eq_value [OF ok [unfolded kv_ok_def]]\<close>)
  then show ?thesis by simp
qed

lemma listeners_disconnect:
  assumes inv: "listeners_inv g" and fl: "kv_get (inflight g) c = None"
    and rm: "removeControl (srv g) c token = (ls, ps, s')"
  shows "listeners_inv (g\<lparr>srv := s', closing := map l_sock ls @ closing g\<rparr>)"
proof -
  from rm have s': "listeners s' = filter (\<lambda>x. \<not> (case x of (k, l) \<Rightarrow> l_control l = c)) (listeners (srv g))"
    "controls s' = kv_del c (controls (srv g))"
    "ls = map snd (filter (\<lambda>(k, l). l_control l = c) (listeners (srv g)))"
    by (auto simp: removeControl_def Let_def intro: filter_cong)
  have "set (map l_sock ls) = {l_sock l | k l. (k, l) \<in> set (listeners (srv g)) \<and>
      (case (k, l) of (k, l) \<Rightarrow> l_control l = c)}"
    by (force simp: s'(3))
  then show ?thesis
    by (rule listeners_remove [OF inv s'(1), rotated -1]) (use fl in \<open>auto simp: s'(2) kv_simps\<close>)
qed

lemma gw_step_listeners: "gw_step g g' \<Longrightarrow> listeners_inv g \<Longrightarrow> listeners_inv g'"
proof (induction rule: gw_step.induct)
  case (accept g token r p s')
  then obtain i where "takePendingFor (srv g) token i = (Some p, s')" using handleAccept_serve by blast
  from takePendingFor_frame [OF this] accept show ?case
    by (intro listeners_inv_same [OF accept.prems]) simp_all
next
  case (inbound g l token network replyErr)
  then show ?case by (intro listeners_inv_same [OF inbound]) (simp_all add: announce_frame)
next
  case (expire g i)
  then show ?case by (intro listeners_inv_same [OF expire]) (simp_all add: takePending_def)
qed (blast intro: listeners_connect listeners_check listeners_listen listeners_drop_inflight
       listeners_commit listeners_dup listeners_unregister listeners_disconnect listeners_close_socket)+

subsection \<open>Streams\<close>

lemma streams_same_pending:
  assumes "streams_inv g" "pending (srv g') = pending (srv g)" "nextStream (srv g') = nextStream (srv g)"
    "offered g' = offered g" "delivered g' = delivered g"
  shows "streams_inv g'"
  using assms by (simp add: streams_inv_def)

lemma streams_fewer_pending:
  assumes inv: "streams_inv g" and ok: "kv_ok (pending s')"
    and sub: "\<And>i p. kv_get (pending s') i = Some p \<Longrightarrow> kv_get (pending (srv g)) i = Some p"
    and ns: "nextStream s' = nextStream (srv g)"
  shows "streams_inv (g\<lparr>srv := s', closing := cl\<rparr>)"
proof -
  have "kv_get (pending (srv g)) i = None \<Longrightarrow> kv_get (pending s') i = None" for i
    using sub [of i] by (cases "kv_get (pending s') i") auto
  with inv ok sub ns show ?thesis unfolding streams_inv_def by simp
qed

lemma streams_inbound:
  assumes inv: "streams_inv g"
  shows "streams_inv (g\<lparr>srv := snd (announceStream (srv g) l t n e),
            offered := (nextStream (srv g) + 1, t) # offered g\<rparr>)" (is "streams_inv ?g")
proof -
  let ?i = "nextStream (srv g) + 1"
  have "kv_ok (pending (srv ?g))"
    using inv by (simp add: streams_inv_def announceStream_def offerPending_def takePending_def Let_def
        split: option.splits)
  moreover have "p_id p = i \<and> (i, p_token p) \<in> set (offered ?g)"
    if "kv_get (pending (srv ?g)) i = Some p" for i p
    using announce_pending [of "srv g" l t n e i p] that inv by (auto simp: streams_inv_def)
  moreover have "set (delivered ?g) \<subseteq> set (offered ?g)" using inv by (auto simp: streams_inv_def)
  moreover have "unat (nextStream (srv ?g)) = length (offered ?g) \<and>
        (\<forall>(i, t) \<in> set (offered ?g). unat i \<le> length (offered ?g)) \<and>
        distinct (map fst (offered ?g)) \<and> distinct (map fst (delivered ?g)) \<and>
        (\<forall>i t. (i, t) \<in> set (delivered ?g) \<longrightarrow> kv_get (pending (srv ?g)) i = None)"
    if len: "length (offered ?g) < 2 ^ 64"
  proof -
    from len inv have ns: "unat (nextStream (srv g)) = length (offered g)"
      and le: "\<forall>(i, t) \<in> set (offered g). unat i \<le> length (offered g)"
      and d: "distinct (map fst (offered g))" "distinct (map fst (delivered g))"
      and sub: "set (delivered g) \<subseteq> set (offered g)"
      and dp: "\<forall>i t. (i, t) \<in> set (delivered g) \<longrightarrow> kv_get (pending (srv g)) i = None"
      unfolding streams_inv_def by auto
    have i: "unat ?i = Suc (length (offered g))"
      using ns len by (simp add: unat_word_ariths)
    have fresh: "?i \<notin> fst ` set (offered g)" using le i by fastforce
    moreover have "kv_get (pending (snd (announceStream (srv g) l t n e))) j = None"
      if j: "(j, t') \<in> set (delivered g)" for j t'
    proof (rule ccontr)
      assume "\<not> ?thesis"
      then obtain p where "kv_get (pending (snd (announceStream (srv g) l t n e))) j = Some p" by blast
      from announce_pending [OF this] dp j have "j = ?i" by auto
      moreover have "(j, t') \<in> set (offered g)" using sub j by blast
      ultimately show False using fresh by force
    qed
    ultimately show ?thesis using i d le by (fastforce simp: announce_frame)
  qed
  ultimately show ?thesis unfolding streams_inv_def [of ?g] by blast
qed

lemma streams_accept:
  assumes inv: "streams_inv g" and tk: "takePendingFor (srv g) t i = (Some p, s')"
  shows "streams_inv (g\<lparr>srv := s', delivered := (p_id p, t) # delivered g\<rparr>)"
proof -
  from tk have p: "kv_get (pending (srv g)) i = Some p" "p_token p = t"
    "s' = (srv g)\<lparr>pending := kv_del i (pending (srv g))\<rparr>"
    by (auto simp: takePendingFor_def takePending_def split: option.splits if_splits)
  from inv p have pid: "p_id p = i" "(i, t) \<in> set (offered g)" unfolding streams_inv_def by auto
  have "i \<notin> fst ` set (delivered g)" if "length (offered g) < 2 ^ 64"
    using inv that p(1) unfolding streams_inv_def by force
  with inv pid show ?thesis unfolding streams_inv_def by (auto simp: p(3) kv_simps)
qed

lemma gw_step_streams: "gw_step g g' \<Longrightarrow> streams_inv g \<Longrightarrow> streams_inv g'"
proof (induction rule: gw_step.induct)
  case (connect g c token)
  then show ?case by (intro streams_same_pending [OF connect.prems]) (simp_all add: addControl_def)
next
  case (reg_commit g c m token s')
  from registerCommit_frame [OF this(3)] show ?case
    by (intro streams_same_pending [OF reg_commit.prems]) simp_all
next
  case (reg_dup g c m token e s')
  from registerCommit_frame [OF this(3)] show ?case
    by (intro streams_same_pending [OF reg_dup.prems]) simp_all
next
  case (unregister g c token i l s')
  from unregister_frame [OF this(3)] show ?case
    by (intro streams_same_pending [OF unregister.prems]) simp_all
next
  case (disconnect g c token ls ps s')
  have ok: "kv_ok (pending (srv g))" using disconnect.prems by (simp add: streams_inv_def)
  from disconnect(3) ok show ?case
    by (intro streams_fewer_pending [OF disconnect.prems])
       (auto simp: removeControl_def Let_def kv_get_filter split: if_splits)
next
  case (accept g token r p s')
  then show ?case using handleAccept_serve streams_accept by blast
next
  case (inbound g l token network replyErr)
  then show ?case by (rule streams_inbound)
next
  case (expire g i)
  have ok: "kv_ok (pending (srv g))" using expire by (simp add: streams_inv_def)
  have "streams_inv (g\<lparr>srv := snd (takePending (srv g) i), closing := closing g\<rparr>)"
    by (rule streams_fewer_pending [OF expire]) (use ok in \<open>auto simp: takePending_def kv_simps split: if_splits\<close>)
  then show ?case by simp
qed (auto simp: streams_inv_def)

subsection \<open>Every reachable state\<close>

interpretation gw: inv_system gw_init gw_step gw_inv
proof unfold_locales
  fix g assume "gw_init g"
  then show "gw_inv g"
    by (simp add: gw_init_def gw_inv_def tenants_inv_def listeners_inv_def streams_inv_def NewServer_def)
next
  fix g g' assume "gw_inv g" "gw_step g g'"
  then show "gw_inv g'"
    by (simp add: gw_inv_def gw_step_tenants gw_step_listeners gw_step_streams)
qed

text \<open>
  In every reachable state of the Gateway a tenant is active exactly while one of its
  control sessions is connected, and every reverse listener belongs to a connected control
  session of the tenant it is filed under.
\<close>

theorem gateway_tenant_accounting:
  assumes "reach gw_init gw_step g"
  shows "(tenantActive (srv g) t \<longleftrightarrow> (\<exists>c. kv_get (controls (srv g)) c = Some t)) \<and>
    (kv_get (listeners (srv g)) (t, i) = Some l \<longrightarrow>
       l_id l = i \<and> kv_get (controls (srv g)) (l_control l) = Some t)"
proof -
  from gw.reach_inv [OF assms] have inv: "tenants_inv (srv g)" "listeners_inv g"
    by (simp_all add: gw_inv_def)
  have "kv_ok (controls (srv g))" using inv(1) by (simp add: tenants_inv_def)
  then have "tenantActive (srv g) t \<longleftrightarrow> (\<exists>c. kv_get (controls (srv g)) c = Some t)"
    by (auto simp: tenantActive_def tenant_count_inv [OF inv(1)] kv_get_mem filter_empty_conv)
  moreover from inv(2) have "kv_get (listeners (srv g)) (t, i) = Some l \<longrightarrow>
       l_id l = i \<and> kv_get (controls (srv g)) (l_control l) = Some t"
    unfolding listeners_inv_def by blast
  ultimately show ?thesis by blast
qed

text \<open>
  Two reverse listeners never share a network and a port, in any reachable state and
  whichever tenants they belong to, although the port is checked and inserted in two
  separate critical sections.
\<close>

theorem gateway_port_exclusive:
  assumes "reach gw_init gw_step g"
    and "kv_get (listeners (srv g)) k = Some l" and "kv_get (listeners (srv g)) k' = Some l'"
    and "l_network l = l_network l'" and "l_port l = l_port l'"
  shows "k = k'"
proof -
  from gw.reach_inv [OF assms(1)] have inv: "listeners_inv g" by (simp add: gw_inv_def)
  obtain t i t' i' where k: "k = (t, i)" "k' = (t', i')" by (cases k, cases k') simp
  from inv assms(2,3) have
    "kv_get (socks g) (l_sock l) = Some (l_control l, i)" "kv_get (controls (srv g)) (l_control l) = Some t"
    "kv_get (socks g) (l_sock l') = Some (l_control l', i')" "kv_get (controls (srv g)) (l_control l') = Some t'"
    unfolding listeners_inv_def k by blast+
  with assms(4,5) show ?thesis by (auto simp: k)
qed

text \<open>
  C36. Streams are isolated between tenants: a stream is delivered at most once, and only
  to the tenant it was offered for, in every run of fewer than \<open>2 ^ 64\<close> inbound
  streams.
\<close>

theorem gateway_stream_isolation:
  assumes "reach gw_init gw_step g" and "length (offered g) < 2 ^ 64"
  shows "distinct (map fst (delivered g)) \<and>
    ((i, t) \<in> set (delivered g) \<longrightarrow> (i, t) \<in> set (offered g) \<and> (\<forall>t'. (i, t') \<in> set (offered g) \<longrightarrow> t' = t))"
proof -
  from gw.reach_inv [OF assms(1)] have "streams_inv g" by (simp add: gw_inv_def)
  with assms(2) have d: "distinct (map fst (delivered g))" "distinct (map fst (offered g))"
    "set (delivered g) \<subseteq> set (offered g)"
    unfolding streams_inv_def by blast+
  then show ?thesis by (auto dest: eq_key_imp_eq_value)
qed

section \<open>A concrete run\<close>

text \<open>One tenant connects, registers a TCP listener, and takes a stream opened on it.\<close>

definition ex_register :: ControlMessage where
  "ex_register = (ctrl_message CtrlRegister)\<lparr>InterceptID := ''web'', Network := NetworkTCP, ListenPort := 31080\<rparr>"

definition ex_listener :: interceptListener where
  "ex_listener = \<lparr>l_id = ''web'', l_network = NetworkTCP, l_port = 31080, l_control = 7\<rparr>"

definition ex_stream :: pendingStream where
  "ex_stream = \<lparr>p_id = 1, p_token = ex_token, p_network = NetworkTCP\<rparr>"

definition ex_connected :: gwsys where
  "ex_connected = \<lparr>srv = addControl NewServer 7 ex_token, socks = [], inflight = [], closing = [],
     offered = [], delivered = []\<rparr>"

definition ex_listening :: gwsys where
  "ex_listening = ex_connected\<lparr>srv := (srv ex_connected)\<lparr>listeners := [((ex_token, ''web''), ex_listener)]\<rparr>,
     socks := [((NetworkTCP, 31080), (7, ''web''))]\<rparr>"

definition ex_served :: gwsys where
  "ex_served = ex_listening\<lparr>offered := [(1, ex_token)],
     srv := (srv ex_listening)\<lparr>nextStream := 1\<rparr>, delivered := [(1, ex_token)]\<rparr>"

lemma reach_ex_connected: "reach gw_init gw_step ex_connected"
proof -
  have "gw_init \<lparr>srv = NewServer, socks = [], inflight = [], closing = [], offered = [], delivered = []\<rparr>" (is "gw_init ?g")
    by (simp add: gw_init_def)
  then have "reach gw_init gw_step ?g" by (rule reach.intros)
  moreover have "gw_step ?g ex_connected"
    using gw_step.connect [of ?g 7 ex_token] by (simp add: ex_connected_def NewServer_def kv_get_def)
  ultimately show ?thesis by (rule reach.intros)
qed

lemma reach_ex_listening: "reach gw_init gw_step ex_listening"
proof -
  let ?g1 = "ex_connected\<lparr>inflight := kv_put 7 (Checked ex_register) (inflight ex_connected)\<rparr>"
  let ?g2 = "?g1\<lparr>socks := kv_put (msg_sock ex_register) (7, InterceptID ex_register) (socks ?g1),
                  inflight := kv_put 7 (Listening ex_register) (inflight ?g1)\<rparr>"
  have c: "kv_get (controls (srv ex_connected)) 7 = Some ex_token"
    by (simp add: ex_connected_def addControl_def NewServer_def kv_simps)
  have "gw_step ex_connected ?g1"
    by (rule gw_step.reg_check [OF c])
       (simp_all add: ex_connected_def registerCheck_def addControl_def NewServer_def ex_register_def kv_get_def
         ctrl_message_def)
  moreover have "gw_step ?g1 ?g2"
    by (rule gw_step.reg_listen)
       (simp_all add: ex_connected_def registerListen_def ex_register_def kv_get_def kv_put_def ctrl_message_def)
  moreover have "gw_step ?g2 ex_listening"
  proof -
    have "registerCommit (srv ?g2) 7 ex_token ex_register = (None, (srv ex_connected)\<lparr>listeners := [((ex_token, ''web''), ex_listener)]\<rparr>)"
      by (simp add: registerCommit_def ex_connected_def addControl_def NewServer_def kv_get_def kv_put_def
          ex_register_def ex_listener_def ctrl_message_def)
    from gw_step.reg_commit [OF _ _ this] c show ?thesis
      by (simp add: ex_listening_def ex_connected_def kv_get_def kv_put_def kv_del_def ex_register_def ctrl_message_def)
  qed
  ultimately show ?thesis using reach_ex_connected by (meson reach.intros)
qed

lemma reach_ex_served: "reach gw_init gw_step ex_served"
proof -
  let ?s = "snd (announceStream (srv ex_listening) ex_listener ex_token NetworkTCP None)"
  let ?g1 = "ex_listening\<lparr>srv := ?s, offered := [(1, ex_token)]\<rparr>"
  have n: "nextStream (srv ex_listening) = 0" "offered ex_listening = []" "delivered ex_listening = []"
    "pending (srv ex_listening) = []" "tenants (srv ex_listening) = [(ex_token, 1)]"
    by (simp_all add: ex_listening_def ex_connected_def addControl_def NewServer_def tenant_count_def kv_get_def kv_put_def)
  have s: "?s = (srv ex_listening)\<lparr>nextStream := 1, pending := [(1, ex_stream)]\<rparr>"
    by (simp add: announceStream_def offerPending_def n kv_get_def kv_put_def ex_stream_def)
  have "gw_step ex_listening ?g1"
    using gw_step.inbound [where g = ex_listening and l = ex_listener and token = ex_token and network = NetworkTCP and replyErr = None] by (simp add: n)
  moreover have "gw_step ?g1 ex_served"
  proof -
    have r: "ReadAcceptStreamID (put_u64 1) = Inr (1, [])"
      by code_simp
    have "handleAccept (srv ?g1) ex_token (put_u64 1) None = (AcceptServe ex_stream, (srv ex_listening)\<lparr>nextStream := 1\<rparr>)"
      by (simp add: handleAccept_def s tenantActive_def tenant_count_def n takePendingFor_def takePending_def
          kv_get_def kv_del_def ex_stream_def r)
    from gw_step.accept [OF this] show ?thesis by (simp add: ex_served_def ex_stream_def n)
  qed
  ultimately show ?thesis using reach_ex_listening by (meson reach.intros)
qed

theorem gateway_tenant_accounting_witness:
  "tenantActive (srv ex_listening) ex_token \<and> l_control ex_listener = 7 \<and>
   kv_get (controls (srv ex_listening)) 7 = Some ex_token"
proof -
  have "kv_get (listeners (srv ex_listening)) (ex_token, ''web'') = Some ex_listener"
    by (simp add: ex_listening_def kv_get_def)
  then show ?thesis
    using gateway_tenant_accounting [OF reach_ex_listening, of ex_token "''web''" ex_listener]
    by (auto simp: ex_listener_def)
qed

theorem gateway_port_exclusive_witness:
  "kv_get (listeners (srv ex_listening)) (ex_token, ''web'') = Some ex_listener \<and>
   {k. \<exists>l. kv_get (listeners (srv ex_listening)) k = Some l \<and> l_port l = 31080 \<and> l_network l = NetworkTCP}
     \<subseteq> {(ex_token, ''web'')}"
proof
  show l: "kv_get (listeners (srv ex_listening)) (ex_token, ''web'') = Some ex_listener"
    by (simp add: ex_listening_def kv_get_def)
  show "{k. \<exists>l. kv_get (listeners (srv ex_listening)) k = Some l \<and> l_port l = 31080 \<and> l_network l = NetworkTCP}
     \<subseteq> {(ex_token, ''web'')}"
    using gateway_port_exclusive [OF reach_ex_listening _ l] by (auto simp: ex_listener_def)
qed

theorem gateway_stream_isolation_witness:
  "(1, ex_token) \<in> set (delivered ex_served) \<and> (1, ex_token) \<in> set (offered ex_served) \<and>
   distinct (map fst (delivered ex_served))"
proof -
  have "(1, ex_token) \<in> set (delivered ex_served)" "length (offered ex_served) < 2 ^ 64"
    by (simp_all add: ex_served_def)
  then show ?thesis
    using gateway_stream_isolation [OF reach_ex_served, of 1 ex_token] by blast
qed

section \<open>Handlers\<close>

lemma ReadSessionHeader_bytes:
  "token_ok t \<Longrightarrow> HeaderBytes \<lparr>hdr_Command = c, hdr_Token = t\<rparr> = Inr hb \<Longrightarrow>
   ReadSessionHeader (hb @ rest) = Inr (\<lparr>hdr_Command = c, hdr_Token = t\<rparr>, rest)"
  by (rule hdr.round) (simp add: frame_ok_def)

lemma AcceptBytes_Inr:
  "AcceptBytes i t = Inr bs \<longleftrightarrow>
   (\<exists>hb. HeaderBytes \<lparr>hdr_Command = CommandAccept, hdr_Token = t\<rparr> = Inr hb \<and> bs = hb @ put_u64 i)"
  by (auto simp: AcceptBytes_def HeaderBytes_def bindE_Inr_iff)

lemma ReadAcceptStreamID_put: "ReadAcceptStreamID (put_u64 i @ rest) = Inr (i, rest)"
  using read_full_append [of "put_u64 i" 8 rest] by (simp add: ReadAcceptStreamID_def)

lemma announce_Some:
  assumes "announceStream s l t n None = (Some m, s1)"
  shows "StreamID m = nextStream s + 1" "InterceptID m = l_id l" "Network m = n" "Type m = CtrlInboundReady"
    "kv_get (pending s) (StreamID m) = None"
    "s1 = s\<lparr>nextStream := StreamID m,
      pending := kv_put (StreamID m) \<lparr>p_id = StreamID m, p_token = t, p_network = n\<rparr> (pending s)\<rparr>"
  using assms by (auto simp: announceStream_def offerPending_def Let_def ctrl_message_def split: if_splits)

text \<open>The private ranges, written out: RFC 1918 and the unique local addresses.\<close>

definition private_v4 :: "nat \<Rightarrow> nat \<Rightarrow> bool" where
  "private_v4 a b \<longleftrightarrow> a = 10 \<or> (a = 172 \<and> 16 \<le> b \<and> b < 32) \<or> (a = 192 \<and> b = 168)"

lemma isClusterAddress_ranges:
  assumes "Unmap ip = ip"
  shows "isClusterAddress ip \<longleftrightarrow>
    (if Is4 ip then private_v4 (octet ip 0) (octet ip 1) else octet ip 0 = 0xFC \<or> octet ip 0 = 0xFD)"
proof -
  have v6: "\<not> Is4 ip \<Longrightarrow> addr_nat ip = 1 \<Longrightarrow> octet ip 0 = 0"
    by (cases ip) (simp_all add: octet_def)
  have "octet ip 0 div 2 = 126 \<longleftrightarrow> octet ip 0 = 252 \<or> octet ip 0 = 253" by linarith
  moreover have "octet ip 1 div 16 = 1 \<longleftrightarrow> 16 \<le> octet ip 1 \<and> octet ip 1 < 32" by linarith
  ultimately show ?thesis
    using v6 by (auto simp: isClusterAddress_def IsPrivate_def IsLoopback_def IsLinkLocalUnicast_def
        IsMulticast_def private_v4_def assms Let_def)
qed

lemma Unmap_idem [simp]: "Unmap (Unmap ip) = Unmap ip"
  by (cases ip) (auto simp: Let_def)

lemma resolvePrivate_Inr:
  "resolvePrivate lookup host port = Inr target \<Longrightarrow>
   \<exists>as ip. lookup host = Inr as \<and> ip \<in> Unmap ` set as \<and> isClusterAddress ip \<and>
     target = join_host_port (addr_string ip) (itoa (unat port))"
  by (auto simp: resolvePrivate_def find_Some_iff split: if_splits sum.splits option.splits)

text \<open>
  C37. An outbound tunnel never leaves the private networks. Whatever bytes a client sends
  and whatever the resolver answers, \<^verbatim>\<open>handle\<close> relays only for an active tenant, only for
  a request in the canonical encoding, and only to an address in 10/8, 172.16/12,
  192.168/16 or fc00::/7, on the port the request names.
\<close>

theorem handle_relays_private:
  assumes "handle s lookup dial client statusErr = (DoOutbound (OutRelay network target), s')"
  shows "\<exists>request ip rest. ReadOpen client = Inr (request, rest) \<and>
    (\<exists>t. tenantActive s t \<and> client = magic @ [Command request] @ t @ OpenBody request @ rest) \<and>
    network = (if Command request = CommandUDP then ''udp'' else ''tcp'') \<and>
    target = join_host_port (addr_string ip) (itoa (unat (Port request))) \<and>
    (if Is4 ip then private_v4 (octet ip 0) (octet ip 1) else octet ip 0 = 0xFC \<or> octet ip 0 = 0xFD)"
proof -
  from assms obtain header r request rest
    where h: "ReadSessionHeader client = Inr (header, r)"
      and t: "tenantActive s (hdr_Token header)"
      and b: "ReadOpenBody r (hdr_Command header) = Inr (request, rest)"
      and p: "resolvePrivate lookup (Host request) (Port request) = Inr target"
      and n: "network = (if Command request = CommandUDP then ''udp'' else ''tcp'')"
    by (auto simp: handle_def handleOutbound_def Let_def split: sum.splits prod.splits if_splits option.splits)
  from resolvePrivate_Inr [OF p] obtain ip where ip: "isClusterAddress ip" "Unmap ip = ip"
    "target = join_host_port (addr_string ip) (itoa (unat (Port request)))"
    by auto
  from hdr.canon [OF h] ReadOpenBody_canon [OF b]
  have "client = magic @ [Command request] @ hdr_Token header @ OpenBody request @ rest"
    by (auto simp: HeaderBytes_def appendSessionHeader_def split: if_splits)
  moreover have "ReadOpen client = Inr (request, rest)" by (simp add: ReadOpen_def h b)
  ultimately show ?thesis
    using t n ip(1) [unfolded isClusterAddress_ranges [OF ip(2)]] ip(3) by blast
qed

text \<open>
  C38. A stream reaches the desktop that is told about it: when the announcement of a new
  inbound stream goes out and the tenant answers with the stream number over
  \<^verbatim>\<open>WriteAccept\<close>, the Gateway connects that stream and takes it off the table.
\<close>

theorem inbound_stream_connects:
  assumes "announceStream s l t n None = (Some m, s1)" and "tenantActive s t" and "token_ok t"
    and "WriteAccept w (StreamID m) t = (None, w')"
  shows "\<exists>bs. w_out w' = w_out w @ bs \<and>
     handle s1 lookup dial (bs @ rest) None =
       (DoAccept (AcceptServe \<lparr>p_id = StreamID m, p_token = t, p_network = n\<rparr>),
        s1\<lparr>pending := kv_del (StreamID m) (pending s1)\<rparr>)"
proof -
  from send_res_None [OF assms(4) [unfolded WriteAccept_def]] obtain bs
    where bs: "AcceptBytes (StreamID m) t = Inr bs" "w_out w' = w_out w @ bs" by blast
  then obtain hb where hb: "HeaderBytes \<lparr>hdr_Command = CommandAccept, hdr_Token = t\<rparr> = Inr hb"
    "bs = hb @ put_u64 (StreamID m)" by (auto simp: AcceptBytes_Inr)
  have "tenantActive s1 t" using announce_Some(6) [OF assms(1)] assms(2)
    by (simp add: tenantActive_def tenant_count_def)
  moreover have "kv_get (pending s1) (StreamID m) = Some \<lparr>p_id = StreamID m, p_token = t, p_network = n\<rparr>"
    by (subst announce_Some(6) [OF assms(1)]) (simp add: kv_simps)
  ultimately have "handle s1 lookup dial (bs @ rest) None =
       (DoAccept (AcceptServe \<lparr>p_id = StreamID m, p_token = t, p_network = n\<rparr>),
        s1\<lparr>pending := kv_del (StreamID m) (pending s1)\<rparr>)"
    using ReadSessionHeader_bytes [OF assms(3) hb(1), of "put_u64 (StreamID m) @ rest"]
    by (simp add: hb(2) handle_def handleAccept_def ReadAcceptStreamID_put takePendingFor_def takePending_def)
  with bs(2) show ?thesis by blast
qed

text \<open>
  When the last control session of a tenant ends, nothing of the tenant is left: it is
  no longer active, none of its listeners and none of its pending streams remain, and what
  other tenants own is untouched.
\<close>

theorem gateway_disconnect_cleans:
  assumes "reach gw_init gw_step g" and "kv_get (controls (srv g)) c = Some t"
    and "\<And>c'. kv_get (controls (srv g)) c' = Some t \<Longrightarrow> c' = c"
    and "removeControl (srv g) c t = (ls, ps, s')"
  shows "\<not> tenantActive s' t \<and>
    (\<forall>i. kv_get (listeners s') (t, i) = None) \<and>
    (\<forall>i p. kv_get (pending s') i = Some p \<longrightarrow> p_token p \<noteq> t) \<and>
    (\<forall>t' i. t' \<noteq> t \<longrightarrow> kv_get (listeners s') (t', i) = kv_get (listeners (srv g)) (t', i)) \<and>
    (\<forall>i p. p_token p \<noteq> t \<longrightarrow> (kv_get (pending s') i = Some p \<longleftrightarrow> kv_get (pending (srv g)) i = Some p)) \<and>
    (\<forall>t'. t' \<noteq> t \<longrightarrow> tenantActive s' t' = tenantActive (srv g) t')"
proof -
  from gw.reach_inv [OF assms(1)] have inv: "tenants_inv (srv g)" "listeners_inv g" "streams_inv g"
    by (simp_all add: gw_inv_def)
  have ok: "kv_ok (controls (srv g))" "kv_ok (listeners (srv g))" "kv_ok (pending (srv g))" "kv_ok (tenants (srv g))"
    using inv by (simp_all add: tenants_inv_def listeners_inv_def streams_inv_def)
  have "length (filter (\<lambda>(c, t'). t' = t) (kv_del c (controls (srv g)))) = 0"
  proof -
    have "t' \<noteq> t" if "(c', t') \<in> set (kv_del c (controls (srv g)))" for c' t'
    proof -
      have "kv_get (kv_del c (controls (srv g))) c' = Some t'" using that ok(1) by (simp add: kv_get_mem)
      then have "c' \<noteq> c" "kv_get (controls (srv g)) c' = Some t'" by (auto simp: kv_simps split: if_splits)
      then show ?thesis using assms(3) by blast
    qed
    then show ?thesis by (auto simp: filter_empty_conv)
  qed
  with length_filter_del [OF ok(1) assms(2), of "\<lambda>(c, t'). t' = t"]
  have "tenant_count (srv g) t = 1" by (simp add: tenant_count_inv [OF inv(1)])
  with assms(4) have s': "tenants s' = kv_del t (tenants (srv g))"
    "listeners s' = filter (\<lambda>(k, l). l_control l \<noteq> c) (listeners (srv g))"
    "pending s' = filter (\<lambda>(i, p). p_token p \<noteq> t) (pending (srv g))"
    by (auto simp: removeControl_def Let_def)
  have own: "l_control l = c \<longleftrightarrow> t' = t" if "kv_get (listeners (srv g)) (t', i) = Some l" for t' i l
  proof -
    have "kv_get (controls (srv g)) (l_control l) = Some t'"
      using inv(2) that unfolding listeners_inv_def by blast
    then show ?thesis using assms(2) assms(3) [of "l_control l"] by auto
  qed
  have l: "kv_get (listeners s') (t', i) = Some l \<longleftrightarrow> kv_get (listeners (srv g)) (t', i) = Some l \<and> t' \<noteq> t" for t' i l
    using own [of t' i l] by (auto simp: s'(2) kv_get_filter [OF ok(2)])
  have "kv_get (listeners s') (t, i) = None" for i
    by (metis l not_None_eq)
  moreover have "kv_get (listeners s') (t', i) = kv_get (listeners (srv g)) (t', i)" if "t' \<noteq> t" for t' i
    using l [of t' i] that by (metis not_None_eq)
  moreover have "kv_get (pending s') i = Some p \<longleftrightarrow> kv_get (pending (srv g)) i = Some p \<and> p_token p \<noteq> t" for i p
    by (simp add: s'(3) kv_get_filter [OF ok(3)])
  moreover have "tenant_count s' t' = (if t' = t then 0 else tenant_count (srv g) t')" for t'
    by (simp add: tenant_count_def s'(1) kv_simps)
  then have "tenantActive s' t' \<longleftrightarrow> t' \<noteq> t \<and> tenantActive (srv g) t'" for t'
    by (simp add: tenantActive_def)
  ultimately show ?thesis by blast
qed

subsection \<open>Witnesses\<close>

definition ex_client :: "byte list" where
  "ex_client = magic @ [CommandTCP] @ ex_token @ OpenBody ex_open"

definition ex_lookup :: "string \<Rightarrow> addr list res" where
  "ex_lookup host = (if host = ''db'' then Inr [V4 0x08080808, V4 0x0A000005] else Inl (Errorf ''no such host''))"

definition ex_dial :: "string \<Rightarrow> string \<Rightarrow> goerr option" where
  "ex_dial network target = None"

lemma ex_resolve: "resolvePrivate ex_lookup ''db'' 5432 = Inr ''10.0.0.5:5432''"
proof -
  have "isClusterAddress (V4 0x0A000005)" "\<not> isClusterAddress (V4 0x08080808)"
    by (simp_all add: isClusterAddress_ranges private_v4_def octet_def)
  moreover have "addr_string (V4 0x0A000005) = ''10.0.0.5''"
    by (simp add: v4_string_def octet_def itoa.simps char_of_digit)
  moreover have "to_lower ''db'' \<noteq> ''localhost''" by (simp add: to_lower_def)
  ultimately show ?thesis
    by (simp add: resolvePrivate_def ex_lookup_def join_host_port_def itoa.simps char_of_digit)
qed

lemma ex_handle:
  "handle (srv ex_connected) ex_lookup ex_dial ex_client None =
     (DoOutbound (OutRelay ''tcp'' ''10.0.0.5:5432''), srv ex_connected)"
proof -
  have "HeaderBytes \<lparr>hdr_Command = CommandTCP, hdr_Token = ex_token\<rparr> = Inr (magic @ [CommandTCP] @ ex_token)"
    by code_simp
  from ReadSessionHeader_bytes [OF _ this, of "OpenBody ex_open"]
  have "ReadSessionHeader ex_client = Inr (\<lparr>hdr_Command = CommandTCP, hdr_Token = ex_token\<rparr>, OpenBody ex_open)"
    by (simp add: ex_client_def token_ok_def ex_token_def)
  moreover have "ReadOpenBody (OpenBody ex_open) CommandTCP = Inr (ex_open, [])"
    using ReadOpenBody_OpenBody [of ex_open "[]"] by (simp add: ex_open_def open_valid_def)
  moreover have "tenantActive (srv ex_connected) ex_token"
    by (simp add: tenantActive_def tenant_count_def ex_connected_def addControl_def kv_simps NewServer_def)
  ultimately show ?thesis using ex_resolve
    by (simp add: handle_def handleOutbound_def ex_dial_def) (simp add: ex_open_def ex_dial_def)
qed

theorem handle_relays_private_witness:
  "\<exists>request ip rest. ReadOpen ex_client = Inr (request, rest) \<and>
    ''10.0.0.5:5432'' = join_host_port (addr_string ip) (itoa (unat (Port request))) \<and>
    (if Is4 ip then private_v4 (octet ip 0) (octet ip 1) else octet ip 0 = 0xFC \<or> octet ip 0 = 0xFD)"
  using handle_relays_private [OF ex_handle] by blast

lemma ex_listening_tables:
  "nextStream (srv ex_listening) = 0" "pending (srv ex_listening) = []"
  "tenants (srv ex_listening) = [(ex_token, 1)]" "controls (srv ex_listening) = [(7, ex_token)]"
  "listeners (srv ex_listening) = [((ex_token, ''web''), ex_listener)]"
  by (simp_all add: ex_listening_def ex_connected_def addControl_def NewServer_def tenant_count_def kv_get_def kv_put_def)

theorem inbound_stream_connects_witness:
  "\<exists>m s1 bs. StreamID m = 1 \<and> AcceptBytes 1 ex_token = Inr bs \<and>
     announceStream (srv ex_listening) ex_listener ex_token NetworkTCP None = (Some m, s1) \<and>
     fst (handle s1 ex_lookup ex_dial bs None) = DoAccept (AcceptServe ex_stream)"
proof -
  obtain m s1 where m: "announceStream (srv ex_listening) ex_listener ex_token NetworkTCP None = (Some m, s1)"
    and i: "StreamID m = 1"
    by (simp add: announceStream_def offerPending_def ex_listening_tables kv_get_def)
  have w: "WriteAccept ex_writer 1 ex_token = (None, snd (WriteAccept ex_writer 1 ex_token))"
    "w_out (snd (WriteAccept ex_writer 1 ex_token)) = magic @ [CommandAccept] @ ex_token @ put_u64 1"
    "AcceptBytes 1 ex_token = Inr (magic @ [CommandAccept] @ ex_token @ put_u64 1)"
    "w_out ex_writer = []"
    by code_simp+
  have "tenantActive (srv ex_listening) ex_token" "token_ok ex_token"
    by (simp_all add: tenantActive_def tenant_count_def ex_listening_tables kv_get_def token_ok_def ex_token_def)
  from inbound_stream_connects [OF m this, of ex_writer "snd (WriteAccept ex_writer 1 ex_token)" ex_lookup ex_dial "[]"] w i
  have "fst (handle s1 ex_lookup ex_dial (magic @ [CommandAccept] @ ex_token @ put_u64 1) None) =
      DoAccept (AcceptServe ex_stream)"
    by (auto simp: ex_stream_def)
  with m i w(3) show ?thesis by blast
qed

theorem gateway_disconnect_cleans_witness:
  "fst (removeControl (srv ex_listening) 7 ex_token) = [ex_listener] \<and>
   \<not> tenantActive (snd (snd (removeControl (srv ex_listening) 7 ex_token))) ex_token"
proof -
  have "kv_get (controls (srv ex_listening)) 7 = Some ex_token"
    "kv_get (controls (srv ex_listening)) c = Some ex_token \<Longrightarrow> c = 7" for c
    by (auto simp: ex_listening_tables kv_get_def split: if_splits)
  from gateway_disconnect_cleans [OF reach_ex_listening this, of "fst (removeControl (srv ex_listening) 7 ex_token)"
    "fst (snd (removeControl (srv ex_listening) 7 ex_token))"]
  show ?thesis
    by (simp add: removeControl_def Let_def ex_listening_tables ex_listener_def tenant_count_def kv_get_def)
qed

end
