(* ===== verification/Control.thy ===== *)
theory Control
  imports Registry Gateway
begin

text \<open>
  The desktop's side of the control channel: \<^verbatim>\<open>control.go\<close> (requests and their replies),
  \<^verbatim>\<open>control_session.go\<close> (the current channel, its generations and its recovery) and
  \<^verbatim>\<open>start_transaction.go\<close> (registrations that can be undone).

  \<^verbatim>\<open>controlRegistrar\<close> is the interface through which an intercept registers its ports. It is
  the locale \<open>control_registrar\<close> below, whose laws are discharged for the Gateway of
  \<^verbatim>\<open>Gateway.thy\<close> reached over the wire format of \<^verbatim>\<open>Tunnel.thy\<close>.
\<close>

section \<open>Requests on the control channel\<close>

record controlClient =
  cc_conn :: nat
  cc_closed :: bool

definition errControlClosed :: goerr where
  "errControlClosed = Errorf ''gateway control channel closed; disconnect and reconnect''"

text \<open>What the read loop puts on \<^verbatim>\<open>replyCh\<close>: a reply, its closing, or nothing for 10 seconds.\<close>

datatype reply_event = Reply ControlMessage | ReplyClosed | ReplyTimeout

text \<open>
  \<^verbatim>\<open>readLoop\<close>: what one incoming message is for; \<^verbatim>\<open>None\<close> ends the loop.
\<close>

datatype loop_event = OnReady string byte u64 | OnReply ControlMessage | Ignored

definition readLoop_message :: "byte list \<Rightarrow> (loop_event \<times> byte list) option" where
  "readLoop_message r =
     (case ReadControlMessage r of
        Inl e \<Rightarrow> None
      | Inr (message, r) \<Rightarrow>
          Some (if Type message = CtrlInboundReady
                then OnReady (InterceptID message) (Network message) (StreamID message)
                else if Type message = CtrlAck \<or> Type message = CtrlError then OnReply message
                else Ignored, r))"

definition roundTrip :: "bool \<Rightarrow> goerr option \<Rightarrow> reply_event \<Rightarrow> goerr option" where
  "roundTrip closed writeErr ev =
     (if closed then Some errControlClosed
      else case writeErr of
        Some e \<Rightarrow> Some e
      | None \<Rightarrow>
          (case ev of
             ReplyClosed \<Rightarrow> Some errControlClosed
           | ReplyTimeout \<Rightarrow> Some (Errorf ''timed out waiting for control ack'')
           | Reply reply \<Rightarrow>
               if Type reply = CtrlError then Some (Errorf (Error reply))
               else if Type reply \<noteq> CtrlAck
               then Some (Errorf (''unexpected control reply type '' @ itoa (unat (Type reply))))
               else None))"

definition register_message :: "string \<Rightarrow> byte \<Rightarrow> u16 \<Rightarrow> ControlMessage" where
  "register_message interceptID network listenPort =
     (ctrl_message CtrlRegister)\<lparr>InterceptID := interceptID, Network := network, ListenPort := listenPort\<rparr>"

definition unregister_message :: "string \<Rightarrow> ControlMessage" where
  "unregister_message interceptID = (ctrl_message CtrlUnregister)\<lparr>InterceptID := interceptID\<rparr>"

section \<open>The control session\<close>

record controlSession =
  cs_client :: "controlClient option"
  cs_lost :: "nat option"
  cs_recovering :: bool
  cs_generation :: u64
  cs_token :: SessionToken

definition newControlSession :: controlSession where
  "newControlSession = \<lparr>cs_client = None, cs_lost = None, cs_recovering = False, cs_generation = 0,
     cs_token = zero_token\<rparr>"

definition attach :: "controlSession \<Rightarrow> controlClient \<Rightarrow> nat \<Rightarrow> controlSession" where
  "attach s client lost = s\<lparr>cs_client := Some client, cs_lost := Some lost, cs_recovering := False\<rparr>"

text \<open>\<open>opened\<close> is the answer of \<^verbatim>\<open>open\<close>: the new channel and its loss signal.\<close>

definition cs_connect ::
  "controlSession \<Rightarrow> (controlClient \<times> nat) res \<Rightarrow> goerr option \<times> controlSession" where
  "cs_connect s opened =
     (case opened of
        Inl e \<Rightarrow> (Some e, s)
      | Inr (client, lost) \<Rightarrow> (None, attach (s\<lparr>cs_generation := cs_generation s + 1\<rparr>) client lost))"

definition cs_ready :: "controlSession \<Rightarrow> bool" where
  "cs_ready s \<longleftrightarrow> cs_client s \<noteq> None \<and> \<not> cs_recovering s"

definition cs_snapshot :: "controlSession \<Rightarrow> controlClient option \<times> u64 \<times> bool" where
  "cs_snapshot s = (cs_client s, cs_generation s, cs_ready s)"

text \<open>Channels are compared by identity; whether the current one has closed is its own flag.\<close>

definition cs_matches :: "controlSession \<Rightarrow> controlClient option \<Rightarrow> u64 \<Rightarrow> bool" where
  "cs_matches s client generation \<longleftrightarrow>
     map_option cc_conn (cs_client s) = map_option cc_conn client \<and>
     cs_generation s = generation \<and> cs_ready s \<and>
     (case cs_client s of None \<Rightarrow> False | Some c \<Rightarrow> \<not> cc_closed c)"

definition beginRecovery :: "controlSession \<Rightarrow> (controlClient option \<times> u64) \<times> controlSession" where
  "beginRecovery s =
     (let s' = s\<lparr>cs_generation := cs_generation s + 1, cs_recovering := True, cs_client := None\<rparr>
      in ((cs_client s, cs_generation s'), s'))"

definition finishRecovery ::
  "controlSession \<Rightarrow> u64 \<Rightarrow> controlClient \<Rightarrow> nat \<Rightarrow> bool \<times> controlSession" where
  "finishRecovery s generation client lost =
     (if generation \<noteq> cs_generation s \<or> \<not> cs_recovering s then (False, s)
      else (True, attach s client lost))"

definition recoveryFailed :: "controlSession \<Rightarrow> u64 \<Rightarrow> controlSession" where
  "recoveryFailed s generation =
     (if generation = cs_generation s then s\<lparr>cs_recovering := False\<rparr> else s)"

definition cs_stop :: "controlSession \<Rightarrow> controlClient option \<times> controlSession" where
  "cs_stop s =
     (cs_client s, s\<lparr>cs_generation := cs_generation s + 1, cs_client := None, cs_recovering := False\<rparr>)"

section \<open>Recovery of the registrations\<close>

definition isTransientControlRegistrationError :: "goerr \<Rightarrow> bool" where
  "isTransientControlRegistrationError e \<longleftrightarrow>
     str_contains (err_text e) ''already registered'' \<or> str_contains (err_text e) ''already in use''"

fun registerAll ::
  "('s \<Rightarrow> string \<Rightarrow> byte \<Rightarrow> u16 \<Rightarrow> goerr option \<times> 's) \<Rightarrow> controlRegistration list \<Rightarrow> string list \<Rightarrow> 's \<Rightarrow>
   (goerr option \<times> string list) \<times> 's"
where
  "registerAll register [] registered s = ((None, registered), s)"
| "registerAll register (r # rs) registered s =
     (case register s (cr_id r) (cr_network r) (cr_listenPort r) of
        (Some e, s') \<Rightarrow> ((Some (Wrapf (''re-register '' @ cr_id r @ '': '') e), registered), s')
      | (None, s') \<Rightarrow> registerAll register rs (registered @ [cr_id r]) s')"

definition unregisterAll :: "('s \<Rightarrow> string \<Rightarrow> goerr option \<times> 's) \<Rightarrow> string list \<Rightarrow> 's \<Rightarrow> 's" where
  "unregisterAll unregister subs s = fold (\<lambda>sub s. snd (unregister s sub)) subs s"

abbreviation controlRedialAttempts :: nat where "controlRedialAttempts \<equiv> 6"

text \<open>
  \<^verbatim>\<open>redial\<close>, on the attempts still to make: \<open>ctxDone\<close> says whether the context ends during
  the wait before an attempt, \<open>opened\<close> dials, \<open>closed\<close> is \<^verbatim>\<open>client.close\<close>.
\<close>

fun redialLoop ::
  "(nat \<Rightarrow> bool) \<Rightarrow> (nat \<Rightarrow> 's \<Rightarrow> (controlClient \<times> nat) res \<times> 's) \<Rightarrow>
   ('s \<Rightarrow> string \<Rightarrow> byte \<Rightarrow> u16 \<Rightarrow> goerr option \<times> 's) \<Rightarrow> ('s \<Rightarrow> string \<Rightarrow> goerr option \<times> 's) \<Rightarrow>
   (controlClient \<Rightarrow> 's \<Rightarrow> 's) \<Rightarrow> controlRegistration list \<Rightarrow> nat list \<Rightarrow> goerr \<Rightarrow> 's \<Rightarrow>
   (controlClient \<times> nat) res \<times> 's"
where
  "redialLoop ctxDone opened register unregister closed rs [] lastErr s = (Inl lastErr, s)"
| "redialLoop ctxDone opened register unregister closed rs (attempt # attempts) lastErr s =
     (if attempt > 0 \<and> ctxDone attempt then (Inl Canceled, s)
      else case opened attempt s of
        (Inl e, s) \<Rightarrow> (Inl e, s)
      | (Inr (client, lost), s) \<Rightarrow>
          (case registerAll register rs [] s of
             ((None, registered), s) \<Rightarrow> (Inr (client, lost), s)
           | ((Some e, registered), s) \<Rightarrow>
               (let s = closed client (unregisterAll unregister (rev registered) s)
                in if \<not> isTransientControlRegistrationError e then (Inl e, s)
                   else redialLoop ctxDone opened register unregister closed rs attempts e s)))"

definition redial ::
  "(nat \<Rightarrow> bool) \<Rightarrow> (nat \<Rightarrow> 's \<Rightarrow> (controlClient \<times> nat) res \<times> 's) \<Rightarrow>
   ('s \<Rightarrow> string \<Rightarrow> byte \<Rightarrow> u16 \<Rightarrow> goerr option \<times> 's) \<Rightarrow> ('s \<Rightarrow> string \<Rightarrow> goerr option \<times> 's) \<Rightarrow>
   (controlClient \<Rightarrow> 's \<Rightarrow> 's) \<Rightarrow> controlRegistration list \<Rightarrow> 's \<Rightarrow> (controlClient \<times> nat) res \<times> 's"
where
  "redial ctxDone opened register unregister closed rs s =
     redialLoop ctxDone opened register unregister closed rs [0..<controlRedialAttempts] EOF s"

section \<open>Start transactions\<close>

text \<open>A compensation is the release of a lease, named by the lease.\<close>

record startTransaction =
  st_portKeys :: "(string, PortMapping) kv"
  st_registered :: "string list"
  st_compensations :: "lease list"
  st_committed :: bool

definition newStartTransaction :: startTransaction where
  "newStartTransaction = \<lparr>st_portKeys = [], st_registered = [], st_compensations = [], st_committed = False\<rparr>"

fun registerPorts ::
  "('s \<Rightarrow> string \<Rightarrow> byte \<Rightarrow> u16 \<Rightarrow> goerr option \<times> 's) \<Rightarrow> startTransaction \<Rightarrow> 's \<Rightarrow> string \<Rightarrow>
   InterceptPort list \<Rightarrow> PortMapping list \<Rightarrow> (goerr option \<times> startTransaction) \<times> 's"
where
  "registerPorts register t s interceptID [] locals = ((None, t), s)"
| "registerPorts register t s interceptID (port # ports) locals =
     (let network = protocolToNetwork (ip_Protocol port);
          sub = subID interceptID network (ip_ServicePort port)
      in case register s sub network (ucast (ip_ListenPort port)) of
           (Some e, s) \<Rightarrow> ((Some (Wrapf (''register '' @ sub @ '': '') e), t), s)
         | (None, s) \<Rightarrow>
             registerPorts register
               (t\<lparr>st_registered := st_registered t @ [sub],
                  st_portKeys := kv_put sub (localFor port locals) (st_portKeys t)\<rparr>)
               s interceptID ports locals)"

definition compensate :: "startTransaction \<Rightarrow> lease \<Rightarrow> startTransaction" where
  "compensate t l = t\<lparr>st_compensations := st_compensations t @ [l]\<rparr>"

definition commit :: "startTransaction \<Rightarrow> startTransaction" where
  "commit t = t\<lparr>st_committed := True\<rparr>"

text \<open>\<^verbatim>\<open>rollback\<close>: the compensations it runs, in order, and the registrar afterwards.\<close>

definition rollback ::
  "('s \<Rightarrow> string \<Rightarrow> goerr option \<times> 's) \<Rightarrow> startTransaction \<Rightarrow> 's \<Rightarrow> lease list \<times> 's" where
  "rollback unregister t s =
     (if st_committed t then ([], s)
      else (rev (st_compensations t), unregisterAll unregister (rev (st_registered t)) s))"

definition unregisterPorts ::
  "('s \<Rightarrow> string \<Rightarrow> goerr option \<times> 's) \<Rightarrow> (string, PortMapping) kv \<Rightarrow> 's \<Rightarrow> 's" where
  "unregisterPorts unregister portKeys s = unregisterAll unregister (sort (kv_keys portKeys)) s"

section \<open>The registrar interface\<close>

text \<open>
  What a start relies on: a registration that succeeds makes a new name the channel's own,
  one that fails changes nothing, and withdrawing a name gives it up.
\<close>

definition reg_table :: "controlRegistration list \<Rightarrow> string \<Rightarrow> (byte \<times> u16) option" where
  "reg_table rs = map_of (map (\<lambda>r. (cr_id r, (cr_network r, cr_listenPort r))) rs)"

lemma reg_table_None: "reg_table rs i = None \<longleftrightarrow> i \<notin> cr_id ` set rs"
  by (force simp: reg_table_def map_of_eq_None_iff)

lemma reg_table_simps [simp]:
  "reg_table [] = Map.empty"
  "reg_table (r # rs) = (reg_table rs)(cr_id r \<mapsto> (cr_network r, cr_listenPort r))"
  by (simp_all add: reg_table_def)

locale control_registrar =
  fixes register :: "'s \<Rightarrow> string \<Rightarrow> byte \<Rightarrow> u16 \<Rightarrow> goerr option \<times> 's"
    and unregister :: "'s \<Rightarrow> string \<Rightarrow> goerr option \<times> 's"
    and owned :: "'s \<Rightarrow> string \<Rightarrow> (byte \<times> u16) option"
  assumes register_ok: "register s i n p = (None, s') \<Longrightarrow> owned s i = None \<and> owned s' = (owned s)(i \<mapsto> (n, p))"
    and register_err: "register s i n p = (Some e, s') \<Longrightarrow> owned s' = owned s"
    and unregister_law: "unregister s i = (x, s') \<Longrightarrow> owned s' = (owned s)(i := None)"
begin

lemma unregisterAll_owned:
  "owned (unregisterAll unregister subs s) = (\<lambda>i. if i \<in> set subs then None else owned s i)"
  unfolding unregisterAll_def
proof (induction subs arbitrary: s)
  case (Cons a subs)
  have "owned (snd (unregister s a)) = (owned s)(a := None)" by (rule unregister_law [OF prod.collapse [symmetric]])
  with Cons [of "snd (unregister s a)"] show ?case by (auto simp: fun_eq_iff)
qed simp

lemma registerAll_owned:
  "registerAll register rs done s = ((e, done'), s') \<Longrightarrow>
   \<exists>ok. done' = done @ map cr_id ok \<and> (\<exists>rest. rs = ok @ rest \<and> (e = None \<longleftrightarrow> rest = [])) \<and>
     distinct (map cr_id ok) \<and> (\<forall>r \<in> set ok. owned s (cr_id r) = None) \<and>
     owned s' = owned s ++ reg_table ok"
proof (induction rs arbitrary: "done" s)
  case (Cons r rs)
  show ?case
  proof (cases "register s (cr_id r) (cr_network r) (cr_listenPort r)")
    case (Pair e1 s1)
    show ?thesis
    proof (cases e1)
      case (Some x)
      with Pair Cons.prems have "e \<noteq> None" "done' = done" "s' = s1" by auto
      with register_err [of s _ _ _ x s1] Pair Some show ?thesis
        by (intro exI [of _ "[]"]) auto
    next
      case None
      with Pair Cons.prems have l: "registerAll register rs (done @ [cr_id r]) s1 = ((e, done'), s')" by simp
      from register_ok [of s "cr_id r"] Pair None
      have o: "owned s (cr_id r) = None" "owned s1 = (owned s)(cr_id r \<mapsto> (cr_network r, cr_listenPort r))" by auto
      from Cons.IH [OF l] obtain ok rest where ok: "done' = (done @ [cr_id r]) @ map cr_id ok" "rs = ok @ rest"
        "e = None \<longleftrightarrow> rest = []" "distinct (map cr_id ok)" "\<forall>q \<in> set ok. owned s1 (cr_id q) = None"
        "owned s' = owned s1 ++ reg_table ok"
        by blast
      have fresh: "cr_id r \<notin> set (map cr_id ok)" using ok(5) o(2) by auto
      have "owned s' = owned s ++ reg_table (r # ok)"
      proof -
        have "reg_table ok (cr_id r) = None" using fresh by (simp add: reg_table_None)
        then show ?thesis unfolding ok(6) o(2) by (auto simp: fun_eq_iff map_add_def split: option.splits)
      qed
      moreover have "\<forall>q \<in> set (r # ok). owned s (cr_id q) = None"
        using ok(5) o(1) unfolding o(2) by (metis fun_upd_apply option.discI set_ConsD)
      moreover have "done' = done @ map cr_id (r # ok)" "r # rs = (r # ok) @ rest" "distinct (map cr_id (r # ok))"
        using ok(1,2,4) fresh by simp_all
      ultimately show ?thesis using ok(3) by blast
    qed
  qed
qed (auto intro: exI [of _ "[]"])

text \<open>Withdrawing what was registered brings the channel back to where it was.\<close>

lemma register_undo:
  assumes "registerAll register rs [] s = ((e, done), s')" and "set subs = set done"
  shows "owned (unregisterAll unregister subs s') = owned s"
proof -
  from registerAll_owned [OF assms(1)] obtain ok where ok: "done = map cr_id ok"
    "\<forall>r \<in> set ok. owned s (cr_id r) = None"
    "owned s' = owned s ++ reg_table ok" by (simp; blast)
  have "reg_table ok i = None" if "i \<notin> set done" for i
    using that by (simp add: ok(1) reg_table_None)
  then show ?thesis
    unfolding unregisterAll_owned using ok(2) by (auto simp: fun_eq_iff assms(2) ok(1,3) map_add_def)
qed

end

text \<open>\<^verbatim>\<open>registerPorts\<close> registers the ports one by one and records them.\<close>

lemma registerPorts_registerAll:
  "registerPorts register t s i ports locals = ((e, t'), s') \<Longrightarrow>
   \<exists>e'. registerAll register (map (port_registration i) ports) (st_registered t) s = ((e', st_registered t'), s') \<and>
     (e' = None \<longleftrightarrow> e = None) \<and> st_compensations t' = st_compensations t \<and> st_committed t' = st_committed t"
proof (induction ports arbitrary: t s)
  case (Cons p ps)
  show ?case
  proof (cases "register s (port_subID i p) (protocolToNetwork (ip_Protocol p)) (ucast (ip_ListenPort p))")
    case (Pair e1 s1)
    show ?thesis
    proof (cases e1)
      case (Some x)
      with Pair Cons.prems show ?thesis by (auto simp: port_registration_def Let_def)
    next
      case None
      let ?t = "t\<lparr>st_registered := st_registered t @ [port_subID i p],
        st_portKeys := kv_put (port_subID i p) (localFor p locals) (st_portKeys t)\<rparr>"
      from None Pair Cons.prems have "registerPorts register ?t s1 i ps locals = ((e, t'), s')"
        by (simp add: Let_def)
      from Cons.IH [OF this] None Pair show ?thesis by (simp add: port_registration_def)
    qed
  qed
qed simp

lemma registerPorts_portKeys:
  "registerPorts register t s i ports locals = ((None, t'), s') \<Longrightarrow> distinct (map ip_id ports) \<Longrightarrow>
   set (kv_keys (st_portKeys t')) = set (kv_keys (st_portKeys t)) \<union> port_subID i ` set ports \<and>
   (kv_ok (st_portKeys t) \<longrightarrow> kv_ok (st_portKeys t')) \<and>
   (\<forall>x. x \<notin> port_subID i ` set ports \<longrightarrow> kv_get (st_portKeys t') x = kv_get (st_portKeys t) x) \<and>
   (\<forall>p \<in> set ports. kv_get (st_portKeys t') (port_subID i p) = Some (localFor p locals))"
proof (induction ports arbitrary: t s)
  case (Cons p ps)
  let ?t = "t\<lparr>st_registered := st_registered t @ [port_subID i p],
     st_portKeys := kv_put (port_subID i p) (localFor p locals) (st_portKeys t)\<rparr>"
  from Cons.prems(1) obtain s1 where l: "registerPorts register ?t s1 i ps locals = ((None, t'), s')"
    by (auto simp: Let_def split: prod.splits option.splits)
  have new: "port_subID i p \<notin> port_subID i ` set ps"
    using Cons.prems(2) by (auto simp: subID_inject ip_id_def image_iff)
  from Cons.IH [OF l] Cons.prems(2)
  have IH: "set (kv_keys (st_portKeys t')) = set (kv_keys (st_portKeys ?t)) \<union> port_subID i ` set ps"
    "kv_ok (st_portKeys ?t) \<longrightarrow> kv_ok (st_portKeys t')"
    "\<forall>x. x \<notin> port_subID i ` set ps \<longrightarrow> kv_get (st_portKeys t') x = kv_get (st_portKeys ?t) x"
    "\<forall>p \<in> set ps. kv_get (st_portKeys t') (port_subID i p) = Some (localFor p locals)"
    by simp_all
  then show ?case using new by (simp add: kv_keys_put kv_simps)
qed simp

section \<open>The Gateway behind the channel\<close>

text \<open>
  One end of a control channel and the Gateway at the other: the Gateway's tables, the
  session the channel belongs to, and the answers of the operating system to the listens to
  come (a listen with no answer left succeeds).
\<close>

record gwlink =
  lk_srv :: server
  lk_ctrl :: ctrl
  lk_token :: SessionToken
  lk_answers :: "goerr option list"

text \<open>
  A request goes out as \<^verbatim>\<open>WriteControlMessage\<close> encodes it, the Gateway reads and answers it,
  and the reply comes back the same way. A reply that cannot be encoded is not sent, one that
  cannot be read ends the channel.
\<close>

definition exchange ::
  "server \<Rightarrow> ctrl \<Rightarrow> SessionToken \<Rightarrow> ControlMessage \<Rightarrow> goerr option \<Rightarrow> goerr option \<times> server" where
  "exchange s c token message listenErr =
     (case ControlBytes message of
        Inl e \<Rightarrow> (roundTrip False (Some e) ReplyTimeout, s)
      | Inr bs \<Rightarrow>
          (case ReadControlMessage bs of
             Inl e \<Rightarrow> (roundTrip False None ReplyClosed, s)
           | Inr (m, _) \<Rightarrow>
               (case controlReply s c token m listenErr of (reply, s') \<Rightarrow>
                  (case ControlBytes reply of
                     Inl e \<Rightarrow> (roundTrip False None ReplyTimeout, s')
                   | Inr rb \<Rightarrow>
                       (case readLoop_message rb of
                          Some (OnReply r, _) \<Rightarrow> (roundTrip False None (Reply r), s')
                        | _ \<Rightarrow> (roundTrip False None ReplyClosed, s'))))))"

definition link_register :: "gwlink \<Rightarrow> string \<Rightarrow> byte \<Rightarrow> u16 \<Rightarrow> goerr option \<times> gwlink" where
  "link_register L i n p =
     (case exchange (lk_srv L) (lk_ctrl L) (lk_token L) (register_message i n p)
         (case lk_answers L of [] \<Rightarrow> None | a # _ \<Rightarrow> a) of
        (e, s) \<Rightarrow> (e, L\<lparr>lk_srv := s, lk_answers := tl (lk_answers L)\<rparr>))"

definition link_unregister :: "gwlink \<Rightarrow> string \<Rightarrow> goerr option \<times> gwlink" where
  "link_unregister L i =
     (case exchange (lk_srv L) (lk_ctrl L) (lk_token L) (unregister_message i) None of
        (e, s) \<Rightarrow> (e, L\<lparr>lk_srv := s\<rparr>))"

definition link_owned :: "gwlink \<Rightarrow> string \<Rightarrow> (byte \<times> u16) option" where
  "link_owned L i =
     (if validateInterceptID i \<noteq> Inr () then None
      else case kv_get (listeners (lk_srv L)) (lk_token L, i) of
        None \<Rightarrow> None
      | Some l \<Rightarrow> if l_control l = lk_ctrl L then Some (l_network l, l_port l) else None)"

text \<open>
  Dialing opens a session of its own, after whatever the Gateway did meanwhile (\<open>env\<close>);
  closing the channel ends the session.
\<close>

definition fresh_ctrl :: "server \<Rightarrow> ctrl" where
  "fresh_ctrl s = Suc (Max (insert 0 (set (map fst (controls s)) \<union> set (map (l_control \<circ> snd) (listeners s)))))"

definition link_open ::
  "(nat \<Rightarrow> server \<Rightarrow> server) \<Rightarrow> (nat \<Rightarrow> goerr option) \<Rightarrow> nat \<Rightarrow> gwlink \<Rightarrow> (controlClient \<times> nat) res \<times> gwlink" where
  "link_open env dial attempt L =
     (case dial attempt of
        Some e \<Rightarrow> (Inl (Wrapf ''dial gateway control: '' e), L)
      | None \<Rightarrow>
          (let s = env attempt (lk_srv L); c = fresh_ctrl s
           in (Inr (\<lparr>cc_conn = c, cc_closed = False\<rparr>, c),
               L\<lparr>lk_srv := addControl s c (lk_token L), lk_ctrl := c\<rparr>)))"

definition link_close :: "controlClient \<Rightarrow> gwlink \<Rightarrow> gwlink" where
  "link_close client L = L\<lparr>lk_srv := snd (snd (removeControl (lk_srv L) (lk_ctrl L) (lk_token L)))\<rparr>"

lemma ack_reply:
  "\<exists>rb. ControlBytes (ctrl_message CtrlAck) = Inr rb \<and>
     readLoop_message rb = Some (OnReply (ctrl_message CtrlAck), []) \<and>
     roundTrip False None (Reply (ctrl_message CtrlAck)) = None"
proof -
  obtain rb where rb: "ControlBytes (ctrl_message CtrlAck) = Inr rb"
    by (simp add: ControlBytes_def encodeControlPayload_def ctrl_message_def)
  have "ctrl_ok (ctrl_message CtrlAck)" by (simp add: ctrl_ok_def ctrl_message_def)
  from ctl.round [OF this rb, of "[]"] rb show ?thesis
    by (simp add: readLoop_message_def roundTrip_def ctrl_message_def)
qed

text \<open>An error reply ends in an error: its text if it can be sent and read.\<close>

lemma error_reply:
  assumes "reply = (ctrl_message CtrlError)\<lparr>Error := x\<rparr>"
  shows "\<exists>e. (case ControlBytes reply of
       Inl e \<Rightarrow> (roundTrip False None ReplyTimeout, s')
     | Inr rb \<Rightarrow> (case readLoop_message rb of
          Some (OnReply r, _) \<Rightarrow> (roundTrip False None (Reply r), s')
        | _ \<Rightarrow> (roundTrip False None ReplyClosed, s'))) = (Some e, s') \<and>
     (x \<noteq> [] \<longrightarrow> length x \<le> ctrl_limit \<longrightarrow> e = Errorf x)"
proof (cases "x = [] \<or> ctrl_limit < length x")
  case True
  show ?thesis
  proof (cases "x = []")
    case False
    with True have "ctrl_limit < length (take maxErrorSize x)" by (simp add: ctrl_limit_def)
    have p: "encodeControlPayload reply = Inr (bytes_of (take maxErrorSize x))"
      using False by (simp add: assms encodeControlPayload_def ctrl_message_def)
    let ?h = "[CtrlError] @ put_u16 (word_of_nat (length (bytes_of (take maxErrorSize x))))"
    have b: "ControlBytes reply = Inr (?h @ bytes_of (take maxErrorSize x))"
      by (simp add: ControlBytes_def p) (simp add: assms ctrl_message_def)
    moreover have "read_full 3 (?h @ bytes_of (take maxErrorSize x)) = Inr (?h, bytes_of (take maxErrorSize x))"
      using read_full_append [of ?h 3] by simp
    ultimately have "ReadControlMessage (?h @ bytes_of (take maxErrorSize x)) = Inl (Errorf ''control message is too large'')"
      using encode_length_u16 [OF p] \<open>ctrl_limit < length (take maxErrorSize x)\<close>
      by (simp add: ReadControlMessage_def ctrl_limit_def Let_def)
    with b True False show ?thesis by (simp add: readLoop_message_def roundTrip_def)
  qed (simp add: assms ControlBytes_def encodeControlPayload_def ctrl_message_def roundTrip_def)
next
  case False
  then obtain rb where rb: "ControlBytes reply = Inr rb"
    by (simp add: assms ControlBytes_def encodeControlPayload_def ctrl_message_def)
  have "ctrl_ok reply" using False by (simp add: assms ctrl_ok_def ctrl_message_def)
  from ctl.round [OF this rb, of "[]"] rb show ?thesis
    by (simp add: readLoop_message_def roundTrip_def assms ctrl_message_def)
qed

definition reg_valid :: "string \<Rightarrow> byte \<Rightarrow> u16 \<Rightarrow> bool" where
  "reg_valid i n p \<longleftrightarrow> validateInterceptID i = Inr () \<and> validateNetwork n = Inr () \<and> p \<noteq> 0"

lemma register_wire:
  assumes "reg_valid i n p"
  shows "\<exists>bs. ControlBytes (register_message i n p) = Inr bs \<and> ReadControlMessage bs = Inr (register_message i n p, [])"
proof -
  from assms obtain bs where bs: "ControlBytes (register_message i n p) = Inr bs"
    by (simp add: reg_valid_def ControlBytes_def encodeControlPayload_def register_message_def ctrl_message_def)
  have "ctrl_ok (register_message i n p)" by (simp add: ctrl_ok_def register_message_def ctrl_message_def)
  from ctl.round [OF this bs, of "[]"] bs show ?thesis by simp
qed

text \<open>The whole exchange of a registration, against the Gateway's own function.\<close>

lemma exchange_refused:
  "\<not> reg_valid i n p \<Longrightarrow> \<exists>e. exchange s c t (register_message i n p) a = (Some e, s)"
  by (cases "validateInterceptID i"; cases "validateNetwork n")
     (auto simp: reg_valid_def exchange_def roundTrip_def ControlBytes_def encodeControlPayload_def
       register_message_def ctrl_message_def)

lemma exchange_ok:
  assumes "reg_valid i n p" "registerIntercept s c t (register_message i n p) a id = (None, s')"
  shows "exchange s c t (register_message i n p) a = (None, s')"
proof -
  have "Type (register_message i n p) = CtrlRegister" by (simp add: register_message_def ctrl_message_def)
  with register_wire [OF assms(1)] ack_reply assms(2) show ?thesis
    by (auto simp: exchange_def controlReply_def)
qed

lemma exchange_err:
  assumes "reg_valid i n p" "registerIntercept s c t (register_message i n p) a id = (Some x, s')"
  shows "\<exists>e. exchange s c t (register_message i n p) a = (Some e, s) \<and>
    (err_text x \<noteq> [] \<longrightarrow> length (err_text x) \<le> ctrl_limit \<longrightarrow> e = Errorf (err_text x))"
proof -
  have "Type (register_message i n p) = CtrlRegister" by (simp add: register_message_def ctrl_message_def)
  moreover have "s' = s" using assms(2)
    by (auto simp: registerIntercept_def registerCommit_def Let_def split: sum.splits if_splits)
  ultimately show ?thesis
    using register_wire [OF assms(1)] error_reply [OF refl, of s "err_text x"] assms(2)
    by (fastforce simp: exchange_def controlReply_def)
qed

lemma exchange_cases:
  assumes "exchange s c t (register_message i n p) a = (e, s')"
  shows "(case e of None \<Rightarrow> reg_valid i n p \<and> registerIntercept s c t (register_message i n p) a id = (None, s')
     | Some x \<Rightarrow> s' = s)"
proof (cases "reg_valid i n p")
  case False
  from exchange_refused [OF False, of s c t a] assms show ?thesis by auto
next
  case True
  obtain x s1 where r: "registerIntercept s c t (register_message i n p) a id = (x, s1)" by fastforce
  show ?thesis
  proof (cases x)
    case None
    with r exchange_ok [OF True, of s c t a s1] assms True show ?thesis by auto
  next
    case (Some y)
    with r exchange_err [OF True, of s c t a y s1] assms show ?thesis by auto
  qed
qed

lemma exchange_unregister:
  assumes "validateInterceptID i = Inr ()"
  shows "exchange s c t (unregister_message i) a = (None, snd (unregisterIntercept s c t i))"
proof -
  from assms obtain bs where bs: "ControlBytes (unregister_message i) = Inr bs"
    by (simp add: ControlBytes_def encodeControlPayload_def unregister_message_def ctrl_message_def)
  have "ctrl_ok (unregister_message i)" by (simp add: ctrl_ok_def unregister_message_def ctrl_message_def)
  from ctl.round [OF this bs, of "[]"] bs ack_reply show ?thesis
    by (auto simp: exchange_def controlReply_def unregister_message_def ctrl_message_def)
qed

lemma exchange_unregister_refused:
  "validateInterceptID i \<noteq> Inr () \<Longrightarrow> snd (exchange s c t (unregister_message i) a) = s"
  by (cases "validateInterceptID i")
     (auto simp: exchange_def ControlBytes_def encodeControlPayload_def unregister_message_def ctrl_message_def)

lemma registerIntercept_None:
  assumes "registerIntercept s c t (register_message i n p) a id = (None, s')"
  shows "kv_get (listeners s) (t, i) = None \<and>
    s' = s\<lparr>listeners := kv_put (t, i) \<lparr>l_id = i, l_network = n, l_port = p, l_control = c\<rparr> (listeners s)\<rparr>"
  using assms by (auto simp: registerIntercept_def registerCheck_def registerCommit_def register_message_def
      ctrl_message_def Let_def split: sum.splits if_splits)

interpretation gwr: control_registrar link_register link_unregister link_owned
proof unfold_locales
  fix L i n p L'
  assume "link_register L i n p = (None, L')"
  then obtain s' a where ex: "exchange (lk_srv L) (lk_ctrl L) (lk_token L) (register_message i n p) a = (None, s')"
    and L': "L' = L\<lparr>lk_srv := s', lk_answers := tl (lk_answers L)\<rparr>"
    by (auto simp: link_register_def split: prod.splits)
  from exchange_cases [OF ex] have v: "reg_valid i n p"
    and r: "registerIntercept (lk_srv L) (lk_ctrl L) (lk_token L) (register_message i n p) a id = (None, s')"
    by simp_all
  from registerIntercept_None [OF r] v
  show "link_owned L i = None \<and> link_owned L' = (link_owned L)(i \<mapsto> (n, p))"
    by (auto simp: L' link_owned_def reg_valid_def fun_eq_iff kv_simps split: option.splits)
next
  fix L i n p e L'
  assume "link_register L i n p = (Some e, L')"
  then obtain s' a where ex: "exchange (lk_srv L) (lk_ctrl L) (lk_token L) (register_message i n p) a = (Some e, s')"
    and L': "L' = L\<lparr>lk_srv := s', lk_answers := tl (lk_answers L)\<rparr>"
    by (auto simp: link_register_def split: prod.splits)
  from exchange_cases [OF ex] have "s' = lk_srv L" by simp
  then show "link_owned L' = link_owned L" by (simp add: L' link_owned_def fun_eq_iff split: option.split)
next
  fix L i e L'
  assume "link_unregister L i = (e, L')"
  then have L': "L' = L\<lparr>lk_srv := snd (exchange (lk_srv L) (lk_ctrl L) (lk_token L) (unregister_message i) None)\<rparr>"
    by (auto simp: link_unregister_def split: prod.splits)
  show "link_owned L' = (link_owned L)(i := None)"
  proof (cases "validateInterceptID i = Inr ()")
    case True
    then show ?thesis
      by (auto simp: L' exchange_unregister link_owned_def unregisterIntercept_def kv_simps fun_eq_iff
          split: option.splits)
  next
    case False
    then show ?thesis by (auto simp: L' exchange_unregister_refused link_owned_def fun_eq_iff split: option.splits)
  qed
qed

section \<open>Reconnecting\<close>

text \<open>A new channel owns nothing, and closing one gives up what it owned.\<close>

locale control_dialer = control_registrar register unregister owned
  for register :: "'s \<Rightarrow> string \<Rightarrow> byte \<Rightarrow> u16 \<Rightarrow> goerr option \<times> 's"
    and unregister :: "'s \<Rightarrow> string \<Rightarrow> goerr option \<times> 's"
    and owned :: "'s \<Rightarrow> string \<Rightarrow> (byte \<times> u16) option" +
  fixes opened :: "nat \<Rightarrow> 's \<Rightarrow> (controlClient \<times> nat) res \<times> 's"
    and closed :: "controlClient \<Rightarrow> 's \<Rightarrow> 's"
  assumes opened_ok: "opened a s = (Inr x, s') \<Longrightarrow> owned s' = Map.empty"
    and opened_err: "opened a s = (Inl e, s') \<Longrightarrow> owned s' = owned s"
    and closed_law: "owned (closed c s) = Map.empty"
begin

lemma redialLoop_owned:
  "redialLoop ctxDone opened register unregister closed rs attempts lastErr s = (r, s') \<Longrightarrow>
   (case r of Inr x \<Rightarrow> owned s' = reg_table rs \<and> distinct (map cr_id rs)
    | Inl e \<Rightarrow> owned s' = owned s \<or> owned s' = Map.empty)"
proof (induction attempts arbitrary: lastErr s)
  case (Cons a attempts)
  show ?case
  proof (cases "0 < a \<and> ctxDone a")
    case True
    with Cons.prems show ?thesis by auto
  next
    case False
    obtain o1 s1 where o: "opened a s = (o1, s1)" by fastforce
    show ?thesis
    proof (cases o1)
      case (Inl e)
      with Cons.prems False o opened_err show ?thesis by auto
    next
      case (Inr x)
      obtain client lost where x: "x = (client, lost)" by fastforce
      obtain e1 ok s2 where g: "registerAll register rs [] s1 = ((e1, ok), s2)" by (metis surj_pair)
      have e0: "owned s1 = Map.empty" using o Inr opened_ok by blast
      show ?thesis
      proof (cases e1)
        case None
        with registerAll_owned [OF g] e0 Cons.prems False o Inr x g show ?thesis by auto
      next
        case (Some e2)
        let ?s3 = "closed client (unregisterAll unregister (rev ok) s2)"
        have "owned ?s3 = Map.empty" by (rule closed_law)
        with Some Cons.prems False o Inr x g Cons.IH [of e2 ?s3] show ?thesis
          by (auto simp: Let_def split: if_splits sum.splits)
      qed
    qed
  qed
qed auto

lemma redial_owned:
  "redial ctxDone opened register unregister closed rs s = (r, s') \<Longrightarrow>
   (case r of Inr x \<Rightarrow> owned s' = reg_table rs \<and> distinct (map cr_id rs)
    | Inl e \<Rightarrow> owned s' = owned s \<or> owned s' = Map.empty)"
  unfolding redial_def by (rule redialLoop_owned)

end

lemma fresh_ctrl_listeners:
  "kv_get (listeners s) k = Some l \<Longrightarrow> l_control l \<noteq> fresh_ctrl s"
proof
  assume "kv_get (listeners s) k = Some l" "l_control l = fresh_ctrl s"
  then have "(k, l) \<in> set (listeners s)" by (simp add: kv_get_def map_of_SomeD)
  then have "l_control l \<in> insert 0 (set (map fst (controls s)) \<union> set (map (l_control \<circ> snd) (listeners s)))"
    by force
  then have "l_control l \<le> Max (insert 0 (set (map fst (controls s)) \<union> set (map (l_control \<circ> snd) (listeners s))))"
    by (rule Max_ge [rotated]) simp
  with \<open>l_control l = fresh_ctrl s\<close> show False by (simp add: fresh_ctrl_def)
qed

lemma removeControl_listeners:
  "listeners (snd (snd (removeControl s c t))) = filter (\<lambda>(k, l). l_control l \<noteq> c) (listeners s)"
  by (simp add: removeControl_def Let_def)

interpretation gwd: control_dialer link_register link_unregister link_owned "link_open env dial" link_close for env dial
proof unfold_locales
  fix a L x L'
  assume "link_open env dial a L = (Inr x, L')"
  then have "L' = L\<lparr>lk_srv := addControl (env a (lk_srv L)) (fresh_ctrl (env a (lk_srv L))) (lk_token L),
      lk_ctrl := fresh_ctrl (env a (lk_srv L))\<rparr>"
    by (auto simp: link_open_def Let_def split: option.splits)
  then show "link_owned L' = Map.empty"
    by (auto simp: link_owned_def fun_eq_iff addControl_def dest: fresh_ctrl_listeners split: option.splits)
next
  fix a L e L'
  assume "link_open env dial a L = (Inl e, L')"
  then show "link_owned L' = link_owned L" by (auto simp: link_open_def Let_def split: option.splits)
next
  fix c L
  have sel: "lk_ctrl (link_close c L) = lk_ctrl L" by (simp add: link_close_def)
  have "l_control l \<noteq> lk_ctrl L" if "kv_get (listeners (lk_srv (link_close c L))) k = Some l" for k l
  proof -
    have "(k, l) \<in> set (listeners (lk_srv (link_close c L)))"
      using that unfolding kv_get_def by (rule map_of_SomeD)
    then show ?thesis by (simp add: link_close_def removeControl_listeners)
  qed
  then show "link_owned (link_close c L) = Map.empty"
    by (auto simp: link_owned_def sel fun_eq_iff split: option.split)
qed


text \<open>
  An aborted start leaves no registration behind: whatever \<^verbatim>\<open>registerPorts\<close> managed to
  register at the Gateway before it failed or before a later step of the start did,
  \<^verbatim>\<open>rollback\<close> takes back, and it releases the leases in reverse order.
\<close>

theorem rollback_restores:
  assumes "registerPorts link_register newStartTransaction L i ports locals = ((e, t), L')"
    and "rollback link_unregister (foldl compensate t leases) L' = (released, L'')"
  shows "link_owned L'' = link_owned L \<and> released = rev leases"
proof -
  have c: "foldl compensate t leases = t\<lparr>st_compensations := st_compensations t @ leases\<rparr>" for t
    by (induction leases arbitrary: t) (simp_all add: compensate_def)
  from registerPorts_registerAll [OF assms(1)] obtain e' where
    r: "registerAll link_register (map (port_registration i) ports) [] L = ((e', st_registered t), L')"
    and t: "st_compensations t = []" "\<not> st_committed t"
    by (auto simp: newStartTransaction_def)
  have "link_owned (unregisterAll link_unregister (rev (st_registered t)) L') = link_owned L"
    by (rule gwr.register_undo [OF r]) simp
  with assms(2) t show ?thesis by (simp add: rollback_def c)
qed

section \<open>Conflicts while the old session lingers\<close>

lemma transient_wrap:
  "isTransientControlRegistrationError (Errorf x) \<Longrightarrow> isTransientControlRegistrationError (Wrapf p (Errorf x))"
  using str_contains_wrap [of x "''already registered''" p "[]"] str_contains_wrap [of x "''already in use''" p "[]"]
  by (auto simp: isTransientControlRegistrationError_def)

lemma conflict_text_transient:
  "isTransientControlRegistrationError (Errorf (err_text (already_registered i)))"
  "isTransientControlRegistrationError (Errorf (err_text (port_in_use p)))"
proof -
  have "str_contains ('' already registered'') ''already registered''" "str_contains ('' already in use'') ''already in use''"
    by code_simp+
  then show "isTransientControlRegistrationError (Errorf (err_text (already_registered i)))"
    "isTransientControlRegistrationError (Errorf (err_text (port_in_use p)))"
    using str_contains_wrap [of "'' already registered''" "''already registered''" "''intercept '' @ quote i" "[]"]
      str_contains_wrap [of "'' already in use''" "''already in use''" "''listen port '' @ itoa (unat p)" "[]"]
    by (simp_all add: isTransientControlRegistrationError_def already_registered_def port_in_use_def)
qed

text \<open>
  Registrations as a recovery sends them, and a Gateway at which they do not collide with
  anything.
\<close>

definition regs_ok :: "controlRegistration list \<Rightarrow> bool" where
  "regs_ok rs \<longleftrightarrow> list_all (\<lambda>r. reg_valid (cr_id r) (cr_network r) (cr_listenPort r) \<and> 1024 \<le> unat (cr_listenPort r)) rs \<and>
     distinct (map cr_id rs) \<and> distinct (map (\<lambda>r. (cr_network r, cr_listenPort r)) rs)"

definition regs_clear :: "controlRegistration list \<Rightarrow> SessionToken \<Rightarrow> server \<Rightarrow> bool" where
  "regs_clear rs t s \<longleftrightarrow>
     list_all (\<lambda>r. kv_get (listeners s) (t, cr_id r) = None \<and>
       list_all (\<lambda>(k, l). l_sock l \<noteq> (cr_network r, cr_listenPort r)) (listeners s)) rs"

lemma itoa_length: "n < 10 ^ Suc k \<Longrightarrow> length (itoa n) \<le> Suc k"
proof (induction k arbitrary: n)
  case (Suc k)
  then have "n div 10 < 10 ^ Suc k" by (simp add: less_mult_imp_div_less)
  with Suc show ?case by (cases "n < 10") (simp_all add: itoa.simps [of n])
qed (simp add: itoa.simps)

lemma conflict_text_short:
  "validateInterceptID i = Inr () \<Longrightarrow> length (err_text (already_registered i)) \<le> ctrl_limit"
  "length (err_text (port_in_use p)) \<le> ctrl_limit"
proof -
  have "unat p < 10 ^ Suc 4" using unat_bound [of p] by simp
  from itoa_length [OF this] show "length (err_text (port_in_use p)) \<le> ctrl_limit"
    by (simp add: port_in_use_def ctrl_limit_def)
qed (simp add: already_registered_def quote_def ctrl_limit_def validate_Inr)

lemma registerIntercept_conflict:
  assumes "reg_valid i n p" "1024 \<le> unat p"
    and "registerIntercept s c t (register_message i n p) None id = (Some e, s')"
  shows "e = already_registered i \<or> e = port_in_use p"
  using assms by (auto simp: registerIntercept_def registerCheck_def registerListen_def registerCommit_def
      register_message_def ctrl_message_def reg_valid_def validate_Inr Let_def split: if_splits)

lemma link_register_transient:
  assumes "reg_valid i n p" "1024 \<le> unat p" "lk_answers L = []" "link_register L i n p = (Some e, L')"
  shows "isTransientControlRegistrationError (Wrapf x e)"
proof -
  from assms(3,4) have ex: "fst (exchange (lk_srv L) (lk_ctrl L) (lk_token L) (register_message i n p) None) = Some e"
    by (auto simp: link_register_def split: prod.splits)
  obtain y s1 where r: "registerIntercept (lk_srv L) (lk_ctrl L) (lk_token L) (register_message i n p) None id = (y, s1)"
    by fastforce
  with ex exchange_ok [OF assms(1)] obtain z where z: "y = Some z" by fastforce
  with r registerIntercept_conflict [OF assms(1,2)] have "z = already_registered i \<or> z = port_in_use p" by blast
  moreover from exchange_err [OF assms(1), of _ _ _ None z] r z ex
  have "err_text z \<noteq> [] \<longrightarrow> length (err_text z) \<le> ctrl_limit \<longrightarrow> e = Errorf (err_text z)" by fastforce
  moreover have "err_text (already_registered i) \<noteq> []" "err_text (port_in_use p) \<noteq> []"
    by (simp_all add: already_registered_def port_in_use_def)
  ultimately have "isTransientControlRegistrationError e" "\<exists>w. e = Errorf w"
    using conflict_text_transient conflict_text_short assms(1) by (auto simp: reg_valid_def)
  with transient_wrap show ?thesis by blast
qed

lemma link_frame:
  "lk_token (snd (link_register L i n p)) = lk_token L" "lk_answers (snd (link_register L i n p)) = tl (lk_answers L)"
  "lk_token (snd (link_unregister L i)) = lk_token L" "lk_answers (snd (link_unregister L i)) = lk_answers L"
  "lk_token (link_close c L) = lk_token L" "lk_answers (link_close c L) = lk_answers L"
  by (simp_all add: link_register_def link_unregister_def link_close_def split: prod.splits)

lemma unregisterAll_frame:
  "lk_token (unregisterAll link_unregister subs L) = lk_token L"
  "lk_answers (unregisterAll link_unregister subs L) = lk_answers L"
  unfolding unregisterAll_def by (induction subs arbitrary: L) (simp_all add: link_frame)

lemma registerAll_link:
  assumes "regs_ok rs" "lk_answers L = []" "registerAll link_register rs done L = ((e, done'), L')"
  shows "lk_token L' = lk_token L \<and> lk_answers L' = [] \<and>
    (\<forall>x. e = Some x \<longrightarrow> isTransientControlRegistrationError x)"
  using assms
proof (induction rs arbitrary: L "done")
  case (Cons r rs)
  obtain e1 L1 where p: "link_register L (cr_id r) (cr_network r) (cr_listenPort r) = (e1, L1)" by fastforce
  then have f: "lk_token L1 = lk_token L" "lk_answers L1 = []"
    using link_frame(1,2) [of L "cr_id r" "cr_network r" "cr_listenPort r"] Cons.prems(2) by simp_all
  have v: "reg_valid (cr_id r) (cr_network r) (cr_listenPort r)" "1024 \<le> unat (cr_listenPort r)" "regs_ok rs"
    using Cons.prems(1) by (auto simp: regs_ok_def)
  show ?case
  proof (cases e1)
    case None
    with Cons.IH [OF v(3) f(2), of "done @ [cr_id r]"] Cons.prems(3) p f show ?thesis by simp
  next
    case (Some x)
    with p v link_register_transient [OF v(1,2) Cons.prems(2)] Cons.prems(3) f show ?thesis by auto
  qed
qed simp

lemma link_register_clear:
  assumes "reg_valid i n p" "1024 \<le> unat p" "lk_answers L = []"
    and "kv_get (listeners (lk_srv L)) (lk_token L, i) = None"
    and "list_all (\<lambda>(k, l). l_sock l \<noteq> (n, p)) (listeners (lk_srv L))"
  shows "\<exists>L'. link_register L i n p = (None, L') \<and> lk_token L' = lk_token L \<and> lk_answers L' = [] \<and>
    listeners (lk_srv L') = listeners (lk_srv L) @
      [((lk_token L, i), \<lparr>l_id = i, l_network = n, l_port = p, l_control = lk_ctrl L\<rparr>)]"
proof -
  have "\<not> list_ex (\<lambda>(k, l). l_port l = p \<and> l_network l = n) (listeners (lk_srv L))"
    using assms(5) by (auto simp: list_all_iff list_ex_iff)
  with assms have "registerIntercept (lk_srv L) (lk_ctrl L) (lk_token L) (register_message i n p) None id =
      (None, (lk_srv L)\<lparr>listeners := listeners (lk_srv L) @
        [((lk_token L, i), \<lparr>l_id = i, l_network = n, l_port = p, l_control = lk_ctrl L\<rparr>)]\<rparr>)"
    by (auto simp: registerIntercept_def registerCheck_def registerListen_def registerCommit_def
        register_message_def ctrl_message_def reg_valid_def validate_Inr kv_put_new)
  from exchange_ok [OF assms(1) this] assms(3) show ?thesis by (simp add: link_register_def)
qed

lemma registerAll_clear:
  assumes "regs_ok rs" "lk_answers L = []" "regs_clear rs (lk_token L) (lk_srv L)"
  shows "\<exists>done' L'. registerAll link_register rs done L = ((None, done'), L')"
  using assms
proof (induction rs arbitrary: L "done")
  case (Cons r rs)
  from Cons.prems obtain L1 where L1: "link_register L (cr_id r) (cr_network r) (cr_listenPort r) = (None, L1)"
    "lk_token L1 = lk_token L" "lk_answers L1 = []"
    "listeners (lk_srv L1) = listeners (lk_srv L) @ [((lk_token L, cr_id r),
       \<lparr>l_id = cr_id r, l_network = cr_network r, l_port = cr_listenPort r, l_control = lk_ctrl L\<rparr>)]"
    using link_register_clear [of "cr_id r" "cr_network r" "cr_listenPort r" L]
    by (auto simp: regs_ok_def regs_clear_def)
  have "regs_clear rs (lk_token L1) (lk_srv L1)"
    unfolding regs_clear_def list_all_iff
  proof (intro ballI conjI)
    fix q assume q: "q \<in> set rs"
    with Cons.prems(1) have ne: "cr_id q \<noteq> cr_id r" "(cr_network q, cr_listenPort q) \<noteq> (cr_network r, cr_listenPort r)"
      by (auto simp: regs_ok_def image_iff)
    from q Cons.prems(3) have c: "kv_get (listeners (lk_srv L)) (lk_token L, cr_id q) = None"
      "\<forall>(k, l) \<in> set (listeners (lk_srv L)). l_sock l \<noteq> (cr_network q, cr_listenPort q)"
      by (auto simp: regs_clear_def list_all_iff)
    from c(1) ne(1) show "kv_get (listeners (lk_srv L1)) (lk_token L1, cr_id q) = None"
      by (simp add: L1 kv_get_def map_add_def)
    fix x assume "x \<in> set (listeners (lk_srv L1))"
    then show "case x of (k, l) \<Rightarrow> l_sock l \<noteq> (cr_network q, cr_listenPort q)"
      using c(2) ne(2) by (auto simp: L1)
  qed
  with Cons.IH [of L1 "done @ [cr_id r]"] Cons.prems(1) L1 show ?case by (simp add: regs_ok_def)
qed simp

lemma redialLoop_recovers:
  assumes "regs_ok rs" and "\<And>a. dial a = None" and "\<And>a. \<not> ctxDone a"
    and "\<And>s. regs_clear rs t (env k s)"
  shows "lk_answers L = [] \<Longrightarrow> lk_token L = t \<Longrightarrow> k \<in> set attempts \<Longrightarrow>
    \<exists>x L'. redialLoop ctxDone (link_open env dial) link_register link_unregister link_close rs attempts lastErr L = (Inr x, L')"
proof (induction attempts arbitrary: L lastErr)
  case (Cons a attempts)
  let ?s = "env a (lk_srv L)"
  let ?L1 = "L\<lparr>lk_srv := addControl ?s (fresh_ctrl ?s) (lk_token L), lk_ctrl := fresh_ctrl ?s\<rparr>"
  have o: "link_open env dial a L = (Inr (\<lparr>cc_conn = fresh_ctrl ?s, cc_closed = False\<rparr>, fresh_ctrl ?s), ?L1)"
    by (simp add: link_open_def assms(2) Let_def)
  obtain e reg L2 where g: "registerAll link_register rs [] ?L1 = ((e, reg), L2)" by (metis surj_pair)
  show ?case
  proof (cases e)
    case None
    with o g assms(3) show ?thesis by simp
  next
    case (Some x)
    have "a \<noteq> k"
    proof
      assume "a = k"
      then have "regs_clear rs (lk_token ?L1) (lk_srv ?L1)"
        using assms(4) [of "lk_srv L"] Cons.prems(2) by (simp add: regs_clear_def addControl_def)
      from registerAll_clear [OF assms(1) _ this, of "[]"] Cons.prems(1) g Some show False by simp
    qed
    with Cons.prems(3) have k: "k \<in> set attempts" by simp
    from registerAll_link [OF assms(1) _ g] Cons.prems(1) Some
    have f: "lk_token L2 = lk_token L" "lk_answers L2 = []" "isTransientControlRegistrationError x" by simp_all
    let ?c = "\<lparr>cc_conn = fresh_ctrl ?s, cc_closed = False\<rparr>"
    have "lk_answers (link_close ?c (unregisterAll link_unregister (rev reg) L2)) = []"
      "lk_token (link_close ?c (unregisterAll link_unregister (rev reg) L2)) = t"
      using f Cons.prems(2) by (simp_all add: link_frame unregisterAll_frame)
    from Cons.IH [OF this k, of x] o g Some f(3) assms(3) show ?thesis by (simp add: Let_def)
  qed
qed simp

text \<open>
  A recovery succeeds as soon as the Gateway has dropped the old session: if the names
  and ports are free at the Gateway before one of the six attempts, and neither the dial nor
  the listen fails, \<^verbatim>\<open>redial\<close> returns a channel that holds all registrations. The earlier
  attempts fail on names and ports still taken, and these errors, sent as text by the
  Gateway and wrapped by the desktop, are recognised as worth another attempt.
\<close>

theorem redial_recovers:
  assumes "regs_ok rs" and "lk_answers L = []" and "\<And>a. dial a = None" and "\<And>a. \<not> ctxDone a"
    and "k < controlRedialAttempts" and "\<And>s. regs_clear rs (lk_token L) (env k s)"
  shows "\<exists>x L'. redial ctxDone (link_open env dial) link_register link_unregister link_close rs L = (Inr x, L') \<and>
    link_owned L' = reg_table rs"
proof -
  have "k \<in> set [0..<controlRedialAttempts]" using assms(5) by simp
  from redialLoop_recovers [of rs dial ctxDone "lk_token L" env k, OF assms(1,3,4,6) assms(2) refl this]
  obtain x L' where "redial ctxDone (link_open env dial) link_register link_unregister link_close rs L = (Inr x, L')"
    unfolding redial_def by blast
  moreover from gwd.redial_owned [OF this] have "link_owned L' = reg_table rs" by simp
  ultimately show ?thesis by blast
qed

section \<open>Witnesses\<close>

definition ex_regs :: "controlRegistration list" where
  "ex_regs = [port_registration ''shop/api'' ex_port]"

text \<open>A Gateway that still holds the port for a session that is gone.\<close>

definition ex_link :: gwlink where
  "ex_link = \<lparr>lk_srv = NewServer\<lparr>listeners := [((ex_token, port_subID ''shop/api'' ex_port),
       \<lparr>l_id = port_subID ''shop/api'' ex_port, l_network = NetworkTCP, l_port = 20001, l_control = 3\<rparr>)]\<rparr>,
     lk_ctrl = 3, lk_token = ex_token, lk_answers = []\<rparr>"

text \<open>It notices before the third attempt.\<close>

definition ex_env :: "nat \<Rightarrow> server \<Rightarrow> server" where
  "ex_env attempt s = (if attempt < 2 then s else s\<lparr>listeners := []\<rparr>)"

lemma ex_subID: "port_subID ''shop/api'' ex_port = ''shop/api:tcp:80''"
  by (simp add: subID_def ex_port_def protocolToNetwork_def normalizeProtocol_def networkName_def itoa_int_def
      itoa.simps char_of_digit)

lemma ex_regs_ok: "regs_ok ex_regs"
  unfolding regs_ok_def ex_regs_def port_registration_def ex_subID
  by (simp add: ex_port_def reg_valid_def validateInterceptID_def validateNetwork_def protocolToNetwork_def
      normalizeProtocol_def)

theorem redial_recovers_witness:
  "\<exists>x L'. redial (\<lambda>_. False) (link_open ex_env (\<lambda>_. None)) link_register link_unregister link_close ex_regs ex_link = (Inr x, L') \<and>
     link_owned L' = reg_table ex_regs"
proof (rule redial_recovers [OF ex_regs_ok])
  show "(2::nat) < controlRedialAttempts" by simp
  show "regs_clear ex_regs (lk_token ex_link) (ex_env 2 s)" for s
    by (simp add: regs_clear_def ex_regs_def ex_env_def)
qed (simp_all add: ex_link_def)


theorem rollback_restores_witness:
  "\<exists>e t L' L''. registerPorts link_register newStartTransaction ex_link ''shop/api'' [ex_port] [] = ((e, t), L') \<and>
     rollback link_unregister (foldl compensate t [4, 5]) L' = ([5, 4], L'') \<and> link_owned L'' = link_owned ex_link"
proof -
  obtain e t L' where r: "registerPorts link_register newStartTransaction ex_link ''shop/api'' [ex_port] [] = ((e, t), L')"
    by (metis surj_pair)
  obtain rel L'' where b: "rollback link_unregister (foldl compensate t [4, 5]) L' = (rel, L'')" by fastforce
  from rollback_restores [OF r b] r b show ?thesis by auto
qed

end
