(* ===== verification/Manager.thy ===== *)
theory Manager
  imports Control
begin

text \<open>
  The intercept manager, \<^verbatim>\<open>manager.go\<close> and \<^verbatim>\<open>start.go\<close>: starting, stopping and recovering
  Exchanges, Mirrors and Previews. The manager's lock is released while the cluster and the
  Gateway are talked to; what other goroutines do to the manager meanwhile is an argument of
  the operations (\<open>mid1\<close>, \<open>mid2\<close>: functions on the manager), as are the answers of the
  cluster. The registrar (\<^verbatim>\<open>controlRegistrar\<close>) is an argument too and its state is threaded
  through. An outcome records the leases acquired and those released.
\<close>

section \<open>State\<close>

record manager =
  m_active :: bool
  m_stopping :: bool
  m_contextName :: string
  m_gatewayIP :: string
  m_gatewayAddress :: string
  m_sessionToken :: SessionToken
  m_control :: controlSession
  m_nextPort :: u32
  m_registry :: runtimeRegistry
  m_routes :: hostRouteRegistry

definition NewManager :: manager where
  "NewManager = \<lparr>m_active = False, m_stopping = False, m_contextName = [], m_gatewayIP = [],
     m_gatewayAddress = [], m_sessionToken = zero_token, m_control = newControlSession,
     m_nextPort = 20000, m_registry = newRuntimeRegistry, m_routes = []\<rparr>"

text \<open>\<^verbatim>\<open>Start\<close>, with the token given or drawn and the answer of the dial.\<close>

definition Start ::
  "manager \<Rightarrow> string \<Rightarrow> string \<Rightarrow> string \<Rightarrow> SessionToken res \<Rightarrow> (controlClient \<times> nat) res \<Rightarrow> goerr option \<times> manager"
where
  "Start m contextName gatewayIP gatewayAddress token opened =
     (if m_active m then (Some (Errorf ''intercept manager already started''), m)
      else case token of
        Inl e \<Rightarrow> (Some e, m)
      | Inr sessionToken \<Rightarrow>
          (case cs_connect ((m_control m)\<lparr>cs_token := sessionToken\<rparr>) opened of
             (Some e, c) \<Rightarrow> (Some e, m\<lparr>m_control := c\<rparr>)
           | (None, c) \<Rightarrow> (None, m\<lparr>m_control := c, m_active := True, m_stopping := False,
                m_contextName := contextName, m_gatewayIP := gatewayIP, m_gatewayAddress := gatewayAddress,
                m_sessionToken := sessionToken\<rparr>)))"

definition releaseStartReservation :: "manager \<Rightarrow> string \<Rightarrow> u64 \<Rightarrow> manager" where
  "releaseStartReservation m key reservation = m\<lparr>m_registry := release (m_registry m) key reservation\<rparr>"

section \<open>Starting\<close>

record 's outcome =
  o_result :: "Info res"
  o_manager :: manager
  o_link :: 's
  o_acquired :: "lease list"
  o_released :: "lease list"

text \<open>A return before the transaction exists: only the reservation is given back.\<close>

definition abortReserved :: "goerr \<Rightarrow> manager \<Rightarrow> string \<Rightarrow> u64 \<Rightarrow> 's \<Rightarrow> 's outcome" where
  "abortReserved e m key reservation g =
     \<lparr>o_result = Inl e, o_manager = releaseStartReservation m key reservation, o_link = g,
      o_acquired = [], o_released = []\<rparr>"

text \<open>A return after it: the deferred \<^verbatim>\<open>rollback\<close>, then the reservation.\<close>

definition abortTransaction ::
  "('s \<Rightarrow> string \<Rightarrow> goerr option \<times> 's) \<Rightarrow> goerr \<Rightarrow> manager \<Rightarrow> string \<Rightarrow> u64 \<Rightarrow> startTransaction \<Rightarrow> 's \<Rightarrow>
   lease list \<Rightarrow> 's outcome"
where
  "abortTransaction unregister e m key reservation t g acquired =
     (case rollback unregister t g of
        (released, g') \<Rightarrow>
          \<lparr>o_result = Inl e, o_manager = releaseStartReservation m key reservation, o_link = g',
           o_acquired = acquired, o_released = released\<rparr>)"

text \<open>
  The last critical section of a start, common to \<^verbatim>\<open>startServiceIntercept\<close> and
  \<^verbatim>\<open>StartPreview\<close>: the checks, then the routes, the runtime and the reservation in one step.
\<close>

definition publishStart ::
  "('s \<Rightarrow> string \<Rightarrow> goerr option \<times> 's) \<Rightarrow> manager \<Rightarrow> controlClient option \<Rightarrow> u64 \<Rightarrow> string \<Rightarrow> u64 \<Rightarrow>
   Service \<Rightarrow> Info \<Rightarrow> lease \<Rightarrow> (string, string) kv option \<Rightarrow> string \<Rightarrow> startTransaction \<Rightarrow> 's \<Rightarrow> 's outcome"
where
  "publishStart unregister m control generation key reservation service info l primaryAddrs mode t g =
     (if \<not> m_active m \<or> \<not> cs_matches (m_control m) control generation \<or> \<not> reserved (m_registry m) key reservation
      then abortTransaction unregister (Errorf (''session changed while starting service '' @ key)) m key reservation t g [l]
      else
        (case install (m_routes m) service (inf_Ports info) (st_portKeys t) primaryAddrs mode (inf_Preview info)
             (inf_ID info) of
           (hostKeys, routes) \<Rightarrow>
             (let rt = \<lparr>ri_info = info, ri_lease = l, ri_portKeys = st_portKeys t, ri_primaryAddrs = primaryAddrs,
                        ri_hostKeys = hostKeys, ri_stopping = False\<rparr>;
                  m' = m\<lparr>m_routes := routes,
                         m_registry := release (reg_add (m_registry m) rt) key reservation\<rparr>
              in case rollback unregister (commit t) g of
                   (released, g') \<Rightarrow>
                     \<lparr>o_result = Inr info, o_manager = releaseStartReservation m' key reservation, o_link = g',
                      o_acquired = [l], o_released = released\<rparr>)))"

definition failedStart :: "goerr \<Rightarrow> manager \<Rightarrow> 's \<Rightarrow> 's outcome" where
  "failedStart e m g = \<lparr>o_result = Inl e, o_manager = m, o_link = g, o_acquired = [], o_released = []\<rparr>"

text \<open>
  \<^verbatim>\<open>startServiceIntercept\<close> in its order: \<open>applyIntercept\<close> from the call of the cluster on,
  \<open>startReserved\<close> from the reservation on, and the whole function.
\<close>

definition applyIntercept ::
  "('s \<Rightarrow> string \<Rightarrow> goerr option \<times> 's) \<Rightarrow> (lease \<times> Backend list) res \<Rightarrow> (manager \<Rightarrow> manager) \<Rightarrow> manager \<Rightarrow>
   controlClient option \<Rightarrow> u64 \<Rightarrow> string \<Rightarrow> u64 \<Rightarrow> Service \<Rightarrow> Info \<Rightarrow> startTransaction \<Rightarrow> 's \<Rightarrow> 's outcome"
where
  "applyIntercept unregister apply mid2 m control generation key reservation service info t g =
     (case apply of
        Inl e \<Rightarrow> abortTransaction unregister e m key reservation t g []
      | Inr (l, backends) \<Rightarrow>
          if inf_Mode info = ModeMirror then
            (case buildPrimaryAddrs backends (inf_Ports info) (st_portKeys t) (inf_ID info) of
               Inl e \<Rightarrow> abortTransaction unregister e m key reservation (compensate t l) g [l]
             | Inr primaryAddrs \<Rightarrow>
                 publishStart unregister (mid2 m) control generation key reservation service info l
                   (Some primaryAddrs) (inf_Mode info) (compensate t l) g)
          else publishStart unregister (mid2 m) control generation key reservation service info l
                 None (inf_Mode info) (compensate t l) g)"

definition startReserved ::
  "('s \<Rightarrow> string \<Rightarrow> byte \<Rightarrow> u16 \<Rightarrow> goerr option \<times> 's) \<Rightarrow> ('s \<Rightarrow> string \<Rightarrow> goerr option \<times> 's) \<Rightarrow>
   Service res \<Rightarrow> (lease \<times> Backend list) res \<Rightarrow> (manager \<Rightarrow> manager) \<Rightarrow> manager \<Rightarrow>
   controlClient option \<Rightarrow> u64 \<Rightarrow> string \<Rightarrow> u64 \<Rightarrow> string \<Rightarrow> 's \<Rightarrow> Mapping \<Rightarrow> 's outcome"
where
  "startReserved register unregister getService apply mid2 m control generation key reservation mode g mapping =
     (case getService of
        Inl e \<Rightarrow> abortReserved e m key reservation g
      | Inr service \<Rightarrow>
          (case resolveLocals mapping service of
             Inl e \<Rightarrow> abortReserved e m key reservation g
           | Inr locals \<Rightarrow>
               (case buildPortsForLocals service locals (m_nextPort m) of
                  (Inl e, np) \<Rightarrow> abortReserved e (m\<lparr>m_nextPort := np\<rparr>) key reservation g
                | (Inr ports, np) \<Rightarrow>
                    (let m = m\<lparr>m_nextPort := np\<rparr>;
                         interceptID = mp_Namespace mapping @ ''/'' @ mp_Service mapping;
                         info = \<lparr>inf_ID = interceptID, inf_Namespace = mp_Namespace mapping,
                                 inf_Service = mp_Service mapping, inf_ClusterIP = svc_ClusterIP service,
                                 inf_Preview = False, inf_Mode = mode, inf_Ports = ports, inf_Locals = locals\<rparr>
                     in case registerPorts register newStartTransaction g interceptID ports locals of
                          ((Some e, t), g1) \<Rightarrow> abortTransaction unregister e m key reservation t g1 []
                        | ((None, t), g1) \<Rightarrow>
                            applyIntercept unregister apply mid2 m control generation key reservation
                              service info t g1))))"

definition startServiceIntercept ::
  "('s \<Rightarrow> string \<Rightarrow> byte \<Rightarrow> u16 \<Rightarrow> goerr option \<times> 's) \<Rightarrow> ('s \<Rightarrow> string \<Rightarrow> goerr option \<times> 's) \<Rightarrow>
   Service res \<Rightarrow> (lease \<times> Backend list) res \<Rightarrow> (manager \<Rightarrow> manager) \<Rightarrow> (manager \<Rightarrow> manager) \<Rightarrow>
   manager \<Rightarrow> 's \<Rightarrow> Mapping \<Rightarrow> 's outcome"
where
  "startServiceIntercept register unregister getService apply mid1 mid2 m g mapping0 =
     (let mapping = (if mp_Namespace mapping0 = [] then mapping0\<lparr>mp_Namespace := ''default''\<rparr> else mapping0);
          mode = (if mp_Mode mapping = [] then ModeExchange else mp_Mode mapping);
          key = mp_Namespace mapping @ ''/'' @ mp_Service mapping
      in case cs_snapshot (m_control m) of (control, controlGeneration, controlReady) \<Rightarrow>
           if mp_Service mapping = [] then failedStart (Errorf ''service is required'') m g
           else if mode \<noteq> ModeExchange \<and> mode \<noteq> ModeMirror
           then failedStart (Errorf (''unsupported intercept mode '' @ quote mode)) m g
           else if \<not> m_active m \<or> \<not> controlReady then failedStart (Errorf ''session is not connected'') m g
           else if getByKey (m_registry m) key \<noteq> None
           then failedStart (conflictError key mode (getByKey (m_registry m) key)) m g
           else case reserve (m_registry m) key of ((reservation, ok), r) \<Rightarrow>
             if \<not> ok then failedStart (Errorf (''service '' @ key @ '' start is already in progress'')) m g
             else startReserved register unregister getService apply mid2 (mid1 (m\<lparr>m_registry := r\<rparr>))
                    control controlGeneration key reservation mode g mapping)"

definition StartIntercept where
  "StartIntercept register unregister getService apply mid1 mid2 m g mapping =
     startServiceIntercept register unregister getService apply mid1 mid2 m g (mapping\<lparr>mp_Mode := ModeExchange\<rparr>)"

definition StartMirror where
  "StartMirror register unregister getService apply mid1 mid2 m g mapping =
     startServiceIntercept register unregister getService apply mid1 mid2 m g (mapping\<lparr>mp_Mode := ModeMirror\<rparr>)"

text \<open>\<^verbatim>\<open>StartPreview\<close>, from the reservation on, and whole.\<close>

definition previewReserved ::
  "('s \<Rightarrow> string \<Rightarrow> byte \<Rightarrow> u16 \<Rightarrow> goerr option \<times> 's) \<Rightarrow> ('s \<Rightarrow> string \<Rightarrow> goerr option \<times> 's) \<Rightarrow>
   (Service \<times> lease) res \<Rightarrow> (manager \<Rightarrow> manager) \<Rightarrow> manager \<Rightarrow>
   controlClient option \<Rightarrow> u64 \<Rightarrow> string \<Rightarrow> u64 \<Rightarrow> PortMapping list \<Rightarrow> 's \<Rightarrow> PreviewRequest \<Rightarrow> 's outcome"
where
  "previewReserved register unregister create mid2 m control generation key reservation locals g request =
     (case buildPreviewPorts locals (m_nextPort m) of
        (ports, np) \<Rightarrow>
          (let m = m\<lparr>m_nextPort := np\<rparr>; previewID = pr_Namespace request @ ''/'' @ pr_Name request in
           case registerPorts register newStartTransaction g previewID ports locals of
             ((Some e, t), g1) \<Rightarrow> abortTransaction unregister e m key reservation t g1 []
           | ((None, t), g1) \<Rightarrow>
               (case create of
                  Inl e \<Rightarrow> abortTransaction unregister e m key reservation t g1 []
                | Inr (service, l) \<Rightarrow>
                    (let info = \<lparr>inf_ID = previewID, inf_Namespace = pr_Namespace request,
                                 inf_Service = pr_Name request, inf_ClusterIP = svc_ClusterIP service,
                                 inf_Preview = True, inf_Mode = [], inf_Ports = ports, inf_Locals = locals\<rparr>
                     in publishStart unregister (mid2 m) control generation key reservation service info l
                          None ModeExchange (compensate t l) g1))))"

definition StartPreview ::
  "('s \<Rightarrow> string \<Rightarrow> byte \<Rightarrow> u16 \<Rightarrow> goerr option \<times> 's) \<Rightarrow> ('s \<Rightarrow> string \<Rightarrow> goerr option \<times> 's) \<Rightarrow>
   (Service \<times> lease) res \<Rightarrow> (manager \<Rightarrow> manager) \<Rightarrow> (manager \<Rightarrow> manager) \<Rightarrow> manager \<Rightarrow> 's \<Rightarrow> PreviewRequest \<Rightarrow> 's outcome"
where
  "StartPreview register unregister create mid1 mid2 m g request0 =
     (let request = (if pr_Namespace request0 = [] then request0\<lparr>pr_Namespace := ''default''\<rparr> else request0);
          key = pr_Namespace request @ ''/'' @ pr_Name request
      in if pr_Name request = [] then failedStart (Errorf ''service name is required'') m g
         else case normalizePreviewPorts (pr_Ports request) of
           Inl e \<Rightarrow> failedStart e m g
         | Inr locals \<Rightarrow>
             (case cs_snapshot (m_control m) of (control, controlGeneration, controlReady) \<Rightarrow>
                if \<not> m_active m \<or> \<not> controlReady then failedStart (Errorf ''session is not connected'') m g
                else if containsKey (m_registry m) key
                then failedStart (Errorf (''service '' @ key @ '' is already in use'')) m g
                else case reserve (m_registry m) key of ((reservation, ok), r) \<Rightarrow>
                  if \<not> ok then failedStart (Errorf (''service '' @ key @ '' start is already in progress'')) m g
                  else previewReserved register unregister create mid2 (mid1 (m\<lparr>m_registry := r\<rparr>))
                         control controlGeneration key reservation locals g request))"

section \<open>Stopping\<close>

text \<open>
  \<^verbatim>\<open>Stop\<close>: \<open>releaseErr\<close> is the answer of the lease, \<open>mid\<close> what happens while it is
  released. Runtimes are compared by identity, that is, by their leases.
\<close>

definition same_runtime :: "runtimeIntercept option \<Rightarrow> runtimeIntercept \<Rightarrow> bool" where
  "same_runtime found rt \<longleftrightarrow> (case found of None \<Rightarrow> False | Some rt' \<Rightarrow> ri_lease rt' = ri_lease rt)"

definition set_stopping :: "manager \<Rightarrow> string \<Rightarrow> bool \<Rightarrow> manager" where
  "set_stopping m ID b =
     (case reg_get (m_registry m) ID of
        None \<Rightarrow> m
      | Some rt \<Rightarrow> m\<lparr>m_registry := (m_registry m)\<lparr>byID := kv_put ID (rt\<lparr>ri_stopping := b\<rparr>) (byID (m_registry m))\<rparr>\<rparr>)"

definition Stop ::
  "('s \<Rightarrow> string \<Rightarrow> goerr option \<times> 's) \<Rightarrow> goerr option \<Rightarrow> (manager \<Rightarrow> manager) \<Rightarrow> manager \<Rightarrow> 's \<Rightarrow> string \<Rightarrow>
   goerr option \<times> manager \<times> 's"
where
  "Stop unregister releaseErr mid m g ID =
     (case reg_get (m_registry m) ID of
        None \<Rightarrow> (Some (Errorf (''intercept '' @ quote ID @ '' not found'')), m, g)
      | Some rt \<Rightarrow>
          if ri_stopping rt then (Some (Errorf (''intercept '' @ quote ID @ '' stop already in progress'')), m, g)
          else
            (let m1 = mid (set_stopping m ID True); same = same_runtime (reg_get (m_registry m1) ID) rt in
             case releaseErr of
               Some e \<Rightarrow> (Some e, if same then set_stopping m1 ID False else m1, g)
             | None \<Rightarrow>
                 if \<not> same then (None, m1, g)
                 else
                   (let m2 = m1\<lparr>m_registry := snd (reg_remove (m_registry m1) ID),
                                m_routes := routes_remove (m_routes m1) (ri_hostKeys rt)\<rparr>
                    in case cs_client (m_control m1) of
                         None \<Rightarrow> (None, m2, g)
                       | Some control \<Rightarrow> (None, m2, unregisterPorts unregister (ri_portKeys rt) g))))"

text \<open>The loop of \<^verbatim>\<open>StopAll\<close>, with the answer of each lease; the first error is kept.\<close>

fun stopLoop ::
  "('s \<Rightarrow> string \<Rightarrow> goerr option \<times> 's) \<Rightarrow> (string \<Rightarrow> goerr option) \<Rightarrow> string list \<Rightarrow> goerr option \<Rightarrow> manager \<Rightarrow> 's \<Rightarrow>
   goerr option \<times> manager \<times> 's"
where
  "stopLoop unregister releaseErr [] firstErr m g = (firstErr, m, g)"
| "stopLoop unregister releaseErr (ID # IDs) firstErr m g =
     (case Stop unregister (releaseErr ID) id m g ID of
        (e, m, g) \<Rightarrow> stopLoop unregister releaseErr IDs (if firstErr = None then e else firstErr) m g)"

definition StopAll ::
  "('s \<Rightarrow> string \<Rightarrow> goerr option \<times> 's) \<Rightarrow> (string \<Rightarrow> goerr option) \<Rightarrow> manager \<Rightarrow> 's \<Rightarrow>
   (goerr option \<times> controlClient option) \<times> manager \<times> 's"
where
  "StopAll unregister releaseErr m g =
     (case cs_stop (m_control m) of
        (control, c) \<Rightarrow>
          (case stopLoop unregister releaseErr (ids (m_registry m)) None
               (m\<lparr>m_stopping := True, m_control := c, m_active := False\<rparr>) g of
             (firstErr, m', g') \<Rightarrow> ((firstErr, control), m', g')))"

section \<open>Recovering\<close>

text \<open>
  \<^verbatim>\<open>recoverControlAt\<close>; \<open>dialed\<close> is \<^verbatim>\<open>redial\<close> on the registrations, \<open>mid\<close> what happens
  meanwhile. The answer names the channels the caller has closed.
\<close>

definition recoverControlAt ::
  "(controlRegistration list \<Rightarrow> 's \<Rightarrow> (controlClient \<times> nat) res \<times> 's) \<Rightarrow> (manager \<Rightarrow> manager) \<Rightarrow>
   manager \<Rightarrow> 's \<Rightarrow> string \<Rightarrow> string \<Rightarrow> (goerr option \<times> controlClient list) \<times> manager \<times> 's"
where
  "recoverControlAt dialed mid m g gatewayIP gatewayAddress =
     (if \<not> m_active m \<or> m_stopping m then ((Some (Errorf ''session is not connected''), []), m, g)
      else if cs_recovering (m_control m)
      then ((Some (Errorf ''control recovery already in progress''), []), m, g)
      else if gatewayAddress = [] then ((Some (Errorf ''gateway address is unavailable''), []), m, g)
      else case beginRecovery (m_control m) of ((old, generation), c) \<Rightarrow>
        (let closedOld = (case old of None \<Rightarrow> [] | Some x \<Rightarrow> [x]); m1 = mid (m\<lparr>m_control := c\<rparr>) in
         case dialed (registrations (m_registry m)) g of
           (Inl e, g') \<Rightarrow>
             ((Some e, closedOld), m1\<lparr>m_control := recoveryFailed (m_control m1) generation\<rparr>, g')
         | (Inr (control, lost), g') \<Rightarrow>
             (if \<not> m_active m1 \<or> m_stopping m1
              then ((Some (Errorf ''session is not connected''), closedOld @ [control]), m1, g')
              else case finishRecovery (m_control m1) generation control lost of
                (False, c') \<Rightarrow> ((Some (Errorf ''session is not connected''), closedOld @ [control]), m1, g')
              | (True, c') \<Rightarrow>
                  ((None, closedOld),
                   m1\<lparr>m_control := c', m_gatewayIP := gatewayIP, m_gatewayAddress := gatewayAddress\<rparr>, g'))))"

definition RecoverControl where
  "RecoverControl dialed mid m g = recoverControlAt dialed mid m g (m_gatewayIP m) (m_gatewayAddress m)"

section \<open>How a start can end\<close>

text \<open>
  The three ways: before anything was registered, after a registration with everything to be
  undone, and in the last critical section.
\<close>

definition reg_done ::
  "('s \<Rightarrow> string \<Rightarrow> byte \<Rightarrow> u16 \<Rightarrow> goerr option \<times> 's) \<Rightarrow> 's \<Rightarrow> string \<Rightarrow> InterceptPort list \<Rightarrow> PortMapping list \<Rightarrow>
   startTransaction \<Rightarrow> 's \<Rightarrow> bool" where
  "reg_done register g i ports locals t g1 \<longleftrightarrow>
     (\<exists>e. registerPorts register newStartTransaction g i ports locals = ((e, t), g1))"

inductive start_ends ::
  "('s \<Rightarrow> string \<Rightarrow> byte \<Rightarrow> u16 \<Rightarrow> goerr option \<times> 's) \<Rightarrow> ('s \<Rightarrow> string \<Rightarrow> goerr option \<times> 's) \<Rightarrow>
   manager \<Rightarrow> (u64 \<Rightarrow> manager \<Rightarrow> bool) \<Rightarrow> 's \<Rightarrow> string \<Rightarrow> 's outcome \<Rightarrow> bool"
  for register unregister m0 R g key
where
  refused: "start_ends register unregister m0 R g key (failedStart e m0 g)"
| early: "R res m' \<Longrightarrow> start_ends register unregister m0 R g key (abortReserved e m' key res g)"
| undone: "R res m' \<Longrightarrow> reg_done register g i ports locals t g1 \<Longrightarrow> length ls \<le> 1 \<Longrightarrow>
     start_ends register unregister m0 R g key
       (abortTransaction unregister e m' key res (foldl compensate t ls) g1 ls)"
| published: "R res m' \<Longrightarrow> registerPorts register newStartTransaction g (inf_ID info) (inf_Ports info) (inf_Locals info) = ((None, t), g1) \<Longrightarrow>
     map ip_id (inf_Ports info) = map pm_id (inf_Locals info) \<Longrightarrow>
     inf_ID info = key \<Longrightarrow> inf_ID info = runtimeKey (inf_Namespace info) (inf_Service info) \<Longrightarrow>
     start_ends register unregister m0 R g key
       (publishStart unregister m' control gen key res service info l prim mode (compensate t l) g1)"

lemma undone_none:
  "reg_done register g i ports locals t g1 \<Longrightarrow> R res m' \<Longrightarrow>
   start_ends register unregister m0 R g key (abortTransaction unregister e m' key res t g1 [])"
  using start_ends.undone [where ls = "[]" and R = R] by simp

lemma undone_one:
  "reg_done register g i ports locals t g1 \<Longrightarrow> R res m' \<Longrightarrow>
   start_ends register unregister m0 R g key (abortTransaction unregister e m' key res (compensate t l) g1 [l])"
  using start_ends.undone [where ls = "[l]" and R = R] by simp

definition mapping_key :: "Mapping \<Rightarrow> string" where
  "mapping_key mp = (if mp_Namespace mp = [] then ''default'' else mp_Namespace mp) @ ''/'' @ mp_Service mp"

text \<open>The managers a start may see while it holds its reservation.\<close>

definition start_sees :: "(manager \<Rightarrow> manager) \<Rightarrow> (manager \<Rightarrow> manager) \<Rightarrow> manager \<Rightarrow> string \<Rightarrow> u64 \<Rightarrow> manager \<Rightarrow> bool" where
  "start_sees mid1 mid2 m key res m' \<longleftrightarrow>
     (\<exists>r. reserve (m_registry m) key = ((res, True), r) \<and>
        (let m1 = mid1 (m\<lparr>m_registry := r\<rparr>)
         in m' = m1 \<or> (\<exists>np. m' = m1\<lparr>m_nextPort := np\<rparr> \<or> m' = mid2 (m1\<lparr>m_nextPort := np\<rparr>))))"

lemma applyIntercept_ends:
  assumes "registerPorts register newStartTransaction g (inf_ID info) (inf_Ports info) (inf_Locals info) = ((None, t), g1)"
    and "map ip_id (inf_Ports info) = map pm_id (inf_Locals info)"
    and "inf_ID info = key" "inf_ID info = runtimeKey (inf_Namespace info) (inf_Service info)"
    and "R res m" "R res (mid2 m)"
  shows "start_ends register unregister m0 R g key
    (applyIntercept unregister apply mid2 m control gen key res service info t g1)"
proof -
  have r: "reg_done register g (inf_ID info) (inf_Ports info) (inf_Locals info) t g1"
    using assms(1) by (auto simp: reg_done_def)
  show ?thesis
    unfolding applyIntercept_def
    using assms(5,6)
    by (auto split: sum.split intro: undone_none [OF r] undone_one [OF r] start_ends.published [OF _ assms(1-4)])
qed

lemma startReserved_ends:
  "key = runtimeKey (mp_Namespace mp) (mp_Service mp) \<Longrightarrow> R res m \<Longrightarrow>
   (\<And>np. R res (m\<lparr>m_nextPort := np\<rparr>) \<and> R res (mid2 (m\<lparr>m_nextPort := np\<rparr>))) \<Longrightarrow>
   start_ends register unregister m0 R g key
     (startReserved register unregister getService apply mid2 m control gen key res mode g mp)"
  unfolding startReserved_def Let_def
  by (auto split: sum.split prod.split option.split intro!: applyIntercept_ends undone_none start_ends.early
      simp: reg_done_def runtimeKey_def buildPorts_ids)

lemma startServiceIntercept_ends:
  "start_ends register unregister m (start_sees mid1 mid2 m (mapping_key mp)) g (mapping_key mp)
     (startServiceIntercept register unregister getService apply mid1 mid2 m g mp)"
proof -
  define mp' where "mp' = (if mp_Namespace mp = [] then mp\<lparr>mp_Namespace := ''default''\<rparr> else mp)"
  have k: "mp_Namespace mp' @ ''/'' @ mp_Service mp' = mapping_key mp" by (simp add: mapping_key_def mp'_def)
  have k': "mapping_key mp = runtimeKey (mp_Namespace mp') (mp_Service mp')"
    by (simp add: mapping_key_def runtimeKey_def mp'_def)
  show ?thesis
    unfolding startServiceIntercept_def Let_def mp'_def [symmetric] k
    by (auto split: prod.split intro!: startReserved_ends [OF k'] start_ends.refused simp: start_sees_def Let_def)
qed

definition preview_key :: "PreviewRequest \<Rightarrow> string" where
  "preview_key pr = (if pr_Namespace pr = [] then ''default'' else pr_Namespace pr) @ ''/'' @ pr_Name pr"

lemma previewReserved_ends:
  assumes "key = runtimeKey (pr_Namespace pr) (pr_Name pr)"
    and "\<And>np. R res (m\<lparr>m_nextPort := np\<rparr>) \<and> R res (mid2 (m\<lparr>m_nextPort := np\<rparr>))"
  shows "start_ends register unregister m0 R g key
     (previewReserved register unregister create mid2 m control gen key res locals g pr)"
proof (cases "buildPreviewPorts locals (m_nextPort m)")
  case (Pair ports np)
  obtain e t g1 where r: "registerPorts register newStartTransaction g key ports locals = ((e, t), g1)"
    by (metis surj_pair)
  have d: "reg_done register g key ports locals t g1" using r by (auto simp: reg_done_def)
  have k: "pr_Namespace pr @ ''/'' @ pr_Name pr = key" by (simp add: assms(1) runtimeKey_def)
  note ids = buildPreviewPorts_shape [OF Pair]
  show ?thesis
  proof (cases "e = None \<and> (\<exists>x. create = Inr x)")
    case True
    then obtain service l where c: "create = Inr (service, l)" by auto
    show ?thesis
      unfolding previewReserved_def Pair Let_def k r using True c assms(2)
      by (auto intro!: start_ends.published simp: r ids assms(1) [symmetric])
  next
    case False
    then show ?thesis
      unfolding previewReserved_def Pair Let_def k r using assms(2)
      by (auto simp: r split: option.split sum.split intro: undone_none [OF d])
  qed
qed

lemma StartPreview_ends:
  "start_ends register unregister m (start_sees mid1 mid2 m (preview_key pr)) g (preview_key pr)
     (StartPreview register unregister create mid1 mid2 m g pr)"
proof -
  define pr' where "pr' = (if pr_Namespace pr = [] then pr\<lparr>pr_Namespace := ''default''\<rparr> else pr)"
  have k: "pr_Namespace pr' @ ''/'' @ pr_Name pr' = preview_key pr" by (simp add: preview_key_def pr'_def)
  have k': "preview_key pr = runtimeKey (pr_Namespace pr') (pr_Name pr')"
    by (simp add: preview_key_def runtimeKey_def pr'_def)
  show ?thesis
    unfolding StartPreview_def Let_def pr'_def [symmetric] k
    by (auto split: prod.split sum.split intro!: previewReserved_ends [OF k'] start_ends.refused simp: start_sees_def Let_def)
qed

section \<open>Starts that fail, starts that succeed\<close>

lemma abortTransaction_sel:
  "o_result (abortTransaction unregister e m k res t g acq) = Inl e"
  "o_acquired (abortTransaction unregister e m k res t g acq) = acq"
  "o_released (abortTransaction unregister e m k res t g acq) = fst (rollback unregister t g)"
  "o_link (abortTransaction unregister e m k res t g acq) = snd (rollback unregister t g)"
  "o_manager (abortTransaction unregister e m k res t g acq) = releaseStartReservation m k res"
  by (simp_all add: abortTransaction_def split: prod.split)

lemma foldl_compensate: "foldl compensate t ls = t\<lparr>st_compensations := st_compensations t @ ls\<rparr>"
  by (induction ls arbitrary: t) (simp_all add: compensate_def)

context control_registrar
begin

lemma rollback_owned:
  assumes "reg_done register g i ports locals t g1"
  shows "owned (snd (rollback unregister (foldl compensate t ls) g1)) = owned g \<and>
    fst (rollback unregister (foldl compensate t ls) g1) = rev ls"
proof -
  from assms obtain e where "registerPorts register newStartTransaction g i ports locals = ((e, t), g1)"
    by (auto simp: reg_done_def)
  from registerPorts_registerAll [OF this] obtain e' where
    r: "registerAll register (map (port_registration i) ports) [] g = ((e', st_registered t), g1)"
    and t: "st_compensations t = []" "\<not> st_committed t"
    by (auto simp: newStartTransaction_def)
  have "owned (unregisterAll unregister (rev (st_registered t)) g1) = owned g"
    by (rule register_undo [OF r]) simp
  with t show ?thesis by (simp add: rollback_def foldl_compensate)
qed

lemma start_failure:
  assumes "start_ends register unregister m0 R g key out" "o_result out = Inl e"
  shows "owned (o_link out) = owned g \<and> o_released out = o_acquired out"
  using assms
proof (cases rule: start_ends.cases)
  case (undone res m' i ports locals t g1 ls e)
  then have "rev ls = ls" by (cases ls) auto
  with undone rollback_owned [OF undone(3), of ls] show ?thesis by (simp add: abortTransaction_sel)
next
  case (published res m' info t g1 control gen service l prim mode)
  then have d: "reg_done register g (inf_ID info) (inf_Ports info) (inf_Locals info) t g1"
    by (auto simp: reg_done_def)
  from published assms(2) rollback_owned [OF d, of "[l]"] show ?thesis
    by (auto simp: publishStart_def Let_def abortTransaction_sel split: if_splits prod.splits)
qed (simp_all add: failedStart_def abortReserved_def)

end

lemma failure_manager:
  assumes "start_ends register unregister m0 R g key out" "o_result out = Inl e"
  shows "o_manager out = m0 \<or> (\<exists>res m'. R res m' \<and> o_manager out = releaseStartReservation m' key res)"
  using assms
proof (cases rule: start_ends.cases)
  case (published res m' info t g1 control gen service l prim mode)
  then show ?thesis using assms(2)
    by (auto simp: publishStart_def Let_def abortTransaction_sel split: if_splits prod.splits)
qed (auto simp: failedStart_def abortReserved_def abortTransaction_sel)

lemma publishStart_Inr:
  assumes "publishStart unregister m control gen key res service info l prim mode t g = out" "o_result out = Inr info'"
  shows "info' = info \<and> o_acquired out = [l] \<and> o_released out = [] \<and> o_link out = g \<and>
    reserved (m_registry m) key res \<and> m_active m \<and> cs_matches (m_control m) control gen \<and>
    (\<exists>hostKeys routes. install (m_routes m) service (inf_Ports info) (st_portKeys t) prim mode (inf_Preview info)
         (inf_ID info) = (hostKeys, routes) \<and>
       o_manager out = releaseStartReservation (m\<lparr>m_routes := routes,
         m_registry := release (reg_add (m_registry m) \<lparr>ri_info = info, ri_lease = l, ri_portKeys = st_portKeys t,
           ri_primaryAddrs = prim, ri_hostKeys = hostKeys, ri_stopping = False\<rparr>) key res\<rparr>) key res)"
  using assms by (auto simp: publishStart_def Let_def abortTransaction_sel rollback_def commit_def
      split: if_splits prod.splits)

lemma release_frame: "byID (release r k v) = byID r" "byKey (release r k v) = byKey r"
  by (simp_all add: release_def)

lemma release_starting: "reserved r k v \<Longrightarrow> kv_get (starting (release r k v)) k = None"
  by (simp add: release_def kv_simps)

lemma release_twice: "release (release r k v) k v = release r k v"
  by (auto simp: release_def reserved_def kv_simps)

lemma success_elim:
  assumes "start_ends register unregister m0 R g key out" "o_result out = Inr info"
  obtains res m' t g1 service prim mode routes rt where
    "R res m'" "reserved (m_registry m') key res" "cs_client (m_control m') \<noteq> None"
    "registerPorts register newStartTransaction g key (inf_Ports info) (inf_Locals info) = ((None, t), g1)"
    "ri_info rt = info" "ri_portKeys rt = st_portKeys t" "\<not> ri_stopping rt" "ri_ID rt = key" "ri_key rt = key"
    "install (m_routes m') service (inf_Ports info) (st_portKeys t) prim mode (inf_Preview info) key = (ri_hostKeys rt, routes)"
    "o_acquired out = [ri_lease rt]" "o_released out = []" "o_link out = g1"
    "o_manager out = m'\<lparr>m_routes := routes, m_registry := release (reg_add (m_registry m') rt) key res\<rparr>"
  using assms
proof (cases rule: start_ends.cases)
  case (published res m' info' t g1 control gen service l prim mode)
  from publishStart_Inr [OF published(1) [symmetric] assms(2)]
  obtain hostKeys routes where eq: "info' = info" "o_acquired out = [l]" "o_released out = []" "o_link out = g1"
    and rsv: "reserved (m_registry m') key res" and mt: "cs_matches (m_control m') control gen"
    and ins: "install (m_routes m') service (inf_Ports info) (st_portKeys t) prim mode (inf_Preview info) (inf_ID info) = (hostKeys, routes)"
    and m: "o_manager out = releaseStartReservation (m'\<lparr>m_routes := routes,
         m_registry := release (reg_add (m_registry m') \<lparr>ri_info = info, ri_lease = l, ri_portKeys = st_portKeys t,
           ri_primaryAddrs = prim, ri_hostKeys = hostKeys, ri_stopping = False\<rparr>) key res\<rparr>) key res"
    by (auto simp: compensate_def)
  have "cs_client (m_control m') \<noteq> None" using mt by (simp add: cs_matches_def cs_ready_def)
  with published [unfolded eq(1)] eq ins m rsv show ?thesis
    by (intro that [of res m' t g1 "\<lparr>ri_info = info, ri_lease = l, ri_portKeys = st_portKeys t,
           ri_primaryAddrs = prim, ri_hostKeys = hostKeys, ri_stopping = False\<rparr>"])
       (simp_all add: releaseStartReservation_def release_twice)
next
  case undone
  with assms(2) show ?thesis by (simp add: abortTransaction_sel)
qed (use assms(2) in \<open>simp_all add: failedStart_def abortReserved_def\<close>)

context control_registrar
begin

lemma ports_registered:
  assumes "registerPorts register newStartTransaction g i ports locals = ((None, t), g1)"
  shows "owned g1 = owned g ++ reg_table (map (port_registration i) ports)"
    and "distinct (map ip_id ports)"
    and "set (kv_keys (st_portKeys t)) = port_subID i ` set ports" and "kv_ok (st_portKeys t)"
    and "\<forall>p \<in> set ports. kv_get (st_portKeys t) (port_subID i p) = Some (localFor p locals)"
    and "owned (unregisterPorts unregister (st_portKeys t) g1) = owned g"
proof -
  from registerPorts_registerAll [OF assms] have
    ra: "registerAll register (map (port_registration i) ports) [] g = ((None, st_registered t), g1)"
    by (simp add: newStartTransaction_def)
  from registerAll_owned [OF ra]
  show "owned g1 = owned g ++ reg_table (map (port_registration i) ports)" by auto
  from registerAll_owned [OF ra]
  have st: "st_registered t = map (port_subID i) ports" and ds: "distinct (map (port_subID i) ports)"
    by (auto simp: port_registration_def comp_def)
  have "distinct (map (\<lambda>(n, p). subID i n p) (map ip_id ports))"
    using ds by (simp add: ip_id_def comp_def)
  then show d: "distinct (map ip_id ports)" by (simp only: distinct_map)
  from registerPorts_portKeys [OF assms d]
  show pk: "set (kv_keys (st_portKeys t)) = port_subID i ` set ports" and "kv_ok (st_portKeys t)"
    and "\<forall>p \<in> set ports. kv_get (st_portKeys t) (port_subID i p) = Some (localFor p locals)"
    by (simp_all add: newStartTransaction_def kv_keys_def)
  show "owned (unregisterPorts unregister (st_portKeys t) g1) = owned g"
    unfolding unregisterPorts_def by (rule register_undo [OF ra]) (simp add: pk st)
qed

text \<open>What a start that returns has done.\<close>

lemma start_success:
  assumes "start_ends register unregister m0 R g key out" "o_result out = Inr info"
  shows "\<exists>rt. reg_get (m_registry (o_manager out)) key = Some rt \<and> ri_info rt = info \<and> rt_ok rt \<and> ri_key rt = key \<and>
    o_acquired out = [ri_lease rt] \<and> o_released out = [] \<and>
    kv_get (starting (m_registry (o_manager out))) key = None \<and>
    owned (o_link out) = owned g ++ reg_table (map (port_registration key) (inf_Ports info)) \<and>
    (\<forall>p \<in> set (inf_Ports info). kv_get (ri_portKeys rt) (port_subID key p) = Some (localFor p (inf_Locals info)))"
  using assms
proof (rule success_elim)
  fix res m' t g1 service prim mode routes rt
  assume a: "reserved (m_registry m') key res"
    "registerPorts register newStartTransaction g key (inf_Ports info) (inf_Locals info) = ((None, t), g1)"
    "ri_info rt = info" "ri_portKeys rt = st_portKeys t" "ri_ID rt = key" "ri_key rt = key"
    "o_acquired out = [ri_lease rt]" "o_released out = []" "o_link out = g1"
    "o_manager out = m'\<lparr>m_routes := routes, m_registry := release (reg_add (m_registry m') rt) key res\<rparr>"
  have "reg_get (m_registry (o_manager out)) key = Some rt"
    using a(5) by (simp add: a(10) reg_get_def release_frame reg_add_def kv_simps)
  moreover have "kv_get (starting (m_registry (o_manager out))) key = None"
    using a(1) by (simp add: a(10) release_starting reserved_def reg_add_def)
  moreover have "rt_ok rt" using ports_registered [OF a(2)] a(3-6) by (simp add: rt_ok_def)
  ultimately show ?thesis using ports_registered [OF a(2)] a(3-9) by auto
qed

end


text \<open>
  A start that succeeds is complete: its runtime is in the registry under the Service,
  every port is registered at the Gateway under its own name, network and listen port and
  leads to its local mapping, the lease is kept, and the reservation is gone.
\<close>

theorem start_success_complete:
  assumes "out = startServiceIntercept link_register link_unregister getService apply mid1 mid2 m L mp \<and> key = mapping_key mp \<or>
           out = StartPreview link_register link_unregister create mid1 mid2 m L pr \<and> key = preview_key pr"
    and "o_result out = Inr info"
  shows "\<exists>rt. reg_get (m_registry (o_manager out)) key = Some rt \<and> ri_info rt = info \<and> rt_ok rt \<and> ri_key rt = key \<and>
    o_acquired out = [ri_lease rt] \<and> o_released out = [] \<and>
    kv_get (starting (m_registry (o_manager out))) key = None \<and>
    link_owned (o_link out) = link_owned L ++ reg_table (map (port_registration key) (inf_Ports info)) \<and>
    (\<forall>p. p \<in> set (inf_Ports info) \<longrightarrow>
       kv_get (ri_portKeys rt) (port_subID key p) = Some (localFor p (inf_Locals info)))"
proof -
  from assms(1) obtain R where "start_ends link_register link_unregister m R L key out"
    using startServiceIntercept_ends StartPreview_ends by metis
  from gwr.start_success [OF this assms(2)] show ?thesis by blast
qed

text \<open>
  A failed start can be tried again: when nothing else happens meanwhile, the indexes,
  the reservations, the routes and the control session are as they were.
\<close>

theorem start_failure_retry:
  assumes "out = startServiceIntercept link_register link_unregister getService apply id id m L mp \<or>
           out = StartPreview link_register link_unregister create id id m L pr"
    and "o_result out = Inl e" and "nextReservation (m_registry m) + 1 \<noteq> 0"
  shows "byID (m_registry (o_manager out)) = byID (m_registry m) \<and>
    byKey (m_registry (o_manager out)) = byKey (m_registry m) \<and>
    kv_get (starting (m_registry (o_manager out))) k = kv_get (starting (m_registry m)) k \<and>
    m_routes (o_manager out) = m_routes m \<and> m_control (o_manager out) = m_control m \<and>
    m_active (o_manager out) = m_active m"
proof -
  from assms(1,2) failure_manager [OF startServiceIntercept_ends] failure_manager [OF StartPreview_ends]
  obtain key where "o_manager out = m \<or>
      (\<exists>res m'. start_sees id id m key res m' \<and> o_manager out = releaseStartReservation m' key res)" by metis
  then show ?thesis
  proof (elim disjE exE conjE)
    fix res m' assume s: "start_sees id id m key res m'" and o: "o_manager out = releaseStartReservation m' key res"
    from s obtain r where r: "reserve (m_registry m) key = ((res, True), r)"
      and m': "m_registry m' = r" "m_routes m' = m_routes m" "m_control m' = m_control m" "m_active m' = m_active m"
      by (auto simp: start_sees_def Let_def)
    from r have rr: "r = (m_registry m)\<lparr>nextReservation := res, starting := kv_put key res (starting (m_registry m))\<rparr>"
      "res = nextReservation (m_registry m) + 1" "kv_get (starting (m_registry m)) key = None"
      by (auto simp: reserve_def Let_def split: if_splits)
    with assms(3) have "reserved r key res" by (simp add: reserved_def kv_simps)
    then show ?thesis using m' rr by (simp add: o releaseStartReservation_def release_def kv_simps)
  qed simp
qed

section \<open>Stopping\<close>

lemma Stop_quiet:
  assumes "reg_get (m_registry m) ID = Some rt" "\<not> ri_stopping rt"
  shows "Stop unregister None id m g ID =
    (None, m\<lparr>m_registry := (m_registry m)\<lparr>byID := kv_del ID (kv_put ID (rt\<lparr>ri_stopping := True\<rparr>) (byID (m_registry m))),
              byKey := kv_del (ri_key rt) (byKey (m_registry m))\<rparr>,
            m_routes := routes_remove (m_routes m) (ri_hostKeys rt)\<rparr>,
     if cs_client (m_control m) = None then g else unregisterPorts unregister (ri_portKeys rt) g)"
  using assms by (cases "cs_client (m_control m)")
    (simp_all add: Stop_def set_stopping_def same_runtime_def reg_get_def reg_remove_def kv_simps Let_def)

lemma Stop_refused:
  assumes "reg_get (m_registry m) ID = Some rt" "\<not> ri_stopping rt"
  shows "fst (Stop unregister (Some e) id m g ID) = Some e \<and> snd (snd (Stop unregister (Some e) id m g ID)) = g \<and>
    (let m' = fst (snd (Stop unregister (Some e) id m g ID)) in
       (\<forall>i. reg_get (m_registry m') i = reg_get (m_registry m) i) \<and> byKey (m_registry m') = byKey (m_registry m) \<and>
       m_routes m' = m_routes m)"
  using assms by (auto simp: Stop_def set_stopping_def same_runtime_def reg_get_def kv_simps Let_def)

text \<open>
  Stopping undoes starting: an intercept that was started and then stopped, with nothing
  else in between, is gone from both indexes, the Gateway holds for the channel what it held
  before, and a lookup finds a host route only where one was before.
\<close>

theorem start_stop_roundtrip:
  assumes "out = startServiceIntercept link_register link_unregister getService apply id id m L mp \<and> key = mapping_key mp \<or>
           out = StartPreview link_register link_unregister create id id m L pr \<and> key = preview_key pr"
    and "o_result out = Inr info" and "containsKey (m_registry m) key = False" and "reg_get (m_registry m) key = None"
  shows "\<exists>m' L'. Stop link_unregister None id (o_manager out) (o_link out) key = (None, m', L') \<and>
    reg_get (m_registry m') i = reg_get (m_registry m) i \<and>
    kv_get (byKey (m_registry m')) i = kv_get (byKey (m_registry m)) i \<and>
    link_owned L' = link_owned L \<and>
    (routes_lookup (m_routes m') host n = None \<or> routes_lookup (m_routes m') host n = routes_lookup (m_routes m) host n)"
proof -
  from assms(1) have "start_ends link_register link_unregister m (start_sees id id m key) L key out"
    using startServiceIntercept_ends StartPreview_ends by metis
  then show ?thesis using assms(2)
  proof (rule success_elim)
    fix res m1 t g1 service prim mode routes rt
    assume sees: "start_sees id id m key res m1" and cl: "cs_client (m_control m1) \<noteq> None"
      and reg: "registerPorts link_register newStartTransaction L key (inf_Ports info) (inf_Locals info) = ((None, t), g1)"
      and rt: "ri_portKeys rt = st_portKeys t" "\<not> ri_stopping rt" "ri_ID rt = key" "ri_key rt = key"
      and ins: "install (m_routes m1) service (inf_Ports info) (st_portKeys t) prim mode (inf_Preview info) key = (ri_hostKeys rt, routes)"
      and L: "o_link out = g1"
      and mo: "o_manager out = m1\<lparr>m_routes := routes, m_registry := release (reg_add (m_registry m1) rt) key res\<rparr>"
    from sees have r1: "byID (m_registry m1) = byID (m_registry m)" "byKey (m_registry m1) = byKey (m_registry m)"
      and m1: "m_routes m1 = m_routes m"
      by (auto simp: start_sees_def Let_def reserve_def split: if_splits)
    have "reg_get (m_registry (o_manager out)) key = Some rt"
      by (simp add: mo rt reg_get_def release_frame reg_add_def kv_simps)
    from Stop_quiet [OF this rt(2), of link_unregister g1] cl
    obtain m' where stop: "Stop link_unregister None id (o_manager out) (o_link out) key =
          (None, m', unregisterPorts link_unregister (st_portKeys t) g1)"
      and m': "byID (m_registry m') = kv_del key (kv_put key (rt\<lparr>ri_stopping := True\<rparr>) (byID (m_registry (o_manager out))))"
        "byKey (m_registry m') = kv_del key (byKey (m_registry (o_manager out)))"
        "m_routes m' = routes_remove routes (ri_hostKeys rt)"
      by (auto simp: L rt mo)
    have "reg_get (m_registry m') i = reg_get (m_registry m) i"
      using assms(4) rt by (auto simp: reg_get_def m'(1) mo release_frame reg_add_def kv_simps r1)
    moreover have "kv_get (byKey (m_registry m')) i = kv_get (byKey (m_registry m)) i"
      using assms(3) rt by (auto simp: m'(2) mo release_frame reg_add_def kv_simps r1 containsKey_def)
    moreover have "routes_lookup (m_routes m') host n = None \<or>
        routes_lookup (m_routes m') host n = routes_lookup (m_routes m) host n"
      using install_get [OF ins, of "normalizeRouteHost host" n] m1
      by (auto simp: m'(3) routes_lookup_def routes_remove_get split: option.splits if_splits)
    ultimately show ?thesis using stop gwr.ports_registered(6) [OF reg] by blast
  qed
qed

text \<open>
  A stop whose lease cannot be released changes nothing but the error it returns: the
  intercept stays in the registry with its routes and registrations and is not left marked
  as stopping, so the stop can be repeated.
\<close>

theorem stop_failure_retry:
  assumes "reg_get (m_registry m) ID = Some rt" and "\<not> ri_stopping rt"
    and "Stop unregister (Some e) id m g ID = (e', m', g')"
  shows "e' = Some e \<and> g' = g \<and> reg_get (m_registry m') i = reg_get (m_registry m) i \<and>
    byKey (m_registry m') = byKey (m_registry m) \<and> m_routes m' = m_routes m"
  using Stop_refused [OF assms(1,2), of unregister e g] assms(3) by (simp add: Let_def)

lemma stopLoop_all:
  assumes "index_inv (m_registry m)" "distinct IDs" "set IDs = set (kv_keys (byID (m_registry m)))"
    and "\<And>i rt. reg_get (m_registry m) i = Some rt \<Longrightarrow> \<not> ri_stopping rt"
    and "\<And>i. i \<in> set IDs \<Longrightarrow> releaseErr i = None" and "cs_client (m_control m) = None"
    and "stopLoop unregister releaseErr IDs firstErr m g = (e, m', g')"
  shows "e = firstErr \<and> g' = g \<and> byID (m_registry m') = [] \<and> byKey (m_registry m') = [] \<and>
    m_active m' = m_active m \<and> m_control m' = m_control m"
  using assms
proof (induction IDs arbitrary: m g)
  case Nil
  then have e: "e = firstErr" "m' = m" "g' = g" by auto
  from Nil(3) have b: "byID (m_registry m) = []" by (simp add: kv_keys_def)
  have "kv_get (byKey (m_registry m)) k = None" for k
  proof (cases "kv_get (byKey (m_registry m)) k")
    case (Some i)
    with Nil(1) have "kv_get (byID (m_registry m)) k \<noteq> None" unfolding index_inv_def by blast
    with b show ?thesis by simp
  qed
  then have "byKey (m_registry m) = []" by (metis kv_get_def map_of_eq_empty_iff ext)
  with e b show ?case by simp
next
  case (Cons ID IDs)
  from Cons.prems(3) have "kv_get (byID (m_registry m)) ID \<noteq> None" by (auto simp: kv_get_None)
  then obtain rt where rt: "reg_get (m_registry m) ID = Some rt" by (auto simp: reg_get_def)
  let ?m1 = "m\<lparr>m_registry := (m_registry m)\<lparr>byID := kv_del ID (byID (m_registry m)),
     byKey := kv_del (ri_key rt) (byKey (m_registry m))\<rparr>, m_routes := routes_remove (m_routes m) (ri_hostKeys rt)\<rparr>"
  from Stop_quiet [OF rt Cons.prems(4) [OF rt], of unregister g] Cons.prems(6)
  have st: "Stop unregister None id m g ID = (None, ?m1, g)" by simp
  have inv: "index_inv (m_registry ?m1)"
    using remove_index [OF Cons.prems(1), of ID rt "m_registry ?m1"] rt by (simp add: reg_remove_def reg_get_def)
  have keys: "set IDs = set (kv_keys (byID (m_registry ?m1)))"
    using Cons.prems(2,3) by (auto simp: kv_keys_del)
  have ns: "\<not> ri_stopping rt'" if "reg_get (m_registry ?m1) i = Some rt'" for i rt'
    using that Cons.prems(4) by (auto simp: reg_get_def kv_simps split: if_splits)
  have lp: "stopLoop unregister releaseErr IDs firstErr ?m1 g = (e, m', g')"
    using Cons.prems(5,7) st by simp
  from Cons.IH [OF inv _ keys ns _ _ lp] Cons.prems(2,5,6) show ?case by simp
qed

text \<open>
  \<^verbatim>\<open>StopAll\<close> empties the manager: when every lease is released, no intercept is left in
  either index, the manager is inactive, and the control channel is handed out to be closed,
  which is what takes the registrations back at the Gateway.
\<close>

theorem stopAll_empties:
  assumes "index_inv (m_registry m)" and "\<And>i rt. reg_get (m_registry m) i = Some rt \<Longrightarrow> \<not> ri_stopping rt"
    and "\<And>i. releaseErr i = None" and "StopAll unregister releaseErr m g = ((e, control), m', g')"
  shows "e = None \<and> control = cs_client (m_control m) \<and> byID (m_registry m') = [] \<and> byKey (m_registry m') = [] \<and>
    \<not> m_active m' \<and> cs_client (m_control m') = None"
proof -
  let ?m = "m\<lparr>m_stopping := True, m_control := snd (cs_stop (m_control m)), m_active := False\<rparr>"
  from assms(4) have l: "stopLoop unregister releaseErr (ids (m_registry m)) None ?m g = (e, m', g')"
    and c: "control = cs_client (m_control m)"
    by (auto simp: StopAll_def cs_stop_def split: prod.splits)
  have "distinct (ids (m_registry m))" using assms(1) by (simp add: ids_def index_inv_def kv_ok_def kv_keys_def)
  moreover have "set (ids (m_registry m)) = set (kv_keys (byID (m_registry ?m)))" by (simp add: ids_def)
  ultimately show ?thesis
    using stopLoop_all [of ?m "ids (m_registry m)" releaseErr unregister None g e m' g'] assms(1,2,3) l c
    by (simp add: cs_stop_def)
qed

section \<open>Recovering\<close>

text \<open>
  A recovery ends in one of three ways. It succeeds, and then the session is usable
  again on the new channel and the Gateway holds exactly the registrations of the running
  intercepts. The dial fails, and the session may try again. Or the session was stopped or
  replaced meanwhile: then the new channel is closed and the state of the session is left
  alone.
\<close>

theorem recover_outcome:
  assumes "recoverControlAt (redial ctxDone (link_open env dial) link_register link_unregister link_close) mid m L ip addr =
     ((e, closed), m', L')"
    and "m_active m" and "\<not> m_stopping m" and "\<not> cs_recovering (m_control m)" and "addr \<noteq> []"
    and "m1 = mid (m\<lparr>m_control := snd (beginRecovery (m_control m))\<rparr>)"
  shows "(case redial ctxDone (link_open env dial) link_register link_unregister link_close (registrations (m_registry m)) L of
      (Inl x, _) \<Rightarrow> e = Some x \<and>
         (cs_generation (m_control m1) = cs_generation (m_control m) + 1 \<longrightarrow> \<not> cs_recovering (m_control m'))
    | (Inr (client, lost), _) \<Rightarrow>
        if m_active m1 \<and> \<not> m_stopping m1 \<and> cs_recovering (m_control m1) \<and>
           cs_generation (m_control m1) = cs_generation (m_control m) + 1
        then e = None \<and> cs_ready (m_control m') \<and> cs_client (m_control m') = Some client \<and>
             m_gatewayAddress m' = addr \<and> link_owned L' = reg_table (registrations (m_registry m))
        else e = Some (Errorf ''session is not connected'') \<and> client \<in> set closed \<and> m' = m1)"
proof -
  obtain r L1 where d: "redial ctxDone (link_open env dial) link_register link_unregister link_close
      (registrations (m_registry m)) L = (r, L1)" by fastforce
  show ?thesis
  proof (cases r)
    case (Inl x)
    then show ?thesis using assms d
      by (auto simp: recoverControlAt_def beginRecovery_def Let_def recoveryFailed_def split: if_splits)
  next
    case (Inr cl)
    obtain client lost where cl: "cl = (client, lost)" by fastforce
    from gwd.redial_owned [OF d] Inr have own: "link_owned L1 = reg_table (registrations (m_registry m))" by simp
    show ?thesis using assms d Inr cl own
      by (auto simp: recoverControlAt_def beginRecovery_def Let_def finishRecovery_def attach_def cs_ready_def
          split: if_splits)
  qed
qed

section \<open>Witnesses\<close>

definition ex_manager :: manager where
  "ex_manager = NewManager\<lparr>m_active := True, m_gatewayAddress := ''127.0.0.1:9000'',
     m_control := newControlSession\<lparr>cs_client := Some \<lparr>cc_conn = 7, cc_closed = False\<rparr>, cs_generation := 1\<rparr>\<rparr>"

definition ex_gw :: gwlink where
  "ex_gw = \<lparr>lk_srv = addControl NewServer 7 ex_token, lk_ctrl = 7, lk_token = ex_token, lk_answers = []\<rparr>"

definition ex_web :: Service where
  "ex_web = ex_service\<lparr>svc_Ports := [\<lparr>sp_Name = ''http'', sp_Protocol = ''TCP'', sp_Port = 80\<rparr>]\<rparr>"

definition ex_request :: Mapping where
  "ex_request = \<lparr>mp_Namespace = ''shop'', mp_Service = ''api'', mp_Ports = [], mp_Mode = []\<rparr>"

definition ex_info :: Info where
  "ex_info = \<lparr>inf_ID = ''shop/api'', inf_Namespace = ''shop'', inf_Service = ''api'', inf_ClusterIP = ''10.96.0.7'',
     inf_Preview = False, inf_Mode = ModeExchange, inf_Ports = [ex_port],
     inf_Locals = [default_local \<lparr>sp_Name = ''http'', sp_Protocol = ''TCP'', sp_Port = 80\<rparr>]\<rparr>"

definition ex_start :: "(lease \<times> Backend list) res \<Rightarrow> gwlink outcome" where
  "ex_start answer = startServiceIntercept link_register link_unregister (Inr ex_web) answer id id ex_manager ex_gw ex_request"

lemma ex_ports:
  "resolveLocals ex_request ex_web = Inr (inf_Locals ex_info)"
  "buildPortsForLocals ex_web (inf_Locals ex_info) 20000 = (Inr [ex_port], 20001)"
  by (simp_all add: resolveLocals_def ex_request_def ex_web_def ex_service_def ex_info_def buildPortsForLocals_def
      default_local_def sp_matches_def sp_protocol_def equalProtocol_def normalizeProtocol_def allocateListenPort_def
      ex_port_def)

lemma ex_registered:
  "\<exists>t L. registerPorts link_register newStartTransaction ex_gw ''shop/api'' [ex_port] (inf_Locals ex_info) = ((None, t), L)"
proof -
  have "reg_valid ''shop/api:tcp:80'' NetworkTCP 20001"
    by (simp add: reg_valid_def validateInterceptID_def validateNetwork_def)
  then obtain L where "link_register ex_gw ''shop/api:tcp:80'' NetworkTCP 20001 = (None, L)"
    using link_register_clear [of "''shop/api:tcp:80''" NetworkTCP 20001 ex_gw]
    by (auto simp: ex_gw_def addControl_def NewServer_def)
  moreover have "protocolToNetwork (ip_Protocol ex_port) = NetworkTCP" "ucast (ip_ListenPort ex_port) = (20001 :: u16)"
    by (simp_all add: ex_port_def protocolToNetwork_def normalizeProtocol_def)
  ultimately show ?thesis using ex_subID by (simp add: Let_def)
qed

lemma ex_start_reserved:
  "\<exists>t L m. m_active m \<and> m_control m = m_control ex_manager \<and> reserved (m_registry m) ''shop/api'' 1 \<and>
     ex_start answer = applyIntercept link_unregister answer id m (cs_client (m_control ex_manager)) 1 ''shop/api'' 1 ex_web ex_info t L"
proof -
  obtain t L where r: "registerPorts link_register newStartTransaction ex_gw ''shop/api'' [ex_port] (inf_Locals ex_info) = ((None, t), L)"
    using ex_registered by blast
  let ?m = "ex_manager\<lparr>m_registry := newRuntimeRegistry\<lparr>nextReservation := 1, starting := [(''shop/api'', 1)]\<rparr>, m_nextPort := 20001\<rparr>"
  have m: "m_nextPort ex_manager = 20000" "m_registry ex_manager = newRuntimeRegistry" "m_active ex_manager"
    "cs_snapshot (m_control ex_manager) = (cs_client (m_control ex_manager), 1, True)"
    by (simp_all add: ex_manager_def NewManager_def cs_snapshot_def cs_ready_def newControlSession_def)
  have res: "reserve newRuntimeRegistry ''shop/api'' = ((1, True), newRuntimeRegistry\<lparr>nextReservation := 1, starting := [(''shop/api'', 1)]\<rparr>)"
    "getByKey newRuntimeRegistry ''shop/api'' = None"
    by (simp_all add: reserve_def containsKey_def newRuntimeRegistry_def kv_put_def getByKey_def)
  have rq: "mp_Namespace ex_request = ''shop''" "mp_Service ex_request = ''api''" "mp_Mode ex_request = []"
    by (simp_all add: ex_request_def)
  have info: "ex_info = \<lparr>inf_ID = ''shop/api'', inf_Namespace = ''shop'', inf_Service = ''api'',
     inf_ClusterIP = svc_ClusterIP ex_web, inf_Preview = False, inf_Mode = ModeExchange, inf_Ports = [ex_port],
     inf_Locals = inf_Locals ex_info\<rparr>"
    by (simp add: ex_info_def ex_web_def ex_service_def)
  have "startReserved link_register link_unregister (Inr ex_web) answer id
      (ex_manager\<lparr>m_registry := newRuntimeRegistry\<lparr>nextReservation := 1, starting := [(''shop/api'', 1)]\<rparr>\<rparr>)
      (cs_client (m_control ex_manager)) 1 ''shop/api'' 1 ModeExchange ex_gw ex_request =
    applyIntercept link_unregister answer id ?m (cs_client (m_control ex_manager)) 1 ''shop/api'' 1 ex_web ex_info t L"
    by (subst info) (simp add: startReserved_def ex_ports m rq r Let_def del: registerPorts.simps)
  then have "ex_start answer = applyIntercept link_unregister answer id ?m (cs_client (m_control ex_manager)) 1 ''shop/api'' 1 ex_web ex_info t L"
    by (simp add: ex_start_def startServiceIntercept_def m res rq Let_def)
  moreover have "reserved (m_registry ?m) ''shop/api'' 1" by (simp add: reserved_def kv_get_def)
  moreover have "m_active ?m" "m_control ?m = m_control ex_manager" using m(3) by simp_all
  ultimately show ?thesis by blast
qed

lemma ex_start_ok: "o_result (ex_start (Inr (9, []))) = Inr ex_info"
proof -
  obtain t L m where m: "m_active m" "m_control m = m_control ex_manager" "reserved (m_registry m) ''shop/api'' 1"
    and s: "ex_start (Inr (9, [])) = applyIntercept link_unregister (Inr (9, [])) id m (cs_client (m_control ex_manager)) 1 ''shop/api'' 1 ex_web ex_info t L"
    using ex_start_reserved by blast
  have "cs_matches (m_control m) (cs_client (m_control ex_manager)) 1" "inf_Mode ex_info \<noteq> ModeMirror"
    by (simp_all add: m cs_matches_def cs_ready_def ex_manager_def newControlSession_def ex_info_def)
  with m s show ?thesis
    by (simp add: applyIntercept_def publishStart_def Let_def split: prod.split)
qed

lemma ex_start_fail: "o_result (ex_start (Inl EOF)) = Inl EOF"
  using ex_start_reserved [of "Inl EOF"] by (auto simp: applyIntercept_def abortTransaction_sel)


theorem start_success_complete_witness:
  "\<exists>rt. reg_get (m_registry (o_manager (ex_start (Inr (9, []))))) ''shop/api'' = Some rt \<and> ri_info rt = ex_info \<and>
     link_owned (o_link (ex_start (Inr (9, [])))) =
       link_owned ex_gw ++ reg_table (map (port_registration ''shop/api'') [ex_port])"
proof -
  have k: "''shop/api'' = mapping_key ex_request" "inf_Ports ex_info = [ex_port]"
    by (simp_all add: mapping_key_def ex_request_def ex_info_def)
  from start_success_complete [OF disjI1 [OF conjI [OF ex_start_def k(1)]] ex_start_ok] k(2) show ?thesis by auto
qed

theorem start_failure_retry_witness:
  "byID (m_registry (o_manager (ex_start (Inl EOF)))) = [] \<and>
   kv_get (starting (m_registry (o_manager (ex_start (Inl EOF))))) ''shop/api'' = None"
proof -
  have r: "m_registry ex_manager = newRuntimeRegistry" by (simp add: ex_manager_def NewManager_def)
  then have "nextReservation (m_registry ex_manager) + 1 \<noteq> 0" by (simp add: newRuntimeRegistry_def)
  from start_failure_retry [OF disjI1 [OF ex_start_def] ex_start_fail this, of "''shop/api''"] show ?thesis
    by (simp add: r newRuntimeRegistry_def)
qed

theorem start_stop_roundtrip_witness:
  "\<exists>m' L'. Stop link_unregister None id (o_manager (ex_start (Inr (9, [])))) (o_link (ex_start (Inr (9, [])))) ''shop/api'' =
     (None, m', L') \<and> reg_get (m_registry m') ''shop/api'' = None \<and> link_owned L' = link_owned ex_gw"
proof -
  have k: "''shop/api'' = mapping_key ex_request" by (simp add: mapping_key_def ex_request_def)
  have "m_registry ex_manager = newRuntimeRegistry" by (simp add: ex_manager_def NewManager_def)
  then have n: "containsKey (m_registry ex_manager) ''shop/api'' = False" "reg_get (m_registry ex_manager) ''shop/api'' = None"
    by (simp_all add: containsKey_def reg_get_def newRuntimeRegistry_def)
  from start_stop_roundtrip [OF disjI1 [OF conjI [OF ex_start_def k]] ex_start_ok n, of "''shop/api''"] n(2)
  show ?thesis by metis
qed

definition ex_running_manager :: manager where
  "ex_running_manager = ex_manager\<lparr>m_registry := rg (ex_running_on ex_port)\<rparr>"

lemma ex_running_manager_get:
  "reg_get (m_registry ex_running_manager) i = (if i = ''shop/api'' then Some (ex_runtime_on ex_port) else None)"
  by (simp add: ex_running_manager_def ex_running_get)

theorem stop_failure_retry_witness:
  "\<exists>e' m' L'. Stop link_unregister (Some Canceled) id ex_running_manager ex_gw ''shop/api'' = (e', m', L') \<and>
     e' = Some Canceled \<and> reg_get (m_registry m') ''shop/api'' = Some (ex_runtime_on ex_port)"
proof -
  obtain e' m' L' where s: "Stop link_unregister (Some Canceled) id ex_running_manager ex_gw ''shop/api'' = (e', m', L')"
    by (metis surj_pair)
  have "reg_get (m_registry ex_running_manager) ''shop/api'' = Some (ex_runtime_on ex_port)" "\<not> ri_stopping (ex_runtime_on ex_port)"
    by (simp_all add: ex_running_manager_get) (simp add: ex_runtime_on_def)
  from stop_failure_retry [OF this s, of "''shop/api''"] s this(1) show ?thesis by simp
qed

theorem stopAll_empties_witness:
  "\<exists>control m' L'. StopAll link_unregister (\<lambda>_. None) ex_running_manager ex_gw = ((None, control), m', L') \<and>
     byID (m_registry m') = [] \<and> \<not> m_active m'"
proof -
  obtain e control m' L' where s: "StopAll link_unregister (\<lambda>_. None) ex_running_manager ex_gw = ((e, control), m', L')"
    by (metis surj_pair)
  have "index_inv (m_registry ex_running_manager)"
    using rs.reach_inv [OF reach_ex_running [of ex_port]] by (simp add: reg_inv_def ex_running_manager_def)
  moreover have "\<not> ri_stopping rt" if "reg_get (m_registry ex_running_manager) i = Some rt" for i rt
    using that by (auto simp: ex_running_manager_get ex_runtime_on_def split: if_splits)
  ultimately show ?thesis using stopAll_empties [OF _ _ _ s] s by auto
qed

theorem recover_outcome_witness:
  "\<exists>closed m' L'. recoverControlAt (redial (\<lambda>_. False) (link_open (\<lambda>_ s. s) (\<lambda>_. Some EOF)) link_register link_unregister link_close)
       id ex_running_manager ex_gw ''10.1.0.1'' ''127.0.0.1:9001'' =
     ((Some (Wrapf ''dial gateway control: '' EOF), closed), m', L') \<and> \<not> cs_recovering (m_control m')"
proof -
  let ?d = "redial (\<lambda>_. False) (link_open (\<lambda>_ s. s) (\<lambda>_. Some EOF)) link_register link_unregister link_close"
  obtain e closed m' L' where s: "recoverControlAt ?d id ex_running_manager ex_gw ''10.1.0.1'' ''127.0.0.1:9001'' = ((e, closed), m', L')"
    by (metis surj_pair)
  have d: "?d rs ex_gw = (Inl (Wrapf ''dial gateway control: '' EOF), ex_gw)" for rs
    by (simp add: redial_def upt_rec link_open_def)
  have "m_active ex_running_manager" "\<not> m_stopping ex_running_manager" "\<not> cs_recovering (m_control ex_running_manager)"
    by (simp_all add: ex_running_manager_def ex_manager_def NewManager_def newControlSession_def)
  from recover_outcome [OF s this _ refl] s show ?thesis
    by (auto simp: d beginRecovery_def Let_def)
qed

end
