(* ===== verification/Restore.thy ===== *)
theory Restore
  imports Store PortForward Manager
begin

text \<open>
  What a session keeps for the next launch and how the next launch uses it:
  \<^verbatim>\<open>session/persist.go\<close>, \<^verbatim>\<open>session/restoreplan/plan.go\<close>, the start and stop of port-forwards of
  \<^verbatim>\<open>session/bindings.go\<close>, the log of \<^verbatim>\<open>session/reconcile.go\<close>, and the owner of a connection's
  resources, \<^verbatim>\<open>session/runtime_resources.go\<close>.

  A session is its store (nil when there is none), the published phase, mode, context and
  namespace, the log, and the managers of the port-forwards and of the intercepts. Every save may
  fail in its own way, so the environment of a save is a function of what is saved.
\<close>

section \<open>The plan of a start: restoreplan\<close>

record Reconnect =
  rc_Context :: string
  rc_Namespace :: string
  rc_Mode :: string

record Startup =
  su_ContextCount :: nat
  su_LastContext :: string
  su_PortForwards :: "(string \<times> PortForwardSpec) list"
  su_Reconnect :: "Reconnect option"

fun planForwards :: "State \<Rightarrow> string list \<Rightarrow> (string \<times> PortForwardSpec) list" where
  "planForwards snapshot [] = []"
| "planForwards snapshot (contextName # contexts) =
     (case clusterAt snapshot contextName of
        None \<Rightarrow> planForwards snapshot contexts
      | Some cluster \<Rightarrow>
          if cl_Connected cluster \<and> contextName = ui_LastContext (sta_UI snapshot)
          then planForwards snapshot contexts
          else map (Pair contextName) (cl_PortForwards cluster) @ planForwards snapshot contexts)"

text \<open>\<^verbatim>\<open>cmp.Or\<close> on strings.\<close>

fun cmpOr :: "string list \<Rightarrow> string" where
  "cmpOr [] = []"
| "cmpOr (s # ss) = (if s \<noteq> [] then s else cmpOr ss)"

definition BuildStartup :: "State \<Rightarrow> Startup" where
  "BuildStartup snapshot =
     (let contexts = sort (map fst (clusters snapshot));
          contextName = ui_LastContext (sta_UI snapshot);
          plan = \<lparr>su_ContextCount = length (clusters snapshot), su_LastContext = contextName,
                  su_PortForwards = planForwards snapshot contexts, su_Reconnect = None\<rparr>
      in if contextName = [] then plan
         else case clusterAt snapshot contextName of
                None \<Rightarrow> plan
              | Some cluster \<Rightarrow>
                  if \<not> cl_Connected cluster then plan
                  else plan\<lparr>su_Reconnect := Some
                         \<lparr>rc_Context = contextName,
                          rc_Namespace = cmpOr [cl_Namespace cluster, ui_LastNamespace (sta_UI snapshot), ''default''],
                          rc_Mode = (if cl_ConnectionMode cluster \<noteq> ''socks'' then ''tun''
                                     else cl_ConnectionMode cluster)\<rparr>\<rparr>)"

section \<open>The session\<close>

definition PhaseConnected :: string where "PhaseConnected = ''connected''"
definition ConnectionModeTUN :: string where "ConnectionModeTUN = ''tun''"
definition ConnectionModeSOCKS :: string where "ConnectionModeSOCKS = ''socks''"
definition maxActivityEvents :: nat where "maxActivityEvents = 200"

type_synonym logEvent = "string \<times> string"

record session =
  se_store :: "Store option"
  se_phase :: string
  se_mode :: string
  se_context :: string
  se_namespace :: string
  se_events :: "logEvent list"
  se_restoring :: bool
  se_pf :: pfManager
  se_intercept :: manager

text \<open>\<^verbatim>\<open>appendLogLocked\<close>: the log keeps its last \<^const>\<open>maxActivityEvents\<close> entries.\<close>

definition appendEvent :: "logEvent list \<Rightarrow> logEvent \<Rightarrow> logEvent list" where
  "appendEvent events e =
     (let es = events @ [e] in
      if length es > maxActivityEvents then drop (length es - maxActivityEvents) es else es)"

definition AppendLog :: "string \<Rightarrow> string \<Rightarrow> session \<Rightarrow> session" where
  "AppendLog level message m = m\<lparr>se_events := appendEvent (se_events m) (level, message)\<rparr>"

text \<open>
  The shape of every store call of the session: an error is only logged. \<open>prefix0\<close> is the text
  before the error.
\<close>

definition storeCall :: "string \<Rightarrow> (Store \<Rightarrow> goerr option \<times> Store) \<Rightarrow> session \<Rightarrow> session" where
  "storeCall prefix0 f m =
     (case se_store m of
        None \<Rightarrow> m
      | Some s \<Rightarrow>
          (let (e, s') = f s; m' = m\<lparr>se_store := Some s'\<rparr>
           in case e of None \<Rightarrow> m' | Some err \<Rightarrow> AppendLog ''ERROR'' (prefix0 @ err_text err) m'))"

definition RememberSelection :: "senv \<Rightarrow> string \<Rightarrow> string \<Rightarrow> session \<Rightarrow> goerr option \<times> session" where
  "RememberSelection env contextName namespace m =
     (case se_store m of
        None \<Rightarrow> (None, m)
      | Some s \<Rightarrow>
          (case SetUI env contextName namespace s of (e, s') \<Rightarrow>
             (case e of
                None \<Rightarrow> (None, m\<lparr>se_store := Some s'\<rparr>)
              | Some err \<Rightarrow> (Some err, AppendLog ''ERROR''
                  (''remember cluster selection '' @ contextName @ ''/'' @ namespace @ '': '' @ err_text err)
                  (m\<lparr>se_store := Some s'\<rparr>)))))"

definition PreferredSelection :: "session \<Rightarrow> string \<times> string" where
  "PreferredSelection m =
     (case se_store m of
        None \<Rightarrow> ([], [])
      | Some s \<Rightarrow> (let ui = sta_UI (Snapshot s) in (ui_LastContext ui, ui_LastNamespace ui)))"

definition PreferredConnectionMode :: "session \<Rightarrow> string \<Rightarrow> string" where
  "PreferredConnectionMode m contextName =
     (case se_store m of
        None \<Rightarrow> ConnectionModeTUN
      | Some s \<Rightarrow>
          if contextName = [] then ConnectionModeTUN
          else let mode = cl_ConnectionMode (Cluster s contextName)
               in if mode \<noteq> ConnectionModeSOCKS then ConnectionModeTUN else mode)"

definition clearPersistedSessions :: "senv \<Rightarrow> session \<Rightarrow> goerr option \<times> session" where
  "clearPersistedSessions env m =
     (case se_store m of
        None \<Rightarrow> (None, m)
      | Some s \<Rightarrow> (case ClearSessionIntents env s of (e, s') \<Rightarrow> (e, m\<lparr>se_store := Some s'\<rparr>)))"

section \<open>Persisting: persist.go\<close>

definition toSpec :: "pfInfo \<Rightarrow> PortForwardSpec" where
  "toSpec item =
     \<lparr>pf_Namespace = pi_Namespace item, pf_Kind = pi_Kind item, pf_Name = pi_Name item,
      pf_Protocol = pi_Protocol item, pf_RemotePort = pi_RemotePort item, pf_LocalPort = pi_LocalPort item\<rparr>"

type_synonym grouping = "(string, PortForwardSpec list) kv"

fun groupForwards :: "pfInfo list \<Rightarrow> grouping \<Rightarrow> grouping" where
  "groupForwards [] grouped = grouped"
| "groupForwards (item # items) grouped =
     groupForwards items
       (kv_put (pi_Context item)
          ((case kv_get grouped (pi_Context item) of None \<Rightarrow> [] | Some specs \<Rightarrow> specs) @ [toSpec item]) grouped)"

fun addEmptied :: "clusterMap \<Rightarrow> grouping \<Rightarrow> grouping" where
  "addEmptied [] grouped = grouped"
| "addEmptied ((name, None) # items) grouped = addEmptied items grouped"
| "addEmptied ((name, Some cluster) # items) grouped =
     addEmptied items
       (if kv_get grouped name = None \<and> length (cl_PortForwards cluster) > 0 then kv_put name [] grouped
        else grouped)"

fun storeGroups :: "(string \<Rightarrow> senv) \<Rightarrow> grouping \<Rightarrow> session \<Rightarrow> session" where
  "storeGroups env [] m = m"
| "storeGroups env ((contextName, items) # rest) m =
     storeGroups env rest
       (storeCall (''persist port-forwards for '' @ contextName @ '': '')
          (SetPortForwards (env contextName) contextName items) m)"

definition persistPortForwards :: "(string \<Rightarrow> senv) \<Rightarrow> session \<Rightarrow> session" where
  "persistPortForwards env m =
     (case se_store m of
        None \<Rightarrow> m
      | Some s \<Rightarrow>
          storeGroups env (addEmptied (clusters (Snapshot s)) (groupForwards (pfList (se_pf m)) [])) m)"

definition toStorePorts :: "PortMapping list \<Rightarrow> StorePortMapping list" where
  "toStorePorts items =
     map (\<lambda>item. \<lparr>spm_ServicePort = pm_ServicePort item, spm_Protocol = pm_Protocol item,
                  spm_LocalHost = pm_LocalHost item, spm_LocalPort = pm_LocalPort item\<rparr>) items"

definition toInterceptPorts :: "StorePortMapping list \<Rightarrow> PortMapping list" where
  "toInterceptPorts items =
     map (\<lambda>item. \<lparr>pm_ServicePort = spm_ServicePort item, pm_Protocol = spm_Protocol item,
                  pm_LocalHost = spm_LocalHost item, pm_LocalPort = spm_LocalPort item\<rparr>) items"

definition exchangeSpecs :: "session \<Rightarrow> ExchangeSpec list" where
  "exchangeSpecs m =
     map (\<lambda>i. \<lparr>ex_Namespace = inf_Namespace i, ex_Service = inf_Service i, ex_Ports = toStorePorts (inf_Locals i)\<rparr>)
       (listByMode (m_registry (se_intercept m)) ModeExchange)"

definition mirrorSpecs :: "session \<Rightarrow> MirrorSpec list" where
  "mirrorSpecs m =
     map (\<lambda>i. \<lparr>mi_Namespace = inf_Namespace i, mi_Service = inf_Service i, mi_Ports = toStorePorts (inf_Locals i)\<rparr>)
       (listByMode (m_registry (se_intercept m)) ModeMirror)"

definition previewSpecs :: "session \<Rightarrow> PreviewSpec list" where
  "previewSpecs m =
     map (\<lambda>i. \<lparr>pv_Namespace = inf_Namespace i, pv_Name = inf_Service i, pv_Ports = toStorePorts (inf_Locals i)\<rparr>)
       (listPreviews (m_registry (se_intercept m)))"

definition persistExchanges :: "senv \<Rightarrow> string \<Rightarrow> session \<Rightarrow> session" where
  "persistExchanges env contextName m =
     (if contextName = [] then m
      else storeCall (''persist exchanges for '' @ contextName @ '': '') (SetExchanges env contextName (exchangeSpecs m)) m)"

definition persistMirrors :: "senv \<Rightarrow> string \<Rightarrow> session \<Rightarrow> session" where
  "persistMirrors env contextName m =
     (if contextName = [] then m
      else storeCall (''persist mirrors for '' @ contextName @ '': '') (SetMirrors env contextName (mirrorSpecs m)) m)"

definition persistPreviews :: "senv \<Rightarrow> string \<Rightarrow> session \<Rightarrow> session" where
  "persistPreviews env contextName m =
     (if contextName = [] then m
      else storeCall (''persist previews for '' @ contextName @ '': '') (SetPreviews env contextName (previewSpecs m)) m)"

text \<open>
  \<^verbatim>\<open>PersistShutdown\<close>; \<open>None\<close> when \<^verbatim>\<open>SetConnected\<close> panics. \<open>env\<close> is the environment of the saves of
  the port-forwards, by context, and \<open>env1\<close> that of the other calls.
\<close>

definition markConnected :: "senv \<Rightarrow> string \<Rightarrow> string \<Rightarrow> string \<Rightarrow> bool \<Rightarrow> session \<Rightarrow> session option" where
  "markConnected env prefix0 contextName namespace connected m =
     (case se_store m of
        None \<Rightarrow> Some m
      | Some s \<Rightarrow>
          (case SetConnected env contextName namespace connected s of
             (Panics, s') \<Rightarrow> None
           | (Returns e, s') \<Rightarrow>
               (let m' = m\<lparr>se_store := Some s'\<rparr>
                in Some (case e of None \<Rightarrow> m' | Some err \<Rightarrow> AppendLog ''ERROR'' (prefix0 @ err_text err) m'))))"

definition PersistShutdown :: "(string \<Rightarrow> senv) \<Rightarrow> senv \<Rightarrow> session \<Rightarrow> session option" where
  "PersistShutdown env env1 m0 =
     (if se_store m0 = None then Some m0
      else
        let m1 = persistPortForwards env m0;
            (contextName, namespace) =
              (if se_context m1 = [] then PreferredSelection m1 else (se_context m1, se_namespace m1));
            connected = (se_phase m1 = PhaseConnected)
        in if contextName = [] then Some m1
           else
             let m2 = (if se_mode m1 \<noteq> []
                       then storeCall ''persist connection mode: '' (SetConnectionMode env1 contextName (se_mode m1)) m1
                       else m1);
                 m3 = (if connected
                       then persistPreviews env1 contextName
                              (persistMirrors env1 contextName (persistExchanges env1 contextName m2))
                       else m2)
             in markConnected env1 ''persist connected flag: '' contextName namespace connected m3)"

section \<open>Restoring\<close>

definition hasPortForward :: "session \<Rightarrow> string \<Rightarrow> PortForwardSpec \<Rightarrow> bool" where
  "hasPortForward m contextName want =
     (let wantProtocol = (if pf_Protocol want = [] then ''tcp'' else pf_Protocol want)
      in list_ex (\<lambda>item. pi_Context item = contextName \<and> pi_Namespace item = pf_Namespace want \<and>
           pi_Kind item = pf_Kind want \<and> pi_Name item = pf_Name want \<and> pi_Protocol item = wantProtocol \<and>
           pi_RemotePort item = pf_RemotePort want \<and> pi_LocalPort item = pf_LocalPort want) (pfList (se_pf m)))"

definition specRequest :: "string \<Rightarrow> PortForwardSpec \<Rightarrow> pfRequest" where
  "specRequest contextName item =
     \<lparr>rq_Context = contextName, rq_Namespace = pf_Namespace item, rq_Kind = pf_Kind item, rq_Name = pf_Name item,
      rq_Protocol = pf_Protocol item, rq_RemotePort = pf_RemotePort item, rq_LocalPort = pf_LocalPort item\<rparr>"

text \<open>One start of a persisted port-forward, and the line it leaves in the log.\<close>

definition restoreOne :: "pfAPI \<Rightarrow> string \<Rightarrow> PortForwardSpec \<Rightarrow> session \<Rightarrow> bool \<times> session" where
  "restoreOne api contextName item m =
     (let name = contextName @ ''/'' @ pf_Kind item @ ''/'' @ pf_Name item in
      case pfStart api (\<lambda>p. p) (se_pf m) (specRequest contextName item) of
        (Inl err, pf) \<Rightarrow>
          (False, AppendLog ''ERROR'' (''restore port-forward '' @ name @ '': '' @ err_text err) (m\<lparr>se_pf := pf\<rparr>))
      | (Inr info, pf) \<Rightarrow>
          (True, AppendLog ''INFO'' (''restored port-forward '' @ name @ '' at '' @ pi_Address info) (m\<lparr>se_pf := pf\<rparr>)))"

record tally =
  ty_restored :: nat
  ty_skipped :: nat
  ty_failed :: nat

text \<open>The cluster answers each start in its own way: \<open>api i\<close> is what it answers the \<open>i\<close>-th.\<close>

fun restorePortForwards ::
  "(nat \<Rightarrow> pfAPI) \<Rightarrow> string \<Rightarrow> PortForwardSpec list \<Rightarrow> tally \<Rightarrow> session \<Rightarrow> tally \<times> session" where
  "restorePortForwards api contextName [] t m = (t, m)"
| "restorePortForwards api contextName (item # items) t m =
     (if hasPortForward m contextName item
      then restorePortForwards (\<lambda>i. api (Suc i)) contextName items (t\<lparr>ty_skipped := ty_skipped t + 1\<rparr>) m
      else case restoreOne (api 0) contextName item m of
             (False, m') \<Rightarrow>
               restorePortForwards (\<lambda>i. api (Suc i)) contextName items (t\<lparr>ty_failed := ty_failed t + 1\<rparr>) m'
           | (True, m') \<Rightarrow>
               restorePortForwards (\<lambda>i. api (Suc i)) contextName items (t\<lparr>ty_restored := ty_restored t + 1\<rparr>) m')"

definition noTally :: tally where
  "noTally = \<lparr>ty_restored = 0, ty_skipped = 0, ty_failed = 0\<rparr>"

definition tallyText :: "tally \<Rightarrow> string" where
  "tallyText t = ''restored='' @ itoa (ty_restored t) @ '' skipped='' @ itoa (ty_skipped t) @ '' failed='' @ itoa (ty_failed t)"

definition restoreNativePortForwards :: "(nat \<Rightarrow> pfAPI) \<Rightarrow> string \<Rightarrow> session \<Rightarrow> session" where
  "restoreNativePortForwards api contextName m =
     (case se_store m of
        None \<Rightarrow> m
      | Some s \<Rightarrow>
          if contextName = [] then m
          else let items = cl_PortForwards (Cluster s contextName) in
            if length items = 0 then m
            else
              let m1 = AppendLog ''INFO'' (''restoring native port-forwards for SOCKS5 mode: context='' @ contextName @
                         '' count='' @ itoa (length items)) m;
                  (t, m2) = restorePortForwards api contextName items noTally m1
              in AppendLog ''INFO'' (''native port-forward restore complete for '' @ contextName @ '': '' @ tallyText t) m2)"

text \<open>\<^verbatim>\<open>RestoreStartup\<close>: the forwards of the plan, then the connection (an argument).\<close>

fun restorePlanned :: "(nat \<Rightarrow> pfAPI) \<Rightarrow> (string \<times> PortForwardSpec) list \<Rightarrow> session \<Rightarrow> session" where
  "restorePlanned api [] m = m"
| "restorePlanned api ((contextName, item) # rest) m =
     restorePlanned (\<lambda>i. api (Suc i)) rest (snd (restoreOne (api 0) contextName item m))"

definition RestoreStartup ::
  "(nat \<Rightarrow> pfAPI) \<Rightarrow> (Reconnect \<Rightarrow> session \<Rightarrow> goerr option \<times> session) \<Rightarrow> session \<Rightarrow> session" where
  "RestoreStartup api connect m =
     (case se_store m of
        None \<Rightarrow> m
      | Some s \<Rightarrow>
          let plan = BuildStartup (Snapshot s);
              m1 = AppendLog ''INFO'' (''startup session restore scan: contexts='' @ itoa (su_ContextCount plan) @
                     '' lastContext='' @ su_LastContext plan) m;
              m2 = restorePlanned api (su_PortForwards plan) m1
          in case su_Reconnect plan of
               None \<Rightarrow> AppendLog ''INFO'' ''startup session restore complete; no cluster reconnect requested'' m2
             | Some rc \<Rightarrow>
                 let m3 = AppendLog ''INFO'' (''restoring cluster connection: context='' @ rc_Context rc @
                            '' namespace='' @ rc_Namespace rc) m2;
                     (e, m4) = connect rc m3
                 in case e of
                      None \<Rightarrow> m4
                    | Some err \<Rightarrow> AppendLog ''ERROR'' (''restore connect '' @ rc_Context rc @ '': '' @ err_text err) m4)"

text \<open>
  The three starts of the intercept manager, as \<^verbatim>\<open>restoreBindings\<close> calls them: what they answer and
  the manager afterwards.
\<close>

record starters =
  sr_exchange :: "manager \<Rightarrow> Mapping \<Rightarrow> Info res \<times> manager"
  sr_mirror :: "manager \<Rightarrow> Mapping \<Rightarrow> Info res \<times> manager"
  sr_preview :: "manager \<Rightarrow> PreviewRequest \<Rightarrow> Info res \<times> manager"

definition restoreStep ::
  "string \<Rightarrow> string \<Rightarrow> string \<Rightarrow> Info res \<times> manager \<Rightarrow> tally \<times> session \<Rightarrow> tally \<times> session" where
  "restoreStep kind namespace name r tm =
     (let (t, m) = tm; (answer, ic) = r; m' = m\<lparr>se_intercept := ic\<rparr>; what = kind @ '' '' @ namespace @ ''/'' @ name
      in case answer of
           Inl err \<Rightarrow> (t\<lparr>ty_failed := ty_failed t + 1\<rparr>, AppendLog ''ERROR'' (''restore '' @ what @ '': '' @ err_text err) m')
         | Inr info \<Rightarrow> (t\<lparr>ty_restored := ty_restored t + 1\<rparr>, AppendLog ''INFO'' (''restored '' @ what) m'))"

fun restoreExchanges :: "starters \<Rightarrow> ExchangeSpec list \<Rightarrow> tally \<times> session \<Rightarrow> tally \<times> session" where
  "restoreExchanges sr [] tm = tm"
| "restoreExchanges sr (item # items) tm =
     restoreExchanges sr items
       (restoreStep ''exchange'' (ex_Namespace item) (ex_Service item)
          (sr_exchange sr (se_intercept (snd tm))
             \<lparr>mp_Namespace = ex_Namespace item, mp_Service = ex_Service item, mp_Ports = toInterceptPorts (ex_Ports item),
              mp_Mode = []\<rparr>) tm)"

fun restoreMirrors :: "starters \<Rightarrow> MirrorSpec list \<Rightarrow> tally \<times> session \<Rightarrow> tally \<times> session" where
  "restoreMirrors sr [] tm = tm"
| "restoreMirrors sr (item # items) tm =
     restoreMirrors sr items
       (restoreStep ''mirror'' (mi_Namespace item) (mi_Service item)
          (sr_mirror sr (se_intercept (snd tm))
             \<lparr>mp_Namespace = mi_Namespace item, mp_Service = mi_Service item, mp_Ports = toInterceptPorts (mi_Ports item),
              mp_Mode = []\<rparr>) tm)"

fun restorePreviews :: "starters \<Rightarrow> PreviewSpec list \<Rightarrow> tally \<times> session \<Rightarrow> tally \<times> session" where
  "restorePreviews sr [] tm = tm"
| "restorePreviews sr (item # items) tm =
     restorePreviews sr items
       (restoreStep ''preview'' (pv_Namespace item) (pv_Name item)
          (sr_preview sr (se_intercept (snd tm))
             \<lparr>pr_Namespace = pv_Namespace item, pr_Name = pv_Name item, pr_Ports = toInterceptPorts (pv_Ports item)\<rparr>) tm)"

definition restoreBindings :: "(nat \<Rightarrow> pfAPI) \<Rightarrow> starters \<Rightarrow> string \<Rightarrow> session \<Rightarrow> tally \<times> session" where
  "restoreBindings api sr contextName m0 =
     (case se_store m0 of
        None \<Rightarrow> (noTally, m0)
      | Some s \<Rightarrow>
          if contextName = [] then (noTally, m0)
          else
            let m1 = m0\<lparr>se_restoring := True\<rparr>;
                c = Cluster s contextName;
                total = length (cl_PortForwards c) + length (cl_Exchanges c) + length (cl_Mirrors c) + length (cl_Previews c)
            in if total = 0
               then (noTally, (AppendLog ''INFO'' (''no persisted sessions to restore for context '' @ contextName) m1)
                       \<lparr>se_restoring := False\<rparr>)
               else
                 let m2 = AppendLog ''INFO'' (''restoring sessions for '' @ contextName @ '': portForwards='' @
                            itoa (length (cl_PortForwards c)) @ '' exchanges='' @ itoa (length (cl_Exchanges c)) @
                            '' mirrors='' @ itoa (length (cl_Mirrors c)) @ '' previews='' @ itoa (length (cl_Previews c))) m1;
                     tm3 = restorePortForwards api contextName (cl_PortForwards c) noTally m2;
                     tm4 = restoreExchanges sr (cl_Exchanges c) tm3;
                     tm5 = restoreMirrors sr (cl_Mirrors c) tm4;
                     (t, m6) = restorePreviews sr (cl_Previews c) tm5
                 in (t, (AppendLog ''INFO'' (''session restore complete for '' @ contextName @ '': '' @ tallyText t) m6)
                          \<lparr>se_restoring := False\<rparr>))"

section \<open>Port-forwards of the user: bindings.go\<close>

definition StartPortForwardSession ::
  "(string \<Rightarrow> senv) \<Rightarrow> pfAPI \<Rightarrow> pfRequest \<Rightarrow> session \<Rightarrow> pfInfo res \<times> session" where
  "StartPortForwardSession env api request m0 =
     (let target = rq_Kind request @ ''/'' @ rq_Namespace request @ ''/'' @ rq_Name request @ '':'' @
                   itoa (unat (rq_RemotePort request)) @ ''/'';
          m1 = AppendLog ''INFO'' (''starting port-forward '' @ target @ rq_Protocol request @ '' on local port '' @
                 itoa (unat (rq_LocalPort request))) m0;
          (r, pf) = pfStart api (\<lambda>p. p) (se_pf m1) request;
          m2 = m1\<lparr>se_pf := pf\<rparr>
      in case r of
           Inl err \<Rightarrow> (Inl err, AppendLog ''ERROR'' (''start port-forward '' @ target @ rq_Protocol request @ '': '' @ err_text err) m2)
         | Inr info \<Rightarrow> (Inr info, AppendLog ''INFO'' (''started port-forward '' @ target @ pi_Protocol info @ '' -> :'' @
                          itoa (unat (pi_LocalPort info))) (persistPortForwards env m2)))"

definition StopPortForward :: "(string \<Rightarrow> senv) \<Rightarrow> string \<Rightarrow> session \<Rightarrow> goerr option \<times> session" where
  "StopPortForward env ID m0 =
     (let m1 = AppendLog ''INFO'' (''stopping port-forward '' @ ID) m0;
          (e, cs, pf) = pfStop ID (se_pf m1);
          m2 = m1\<lparr>se_pf := pf\<rparr>
      in case e of
           Some err \<Rightarrow> (Some err, AppendLog ''ERROR'' (''stop port-forward '' @ ID @ '': '' @ err_text err) m2)
         | None \<Rightarrow> (None, AppendLog ''INFO'' (''stopped port-forward '' @ ID) (persistPortForwards env m2)))"

section \<open>The resources of a connection: runtime_resources.go\<close>

record runtimeResource =
  rr_name :: string
  rr_closer :: nat

text \<open>
  The runtime with the order in which closers have been called. \<open>closeErr\<close> of a closer is what its
  \<^verbatim>\<open>Close\<close> answers; the joined error of \<^verbatim>\<open>Close\<close> is the list of its parts.
\<close>

record sessionRuntime =
  sr_resources :: "runtimeResource list"
  sr_once :: bool
  sr_closeErr :: "goerr list"
  sr_calls :: "nat list"

definition newSessionRuntime :: sessionRuntime where
  "newSessionRuntime = \<lparr>sr_resources = [], sr_once = False, sr_closeErr = [], sr_calls = []\<rparr>"

definition addResource :: "string \<Rightarrow> nat option \<Rightarrow> sessionRuntime \<Rightarrow> sessionRuntime" where
  "addResource name closer r =
     (case closer of None \<Rightarrow> r
      | Some c \<Rightarrow> r\<lparr>sr_resources := sr_resources r @ [\<lparr>rr_name = name, rr_closer = c\<rparr>]\<rparr>)"

fun closeLoop :: "(nat \<Rightarrow> goerr option) \<Rightarrow> runtimeResource list \<Rightarrow> goerr list \<times> nat list \<Rightarrow> goerr list \<times> nat list" where
  "closeLoop closeErr [] ec = ec"
| "closeLoop closeErr (resource # rest) (errs, calls) =
     closeLoop closeErr rest
       (case closeErr (rr_closer resource) of
          None \<Rightarrow> (errs, calls @ [rr_closer resource])
        | Some e \<Rightarrow> if errors_is e NetErrClosed then (errs, calls @ [rr_closer resource])
                    else (errs @ [Wrapf (''close '' @ rr_name resource @ '': '') e], calls @ [rr_closer resource]))"

definition closeRuntime :: "(nat \<Rightarrow> goerr option) \<Rightarrow> sessionRuntime \<Rightarrow> goerr list \<times> sessionRuntime" where
  "closeRuntime closeErr r =
     (if sr_once r then (sr_closeErr r, r)
      else let (errs, calls) = closeLoop closeErr (rev (sr_resources r)) ([], sr_calls r)
           in (errs, r\<lparr>sr_resources := [], sr_once := True, sr_closeErr := errs, sr_calls := calls\<rparr>))"

section \<open>What is persisted is what runs\<close>

lemma setClusterField_state:
  "n \<noteq> [] \<Longrightarrow> clusterAt (st_state (snd (setClusterField env f n s))) k =
     (if k = n then Some (f (at_or_zero (st_state s) n)) else clusterAt (st_state s) k)"
  "clusterAt (st_state (snd (setClusterField env f [] s))) k = clusterAt (st_state s) k"
  by (simp_all add: setClusterField_def)

definition running :: "session \<Rightarrow> string \<Rightarrow> PortForwardSpec list" where
  "running m n = map toSpec (filter (\<lambda>i. pi_Context i = n) (pfList (se_pf m)))"

lemma groupForwards_get:
  "kv_get (groupForwards items g) n =
     (if \<exists>i \<in> set items. pi_Context i = n
      then Some ((case kv_get g n of None \<Rightarrow> [] | Some x \<Rightarrow> x) @ map toSpec (filter (\<lambda>i. pi_Context i = n) items))
      else kv_get g n)"
  by (induction items arbitrary: g) (auto simp: kv_simps split: option.split)

lemma kv_ok_groupForwards: "kv_ok g \<Longrightarrow> kv_ok (groupForwards items g)"
  by (induction items arbitrary: g) simp_all

lemma addEmptied_get:
  "kv_get (addEmptied m g) n =
     (case kv_get g n of
        Some x \<Rightarrow> Some x
      | None \<Rightarrow> if \<exists>c. (n, Some c) \<in> set m \<and> cl_PortForwards c \<noteq> [] then Some [] else None)"
  by (induction m g rule: addEmptied.induct) (auto simp: kv_simps split: option.split)

lemma kv_ok_addEmptied: "kv_ok g \<Longrightarrow> kv_ok (addEmptied m g)"
  by (induction m g rule: addEmptied.induct) simp_all

lemma se_AppendLog [simp]:
  "se_store (AppendLog l t m) = se_store m" "se_pf (AppendLog l t m) = se_pf m"
  "se_intercept (AppendLog l t m) = se_intercept m" "se_context (AppendLog l t m) = se_context m"
  "se_namespace (AppendLog l t m) = se_namespace m" "se_mode (AppendLog l t m) = se_mode m"
  "se_phase (AppendLog l t m) = se_phase m"
  by (simp_all add: AppendLog_def)

lemma storeCall_simps [simp]:
  "se_store (storeCall p f m) = map_option (\<lambda>s. snd (f s)) (se_store m)"
  "se_pf (storeCall p f m) = se_pf m" "se_intercept (storeCall p f m) = se_intercept m"
  "se_context (storeCall p f m) = se_context m" "se_namespace (storeCall p f m) = se_namespace m"
  "se_mode (storeCall p f m) = se_mode m" "se_phase (storeCall p f m) = se_phase m"
  by (auto simp: storeCall_def case_prod_beta Let_def split: option.split)

text \<open>Everything of a session but its store and its log.\<close>

definition same_session :: "session \<Rightarrow> session \<Rightarrow> bool" where
  "same_session m m' \<longleftrightarrow> se_pf m' = se_pf m \<and> se_intercept m' = se_intercept m \<and> se_context m' = se_context m \<and>
     se_namespace m' = se_namespace m \<and> se_mode m' = se_mode m \<and> se_phase m' = se_phase m"

text \<open>Two stores that agree on everything but the port-forwards of the contexts.\<close>

definition sans_pf :: "ClusterState \<Rightarrow> ClusterState" where
  "sans_pf c = c\<lparr>cl_PortForwards := []\<rparr>"

lemma storeGroups_spec:
  assumes "kv_ok g" "se_store m = Some s" "state_ok (st_state s)"
  shows "\<exists>s'. se_store (storeGroups env g m) = Some s' \<and> same_session m (storeGroups env g m) \<and> state_ok (st_state s') \<and>
    st_path s' = st_path s \<and> sta_UI (st_state s') = sta_UI (st_state s) \<and>
    clusterAt (st_state s') [] = clusterAt (st_state s) [] \<and>
    (\<forall>n. sans_pf (at_or_zero (st_state s') n) = sans_pf (at_or_zero (st_state s) n)) \<and>
    (\<forall>n. n \<noteq> [] \<longrightarrow> cl_PortForwards (at_or_zero (st_state s') n) =
       (case kv_get g n of Some items \<Rightarrow> items | None \<Rightarrow> cl_PortForwards (at_or_zero (st_state s) n)))"
  using assms
proof (induction g arbitrary: m s)
  case Nil
  then show ?case by (simp add: same_session_def)
next
  case (Cons x g)
  obtain n0 items where x: "x = (n0, items)" by fastforce
  let ?f = "\<lambda>c. c\<lparr>cl_PortForwards := clonePortForwards items\<rparr>"
  let ?s = "snd (SetPortForwards (env n0) n0 items s)"
  let ?m = "storeCall (''persist port-forwards for '' @ n0 @ '': '') (SetPortForwards (env n0) n0 items) m"
  have st: "se_store ?m = Some ?s" using Cons.prems by simp
  have ok: "state_ok (st_state ?s)"
    using Cons.prems(3) state_ok_updateCluster [of "st_state s" ?f n0]
    by (simp add: SetPortForwards_def setClusterField_def)
  have ui: "sta_UI (st_state ?s) = sta_UI (st_state s)" "st_path ?s = st_path s"
    by (simp_all add: SetPortForwards_def setClusterField_def savedState_def updateCluster_eq)
  have at: "at_or_zero (st_state ?s) n = (if n = n0 \<and> n \<noteq> [] then ?f (at_or_zero (st_state s) n) else at_or_zero (st_state s) n)" for n
    by (cases "n0 = []") (auto simp: at_or_zero_def SetPortForwards_def setClusterField_state split: option.split)
  have "kv_ok g" using Cons.prems(1) by (simp add: kv_ok_def)
  from Cons.IH [OF this st ok] obtain s' where s': "se_store (storeGroups env g ?m) = Some s'"
    "same_session ?m (storeGroups env g ?m)" "state_ok (st_state s')" "st_path s' = st_path ?s" "sta_UI (st_state s') = sta_UI (st_state ?s)"
    "clusterAt (st_state s') [] = clusterAt (st_state ?s) []"
    "\<And>n. sans_pf (at_or_zero (st_state s') n) = sans_pf (at_or_zero (st_state ?s) n)"
    "\<And>n. n \<noteq> [] \<Longrightarrow> cl_PortForwards (at_or_zero (st_state s') n) =
       (case kv_get g n of Some items \<Rightarrow> items | None \<Rightarrow> cl_PortForwards (at_or_zero (st_state ?s) n))"
    by blast
  have "kv_get g n0 = None" using Cons.prems(1) by (simp add: x kv_ok_def kv_get_def map_of_eq_None_iff)
  then have get: "kv_get (x # g) n = (if n = n0 then Some items else kv_get g n)"
    "n = n0 \<Longrightarrow> kv_get g n = None" for n by (auto simp: x kv_get_def)
  have "cl_PortForwards (at_or_zero (st_state s') n) =
       (case kv_get (x # g) n of Some items \<Rightarrow> items | None \<Rightarrow> cl_PortForwards (at_or_zero (st_state s) n))" if "n \<noteq> []" for n
    using s'(8) [OF that] that get(2) [of n] unfolding get at
    by (cases "n = n0") (simp_all split: option.splits)
  moreover have "sans_pf (at_or_zero (st_state s') n) = sans_pf (at_or_zero (st_state s) n)" for n
    using s'(7) [of n] by (simp add: at sans_pf_def)
  moreover have "clusterAt (st_state ?s) [] = clusterAt (st_state s) []"
    by (cases "n0 = []") (simp_all add: SetPortForwards_def setClusterField_state)
  moreover have "same_session m (storeGroups env (x # g) m)"
    using s'(2) by (simp add: same_session_def x)
  ultimately show ?case using s' ui by (simp add: x)
qed

lemma mem_Snapshot:
  "kv_ok (clusters (st_state s)) \<Longrightarrow> (n, Some c) \<in> set (clusters (Snapshot s)) \<longleftrightarrow> clusterAt (st_state s) n = Some c"
proof -
  assume ok: "kv_ok (clusters (st_state s))"
  have "(n, Some c) \<in> set (clusters (Snapshot s)) \<longleftrightarrow> (n, Some c) \<in> set (clusters (st_state s))"
    by (simp add: Snapshot_def cloneState_def clusters_def [of "\<lparr>sta_Version = _, sta_UI = _, sta_MCP = _, sta_Clusters = _\<rparr>"]
        cloneClusters_filter)
  also have "\<dots> \<longleftrightarrow> kv_get (clusters (st_state s)) n = Some (Some c)" by (simp add: kv_get_mem [OF ok])
  finally show ?thesis by (auto simp: clusterAt_def split: option.split)
qed

lemma persistPortForwards_spec:
  assumes "se_store m = Some s" "state_ok (st_state s)"
  obtains s' where "se_store (persistPortForwards env m) = Some s'" "same_session m (persistPortForwards env m)"
    "state_ok (st_state s')" "st_path s' = st_path s" "sta_UI (st_state s') = sta_UI (st_state s)"
    "clusterAt (st_state s') [] = clusterAt (st_state s) []"
    "\<And>n. sans_pf (at_or_zero (st_state s') n) = sans_pf (at_or_zero (st_state s) n)"
    "\<And>n. n \<noteq> [] \<Longrightarrow> cl_PortForwards (at_or_zero (st_state s') n) = running m n"
proof -
  let ?g = "addEmptied (clusters (Snapshot s)) (groupForwards (pfList (se_pf m)) [])"
  have ok: "kv_ok (clusters (st_state s))" using assms(2) by (simp add: state_ok_def)
  have g: "kv_ok ?g" by (intro kv_ok_addEmptied kv_ok_groupForwards) simp
  have "(case kv_get ?g n of Some items \<Rightarrow> items | None \<Rightarrow> cl_PortForwards (at_or_zero (st_state s) n)) = running m n" for n
  proof (cases "\<exists>i \<in> set (pfList (se_pf m)). pi_Context i = n")
    case True
    then show ?thesis by (simp add: addEmptied_get groupForwards_get running_def)
  next
    case False
    then have "running m n = []" by (auto simp: running_def filter_empty_conv)
    moreover have "cl_PortForwards (at_or_zero (st_state s) n) = []"
      if "\<nexists>c. (n, Some c) \<in> set (clusters (Snapshot s)) \<and> cl_PortForwards c \<noteq> []"
      using that mem_Snapshot [OF ok] by (auto simp: at_or_zero_def zeroCluster_def split: option.split)
    ultimately show ?thesis using False by (simp add: addEmptied_get groupForwards_get)
  qed
  with storeGroups_spec [OF g assms, of env] that show thesis
    unfolding persistPortForwards_def assms(1) option.case by metis
qed

text \<open>
  The persisted port-forwards are the running ones: after \<^verbatim>\<open>persistPortForwards\<close> every context
  holds exactly the forwards that run for it, in the order they are listed, whichever saves fail;
  a context whose last forward has ended holds none; and nothing else of any context changes.
\<close>

theorem persisted_forwards_are_running:
  assumes "se_store m = Some s" "state_ok (st_state s)" "n \<noteq> []"
  shows "\<exists>s'. se_store (persistPortForwards env m) = Some s' \<and>
    Cluster s' n = (Cluster s n)\<lparr>cl_PortForwards := map toSpec (filter (\<lambda>i. pi_Context i = n) (pfList (se_pf m)))\<rparr>"
proof -
  from persistPortForwards_spec [OF assms(1,2), of env] obtain s' where
    "se_store (persistPortForwards env m) = Some s'" and a: "sans_pf (at_or_zero (st_state s') n) = sans_pf (at_or_zero (st_state s) n)"
    and b: "cl_PortForwards (at_or_zero (st_state s') n) = running m n"
    using assms(3) by metis
  moreover from a b have "at_or_zero (st_state s') n = (at_or_zero (st_state s) n)\<lparr>cl_PortForwards := running m n\<rparr>"
    by (simp add: sans_pf_def) (metis ClusterState.surjective ClusterState.update_convs(4) ClusterState.select_convs(4))
  ultimately show ?thesis by (auto simp: Cluster_at_or_zero running_def)
qed

section \<open>The plan is a partition of what was persisted\<close>

lemma planForwards_mem:
  "(n, spec) \<in> set (planForwards st ks) \<longleftrightarrow>
     n \<in> set ks \<and> (\<exists>c. clusterAt st n = Some c \<and> \<not> (cl_Connected c \<and> n = ui_LastContext (sta_UI st)) \<and>
       spec \<in> set (cl_PortForwards c))"
  by (induction ks) (auto split: option.splits)

lemma planForwards_concat:
  "planForwards st ks = concat (map (\<lambda>n. case clusterAt st n of None \<Rightarrow> []
     | Some c \<Rightarrow> if cl_Connected c \<and> n = ui_LastContext (sta_UI st) then [] else map (Pair n) (cl_PortForwards c)) ks)"
  by (induction ks) (auto split: option.split)

text \<open>Every persisted port-forward, with its context.\<close>

definition allForwards :: "State \<Rightarrow> (string \<times> PortForwardSpec) list" where
  "allForwards st = concat (map (\<lambda>n. case clusterAt st n of None \<Rightarrow> []
     | Some c \<Rightarrow> map (Pair n) (cl_PortForwards c)) (map fst (clusters st)))"

lemma mset_concat_sort: "mset (concat (map f (sort ks))) = mset (concat (map f ks))"
proof -
  have "mset (concat (map f xs)) = (\<Sum>x \<in># mset xs. mset (f x))" for xs
    by (induction xs) simp_all
  then show ?thesis by (metis mset_sort)
qed

lemma concat_single:
  assumes "distinct ks" "n \<in> set ks"
  shows "mset (concat (map f ks)) = mset (concat (map (\<lambda>k. if k = n then [] else f k) ks)) + mset (f n)"
  using assms
proof (induction ks)
  case (Cons k ks)
  show ?case
  proof (cases "k = n")
    case True
    with Cons.prems(1) have "map (\<lambda>k. if k = n then [] else f k) ks = map f ks" by auto
    with True show ?thesis by (simp del: map_eq_conv)
  next
    case False
    with Cons show ?thesis by simp
  qed
qed simp

lemma clusterAt_key: "clusterAt st n = Some c \<Longrightarrow> n \<in> fst ` set (clusters st)"
  by (auto simp: clusterAt_def kv_get_def split: option.splits dest: map_of_SomeD) (metis fst_conv image_eqI map_of_SomeD)

text \<open>
  \<^verbatim>\<open>BuildStartup\<close> neither loses nor repeats a persisted port-forward: the forwards it restores
  at once and those of the context it reconnects (which that context restores itself once it is
  connected) are together all the persisted ones. It reconnects exactly the last context, and
  exactly when that one is marked connected; never in another mode than \<^verbatim>\<open>tun\<close> or \<^verbatim>\<open>socks\<close>, and
  never with an empty namespace.
\<close>

theorem startup_plan_partitions:
  assumes "kv_ok (clusters st)" "clusterAt st [] = None"
  shows "mset (allForwards st) = mset (su_PortForwards (BuildStartup st)) +
      (case su_Reconnect (BuildStartup st) of None \<Rightarrow> {#}
       | Some rc \<Rightarrow> mset (map (Pair (rc_Context rc)) (cl_PortForwards (the (clusterAt st (rc_Context rc)))))) \<and>
    (\<forall>rc. su_Reconnect (BuildStartup st) = Some rc \<longrightarrow>
       rc_Context rc = ui_LastContext (sta_UI st) \<and> connectedAt st (rc_Context rc) \<and>
       rc_Namespace rc \<noteq> [] \<and> rc_Mode rc \<in> {''tun'', ''socks''} \<and>
       (\<forall>p \<in> set (su_PortForwards (BuildStartup st)). fst p \<noteq> rc_Context rc)) \<and>
    (su_Reconnect (BuildStartup st) = None \<longleftrightarrow> \<not> connectedAt st (ui_LastContext (sta_UI st)))"
proof -
  let ?l = "ui_LastContext (sta_UI st)" and ?ks = "map fst (clusters st)"
  let ?f = "\<lambda>n. case clusterAt st n of None \<Rightarrow> [] | Some c \<Rightarrow> map (Pair n) (cl_PortForwards c)"
  have d: "distinct ?ks" using assms(1) by (simp add: kv_ok_def)
  show ?thesis
  proof (cases "connectedAt st ?l")
    case True
    then obtain c where c: "clusterAt st ?l = Some c" "cl_Connected c"
      by (auto simp: connectedAt_def split: option.splits)
    have l: "?l \<noteq> []" using c(1) assms(2) by auto
    have pf: "su_PortForwards (BuildStartup st) = planForwards st (sort ?ks)"
      using c l by (simp add: BuildStartup_def Let_def)
    have rc: "su_Reconnect (BuildStartup st) = Some \<lparr>rc_Context = ?l,
        rc_Namespace = cmpOr [cl_Namespace c, ui_LastNamespace (sta_UI st), ''default''],
        rc_Mode = (if cl_ConnectionMode c \<noteq> ''socks'' then ''tun'' else cl_ConnectionMode c)\<rparr>"
      using c l by (simp add: BuildStartup_def Let_def)
    have skip: "(\<lambda>n. case clusterAt st n of None \<Rightarrow> [] | Some c \<Rightarrow>
          if cl_Connected c \<and> n = ?l then [] else map (Pair n) (cl_PortForwards c)) = (\<lambda>k. if k = ?l then [] else ?f k)"
      using c by (auto simp: fun_eq_iff split: option.split)
    have "mset (planForwards st (sort ?ks)) = mset (concat (map (\<lambda>k. if k = ?l then [] else ?f k) ?ks))"
      unfolding planForwards_concat skip by (rule mset_concat_sort)
    moreover have "mset (allForwards st) = mset (concat (map (\<lambda>k. if k = ?l then [] else ?f k) ?ks)) + mset (?f ?l)"
      unfolding allForwards_def by (rule concat_single [OF d]) (use clusterAt_key [OF c(1)] in simp)
    moreover have "\<forall>p \<in> set (planForwards st (sort ?ks)). fst p \<noteq> ?l"
      using c by (auto simp: planForwards_mem)
    ultimately show ?thesis using True c by (simp add: pf rc)
  next
    case False
    have rc: "su_Reconnect (BuildStartup st) = None" and pf: "su_PortForwards (BuildStartup st) = planForwards st (sort ?ks)"
      using False by (auto simp: BuildStartup_def connectedAt_def Let_def split: option.splits)
    have "(\<lambda>n. case clusterAt st n of None \<Rightarrow> [] | Some c \<Rightarrow>
          if cl_Connected c \<and> n = ?l then [] else map (Pair n) (cl_PortForwards c)) = ?f"
      using False by (auto simp: fun_eq_iff connectedAt_def split: option.splits)
    then have "mset (planForwards st (sort ?ks)) = mset (allForwards st)"
      unfolding planForwards_concat allForwards_def by (simp only: mset_concat_sort)
    with False show ?thesis by (simp add: rc pf)
  qed
qed

definition ex_session :: session where
  "ex_session = \<lparr>se_store = Some ex_store2, se_phase = PhaseConnected, se_mode = ''socks'', se_context = ''dev'',
     se_namespace = ''web'', se_events = [], se_restoring = False, se_pf = pf_m ex_pfsys, se_intercept = NewManager\<rparr>"

lemma ex_running: "running ex_session ''dev'' =
    [\<lparr>pf_Namespace = ''default'', pf_Kind = ''service'', pf_Name = ''web'', pf_Protocol = ''tcp'', pf_RemotePort = 80, pf_LocalPort = 8080\<rparr>]"
  by (simp add: running_def ex_session_def ex_pfsys_def pfCommit_def newPfManager_def pfList_def kv_put_new
      ex_pending_def ex_pfRequest_def toSpec_def Let_def)

theorem persisted_forwards_are_running_witness:
  "\<exists>s'. se_store (persistPortForwards (\<lambda>_. ex_senv) ex_session) = Some s' \<and> length (cl_PortForwards (Cluster s' ''dev'')) = 1"
proof -
  have st: "se_store ex_session = Some ex_store2" by (simp add: ex_session_def)
  have ok: "state_ok (st_state ex_store2)" using ex_store2_inv by (simp add: store_inv_def)
  from persisted_forwards_are_running [OF st ok, of "''dev''" "\<lambda>_. ex_senv"] ex_running
  show ?thesis unfolding running_def by fastforce
qed

definition ex_plan_state :: State where
  "ex_plan_state = (let pf = \<lparr>pf_Namespace = ''default'', pf_Kind = ''pod'', pf_Name = ''db'', pf_Protocol = ''tcp'',
       pf_RemotePort = 5432, pf_LocalPort = 15432\<rparr> in
     newState\<lparr>sta_UI := zeroUI\<lparr>ui_LastContext := ''dev''\<rparr>,
      sta_Clusters := Some [(''prod'', Some (zeroCluster\<lparr>cl_PortForwards := [pf]\<rparr>)),
        (''dev'', Some (zeroCluster\<lparr>cl_Connected := True, cl_PortForwards := [pf, pf]\<rparr>))]\<rparr>)"

theorem startup_plan_partitions_witness:
  "length (allForwards ex_plan_state) = 3 \<and> length (su_PortForwards (BuildStartup ex_plan_state)) = 1 \<and>
   (\<exists>rc. su_Reconnect (BuildStartup ex_plan_state) = Some rc \<and> rc_Context rc = ''dev'' \<and> rc_Mode rc \<in> {''tun'', ''socks''})"
proof -
  have h: "kv_ok (clusters ex_plan_state)" "clusterAt ex_plan_state [] = None"
    by (simp_all add: ex_plan_state_def clusters_def Let_def kv_ok_def clusterAt_def kv_get_def)
  have l: "length (allForwards ex_plan_state) = 3" "connectedAt ex_plan_state (ui_LastContext (sta_UI ex_plan_state))"
    "ui_LastContext (sta_UI ex_plan_state) = ''dev''"
    "length (cl_PortForwards (the (clusterAt ex_plan_state ''dev''))) = 2"
    by code_simp+
  note p = startup_plan_partitions [OF h]
  from p l obtain rc where rc: "su_Reconnect (BuildStartup ex_plan_state) = Some rc" by blast
  with p l have "rc_Context rc = ''dev''" "rc_Mode rc \<in> {''tun'', ''socks''}" by auto
  moreover from p rc this(1) have "mset (allForwards ex_plan_state) = mset (su_PortForwards (BuildStartup ex_plan_state)) +
      mset (map (Pair ''dev'') (cl_PortForwards (the (clusterAt ex_plan_state ''dev''))))" by simp
  then have "size (mset (allForwards ex_plan_state)) = size (mset (su_PortForwards (BuildStartup ex_plan_state))) + 2"
    using l(4) by (simp only: size_union size_mset length_map)
  ultimately show ?thesis using l rc by simp
qed

section \<open>From the shutdown to the next launch\<close>

text \<open>A save that meets no fault.\<close>

definition healthy :: "senv \<Rightarrow> bool" where
  "healthy env \<longleftrightarrow> se_encode env = None \<and> we_mkdir env = None \<and> we_create env = None \<and> we_chmod env = None \<and>
     we_write env = None \<and> we_sync env = None \<and> we_close env = None \<and> we_rename env = None"

lemma saveLocked_healthy:
  assumes "healthy env" "we_temp env \<noteq> st_path s" "st_path s \<noteq> []"
  shows "fst (saveLocked env s) = None" and "synced (snd (saveLocked env s))"
proof -
  show n: "fst (saveLocked env s) = None"
    using assms(1) by (simp add: saveLocked_eq WriteFile_def healthy_def wenv.truncate_def Let_def)
  show "synced (snd (saveLocked env s))"
  proof (cases rule: saveLocked_cases [OF assms(2)])
    case (1 d)
    with assms(3) show ?thesis by (simp add: synced_def)
  next
    case (2 e d)
    with n show ?thesis by simp
  qed
qed

text \<open>The view of the store that the saves of a shutdown change.\<close>

definition at :: "session \<Rightarrow> string \<Rightarrow> ClusterState" where
  "at m n = (case se_store m of None \<Rightarrow> zeroCluster | Some s \<Rightarrow> at_or_zero (st_state s) n)"

definition good :: "string \<Rightarrow> session \<Rightarrow> bool" where
  "good path m \<longleftrightarrow> (\<exists>s. se_store m = Some s \<and> state_ok (st_state s) \<and> st_path s = path \<and> clusterAt (st_state s) [] = None)"

lemma field_call:
  assumes "good path m" "n \<noteq> []" "\<And>c. cl_Connected (f c) = cl_Connected c"
    and "\<And>s. g s = setClusterField env f n s"
  shows "good path (storeCall p g m)" and "same_session m (storeCall p g m)"
    and "at (storeCall p g m) k = (if k = n then f (at m n) else at m k)"
proof -
  from assms(1) obtain s where s: "se_store m = Some s" "state_ok (st_state s)" "st_path s = path" "clusterAt (st_state s) [] = None"
    by (auto simp: good_def)
  show "good path (storeCall p g m)"
    using s assms(2,4) state_ok_updateCluster [OF s(2) assms(3), of n]
    by (auto simp: good_def setClusterField_def)
  show "same_session m (storeCall p g m)" by (simp add: same_session_def)
  show "at (storeCall p g m) k = (if k = n then f (at m n) else at m k)"
    using s assms(2) by (auto simp: at_def at_or_zero_def assms(4) setClusterField_state split: option.split)
qed

lemma persist_calls:
  assumes "good path m" "n \<noteq> []"
  shows "good path (persistExchanges env n m)" "same_session m (persistExchanges env n m)"
    "at (persistExchanges env n m) k = (if k = n then (at m n)\<lparr>cl_Exchanges := exchangeSpecs m\<rparr> else at m k)"
    "good path (persistMirrors env n m)" "same_session m (persistMirrors env n m)"
    "at (persistMirrors env n m) k = (if k = n then (at m n)\<lparr>cl_Mirrors := mirrorSpecs m\<rparr> else at m k)"
    "good path (persistPreviews env n m)" "same_session m (persistPreviews env n m)"
    "at (persistPreviews env n m) k = (if k = n then (at m n)\<lparr>cl_Previews := previewSpecs m\<rparr> else at m k)"
  using field_call [OF assms, where f = "\<lambda>c. c\<lparr>cl_Exchanges := cloneExchanges (exchangeSpecs m)\<rparr>"
        and g = "SetExchanges env n (exchangeSpecs m)"]
    field_call [OF assms, where f = "\<lambda>c. c\<lparr>cl_Mirrors := cloneMirrors (mirrorSpecs m)\<rparr>"
        and g = "SetMirrors env n (mirrorSpecs m)"]
    field_call [OF assms, where f = "\<lambda>c. c\<lparr>cl_Previews := clonePreviews (previewSpecs m)\<rparr>"
        and g = "SetPreviews env n (previewSpecs m)"] assms(2)
  by (simp_all add: persistExchanges_def persistMirrors_def persistPreviews_def
      SetExchanges_def SetMirrors_def SetPreviews_def)

lemma same_session_specs:
  "same_session m m' \<Longrightarrow> exchangeSpecs m' = exchangeSpecs m \<and> mirrorSpecs m' = mirrorSpecs m \<and> previewSpecs m' = previewSpecs m"
  by (simp add: same_session_def exchangeSpecs_def mirrorSpecs_def previewSpecs_def)

lemma same_session_trans: "same_session a b \<Longrightarrow> same_session b c \<Longrightarrow> same_session a c"
  by (simp add: same_session_def)

lemma markConnected_healthy:
  assumes "good path m" "path \<noteq> []" "n \<noteq> []" "healthy env" "we_temp env \<noteq> path"
  obtains m' s' where "markConnected env p n ns b m = Some m'" "se_store m' = Some s'" "synced s'" "st_path s' = path"
    "state_ok (st_state s')" "clusterAt (st_state s') [] = None"
    "ui_LastContext (sta_UI (st_state s')) = n"
    "\<And>k. at m' k = (if k = n then (at m n)\<lparr>cl_Connected := b, cl_Namespace := (if ns \<noteq> [] then ns else cl_Namespace (at m n))\<rparr>
        else if b then (at m k)\<lparr>cl_Connected := False\<rparr> else at m k)"
proof -
  from assms(1) obtain s where s: "se_store m = Some s" "state_ok (st_state s)" "st_path s = path" "clusterAt (st_state s) [] = None"
    by (auto simp: good_def)
  let ?s = "s\<lparr>st_state := connectState n ns b (st_state s)\<rparr>"
  have t: "we_temp env \<noteq> st_path ?s" "st_path ?s \<noteq> []" using assms s by simp_all
  note h = saveLocked_healthy [OF assms(4) t]
  have sc: "SetConnected env n ns b s = (Returns None, snd (saveLocked env ?s))"
    using SetConnected_eq [of s n env ns b] s assms(3) h(1) by (simp add: state_ok_def)
  let ?s' = "snd (saveLocked env ?s)" and ?m' = "m\<lparr>se_store := Some (snd (saveLocked env ?s))\<rparr>"
  have "at ?m' k = (if k = n then (at m n)\<lparr>cl_Connected := b, cl_Namespace := (if ns \<noteq> [] then ns else cl_Namespace (at m n))\<rparr>
        else if b then (at m k)\<lparr>cl_Connected := False\<rparr> else at m k)" for k
    by (auto simp: at_def s at_or_zero_def clusterAt_connectState Let_def zeroCluster_def split: option.split)
  then show thesis
    using s h(2) assms state_ok_connectState [OF s(2), of n ns b]
    by (intro that [of ?m' ?s'])
       (simp_all add: markConnected_def sc clusterAt_connectState, simp add: savedState_def connectState_def Let_def)
qed

lemma at_Cluster: "se_store m = Some s \<Longrightarrow> Cluster s n = at m n"
  by (simp add: at_def Cluster_at_or_zero)

lemma clusterAt_Snapshot: "kv_ok (clusters (st_state s)) \<Longrightarrow> clusterAt (Snapshot s) n = clusterAt (st_state s) n"
proof -
  assume ok: "kv_ok (clusters (st_state s))"
  have c: "clusters (Snapshot s) = filter (\<lambda>p. snd p \<noteq> None) (clusters (st_state s))"
    by (simp add: Snapshot_def cloneState_def cloneClusters_filter)
       (simp add: clusters_def [of "\<lparr>sta_Version = _, sta_UI = _, sta_MCP = _, sta_Clusters = _\<rparr>"])
  then have ok': "kv_ok (clusters (Snapshot s))" using ok by simp
  have "clusterAt (Snapshot s) n = Some c \<longleftrightarrow> clusterAt (st_state s) n = Some c" for c
    using mem_Snapshot [OF ok] kv_get_mem [OF ok', of n "Some c"] by (auto simp: clusterAt_def split: option.splits)
  then show ?thesis by (metis not_None_eq)
qed

lemma Snapshot_simps:
  "ui_LastContext (sta_UI (Snapshot s)) = ui_LastContext (sta_UI (st_state s))"
  "kv_ok (clusters (st_state s)) \<Longrightarrow> kv_ok (clusters (Snapshot s))"
  by (simp_all add: Snapshot_def cloneState_def cloneClusters_filter)
     (simp add: clusters_def [of "\<lparr>sta_Version = _, sta_UI = _, sta_MCP = _, sta_Clusters = _\<rparr>"])

text \<open>The launch that follows a shutdown of a session with a context.\<close>

lemma PersistShutdown_spec:
  assumes "good path m" "path \<noteq> []" "se_context m \<noteq> []" "healthy env1" "we_temp env1 \<noteq> path"
    and mode: "se_mode m = ''tun'' \<or> se_mode m = ''socks''"
  obtains m' s' where "PersistShutdown env env1 m = Some m'" "se_store m' = Some s'" "synced s'" "st_path s' = path"
    "state_ok (st_state s')" "clusterAt (st_state s') [] = None" "ui_LastContext (sta_UI (st_state s')) = se_context m"
    "\<And>k. k \<noteq> [] \<Longrightarrow> cl_PortForwards (at m' k) = running m k"
    "cl_ConnectionMode (at m' (se_context m)) = se_mode m"
    "cl_Connected (at m' (se_context m)) = (se_phase m = PhaseConnected)"
    "se_namespace m \<noteq> [] \<Longrightarrow> cl_Namespace (at m' (se_context m)) = se_namespace m"
    "se_phase m = PhaseConnected \<Longrightarrow> cl_Exchanges (at m' (se_context m)) = exchangeSpecs m \<and>
        cl_Mirrors (at m' (se_context m)) = mirrorSpecs m \<and> cl_Previews (at m' (se_context m)) = previewSpecs m"
proof -
  let ?n = "se_context m" and ?m1 = "persistPortForwards env m"
  from assms(1) obtain s where s: "se_store m = Some s" "state_ok (st_state s)" "st_path s = path" "clusterAt (st_state s) [] = None"
    by (auto simp: good_def)
  from persistPortForwards_spec [OF s(1,2), of env] obtain s1 where s1: "se_store ?m1 = Some s1" "same_session m ?m1"
    "state_ok (st_state s1)" "st_path s1 = st_path s" "clusterAt (st_state s1) [] = clusterAt (st_state s) []"
    "\<And>n. n \<noteq> [] \<Longrightarrow> cl_PortForwards (at_or_zero (st_state s1) n) = running m n"
    by blast
  have g1: "good path ?m1" using s1 s by (auto simp: good_def)
  have ss: "se_context ?m1 = ?n" "se_namespace ?m1 = se_namespace m" "se_mode ?m1 = se_mode m" "se_phase ?m1 = se_phase m"
    using s1(2) by (simp_all add: same_session_def)
  define m2 where "m2 = storeCall ''persist connection mode: '' (SetConnectionMode env1 ?n (se_mode m)) ?m1"
  have c2: "SetConnectionMode env1 ?n (se_mode m) s = setClusterField env1 (\<lambda>c. c\<lparr>cl_ConnectionMode := se_mode m\<rparr>) ?n s" for s
    using mode assms(3) by (auto simp: SetConnectionMode_def)
  have m2: "good path m2" "same_session ?m1 m2"
    "\<And>k. at m2 k = (if k = ?n then (at ?m1 ?n)\<lparr>cl_ConnectionMode := se_mode m\<rparr> else at ?m1 k)"
    using field_call [OF g1 assms(3), where f = "\<lambda>c. c\<lparr>cl_ConnectionMode := se_mode m\<rparr>" and env = env1 and
        g = "SetConnectionMode env1 ?n (se_mode m)", OF _ c2] by (simp_all add: m2_def)
  define b where "b \<longleftrightarrow> se_phase m = PhaseConnected"
  define m3 where "m3 = (if b then persistPreviews env1 ?n (persistMirrors env1 ?n (persistExchanges env1 ?n m2)) else m2)"
  note e = persist_calls(1-3) [OF m2(1) assms(3), of env1]
  note mi = persist_calls(4-6) [OF e(1) assms(3), of env1]
  note pv = persist_calls(7-9) [OF mi(1) assms(3), of env1]
  have sp: "exchangeSpecs m2 = exchangeSpecs m" "mirrorSpecs (persistExchanges env1 ?n m2) = mirrorSpecs m"
    "previewSpecs (persistMirrors env1 ?n (persistExchanges env1 ?n m2)) = previewSpecs m"
    using same_session_specs [OF same_session_trans [OF s1(2) m2(2)]]
      same_session_specs [OF e(2)] same_session_specs [OF mi(2)] by simp_all
  have m3: "good path m3" "\<And>k. at m3 k = (if b \<and> k = ?n
      then (at m2 ?n)\<lparr>cl_Exchanges := exchangeSpecs m, cl_Mirrors := mirrorSpecs m, cl_Previews := previewSpecs m\<rparr> else at m2 k)"
    using m2(1) pv(1,3) e(3) mi(3) sp by (simp_all add: m3_def)
  have ps: "PersistShutdown env env1 m = markConnected env1 ''persist connected flag: '' ?n (se_namespace m) b m3"
    using s(1) assms(3) mode ss by (auto simp: PersistShutdown_def Let_def m3_def m2_def b_def)
  from markConnected_healthy [OF m3(1) assms(2,3,4,5), of "''persist connected flag: ''" "se_namespace m" b]
  obtain m' s' where m': "markConnected env1 ''persist connected flag: '' ?n (se_namespace m) b m3 = Some m'"
    "se_store m' = Some s'" "synced s'" "st_path s' = path" "state_ok (st_state s')" "clusterAt (st_state s') [] = None"
    "ui_LastContext (sta_UI (st_state s')) = ?n"
    and am: "\<And>k. at m' k = (if k = ?n then (at m3 ?n)\<lparr>cl_Connected := b,
         cl_Namespace := (if se_namespace m \<noteq> [] then se_namespace m else cl_Namespace (at m3 ?n))\<rparr>
        else if b then (at m3 k)\<lparr>cl_Connected := False\<rparr> else at m3 k)"
    by metis
  have run: "cl_PortForwards (at ?m1 k) = running m k" if "k \<noteq> []" for k
    using s1(6) [OF that] s1(1) by (simp add: at_def)
  show thesis
    by (rule that [of m' s']) (use m' run assms(3) in \<open>simp_all add: ps am m3(2) m2(3) b_def\<close>)
qed

lemma BuildStartup_forwards: "su_PortForwards (BuildStartup st) = planForwards st (sort (map fst (clusters st)))"
  by (simp add: BuildStartup_def Let_def split: option.split)



section \<open>Restoring a context\<close>

text \<open>A spec as \<^verbatim>\<open>persistPortForwards\<close> writes it: all defaults filled in, the port known.\<close>

definition spec_ok :: "PortForwardSpec \<Rightarrow> bool" where
  "spec_ok p \<longleftrightarrow> pf_Namespace p \<noteq> [] \<and> pf_Kind p \<noteq> [] \<and> pf_Name p \<noteq> [] \<and> pf_RemotePort p \<noteq> 0 \<and> pf_LocalPort p \<noteq> 0 \<and>
     (pf_Protocol p = ''tcp'' \<or> pf_Protocol p = ''udp'')"

text \<open>The cluster and the system give the local port that was asked for.\<close>

definition keeps_port :: "pfAPI \<Rightarrow> bool" where
  "keeps_port api \<longleftrightarrow>
     (\<forall>c ns pod l r f. StartPodPortForward api c ns pod l r = Inr f \<and> l \<noteq> 0 \<longrightarrow> localPortFromAddress (fw_Address f) = Inr l) \<and>
     (\<forall>a f. ListenUDP api a = Inr f \<longrightarrow> (\<forall>l. localPortFromAddress a = Inr l \<longrightarrow> localPortFromAddress (fw_Address f) = Inr l)) \<and>
     (\<forall>a f. ListenTCP api a = Inr f \<longrightarrow> (\<forall>l. localPortFromAddress a = Inr l \<longrightarrow> localPortFromAddress (fw_Address f) = Inr l))"

lemma normalize_spec:
  assumes "spec_ok item" "c \<noteq> []"
  shows "normalizeRequest (specRequest c item) = Inr (specRequest c item)"
proof -
  have "to_lower (trim_space ''tcp'') = ''tcp''" "to_lower (trim_space ''udp'') = ''udp''" by code_simp+
  with assms show ?thesis
    by (auto simp: normalizeRequest_def specRequest_def spec_ok_def Let_def)
qed

lemma startRouted_port:
  assumes "keeps_port api" "startRouted api request target = (Inr p, os, cs)" "rq_LocalPort request \<noteq> 0"
  shows "pd_port p = rq_LocalPort request"
proof -
  let ?a = "join_host_port ''127.0.0.1'' (itoa (unat (rq_LocalPort request)))"
  have a: "localPortFromAddress ?a = Inr (rq_LocalPort request)" by (rule localPort_join [OF assms(3)])
  from assms(2) obtain f where f: "ListenUDP api ?a = Inr f \<or> ListenTCP api ?a = Inr f"
      and c: "checkForwarder request [] True f = (Inr p, os, cs)"
    by (auto simp: startRouted_def Let_def split: if_splits option.splits sum.splits)
  from f assms(1) a have "localPortFromAddress (fw_Address f) = Inr (rq_LocalPort request)"
    by (auto simp: keeps_port_def)
  with c show ?thesis by (auto simp: checkForwarder_def)
qed

lemma startNative_port:
  assumes "keeps_port api" "startNative api request = (Inr p, os, cs)" "rq_LocalPort request \<noteq> 0"
  shows "pd_port p = rq_LocalPort request"
  using startNative_account(2) [OF assms(2) refl] assms(1,3) unfolding keeps_port_def by (metis Inr_inject)

lemma pfOpen_port:
  assumes "keeps_port api" "pfOpen api m (specRequest c item) = (Inr p, os, cs)" "spec_ok item" "c \<noteq> []"
  shows "pd_port p = pf_LocalPort item" and "pd_request p = specRequest c item"
proof -
  note n = normalize_spec [OF assms(3,4)]
  from pfOpen_Inr(1) [OF assms(2)] n show "pd_request p = specRequest c item" by simp
  have l: "rq_LocalPort (specRequest c item) = pf_LocalPort item" "pf_LocalPort item \<noteq> 0"
    using assms(3) by (simp_all add: specRequest_def spec_ok_def)
  have "(\<exists>t. startRouted api (specRequest c item) t = (Inr p, os, cs)) \<or> startNative api (specRequest c item) = (Inr p, os, cs)"
    using assms(2) n by (auto simp: pfOpen_def split: if_splits sum.splits)
  then show "pd_port p = pf_LocalPort item"
    using startRouted_port [OF assms(1)] startNative_port [OF assms(1)] l by metis
qed

text \<open>Once started, a forward is found, whatever is started after it.\<close>

lemma hasPortForward_mono:
  "set (pfList (se_pf m)) \<subseteq> set (pfList (se_pf m')) \<Longrightarrow> hasPortForward m c item \<Longrightarrow> hasPortForward m' c item"
  by (auto simp: hasPortForward_def Let_def list_ex_iff)

lemma pfList_commit:
  assumes "ids_ok m" "unat (pm_nextID m) + 1 < 2 ^ 64"
  shows "pfList (snd (pfCommit m p)) = pfList m @ [fst (pfCommit m p)]"
proof -
  have "kv_get (pm_active m) (pi_ID (fst (pfCommit m p))) = None"
    using pfCommit_fresh(1) [OF assms] by (simp only: pfCommit_simps)
  then show ?thesis by (simp only: pfList_def pfCommit_simps(1) kv_put_new) simp
qed

lemma restoreOne_spec:
  assumes "keeps_port api" "spec_ok item" "c \<noteq> []" "ids_ok (se_pf m)" "unat (pm_nextID (se_pf m)) + 1 < 2 ^ 64"
    and "restoreOne api c item m = (ok, m')"
  shows "ids_ok (se_pf m') \<and> unat (pm_nextID (se_pf m')) \<le> unat (pm_nextID (se_pf m)) + 1 \<and>
    set (pfList (se_pf m)) \<subseteq> set (pfList (se_pf m')) \<and> (ok \<longrightarrow> hasPortForward m' c item)"
proof -
  obtain r os cs where o: "pfOpen api (se_pf m) (specRequest c item) = (r, os, cs)" by (metis prod_cases3)
  show ?thesis
  proof (cases r)
    case (Inl e)
    with o assms(4,6) show ?thesis by (auto simp: restoreOne_def pfStart_def Let_def)
  next
    case (Inr p)
    note port = pfOpen_port [OF assms(1) o [unfolded Inr] assms(2,3)]
    let ?pf = "snd (pfCommit (se_pf m) p)" and ?info = "fst (pfCommit (se_pf m) p)"
    have m': "ok" "se_pf m' = ?pf"
      using assms(6) o Inr by (auto simp: restoreOne_def pfStart_def Let_def case_prod_beta)
    have info: "pi_Context ?info = c" "pi_Namespace ?info = pf_Namespace item" "pi_Kind ?info = pf_Kind item"
      "pi_Name ?info = pf_Name item" "pi_Protocol ?info = pf_Protocol item" "pi_RemotePort ?info = pf_RemotePort item"
      "pi_LocalPort ?info = pf_LocalPort item"
      using port by (simp_all add: pfCommit_def Let_def specRequest_def)
    have l: "pfList (se_pf m') = pfList (se_pf m) @ [?info]"
      using pfList_commit [OF assms(4,5)] m'(2) by simp
    have "pf_Protocol item \<noteq> []" using assms(2) by (auto simp: spec_ok_def)
    then have "hasPortForward m' c item" using l info by (simp add: hasPortForward_def)
    with l m' ids_ok_commit(1) [OF assms(4,5)] pfCommit_fresh(2) [OF assms(4,5)] show ?thesis
      by (auto simp: pfCommit_simps)
  qed
qed

lemma restorePortForwards_spec:
  assumes "\<And>i. keeps_port (api i)" "\<forall>item \<in> set items. spec_ok item" "c \<noteq> []" "ids_ok (se_pf m)"
    and "unat (pm_nextID (se_pf m)) + length items < 2 ^ 64"
    and "restorePortForwards api c items t m = (t', m')"
  shows "ty_restored t' + ty_skipped t' + ty_failed t' = ty_restored t + ty_skipped t + ty_failed t + length items \<and>
    ty_failed t \<le> ty_failed t' \<and> set (pfList (se_pf m)) \<subseteq> set (pfList (se_pf m')) \<and>
    length (filter (\<lambda>item. \<not> hasPortForward m' c item) items) \<le> ty_failed t' - ty_failed t"
  using assms
proof (induction items arbitrary: api t m)
  case Nil
  then show ?case by simp
next
  case (Cons item items)
  have keep: "\<And>i. keeps_port (api (Suc i))" and oks: "\<forall>x \<in> set items. spec_ok x" "spec_ok item"
    using Cons.prems(1,2) by simp_all
  show ?case
  proof (cases "hasPortForward m c item")
    case True
    with Cons.prems(6) have r: "restorePortForwards (\<lambda>i. api (Suc i)) c items (t\<lparr>ty_skipped := ty_skipped t + 1\<rparr>) m = (t', m')"
      by simp
    from Cons.IH [OF keep oks(1) Cons.prems(3,4) _ r] Cons.prems(5) hasPortForward_mono [OF _ True, of m']
    show ?thesis by auto
  next
    case False
    obtain ok m1 where one: "restoreOne (api 0) c item m = (ok, m1)" by fastforce
    let ?t = "if ok then t\<lparr>ty_restored := ty_restored t + 1\<rparr> else t\<lparr>ty_failed := ty_failed t + 1\<rparr>"
    have r: "restorePortForwards (\<lambda>i. api (Suc i)) c items ?t m1 = (t', m')"
      using Cons.prems(6) False one by (cases ok) simp_all
    have b: "unat (pm_nextID (se_pf m)) + 1 < 2 ^ 64" using Cons.prems(5) by simp
    note s = restoreOne_spec [OF Cons.prems(1) oks(2) Cons.prems(3,4) b one]
    have b1: "unat (pm_nextID (se_pf m1)) + length items < 2 ^ 64" using s Cons.prems(5) by simp
    from s have "ids_ok (se_pf m1)" by simp
    from Cons.IH [OF keep oks(1) Cons.prems(3) this b1 r] s hasPortForward_mono [of m1 m' c item]
    show ?thesis by (cases ok) auto
  qed
qed

lemma restorePortForwards_skips:
  assumes "\<forall>item \<in> set items. hasPortForward m c item"
  shows "restorePortForwards api c items t m = (t\<lparr>ty_skipped := ty_skipped t + length items\<rparr>, m)"
  using assms by (induction items arbitrary: t api) simp_all

text \<open>
  Restoring the port-forwards of a context: each of the persisted forwards is counted once as
  restored, skipped or failed; afterwards all but at most the failed ones are running as they were
  persisted, and nothing that ran before has gone; and when none failed, restoring again starts
  nothing and changes nothing.
\<close>

theorem restore_forwards_complete:
  assumes "\<And>i. keeps_port (api i)" "\<forall>item \<in> set items. spec_ok item" "c \<noteq> []" "ids_ok (se_pf m)"
    and "unat (pm_nextID (se_pf m)) + length items < 2 ^ 64"
    and "restorePortForwards api c items noTally m = (t, m')"
  shows "ty_restored t + ty_skipped t + ty_failed t = length items \<and>
    length (filter (\<lambda>item. \<not> hasPortForward m' c item) items) \<le> ty_failed t \<and>
    set (pfList (se_pf m)) \<subseteq> set (pfList (se_pf m')) \<and>
    (ty_failed t = 0 \<longrightarrow> restorePortForwards api' c items noTally m' = (noTally\<lparr>ty_skipped := length items\<rparr>, m'))"
proof -
  note s = restorePortForwards_spec [OF assms]
  have "restorePortForwards api' c items noTally m' = (noTally\<lparr>ty_skipped := length items\<rparr>, m')" if "ty_failed t = 0"
  proof -
    from s that have "filter (\<lambda>item. \<not> hasPortForward m' c item) items = []" by simp
    then have "\<forall>item \<in> set items. hasPortForward m' c item" by (auto simp: filter_empty_conv)
    from restorePortForwards_skips [OF this] show ?thesis by (simp add: noTally_def)
  qed
  with s show ?thesis by (simp add: noTally_def)
qed

definition ex_spec :: PortForwardSpec where
  "ex_spec = \<lparr>pf_Namespace = ''default'', pf_Kind = ''service'', pf_Name = ''web'', pf_Protocol = ''tcp'',
     pf_RemotePort = 80, pf_LocalPort = 8080\<rparr>"

definition ex_port_api :: pfAPI where
  "ex_port_api = \<lparr>ResolveServiceBackend = (\<lambda>c ns n p. Inr (''web-0'', 8080)), ResolveRoutedTarget = (\<lambda>r. Inr ''10.0.0.7:80''),
     StartPodPortForward = (\<lambda>c ns n l r. if l = 8080 then Inr ex_fw else Inl (Errorf ''address already in use'')),
     ResolveUDPAddr = (\<lambda>a. None), ListenUDP = (\<lambda>a. Inl Canceled), ListenTCP = (\<lambda>a. Inl Canceled)\<rparr>"

theorem restore_forwards_complete_witness:
  "(let m = ex_session\<lparr>se_pf := newPfManager\<rparr>; (t, m') = restorePortForwards (\<lambda>_. ex_port_api) ''dev'' [ex_spec] noTally m
    in ty_restored t = 1 \<and> ty_failed t = 0 \<and>
       restorePortForwards (\<lambda>_. ex_port_api) ''dev'' [ex_spec] noTally m' = (noTally\<lparr>ty_skipped := 1\<rparr>, m'))"
proof -
  let ?m = "ex_session\<lparr>se_pf := newPfManager\<rparr>"
  obtain t m' where r: "restorePortForwards (\<lambda>_. ex_port_api) ''dev'' [ex_spec] noTally ?m = (t, m')" by fastforce
  have k: "keeps_port ex_port_api" by (simp add: keeps_port_def ex_port_api_def ex_fw_def ex_localPort)
  have h: "\<forall>item \<in> set [ex_spec]. spec_ok item" "ids_ok (se_pf ?m)" "unat (pm_nextID (se_pf ?m)) + length [ex_spec] < 2 ^ 64"
    by (simp_all add: ex_spec_def spec_ok_def ids_ok_def newPfManager_def)
  have n: "normalizeRequest (specRequest ''dev'' ex_spec) = Inr (specRequest ''dev'' ex_spec)"
    using h(1) by (intro normalize_spec) simp_all
  have "fst (pfOpen ex_port_api newPfManager (specRequest ''dev'' ex_spec)) \<noteq> Inl e" for e
    using n by (simp add: pfOpen_def newPfManager_def specRequest_def ex_spec_def startNative_def ex_port_api_def
        KindPod_def KindService_def checkForwarder_def ex_fw_def ex_localPort)
  then have "fst (restoreOne ex_port_api ''dev'' ex_spec ?m)"
    by (auto simp: restoreOne_def pfStart_def Let_def case_prod_beta split: sum.splits) 
  then have "ty_failed t = 0" "ty_restored t = 1"
    using r by (auto simp: hasPortForward_def newPfManager_def pfList_def noTally_def split: prod.splits bool.splits)
  with restore_forwards_complete [where api = "\<lambda>_. ex_port_api" and api' = "\<lambda>_. ex_port_api", OF k h(1) _ h(2,3) r] r
  show ?thesis by simp
qed

section \<open>Closing what a connection opened\<close>

lemma closeLoop_eq:
  "closeLoop ce rs (errs, calls) =
     (errs @ concat (map (\<lambda>r. case ce (rr_closer r) of None \<Rightarrow> []
        | Some e \<Rightarrow> if errors_is e NetErrClosed then [] else [Wrapf (''close '' @ rr_name r @ '': '') e]) rs),
      calls @ map rr_closer rs)"
  by (induction rs arbitrary: errs calls) (auto split: option.split)

lemma addResources:
  "sr_resources (fold (\<lambda>(name, c). addResource name (Some c)) xs r) =
     sr_resources r @ map (\<lambda>(name, c). \<lparr>rr_name = name, rr_closer = c\<rparr>) xs"
  "sr_once (fold (\<lambda>(name, c). addResource name (Some c)) xs r) = sr_once r"
  "sr_calls (fold (\<lambda>(name, c). addResource name (Some c)) xs r) = sr_calls r"
  by (induction xs arbitrary: r) (auto simp: addResource_def)

text \<open>
  The resources of a connection are closed in the reverse order of their registration, each of
  them once, also when some of them fail; the errors of all of them are reported except those that
  say the resource was closed already; and a second \<^verbatim>\<open>Close\<close> calls nothing and reports the same.
\<close>

theorem runtime_close_reverse:
  "let r = fold (\<lambda>(name, c). addResource name (Some c)) xs newSessionRuntime in
    sr_calls (snd (closeRuntime closeErr r)) = rev (map snd xs) \<and>
    fst (closeRuntime closeErr r) = concat (map (\<lambda>(name, c). case closeErr c of None \<Rightarrow> []
        | Some e \<Rightarrow> if errors_is e NetErrClosed then [] else [Wrapf (''close '' @ name @ '': '') e]) (rev xs)) \<and>
    closeRuntime closeErr' (snd (closeRuntime closeErr r)) = closeRuntime closeErr r"
proof -
  define r where "r = fold (\<lambda>(name, c). addResource name (Some c)) xs newSessionRuntime"
  have rs: "sr_resources r = map (\<lambda>(name, c). \<lparr>rr_name = name, rr_closer = c\<rparr>) xs" "\<not> sr_once r" "sr_calls r = []"
    unfolding r_def addResources by (simp_all add: newSessionRuntime_def)
  have "map rr_closer (rev (sr_resources r)) = rev (map snd xs)"
    by (simp add: rs rev_map comp_def case_prod_beta)
  then show ?thesis
    unfolding Let_def r_def [symmetric]
    by (simp add: closeRuntime_def rs(2,3) closeLoop_eq)
       (auto simp: rs(1) rev_map comp_def intro!: arg_cong [of _ _ concat] split: option.split)
qed

end
