(* ===== verification/Discovery.thy ===== *)
theory Discovery
  imports Netip "HOL-Library.Product_Lexorder"
begin

text \<open>
  Which address ranges a cluster routes: \<^verbatim>\<open>internal/cluster/discovery\<close>. The ranges that pods,
  services, kubeadm, the control-plane components and the API server's validation messages reveal
  are collected as sets of CIDR texts (a Go map with empty values; here a list without repetitions)
  and compacted.

  \<^verbatim>\<open>netip.ParsePrefix\<close> and \<^verbatim>\<open>netip.ParseAddr\<close> are arguments of the definitions, because only their
  agreement with the printed form matters; the answers of the Kubernetes API are arguments too.
  Loops that Go writes without a bound are \<^theory_text>\<open>partial_function (option)\<close>, and their termination is
  proved.
\<close>

unbundle bit_operations_syntax

section \<open>Common prefixes of addresses\<close>

definition inferredIPv4Bits :: nat where "inferredIPv4Bits = 24"
definition inferredIPv6Bits :: nat where "inferredIPv6Bits = 64"
definition mergeFloorIPv4 :: nat where "mergeFloorIPv4 = 12"
definition mergeFloorIPv6 :: nat where "mergeFloorIPv6 = 48"

text \<open>\<^verbatim>\<open>Addr.As16\<close>: an IPv4 address in its IPv4-mapped form.\<close>

fun as16 :: "addr \<Rightarrow> byte list" where
  "as16 (V4 w) = replicate 10 0 @ [0xFF, 0xFF] @ map (\<lambda>i. word_of_nat (octet (V4 w) i)) [0..<4]"
| "as16 (V6 w) = map (\<lambda>i. word_of_nat (octet (V6 w) i)) [0..<16]"

text \<open>The inner loop: it would not end for a difference of 0.\<close>

partial_function (option) maskLoop :: "byte \<Rightarrow> byte \<Rightarrow> nat \<Rightarrow> nat option" where
  "maskLoop difference mask0 bits =
     (if difference AND mask0 = 0 then maskLoop difference (drop_bit 1 mask0) (bits + 1) else Some bits)"

fun byteLoop :: "byte list \<Rightarrow> byte list \<Rightarrow> nat \<Rightarrow> nat option" where
  "byteLoop (x # xs) (y # ys) bits =
     (let difference = x XOR y in
      if difference = 0 then byteLoop xs ys (bits + 8) else maskLoop difference 0x80 bits)"
| "byteLoop _ _ bits = Some bits"

definition commonPrefixBits :: "addr \<Rightarrow> addr \<Rightarrow> nat option" where
  "commonPrefixBits left right =
     (let offset = (if Is4 left \<and> Is4 right then 12 else 0)
      in byteLoop (drop offset (as16 left)) (drop offset (as16 right)) 0)"

section \<open>Inferring and compacting ranges\<close>

fun commonBitsLoop :: "addr \<Rightarrow> nat \<Rightarrow> prefix list \<Rightarrow> nat option" where
  "commonBitsLoop first commonBits [] = Some commonBits"
| "commonBitsLoop first commonBits (p # ps) =
     (case commonPrefixBits first (pfx_addr p) of
        None \<Rightarrow> None
      | Some n \<Rightarrow> commonBitsLoop first (min commonBits n) ps)"

definition PrefixFrom :: "addr \<Rightarrow> nat \<Rightarrow> prefix" where
  "PrefixFrom a n = \<lparr>pfx_addr = a, pfx_bits = n\<rparr>"

text \<open>The ranges of one family: the common supernet when it is narrow enough, or all of them.\<close>

definition inferFamily :: "nat \<Rightarrow> prefix list \<Rightarrow> prefix list option" where
  "inferFamily floor0 prefixes =
     (case prefixes of
        [] \<Rightarrow> Some []
      | p # ps \<Rightarrow>
          (let first = pfx_addr p in
           case commonBitsLoop first (pfx_bits p) ps of
             None \<Rightarrow> None
           | Some commonBits \<Rightarrow>
               if commonBits \<ge> floor0 then Some [Masked (PrefixFrom first commonBits)] else Some prefixes))"

definition familyOf :: "bool \<Rightarrow> addr list \<Rightarrow> prefix list" where
  "familyOf is4 addresses =
     map (\<lambda>a. Masked (PrefixFrom a (if is4 then inferredIPv4Bits else inferredIPv6Bits)))
       (filter (\<lambda>a. Is4 a = is4) addresses)"

definition inferPrefixes :: "addr list \<Rightarrow> prefix list option" where
  "inferPrefixes addresses =
     (case inferFamily mergeFloorIPv4 (familyOf True addresses) of
        None \<Rightarrow> None
      | Some v4 \<Rightarrow>
          (case inferFamily mergeFloorIPv6 (familyOf False addresses) of
             None \<Rightarrow> None
           | Some v6 \<Rightarrow> Some (v4 @ v6)))"

type_synonym cidrSet = "string list"

definition addKey :: "cidrSet \<Rightarrow> string \<Rightarrow> cidrSet" where
  "addKey s k = (if k \<in> set s then s else s @ [k])"

definition inferCIDRs :: "addr list \<Rightarrow> cidrSet option" where
  "inferCIDRs addresses = map_option (\<lambda>ps. foldl addKey [] (map prefix_string ps)) (inferPrefixes addresses)"

definition mergeCIDRs :: "cidrSet \<Rightarrow> cidrSet list \<Rightarrow> cidrSet" where
  "mergeCIDRs target sources = foldl (foldl addKey) target sources"

text \<open>The order of \<^verbatim>\<open>slices.SortFunc\<close>: family, then length, then address.\<close>

definition pfxKey :: "prefix \<Rightarrow> nat \<times> nat \<times> nat" where
  "pfxKey p = (BitLen (pfx_addr p), pfx_bits p, addr_nat (pfx_addr p))"

fun keepLoop :: "prefix list \<Rightarrow> prefix list \<Rightarrow> prefix list" where
  "keepLoop kept [] = kept"
| "keepLoop kept (candidate # rest) =
     (if list_ex (\<lambda>existing. BitLen (pfx_addr existing) = BitLen (pfx_addr candidate) \<and>
            Contains existing (pfx_addr candidate)) kept
      then keepLoop kept rest else keepLoop (kept @ [candidate]) rest)"

definition parsedPrefixes :: "(string \<Rightarrow> prefix option) \<Rightarrow> cidrSet \<Rightarrow> prefix list" where
  "parsedPrefixes parsePrefix values0 = List.map_filter (\<lambda>raw. map_option Masked (parsePrefix raw)) values0"

definition compactPrefixes :: "(string \<Rightarrow> prefix option) \<Rightarrow> cidrSet \<Rightarrow> prefix list" where
  "compactPrefixes parsePrefix values0 = keepLoop [] (sort_key pfxKey (parsedPrefixes parsePrefix values0))"

definition compactCIDRs :: "(string \<Rightarrow> prefix option) \<Rightarrow> cidrSet \<Rightarrow> string list" where
  "compactCIDRs parsePrefix values0 = map prefix_string (compactPrefixes parsePrefix values0)"

section \<open>The loops end, with the length of the longest common prefix\<close>

lemma maskLoop_ends:
  fixes d :: byte and k :: nat
  assumes "k < 8" "\<exists>j \<le> k. bit d j"
  shows "\<exists>j \<le> k. bit d j \<and> (\<forall>i. j < i \<and> i \<le> k \<longrightarrow> \<not> bit d i) \<and> maskLoop d (push_bit k 1) b = Some (b + (k - j))"
  using assms
proof (induction k arbitrary: b)
  case 0
  then have "d AND push_bit 0 1 \<noteq> 0" using bit_iff_and_push_bit_not_eq_0 [of d 0] by simp
  then show ?case using 0 by (subst maskLoop.simps) simp
next
  case (Suc k)
  have m: "d AND push_bit (Suc k) 1 = 0 \<longleftrightarrow> \<not> bit d (Suc k)"
    using bit_iff_and_push_bit_not_eq_0 [of d "Suc k"] by blast
  show ?case
  proof (cases "bit d (Suc k)")
    case True
    then show ?thesis using m by (subst maskLoop.simps) (auto intro!: exI [of _ "Suc k"])
  next
    case False
    with Suc.prems(2) have ex: "\<exists>j \<le> k. bit d j" by (metis le_Suc_eq)
    have sh: "drop_bit 1 (push_bit (Suc k) (1::byte)) = push_bit k 1"
      using Suc.prems(1) by (intro bit_word_eqI) (auto simp: bit_drop_bit_eq bit_push_bit_iff bit_1_iff simp del: push_bit_of_1 push_bit_Suc)
    from Suc.IH [OF _ ex, of "b + 1"] Suc.prems(1) obtain j where j: "j \<le> k" "bit d j"
      "\<forall>i. j < i \<and> i \<le> k \<longrightarrow> \<not> bit d i" "maskLoop d (push_bit k 1) (b + 1) = Some (b + 1 + (k - j))" by auto
    have "maskLoop d (push_bit (Suc k) 1) b = maskLoop d (push_bit k 1) (b + 1)"
      using False m sh by (subst maskLoop.simps) simp
    with j False show ?thesis by (intro exI [of _ j]) (auto simp: le_Suc_eq Suc_diff_le)
  qed
qed

text \<open>The bits of a byte, the most significant first, and how far two lists agree.\<close>

definition byte_bits :: "byte \<Rightarrow> bool list" where
  "byte_bits x = map (\<lambda>i. bit x (7 - i)) [0..<8]"

fun agree :: "bool list \<Rightarrow> bool list \<Rightarrow> nat" where
  "agree (x # xs) (y # ys) = (if x = y then Suc (agree xs ys) else 0)"
| "agree _ _ = 0"

lemma agree_append: "length xs = length ys \<Longrightarrow> agree (xs @ us) (ys @ vs) = (if xs = ys then length xs + agree us vs else agree xs ys)"
  by (induction xs ys rule: list_induct2) auto

lemma agree_first_diff:
  assumes "length xs = length ys" "n < length xs" "xs ! n \<noteq> ys ! n" "\<forall>i < n. xs ! i = ys ! i"
  shows "agree xs ys = n"
  using assms
proof (induction xs ys arbitrary: n rule: list_induct2)
  case (Cons x xs y ys)
  show ?case
  proof (cases n)
    case 0
    with Cons.prems show ?thesis by simp
  next
    case (Suc k)
    have "x = y" "\<forall>i < k. xs ! i = ys ! i"
      using Cons.prems(3) [rule_format, of 0] Cons.prems(3) [rule_format, of "Suc i" for i] Suc by auto
    with Suc Cons.IH [of k] Cons.prems show ?thesis by simp
  qed
qed simp

lemma byte_bits_eq: "byte_bits x = byte_bits y \<longleftrightarrow> x = y"
proof
  assume h: "byte_bits x = byte_bits y"
  have "bit x n = bit y n" if "n < 8" for n
  proof -
    have "byte_bits x ! (7 - n) = byte_bits y ! (7 - n)" using h by simp
    moreover have "[0..<8] ! (7 - n) = 7 - n" by (subst nth_upt) simp_all
    ultimately show ?thesis using that by (simp add: byte_bits_def)
  qed
  then show "x = y" by (intro bit_word_eqI) simp
qed simp

lemma maskLoop_agree:
  assumes "x \<noteq> y"
  shows "maskLoop (x XOR y) 0x80 b = Some (b + agree (byte_bits x) (byte_bits y))"
proof -
  let ?d = "x XOR y"
  have "\<exists>j \<le> 7. bit ?d j"
  proof (rule ccontr)
    assume "\<not> ?thesis"
    then have "\<forall>j < 8. bit x j = bit y j" by (auto simp: bit_xor_iff)
    then have "x = y" by (intro bit_word_eqI) simp
    with assms show False by simp
  qed
  from maskLoop_ends [OF _ this, of b] obtain j where j: "j \<le> 7" "bit ?d j" "\<forall>i. j < i \<and> i \<le> 7 \<longrightarrow> \<not> bit ?d i"
    "maskLoop ?d (push_bit 7 1) b = Some (b + (7 - j))" by auto
  have "agree (byte_bits x) (byte_bits y) = 7 - j"
    by (rule agree_first_diff) (use j in \<open>auto simp: byte_bits_def bit_xor_iff\<close>)
  moreover have "push_bit 7 (1::byte) = 0x80" by (simp add: push_bit_eq_mult)
  ultimately show ?thesis using j(4) by simp
qed

lemma byteLoop_agree:
  "length xs = length ys \<Longrightarrow>
   byteLoop xs ys b = Some (b + agree (concat (map byte_bits xs)) (concat (map byte_bits ys)))"
proof (induction xs ys arbitrary: b rule: list_induct2)
  case (Cons x xs y ys)
  have l: "length (byte_bits x) = length (byte_bits y)" "length (byte_bits y) = 8" by (simp_all add: byte_bits_def)
  show ?case
  proof (cases "x = y")
    case True
    then show ?thesis using Cons.IH [of "b + 8"] l by (simp add: agree_append)
  next
    case False
    then have "x XOR y \<noteq> 0" by (metis xor.assoc xor.right_neutral xor_self_eq xor.left_neutral)
    then show ?thesis using False l byte_bits_eq [of x y] maskLoop_agree [OF False, of b]
      by (simp add: agree_append [OF l(1)])
  qed
qed simp

text \<open>The bits of an address, the most significant first.\<close>

definition addr_bits :: "addr \<Rightarrow> bool list" where
  "addr_bits a = map (\<lambda>i. bit (addr_nat a) (BitLen a - 1 - i)) [0..<BitLen a]"

lemma length_addr_bits [simp]: "length (addr_bits a) = BitLen a"
  by (simp add: addr_bits_def)

lemma concat_upt8: "concat (map (\<lambda>i. map (\<lambda>j. g (8 * i + j)) [0..<8]) [0..<n]) = map g [0..<8 * n]"
proof (induction n)
  case (Suc n)
  have "[0..<8 * Suc n] = [0..<8 * n] @ [8 * n..<8 * n + 8]"
    using upt_add_eq_append [of 0 "8 * n" 8] by (simp add: add.commute del: upt_Suc)
  also have "[8 * n..<8 * n + 8] = map (\<lambda>j. 8 * n + j) [0..<8]"
    by (rule nth_equalityI) (simp_all del: upt_Suc)
  finally have "map g [0..<8 * Suc n] = map g [0..<8 * n] @ map (\<lambda>j. g (8 * n + j)) [0..<8]"
    by (simp only: map_append map_map comp_def)
  moreover have "[0..<Suc n] = [0..<n] @ [n]" by simp
  ultimately show ?case by (simp only: map_append concat_append list.map concat.simps Suc append_Nil2)
qed simp

lemma bit_byte_of_nat: "bit (word_of_nat m :: byte) k \<longleftrightarrow> k < 8 \<and> bit m k"
  by transfer (auto simp: bit_take_bit_iff bit_of_nat_iff_bit)

lemma byte_bits_octet:
  assumes "8 * (i + 1) \<le> BitLen a"
  shows "byte_bits (word_of_nat (octet a i)) = map (\<lambda>j. bit (addr_nat a) (BitLen a - 1 - (8 * i + j))) [0..<8]"
proof -
  have "bit (word_of_nat (octet a i) :: byte) (7 - j) = bit (addr_nat a) (BitLen a - 1 - (8 * i + j))" if "j < 8" for j
  proof -
    let ?s = "BitLen a - 8 * (i + 1)"
    have "octet a i = take_bit 8 (drop_bit ?s (addr_nat a))"
      by (simp add: octet_def take_bit_eq_mod drop_bit_eq_div)
    then have "bit (octet a i) (7 - j) = bit (addr_nat a) (?s + (7 - j))"
      by (auto simp: bit_take_bit_iff bit_drop_bit_eq)
    moreover have "?s + (7 - j) = BitLen a - 1 - (8 * i + j)" using assms that by simp
    ultimately show ?thesis by (auto simp: bit_byte_of_nat)
  qed
  then show ?thesis by (simp add: byte_bits_def)
qed

lemma bytes_addr_bits:
  assumes "8 * n = BitLen a"
  shows "concat (map byte_bits (map (\<lambda>i. word_of_nat (octet a i)) [0..<n])) = addr_bits a"
proof -
  have "map (byte_bits \<circ> (\<lambda>i. word_of_nat (octet a i))) [0..<n] =
      map (\<lambda>i. map (\<lambda>j. bit (addr_nat a) (BitLen a - 1 - (8 * i + j))) [0..<8]) [0..<n]"
    using assms byte_bits_octet [of _ a] by (intro map_cong refl) (auto simp del: upt_Suc)
  then have "concat (map byte_bits (map (\<lambda>i. word_of_nat (octet a i)) [0..<n])) =
      map (\<lambda>i. bit (addr_nat a) (BitLen a - 1 - i)) [0..<8 * n]"
    using concat_upt8 [of "\<lambda>i. bit (addr_nat a) (BitLen a - 1 - i)" n] by (simp only: map_map)
  then show ?thesis by (simp add: addr_bits_def assms)
qed

lemma agree_ge: "length xs = length ys \<Longrightarrow> n \<le> length xs \<Longrightarrow> n \<le> agree xs ys \<longleftrightarrow> take n xs = take n ys"
proof (induction xs ys arbitrary: n rule: list_induct2)
  case (Cons x xs y ys)
  then show ?case by (cases n) auto
qed simp

lemma agree_le: "length xs = length ys \<Longrightarrow> agree xs ys \<le> length xs"
  by (induction xs ys rule: list_induct2) auto

lemma take_addr_bits:
  assumes "Is4 a = Is4 b" "n \<le> BitLen a"
  shows "take n (addr_bits a) = take n (addr_bits b) \<longleftrightarrow> top_bits n a = top_bits n b"
proof -
  let ?L = "BitLen a"
  have L: "BitLen b = ?L" using assms(1) by (simp add: BitLen_Is4)
  have "take n (addr_bits a) = take n (addr_bits b) \<longleftrightarrow>
      (\<forall>i < n. bit (addr_nat a) (?L - 1 - i) = bit (addr_nat b) (?L - 1 - i))"
    using assms(2) by (auto simp: list_eq_iff_nth_eq addr_bits_def L)
  also have "\<dots> \<longleftrightarrow> (\<forall>m. bit (addr_nat a) (?L - n + m) = bit (addr_nat b) (?L - n + m))"
  proof
    assume h: "\<forall>i < n. bit (addr_nat a) (?L - 1 - i) = bit (addr_nat b) (?L - 1 - i)"
    have "bit (addr_nat a) (?L - n + m) = bit (addr_nat b) (?L - n + m)" for m
    proof (cases "m < n")
      case True
      with h [rule_format, of "n - 1 - m"] assms(2) show ?thesis by (simp add: add_diff_inverse_nat)
    next
      case False
      have small: "\<not> bit x (?L - n + m)" if "x < 2 ^ ?L" for x :: nat
      proof -
        have "?L \<le> ?L - n + m" using False assms(2) by simp
        then have "(2::nat) ^ ?L \<le> 2 ^ (?L - n + m)" by (intro power_increasing) simp_all
        with that have "x < 2 ^ (?L - n + m)" by (rule less_le_trans)
        then show ?thesis by (simp add: bit_iff_odd)
      qed
      show ?thesis using small [OF addr_nat_bound [of a]] small [of "addr_nat b"] addr_nat_bound [of b] L by simp
    qed
    then show "\<forall>m. bit (addr_nat a) (?L - n + m) = bit (addr_nat b) (?L - n + m)" ..
  next
    assume h: "\<forall>m. bit (addr_nat a) (?L - n + m) = bit (addr_nat b) (?L - n + m)"
    have "bit (addr_nat a) (?L - 1 - i) = bit (addr_nat b) (?L - 1 - i)" if i: "i < n" for i
    proof -
      have "?L - n + (n - 1 - i) = ?L - 1 - i" using i assms(2) by simp
      with h [rule_format, of "n - 1 - i"] show ?thesis by simp
    qed
    then show "\<forall>i < n. bit (addr_nat a) (?L - 1 - i) = bit (addr_nat b) (?L - 1 - i)" by blast
  qed
  also have "\<dots> \<longleftrightarrow> drop_bit (?L - n) (addr_nat a) = drop_bit (?L - n) (addr_nat b)"
    by (auto simp: bit_eq_iff bit_drop_bit_eq)
  finally show ?thesis by (simp add: top_bits_def drop_bit_eq_div L)
qed

lemma commonPrefixBits_agree:
  assumes "Is4 a = Is4 b"
  shows "commonPrefixBits a b = Some (agree (addr_bits a) (addr_bits b))"
proof (cases a)
  case (V4 w)
  with assms obtain v where v: "b = V4 v" by (cases b) auto
  have "drop 12 (as16 (V4 u)) = map (\<lambda>i. word_of_nat (octet (V4 u) i)) [0..<4]" for u by simp
  then show ?thesis using V4 v bytes_addr_bits [of 4 "V4 w"] bytes_addr_bits [of 4 "V4 v"]
    by (simp add: commonPrefixBits_def byteLoop_agree del: as16.simps upt_Suc)
next
  case (V6 w)
  with assms obtain v where v: "b = V6 v" by (cases b) auto
  then show ?thesis using V6 bytes_addr_bits [of 16 "V6 w"] bytes_addr_bits [of 16 "V6 v"]
    by (simp add: commonPrefixBits_def byteLoop_agree del: upt_Suc)
qed

text \<open>
  C39. \<^verbatim>\<open>commonPrefixBits\<close> returns on every pair of addresses of one family (its loop over the mask,
  which has no bound of its own, always meets a set bit), and what it returns is the length of the
  longest common prefix: exactly the lengths up to it are lengths on which the two addresses agree.
\<close>

theorem commonPrefixBits_terminates:
  assumes "Is4 a = Is4 b"
  shows "\<exists>n. commonPrefixBits a b = Some n \<and> n \<le> BitLen a \<and>
    (\<forall>k \<le> BitLen a. k \<le> n \<longleftrightarrow> top_bits k a = top_bits k b)"
proof -
  have L: "BitLen b = BitLen a" using assms by (simp add: BitLen_Is4)
  show ?thesis
    using commonPrefixBits_agree [OF assms] agree_le [of "addr_bits a" "addr_bits b"]
      agree_ge [of "addr_bits a" "addr_bits b"] take_addr_bits [OF assms] L by simp
qed

section \<open>Compaction\<close>

text \<open>A prefix covers only prefixes that are at least as long as itself.\<close>

lemma covers_bits:
  assumes "covers p q" "prefix_ok p" "prefix_ok q"
  shows "Is4 (pfx_addr p) = Is4 (pfx_addr q)" "pfx_bits p \<le> pfx_bits q" "Contains p (pfx_addr q)"
proof -
  show c: "Contains p (pfx_addr q)" using assms(1) by (simp add: covers_def)
  then show is4: "Is4 (pfx_addr p) = Is4 (pfx_addr q)" by (simp add: Contains_def)
  let ?a = "pfx_addr q" and ?L = "BitLen (pfx_addr q)"
  have L: "BitLen (pfx_addr p) = ?L" using is4 by (simp add: BitLen_Is4)
  show "pfx_bits p \<le> pfx_bits q"
  proof (rule ccontr)
    assume "\<not> ?thesis"
    then have lt: "pfx_bits q < pfx_bits p" by simp
    have le: "pfx_bits p \<le> ?L" using assms(2) L by (simp add: prefix_ok_def)
    define k where "k = ?L - pfx_bits p"
    define x where "x = addr_nat ?a XOR 2 ^ k"
    have kL: "k < ?L" using lt le by (simp add: k_def)
    have "take_bit ?L x = x"
      using addr_nat_bound [of ?a] kL by (simp add: x_def take_bit_xor take_bit_nat_eq_self)
    then have xb: "x < 2 ^ ?L" by (metis take_bit_nat_less_exp)
    let ?b = "with_nat ?a x"
    have xa: "addr_nat ?b = x" by (rule addr_nat_with_nat [OF xb])
    have tb: "top_bits n ?b = drop_bit (?L - n) (addr_nat ?a) XOR drop_bit (?L - n) (2 ^ k)" for n
      by (simp add: top_bits_def xa flip: drop_bit_eq_div) (simp add: x_def drop_bit_xor)
    have "(2::nat) ^ k < 2 ^ (?L - pfx_bits q)"
      using lt le by (intro power_strict_increasing) (simp_all add: k_def)
    then have "drop_bit (?L - pfx_bits q) (2 ^ k :: nat) = 0" by (simp add: drop_bit_eq_div)
    then have "Contains q ?b" by (simp add: Contains_def tb) (simp add: top_bits_def drop_bit_eq_div)
    with assms(1) have "Contains p ?b" by (simp add: covers_def)
    with c have "top_bits (pfx_bits p) ?b = top_bits (pfx_bits p) ?a" by (simp add: Contains_def)
    then have "drop_bit k (addr_nat ?a) XOR drop_bit k (2 ^ k) = drop_bit k (addr_nat ?a)"
      by (simp add: tb k_def) (simp add: top_bits_def drop_bit_eq_div)
    moreover have "drop_bit k (2 ^ k :: nat) = 1" by (simp add: drop_bit_eq_div)
    ultimately show False by (metis xor.assoc xor.left_neutral xor_self_eq one_neq_zero)
  qed
qed

definition canonical :: "prefix \<Rightarrow> bool" where
  "canonical p \<longleftrightarrow> prefix_ok p \<and> Masked p = p"

lemma covers_antisym:
  assumes "covers p q" "covers q p" "canonical p" "canonical q"
  shows "p = q"
proof -
  have ok: "prefix_ok p" "prefix_ok q" using assms by (simp_all add: canonical_def)
  note a = covers_bits [OF assms(1) ok] and b = covers_bits [OF assms(2) ok(2,1)]
  have bits: "pfx_bits p = pfx_bits q" using a b by simp
  have L: "BitLen (pfx_addr p) = BitLen (pfx_addr q)" using a(1) by (simp add: BitLen_Is4)
  have "top_bits (pfx_bits p) (pfx_addr p) = top_bits (pfx_bits p) (pfx_addr q)" using a(3) by (simp add: Contains_def)
  then have "addr_nat (pfx_addr (Masked p)) = addr_nat (pfx_addr (Masked q))"
    by (simp add: addr_nat_Masked top_bits_def bits L)
  then have "pfx_addr p = pfx_addr q" using assms(3,4) a(1) by (intro addr_eqI) (simp_all add: canonical_def)
  with bits show ?thesis by simp
qed

lemma pfxKey_inject: "pfxKey p = pfxKey q \<longleftrightarrow> p = q"
proof
  assume h: "pfxKey p = pfxKey q"
  then have "Is4 (pfx_addr p) = Is4 (pfx_addr q)"
    by (cases "Is4 (pfx_addr p)"; cases "Is4 (pfx_addr q)") (simp_all add: pfxKey_def BitLen_Is4)
  with h have "pfx_addr p = pfx_addr q" "pfx_bits p = pfx_bits q" by (auto simp: pfxKey_def intro: addr_eqI)
  then show "p = q" by simp
qed simp

text \<open>Among prefixes in the order of the sort, an earlier one covers a later one of its family if it holds its address.\<close>

lemma earlier_covers:
  assumes "pfxKey e \<le> pfxKey c" "BitLen (pfx_addr e) = BitLen (pfx_addr c)" "prefix_ok e" "prefix_ok c"
  shows "Contains e (pfx_addr c) \<longleftrightarrow> covers e c"
  using assms coversI [of e c] covers_bits(3) [of e c] by (auto simp: pfxKey_def)

definition kept_inv :: "prefix list \<Rightarrow> prefix list \<Rightarrow> bool" where
  "kept_inv done0 kept \<longleftrightarrow> set kept \<subseteq> set done0 \<and> sorted_wrt (<) (map pfxKey kept) \<and>
     (\<forall>x \<in> set done0. \<exists>r \<in> set kept. covers r x) \<and> (\<forall>r \<in> set kept. \<forall>q \<in> set kept. covers r q \<longrightarrow> r = q)"

lemma keepLoop_inv:
  assumes "kept_inv done0 kept" "sorted (map pfxKey (done0 @ rest))" "\<forall>p \<in> set (done0 @ rest). canonical p"
  shows "kept_inv (done0 @ rest) (keepLoop kept rest)"
  using assms
proof (induction rest arbitrary: done0 kept)
  case Nil
  then show ?case by simp
next
  case (Cons c rest)
  have ok: "\<forall>p \<in> set done0. canonical p" "canonical c" using Cons.prems(3) by simp_all
  have le: "\<forall>p \<in> set done0. pfxKey p \<le> pfxKey c" using Cons.prems(2) by (auto simp: sorted_append)
  have sub: "set kept \<subseteq> set done0" using Cons.prems(1) by (simp add: kept_inv_def)
  have test: "list_ex (\<lambda>e. BitLen (pfx_addr e) = BitLen (pfx_addr c) \<and> Contains e (pfx_addr c)) kept \<longleftrightarrow>
      (\<exists>e \<in> set kept. covers e c)"
  proof -
    have "BitLen (pfx_addr e) = BitLen (pfx_addr c) \<and> Contains e (pfx_addr c) \<longleftrightarrow> covers e c" if "e \<in> set kept" for e
    proof -
      have e: "canonical e" "pfxKey e \<le> pfxKey c" using that sub ok le by auto
      have "covers e c \<Longrightarrow> BitLen (pfx_addr e) = BitLen (pfx_addr c)"
        using covers_bits(1) [of e c] e ok(2) by (simp add: canonical_def BitLen_Is4)
      with earlier_covers [OF e(2)] e ok(2) show ?thesis by (auto simp: canonical_def)
    qed
    then show ?thesis by (auto simp: list_ex_iff)
  qed
  have step: "kept_inv (done0 @ [c]) (if (\<exists>e \<in> set kept. covers e c) then kept else kept @ [c])"
  proof (cases "\<exists>e \<in> set kept. covers e c")
    case True
    with Cons.prems(1) show ?thesis by (auto simp: kept_inv_def)
  next
    case False
    have later: "\<not> covers c e" if e: "e \<in> set kept" for e
    proof
      assume h: "covers c e"
      have ce: "canonical e" "pfxKey e \<le> pfxKey c" using e sub ok le by auto
      note cb = covers_bits [OF h] 
      have k: "prefix_ok c" "prefix_ok e" using ce ok(2) by (simp_all add: canonical_def)
      have L: "BitLen (pfx_addr e) = BitLen (pfx_addr c)" using cb(1) [OF k] by (simp add: BitLen_Is4)
      have "pfx_bits e = pfx_bits c" using cb(2) [OF k] ce(2) L by (auto simp: pfxKey_def)
      then have "Contains e (pfx_addr c)" using cb(3) [OF k] by (auto simp: Contains_def)
      with earlier_covers [OF ce(2) L k(2,1)] False e show False by blast
    qed
    have "pfxKey e < pfxKey c" if "e \<in> set kept" for e
    proof -
      have "e \<noteq> c" using False that by auto
      with sub le that show ?thesis by (metis order_le_less pfxKey_inject subsetD)
    qed
    with False later Cons.prems(1) show ?thesis by (auto simp: kept_inv_def sorted_wrt_append)
  qed
  have "keepLoop kept (c # rest) = keepLoop (if (\<exists>e \<in> set kept. covers e c) then kept else kept @ [c]) rest"
    using test by simp
  with Cons.IH [OF step] Cons.prems(2,3) show ?case by simp
qed

text \<open>\<^verbatim>\<open>ParsePrefix\<close> gives no prefix longer than the address.\<close>

definition parse_ok :: "(string \<Rightarrow> prefix option) \<Rightarrow> bool" where
  "parse_ok parse \<longleftrightarrow> (\<forall>raw p. parse raw = Some p \<longrightarrow> prefix_ok p)"

lemma set_parsedPrefixes:
  "set (parsedPrefixes parse vs) = {Masked p | p raw. raw \<in> set vs \<and> parse raw = Some p}"
proof -
  have "x \<in> set (parsedPrefixes parse vs) \<longleftrightarrow> (\<exists>raw \<in> set vs. map_option Masked (parse raw) = Some x)" for x
    unfolding parsedPrefixes_def by (induction vs) (auto simp: map_filter_simps split: option.split)
  then show ?thesis by (auto, blast)
qed

lemma compactPrefixes_inv:
  assumes "parse_ok parse"
  shows "kept_inv (sort_key pfxKey (parsedPrefixes parse vs)) (compactPrefixes parse vs)"
    and "\<forall>p \<in> set (parsedPrefixes parse vs). canonical p"
proof -
  show can: "\<forall>p \<in> set (parsedPrefixes parse vs). canonical p"
    using assms by (fastforce simp: parse_ok_def set_parsedPrefixes canonical_def prefix_ok_def)
  have "kept_inv [] []" by (simp add: kept_inv_def)
  from keepLoop_inv [OF this, of "sort_key pfxKey (parsedPrefixes parse vs)"] can
  show "kept_inv (sort_key pfxKey (parsedPrefixes parse vs)) (compactPrefixes parse vs)"
    by (simp add: compactPrefixes_def)
qed

text \<open>The reference: the ranges that no other range of the set covers.\<close>

definition maximalRanges :: "prefix set \<Rightarrow> prefix set" where
  "maximalRanges P = {p \<in> P. \<forall>q \<in> P. covers q p \<longrightarrow> q = p}"

lemma compactPrefixes_set:
  assumes "parse_ok parse"
  shows "set (compactPrefixes parse vs) = maximalRanges (set (parsedPrefixes parse vs))"
proof -
  let ?P = "set (parsedPrefixes parse vs)" and ?R = "set (compactPrefixes parse vs)"
  note inv = compactPrefixes_inv [OF assms, where vs = vs]
  have sub: "?R \<subseteq> ?P" and cov: "\<And>x. x \<in> ?P \<Longrightarrow> \<exists>r \<in> ?R. covers r x"
    and anti: "\<And>r q. r \<in> ?R \<Longrightarrow> q \<in> ?R \<Longrightarrow> covers r q \<Longrightarrow> r = q"
    using inv(1) by (auto simp: kept_inv_def)
  show ?thesis
  proof (intro equalityI subsetI)
    fix r assume r: "r \<in> ?R"
    have "q = r" if q: "q \<in> ?P" "covers q r" for q
    proof -
      from cov [OF q(1)] obtain r' where r': "r' \<in> ?R" "covers r' q" by blast
      with anti [OF r'(1) r covers_trans [OF r'(2) q(2)]] have "covers r q" by simp
      with q inv(2) sub r show "q = r" using covers_antisym by blast
    qed
    with r sub show "r \<in> maximalRanges ?P" by (auto simp: maximalRanges_def)
  next
    fix p assume p: "p \<in> maximalRanges ?P"
    then obtain r where "r \<in> ?R" "covers r p" using cov by (auto simp: maximalRanges_def)
    with p sub show "p \<in> ?R" by (auto simp: maximalRanges_def)
  qed
qed

text \<open>
  C29. \<^verbatim>\<open>compactCIDRs\<close> is equivalent to its specification: what it keeps are exactly the ranges of the
  set that no other range of the set covers, in the order of family, length and address. So the
  addresses that are routed are exactly those of the given ranges, no kept range lies in another, and
  the result does not depend on the order in which the Go map is ranged over.
\<close>

theorem compact_is_maximal_ranges:
  assumes "parse_ok parsePrefix"
  shows "compactCIDRs parsePrefix vs = map prefix_string (compactPrefixes parsePrefix vs) \<and>
    set (compactPrefixes parsePrefix vs) = maximalRanges (set (parsedPrefixes parsePrefix vs)) \<and>
    sorted_wrt (\<lambda>p q. pfxKey p < pfxKey q) (compactPrefixes parsePrefix vs) \<and>
    (\<forall>a. (\<exists>p \<in> set (compactPrefixes parsePrefix vs). Contains p a) \<longleftrightarrow>
         (\<exists>raw \<in> set vs. \<exists>p. parsePrefix raw = Some p \<and> Contains p a)) \<and>
    (\<forall>ws. set ws = set vs \<longrightarrow> compactCIDRs parsePrefix ws = compactCIDRs parsePrefix vs)"
proof -
  let ?R = "\<lambda>vs. compactPrefixes parsePrefix vs"
  note inv = compactPrefixes_inv [OF assms]
  have sorted: "sorted_wrt (\<lambda>p q. pfxKey p < pfxKey q) (?R ws)" for ws
    using inv(1) by (simp add: kept_inv_def sorted_wrt_map)
  have cov: "(\<exists>p \<in> set (?R vs). Contains p a) \<longleftrightarrow> (\<exists>raw \<in> set vs. \<exists>p. parsePrefix raw = Some p \<and> Contains p a)" for a
  proof
    assume "\<exists>p \<in> set (?R vs). Contains p a"
    then obtain p where "p \<in> set (parsedPrefixes parsePrefix vs)" "Contains p a"
      by (auto simp: compactPrefixes_set [OF assms] maximalRanges_def)
    then show "\<exists>raw \<in> set vs. \<exists>p. parsePrefix raw = Some p \<and> Contains p a"
      unfolding set_parsedPrefixes by auto (metis Contains_Masked)
  next
    assume "\<exists>raw \<in> set vs. \<exists>p. parsePrefix raw = Some p \<and> Contains p a"
    then obtain raw p where "raw \<in> set vs" "parsePrefix raw = Some p" "Contains p a" by blast
    moreover from this have "Masked p \<in> set (parsedPrefixes parsePrefix vs)" by (auto simp: set_parsedPrefixes)
    then obtain r where "r \<in> set (?R vs)" "covers r (Masked p)" using inv(1) [of vs] by (auto simp: kept_inv_def)
    ultimately show "\<exists>p \<in> set (?R vs). Contains p a" by (auto simp: covers_def)
  qed
  have same: "?R ws = ?R vs" if "set ws = set vs" for ws
  proof -
    have "set (?R ws) = set (?R vs)"
      using that by (simp add: compactPrefixes_set [OF assms] set_parsedPrefixes)
    moreover have "inj pfxKey" by (simp add: inj_def pfxKey_inject)
    moreover have "sorted_wrt (<) (map pfxKey (?R us))" for us using sorted [of us] by (simp add: sorted_wrt_map)
    ultimately have "map pfxKey (?R ws) = map pfxKey (?R vs)" by (intro strict_sorted_equal) simp_all
    then show ?thesis using \<open>inj pfxKey\<close> by (simp add: inj_map_eq_map)
  qed
  have "compactCIDRs parsePrefix ws = compactCIDRs parsePrefix vs" if "set ws = set vs" for ws
    unfolding compactCIDRs_def same [OF that] ..
  then show ?thesis using sorted [of vs] cov compactPrefixes_set [OF assms, of vs] compactCIDRs_def [of parsePrefix vs] by blast
qed

definition ex_parse :: "string \<Rightarrow> prefix option" where
  "ex_parse raw =
     (if raw = ''10.0.0.0/8'' then Some (PrefixFrom (V4 0x0A000000) 8)
      else if raw = ''10.96.0.1/12'' then Some (PrefixFrom (V4 0x0A600001) 12)
      else if raw = ''fd00::/64'' then Some (PrefixFrom (V6 (push_bit 120 0xFD)) 64) else None)"

theorem compact_is_maximal_ranges_witness:
  "set (compactPrefixes ex_parse [''10.96.0.1/12'', ''x'', ''10.0.0.0/8'']) =
     maximalRanges (set (parsedPrefixes ex_parse [''10.96.0.1/12'', ''x'', ''10.0.0.0/8''])) \<and>
   compactCIDRs ex_parse [''10.96.0.1/12'', ''x'', ''10.0.0.0/8''] = [''10.0.0.0/8''] \<and>
   compactCIDRs ex_parse [''10.0.0.0/8'', ''10.96.0.1/12'', ''x''] = compactCIDRs ex_parse [''10.96.0.1/12'', ''x'', ''10.0.0.0/8'']"
proof -
  have ok: "parse_ok ex_parse"
    by (auto simp: parse_ok_def ex_parse_def prefix_ok_def PrefixFrom_def split: if_splits)
  have pp: "parsedPrefixes ex_parse [''10.96.0.1/12'', ''x'', ''10.0.0.0/8''] =
      [PrefixFrom (V4 0x0A600000) 12, PrefixFrom (V4 0x0A000000) 8]"
    by (simp add: parsedPrefixes_def ex_parse_def map_filter_def Masked_def PrefixFrom_def)
  have "compactCIDRs ex_parse [''10.96.0.1/12'', ''x'', ''10.0.0.0/8''] = [''10.0.0.0/8'']"
    by (simp add: compactCIDRs_def compactPrefixes_def pp pfxKey_def PrefixFrom_def Contains_def top_bits_def
        prefix_string_def v4_string_def octet_def itoa.simps char_of_digit)
  moreover note c = compact_is_maximal_ranges [OF ok, of "[''10.96.0.1/12'', ''x'', ''10.0.0.0/8'']"]
  moreover from c have "\<forall>ws. set ws = set [''10.96.0.1/12'', ''x'', ''10.0.0.0/8''] \<longrightarrow>
      compactCIDRs ex_parse ws = compactCIDRs ex_parse [''10.96.0.1/12'', ''x'', ''10.0.0.0/8'']" by blast
  from this [rule_format, of "[''10.0.0.0/8'', ''10.96.0.1/12'', ''x'']"]
  have "compactCIDRs ex_parse [''10.0.0.0/8'', ''10.96.0.1/12'', ''x''] = compactCIDRs ex_parse [''10.96.0.1/12'', ''x'', ''10.0.0.0/8'']"
    by (simp add: insert_commute)
  ultimately show ?thesis by blast
qed

lemma ex_as16:
  "as16 (V4 0x0A000001) = replicate 10 0 @ [0xFF, 0xFF, 10, 0, 0, 1]" "as16 (V4 0x0A000101) = replicate 10 0 @ [0xFF, 0xFF, 10, 0, 1, 1]"
  "as16 (V4 0x0AF40000) = replicate 10 0 @ [0xFF, 0xFF, 10, 244, 0, 0]" "as16 (V4 0x0AF40100) = replicate 10 0 @ [0xFF, 0xFF, 10, 244, 1, 0]"
  "as16 (V4 0x0AF40200) = replicate 10 0 @ [0xFF, 0xFF, 10, 244, 2, 0]"
  by (simp_all add: octet_def upt_rec)

lemma ex_common:
  "commonPrefixBits (V4 0x0A000001) (V4 0x0A000101) = Some 23"
  "commonPrefixBits (V4 0x0AF40000) (V4 0x0AF40100) = Some 23" "commonPrefixBits (V4 0x0AF40000) (V4 0x0AF40200) = Some 22"
  unfolding commonPrefixBits_def ex_as16 by (simp_all add: maskLoop.simps)

theorem commonPrefixBits_terminates_witness:
  "commonPrefixBits (V4 0x0A000001) (V4 0x0A000101) = Some 23 \<and>
   top_bits 23 (V4 0x0A000001) = top_bits 23 (V4 0x0A000101) \<and> top_bits 24 (V4 0x0A000001) \<noteq> top_bits 24 (V4 0x0A000101)"
proof -
  note c = ex_common(1)
  from commonPrefixBits_terminates [of "V4 0x0A000001" "V4 0x0A000101"] c
  have h: "\<forall>k \<le> 32. k \<le> 23 \<longleftrightarrow> top_bits k (V4 0x0A000001) = top_bits k (V4 0x0A000101)" by simp
  show ?thesis using c h [rule_format, of 23] h [rule_format, of 24] by simp
qed

section \<open>The inferred ranges\<close>

lemma commonBitsLoop_spec:
  assumes "\<forall>p \<in> set ps. Is4 (pfx_addr p) = Is4 first" "cb \<le> BitLen first"
  shows "\<exists>c. commonBitsLoop first cb ps = Some c \<and> c \<le> cb \<and>
    (\<forall>p \<in> set ps. top_bits c (pfx_addr p) = top_bits c first)"
  using assms
proof (induction ps arbitrary: cb)
  case (Cons p ps)
  from Cons.prems have is4: "Is4 first = Is4 (pfx_addr p)" by simp
  let ?n = "agree (addr_bits first) (addr_bits (pfx_addr p))"
  have L: "BitLen (pfx_addr p) = BitLen first" using is4 by (simp add: BitLen_Is4)
  have n: "commonPrefixBits first (pfx_addr p) = Some ?n" by (rule commonPrefixBits_agree [OF is4])
  have m: "\<forall>q \<in> set ps. Is4 (pfx_addr q) = Is4 first" "min cb ?n \<le> BitLen first"
    using Cons.prems by (simp_all add: min.coboundedI1)
  from Cons.IH [OF m] obtain c where c: "commonBitsLoop first (min cb ?n) ps = Some c" "c \<le> min cb ?n"
    "\<forall>q \<in> set ps. top_bits c (pfx_addr q) = top_bits c first" by blast
  have "c \<le> BitLen first" using c(2) Cons.prems(2) by simp
  then have "top_bits c first = top_bits c (pfx_addr p)"
    using c(2) agree_ge [of "addr_bits first" "addr_bits (pfx_addr p)" c] take_addr_bits [OF is4, of c] L by simp
  with c n show ?case by auto
qed simp

text \<open>What an inferred range of a family looks like.\<close>

lemma inferFamily_spec:
  assumes fam: "\<forall>a \<in> set as. Is4 a = is4" and bits: "bits \<le> (if is4 then 32 else 128)" and floor: "floor0 \<le> bits"
  shows "\<exists>ps. inferFamily floor0 (map (\<lambda>a. Masked (PrefixFrom a bits)) as) = Some ps \<and>
    (\<forall>a \<in> set as. \<exists>p \<in> set ps. Contains p a) \<and>
    (\<forall>p \<in> set ps. Is4 (pfx_addr p) = is4 \<and> floor0 \<le> pfx_bits p \<and> pfx_bits p \<le> bits \<and> Masked p = p)"
proof (cases as)
  case Nil
  then show ?thesis by (simp add: inferFamily_def)
next
  case (Cons a0 as')
  let ?P = "\<lambda>a. Masked (PrefixFrom a bits)"
  let ?f = "pfx_addr (?P a0)"
  have is4: "Is4 ?f = is4" "\<And>a. a \<in> set as \<Longrightarrow> Is4 (pfx_addr (?P a)) = is4"
    using fam Cons by (auto simp: PrefixFrom_def)
  have L: "BitLen ?f = (if is4 then 32 else 128)" using is4(1) by (simp add: BitLen_Is4)
  have "\<forall>p \<in> set (map ?P as'). Is4 (pfx_addr p) = Is4 ?f" using is4 Cons by auto
  moreover have "pfx_bits (?P a0) \<le> BitLen ?f" using bits L by (simp add: PrefixFrom_def)
  ultimately obtain c where c: "commonBitsLoop ?f (pfx_bits (?P a0)) (map ?P as') = Some c" "c \<le> pfx_bits (?P a0)"
    "\<forall>p \<in> set (map ?P as'). top_bits c (pfx_addr p) = top_bits c ?f"
    using commonBitsLoop_spec by metis
  have cb: "c \<le> bits" using c(2) by (simp add: PrefixFrom_def)
  have inf: "inferFamily floor0 (map ?P as) = (if c \<ge> floor0 then Some [Masked (PrefixFrom ?f c)] else Some (map ?P as))"
    using Cons c(1) by (simp add: inferFamily_def Let_def)
  have self: "top_bits bits a = top_bits bits (pfx_addr (?P a))" for a
    using top_bits_Masked [of "PrefixFrom a bits"] by (simp add: PrefixFrom_def)
  show ?thesis
  proof (cases "c \<ge> floor0")
    case True
    have "Contains (Masked (PrefixFrom ?f c)) a" if a: "a \<in> set as" for a
    proof -
      have ia: "Is4 a = Is4 (pfx_addr (?P a))" "Is4 a = is4" using is4(2) [OF a] fam a by simp_all
      have "bits \<le> BitLen a" using bits ia(2) by (simp add: BitLen_Is4)
      from top_bits_mono [OF cb this ia(1) self] have "top_bits c a = top_bits c (pfx_addr (?P a))" .
      moreover have "top_bits c (pfx_addr (?P a)) = top_bits c ?f" using c(3) a Cons by auto
      ultimately show ?thesis using is4(1) ia(2) by (simp only: Contains_Masked) (simp add: Contains_def PrefixFrom_def)
    qed
    with True inf is4(1) cb show ?thesis by (auto simp: PrefixFrom_def)
  next
    case False
    have "Contains (?P a) a" for a by (simp only: Contains_Masked) (simp add: Contains_def PrefixFrom_def)
    moreover have "pfx_bits (?P a) = bits" for a by (simp add: PrefixFrom_def)
    ultimately show ?thesis using False inf is4(2) floor by auto
  qed
qed

lemma inferPrefixes_spec:
  "\<exists>ps. inferPrefixes addresses = Some ps \<and> inferCIDRs addresses = Some (foldl addKey [] (map prefix_string ps)) \<and>
     (\<forall>a \<in> set addresses. \<exists>p \<in> set ps. Contains p a) \<and>
     (\<forall>p \<in> set ps. Masked p = p \<and>
        (if Is4 (pfx_addr p) then 12 \<le> pfx_bits p \<and> pfx_bits p \<le> 24 else 48 \<le> pfx_bits p \<and> pfx_bits p \<le> 64))"
proof -
  from inferFamily_spec [of "filter (\<lambda>a. Is4 a = True) addresses" True 24 12] obtain v4 where
    v4: "inferFamily 12 (familyOf True addresses) = Some v4" "\<forall>a \<in> set addresses. Is4 a \<longrightarrow> (\<exists>p \<in> set v4. Contains p a)"
    "\<forall>p \<in> set v4. Is4 (pfx_addr p) \<and> 12 \<le> pfx_bits p \<and> pfx_bits p \<le> 24 \<and> Masked p = p"
    by (auto simp: familyOf_def inferredIPv4Bits_def)
  from inferFamily_spec [of "filter (\<lambda>a. Is4 a = False) addresses" False 64 48] obtain v6 where
    v6: "inferFamily 48 (familyOf False addresses) = Some v6" "\<forall>a \<in> set addresses. \<not> Is4 a \<longrightarrow> (\<exists>p \<in> set v6. Contains p a)"
    "\<forall>p \<in> set v6. \<not> Is4 (pfx_addr p) \<and> 48 \<le> pfx_bits p \<and> pfx_bits p \<le> 64 \<and> Masked p = p"
    by (auto simp: familyOf_def inferredIPv6Bits_def)
  have "inferPrefixes addresses = Some (v4 @ v6)"
    using v4(1) v6(1) by (simp add: inferPrefixes_def mergeFloorIPv4_def mergeFloorIPv6_def)
  moreover from v4(2) v6(2) have "\<forall>a \<in> set addresses. \<exists>p \<in> set (v4 @ v6). Contains p a"
    by (metis Un_iff set_append)
  moreover from v4(3) v6(3) have "\<forall>p \<in> set (v4 @ v6). Masked p = p \<and>
      (if Is4 (pfx_addr p) then 12 \<le> pfx_bits p \<and> pfx_bits p \<le> 24 else 48 \<le> pfx_bits p \<and> pfx_bits p \<le> 64)"
    by auto
  ultimately show ?thesis by (auto simp: inferCIDRs_def simp del: set_append)
qed

text \<open>
  What \<^verbatim>\<open>inferCIDRs\<close> infers from observed addresses: it returns, every observed address lies in
  one of the ranges, every range is canonical, and no range is broader than a /12 (IPv6: /48) or
  narrower than a /24 (IPv6: /64).
\<close>

theorem inferred_ranges_cover:
  "\<exists>ps. inferPrefixes addresses = Some ps \<and> inferCIDRs addresses = Some (foldl addKey [] (map prefix_string ps)) \<and>
     (\<forall>a \<in> set addresses. \<exists>p \<in> set ps. Contains p a) \<and>
     (\<forall>p \<in> set ps. Masked p = p \<and>
        (if Is4 (pfx_addr p) then 12 \<le> pfx_bits p \<and> pfx_bits p \<le> 24 else 48 \<le> pfx_bits p \<and> pfx_bits p \<le> 64))"
  by (rule inferPrefixes_spec)

definition ex_pods :: "addr list" where
  "ex_pods = [V4 0x0AF40005, V4 0x0AF40107, V4 0x0AF4020B]"

lemma ex_family:
  "familyOf True ex_pods = [PrefixFrom (V4 0x0AF40000) 24, PrefixFrom (V4 0x0AF40100) 24, PrefixFrom (V4 0x0AF40200) 24]"
  "familyOf False ex_pods = []"
  by (simp_all add: familyOf_def ex_pods_def Masked_def PrefixFrom_def inferredIPv4Bits_def Let_def)

lemma ex_infer: "inferPrefixes ex_pods = Some [PrefixFrom (V4 0x0AF40000) 22]"
  by (simp add: inferPrefixes_def ex_family inferFamily_def ex_common mergeFloorIPv4_def PrefixFrom_def [of _ 24] Let_def)
     (simp add: PrefixFrom_def Masked_def)

theorem inferred_ranges_cover_witness:
  "inferCIDRs ex_pods = Some [''10.244.0.0/22''] \<and>
   (\<exists>ps. inferPrefixes ex_pods = Some ps \<and> list_all (\<lambda>a. list_ex (\<lambda>p. Contains p a) ps) ex_pods)"
proof -
  have "inferCIDRs ex_pods = Some [''10.244.0.0/22'']"
    by (simp add: inferCIDRs_def ex_infer addKey_def prefix_string_def PrefixFrom_def v4_string_def octet_def itoa.simps
        char_of_digit)
  with inferred_ranges_cover [of ex_pods] show ?thesis by (auto simp: list_all_iff list_ex_iff)
qed

end
