(* ===== verification/NetworkScan.thy ===== *)
theory NetworkScan
  imports Discovery "HOL-Library.List_Lexorder" "HOL-Library.Char_ord"
begin

text \<open>
  The scan of a cluster: \<^verbatim>\<open>internal/cluster/discovery/discovery.go\<close>, \<^verbatim>\<open>service_probe.go\<close> and the
  collecting half of \<^verbatim>\<open>cidr.go\<close>. The answers of the Kubernetes API are an argument (a record with
  one answer per request the code makes), and so are \<^verbatim>\<open>yaml.Unmarshal\<close> and the parsers of
  \<^verbatim>\<open>net/netip\<close>. The scan is an option: \<^term>\<open>None\<close> would be a loop that does not end.
\<close>

section \<open>Texts\<close>

text \<open>\<^verbatim>\<open>strings.Cut\<close> at one byte, \<^verbatim>\<open>strings.Fields\<close>, \<^verbatim>\<open>strings.Trim\<close> and \<^verbatim>\<open>strings.LastIndex\<close>, on ASCII texts.\<close>

definition str_cut :: "char \<Rightarrow> string \<Rightarrow> string \<times> string \<times> bool" where
  "str_cut c s =
     (if c \<in> set s then (takeWhile (\<lambda>x. x \<noteq> c) s, tl (dropWhile (\<lambda>x. x \<noteq> c) s), True) else (s, [], False))"

fun str_fields_acc :: "string \<Rightarrow> string \<Rightarrow> string list" where
  "str_fields_acc cur [] = (if cur = [] then [] else [rev cur])"
| "str_fields_acc cur (c # s) =
     (if is_space c then (if cur = [] then [] else [rev cur]) @ str_fields_acc [] s
      else str_fields_acc (c # cur) s)"

definition str_fields :: "string \<Rightarrow> string list" where
  "str_fields s = str_fields_acc [] s"

definition str_trim :: "string \<Rightarrow> string \<Rightarrow> string" where
  "str_trim s cutset = rev (dropWhile (\<lambda>c. c \<in> set cutset) (rev (dropWhile (\<lambda>c. c \<in> set cutset) s)))"

fun last_index :: "string \<Rightarrow> string \<Rightarrow> nat option" where
  "last_index [] p = (if p = [] then Some 0 else None)"
| "last_index (c # s) p =
     (case last_index s p of
        Some i \<Rightarrow> Some (Suc i)
      | None \<Rightarrow> if has_prefix (c # s) p then Some 0 else None)"

section \<open>What the API answers\<close>

record container =
  ct_Command :: "string list"
  ct_Args :: "string list"

record pod =
  pd_Containers :: "container list"
  pd_HostNetwork :: bool
  pd_PodIP :: string
  pd_PodIPs :: "string list"

record service =
  sv_Namespace :: string
  sv_Name :: string
  sv_ClusterIP :: string
  sv_ClusterIPs :: "string list"

record node =
  nd_PodCIDR :: string
  nd_PodCIDRs :: "string list"

record kubeClient =
  kc_Nodes :: "node list res"
  kc_ConfigMap :: "string \<Rightarrow> string \<Rightarrow> (string, string) kv res"
  kc_Pods :: "string \<Rightarrow> pod list res"
  kc_Services :: "string \<Rightarrow> service list res"
  kc_Service :: "string \<Rightarrow> string \<Rightarrow> service res"
  kc_Deployments :: "nat res"
  kc_ServiceCIDRs :: "string list list res"
  kc_DryRunService :: "string \<Rightarrow> string \<Rightarrow> goerr option"

record scanResult =
  sr_PodCIDRs :: "string list"
  sr_ServiceCIDRs :: "string list"
  sr_ServiceIPs :: "string list"
  sr_DNSServer :: string
  sr_Pods :: nat
  sr_Services :: nat
  sr_Deployments :: nat

text \<open>The functions of other packages that the scan calls.\<close>

record scanLib =
  parseAddr :: "string \<Rightarrow> addr option"
  parsePrefix :: "string \<Rightarrow> prefix option"
  unmarshalNetworking :: "string \<Rightarrow> (string \<times> string) res"

section \<open>Collecting ranges\<close>

definition addAddress :: "scanLib \<Rightarrow> addr list \<Rightarrow> string \<Rightarrow> addr list" where
  "addAddress lib addresses raw =
     (case parseAddr lib (trim_space raw) of
        None \<Rightarrow> addresses
      | Some address \<Rightarrow> addresses @ [Unmap address])"

definition podAddresses :: "scanLib \<Rightarrow> pod list \<Rightarrow> addr list" where
  "podAddresses lib pods =
     foldl (\<lambda>addresses pod.
        if pd_HostNetwork pod then addresses
        else foldl (addAddress lib) (addAddress lib addresses (pd_PodIP pod)) (pd_PodIPs pod)) [] pods"

definition inferPodCIDRs :: "scanLib \<Rightarrow> pod list \<Rightarrow> cidrSet option" where
  "inferPodCIDRs lib pods = inferCIDRs (podAddresses lib pods)"

definition serviceAddresses :: "scanLib \<Rightarrow> service list \<Rightarrow> addr list" where
  "serviceAddresses lib services =
     foldl (\<lambda>addresses service.
        foldl (addAddress lib) (addAddress lib addresses (sv_ClusterIP service)) (sv_ClusterIPs service)) [] services"

definition inferServiceCIDRs :: "scanLib \<Rightarrow> service list \<Rightarrow> cidrSet option" where
  "inferServiceCIDRs lib services = inferCIDRs (serviceAddresses lib services)"

definition addPrefix :: "scanLib \<Rightarrow> cidrSet \<Rightarrow> string \<Rightarrow> cidrSet" where
  "addPrefix lib cidrs raw =
     (case parsePrefix lib raw of None \<Rightarrow> cidrs | Some p \<Rightarrow> addKey cidrs (prefix_string (Masked p)))"

definition addCIDRs :: "scanLib \<Rightarrow> cidrSet \<Rightarrow> string \<Rightarrow> cidrSet" where
  "addCIDRs lib cidrs vs = foldl (\<lambda>s raw. addPrefix lib s (trim_space raw)) cidrs (split_on (CHR '','') vs)"

text \<open>The switch over one argument of a component, with the next argument for \<^verbatim>\<open>--flag value\<close>.\<close>

fun argCIDRs :: "scanLib \<Rightarrow> cidrSet \<times> cidrSet \<Rightarrow> string list \<Rightarrow> cidrSet \<times> cidrSet" where
  "argCIDRs lib (pods, services) [] = (pods, services)"
| "argCIDRs lib (pods, services) (arg # rest) =
     (case str_cut (CHR ''='') arg of (name, value0, found) \<Rightarrow>
        let value1 = (if \<not> found \<and> rest \<noteq> [] \<and> \<not> has_prefix (hd rest) ''-'' then hd rest else value0) in
        if name = ''--cluster-cidr'' then argCIDRs lib (addCIDRs lib pods value1, services) rest
        else if name = ''--service-cluster-ip-range'' then argCIDRs lib (pods, addCIDRs lib services value1) rest
        else argCIDRs lib (pods, services) rest)"

definition collectComponentCIDRs :: "scanLib \<Rightarrow> pod list \<Rightarrow> cidrSet \<times> cidrSet" where
  "collectComponentCIDRs lib pods =
     foldl (\<lambda>acc pod. foldl (\<lambda>acc c. argCIDRs lib acc (ct_Command c @ ct_Args c)) acc (pd_Containers pod)) ([], []) pods"

definition collectNodePodCIDRs :: "scanLib \<Rightarrow> node list \<Rightarrow> cidrSet" where
  "collectNodePodCIDRs lib nodes =
     foldl (\<lambda>podCIDRs node.
        let podCIDRs = foldl (addPrefix lib) podCIDRs (nd_PodCIDRs node)
        in if nd_PodCIDR node \<noteq> [] then addPrefix lib podCIDRs (nd_PodCIDR node) else podCIDRs) [] nodes"

text \<open>Only a text with a \<^verbatim>\<open>ClusterConfiguration\<close> that is not blank is unmarshalled.\<close>

definition subnetsFromKubeadm :: "scanLib \<Rightarrow> kubeClient \<Rightarrow> string \<times> string \<times> goerr option" where
  "subnetsFromKubeadm lib client =
     (case kc_ConfigMap client ''kube-system'' ''kubeadm-config'' of
        Inl e \<Rightarrow> ([], [], Some e)
      | Inr data \<Rightarrow>
          (case kv_get data ''ClusterConfiguration'' of
             None \<Rightarrow> ([], [], Some (Errorf ''kubeadm-config missing ClusterConfiguration''))
           | Some raw \<Rightarrow>
               if trim_space raw = [] then ([], [], Some (Errorf ''kubeadm-config missing ClusterConfiguration''))
               else
                 (case unmarshalNetworking lib raw of
                    Inl e \<Rightarrow> ([], [], Some e)
                  | Inr (podSubnet, serviceSubnet) \<Rightarrow> (trim_space podSubnet, trim_space serviceSubnet, None))))"

section \<open>Probing the service range\<close>

definition serviceCIDRErrorMarkers :: "string list" where
  "serviceCIDRErrorMarkers =
     [''the range of valid ips is'', ''the range of valid ips'', ''valid ip range is'', ''valid ips is'']"

definition trimCutset :: string where
  "trimCutset = [CHR 0x20, CHR 0x09, CHR 0x0D, CHR 0x0A] @ '',;()[]{}'' @ [CHR 0x22, CHR 0x27]"

fun markerLoop :: "scanLib \<Rightarrow> string \<Rightarrow> string list \<Rightarrow> cidrSet" where
  "markerLoop lib message [] = []"
| "markerLoop lib message (marker # rest) =
     (case last_index (to_lower message) marker of
        None \<Rightarrow> markerLoop lib message rest
      | Some index \<Rightarrow>
          foldl (\<lambda>s token. addPrefix lib s (str_trim token trimCutset)) []
            (str_fields (drop (index + length marker) message)))"

definition serviceCIDRsFromError :: "scanLib \<Rightarrow> string \<Rightarrow> cidrSet" where
  "serviceCIDRsFromError lib message = markerLoop lib message serviceCIDRErrorMarkers"

definition probeServiceCIDRs :: "scanLib \<Rightarrow> kubeClient \<Rightarrow> string \<Rightarrow> cidrSet" where
  "probeServiceCIDRs lib client namespace =
     (let ns = (if namespace = [] then ''default'' else namespace) in
      foldl (\<lambda>result invalidIP.
         case kc_DryRunService client ns invalidIP of
           None \<Rightarrow> result
         | Some e \<Rightarrow> mergeCIDRs result [serviceCIDRsFromError lib (err_text e)]) [] [''0.0.0.0'', ''::''])"

definition discoverServiceCIDRs ::
    "scanLib \<Rightarrow> kubeClient \<Rightarrow> string \<Rightarrow> string \<Rightarrow> cidrSet \<Rightarrow> service list \<Rightarrow> string list option" where
  "discoverServiceCIDRs lib client probeNamespace kubeadmSubnet componentCIDRs services =
     (let cidrs = (case kc_ServiceCIDRs client of
                     Inl e \<Rightarrow> []
                   | Inr items \<Rightarrow> foldl (foldl (addCIDRs lib)) [] items);
          cidrs = addCIDRs lib cidrs kubeadmSubnet in
      case inferServiceCIDRs lib services of
        None \<Rightarrow> None
      | Some inferred \<Rightarrow>
          Some (compactCIDRs (parsePrefix lib)
            (mergeCIDRs cidrs [componentCIDRs, probeServiceCIDRs lib client probeNamespace, inferred])))"

section \<open>The scan\<close>

definition sortedKeys :: "cidrSet \<Rightarrow> string list" where
  "sortedKeys vs = sort vs"

fun listNamespaces :: "kubeClient \<Rightarrow> string list \<Rightarrow> pod list \<Rightarrow> service list \<Rightarrow> (pod list \<times> service list) res" where
  "listNamespaces client [] pods services = Inr (pods, services)"
| "listNamespaces client (namespace # rest) pods services =
     (case kc_Pods client namespace of
        Inl e \<Rightarrow> Inl (Wrapf (''list pods in '' @ namespace @ '': '') e)
      | Inr ps \<Rightarrow>
          (case kc_Services client namespace of
             Inl e \<Rightarrow> Inl (Wrapf (''list services in '' @ namespace @ '': '') e)
           | Inr ss \<Rightarrow> listNamespaces client rest (pods @ ps) (services @ ss)))"

definition dnsService :: "kubeClient \<Rightarrow> service list" where
  "dnsService client =
     (case kc_Service client ''kube-system'' ''kube-dns'' of
        Inr s \<Rightarrow> [s]
      | Inl _ \<Rightarrow>
          (case kc_Service client ''kube-system'' ''coredns'' of Inr s \<Rightarrow> [s] | Inl _ \<Rightarrow> []))"

text \<open>The pods and services of the scan: of the whole cluster, or of the given namespaces and the DNS service.\<close>

definition listWorkloads :: "kubeClient \<Rightarrow> string list \<Rightarrow> (pod list \<times> service list) res" where
  "listWorkloads client namespaces =
     (if namespaces = [] then
        (case kc_Pods client [] of
           Inl e \<Rightarrow> Inl (Wrapf ''list pods: '' e)
         | Inr ps \<Rightarrow>
             (case kc_Services client [] of
                Inl e \<Rightarrow> Inl (Wrapf ''list services: '' e)
              | Inr ss \<Rightarrow> Inr (ps, ss)))
      else bindE (listNamespaces client namespaces [] [])
             (\<lambda>(ps, ss). Inr (ps, ss @ dnsService client)))"

definition serviceIP :: "scanLib \<Rightarrow> service \<Rightarrow> cidrSet \<times> string \<Rightarrow> string \<Rightarrow> cidrSet \<times> string" where
  "serviceIP lib service acc raw =
     (case acc of (serviceIPs, dnsServer) \<Rightarrow>
        case parseAddr lib raw of
          None \<Rightarrow> (serviceIPs, dnsServer)
        | Some ip \<Rightarrow>
            (addKey serviceIPs (addr_string ip),
             if sv_Namespace service = ''kube-system'' \<and>
                (sv_Name service = ''kube-dns'' \<or> sv_Name service = ''coredns'')
             then addr_string ip else dnsServer))"

definition collectServiceIPs :: "scanLib \<Rightarrow> service list \<Rightarrow> cidrSet \<times> string" where
  "collectServiceIPs lib services =
     foldl (\<lambda>acc service. foldl (serviceIP lib service) acc (sv_ClusterIPs service)) ([], []) services"

definition Discover :: "scanLib \<Rightarrow> kubeClient option \<Rightarrow> string list \<Rightarrow> scanResult res option" where
  "Discover lib client0 namespaces =
     (case client0 of
        None \<Rightarrow> Some (Inl (Errorf ''kubernetes client is required''))
      | Some client \<Rightarrow>
          (let podCIDRs = (case kc_Nodes client of Inl e \<Rightarrow> [] | Inr nodes \<Rightarrow> collectNodePodCIDRs lib nodes) in
           case subnetsFromKubeadm lib client of (podSubnet, serviceSubnet, _) \<Rightarrow>
             (let podCIDRs = addCIDRs lib podCIDRs podSubnet;
                  components = (case kc_Pods client ''kube-system'' of
                                  Inl e \<Rightarrow> ([], []) | Inr ps \<Rightarrow> collectComponentCIDRs lib ps);
                  podCIDRs = mergeCIDRs podCIDRs [fst components];
                  probeNamespace = (if namespaces \<noteq> [] then hd namespaces else ''default'') in
              case listWorkloads client namespaces of
                Inl e \<Rightarrow> Some (Inl e)
              | Inr (pods, services) \<Rightarrow>
                  (case collectServiceIPs lib services of (serviceIPs, dnsServer) \<Rightarrow>
                   case inferPodCIDRs lib pods of
                     None \<Rightarrow> None
                   | Some inferred \<Rightarrow>
                       (let podCIDRs = mergeCIDRs podCIDRs [inferred];
                            deployments = (case kc_Deployments client of Inl e \<Rightarrow> 0 | Inr n \<Rightarrow> n) in
                        case discoverServiceCIDRs lib client probeNamespace serviceSubnet (snd components) services of
                          None \<Rightarrow> None
                        | Some serviceCIDRs \<Rightarrow>
                            Some (Inr \<lparr>sr_PodCIDRs = compactCIDRs (parsePrefix lib) podCIDRs,
                              sr_ServiceCIDRs = serviceCIDRs, sr_ServiceIPs = sortedKeys serviceIPs,
                              sr_DNSServer = dnsServer, sr_Pods = length pods, sr_Services = length services,
                              sr_Deployments = deployments\<rparr>))))))"

section \<open>What the scan routes\<close>

lemma set_addKeys: "set (foldl addKey s ks) = set s \<union> set ks"
  by (induction ks arbitrary: s) (auto simp: addKey_def)

lemma set_mergeCIDRs: "set (mergeCIDRs t ss) = set t \<union> \<Union> (set ` set ss)"
  unfolding mergeCIDRs_def by (induction ss arbitrary: t) (auto simp: set_addKeys)

lemma set_addAddresses:
  "set (foldl (addAddress lib) as raws) = set as \<union> {Unmap a | a raw. raw \<in> set raws \<and> parseAddr lib (trim_space raw) = Some a}"
  by (induction raws arbitrary: as) (auto simp: addAddress_def split: option.splits)

lemma addAddress_foldl: "foldl (addAddress lib) (addAddress lib as raw) raws = foldl (addAddress lib) as (raw # raws)"
  by simp

definition pod_raws :: "pod \<Rightarrow> string list" where
  "pod_raws pod = (if pd_HostNetwork pod then [] else pd_PodIP pod # pd_PodIPs pod)"

definition service_raws :: "service \<Rightarrow> string list" where
  "service_raws service = sv_ClusterIP service # sv_ClusterIPs service"

lemma foldl_concat: "foldl (\<lambda>acc x. foldl f acc (g x)) a xs = foldl f a (concat (map g xs))"
  by (induction xs arbitrary: a) simp_all

lemma podAddresses_eq: "podAddresses lib pods = foldl (addAddress lib) [] (concat (map pod_raws pods))"
  unfolding podAddresses_def addAddress_foldl foldl_concat [symmetric]
  by (rule foldl_cong) (simp_all add: pod_raws_def)

lemma serviceAddresses_eq: "serviceAddresses lib services = foldl (addAddress lib) [] (concat (map service_raws services))"
  unfolding serviceAddresses_def addAddress_foldl foldl_concat [symmetric] service_raws_def ..

text \<open>A list of CIDR texts routes an address when one of them parses to a range that holds it.\<close>

definition routed :: "(string \<Rightarrow> prefix option) \<Rightarrow> string list \<Rightarrow> addr \<Rightarrow> bool" where
  "routed parse cidrs a \<longleftrightarrow> list_ex (\<lambda>s. case parse s of None \<Rightarrow> False | Some p \<Rightarrow> Contains p a) cidrs"

lemma routesI: "s \<in> set cidrs \<Longrightarrow> parse s = Some p \<Longrightarrow> Contains p a \<Longrightarrow> routed parse cidrs a"
  by (auto simp: routed_def list_ex_iff intro!: bexI [of _ s])

text \<open>What is asked of \<^verbatim>\<open>netip.ParsePrefix\<close>: valid results, and reading back the canonical ranges of a family.\<close>

definition prefix_laws :: "bool \<Rightarrow> (string \<Rightarrow> prefix option) \<Rightarrow> bool" where
  "prefix_laws is4 parse \<longleftrightarrow> parse_ok parse \<and>
     (\<forall>p. canonical p \<and> Is4 (pfx_addr p) = is4 \<longrightarrow> parse (prefix_string p) = Some p)"

lemma Contains_Is4: "Contains p a \<Longrightarrow> Is4 (pfx_addr p) = Is4 a"
  by (simp add: Contains_def)

text \<open>Compaction loses no address.\<close>

lemma routes_compact:
  assumes "prefix_laws is4 parse" "routed parse vs a" "Is4 a = is4"
  shows "routed parse (compactCIDRs parse vs) a"
proof -
  have ok: "parse_ok parse" using assms(1) by (simp add: prefix_laws_def)
  from assms(2) obtain raw p where "raw \<in> set vs" "parse raw = Some p" "Contains p a"
    by (auto simp: routed_def list_ex_iff split: option.splits)
  then have "Masked p \<in> set (parsedPrefixes parse vs)" "Contains (Masked p) a" by (auto simp: set_parsedPrefixes)
  moreover note compactPrefixes_inv [OF ok, of vs]
  ultimately obtain r where r: "r \<in> set (compactPrefixes parse vs)" "covers r (Masked p)" "r \<in> set (parsedPrefixes parse vs)"
    unfolding kept_inv_def set_sort by blast
  then have "canonical r" "Contains r a"
    using compactPrefixes_inv(2) [OF ok, of vs] \<open>Contains (Masked p) a\<close> by (auto simp: covers_def)
  with assms(1,3) have "parse (prefix_string r) = Some r" by (simp add: prefix_laws_def Contains_Is4)
  with r(1) \<open>Contains r a\<close> show ?thesis
    unfolding compactCIDRs_def by (intro routesI [of "prefix_string r" _ parse r a]) simp_all
qed

lemma routes_mono: "routed parse vs a \<Longrightarrow> set vs \<subseteq> set ws \<Longrightarrow> routed parse ws a"
  by (auto simp: routed_def list_ex_iff)

lemma routes_inferred:
  assumes "prefix_laws is4 parse" "a \<in> set addresses" "Is4 a = is4" "inferCIDRs addresses = Some cidrs"
  shows "routed parse cidrs a"
proof -
  from inferPrefixes_spec [of addresses] obtain ps where ps: "inferCIDRs addresses = Some (foldl addKey [] (map prefix_string ps))"
    "\<forall>a \<in> set addresses. \<exists>p \<in> set ps. Contains p a"
    "\<forall>p \<in> set ps. Masked p = p \<and> (if Is4 (pfx_addr p) then 12 \<le> pfx_bits p \<and> pfx_bits p \<le> 24 else 48 \<le> pfx_bits p \<and> pfx_bits p \<le> 64)"
    by blast
  with assms(2) obtain p where p: "p \<in> set ps" "Contains p a" by blast
  with ps(3) have "canonical p" by (auto simp: canonical_def prefix_ok_def BitLen_Is4 split: if_splits)
  with p assms(1,3) have "parse (prefix_string p) = Some p" by (simp add: prefix_laws_def Contains_Is4)
  moreover have "prefix_string p \<in> set cidrs" using p(1) ps(1) assms(4) by (auto simp: set_addKeys)
  ultimately show ?thesis using p(2) by (auto intro: routesI)
qed

lemma inferCIDRs_total: "\<exists>c. inferCIDRs addresses = Some c"
  using inferPrefixes_spec [of addresses] by blast

text \<open>The declared ranges: a text that parses leaves a range in the set that holds the same addresses.\<close>

lemma set_addPrefixes:
  "set (foldl (addPrefix lib) s raws) = set s \<union> {prefix_string (Masked p) | p raw. raw \<in> set raws \<and> parsePrefix lib raw = Some p}"
  by (induction raws arbitrary: s) (auto simp: addPrefix_def addKey_def split: option.splits)

definition node_raws :: "node \<Rightarrow> string list" where
  "node_raws node = nd_PodCIDRs node @ (if nd_PodCIDR node \<noteq> [] then [nd_PodCIDR node] else [])"

lemma collectNodePodCIDRs_eq: "collectNodePodCIDRs lib nodes = foldl (addPrefix lib) [] (concat (map node_raws nodes))"
  unfolding collectNodePodCIDRs_def foldl_concat [symmetric] by (rule foldl_cong) (simp_all add: node_raws_def Let_def)

lemma addCIDRs_eq: "addCIDRs lib s vs = foldl (addPrefix lib) s (map trim_space (split_on (CHR '','') vs))"
  by (simp add: addCIDRs_def foldl_map)

lemma routes_declared:
  assumes "prefix_laws is4 (parsePrefix lib)" "raw \<in> set raws" "parsePrefix lib raw = Some p" "Contains p a" "Is4 a = is4"
    and "prefix_string (Masked p) \<in> set cidrs"
  shows "routed (parsePrefix lib) cidrs a"
proof -
  have "canonical (Masked p)"
    using assms(1,3) by (auto simp: prefix_laws_def parse_ok_def canonical_def prefix_ok_def)
  moreover have "Is4 (pfx_addr (Masked p)) = is4" using assms(4,5) Contains_Is4 [of "Masked p" a] by simp
  ultimately have "parsePrefix lib (prefix_string (Masked p)) = Some (Masked p)"
    using assms(1) by (simp add: prefix_laws_def)
  with assms(4,6) show ?thesis by (auto intro: routesI)
qed

lemma discoverServiceCIDRs_total:
  "\<exists>cidrs inferred. inferServiceCIDRs lib services = Some inferred \<and>
     discoverServiceCIDRs lib client ns sub cc services = Some (compactCIDRs (parsePrefix lib) cidrs) \<and> set inferred \<subseteq> set cidrs"
  using inferCIDRs_total [of "serviceAddresses lib services"]
  by (fastforce simp: discoverServiceCIDRs_def inferServiceCIDRs_def set_mergeCIDRs)

lemma Discover_parts:
  assumes "listWorkloads client namespaces = Inr (pods, services)"
  shows "\<exists>r podCIDRs inferred. Discover lib (Some client) namespaces = Some (Inr r) \<and>
    inferPodCIDRs lib pods = Some inferred \<and> sr_PodCIDRs r = compactCIDRs (parsePrefix lib) podCIDRs \<and>
    set inferred \<subseteq> set podCIDRs \<and>
    (\<forall>nodes. kc_Nodes client = Inr nodes \<longrightarrow> set (collectNodePodCIDRs lib nodes) \<subseteq> set podCIDRs) \<and>
    (\<exists>ns sub cc. discoverServiceCIDRs lib client ns sub cc services = Some (sr_ServiceCIDRs r)) \<and>
    sr_Pods r = length pods \<and> sr_Services r = length services"
proof -
  obtain podSubnet serviceSubnet e where k: "subnetsFromKubeadm lib client = (podSubnet, serviceSubnet, e)"
    by (metis prod_cases3)
  define comps where "comps = (case kc_Pods client ''kube-system'' of Inl e \<Rightarrow> ([], []) | Inr ps \<Rightarrow> collectComponentCIDRs lib ps)"
  obtain ips dns where ips: "collectServiceIPs lib services = (ips, dns)" by (cases "collectServiceIPs lib services")
  from inferCIDRs_total obtain inferred where inf: "inferPodCIDRs lib pods = Some inferred" unfolding inferPodCIDRs_def by blast
  let ?ns = "if namespaces \<noteq> [] then hd namespaces else ''default''"
  from discoverServiceCIDRs_total [of lib services client ?ns serviceSubnet "snd comps"] obtain sc
    where sc: "discoverServiceCIDRs lib client ?ns serviceSubnet (snd comps) services = Some sc" by blast
  define own where "own = (case kc_Nodes client of Inl e \<Rightarrow> [] | Inr nodes \<Rightarrow> collectNodePodCIDRs lib nodes)"
  define all where "all = mergeCIDRs (mergeCIDRs (addCIDRs lib own podSubnet) [fst comps]) [inferred]"
  let ?r = "\<lparr>sr_PodCIDRs = compactCIDRs (parsePrefix lib) all, sr_ServiceCIDRs = sc, sr_ServiceIPs = sortedKeys ips,
     sr_DNSServer = dns, sr_Pods = length pods, sr_Services = length services,
     sr_Deployments = (case kc_Deployments client of Inl e \<Rightarrow> 0 | Inr n \<Rightarrow> n)\<rparr>"
  have "Discover lib (Some client) namespaces = Some (Inr ?r)"
    using sc unfolding Discover_def option.case k prod.case Let_def assms sum.case comps_def [symmetric] own_def [symmetric]
      ips inf all_def by simp
  moreover have "set own \<subseteq> set all" "set inferred \<subseteq> set all"
    by (auto simp: all_def set_mergeCIDRs addCIDRs_eq set_addPrefixes)
  moreover have "\<forall>nodes. kc_Nodes client = Inr nodes \<longrightarrow> own = collectNodePodCIDRs lib nodes" by (simp add: own_def)
  moreover have "\<exists>ns sub cc. discoverServiceCIDRs lib client ns sub cc services = Some (sr_ServiceCIDRs ?r)"
    using sc by auto
  ultimately show ?thesis using inf by - (rule exI [of _ ?r], rule exI [of _ all], rule exI [of _ inferred], auto)
qed

text \<open>
  A scan of a cluster. It fails exactly when the pods or the services cannot be listed, with that
  error: the reads of nodes, kubeadm, components, service ranges and deployments are best effort.
  Otherwise it ends with a result that counts what was listed and whose ranges hold every address of
  the scanned pods that are not on the host network, every address of the node ranges, and every
  cluster address of the scanned services.
\<close>

theorem scan_routes_the_cluster:
  assumes "prefix_laws is4 (parsePrefix lib)"
  shows "case listWorkloads client namespaces of
      Inl e \<Rightarrow> Discover lib (Some client) namespaces = Some (Inl e)
    | Inr (pods, services) \<Rightarrow>
        (\<exists>r. Discover lib (Some client) namespaces = Some (Inr r) \<and>
          sr_Pods r = length pods \<and> sr_Services r = length services \<and>
          (\<forall>pod raw a. pod \<in> set pods \<and> raw \<in> set (pod_raws pod) \<and> parseAddr lib (trim_space raw) = Some a \<and>
             Is4 (Unmap a) = is4 \<longrightarrow> routed (parsePrefix lib) (sr_PodCIDRs r) (Unmap a)) \<and>
          (\<forall>nodes node raw p a. kc_Nodes client = Inr nodes \<and> node \<in> set nodes \<and> raw \<in> set (node_raws node) \<and>
             parsePrefix lib raw = Some p \<and> Contains p a \<and> Is4 a = is4 \<longrightarrow>
             routed (parsePrefix lib) (sr_PodCIDRs r) a) \<and>
          (\<forall>service raw a. service \<in> set services \<and> raw \<in> set (service_raws service) \<and>
             parseAddr lib (trim_space raw) = Some a \<and> Is4 (Unmap a) = is4 \<longrightarrow>
             routed (parsePrefix lib) (sr_ServiceCIDRs r) (Unmap a)))"
proof (cases "listWorkloads client namespaces")
  case (Inl e)
  then show ?thesis by (simp add: Discover_def Let_def split: prod.split)
next
  case (Inr w)
  obtain pods services where w: "w = (pods, services)" by (cases w)
  let ?parse = "parsePrefix lib"
  from Inr w Discover_parts [of client namespaces pods services lib] obtain r cidrs inf ns sub cc where
    r: "Discover lib (Some client) namespaces = Some (Inr r)" "inferPodCIDRs lib pods = Some inf"
      "sr_PodCIDRs r = compactCIDRs ?parse cidrs" "set inf \<subseteq> set cidrs"
      "\<forall>nodes. kc_Nodes client = Inr nodes \<longrightarrow> set (collectNodePodCIDRs lib nodes) \<subseteq> set cidrs"
      "discoverServiceCIDRs lib client ns sub cc services = Some (sr_ServiceCIDRs r)"
      "sr_Pods r = length pods" "sr_Services r = length services" by blast
  from discoverServiceCIDRs_total [of lib services client ns sub cc] r(6) obtain scidrs sinf where
    s: "inferServiceCIDRs lib services = Some sinf" "sr_ServiceCIDRs r = compactCIDRs ?parse scidrs" "set sinf \<subseteq> set scidrs"
    by auto
  have pods: "routed ?parse (sr_PodCIDRs r) (Unmap a)"
    if "pod \<in> set pods" "raw \<in> set (pod_raws pod)" "parseAddr lib (trim_space raw) = Some a" "Is4 (Unmap a) = is4" for pod raw a
  proof -
    have "Unmap a \<in> set (podAddresses lib pods)" using that by (auto simp: podAddresses_eq set_addAddresses)
    from routes_inferred [OF assms this that(4)] r(2) have "routed ?parse inf (Unmap a)" by (simp add: inferPodCIDRs_def)
    with routes_compact [OF assms routes_mono that(4)] r(3,4) show ?thesis by simp
  qed
  have nodes: "routed ?parse (sr_PodCIDRs r) a"
    if "kc_Nodes client = Inr nodes" "node \<in> set nodes" "raw \<in> set (node_raws node)" "?parse raw = Some p" "Contains p a" "Is4 a = is4"
    for nodes node raw p a
  proof -
    have "prefix_string (Masked p) \<in> set cidrs"
      using that r(5) by (force simp: collectNodePodCIDRs_eq set_addPrefixes)
    from routes_declared [OF assms that(3,4,5,6) this] routes_compact [OF assms _ that(6)] r(3) show ?thesis by simp
  qed
  have svc: "routed ?parse (sr_ServiceCIDRs r) (Unmap a)"
    if "sv \<in> set services" "raw \<in> set (service_raws sv)" "parseAddr lib (trim_space raw) = Some a" "Is4 (Unmap a) = is4" for sv raw a
  proof -
    have "Unmap a \<in> set (serviceAddresses lib services)" using that by (auto simp: serviceAddresses_eq set_addAddresses)
    from routes_inferred [OF assms this that(4)] s(1) have "routed ?parse sinf (Unmap a)" by (simp add: inferServiceCIDRs_def)
    with routes_compact [OF assms routes_mono that(4)] s(2,3) show ?thesis by simp
  qed
  show ?thesis unfolding Inr w sum.case prod.case using r(1,7,8) pods nodes svc by blast
qed

definition ex_lib :: scanLib where
  "ex_lib = \<lparr>parseAddr = parse_addr4, parsePrefix = parse_prefix4, unmarshalNetworking = (\<lambda>_. Inl EOF)\<rparr>"

definition ex_kube :: kubeClient where
  "ex_kube = \<lparr>kc_Nodes = Inl (Errorf ''forbidden''), kc_ConfigMap = (\<lambda>_ _. Inl (Errorf ''forbidden'')),
     kc_Pods = (\<lambda>ns. if ns = ''default''
        then Inr [\<lparr>pd_Containers = [], pd_HostNetwork = False, pd_PodIP = ''10.244.0.5'', pd_PodIPs = []\<rparr>]
        else Inl (Errorf ''forbidden'')),
     kc_Services = (\<lambda>ns. if ns = ''default''
        then Inr [\<lparr>sv_Namespace = ''default'', sv_Name = ''web'', sv_ClusterIP = ''10.96.1.10'', sv_ClusterIPs = []\<rparr>]
        else Inl (Errorf ''forbidden'')),
     kc_Service = (\<lambda>_ _. Inl (Errorf ''forbidden'')), kc_Deployments = Inl (Errorf ''forbidden''),
     kc_ServiceCIDRs = Inl (Errorf ''forbidden''), kc_DryRunService = (\<lambda>_ _. None)\<rparr>"

lemma ex_lib_laws: "prefix_laws True (parsePrefix ex_lib)"
  by (auto simp: prefix_laws_def parse_ok_def ex_lib_def canonical_def intro: parse_prefix4_ok parse_prefix4_string)

lemma ex_addresses:
  "parse_addr4 (trim_space ''10.244.0.5'') = Some (V4 0x0AF40005)" "parse_addr4 (trim_space ''10.96.1.10'') = Some (V4 0x0A60010A)"
proof -
  have "addr_string (V4 0x0AF40005) = ''10.244.0.5''" "addr_string (V4 0x0A60010A) = ''10.96.1.10''"
    by (simp_all add: v4_string_def octet_def itoa.simps char_of_digit)
  moreover have "trim_space ''10.244.0.5'' = ''10.244.0.5''" "trim_space ''10.96.1.10'' = ''10.96.1.10''" by code_simp+
  ultimately show "parse_addr4 (trim_space ''10.244.0.5'') = Some (V4 0x0AF40005)" "parse_addr4 (trim_space ''10.96.1.10'') = Some (V4 0x0A60010A)"
    using parse_addr4_string [of "0x0AF40005"] parse_addr4_string [of "0x0A60010A"] by simp_all
qed

theorem scan_routes_the_cluster_witness:
  "prefix_laws True (parsePrefix ex_lib) \<and>
   (\<exists>r. Discover ex_lib (Some ex_kube) [''default''] = Some (Inr r) \<and> sr_Pods r = 1 \<and>
      routed parse_prefix4 (sr_PodCIDRs r) (V4 0x0AF40005) \<and> routed parse_prefix4 (sr_ServiceCIDRs r) (V4 0x0A60010A)) \<and>
   Discover ex_lib (Some ex_kube) [] = Some (Inl (Wrapf ''list pods: '' (Errorf ''forbidden'')))"
proof -
  let ?pod = "\<lparr>pd_Containers = [], pd_HostNetwork = False, pd_PodIP = ''10.244.0.5'', pd_PodIPs = []\<rparr>"
  let ?sv = "\<lparr>sv_Namespace = ''default'', sv_Name = ''web'', sv_ClusterIP = ''10.96.1.10'', sv_ClusterIPs = []\<rparr>"
  have w: "listWorkloads ex_kube [''default''] = Inr ([?pod], [?sv])" "listWorkloads ex_kube [] = Inl (Wrapf ''list pods: '' (Errorf ''forbidden''))"
    by (simp_all add: listWorkloads_def ex_kube_def dnsService_def)
  have lib: "parseAddr ex_lib = parse_addr4" "parsePrefix ex_lib = parse_prefix4" by (simp_all add: ex_lib_def)
  note t = scan_routes_the_cluster [OF ex_lib_laws, unfolded lib]
  from t [of ex_kube "[''default'']"] obtain r where r: "Discover ex_lib (Some ex_kube) [''default''] = Some (Inr r)" "sr_Pods r = 1"
    "\<forall>pod raw a. pod \<in> set [?pod] \<and> raw \<in> set (pod_raws pod) \<and> parse_addr4 (trim_space raw) = Some a \<and>
       Is4 (Unmap a) = True \<longrightarrow> routed parse_prefix4 (sr_PodCIDRs r) (Unmap a)"
    "\<forall>service raw a. service \<in> set [?sv] \<and> raw \<in> set (service_raws service) \<and>
       parse_addr4 (trim_space raw) = Some a \<and> Is4 (Unmap a) = True \<longrightarrow> routed parse_prefix4 (sr_ServiceCIDRs r) (Unmap a)"
    unfolding w sum.case prod.case by (elim exE conjE) (simp only: list.size One_nat_def add_0_right)
  have "routed parse_prefix4 (sr_PodCIDRs r) (V4 0x0AF40005)"
    using r(3) [rule_format, of ?pod "''10.244.0.5''" "V4 0x0AF40005"] ex_addresses(1) by (simp add: pod_raws_def)
  moreover have "routed parse_prefix4 (sr_ServiceCIDRs r) (V4 0x0A60010A)"
    using r(4) [rule_format, of ?sv "''10.96.1.10''" "V4 0x0A60010A"] ex_addresses(2) by (simp add: service_raws_def)
  moreover have "Discover ex_lib (Some ex_kube) [] = Some (Inl (Wrapf ''list pods: '' (Errorf ''forbidden'')))"
    using t [of ex_kube "[]"] unfolding w by simp
  ultimately show ?thesis using r(1,2) ex_lib_laws lib by auto
qed

end
