(* ===== verification/Singbox.thy ===== *)
theory Singbox
  imports NetworkScan
begin

text \<open>
  The data plane's configuration: \<^verbatim>\<open>internal/dnsname\<close> and \<^verbatim>\<open>internal/singbox\<close> (\<^verbatim>\<open>domains.go\<close>,
  \<^verbatim>\<open>routes.go\<close>, \<^verbatim>\<open>config.go\<close>, \<^verbatim>\<open>session_spec.go\<close>, \<^verbatim>\<open>runtime_contract.go\<close>). The parsers of \<^verbatim>\<open>net/netip\<close>
  and \<^verbatim>\<open>net\<close> and the name checks of \<^verbatim>\<open>k8s.io/apimachinery\<close> are arguments. A configuration is the
  value that the code hands to \<^verbatim>\<open>json.MarshalIndent\<close>: each JSON object is a record whose absent keys
  are empty lists or \<^term>\<open>None\<close>.
\<close>

record netLib =
  ParseAddr :: "string \<Rightarrow> addr res"
  ParsePrefix :: "string \<Rightarrow> prefix res"
  ParseIP :: "string \<Rightarrow> addr option"
  IsDNS1123Label :: "string \<Rightarrow> bool"
  IsDNS1123Subdomain :: "string \<Rightarrow> bool"

section \<open>Cluster domains\<close>

definition DefaultClusterDomain :: string where
  "DefaultClusterDomain = ''cluster.local''"

definition normDomain :: "string \<Rightarrow> string" where
  "normDomain raw = trim_suffix (to_lower (trim_space raw)) ''.''"

definition ValidClusterDomain :: "netLib \<Rightarrow> string \<Rightarrow> bool" where
  "ValidClusterDomain lib v =
     (if \<not> IsDNS1123Subdomain lib v then False
      else list_all (IsDNS1123Label lib) (split_on (CHR ''.'') v))"

definition addDomain :: "netLib \<Rightarrow> string list \<Rightarrow> string \<Rightarrow> string list res" where
  "addDomain lib out raw =
     (let domain = normDomain raw in
      if domain = [] then Inr out
      else if \<not> ValidClusterDomain lib domain then Inl (Errorf (''invalid cluster domain '' @ quote raw))
      else if domain \<in> set out then Inr out
      else Inr (out @ [domain]))"

fun addDomains :: "netLib \<Rightarrow> string list \<Rightarrow> string list \<Rightarrow> string list res" where
  "addDomains lib out [] = Inr out"
| "addDomains lib out (raw # raws) = bindE (addDomain lib out raw) (\<lambda>out. addDomains lib out raws)"

definition NormalizeClusterDomains :: "netLib \<Rightarrow> string list \<Rightarrow> string list res" where
  "NormalizeClusterDomains lib domains =
     bindE (addDomains lib [] domains) (\<lambda>out.
     bindE (addDomain lib out DefaultClusterDomain) (\<lambda>out.
       if length out > 1 \<and> hd out \<noteq> DefaultClusterDomain
       then Inr (DefaultClusterDomain # filter (\<lambda>d. d \<noteq> DefaultClusterDomain) out)
       else Inr out))"

section \<open>Resolver and search domains, host aliases\<close>

record HostAlias =
  al_Domain :: string
  al_IP :: string

definition addName :: "string list \<Rightarrow> string \<Rightarrow> string list" where
  "addName out domain =
     (let domain = normDomain domain in
      if domain = [] then out else if domain \<in> set out then out else out @ [domain])"

definition domainsOrDefault :: "netLib \<Rightarrow> string list \<Rightarrow> string list" where
  "domainsOrDefault lib clusterDomains =
     (case NormalizeClusterDomains lib clusterDomains of
        Inl e \<Rightarrow> [DefaultClusterDomain]
      | Inr domains \<Rightarrow> if domains = [] then [DefaultClusterDomain] else domains)"

definition ResolverDomains :: "netLib \<Rightarrow> string \<Rightarrow> string list \<Rightarrow> HostAlias list \<Rightarrow> string list \<Rightarrow> string list" where
  "ResolverDomains lib namespace clusterDomains hosts extra =
     (let domains = domainsOrDefault lib clusterDomains;
          out = foldl (\<lambda>out domain.
            let out = addName (addName out domain) (''svc.'' @ domain)
            in if namespace \<noteq> [] then addName out (namespace @ ''.svc.'' @ domain) else out) [] domains;
          out = addName out ''svc'';
          out = foldl (\<lambda>out item. addName out (al_Domain item)) out hosts
      in foldl addName out extra)"

definition SearchDomainsForNamespaces :: "netLib \<Rightarrow> string list \<Rightarrow> string list \<Rightarrow> string list" where
  "SearchDomainsForNamespaces lib namespaces clusterDomains =
     (let namespaces = (if namespaces = [] then [''default''] else namespaces);
          domains = domainsOrDefault lib clusterDomains
      in foldl (\<lambda>out domain.
           let out = foldl (\<lambda>out namespace.
                 let namespace = normDomain namespace
                 in if namespace \<noteq> [] then addName out (namespace @ ''.svc.'' @ domain) else out) out namespaces
           in addName (addName out (''svc.'' @ domain)) domain) [] domains)"

definition SearchDomains :: "netLib \<Rightarrow> string \<Rightarrow> string list \<Rightarrow> string list" where
  "SearchDomains lib namespace clusterDomains =
     SearchDomainsForNamespaces lib [if namespace = [] then ''default'' else namespace] clusterDomains"

definition contains_any :: "string \<Rightarrow> string \<Rightarrow> bool" where
  "contains_any s chars \<longleftrightarrow> list_ex (\<lambda>c. c \<in> set chars) s"

fun aliasLoop :: "netLib \<Rightarrow> HostAlias list \<Rightarrow> HostAlias list \<Rightarrow> HostAlias list res" where
  "aliasLoop lib out [] = Inr out"
| "aliasLoop lib out (item # items) =
     (let domain = normDomain (al_Domain item);
          badIP = Inl (Errorf (''invalid host alias IPv4 '' @ quote (al_IP item))) in
      if domain = [] then Inl (Errorf ''host alias domain is required'')
      else if contains_any domain [CHR 0x20, CHR 0x09, CHR 0x2F]
      then Inl (Errorf (''invalid host alias domain '' @ quote (al_Domain item)))
      else if \<not> ValidClusterDomain lib domain
      then Inl (Errorf (''invalid host alias domain '' @ quote (al_Domain item)))
      else case ParseAddr lib (trim_space (al_IP item)) of
             Inl e \<Rightarrow> badIP
           | Inr ip \<Rightarrow>
               if \<not> Is4 ip then badIP
               else if domain \<in> al_Domain ` set out then Inl (Errorf (''duplicate host alias domain '' @ quote domain))
               else aliasLoop lib (out @ [\<lparr>al_Domain = domain, al_IP = addr_string ip\<rparr>]) items)"

definition NormalizeHostAliases :: "netLib \<Rightarrow> HostAlias list \<Rightarrow> HostAlias list res" where
  "NormalizeHostAliases lib items =
     (if items = [] then Inr [] else bindE (aliasLoop lib [] items) (\<lambda>out. Inr (sort_key al_Domain out)))"

section \<open>Routes and ports\<close>

record NetworkSpec =
  ns_PodCIDRs :: "string list"
  ns_ServiceCIDRs :: "string list"
  ns_ServiceIPs :: "string list"
  ns_DNSServer :: string
  ns_ClusterDomains :: "string list"
  ns_Namespaces :: "string list"

fun routePrefixes :: "netLib \<Rightarrow> string \<Rightarrow> cidrSet \<Rightarrow> string list \<Rightarrow> cidrSet res" where
  "routePrefixes lib label routeSet [] = Inr routeSet"
| "routePrefixes lib label routeSet (raw # raws) =
     (case ParsePrefix lib raw of
        Inl e \<Rightarrow> Inl (Wrapf (''invalid '' @ label @ '' CIDR '' @ quote raw @ '': '') e)
      | Inr p \<Rightarrow> routePrefixes lib label (addKey routeSet (prefix_string (Masked p))) raws)"

fun routeAddresses :: "netLib \<Rightarrow> cidrSet \<Rightarrow> string list \<Rightarrow> cidrSet res" where
  "routeAddresses lib routeSet [] = Inr routeSet"
| "routeAddresses lib routeSet (raw # raws) =
     (case ParseAddr lib raw of
        Inl e \<Rightarrow> Inl (Wrapf (''invalid service IP '' @ quote raw @ '': '') e)
      | Inr ip \<Rightarrow> routeAddresses lib (addKey routeSet (prefix_string (PrefixFrom ip (BitLen ip)))) raws)"

definition clusterRoutes :: "netLib \<Rightarrow> NetworkSpec \<Rightarrow> string list res" where
  "clusterRoutes lib network =
     bindE (routePrefixes lib ''pod'' [] (ns_PodCIDRs network)) (\<lambda>routeSet.
     bindE (routePrefixes lib ''service'' routeSet (ns_ServiceCIDRs network)) (\<lambda>routeSet.
     bindE (if length (ns_ServiceCIDRs network) = 0 then routeAddresses lib routeSet (ns_ServiceIPs network) else Inr routeSet)
       (\<lambda>routeSet.
     if length routeSet = 0 then Inl (Errorf ''cluster discovery returned no routable addresses'')
     else Inr (sort routeSet))))"

definition validatePort :: "int \<Rightarrow> string \<Rightarrow> goerr option" where
  "validatePort port label =
     (if port < 1 \<or> port > 65535 then Some (Errorf (label @ '' port must be between 1 and 65535'')) else None)"

section \<open>The configuration\<close>

definition KubernetesOutbound :: string where "KubernetesOutbound = ''kubernetes''"
definition LocalOutbound :: string where "LocalOutbound = ''local''"
definition DirectOutbound :: string where "DirectOutbound = ''direct''"
definition DefaultDNSListen :: string where "DefaultDNSListen = ''127.0.0.1''"
definition DefaultDNSPort :: int where "DefaultDNSPort = 1053"
definition defaultTUNAddress :: string where "defaultTUNAddress = ''198.19.0.1/30''"
definition TrafficInbound :: string where "TrafficInbound = ''traffic-in''"
definition TrafficUserPortForward :: string where "TrafficUserPortForward = ''port-forward''"
definition TrafficUserExchange :: string where "TrafficUserExchange = ''exchange''"
definition TrafficUserPreview :: string where "TrafficUserPreview = ''preview''"
definition TrafficUserMirrorShadow :: string where "TrafficUserMirrorShadow = ''mirror-shadow''"

definition TrafficFeatureUsers :: "string list" where
  "TrafficFeatureUsers = [TrafficUserPortForward, TrafficUserExchange, TrafficUserPreview, TrafficUserMirrorShadow]"

definition clusterTrafficUsers :: "string list" where
  "clusterTrafficUsers = [TrafficUserPortForward]"

definition localTrafficUsers :: "string list" where
  "localTrafficUsers = [TrafficUserExchange, TrafficUserPreview, TrafficUserMirrorShadow]"

lemmas tag_defs = KubernetesOutbound_def LocalOutbound_def DirectOutbound_def TrafficInbound_def
  TrafficUserPortForward_def TrafficUserExchange_def TrafficUserPreview_def TrafficUserMirrorShadow_def
  TrafficFeatureUsers_def clusterTrafficUsers_def localTrafficUsers_def

record Options =
  op_BridgeHost :: string
  op_BridgePort :: int
  op_ControllerHost :: string
  op_ControllerPort :: int
  op_ControllerSecret :: string
  op_DNSHost :: string
  op_DNSPort :: int
  op_TUNAddress :: string
  op_Namespace :: string
  op_ClusterDomains :: "string list"
  op_Hosts :: "HostAlias list"
  op_TrafficListen :: int
  op_TrafficPassword :: string

datatype dnsServer =
    HostsServer "(string \<times> string) list"
  | UDPServer string string
  | LocalServer

datatype dnsRule = DomainRule "string list" string | SuffixRule "string list" string

datatype ruleAction = Reject | Sniff | HijackDNS | Outbound string

record routeRule =
  rr_inbound :: "string list"
  rr_auth_user :: "string list"
  rr_ip_cidr :: "string list"
  rr_domain :: "string list"
  rr_domain_suffix :: "string list"
  rr_ip_is_private :: bool
  rr_protocol :: string
  rr_action :: ruleAction

definition anyRule :: "ruleAction \<Rightarrow> routeRule" where
  "anyRule a = \<lparr>rr_inbound = [], rr_auth_user = [], rr_ip_cidr = [], rr_domain = [], rr_domain_suffix = [],
     rr_ip_is_private = False, rr_protocol = [], rr_action = a\<rparr>"

record tunInbound =
  tn_address :: "string list"
  tn_mtu :: nat
  tn_strict_route :: bool
  tn_auto_redirect :: bool
  tn_route_address :: "string list"

record trafficInbound =
  ti_listen_port :: int
  ti_users :: "(string \<times> string) list"

record config =
  cf_dnsServers :: "dnsServer list"
  cf_dnsRules :: "dnsRule list"
  cf_tun :: tunInbound
  cf_dnsIn :: "string \<times> int"
  cf_traffic :: "trafficInbound option"
  cf_bridge :: "string \<times> int"
  cf_rules :: "routeRule list"
  cf_final :: string
  cf_controller :: "string \<times> string"

definition localRules :: "string list \<Rightarrow> routeRule list" where
  "localRules routes =
     (let r = (\<lambda>a. (anyRule a)\<lparr>rr_inbound := [TrafficInbound], rr_auth_user := localTrafficUsers\<rparr>) in
      map (\<lambda>route. (r Reject)\<lparr>rr_ip_cidr := [route]\<rparr>) routes @
      [(r (Outbound LocalOutbound))\<lparr>rr_ip_cidr := [''127.0.0.0/8'', ''::1/128'']\<rparr>,
       (r (Outbound LocalOutbound))\<lparr>rr_domain := [''localhost'']\<rparr>,
       (r (Outbound LocalOutbound))\<lparr>rr_ip_is_private := True\<rparr>,
       r Reject])"

definition routeRules :: "string list \<Rightarrow> string list \<Rightarrow> routeRule list" where
  "routeRules routes clusterDomains =
     [(anyRule HijackDNS)\<lparr>rr_inbound := [''dns-in'']\<rparr>,
      (anyRule (Outbound KubernetesOutbound))\<lparr>rr_inbound := [TrafficInbound], rr_auth_user := clusterTrafficUsers\<rparr>] @
     localRules routes @
     [(anyRule Reject)\<lparr>rr_inbound := [TrafficInbound]\<rparr>,
      anyRule Sniff,
      (anyRule HijackDNS)\<lparr>rr_protocol := ''dns''\<rparr>,
      (anyRule (Outbound KubernetesOutbound))\<lparr>rr_domain_suffix := clusterDomains\<rparr>] @
     map (\<lambda>route. (anyRule (Outbound KubernetesOutbound))\<lparr>rr_ip_cidr := [route]\<rparr>) routes"

text \<open>A check of the form \<^verbatim>\<open>if err := ...; err != nil { return err }\<close>, and the rest.\<close>

definition checkE :: "goerr option \<Rightarrow> 'a res \<Rightarrow> 'a res" where
  "checkE e r = (case e of Some e \<Rightarrow> Inl e | None \<Rightarrow> r)"

definition fillOptions :: "Options \<Rightarrow> Options" where
  "fillOptions options =
     options\<lparr>op_BridgeHost := (if op_BridgeHost options = [] then ''127.0.0.1'' else op_BridgeHost options),
       op_ControllerHost := (if op_ControllerHost options = [] then ''127.0.0.1'' else op_ControllerHost options),
       op_DNSHost := (if op_DNSHost options = [] then DefaultDNSListen else op_DNSHost options),
       op_DNSPort := (if op_DNSPort options = 0 then DefaultDNSPort else op_DNSPort options),
       op_TUNAddress := (if op_TUNAddress options = [] then defaultTUNAddress else op_TUNAddress options)\<rparr>"

definition configDomains :: "netLib \<Rightarrow> NetworkSpec \<Rightarrow> Options \<Rightarrow> string list res" where
  "configDomains lib network options =
     bindE (NormalizeClusterDomains lib (op_ClusterDomains options)) (\<lambda>clusterDomains.
       if length (ns_ClusterDomains network) > 0
       then NormalizeClusterDomains lib (clusterDomains @ ns_ClusterDomains network)
       else Inr clusterDomains)"

definition configDNS :: "netLib \<Rightarrow> NetworkSpec \<Rightarrow> HostAlias list \<Rightarrow> string list \<Rightarrow> (dnsServer list \<times> dnsRule list) res" where
  "configDNS lib network hosts clusterDomains =
     (let (servers, rules) =
        (if hosts = [] then ([], [])
         else ([HostsServer (map (\<lambda>h. (al_Domain h, al_IP h)) hosts)], [DomainRule (map al_Domain hosts) ''hosts''])) in
      if ns_DNSServer network = [] then Inr (servers @ [LocalServer], rules)
      else case ParseAddr lib (ns_DNSServer network) of
             Inl e \<Rightarrow> Inl (Wrapf (''invalid cluster DNS address '' @ quote (ns_DNSServer network) @ '': '') e)
           | Inr dnsIP \<Rightarrow>
               Inr (servers @ [UDPServer (addr_string dnsIP) KubernetesOutbound, LocalServer],
                    rules @ [SuffixRule clusterDomains ''cluster'']))"

definition configTraffic :: "Options \<Rightarrow> trafficInbound option res" where
  "configTraffic options =
     (if op_TrafficListen options = 0 then Inr None
      else if op_TrafficPassword options = [] then Inl (Errorf ''traffic inbound password is required'')
      else checkE (validatePort (op_TrafficListen options) TrafficInbound)
        (Inr (Some \<lparr>ti_listen_port = op_TrafficListen options,
           ti_users = map (\<lambda>u. (u, op_TrafficPassword options)) TrafficFeatureUsers\<rparr>)))"

text \<open>\<^verbatim>\<open>net.JoinHostPort\<close>.\<close>

definition join_host_port :: "string \<Rightarrow> string \<Rightarrow> string" where
  "join_host_port host port = (if CHR '':'' \<in> set host then ''['' @ host @ '']:'' @ port else host @ '':'' @ port)"

definition Generate :: "netLib \<Rightarrow> string \<Rightarrow> NetworkSpec \<Rightarrow> Options \<Rightarrow> config res" where
  "Generate lib goos network options0 =
     (let options = fillOptions options0 in
      checkE (validatePort (op_BridgePort options) ''bridge'') (
      checkE (validatePort (op_ControllerPort options) ''controller'') (
      checkE (validatePort (op_DNSPort options) ''dns'') (
      bindE (guardE (op_ControllerSecret options \<noteq> []) (Errorf ''controller secret is required'')) (\<lambda>_.
      case ParsePrefix lib (op_TUNAddress options) of
        Inl e \<Rightarrow> Inl (Wrapf (''invalid TUN address '' @ quote (op_TUNAddress options) @ '': '') e)
      | Inr _ \<Rightarrow>
      bindE (clusterRoutes lib network) (\<lambda>routes.
      bindE (NormalizeHostAliases lib (op_Hosts options)) (\<lambda>hosts.
      bindE (configDomains lib network options) (\<lambda>clusterDomains.
      bindE (configDNS lib network hosts clusterDomains) (\<lambda>(dnsServers, dnsRules).
      bindE (configTraffic options) (\<lambda>traffic.
      Inr \<lparr>cf_dnsServers = dnsServers, cf_dnsRules = dnsRules,
        cf_tun = \<lparr>tn_address = [op_TUNAddress options], tn_mtu = 9000, tn_strict_route = (goos \<noteq> ''windows''),
                  tn_auto_redirect = (goos = ''linux''), tn_route_address = routes\<rparr>,
        cf_dnsIn = (op_DNSHost options, op_DNSPort options), cf_traffic = traffic,
        cf_bridge = (op_BridgeHost options, op_BridgePort options),
        cf_rules = routeRules routes clusterDomains, cf_final = DirectOutbound,
        cf_controller = (join_host_port (op_ControllerHost options) (itoa_int (op_ControllerPort options)),
                         op_ControllerSecret options)\<rparr>))))))))))"

section \<open>The session specification\<close>

definition maxSessionItems :: nat where "maxSessionItems = 4096"

record SessionSpec =
  ss_ID :: string
  ss_PodCIDRs :: "string list"
  ss_ServiceCIDRs :: "string list"
  ss_ServiceIPs :: "string list"
  ss_ClusterDNSServer :: string
  ss_ClusterDomains :: "string list"
  ss_BridgeHost :: string
  ss_BridgePort :: int
  ss_ControllerPort :: int
  ss_ControllerSecret :: string
  ss_DNSHost :: string
  ss_DNSPort :: int
  ss_PublicDNSPort :: int
  ss_TUNAddress :: string
  ss_Namespace :: string
  ss_DNSNamespace :: string
  ss_Namespaces :: "string list"
  ss_Hosts :: "HostAlias list"
  ss_TrafficListen :: int
  ss_TrafficPassword :: string

record DNSMeta =
  dm_Listen :: string
  dm_Port :: int
  dm_Domains :: "string list"
  dm_Search :: "string list"
  dm_Ndots :: nat

text \<open>The pattern \<^verbatim>\<open>^[A-Za-z0-9][A-Za-z0-9._-]{0,79}$\<close>.\<close>

definition is_alnum :: "char \<Rightarrow> bool" where
  "is_alnum c \<longleftrightarrow> (let n = (of_char c :: nat) in (48 \<le> n \<and> n \<le> 57) \<or> (65 \<le> n \<and> n \<le> 90) \<or> (97 \<le> n \<and> n \<le> 122))"

definition sessionIDPattern :: "string \<Rightarrow> bool" where
  "sessionIDPattern s \<longleftrightarrow> s \<noteq> [] \<and> is_alnum (hd s) \<and> length (tl s) \<le> 79 \<and>
     list_all (\<lambda>c. is_alnum c \<or> c \<in> {CHR ''.'', CHR ''_'', CHR ''-''}) (tl s)"

definition ValidateSessionID :: "string \<Rightarrow> unit res" where
  "ValidateSessionID i = guardE (sessionIDPattern i) (Errorf ''invalid session ID'')"

definition validateLoopback :: "netLib \<Rightarrow> string \<Rightarrow> string \<Rightarrow> unit res" where
  "validateLoopback lib raw label =
     (let bad = Inl (Errorf (label @ '' host must be a loopback IP address'')) in
      case ParseAddr lib raw of Inl e \<Rightarrow> bad | Inr ip \<Rightarrow> if \<not> IsLoopback ip then bad else Inr ())"

definition discovery :: "netLib \<Rightarrow> SessionSpec \<Rightarrow> NetworkSpec" where
  "discovery lib s =
     \<lparr>ns_PodCIDRs = ss_PodCIDRs s, ns_ServiceCIDRs = ss_ServiceCIDRs s, ns_ServiceIPs = ss_ServiceIPs s,
      ns_DNSServer = ss_ClusterDNSServer s,
      ns_ClusterDomains = (case NormalizeClusterDomains lib (ss_ClusterDomains s) of Inl e \<Rightarrow> [] | Inr ds \<Rightarrow> ds),
      ns_Namespaces = ss_Namespaces s\<rparr>"

definition dnsNamespace :: "SessionSpec \<Rightarrow> string" where
  "dnsNamespace s =
     (if ss_DNSNamespace s \<noteq> [] then ss_DNSNamespace s else if ss_Namespace s \<noteq> [] then ss_Namespace s else ''default'')"

definition dnsNamespaces :: "SessionSpec \<Rightarrow> string list" where
  "dnsNamespaces s = dnsNamespace s # ss_Namespaces s"

definition benchmark :: prefix where
  "benchmark = PrefixFrom (V4 0xC6120000) 15"

definition tunHost :: "prefix \<Rightarrow> bool" where
  "tunHost tun \<longleftrightarrow> \<not> (\<not> Is4 (pfx_addr tun) \<or> pfx_bits tun \<noteq> 30 \<or> \<not> Contains benchmark (pfx_addr tun) \<or>
     pfx_addr tun = pfx_addr (Masked tun))"

definition validPort :: "int \<Rightarrow> string \<Rightarrow> unit res" where
  "validPort port label = checkE (validatePort port label) (Inr ())"

definition Validate :: "netLib \<Rightarrow> SessionSpec \<Rightarrow> unit res" where
  "Validate lib s =
     bindE (ValidateSessionID (ss_ID s)) (\<lambda>_.
     bindE (validateLoopback lib (ss_BridgeHost s) ''bridge'') (\<lambda>_.
     bindE (validateLoopback lib (ss_DNSHost s) ''DNS'') (\<lambda>_.
     bindE (validPort (ss_BridgePort s) ''bridge'') (\<lambda>_.
     bindE (validPort (ss_ControllerPort s) ''controller'') (\<lambda>_.
     bindE (validPort (ss_DNSPort s) ''DNS'') (\<lambda>_.
     bindE (validPort (ss_PublicDNSPort s) ''public DNS'') (\<lambda>_.
     bindE (guardE (\<not> (length (ss_ControllerSecret s) < 32 \<or> length (ss_ControllerSecret s) > 256))
       (Errorf ''controller secret must be between 32 and 256 characters'')) (\<lambda>_.
     bindE (guardE (\<not> (length (ss_TrafficPassword s) < 32 \<or> length (ss_TrafficPassword s) > 255))
       (Errorf ''traffic password must be between 32 and 255 characters'')) (\<lambda>_.
     bindE (validPort (ss_TrafficListen s) TrafficInbound) (\<lambda>_.
     bindE (guardE (ss_TrafficListen s \<notin> set [ss_BridgePort s, ss_ControllerPort s, ss_DNSPort s, ss_PublicDNSPort s])
       (Errorf ''traffic inbound port must not overlap internal ports'')) (\<lambda>_.
     bindE (guardE (\<not> (length (ss_PodCIDRs s) + length (ss_ServiceCIDRs s) + length (ss_ServiceIPs s) +
         length (ss_Namespaces s) + length (ss_Hosts s) > maxSessionItems))
       (Errorf ''session contains too many routes or host aliases'')) (\<lambda>_.
     case ParsePrefix lib (ss_TUNAddress s) of
       Inl e \<Rightarrow> Inl (Wrapf (''invalid TUN address '' @ quote (ss_TUNAddress s) @ '': '') e)
     | Inr tun \<Rightarrow>
     bindE (guardE (tunHost tun) (Errorf ''TUN address must be a host in a 198.18.0.0/15 /30 subnet'')) (\<lambda>_.
     bindE (guardE (\<not> (ss_Namespace s \<noteq> [] \<and> \<not> IsDNS1123Label lib (ss_Namespace s))) (Errorf ''invalid namespace'')) (\<lambda>_.
     bindE (guardE (\<not> (ss_DNSNamespace s \<noteq> [] \<and> \<not> IsDNS1123Label lib (ss_DNSNamespace s))) (Errorf ''invalid DNS namespace'')) (\<lambda>_.
     bindE (guardE (list_all (IsDNS1123Label lib) (ss_Namespaces s)) (Errorf ''invalid namespace in namespace list'')) (\<lambda>_.
     bindE (if ss_ClusterDNSServer s \<noteq> []
            then (case ParseAddr lib (ss_ClusterDNSServer s) of
                    Inl e \<Rightarrow> Inl (Wrapf ''invalid cluster DNS address: '' e) | Inr _ \<Rightarrow> Inr ())
            else Inr ()) (\<lambda>_.
     bindE (NormalizeClusterDomains lib (ss_ClusterDomains s)) (\<lambda>_.
     bindE (NormalizeHostAliases lib (ss_Hosts s)) (\<lambda>_.
     bindE (clusterRoutes lib (discovery lib s)) (\<lambda>_. Inr ()))))))))))))))))))))"

definition orNil :: "'a list res \<Rightarrow> 'a list" where
  "orNil r = (case r of Inl _ \<Rightarrow> [] | Inr xs \<Rightarrow> xs)"

definition sessionOptions :: "netLib \<Rightarrow> SessionSpec \<Rightarrow> Options" where
  "sessionOptions lib s =
     \<lparr>op_BridgeHost = ss_BridgeHost s, op_BridgePort = ss_BridgePort s, op_ControllerHost = [],
      op_ControllerPort = ss_ControllerPort s, op_ControllerSecret = ss_ControllerSecret s,
      op_DNSHost = ss_DNSHost s, op_DNSPort = ss_DNSPort s, op_TUNAddress = ss_TUNAddress s,
      op_Namespace = dnsNamespace s, op_ClusterDomains = orNil (NormalizeClusterDomains lib (ss_ClusterDomains s)),
      op_Hosts = orNil (NormalizeHostAliases lib (ss_Hosts s)), op_TrafficListen = ss_TrafficListen s,
      op_TrafficPassword = ss_TrafficPassword s\<rparr>"

definition GenerateConfig :: "netLib \<Rightarrow> string \<Rightarrow> SessionSpec \<Rightarrow> config res" where
  "GenerateConfig lib goos s =
     bindE (Validate lib s) (\<lambda>_. Generate lib goos (discovery lib s) (sessionOptions lib s))"

definition Routes :: "netLib \<Rightarrow> SessionSpec \<Rightarrow> string list res" where
  "Routes lib s = bindE (Validate lib s) (\<lambda>_. clusterRoutes lib (discovery lib s))"

definition DNS :: "netLib \<Rightarrow> SessionSpec \<Rightarrow> DNSMeta res" where
  "DNS lib s =
     bindE (Validate lib s) (\<lambda>_.
       let hosts = orNil (NormalizeHostAliases lib (ss_Hosts s));
           domains = orNil (NormalizeClusterDomains lib (ss_ClusterDomains s));
           ns = dnsNamespace s
       in Inr \<lparr>dm_Listen = ss_DNSHost s, dm_Port = ss_PublicDNSPort s,
            dm_Domains = ResolverDomains lib ns domains hosts [],
            dm_Search = SearchDomainsForNamespaces lib (dnsNamespaces s) domains, dm_Ndots = 5\<rparr>)"

section \<open>The traffic endpoints\<close>

record TrafficEndpoint =
  te_Address :: string
  te_Username :: string
  te_Password :: string

record TrafficEndpoints =
  te_PortForward :: TrafficEndpoint
  te_Exchange :: TrafficEndpoint
  te_Preview :: TrafficEndpoint
  te_MirrorShadow :: TrafficEndpoint

text \<open>\<^verbatim>\<open>strconv.Atoi\<close> on a 64-bit platform.\<close>

definition atoi :: "string \<Rightarrow> int res" where
  "atoi s =
     (let sign = s \<noteq> [] \<and> (hd s = CHR ''-'' \<or> hd s = CHR ''+'');
          digits = (if sign then tl s else s);
          n = (if s \<noteq> [] \<and> hd s = CHR ''-'' then - int (digits_val digits) else int (digits_val digits)) in
      if digits = [] \<or> \<not> list_all is_digit digits
      then Inl (Errorf (''strconv.Atoi: parsing '' @ quote s @ '': invalid syntax''))
      else if n < - (2 ^ 63) \<or> n \<ge> 2 ^ 63
      then Inl (Errorf (''strconv.Atoi: parsing '' @ quote s @ '': value out of range''))
      else Inr n)"

definition checkEndpoint :: "netLib \<Rightarrow> string \<Rightarrow> TrafficEndpoint \<Rightarrow> unit res" where
  "checkEndpoint lib name e =
     (case split_host_port (te_Address e) of
        Inl er \<Rightarrow> Inl (Wrapf (name @ '' address: '') er)
      | Inr (host, rawPort) \<Rightarrow>
          bindE (guardE (case ParseIP lib host of None \<Rightarrow> False | Some ip \<Rightarrow> IsLoopback ip)
            (Errorf (name @ '' must listen on loopback''))) (\<lambda>_.
          bindE (guardE (case atoi rawPort of Inl _ \<Rightarrow> False | Inr port \<Rightarrow> \<not> (port < 1 \<or> port > 65535))
            (Errorf (name @ '' has invalid port''))) (\<lambda>_.
          bindE (guardE (te_Username e = name) (Errorf (name @ '' username must be '' @ quote name))) (\<lambda>_.
          guardE (te_Password e \<noteq> []) (Errorf (name @ '' password is required''))))))"

fun endpointsLoop :: "netLib \<Rightarrow> string \<times> string \<Rightarrow> (string \<times> TrafficEndpoint) list \<Rightarrow> unit res" where
  "endpointsLoop lib shared [] = Inr ()"
| "endpointsLoop lib shared ((name, e) # items) =
     bindE (checkEndpoint lib name e) (\<lambda>_.
     bindE (guardE (te_Address e = fst shared) (Errorf ''traffic endpoints must share one listen address'')) (\<lambda>_.
     bindE (guardE (te_Password e = snd shared) (Errorf ''traffic endpoints must share one password'')) (\<lambda>_.
     endpointsLoop lib shared items)))"

definition ValidateEndpoints :: "netLib \<Rightarrow> TrafficEndpoints \<Rightarrow> unit res" where
  "ValidateEndpoints lib e =
     (let first = te_PortForward e in
      bindE (checkEndpoint lib TrafficUserPortForward first) (\<lambda>_.
        endpointsLoop lib (te_Address first, te_Password first)
          [(TrafficUserExchange, te_Exchange e), (TrafficUserPreview, te_Preview e),
           (TrafficUserMirrorShadow, te_MirrorShadow e)]))"

definition trafficEndpoints :: "int \<Rightarrow> string \<Rightarrow> TrafficEndpoints" where
  "trafficEndpoints listen password =
     (let address = join_host_port ''127.0.0.1'' (itoa_int listen);
          endpoint = (\<lambda>username. \<lparr>te_Address = address, te_Username = username, te_Password = password\<rparr>)
      in \<lparr>te_PortForward = endpoint TrafficUserPortForward, te_Exchange = endpoint TrafficUserExchange,
          te_Preview = endpoint TrafficUserPreview, te_MirrorShadow = endpoint TrafficUserMirrorShadow\<rparr>)"

text \<open>\<^verbatim>\<open>networkSpec\<close> of the session: the data plane's view of a scan; the domains come from the Gateway.\<close>

definition networkSpec :: "scanResult \<Rightarrow> string list \<Rightarrow> NetworkSpec" where
  "networkSpec d domains =
     \<lparr>ns_PodCIDRs = sr_PodCIDRs d, ns_ServiceCIDRs = sr_ServiceCIDRs d, ns_ServiceIPs = sr_ServiceIPs d,
      ns_DNSServer = sr_DNSServer d, ns_ClusterDomains = domains, ns_Namespaces = []\<rparr>"

section \<open>Normalised names\<close>

text \<open>
  What is asked of \<^verbatim>\<open>validation.IsDNS1123Label\<close>: a label is not empty and holds only lower-case
  letters, digits and hyphens; and the default cluster domain passes both checks.
\<close>

definition label_char :: "char \<Rightarrow> bool" where
  "label_char c \<longleftrightarrow> (let n = (of_char c :: nat) in (97 \<le> n \<and> n \<le> 122) \<or> (48 \<le> n \<and> n \<le> 57) \<or> n = 45)"

definition name_laws :: "netLib \<Rightarrow> bool" where
  "name_laws lib \<longleftrightarrow> (\<forall>l. IsDNS1123Label lib l \<longrightarrow> l \<noteq> [] \<and> list_all label_char l) \<and>
     ValidClusterDomain lib DefaultClusterDomain"

lemma split_on_mem: "x \<in> set s \<Longrightarrow> x = c \<or> (\<exists>w \<in> set (split_on c s). x \<in> set w)"
  by (induction s) (auto split: list.split)

lemma split_on_trailing: "s \<noteq> [] \<Longrightarrow> last s = c \<Longrightarrow> \<exists>w ws. split_on c s = w # ws \<and> [] \<in> set ws"
proof (induction s)
  case (Cons x s)
  then show ?case by (cases "s = []") (auto split: list.split)
qed simp

lemma lower_label: "label_char c \<or> c = CHR ''.'' \<Longrightarrow> lower_char c = c \<and> \<not> is_space c \<and> c \<noteq> CHR 0x2F"
  by (auto simp: label_char_def lower_char_def is_space_def Let_def)

lemma valid_domain_chars:
  assumes "name_laws lib" "ValidClusterDomain lib d"
  shows "d \<noteq> []" "last d \<noteq> CHR ''.''" "\<forall>c \<in> set d. label_char c \<or> c = CHR ''.''"
proof -
  have l: "w \<noteq> [] \<and> list_all label_char w" if "w \<in> set (split_on (CHR ''.'') d)" for w
    using assms that by (auto simp: ValidClusterDomain_def name_laws_def list_all_iff split: if_splits)
  show ne: "d \<noteq> []" using l [of "[]"] by (cases d) auto
  show "last d \<noteq> CHR ''.''" using l split_on_trailing [OF ne] by (metis list.set_intros(2))
  show "\<forall>c \<in> set d. label_char c \<or> c = CHR ''.''"
    using l split_on_mem [of _ d "CHR ''.''"] by (metis list_all_iff)
qed

lemma normDomain_valid:
  assumes "name_laws lib" "ValidClusterDomain lib d"
  shows "normDomain d = d"
proof -
  note c = valid_domain_chars [OF assms]
  have "trim_space d = d" using c(3) lower_label by (intro trim_space_id) blast
  moreover have "to_lower d = d" unfolding to_lower_def by (rule map_idI) (use c(3) lower_label in blast)
  ultimately show ?thesis using c(2) by (simp add: normDomain_def trim_suffix_dot_id)
qed

text \<open>The reference: the names in the order of their first occurrence.\<close>

fun uniq :: "'a list \<Rightarrow> 'a list" where
  "uniq [] = []"
| "uniq (x # xs) = x # filter (\<lambda>y. y \<noteq> x) (uniq xs)"

lemma set_uniq [simp]: "set (uniq xs) = set xs"
  by (induction xs) auto

lemma distinct_uniq [simp]: "distinct (uniq xs)"
  by (induction xs) auto

lemma uniq_distinct: "distinct xs \<Longrightarrow> uniq xs = xs"
  by (induction xs) (auto intro: filter_True)

definition badDomain :: "netLib \<Rightarrow> string \<Rightarrow> bool" where
  "badDomain lib d \<longleftrightarrow> normDomain d \<noteq> [] \<and> \<not> ValidClusterDomain lib (normDomain d)"

definition domainNames :: "string list \<Rightarrow> string list" where
  "domainNames ds = uniq (filter (\<lambda>d. d \<noteq> []) (map normDomain ds))"

lemma addDomain_cases:
  "addDomain lib out d =
     (if badDomain lib d then Inl (Errorf (''invalid cluster domain '' @ quote d))
      else if normDomain d = [] \<or> normDomain d \<in> set out then Inr out else Inr (out @ [normDomain d]))"
  by (simp add: addDomain_def badDomain_def Let_def)

lemma addDomains_eq:
  "addDomains lib out ds =
     (case find (badDomain lib) ds of
        Some d \<Rightarrow> Inl (Errorf (''invalid cluster domain '' @ quote d))
      | None \<Rightarrow> Inr (out @ filter (\<lambda>d. d \<notin> set out) (domainNames ds)))"
proof (induction ds arbitrary: out)
  case Nil
  then show ?case by (simp add: domainNames_def)
next
  case (Cons d ds)
  let ?n = "normDomain d"
  consider "badDomain lib d" | "\<not> badDomain lib d" "?n = []" | "\<not> badDomain lib d" "?n \<noteq> []" by blast
  then show ?case
  proof cases
    case 2
    then have "domainNames (d # ds) = domainNames ds" by (simp add: domainNames_def)
    with 2 Cons.IH show ?thesis by (simp add: addDomain_cases split: option.split)
  next
    case 3
    then have "domainNames (d # ds) = ?n # filter (\<lambda>y. y \<noteq> ?n) (domainNames ds)" by (simp add: domainNames_def)
    then have "filter (\<lambda>y. y \<notin> set out) (domainNames (d # ds)) =
        (if ?n \<in> set out then filter (\<lambda>y. y \<notin> set out) (domainNames ds)
         else ?n # filter (\<lambda>y. y \<notin> set (out @ [?n])) (domainNames ds))" by (auto intro: filter_cong)
    with 3 Cons.IH [of out] Cons.IH [of "out @ [?n]"] show ?thesis by (simp add: addDomain_cases split: option.split)
  qed (simp add: addDomain_cases)
qed

definition normalDomains :: "string list \<Rightarrow> string list" where
  "normalDomains ds = DefaultClusterDomain # filter (\<lambda>d. d \<noteq> DefaultClusterDomain) (domainNames ds)"

lemma NormalizeClusterDomains_eq:
  assumes "name_laws lib"
  shows "NormalizeClusterDomains lib ds =
     (case find (badDomain lib) ds of
        Some d \<Rightarrow> Inl (Errorf (''invalid cluster domain '' @ quote d))
      | None \<Rightarrow> Inr (normalDomains ds))"
proof (cases "find (badDomain lib) ds")
  case None
  let ?D = DefaultClusterDomain and ?n = "domainNames ds"
  have v: "ValidClusterDomain lib ?D" using assms by (simp add: name_laws_def)
  have "addDomain lib ?n ?D = Inr (if ?D \<in> set ?n then ?n else ?n @ [?D])"
    using v normDomain_valid [OF assms v] valid_domain_chars(1) [OF assms v] by (simp add: addDomain_def Let_def)
  moreover have "distinct ?n" by (simp add: domainNames_def)
  ultimately show ?thesis using None
    by (cases ?n) (auto simp: NormalizeClusterDomains_def addDomains_eq normalDomains_def intro!: filter_True [symmetric])
qed (simp add: NormalizeClusterDomains_def addDomains_eq)

lemma normalDomains_ok:
  assumes "name_laws lib" "find (badDomain lib) ds = None"
  shows "\<forall>d \<in> set (normalDomains ds). ValidClusterDomain lib d" "distinct (normalDomains ds)"
    "find (badDomain lib) (normalDomains ds) = None" "normalDomains (normalDomains ds) = normalDomains ds"
proof -
  have good: "\<forall>d \<in> set ds. \<not> badDomain lib d" using assms(2) by (simp add: find_None_iff)
  show v: "\<forall>d \<in> set (normalDomains ds). ValidClusterDomain lib d"
    using good assms(1) by (auto simp: normalDomains_def domainNames_def badDomain_def name_laws_def)
  show d: "distinct (normalDomains ds)" by (simp add: normalDomains_def domainNames_def)
  show "find (badDomain lib) (normalDomains ds) = None"
    using v normDomain_valid [OF assms(1)] by (auto simp: find_None_iff badDomain_def)
  have "map normDomain (normalDomains ds) = normalDomains ds"
    by (rule map_idI) (use v normDomain_valid [OF assms(1)] in blast)
  moreover have "filter (\<lambda>d. d \<noteq> []) (normalDomains ds) = normalDomains ds"
    by (rule filter_True) (use v valid_domain_chars(1) [OF assms(1)] in blast)
  ultimately have "domainNames (normalDomains ds) = normalDomains ds"
    using d by (simp only: domainNames_def uniq_distinct)
  then show "normalDomains (normalDomains ds) = normalDomains ds"
    using d by (simp add: normalDomains_def [of "normalDomains ds"]) (auto simp: normalDomains_def intro!: filter_True)
qed

text \<open>
  \<^verbatim>\<open>NormalizeClusterDomains\<close> is equivalent to its specification: it fails with the first domain
  that is invalid once normalised; otherwise it returns the default domain followed by the other
  names, each once, in the order of their first occurrence. Normalising a result again gives it back.
\<close>

theorem domains_normalized:
  assumes "name_laws lib"
  shows "NormalizeClusterDomains lib ds =
     (case find (badDomain lib) ds of
        Some d \<Rightarrow> Inl (Errorf (''invalid cluster domain '' @ quote d))
      | None \<Rightarrow> Inr (normalDomains ds)) \<and>
   (\<forall>out. NormalizeClusterDomains lib ds = Inr out \<longrightarrow>
      distinct out \<and> hd out = DefaultClusterDomain \<and> NormalizeClusterDomains lib out = Inr out)"
proof -
  note eq = NormalizeClusterDomains_eq [OF assms]
  have "distinct out \<and> hd out = DefaultClusterDomain \<and> NormalizeClusterDomains lib out = Inr out"
    if "NormalizeClusterDomains lib ds = Inr out" for out
  proof -
    from that eq have n: "find (badDomain lib) ds = None" "out = normalDomains ds" by (auto split: option.splits)
    note normalDomains_ok [OF assms n(1)]
    then show ?thesis unfolding eq n(2) by (simp add: normalDomains_def)
  qed
  with eq show ?thesis by blast
qed

text \<open>An instance of the arguments for IPv4 texts.\<close>

definition ex_label :: "string \<Rightarrow> bool" where
  "ex_label l \<longleftrightarrow> l \<noteq> [] \<and> length l \<le> 63 \<and> list_all label_char l \<and> hd l \<noteq> CHR ''-'' \<and> last l \<noteq> CHR ''-''"

definition ex_net :: netLib where
  "ex_net = \<lparr>ParseAddr = (\<lambda>s. case parse_addr4 s of None \<Rightarrow> Inl (Errorf ''unable to parse IP'') | Some a \<Rightarrow> Inr a),
     ParsePrefix = (\<lambda>s. case parse_prefix4 s of None \<Rightarrow> Inl (Errorf ''no prefix'') | Some p \<Rightarrow> Inr p),
     ParseIP = parse_addr4, IsDNS1123Label = ex_label,
     IsDNS1123Subdomain = (\<lambda>s. length s \<le> 253 \<and> list_all ex_label (split_on (CHR ''.'') s))\<rparr>"

lemma ex_net_laws: "name_laws ex_net"
proof -
  have "split_on (CHR ''.'') DefaultClusterDomain = [''cluster'', ''local'']" by (simp add: DefaultClusterDomain_def)
  moreover have "ex_label ''cluster''" "ex_label ''local''" "length DefaultClusterDomain \<le> 253"
    by (simp_all add: ex_label_def label_char_def DefaultClusterDomain_def)
  ultimately have "ValidClusterDomain ex_net DefaultClusterDomain"
    by (simp add: ValidClusterDomain_def ex_net_def)
  then show ?thesis by (simp add: name_laws_def) (simp add: ex_net_def ex_label_def)
qed

theorem domains_normalized_witness:
  "NormalizeClusterDomains ex_net ['' Corp.Example.'', ''cluster.local'', ''corp.example''] =
     Inr [''cluster.local'', ''corp.example''] \<and>
   NormalizeClusterDomains ex_net [''cluster.local'', ''corp.example''] = Inr [''cluster.local'', ''corp.example''] \<and>
   NormalizeClusterDomains ex_net [''a..b''] = Inl (Errorf (''invalid cluster domain '' @ quote ''a..b''))"
proof -
  let ?ds = "['' Corp.Example.'', ''cluster.local'', ''corp.example'']" and ?out = "[''cluster.local'', ''corp.example'']"
  have n: "normDomain '' Corp.Example.'' = ''corp.example''" "normDomain ''cluster.local'' = ''cluster.local''"
    "normDomain ''corp.example'' = ''corp.example''" "normDomain ''a..b'' = ''a..b''" by code_simp+
  have v: "ValidClusterDomain ex_net ''corp.example''" "ValidClusterDomain ex_net ''cluster.local''" "\<not> ValidClusterDomain ex_net ''a..b''"
    by (simp_all add: ValidClusterDomain_def ex_net_def ex_label_def label_char_def)
  have "find (badDomain ex_net) ?ds = None" "find (badDomain ex_net) [''a..b''] = Some ''a..b''"
    by (simp_all add: badDomain_def n v)
  moreover have "normalDomains ?ds = ?out" by (simp add: normalDomains_def domainNames_def n DefaultClusterDomain_def)
  ultimately show ?thesis
    using domains_normalized [OF ex_net_laws, of ?ds] domains_normalized [OF ex_net_laws, of "[''a..b'']"] by simp
qed

section \<open>Normalised host aliases\<close>

text \<open>What is asked of \<^verbatim>\<open>net/netip\<close>: a printed IPv4 address is read back, and the empty text is refused.\<close>

definition addr_laws :: "netLib \<Rightarrow> bool" where
  "addr_laws lib \<longleftrightarrow> (\<forall>ip. Is4 ip \<longrightarrow> ParseAddr lib (addr_string ip) = Inr ip) \<and>
     isl (ParseAddr lib []) \<and> isl (ParsePrefix lib [])"

definition alias_ok :: "netLib \<Rightarrow> HostAlias \<Rightarrow> bool" where
  "alias_ok lib h \<longleftrightarrow> ValidClusterDomain lib (al_Domain h) \<and> (\<exists>ip. Is4 ip \<and> al_IP h = addr_string ip)"

lemma aliasLoop_ok:
  "aliasLoop lib out items = Inr res \<Longrightarrow> \<forall>h \<in> set out. alias_ok lib h \<Longrightarrow> distinct (map al_Domain out) \<Longrightarrow>
   (\<forall>h \<in> set res. alias_ok lib h) \<and> distinct (map al_Domain res) \<and> length res = length out + length items"
proof (induction items arbitrary: out)
  case (Cons item items)
  from Cons.prems(1) obtain ip where i: "ParseAddr lib (trim_space (al_IP item)) = Inr ip" "Is4 ip"
    "ValidClusterDomain lib (normDomain (al_Domain item))" "normDomain (al_Domain item) \<notin> al_Domain ` set out"
    "aliasLoop lib (out @ [\<lparr>al_Domain = normDomain (al_Domain item), al_IP = addr_string ip\<rparr>]) items = Inr res"
    by (auto simp: Let_def split: if_splits sum.splits)
  from Cons.IH [OF i(5)] i Cons.prems(2,3) show ?case by (auto simp: alias_ok_def)
qed simp

lemma trim_v4: "Is4 ip \<Longrightarrow> trim_space (addr_string ip) = addr_string ip"
proof -
  assume "Is4 ip"
  then obtain w where w: "ip = V4 w" by (cases ip) auto
  have "\<not> is_space c" if "is_digit c" for c using that by (auto simp: is_digit_def is_space_def)
  moreover have "\<not> is_space (CHR ''.'')" by (simp add: is_space_def)
  ultimately show ?thesis using itoa_digits unfolding w by (intro trim_space_id) (auto simp: v4_string_def)
qed

lemma aliasLoop_fixed:
  assumes "name_laws lib" "addr_laws lib"
  shows "\<forall>h \<in> set items. alias_ok lib h \<Longrightarrow> distinct (map al_Domain (out @ items)) \<Longrightarrow>
    aliasLoop lib out items = Inr (out @ items)"
proof (induction items arbitrary: out)
  case (Cons h items)
  let ?d = "al_Domain h"
  have v: "ValidClusterDomain lib ?d" using Cons.prems(1) by (simp add: alias_ok_def)
  note c = valid_domain_chars [OF assms(1) v]
  obtain ip where ip: "Is4 ip" "al_IP h = addr_string ip" using Cons.prems(1) by (auto simp: alias_ok_def)
  have "\<not> contains_any ?d [CHR 0x20, CHR 0x09, CHR 0x2F]"
    using c(3) lower_label by (fastforce simp: contains_any_def list_ex_iff is_space_def)
  moreover have "ParseAddr lib (trim_space (al_IP h)) = Inr ip" using ip trim_v4 [OF ip(1)] assms(2) by (simp add: addr_laws_def)
  moreover have "\<lparr>al_Domain = ?d, al_IP = addr_string ip\<rparr> = h" using ip by simp
  moreover have "?d \<notin> al_Domain ` set out" using Cons.prems(2) by auto
  ultimately have "aliasLoop lib out (h # items) = aliasLoop lib (out @ [h]) items"
    using v c(1) normDomain_valid [OF assms(1) v] ip(1) by (simp add: Let_def)
  with Cons.IH [of "out @ [h]"] Cons.prems show ?case by simp
qed simp

lemma NormalizeHostAliases_ok:
  assumes "NormalizeHostAliases lib items = Inr hosts"
  shows "\<forall>h \<in> set hosts. alias_ok lib h" "distinct (map al_Domain hosts)" "sorted (map al_Domain hosts)"
proof -
  have "(\<forall>h \<in> set hosts. alias_ok lib h) \<and> distinct (map al_Domain hosts) \<and> sorted (map al_Domain hosts)"
  proof (cases "items = []")
    case False
    with assms obtain out where o: "aliasLoop lib [] items = Inr out" "hosts = sort_key al_Domain out"
      by (auto simp: NormalizeHostAliases_def bindE_Inr_iff)
    have "distinct (map al_Domain out) \<Longrightarrow> distinct (map al_Domain (sort_key al_Domain out))"
      by (simp add: distinct_map)
    with aliasLoop_ok [OF o(1)] o(2) show ?thesis by auto
  qed (use assms in \<open>simp add: NormalizeHostAliases_def\<close>)
  then show "\<forall>h \<in> set hosts. alias_ok lib h" "distinct (map al_Domain hosts)" "sorted (map al_Domain hosts)" by blast+
qed

lemma NormalizeHostAliases_idem:
  assumes "name_laws lib" "addr_laws lib" "NormalizeHostAliases lib items = Inr hosts"
  shows "NormalizeHostAliases lib hosts = Inr hosts"
proof -
  note ok = NormalizeHostAliases_ok [OF assms(3)]
  from aliasLoop_fixed [OF assms(1,2) ok(1), of "[]"] ok(2,3) show ?thesis
    by (cases "hosts = []") (simp_all add: NormalizeHostAliases_def sort_key_id_if_sorted)
qed

section \<open>A validated session is configured\<close>

lemma validPort_Inr [simp]: "validPort p l = Inr u \<longleftrightarrow> 1 \<le> p \<and> p \<le> 65535"
  by (auto simp: validPort_def validatePort_def checkE_def)

lemma Validate_Inr:
  assumes "Validate lib s = Inr ()"
  obtains tun ds hs routes where
    "\<forall>p \<in> {ss_BridgePort s, ss_ControllerPort s, ss_DNSPort s, ss_PublicDNSPort s, ss_TrafficListen s}. 1 \<le> p \<and> p \<le> 65535"
    "ss_TrafficListen s \<notin> {ss_BridgePort s, ss_ControllerPort s, ss_DNSPort s, ss_PublicDNSPort s}"
    "32 \<le> length (ss_ControllerSecret s)" "32 \<le> length (ss_TrafficPassword s)"
    "ParsePrefix lib (ss_TUNAddress s) = Inr tun" "tunHost tun"
    "ss_ClusterDNSServer s = [] \<or> (\<exists>a. ParseAddr lib (ss_ClusterDNSServer s) = Inr a)"
    "NormalizeClusterDomains lib (ss_ClusterDomains s) = Inr ds" "NormalizeHostAliases lib (ss_Hosts s) = Inr hs"
    "clusterRoutes lib (discovery lib s) = Inr routes"
    "\<exists>a. ParseAddr lib (ss_BridgeHost s) = Inr a \<and> IsLoopback a" "\<exists>a. ParseAddr lib (ss_DNSHost s) = Inr a \<and> IsLoopback a"
proof -
  from assms obtain tun where t: "ParsePrefix lib (ss_TUNAddress s) = Inr tun"
    unfolding Validate_def by (auto simp: bindE_Inr_iff split: sum.splits)
  note v = assms [unfolded Validate_def t sum.case bindE_Inr_iff guardE_simps validPort_Inr]
  from v t show thesis
    by (elim exE conjE, intro that [of tun])
       (auto simp: validateLoopback_def Let_def split: sum.splits if_splits)
qed

lemma configDomains_session:
  assumes "name_laws lib" "NormalizeClusterDomains lib (ss_ClusterDomains s) = Inr ds"
  shows "configDomains lib (discovery lib s) (fillOptions (sessionOptions lib s)) = Inr ds"
proof -
  from assms(2) NormalizeClusterDomains_eq [OF assms(1), of "ss_ClusterDomains s"]
  have f: "find (badDomain lib) (ss_ClusterDomains s) = None" "ds = normalDomains (ss_ClusterDomains s)"
    by (auto split: option.splits)
  note k = normalDomains_ok [OF assms(1) f(1), folded f(2)]
  have idem: "NormalizeClusterDomains lib ds = Inr ds"
    using k(3,4) by (simp add: NormalizeClusterDomains_eq [OF assms(1)])
  have "find (badDomain lib) (ds @ ds) = None" using k(3) by (simp add: find_None_iff)
  moreover have "domainNames (ds @ ds) = domainNames ds"
  proof -
    have "uniq (xs @ xs) = uniq xs" for xs :: "string list"
    proof -
      have app: "uniq (as @ bs) = uniq as @ filter (\<lambda>b. b \<notin> set as) (uniq bs)" for as bs :: "string list"
        by (induction as) (auto intro: filter_cong)
      show ?thesis by (simp add: app filter_empty_conv)
    qed
    then show ?thesis by (simp add: domainNames_def)
  qed
  ultimately have "NormalizeClusterDomains lib (ds @ ds) = Inr ds"
    using k(4) by (simp add: NormalizeClusterDomains_eq [OF assms(1)] normalDomains_def)
  with idem assms(2) show ?thesis
    by (simp add: configDomains_def discovery_def sessionOptions_def fillOptions_def orNil_def)
qed

lemma clusterRoutes_nonempty: "clusterRoutes lib network = Inr routes \<Longrightarrow> routes \<noteq> []"
proof -
  have "sort xs = [] \<longleftrightarrow> xs = []" for xs :: "string list" by (metis set_sort set_empty)
  then show "clusterRoutes lib network = Inr routes \<Longrightarrow> routes \<noteq> []"
    by (auto simp: clusterRoutes_def bindE_Inr_iff split: if_splits)
qed

lemma configDNS_total:
  "ns_DNSServer network = [] \<or> (\<exists>a. ParseAddr lib (ns_DNSServer network) = Inr a) \<Longrightarrow>
   \<exists>servers rules. configDNS lib network hosts ds = Inr (servers, rules)"
  by (cases "hosts = []") (auto simp: configDNS_def)

lemma session_configured:
  assumes "name_laws lib" "addr_laws lib"
  shows "case Validate lib s of
      Inl e \<Rightarrow> GenerateConfig lib goos s = Inl e \<and> Routes lib s = Inl e \<and> DNS lib s = Inl e
    | Inr _ \<Rightarrow> (\<exists>cfg meta t. GenerateConfig lib goos s = Inr cfg \<and> DNS lib s = Inr meta \<and>
        Routes lib s = Inr (tn_route_address (cf_tun cfg)) \<and> tn_route_address (cf_tun cfg) \<noteq> [] \<and>
        cf_traffic cfg = Some t \<and> ti_listen_port t = ss_TrafficListen s \<and>
        ti_users t = map (\<lambda>u. (u, ss_TrafficPassword s)) TrafficFeatureUsers \<and>
        ti_listen_port t \<notin> {snd (cf_bridge cfg), snd (cf_dnsIn cfg), dm_Port meta} \<and>
        (\<exists>a. ParseAddr lib (fst (cf_bridge cfg)) = Inr a \<and> IsLoopback a) \<and>
        (\<exists>a. ParseAddr lib (fst (cf_dnsIn cfg)) = Inr a \<and> IsLoopback a) \<and> dm_Listen meta = fst (cf_dnsIn cfg))"
proof (cases "Validate lib s")
  case (Inl e)
  then show ?thesis by (simp add: GenerateConfig_def Routes_def DNS_def)
next
  case (Inr u)
  then have "Validate lib s = Inr ()" by simp
  then show ?thesis
  proof (rule Validate_Inr)
    fix tun ds hs routes
    assume ports: "\<forall>p \<in> {ss_BridgePort s, ss_ControllerPort s, ss_DNSPort s, ss_PublicDNSPort s, ss_TrafficListen s}. 1 \<le> p \<and> p \<le> 65535"
      and own: "ss_TrafficListen s \<notin> {ss_BridgePort s, ss_ControllerPort s, ss_DNSPort s, ss_PublicDNSPort s}"
      and secrets: "32 \<le> length (ss_ControllerSecret s)" "32 \<le> length (ss_TrafficPassword s)"
      and tun: "ParsePrefix lib (ss_TUNAddress s) = Inr tun" "tunHost tun"
      and dns: "ss_ClusterDNSServer s = [] \<or> (\<exists>a. ParseAddr lib (ss_ClusterDNSServer s) = Inr a)"
      and ds: "NormalizeClusterDomains lib (ss_ClusterDomains s) = Inr ds"
      and hs: "NormalizeHostAliases lib (ss_Hosts s) = Inr hs"
      and routes: "clusterRoutes lib (discovery lib s) = Inr routes"
      and loop: "\<exists>a. ParseAddr lib (ss_BridgeHost s) = Inr a \<and> IsLoopback a"
        "\<exists>a. ParseAddr lib (ss_DNSHost s) = Inr a \<and> IsLoopback a"
    have ne: "ss_BridgeHost s \<noteq> []" "ss_DNSHost s \<noteq> []" "ss_TUNAddress s \<noteq> []"
      using assms(2) loop tun(1) by (auto simp: addr_laws_def)
    have fill: "fillOptions (sessionOptions lib s) = (sessionOptions lib s)\<lparr>op_ControllerHost := ''127.0.0.1''\<rparr>"
      using ports ne by (simp add: fillOptions_def sessionOptions_def)
    let ?o = "fillOptions (sessionOptions lib s)"
    have opts: "op_BridgePort ?o = ss_BridgePort s" "op_ControllerPort ?o = ss_ControllerPort s" "op_DNSPort ?o = ss_DNSPort s"
      "op_ControllerSecret ?o = ss_ControllerSecret s" "op_TUNAddress ?o = ss_TUNAddress s" "op_Hosts ?o = hs"
      "op_BridgeHost ?o = ss_BridgeHost s" "op_DNSHost ?o = ss_DNSHost s" "op_TrafficListen ?o = ss_TrafficListen s"
      "op_TrafficPassword ?o = ss_TrafficPassword s"
      unfolding fill by (simp_all add: sessionOptions_def hs orNil_def)
    obtain servers rules where cdns: "configDNS lib (discovery lib s) hs ds = Inr (servers, rules)"
      using dns configDNS_total [of "discovery lib s" lib hs ds] by (auto simp: discovery_def)
    have traffic: "configTraffic ?o = Inr (Some \<lparr>ti_listen_port = ss_TrafficListen s,
        ti_users = map (\<lambda>u. (u, ss_TrafficPassword s)) TrafficFeatureUsers\<rparr>)"
      using ports secrets by (auto simp: configTraffic_def opts validatePort_def checkE_def)
    have ok: "validatePort (ss_BridgePort s) l = None" "validatePort (ss_ControllerPort s) l = None"
      "validatePort (ss_DNSPort s) l = None" "ss_ControllerSecret s \<noteq> []" for l
      using ports secrets by (auto simp: validatePort_def)
    have "routes \<noteq> []" by (rule clusterRoutes_nonempty [OF routes])
    moreover have "\<exists>cfg. GenerateConfig lib goos s = Inr cfg \<and> tn_route_address (cf_tun cfg) = routes \<and>
        cf_traffic cfg = Some \<lparr>ti_listen_port = ss_TrafficListen s, ti_users = map (\<lambda>u. (u, ss_TrafficPassword s)) TrafficFeatureUsers\<rparr> \<and>
        cf_bridge cfg = (ss_BridgeHost s, ss_BridgePort s) \<and> cf_dnsIn cfg = (ss_DNSHost s, ss_DNSPort s)"
      using Inr by (simp add: GenerateConfig_def Generate_def Let_def opts ok checkE_def tun routes
          NormalizeHostAliases_idem [OF assms hs] configDomains_session [OF assms(1) ds] cdns traffic)
    moreover have "\<exists>meta. DNS lib s = Inr meta \<and> dm_Listen meta = ss_DNSHost s \<and> dm_Port meta = ss_PublicDNSPort s"
      using Inr by (simp add: DNS_def Let_def)
    moreover have "Routes lib s = Inr routes" using Inr routes by (simp add: Routes_def)
    ultimately show ?thesis using Inr own loop by fastforce
  qed
qed

text \<open>
  C30. A session that validates is configured: \<^verbatim>\<open>GenerateConfig\<close>, \<^verbatim>\<open>Routes\<close> and \<^verbatim>\<open>DNS\<close> cannot fail after
  \<^verbatim>\<open>Validate\<close> accepted the specification, and what they produce agrees: the tunnel takes exactly the
  routes of the session, the traffic inbound listens on its own port for exactly the four feature
  users with the session's password, and the bridge and the resolver listen on loopback addresses. A
  session that does not validate is refused by all three with the error of \<^verbatim>\<open>Validate\<close>.
\<close>

theorem validated_session_is_configured:
  assumes "name_laws lib" "addr_laws lib"
  shows "case Validate lib s of
      Inl e \<Rightarrow> GenerateConfig lib goos s = Inl e \<and> Routes lib s = Inl e \<and> DNS lib s = Inl e
    | Inr _ \<Rightarrow> (\<exists>cfg meta t. GenerateConfig lib goos s = Inr cfg \<and> DNS lib s = Inr meta \<and>
        Routes lib s = Inr (tn_route_address (cf_tun cfg)) \<and> tn_route_address (cf_tun cfg) \<noteq> [] \<and>
        cf_traffic cfg = Some t \<and> ti_listen_port t = ss_TrafficListen s \<and>
        ti_users t = map (\<lambda>u. (u, ss_TrafficPassword s)) TrafficFeatureUsers \<and>
        ti_listen_port t \<notin> {snd (cf_bridge cfg), snd (cf_dnsIn cfg), dm_Port meta} \<and>
        (\<exists>a. ParseAddr lib (fst (cf_bridge cfg)) = Inr a \<and> IsLoopback a) \<and>
        (\<exists>a. ParseAddr lib (fst (cf_dnsIn cfg)) = Inr a \<and> IsLoopback a) \<and> dm_Listen meta = fst (cf_dnsIn cfg))"
  by (rule session_configured [OF assms])

definition ex_sessionSpec :: SessionSpec where
  "ex_sessionSpec = \<lparr>ss_ID = ''session-1'', ss_PodCIDRs = [''10.244.0.0/16''], ss_ServiceCIDRs = [], ss_ServiceIPs = [],
     ss_ClusterDNSServer = [], ss_ClusterDomains = [], ss_BridgeHost = ''127.0.0.1'', ss_BridgePort = 4001,
     ss_ControllerPort = 4002, ss_ControllerSecret = replicate 32 (CHR ''k''), ss_DNSHost = ''127.0.0.1'', ss_DNSPort = 4003,
     ss_PublicDNSPort = 4004, ss_TUNAddress = ''198.19.0.1/30'', ss_Namespace = [], ss_DNSNamespace = ''default'',
     ss_Namespaces = [], ss_Hosts = [], ss_TrafficListen = 4005, ss_TrafficPassword = replicate 32 (CHR ''p'')\<rparr>"

lemma ex_net_addr: "addr_laws ex_net"
proof -
  have "ParseAddr ex_net (addr_string ip) = Inr ip" if "Is4 ip" for ip
    using that parse_addr4_string by (cases ip) (simp_all add: ex_net_def del: addr_string.simps)
  moreover have "parse_addr4 [] = None" "parse_prefix4 [] = None"
    by (simp_all add: parse_addr4_def parse_prefix4_def parse_field_def)
  then have "isl (ParseAddr ex_net [])" "isl (ParsePrefix ex_net [])" by (simp_all add: ex_net_def)
  ultimately show ?thesis by (simp add: addr_laws_def)
qed

lemma ex_parses:
  "ParseAddr ex_net ''127.0.0.1'' = Inr (V4 0x7F000001)"
  "ParsePrefix ex_net ''10.244.0.0/16'' = Inr (PrefixFrom (V4 0x0AF40000) 16)"
  "ParsePrefix ex_net ''198.19.0.1/30'' = Inr (PrefixFrom (V4 0xC6130001) 30)"
proof -
  have "addr_string (V4 0x7F000001) = ''127.0.0.1''" "prefix_string (PrefixFrom (V4 0x0AF40000) 16) = ''10.244.0.0/16''"
    "prefix_string (PrefixFrom (V4 0xC6130001) 30) = ''198.19.0.1/30''"
    by (simp_all add: v4_string_def octet_def itoa.simps char_of_digit prefix_string_def PrefixFrom_def)
  moreover have "prefix_ok (PrefixFrom (V4 0x0AF40000) 16)" "prefix_ok (PrefixFrom (V4 0xC6130001) 30)"
    by (simp_all add: prefix_ok_def PrefixFrom_def)
  ultimately show "ParseAddr ex_net ''127.0.0.1'' = Inr (V4 0x7F000001)"
    "ParsePrefix ex_net ''10.244.0.0/16'' = Inr (PrefixFrom (V4 0x0AF40000) 16)"
    "ParsePrefix ex_net ''198.19.0.1/30'' = Inr (PrefixFrom (V4 0xC6130001) 30)"
    using parse_addr4_string [of "0x7F000001"] parse_prefix4_string [of "PrefixFrom (V4 0x0AF40000) 16"]
      parse_prefix4_string [of "PrefixFrom (V4 0xC6130001) 30"]
    by (simp_all add: ex_net_def) (simp_all add: PrefixFrom_def)
qed

lemma ex_sessionSpec_valid: "Validate ex_net ex_sessionSpec = Inr ()"
proof -
  have "NormalizeClusterDomains ex_net [] = Inr [DefaultClusterDomain]"
    by (simp add: NormalizeClusterDomains_eq [OF ex_net_laws] normalDomains_def domainNames_def)
  moreover have "tunHost (PrefixFrom (V4 0xC6130001) 30)"
    by (simp add: tunHost_def PrefixFrom_def benchmark_def Contains_def top_bits_def Masked_def)
  moreover have "ex_label ''default''" by (simp add: ex_label_def label_char_def)
  moreover have "sessionIDPattern ''session-1''" by (simp add: sessionIDPattern_def is_alnum_def)
  moreover have "IsLoopback (V4 0x7F000001)" by (simp add: IsLoopback_def octet_def)
  ultimately show ?thesis
    by (simp add: Validate_def ex_sessionSpec_def ex_parses ValidateSessionID_def validateLoopback_def validPort_def validatePort_def
        checkE_def maxSessionItems_def NormalizeHostAliases_def clusterRoutes_def discovery_def addKey_def)
       (simp add: ex_net_def)
qed

theorem validated_session_is_configured_witness:
  "name_laws ex_net \<and> addr_laws ex_net \<and> Validate ex_net ex_sessionSpec = Inr () \<and>
   (\<exists>cfg meta t. GenerateConfig ex_net ''linux'' ex_sessionSpec = Inr cfg \<and> DNS ex_net ex_sessionSpec = Inr meta \<and>
      cf_traffic cfg = Some t \<and> ti_listen_port t = 4005 \<and> dm_Listen meta = fst (cf_dnsIn cfg)) \<and>
   isl (GenerateConfig ex_net ''linux'' (ex_sessionSpec\<lparr>ss_TrafficListen := 4001\<rparr>))"
proof -
  note t = validated_session_is_configured [OF ex_net_laws ex_net_addr]
  have a: "\<exists>cfg meta t. GenerateConfig ex_net ''linux'' ex_sessionSpec = Inr cfg \<and> DNS ex_net ex_sessionSpec = Inr meta \<and>
      cf_traffic cfg = Some t \<and> ti_listen_port t = 4005 \<and> dm_Listen meta = fst (cf_dnsIn cfg)"
    using t [where s = ex_sessionSpec and goos = "''linux''"] ex_sessionSpec_valid by (auto simp: ex_sessionSpec_def)
  let ?bad = "ex_sessionSpec\<lparr>ss_TrafficListen := 4001\<rparr>"
  have "Validate ex_net ?bad \<noteq> Inr ()"
  proof
    assume "Validate ex_net ?bad = Inr ()"
    then show False by (rule Validate_Inr) (simp add: ex_sessionSpec_def)
  qed
  then obtain e where "Validate ex_net ?bad = Inl e" by (cases "Validate ex_net ?bad") auto
  with t [where s = ?bad and goos = "''linux''"] have "isl (GenerateConfig ex_net ''linux'' ?bad)" by simp
  with a ex_net_laws ex_net_addr ex_sessionSpec_valid show ?thesis by blast
qed

section \<open>The rules of the traffic inbound\<close>

text \<open>
  sing-box decides a connection by the first rule that matches it. How a rule matches is an argument;
  what is used of it is documented behaviour: a rule with an inbound or a user list matches only
  connections of these inbounds and users, and a rule with no condition beyond these and a list of
  ranges matches exactly the connections that meet them.
\<close>

fun decide :: "(routeRule \<Rightarrow> 'c \<Rightarrow> bool) \<Rightarrow> 'c \<Rightarrow> string \<Rightarrow> routeRule list \<Rightarrow> ruleAction" where
  "decide matches c final [] = Outbound final"
| "decide matches c final (r # rs) = (if matches r c then rr_action r else decide matches c final rs)"

definition rule_applies :: "('c \<Rightarrow> string) \<Rightarrow> ('c \<Rightarrow> string) \<Rightarrow> routeRule \<Rightarrow> 'c \<Rightarrow> bool" where
  "rule_applies inbound user r c \<longleftrightarrow>
     (rr_inbound r = [] \<or> inbound c \<in> set (rr_inbound r)) \<and> (rr_auth_user r = [] \<or> user c \<in> set (rr_auth_user r))"

definition rule_laws ::
  "(routeRule \<Rightarrow> 'c \<Rightarrow> bool) \<Rightarrow> ('c \<Rightarrow> string) \<Rightarrow> ('c \<Rightarrow> string) \<Rightarrow> ('c \<Rightarrow> string \<Rightarrow> bool) \<Rightarrow> bool" where
  "rule_laws matches inbound user inRange \<longleftrightarrow>
     (\<forall>r c. matches r c \<longrightarrow> rule_applies inbound user r c) \<and>
     (\<forall>r c. rr_domain r = [] \<and> rr_domain_suffix r = [] \<and> \<not> rr_ip_is_private r \<and> rr_protocol r = [] \<longrightarrow>
        matches r c = (rule_applies inbound user r c \<and> (rr_ip_cidr r = [] \<or> list_ex (inRange c) (rr_ip_cidr r))))"

lemma decide_append:
  "decide matches c final (xs @ ys) =
     (case find (\<lambda>r. matches r c) xs of Some r \<Rightarrow> rr_action r | None \<Rightarrow> decide matches c final ys)"
  by (induction xs) auto

lemma find_app: "find P (xs @ ys) = (case find P xs of Some x \<Rightarrow> Some x | None \<Rightarrow> find P ys)"
  by (induction xs) auto

lemma rule_laws_no:
  assumes "rule_laws matches inbound user inRange" "\<not> rule_applies inbound user r c"
  shows "\<not> matches r c"
  using assms by (auto simp: rule_laws_def)

lemma rule_laws_yes:
  assumes "rule_laws matches inbound user inRange"
    "rr_domain r = []" "rr_domain_suffix r = []" "\<not> rr_ip_is_private r" "rr_protocol r = []"
  shows "matches r c = (rule_applies inbound user r c \<and> (rr_ip_cidr r = [] \<or> list_ex (inRange c) (rr_ip_cidr r)))"
  using assms unfolding rule_laws_def by blast

lemma localRules_fields:
  "r \<in> set (localRules rts) \<Longrightarrow> rr_inbound r = [TrafficInbound] \<and> rr_auth_user r = localTrafficUsers \<and>
     rr_action r \<in> {Reject, Outbound LocalOutbound}"
  by (auto simp: localRules_def anyRule_def Let_def)

lemma localRules_catch:
  assumes laws: "rule_laws matches inbound user inRange" and c: "inbound c = TrafficInbound" "user c \<in> set localTrafficUsers"
  shows "\<exists>r. find (\<lambda>r. matches r c) (localRules rts) = Some r \<and>
    (list_ex (inRange c) rts \<longrightarrow> rr_action r = Reject) \<and> rr_action r \<in> {Reject, Outbound LocalOutbound}"
proof -
  let ?b = "(anyRule Reject)\<lparr>rr_inbound := [TrafficInbound], rr_auth_user := localTrafficUsers\<rparr>"
  let ?R = "map (\<lambda>route. ?b\<lparr>rr_ip_cidr := [route]\<rparr>) rts"
  have m: "matches (?b\<lparr>rr_ip_cidr := [route]\<rparr>) c = inRange c route" for route
    using rule_laws_yes [OF laws, of "?b\<lparr>rr_ip_cidr := [route]\<rparr>" c] c by (simp add: anyRule_def rule_applies_def)
  have last: "matches ?b c" using rule_laws_yes [OF laws, of ?b c] c by (simp add: anyRule_def rule_applies_def)
  have "?b \<in> set (localRules rts)" by (simp add: localRules_def Let_def)
  with last obtain r where r: "find (\<lambda>r. matches r c) (localRules rts) = Some r"
    by (metis find_None_iff option.exhaust)
  then have rin: "r \<in> set (localRules rts)" by (auto simp: find_Some_iff)
  have "rr_action r = Reject" if ex: "list_ex (inRange c) rts"
  proof -
    from ex have "\<exists>x \<in> set ?R. matches x c" using m by (auto simp: list_ex_iff)
    then obtain r' where r': "find (\<lambda>r. matches r c) ?R = Some r'" by (metis find_None_iff option.exhaust)
    then have "rr_action r' = Reject" by (auto simp: find_Some_iff anyRule_def)
    moreover have "\<exists>ys. localRules rts = ?R @ ys" by (simp add: localRules_def Let_def)
    with r' r have "r' = r" by (auto simp: find_app)
    ultimately show ?thesis by simp
  qed
  with r localRules_fields [OF rin] show ?thesis by blast
qed


text \<open>A matcher with the documented behaviour, on connections given by inbound, user and ranges.\<close>

definition ex_matches :: "routeRule \<Rightarrow> string \<times> string \<times> string list \<Rightarrow> bool" where
  "ex_matches r c \<longleftrightarrow> rule_applies fst (fst \<circ> snd) r c \<and>
     (rr_ip_cidr r = [] \<or> list_ex (\<lambda>p. p \<in> set (snd (snd c))) (rr_ip_cidr r)) \<and>
     rr_domain r = [] \<and> rr_domain_suffix r = [] \<and> \<not> rr_ip_is_private r \<and> rr_protocol r = []"


end
