(* ===== verification/CoreRuntime.thy ===== *)
theory CoreRuntime
  imports Singbox
begin

text \<open>
  The running core: \<^verbatim>\<open>internal/singbox/runtime\<close>. Choosing the address of the tunnel device
  (\<^verbatim>\<open>tun_address.go\<close>), the DNS proxy that expands short names (\<^verbatim>\<open>dns_search_proxy.go\<close>), and the
  process's view of its session and log (\<^verbatim>\<open>process.go\<close>). The DNS library is an argument: its messages
  are records of the parts the code touches, and an exchange with the upstream resolver is a function.
  A handler that panics is \<^term>\<open>None\<close>.
\<close>

section \<open>The address of the tunnel device\<close>

definition prefixOccupied :: "prefix \<Rightarrow> prefix list \<Rightarrow> bool" where
  "prefixOccupied candidate occupied \<longleftrightarrow>
     list_ex (\<lambda>existing0. Is4 (pfx_addr existing0) \<and>
        (let existing = Masked existing0 in
         Contains candidate (pfx_addr existing) \<or> Contains existing (pfx_addr candidate))) occupied"

text \<open>\<^verbatim>\<open>Addr.Next\<close>, below the last address of a family.\<close>

definition Next :: "addr \<Rightarrow> addr" where
  "Next a = with_nat a (addr_nat a + 1)"

definition tunCandidates :: "string list" where
  "tunCandidates =
     concat (map (\<lambda>secondOctet. concat (map (\<lambda>thirdOctet. map (\<lambda>i.
        ''198.'' @ itoa secondOctet @ ''.'' @ itoa thirdOctet @ ''.'' @ itoa (4 * i) @ ''/30'')
        [0..<64]) [0..<256])) [19, 18])"

fun selectLoop :: "netLib \<Rightarrow> prefix list \<Rightarrow> string list \<Rightarrow> string res" where
  "selectLoop lib occupied [] = Inl (Errorf ''no free TUN subnet is available in 198.18.0.0/15'')"
| "selectLoop lib occupied (raw # raws) =
     (case ParsePrefix lib raw of
        Inl e \<Rightarrow> Inl e
      | Inr p \<Rightarrow>
          (let candidate = Masked p in
           if \<not> prefixOccupied candidate occupied then Inr (addr_string (Next (pfx_addr candidate)) @ ''/30'')
           else selectLoop lib occupied raws))"

definition selectTUNAddressFrom :: "netLib \<Rightarrow> prefix list \<Rightarrow> string res" where
  "selectTUNAddressFrom lib occupied = selectLoop lib occupied tunCandidates"

text \<open>\<^verbatim>\<open>selectTUNAddress\<close>: the interfaces and their addresses are what the operating system answers.\<close>

definition selectTUNAddress :: "netLib \<Rightarrow> string list res list res \<Rightarrow> string res" where
  "selectTUNAddress lib interfaces =
     (case interfaces of
        Inl e \<Rightarrow> Inl (Wrapf ''list network interfaces: '' e)
      | Inr items \<Rightarrow>
          selectTUNAddressFrom lib
            (concat (map (\<lambda>addresses. case addresses of
               Inl e \<Rightarrow> []
             | Inr raws \<Rightarrow> List.map_filter (\<lambda>raw. case ParsePrefix lib raw of
                 Inl e \<Rightarrow> None
               | Inr p \<Rightarrow> if Is4 (pfx_addr p) then Some (Masked p) else None) raws) items)))"

section \<open>The DNS search proxy\<close>

record dnsRR =
  rr_Name :: string
  rr_Data :: string

record dnsQuestion =
  q_Name :: string
  q_Qtype :: nat

record dnsMsg =
  msg_Id :: nat
  msg_Rcode :: nat
  msg_Truncated :: bool
  msg_Question :: "dnsQuestion list"
  msg_Answer :: "dnsRR list"
  msg_Ns :: "dnsRR list"
  msg_Extra :: "dnsRR list"

definition RcodeSuccess :: nat where "RcodeSuccess = 0"
definition RcodeFormatError :: nat where "RcodeFormatError = 1"
definition RcodeServerFailure :: nat where "RcodeServerFailure = 2"
definition RcodeNameError :: nat where "RcodeNameError = 3"
definition TypeA :: nat where "TypeA = 1"

lemmas rcode_defs = RcodeSuccess_def RcodeFormatError_def RcodeServerFailure_def RcodeNameError_def

text \<open>\<^verbatim>\<open>new(dns.Msg).SetRcode(req, code)\<close>; \<^verbatim>\<open>SetReply\<close> is the code for success.\<close>

definition SetRcode :: "dnsMsg \<Rightarrow> nat \<Rightarrow> dnsMsg" where
  "SetRcode req code = \<lparr>msg_Id = msg_Id req, msg_Rcode = code, msg_Truncated = False,
     msg_Question = take 1 (msg_Question req), msg_Answer = [], msg_Ns = [], msg_Extra = []\<rparr>"

record dnsSearchProxy =
  px_search :: "string list"
  px_domains :: "string list"
  px_hosts :: "(string, addr option) kv"
  px_closed :: bool

definition newSearchProxy :: "netLib \<Rightarrow> string list \<Rightarrow> string list \<Rightarrow> dnsSearchProxy" where
  "newSearchProxy lib search clusterDomains =
     \<lparr>px_search = search,
      px_domains = (case NormalizeClusterDomains lib clusterDomains of Inl e \<Rightarrow> [DefaultClusterDomain] | Inr ds \<Rightarrow> ds),
      px_hosts = [], px_closed = False\<rparr>"

definition SetSearch :: "string list \<Rightarrow> dnsSearchProxy \<Rightarrow> dnsSearchProxy" where
  "SetSearch search p = p\<lparr>px_search := search\<rparr>"

definition SetClusterDomains :: "netLib \<Rightarrow> string list \<Rightarrow> dnsSearchProxy \<Rightarrow> dnsSearchProxy" where
  "SetClusterDomains lib domains p =
     p\<lparr>px_domains := (case NormalizeClusterDomains lib domains of Inl e \<Rightarrow> [DefaultClusterDomain] | Inr ds \<Rightarrow> ds)\<rparr>"

text \<open>\<^verbatim>\<open>net.ParseIP(host.IP).To4()\<close>.\<close>

definition to4 :: "addr option \<Rightarrow> addr option" where
  "to4 ip = (case ip of None \<Rightarrow> None | Some a \<Rightarrow> if Is4 (Unmap a) then Some (Unmap a) else None)"

text \<open>Every known name becomes a tombstone before the new aliases are entered.\<close>

definition putAliases :: "netLib \<Rightarrow> (string \<Rightarrow> string) \<Rightarrow> HostAlias list \<Rightarrow> (string, addr option) kv \<Rightarrow> (string, addr option) kv" where
  "putAliases lib fqdn hosts m =
     foldl (\<lambda>m host. case to4 (ParseIP lib (al_IP host)) of
        None \<Rightarrow> m | Some ip \<Rightarrow> kv_put (to_lower (fqdn (al_Domain host))) (Some ip) m) m hosts"

definition proxySetHostAliases :: "netLib \<Rightarrow> (string \<Rightarrow> string) \<Rightarrow> HostAlias list \<Rightarrow> dnsSearchProxy \<Rightarrow> dnsSearchProxy" where
  "proxySetHostAliases lib fqdn hosts p =
     p\<lparr>px_hosts := putAliases lib fqdn hosts (map (\<lambda>(name, _). (name, None)) (px_hosts p))\<rparr>"

definition has_suffix :: "string \<Rightarrow> string \<Rightarrow> bool" where
  "has_suffix s suf \<longleftrightarrow> length suf \<le> length s \<and> drop (length s - length suf) s = suf"

fun searchLoop :: "string \<Rightarrow> string list \<Rightarrow> string list \<Rightarrow> string list" where
  "searchLoop name out [] = out"
| "searchLoop name out (suffix0 # rest) =
     (let suffix = normDomain suffix0 in
      if suffix = [] then searchLoop name out rest
      else let candidate = name @ ''.'' @ suffix @ ''.'' in
           if candidate \<in> set out then searchLoop name out rest
           else searchLoop name (out @ [candidate]) rest)"

definition dnsSearchCandidates :: "netLib \<Rightarrow> string \<Rightarrow> string list \<Rightarrow> string list \<Rightarrow> string list" where
  "dnsSearchCandidates lib qname search clusterDomains =
     (let name = normDomain qname in
      if name = [] then []
      else
        let original = name @ ''.'';
            domains = domainsOrDefault lib clusterDomains in
        if list_ex (\<lambda>domain. name = domain \<or> has_suffix name (''.'' @ domain)) domains then [original]
        else if has_suffix name ''.in-addr.arpa'' \<or> has_suffix name ''.ip6.arpa'' then [original]
        else let out = searchLoop name [] search in
             if original \<in> set out then out else out @ [original])"

definition equalDNSName :: "string \<Rightarrow> string \<Rightarrow> bool" where
  "equalDNSName left right \<longleftrightarrow> to_lower (trim_suffix left ''.'') = to_lower (trim_suffix right ''.'')"

definition rewriteRRNames :: "string \<Rightarrow> string \<Rightarrow> dnsRR list \<Rightarrow> dnsRR list" where
  "rewriteRRNames from0 to records =
     map (\<lambda>rr. if equalDNSName (rr_Name rr) from0 then rr\<lparr>rr_Name := to\<rparr> else rr) records"

definition rewriteDNSNames :: "dnsMsg \<Rightarrow> string \<Rightarrow> string \<Rightarrow> dnsMsg" where
  "rewriteDNSNames msg from0 to =
     (if from0 = [] \<or> to = [] \<or> equalDNSName from0 to then msg
      else msg\<lparr>msg_Question := map (\<lambda>q. if equalDNSName (q_Name q) from0 then q\<lparr>q_Name := to\<rparr> else q) (msg_Question msg),
        msg_Answer := rewriteRRNames from0 to (msg_Answer msg), msg_Ns := rewriteRRNames from0 to (msg_Ns msg),
        msg_Extra := rewriteRRNames from0 to (msg_Extra msg)\<rparr>)"

text \<open>
  An exchange with the upstream resolver over UDP or TCP, \<^term>\<open>True\<close> for TCP; an answer may be nil. A
  truncated answer over UDP is asked for again over TCP.
\<close>

type_synonym exchanger = "bool \<Rightarrow> dnsMsg \<Rightarrow> dnsMsg option res"

definition exchange :: "exchanger \<Rightarrow> bool \<Rightarrow> dnsMsg \<Rightarrow> dnsMsg option res" where
  "exchange ex tcp req =
     (case ex tcp req of
        Inr (Some resp) \<Rightarrow> if msg_Truncated resp \<and> \<not> tcp then ex True req else Inr (Some resp)
      | r \<Rightarrow> r)"

text \<open>The loop over the candidates. \<^verbatim>\<open>fid\<close> is the random identifier of a forwarded query.\<close>

datatype served = Answered dnsMsg | LastSeen "dnsMsg option"

fun candidateLoop :: "exchanger \<Rightarrow> bool \<Rightarrow> nat \<Rightarrow> dnsMsg \<Rightarrow> string \<Rightarrow> dnsMsg option \<Rightarrow> string list \<Rightarrow> served" where
  "candidateLoop ex tcp fid req original last0 [] = LastSeen last0"
| "candidateLoop ex tcp fid req original last0 (candidate # rest) =
     (let q = msg_Question req;
          forward = req\<lparr>msg_Id := fid, msg_Question := (hd q)\<lparr>q_Name := candidate\<rparr> # tl q\<rparr> in
      case exchange ex tcp forward of
        Inr (Some resp) \<Rightarrow>
          if msg_Rcode resp \<noteq> RcodeSuccess then candidateLoop ex tcp fid req original (Some resp) rest
          else if msg_Answer resp = [] \<and> \<not> equalDNSName candidate original
          then candidateLoop ex tcp fid req original (Some resp) rest
          else Answered (rewriteDNSNames (resp\<lparr>msg_Id := msg_Id req\<rparr>) candidate original)
      | _ \<Rightarrow> candidateLoop ex tcp fid req original last0 rest)"

definition serveDNS :: "netLib \<Rightarrow> exchanger \<Rightarrow> bool \<Rightarrow> nat \<Rightarrow> dnsSearchProxy \<Rightarrow> dnsMsg \<Rightarrow> dnsMsg option" where
  "serveDNS lib ex tcp fid p req =
     (if msg_Question req = [] then Some (SetRcode req RcodeFormatError)
      else
        let question = hd (msg_Question req); original = q_Name question in
        case kv_get (px_hosts p) (to_lower original) of
          Some hostIP \<Rightarrow>
            Some (case hostIP of
                    Some ip \<Rightarrow>
                      if q_Qtype question = TypeA
                      then (SetRcode req RcodeSuccess)\<lparr>msg_Answer := [\<lparr>rr_Name = original, rr_Data = addr_string ip\<rparr>]\<rparr>
                      else SetRcode req RcodeSuccess
                  | None \<Rightarrow> SetRcode req RcodeNameError)
        | None \<Rightarrow>
            (case candidateLoop ex tcp fid req original None (dnsSearchCandidates lib original (px_search p) (px_domains p)) of
               Answered out \<Rightarrow> Some out
             | LastSeen (Some last0) \<Rightarrow>
                 if msg_Question last0 = [] then None
                 else Some (rewriteDNSNames (last0\<lparr>msg_Id := msg_Id req\<rparr>) (q_Name (hd (msg_Question last0))) original)
             | LastSeen None \<Rightarrow> Some (SetRcode req RcodeServerFailure)))"

section \<open>The process\<close>

record Process =
  pr_spec :: SessionSpec
  pr_resolverDomains :: "string list"
  pr_dnsProxy :: "dnsSearchProxy option"
  pr_logOffset :: int
  pr_logPending :: string

type_synonym dnsUpdater = "string \<Rightarrow> DNSMeta \<Rightarrow> goerr option"

text \<open>\<^verbatim>\<open>UpdateDNSNamespace\<close> and \<^verbatim>\<open>UpdateHostAliases\<close>: the result of the helper is the result of the call.\<close>

definition pushDNS :: "dnsUpdater option \<Rightarrow> string \<Rightarrow> DNSMeta \<Rightarrow> goerr option" where
  "pushDNS updateDNS sessionID dns =
     (case updateDNS of
        None \<Rightarrow> Some (Errorf ''privileged DNS update is unavailable; reconnect to apply'')
      | Some f \<Rightarrow> f sessionID dns)"

definition UpdateDNSNamespace :: "netLib \<Rightarrow> dnsUpdater option \<Rightarrow> string \<Rightarrow> Process \<Rightarrow> goerr option \<times> Process" where
  "UpdateDNSNamespace lib updateDNS namespace0 p =
     (let namespace1 = trim_space namespace0;
          namespace = (if namespace1 = [] then ''default'' else namespace1);
          nextSpec = (pr_spec p)\<lparr>ss_DNSNamespace := namespace, ss_Namespace := namespace\<rparr> in
      case DNS lib nextSpec of
        Inl e \<Rightarrow> (Some e, p)
      | Inr dns \<Rightarrow>
          (pushDNS updateDNS (ss_ID nextSpec) dns,
           p\<lparr>pr_spec := nextSpec, pr_resolverDomains := dm_Domains dns,
             pr_dnsProxy := map_option (SetClusterDomains lib (ss_ClusterDomains nextSpec) \<circ> SetSearch (dm_Search dns)) (pr_dnsProxy p)\<rparr>))"

definition UpdateHostAliases :: "netLib \<Rightarrow> (string \<Rightarrow> string) \<Rightarrow> dnsUpdater option \<Rightarrow> HostAlias list \<Rightarrow> Process \<Rightarrow> goerr option \<times> Process" where
  "UpdateHostAliases lib fqdn updateDNS hosts p =
     (case NormalizeHostAliases lib hosts of
        Inl e \<Rightarrow> (Some e, p)
      | Inr normalized \<Rightarrow>
          (let nextSpec = (pr_spec p)\<lparr>ss_Hosts := normalized\<rparr> in
           case DNS lib nextSpec of
             Inl e \<Rightarrow> (Some e, p)
           | Inr dnsMeta \<Rightarrow>
               (pushDNS updateDNS (ss_ID nextSpec) dnsMeta,
                p\<lparr>pr_spec := nextSpec, pr_resolverDomains := dm_Domains dnsMeta,
                  pr_dnsProxy := map_option (proxySetHostAliases lib fqdn normalized) (pr_dnsProxy p)\<rparr>)))"

definition probeName :: "Process \<Rightarrow> string" where
  "probeName p =
     (let domains = (if ss_ClusterDomains (pr_spec p) = [] then [DefaultClusterDomain] else ss_ClusterDomains (pr_spec p))
      in ''kubernetes.default.svc.'' @ hd domains @ ''.'')"

text \<open>\<^verbatim>\<open>ReadLogs\<close>: a smaller offset than before means that the log file was replaced.\<close>

definition ReadLogs :: "(string \<Rightarrow> int \<Rightarrow> (string \<times> int) res) option \<Rightarrow> Process \<Rightarrow> string list res \<times> Process" where
  "ReadLogs readLogs p =
     (case readLogs of
        None \<Rightarrow> (Inl (Errorf ''privileged log reader is unavailable''), p)
      | Some f \<Rightarrow>
          (case f (ss_ID (pr_spec p)) (pr_logOffset p) of
             Inl e \<Rightarrow> (Inl e, p)
           | Inr (data0, nextOffset) \<Rightarrow>
               (let pending0 = (if nextOffset < pr_logOffset p then [] else pr_logPending p);
                    data = pending0 @ data0;
                    parts = split_on (CHR 0x0A) data;
                    rest = (if \<not> has_suffix data [CHR 0x0A] then last parts else [])
                in (Inr (butlast parts), p\<lparr>pr_logOffset := nextOffset, pr_logPending := rest\<rparr>))))"

section \<open>Log lines\<close>

definition unlines :: "string list \<Rightarrow> string" where
  "unlines ls = concat (map (\<lambda>l. l @ [CHR 0x0A]) ls)"

lemma split_on_join: "unlines (butlast (split_on (CHR 0x0A) s)) @ last (split_on (CHR 0x0A) s) = s"
proof (induction s)
  case (Cons x s)
  obtain w ws where w: "split_on (CHR 0x0A) s = w # ws" by (metis split_on_nonempty neq_Nil_conv)
  with Cons show ?case by (cases ws) (auto simp: unlines_def)
qed (simp add: unlines_def)

lemma split_on_no_sep: "w \<in> set (split_on c s) \<Longrightarrow> c \<notin> set w"
  by (induction s arbitrary: w) (auto split: list.splits if_splits)

lemma has_suffix_nl: "has_suffix s [c] \<longleftrightarrow> s \<noteq> [] \<and> last s = c"
  by (cases s rule: rev_cases) (auto simp: has_suffix_def)

lemma split_on_ends:
  assumes "has_suffix s [c]"
  shows "last (split_on c s) = []"
proof -
  from assms obtain t where t: "s = t @ [c]" unfolding has_suffix_nl by (metis append_butlast_last_id)
  have "last (split_on c (t @ [c])) = []"
  proof (induction t)
    case (Cons x t)
    obtain w ws where w: "split_on c (t @ [c]) = w # ws" by (metis split_on_nonempty neq_Nil_conv)
    have "ws \<noteq> []"
    proof -
      from split_on_trailing [of "t @ [c]" c] obtain w' ws' where "split_on c (t @ [c]) = w' # ws'" "[] \<in> set ws'" by auto
      with w show ?thesis by auto
    qed
    with w Cons show ?case by auto
  qed simp
  with t show ?thesis by simp
qed

lemma ReadLogs_step:
  assumes "f (ss_ID (pr_spec p)) (pr_logOffset p) = Inr (chunk, next0)" "pr_logOffset p \<le> next0"
  shows "\<exists>ls p'. ReadLogs (Some f) p = (Inr ls, p') \<and> pr_logPending p @ chunk = unlines ls @ pr_logPending p' \<and>
    pr_logOffset p' = next0 \<and> pr_spec p' = pr_spec p \<and> (\<forall>l \<in> set ls. CHR 0x0A \<notin> set l) \<and> CHR 0x0A \<notin> set (pr_logPending p')"
proof -
  let ?d = "pr_logPending p @ chunk"
  let ?parts = "split_on (CHR 0x0A) ?d"
  let ?rest = "if \<not> has_suffix ?d [CHR 0x0A] then last ?parts else []"
  have "?rest = last ?parts" using split_on_ends [of ?d "CHR 0x0A"] by auto
  moreover have "ReadLogs (Some f) p = (Inr (butlast ?parts), p\<lparr>pr_logOffset := next0, pr_logPending := ?rest\<rparr>)"
    using assms by (simp add: ReadLogs_def Let_def)
  moreover have "\<forall>l \<in> set (butlast ?parts). CHR 0x0A \<notin> set l" "CHR 0x0A \<notin> set (last ?parts)"
    using split_on_no_sep [of _ "CHR 0x0A" ?d] split_on_nonempty by (metis in_set_butlastD) (metis last_in_set split_on_nonempty split_on_no_sep)
  ultimately show ?thesis using split_on_join [of ?d] by simp
qed

text \<open>A log that only grows, read in any number of steps of any sz.\<close>

fun readAll :: "nat \<Rightarrow> (nat \<Rightarrow> string \<Rightarrow> int \<Rightarrow> (string \<times> int) res) \<Rightarrow> Process \<Rightarrow> string list \<times> Process" where
  "readAll 0 f p = ([], p)"
| "readAll (Suc n) f p =
     (case readAll n f p of (ls, p1) \<Rightarrow>
        case ReadLogs (Some (f n)) p1 of (Inl e, p2) \<Rightarrow> (ls, p2) | (Inr ms, p2) \<Rightarrow> (ls @ ms, p2))"

definition logChunks :: "string \<Rightarrow> (nat \<Rightarrow> nat) \<Rightarrow> nat \<Rightarrow> string \<Rightarrow> int \<Rightarrow> (string \<times> int) res" where
  "logChunks log sz n i offset =
     (let k = min (length log) (nat offset + sz n) in Inr (take (k - nat offset) (drop (nat offset) log), int k))"

text \<open>
  The log lines of the running core: however the log is cut into reads, the lines returned so far
  and the pending rest are exactly the part of the log that was read, every returned line is a whole
  line, and nothing is returned twice.
\<close>

theorem log_lines_reassembled:
  assumes "pr_logOffset p = 0" "pr_logPending p = []"
  shows "case readAll n (logChunks log sz) p of (ls, p') \<Rightarrow>
    unlines ls @ pr_logPending p' = take (nat (pr_logOffset p')) log \<and> list_all (\<lambda>l. CHR 0x0A \<notin> set l) ls \<and>
    CHR 0x0A \<notin> set (pr_logPending p')"
proof -
  have "\<exists>ls p'. readAll n (logChunks log sz) p = (ls, p') \<and> 0 \<le> pr_logOffset p' \<and> nat (pr_logOffset p') \<le> length log \<and>
    unlines ls @ pr_logPending p' = take (nat (pr_logOffset p')) log \<and> list_all (\<lambda>l. CHR 0x0A \<notin> set l) ls \<and>
    CHR 0x0A \<notin> set (pr_logPending p')"
  proof (induction n)
    case (Suc n)
    then obtain ls p1 where p1: "readAll n (logChunks log sz) p = (ls, p1)" "0 \<le> pr_logOffset p1"
      "nat (pr_logOffset p1) \<le> length log" "unlines ls @ pr_logPending p1 = take (nat (pr_logOffset p1)) log"
      "list_all (\<lambda>l. CHR 0x0A \<notin> set l) ls" by blast
    let ?o = "nat (pr_logOffset p1)" and ?k = "min (length log) (nat (pr_logOffset p1) + sz n)"
    let ?c = "take (?k - ?o) (drop ?o log)"
    have f: "logChunks log sz n (ss_ID (pr_spec p1)) (pr_logOffset p1) = Inr (?c, int ?k)"
      by (simp add: logChunks_def Let_def)
    have "pr_logOffset p1 \<le> int ?k" using p1(2,3) by simp
    from ReadLogs_step [where f = "logChunks log sz n", OF f this] obtain ms p2 where p2: "ReadLogs (Some (logChunks log sz n)) p1 = (Inr ms, p2)"
      "pr_logPending p1 @ ?c = unlines ms @ pr_logPending p2" "pr_logOffset p2 = int ?k" "\<forall>l \<in> set ms. CHR 0x0A \<notin> set l"
      "CHR 0x0A \<notin> set (pr_logPending p2)" by blast
    have "take ?k log = take ?o log @ ?c" using p1(3) by (metis le_add_diff_inverse min.boundedI le_add1 take_add)
    also have "\<dots> = unlines (ls @ ms) @ pr_logPending p2" using p1(4) p2(2) by (metis (no_types) append.assoc unlines_def map_append concat_append)
    finally have "unlines (ls @ ms) @ pr_logPending p2 = take (nat (pr_logOffset p2)) log" using p2(3) by simp
    with p1(1,5) p2 show ?case by (auto simp: list_all_iff)
  qed (use assms in \<open>simp add: unlines_def\<close>)
  then show ?thesis by auto
qed

section \<open>The chosen tunnel address is free\<close>

definition overlap :: "prefix \<Rightarrow> prefix \<Rightarrow> bool" where
  "overlap p q \<longleftrightarrow> (\<exists>a. Contains p a \<and> Contains q a)"

lemma overlap_iff:
  assumes "prefix_ok p" "prefix_ok q"
  shows "overlap p q \<longleftrightarrow> Contains p (pfx_addr q) \<or> Contains q (pfx_addr p)"
proof
  assume "overlap p q"
  then obtain a where a: "Contains p a" "Contains q a" by (auto simp: overlap_def)
  have key: "Contains r (pfx_addr r')" if r: "Contains r a" "Contains r' a" "pfx_bits r \<le> pfx_bits r'" "prefix_ok r'" for r r'
  proof -
    have i: "Is4 a = Is4 (pfx_addr r')" "Is4 (pfx_addr r) = Is4 a" using r by (simp_all add: Contains_def)
    have "pfx_bits r' \<le> BitLen a" using r(4) i by (simp add: prefix_ok_def BitLen_Is4)
    from top_bits_mono [OF r(3) this i(1)] r(1,2) i show ?thesis by (simp add: Contains_def)
  qed
  show "Contains p (pfx_addr q) \<or> Contains q (pfx_addr p)"
    using key [of p q] key [of q p] a assms by (cases "pfx_bits p \<le> pfx_bits q") auto
qed (auto simp: overlap_def intro: Contains_self)

lemma overlap_Masked [simp]: "overlap p (Masked q) = overlap p q"
  by (simp add: overlap_def)

lemma prefixOccupied_iff:
  assumes "prefix_ok c" "Is4 (pfx_addr c)" "\<forall>q \<in> set occupied. prefix_ok q"
  shows "prefixOccupied c occupied \<longleftrightarrow> (\<exists>q \<in> set occupied. overlap c q)"
proof -
  have "Is4 (pfx_addr q) \<and> (Contains c (pfx_addr (Masked q)) \<or> Contains (Masked q) (pfx_addr c)) \<longleftrightarrow> overlap c q"
    if "q \<in> set occupied" for q
  proof -
    have "prefix_ok (Masked q)" using assms(3) that by (simp add: prefix_ok_def)
    from overlap_iff [OF assms(1) this] show ?thesis using assms(2) by (auto simp: overlap_def Contains_def)
  qed
  then show ?thesis by (auto simp: prefixOccupied_def list_ex_iff Let_def)
qed

text \<open>The candidates are the /30 subnets of 198.18.0.0/15.\<close>

definition tunNet :: "nat \<Rightarrow> nat \<Rightarrow> nat \<Rightarrow> prefix" where
  "tunNet s t i = PrefixFrom (V4 (word_of_nat (((198 * 256 + s) * 256 + t) * 256 + 4 * i))) 30"

definition tunNets :: "prefix list" where
  "tunNets = concat (map (\<lambda>s. concat (map (\<lambda>t. map (\<lambda>i. tunNet s t i) [0..<64]) [0..<256])) [19, 18])"

lemma unat_u32: "n < 2 ^ 32 \<Longrightarrow> unat (word_of_nat n :: u32) = n"
  by (simp add: unat_of_nat)

lemma tunNet_nat:
  assumes "s < 256" "t < 256" "i < 64"
  shows "addr_nat (pfx_addr (tunNet s t i)) = ((198 * 256 + s) * 256 + t) * 256 + 4 * i"
proof -
  let ?n = "((198 * 256 + s) * 256 + t) * 256 + 4 * i"
  have "?n < 2 ^ 32" using assms by simp
  then show ?thesis unfolding tunNet_def PrefixFrom_def prefix.simps addr_nat.simps by (rule unat_u32)
qed

lemma tunNet_string:
  assumes "s < 256" "t < 256" "i < 64"
  shows "prefix_string (tunNet s t i) = ''198.'' @ itoa s @ ''.'' @ itoa t @ ''.'' @ itoa (4 * i) @ ''/30''"
proof -
  let ?a = "pfx_addr (tunNet s t i)"
  note n = tunNet_nat [OF assms]
  have L: "BitLen ?a = 32" by (simp add: tunNet_def PrefixFrom_def)
  have o: "octet ?a 0 = 198" "octet ?a 1 = s" "octet ?a 2 = t" "octet ?a 3 = 4 * i"
  proof -
    have dm: "(x * 256 + y) div 256 = x" "(x * 256 + y) mod 256 = y" if "y < 256" for x y :: nat using that by simp_all
    have i: "4 * i < 256" using assms by simp
    have p: "(2::nat) ^ (32 - 8 * (0 + 1)) = 256 * 256 * 256" "(2::nat) ^ (32 - 8 * (1 + 1)) = 256 * 256"
      "(2::nat) ^ (32 - 8 * (2 + 1)) = 256" "(2::nat) ^ (32 - 8 * (3 + 1)) = 1" by simp_all
    show "octet ?a 0 = 198" "octet ?a 1 = s" "octet ?a 2 = t" "octet ?a 3 = 4 * i"
      unfolding octet_def n L p div_mult2_eq div_by_1 dm [OF i] dm [OF assms(2)] dm [OF assms(1)] by simp_all
  qed
  have "addr_string ?a = v4_string ?a" by (simp add: tunNet_def PrefixFrom_def)
  moreover have "pfx_bits (tunNet s t i) = 30" by (simp add: tunNet_def PrefixFrom_def)
  moreover have "itoa 198 = ''198''" "itoa 30 = ''30''" by (simp_all add: itoa.simps char_of_digit)
  ultimately show ?thesis by (simp add: prefix_string_def v4_string_def o [unfolded One_nat_def])
qed

lemma tunCandidates_eq: "tunCandidates = map prefix_string tunNets"
proof -
  let ?str = "\<lambda>s t i. ''198.'' @ itoa s @ ''.'' @ itoa t @ ''.'' @ itoa (4 * i) @ ''/30''"
  have one: "concat (map (\<lambda>t. map (?str s t) [0..<64]) [0..<256]) =
      concat (map (\<lambda>t. map (\<lambda>i. prefix_string (tunNet s t i)) [0..<64]) [0..<256])" if "s < 256" for s
    using tunNet_string [OF that] by (intro arg_cong [where f = concat] map_cong refl) (simp del: upt_Suc)
  show ?thesis unfolding tunCandidates_def tunNets_def list.map map_concat map_map concat.simps map_append comp_def
    using one [of 18] one [of 19] by simp
qed

lemma set_tunNets: "p \<in> set tunNets \<longleftrightarrow> (\<exists>s t i. s \<in> {18, 19} \<and> t < 256 \<and> i < 64 \<and> p = tunNet s t i)"
proof -
  have one: "p \<in> set (concat (map (\<lambda>t. map (tunNet s t) [0..<64]) [0..<256])) \<longleftrightarrow> (\<exists>t i. t < 256 \<and> i < 64 \<and> p = tunNet s t i)" for s
  proof -
    have "p \<in> set (concat (map (\<lambda>t. map (tunNet s t) [0..<64]) [0..<256])) \<longleftrightarrow> (\<exists>t \<in> {0..<256}. p \<in> tunNet s t ` {0..<64})"
      by (simp only: set_concat set_map set_upt image_image UN_iff)
    then show ?thesis unfolding image_iff Bex_def atLeastLessThan_iff by blast
  qed
  show ?thesis unfolding tunNets_def list.map concat.simps append_Nil2 set_append Un_iff one by blast
qed

lemma tunNet_fields: "Is4 (pfx_addr (tunNet s t i))" "pfx_bits (tunNet s t i) = 30" "BitLen (pfx_addr (tunNet s t i)) = 32"
  "prefix_ok (tunNet s t i)"
  by (simp_all add: tunNet_def PrefixFrom_def prefix_ok_def)

lemma V4_of_Is4: "Is4 a \<Longrightarrow> a = V4 (word_of_nat (addr_nat a))"
  by (cases a) simp_all

lemma Contains_tunNet:
  assumes "s < 256" "t < 256" "i < 64"
  shows "Contains (tunNet s t i) a \<longleftrightarrow> Is4 a \<and> addr_nat a div 4 = ((198 * 256 + s) * 256 + t) * 64 + i"
proof -
  have "(((198 * 256 + s) * 256 + t) * 256 + 4 * i) div 4 = ((198 * 256 + s) * 256 + t) * 64 + i" by simp
  then show ?thesis
    using tunNet_nat [OF assms] tunNet_fields [of s t i] by (auto simp: Contains_def top_bits_def BitLen_Is4)
qed

lemma Contains_benchmark: "Contains benchmark a \<longleftrightarrow> Is4 a \<and> addr_nat a div 131072 = 25353"
  by (auto simp: benchmark_def Contains_def top_bits_def PrefixFrom_def BitLen_Is4)

lemma tunNets_cover:
  assumes "Contains benchmark a"
  shows "\<exists>p \<in> set tunNets. Contains p a"
proof -
  let ?n = "addr_nat a"
  have n: "Is4 a" "?n div 131072 = 25353" using assms by (simp_all add: Contains_benchmark)
  define x where "x = ?n div 65536"
  define s t i where "s = x mod 256" and "t = ?n div 256 mod 256" and "i = ?n div 4 mod 64"
  have "x div 2 = 25353" using n(2) by (simp add: x_def flip: div_mult2_eq)
  then have x: "x = 50706 \<or> x = 50707" by linarith
  then have b: "s \<in> {18, 19}" "t < 256" "i < 64" by (auto simp: s_def t_def i_def)
  have "?n div 256 div 256 = x" "?n div 4 div 64 = ?n div 256" by (simp_all add: x_def flip: div_mult2_eq)
  moreover have "198 * 256 + s = x" using x by (auto simp: s_def)
  ultimately have "?n div 256 = (198 * 256 + s) * 256 + t" "?n div 4 = ?n div 256 * 64 + i"
    using div_mult_mod_eq [of "?n div 256" 256] div_mult_mod_eq [of "?n div 4" 64] unfolding t_def i_def by metis+
  then have "?n div 4 = ((198 * 256 + s) * 256 + t) * 64 + i" by simp
  moreover have "s < 256" using b(1) by auto
  ultimately have "Contains (tunNet s t i) a" using Contains_tunNet b(2,3) n(1) by blast
  then show ?thesis using b set_tunNets by blast
qed

text \<open>The first host of a candidate.\<close>

lemma tunNet_host:
  assumes "p \<in> set tunNets"
  shows "tunHost (PrefixFrom (Next (pfx_addr p)) 30)" "prefix_ok (PrefixFrom (Next (pfx_addr p)) 30)"
    "Is4 (Next (pfx_addr p))" "\<And>q. overlap (PrefixFrom (Next (pfx_addr p)) 30) q = overlap p q" "Masked p = p"
proof -
  from assms obtain s t i where p: "s \<in> {18, 19}" "s < 256" "t < 256" "i < 64" "p = tunNet s t i"
    using set_tunNets by fastforce
  let ?a = "Next (pfx_addr p)" and ?n = "((198 * 256 + s) * 256 + t) * 256 + 4 * i"
  note n = tunNet_nat [OF p(2-4), folded p(5)] and f = tunNet_fields [of s t i, folded p(5)]
  have "?n + 1 < 2 ^ 32" using p by auto
  then have a: "addr_nat ?a = ?n + 1" using n f(3) by (simp add: Next_def addr_nat_with_nat)
  show is4: "Is4 ?a" using f(1) by (simp add: Next_def)
  show "prefix_ok (PrefixFrom ?a 30)" using is4 by (simp add: prefix_ok_def PrefixFrom_def BitLen_Is4)
  have div4: "(?n + 1) div 4 = ?n div 4" "?n div 4 * 4 = ?n"
  proof -
    obtain m where "m = ((198 * 256 + s) * 256 + t) * 64 + i" by simp
    then have "?n = 4 * m" by simp
    then show "(?n + 1) div 4 = ?n div 4" "?n div 4 * 4 = ?n" by simp_all
  qed
  have m: "addr_nat (pfx_addr (Masked (PrefixFrom ?a 30))) = ?n"
    using is4 a div4 by (simp add: addr_nat_Masked PrefixFrom_def BitLen_Is4 del: div_mult_self1_is_m)
  have "Contains benchmark ?a"
  proof -
    have "25353 * 131072 \<le> ?n + 1" "?n + 1 < 131072 * Suc 25353" using p(1,3,4) by auto
    then have "(?n + 1) div 131072 = 25353" by (intro div_nat_eqI) simp_all
    then show ?thesis using is4 a by (simp add: Contains_benchmark)
  qed
  moreover have "?a \<noteq> pfx_addr (Masked (PrefixFrom ?a 30))" using m a by (metis Suc_eq_plus1 n_not_Suc_n)
  ultimately show "tunHost (PrefixFrom ?a 30)" using is4 by (simp add: tunHost_def PrefixFrom_def)
  have "Contains (PrefixFrom ?a 30) x = Contains p x" for x
    using f is4 a n div4(1) by (auto simp: Contains_def PrefixFrom_def top_bits_def BitLen_Is4)
  then show "overlap (PrefixFrom ?a 30) q = overlap p q" for q by (simp add: overlap_def)
  have "addr_nat (pfx_addr (Masked p)) = addr_nat (pfx_addr p)"
    using f n div4(2) by (simp add: addr_nat_Masked)
  then have "pfx_addr (Masked p) = pfx_addr p" by (intro addr_eqI) simp_all
  then show "Masked p = p" by simp
qed

text \<open>What is asked of \<^verbatim>\<open>netip.ParsePrefix\<close> here: it reads back a printed IPv4 prefix.\<close>

definition reads_back :: "netLib \<Rightarrow> bool" where
  "reads_back lib \<longleftrightarrow> (\<forall>p. prefix_ok p \<and> Is4 (pfx_addr p) \<longrightarrow> ParsePrefix lib (prefix_string p) = Inr p)"

lemma selectLoop_find:
  assumes "reads_back lib" "set nets \<subseteq> set tunNets"
  shows "selectLoop lib occupied (map prefix_string nets) =
    (case find (\<lambda>p. \<not> prefixOccupied p occupied) nets of
       Some p \<Rightarrow> Inr (addr_string (Next (pfx_addr p)) @ ''/30'')
     | None \<Rightarrow> Inl (Errorf ''no free TUN subnet is available in 198.18.0.0/15''))"
  using assms(2)
proof (induction nets)
  case (Cons p nets)
  then obtain s t i where p: "p = tunNet s t i" using set_tunNets by fastforce
  have "ParsePrefix lib (prefix_string p) = Inr p"
    using assms(1) tunNet_fields [of s t i, folded p] by (simp add: reads_back_def)
  with Cons tunNet_host(5) [of p] show ?case by (simp add: Let_def)
qed simp

text \<open>
  The address of the tunnel device: \<^verbatim>\<open>selectTUNAddressFrom\<close> returns the first host of a /30 subnet of
  198.18.0.0/15, in the form that the check of the session specification accepts, and that subnet
  overlaps no range of the machine's interfaces; it fails only when every /30 subnet of the block
  overlaps one.
\<close>

theorem tun_address_is_free:
  assumes "reads_back lib" "list_all prefix_ok occupied"
  shows "case selectTUNAddressFrom lib occupied of
      Inr s \<Rightarrow> (\<exists>a. s = addr_string a @ ''/30'' \<and> ParsePrefix lib s = Inr (PrefixFrom a 30) \<and>
         tunHost (PrefixFrom a 30) \<and> \<not> list_ex (overlap (PrefixFrom a 30)) occupied)
    | Inl e \<Rightarrow> (\<forall>a. Contains benchmark a \<longrightarrow> list_ex (overlap (PrefixFrom a 30)) occupied)"
proof -
  have occ: "prefixOccupied p occupied \<longleftrightarrow> list_ex (overlap p) occupied" if "p \<in> set tunNets" for p
  proof -
    from that obtain s t i where "p = tunNet s t i" using set_tunNets by fastforce
    then show ?thesis
      using prefixOccupied_iff [of p occupied] tunNet_fields [of s t i] assms(2) by (simp add: list_all_iff list_ex_iff)
  qed
  note sel = selectLoop_find [OF assms(1) subset_refl, of occupied, folded tunCandidates_eq, folded selectTUNAddressFrom_def]
  show ?thesis
  proof (cases "find (\<lambda>p. \<not> prefixOccupied p occupied) tunNets")
    case None
    have "list_ex (overlap (PrefixFrom a 30)) occupied" if a: "Contains benchmark a" for a
    proof -
      from tunNets_cover [OF a] obtain p where p: "p \<in> set tunNets" "Contains p a" by blast
      with None occ have "list_ex (overlap p) occupied" by (auto simp: find_None_iff)
      moreover from p obtain s t i where "p = tunNet s t i" using set_tunNets by fastforce
      with p(2) tunNet_fields [of s t i] have "Contains (PrefixFrom a 30) x = Contains p x" for x
        by (auto simp: Contains_def PrefixFrom_def)
      ultimately show ?thesis by (simp add: overlap_def list_ex_iff)
    qed
    with None sel show ?thesis by simp
  next
    case (Some p)
    then have p: "p \<in> set tunNets" "\<not> prefixOccupied p occupied" by (auto simp: find_Some_iff)
    let ?a = "Next (pfx_addr p)"
    note h = tunNet_host [OF p(1)]
    have "addr_string ?a @ ''/30'' = prefix_string (PrefixFrom ?a 30)"
      by (simp add: prefix_string_def PrefixFrom_def itoa.simps char_of_digit)
    moreover have "ParsePrefix lib (prefix_string (PrefixFrom ?a 30)) = Inr (PrefixFrom ?a 30)"
      using assms(1) h(2,3) by (simp add: reads_back_def PrefixFrom_def)
    moreover have "\<not> list_ex (overlap (PrefixFrom ?a 30)) occupied" using occ [OF p(1)] p(2) h(4) by (simp add: list_ex_iff)
    ultimately have "\<exists>a. addr_string ?a @ ''/30'' = addr_string a @ ''/30'' \<and> ParsePrefix lib (addr_string ?a @ ''/30'') = Inr (PrefixFrom a 30) \<and>
       tunHost (PrefixFrom a 30) \<and> \<not> list_ex (overlap (PrefixFrom a 30)) occupied"
      using h(1) by (intro exI [of _ ?a]) simp
    then show ?thesis unfolding sel Some option.case sum.case .
  qed
qed

lemma ex_net_reads: "reads_back ex_net"
  using parse_prefix4_string by (simp add: reads_back_def ex_net_def)

theorem tun_address_is_free_witness:
  "reads_back ex_net \<and> (\<exists>a. selectTUNAddressFrom ex_net [PrefixFrom (V4 0xC6130000) 16] = Inr (addr_string a @ ''/30'') \<and>
     tunHost (PrefixFrom a 30) \<and> \<not> overlap (PrefixFrom a 30) (PrefixFrom (V4 0xC6130000) 16))"
proof -
  let ?occ = "PrefixFrom (V4 0xC6130000) 16" and ?free = "V4 0xC6120001"
  have ok: "prefix_ok ?occ" "prefix_ok (PrefixFrom ?free 30)" by (simp_all add: prefix_ok_def PrefixFrom_def)
  have "\<not> overlap (PrefixFrom ?free 30) ?occ"
    unfolding overlap_iff [OF ok(2,1)] by (simp add: Contains_def PrefixFrom_def top_bits_def)
  moreover have "Contains benchmark ?free" by (simp add: Contains_benchmark)
  ultimately show ?thesis
    using tun_address_is_free [OF ex_net_reads, of "[?occ]"] ok(1) ex_net_reads by (auto split: sum.splits)
qed

section \<open>What the DNS proxy answers\<close>

datatype proxyOp = PSearch "string list" | PDomains "string list" | PAliases "HostAlias list"

fun runProxy :: "netLib \<Rightarrow> (string \<Rightarrow> string) \<Rightarrow> dnsSearchProxy \<Rightarrow> proxyOp \<Rightarrow> dnsSearchProxy" where
  "runProxy lib fqdn p (PSearch s) = SetSearch s p"
| "runProxy lib fqdn p (PDomains ds) = SetClusterDomains lib ds p"
| "runProxy lib fqdn p (PAliases hs) = proxySetHostAliases lib fqdn hs p"

definition aliasFor :: "netLib \<Rightarrow> (string \<Rightarrow> string) \<Rightarrow> string \<Rightarrow> HostAlias list \<Rightarrow> addr option" where
  "aliasFor lib fqdn name hosts =
     foldl (\<lambda>r h. if to_lower (fqdn (al_Domain h)) = name \<and> to4 (ParseIP lib (al_IP h)) \<noteq> None
        then to4 (ParseIP lib (al_IP h)) else r) None hosts"

text \<open>The list in force is the last one that was set; a name is known once a list held it.\<close>

definition lastAliases :: "proxyOp list \<Rightarrow> HostAlias list" where
  "lastAliases ops = foldl (\<lambda>r x. case x of PAliases hs \<Rightarrow> hs | _ \<Rightarrow> r) [] ops"

definition everAliased :: "netLib \<Rightarrow> (string \<Rightarrow> string) \<Rightarrow> string \<Rightarrow> proxyOp list \<Rightarrow> bool" where
  "everAliased lib fqdn name ops \<longleftrightarrow>
     list_ex (\<lambda>x. case x of PAliases hs \<Rightarrow> aliasFor lib fqdn name hs \<noteq> None | _ \<Rightarrow> False) ops"

lemma putAliases_get:
  "kv_get (putAliases lib fqdn hosts m) name =
     (case aliasFor lib fqdn name hosts of Some ip \<Rightarrow> Some (Some ip) | None \<Rightarrow> kv_get m name)"
  unfolding putAliases_def aliasFor_def
proof (induction hosts rule: rev_induct)
  case (snoc h hosts)
  then show ?case by (cases "to4 (ParseIP lib (al_IP h))") (auto simp: kv_simps)
qed simp

lemma tombstones_get: "kv_get (map (\<lambda>(name, _). (name, None)) m) k = map_option (\<lambda>_. None) (kv_get m k)"
  unfolding kv_get_def by (induction m) auto

lemma setAliases_get:
  "kv_get (px_hosts (proxySetHostAliases lib fqdn hs p)) name =
     (case aliasFor lib fqdn name hs of Some ip \<Rightarrow> Some (Some ip) | None \<Rightarrow> map_option (\<lambda>_. None) (kv_get (px_hosts p) name))"
  by (simp add: proxySetHostAliases_def putAliases_get tombstones_get split: option.split)

lemma lastAliases_snoc [simp]:
  "lastAliases (ops @ [x]) = (case x of PAliases hs \<Rightarrow> hs | _ \<Rightarrow> lastAliases ops)"
  "everAliased lib fqdn name (ops @ [x]) \<longleftrightarrow>
     everAliased lib fqdn name ops \<or> (case x of PAliases hs \<Rightarrow> aliasFor lib fqdn name hs \<noteq> None | _ \<Rightarrow> False)"
  by (cases x; auto simp: lastAliases_def everAliased_def)+

lemma lastAliases_ever: "aliasFor lib fqdn name (lastAliases ops) \<noteq> None \<Longrightarrow> everAliased lib fqdn name ops"
proof (induction ops rule: rev_induct)
  case Nil
  then show ?case by (simp add: lastAliases_def aliasFor_def)
next
  case (snoc x ops)
  then show ?case by (cases x) auto
qed

lemma proxy_hosts:
  "kv_get (px_hosts (foldl (runProxy lib fqdn) (newSearchProxy lib search ds) ops)) name =
     (case aliasFor lib fqdn name (lastAliases ops) of
        Some ip \<Rightarrow> Some (Some ip)
      | None \<Rightarrow> if everAliased lib fqdn name ops then Some None else None)"
proof (induction ops rule: rev_induct)
  case Nil
  then show ?case by (simp add: newSearchProxy_def lastAliases_def everAliased_def aliasFor_def)
next
  case (snoc x ops)
  show ?case
  proof (cases x)
    case (PAliases hs)
    then show ?thesis using snoc lastAliases_ever [of lib fqdn name ops]
      by (auto simp: setAliases_get split: option.split)
  qed (use snoc in \<open>simp_all add: SetSearch_def SetClusterDomains_def\<close>)
qed

definition managedReply :: "dnsMsg \<Rightarrow> dnsQuestion \<Rightarrow> addr option \<Rightarrow> dnsMsg" where
  "managedReply req q hostIP =
     (case hostIP of
        None \<Rightarrow> SetRcode req RcodeNameError
      | Some ip \<Rightarrow>
          if q_Qtype q = TypeA
          then (SetRcode req RcodeSuccess)\<lparr>msg_Answer := [\<lparr>rr_Name = q_Name q, rr_Data = addr_string ip\<rparr>]\<rparr>
          else SetRcode req RcodeSuccess)"

text \<open>
  C32. Host aliases. After any sequence of changes to the proxy, a name that was ever an alias is
  answered by the proxy alone, whatever the upstream resolver would say: with the address of the list
  in force when that list holds the name, and as a name that does not exist once it was removed.
\<close>

theorem dns_alias_never_leaks:
  assumes "msg_Question req = q # qs" "everAliased lib fqdn (to_lower (q_Name q)) ops"
  shows "serveDNS lib ex tcp fid (foldl (runProxy lib fqdn) (newSearchProxy lib search ds) ops) req =
    Some (managedReply req q (aliasFor lib fqdn (to_lower (q_Name q)) (lastAliases ops)))"
  using assms proxy_hosts [of lib fqdn search ds ops "to_lower (q_Name q)"]
  by (auto simp: serveDNS_def Let_def managedReply_def split: option.splits)

definition ex_query :: dnsMsg where
  "ex_query = \<lparr>msg_Id = 7, msg_Rcode = 0, msg_Truncated = False,
     msg_Question = [\<lparr>q_Name = ''DB.corp.'', q_Qtype = TypeA\<rparr>], msg_Answer = [], msg_Ns = [], msg_Extra = []\<rparr>"

theorem dns_alias_never_leaks_witness:
  "serveDNS ex_net (\<lambda>_ _. Inr None) False 1
     (foldl (runProxy ex_net (\<lambda>s. s @ ''.'')) (newSearchProxy ex_net [] [])
        [PAliases [\<lparr>al_Domain = ''db.corp'', al_IP = ''127.0.0.1''\<rparr>], PAliases []]) ex_query =
   Some (SetRcode ex_query RcodeNameError)"
proof -
  let ?ops = "[PAliases [\<lparr>al_Domain = ''db.corp'', al_IP = ''127.0.0.1''\<rparr>], PAliases []]"
  have low: "to_lower ''DB.corp.'' = ''db.corp.''" "to_lower ''db.corp.'' = ''db.corp.''" by code_simp+
  have ip: "to4 (ParseIP ex_net ''127.0.0.1'') = Some (V4 0x7F000001)"
  proof -
    have "addr_string (V4 0x7F000001) = ''127.0.0.1''" by (simp add: v4_string_def octet_def itoa.simps char_of_digit)
    then have "parse_addr4 ''127.0.0.1'' = Some (V4 0x7F000001)" using parse_addr4_string [of "0x7F000001"] by simp
    then show ?thesis by (simp add: ex_net_def to4_def)
  qed
  have "everAliased ex_net (\<lambda>s. s @ ''.'') (to_lower ''DB.corp.'') ?ops"
    using ip by (simp add: everAliased_def aliasFor_def low)
  moreover have "aliasFor ex_net (\<lambda>s. s @ ''.'') (to_lower ''DB.corp.'') (lastAliases ?ops) = None"
    by (simp add: lastAliases_def aliasFor_def)
  ultimately show ?thesis
    using dns_alias_never_leaks [of ex_query "\<lparr>q_Name = ''DB.corp.'', q_Qtype = TypeA\<rparr>" "[]" ex_net "\<lambda>s. s @ ''.''" ?ops]
    by (simp add: ex_query_def managedReply_def)
qed

text \<open>The names that are tried.\<close>

lemma searchLoop_inv:
  assumes "distinct out" "\<forall>c \<in> set out. \<exists>suf. suf \<noteq> [] \<and> c = name @ ''.'' @ suf @ ''.''"
  shows "distinct (searchLoop name out search) \<and>
    (\<forall>c \<in> set (searchLoop name out search). \<exists>suf. suf \<noteq> [] \<and> c = name @ ''.'' @ suf @ ''.'')"
  using assms
proof (induction name out search rule: searchLoop.induct)
  case (2 name out suffix0 rest)
  let ?s = "normDomain suffix0"
  consider "?s = []" | "?s \<noteq> []" "name @ ''.'' @ ?s @ ''.'' \<in> set out" | "?s \<noteq> []" "name @ ''.'' @ ?s @ ''.'' \<notin> set out" by blast
  then show ?case
  proof cases
    case 1
    with 2 show ?thesis by simp
  next
    case 2
    with "2.IH"(2) [OF refl] "2.prems" show ?thesis by (simp add: Let_def)
  next
    case 3
    with "2.IH"(3) [OF refl _ refl] "2.prems" show ?thesis by (simp add: Let_def)
  qed
qed simp

lemma candidates_shape:
  assumes "c \<in> set (dnsSearchCandidates lib qname search ds)"
  shows "normDomain qname \<noteq> []" "c \<noteq> []" "c = normDomain qname @ ''.'' \<or> (\<exists>suf. suf \<noteq> [] \<and> c = normDomain qname @ ''.'' @ suf @ ''.'')"
  using assms searchLoop_inv [of "[]" "normDomain qname" search]
  by (auto simp: dnsSearchCandidates_def Let_def split: if_splits)

text \<open>The proxy in front of a resolver that repeats the question it was asked.\<close>

definition echoes :: "exchanger \<Rightarrow> bool" where
  "echoes ex \<longleftrightarrow> (\<forall>tcp m r. ex tcp m = Inr (Some r) \<longrightarrow> msg_Question r = msg_Question m)"

lemma exchange_echoes: "echoes ex \<Longrightarrow> exchange ex tcp m = Inr (Some r) \<Longrightarrow> msg_Question r = msg_Question m"
  by (auto simp: exchange_def echoes_def split: sum.splits option.splits if_splits)

lemma equalDNSName_refl [simp]: "equalDNSName x x"
  by (simp add: equalDNSName_def)

lemma rewrite_question:
  assumes "msg_Question m = [q\<lparr>q_Name := c\<rparr>]" "c \<noteq> []" "to \<noteq> []"
  shows "\<exists>n. msg_Question (rewriteDNSNames m c to) = [q\<lparr>q_Name := n\<rparr>] \<and> equalDNSName n to"
  using assms by (auto simp: rewriteDNSNames_def)

lemma rewrite_id [simp]: "msg_Id (rewriteDNSNames m c to) = msg_Id m"
  by (simp add: rewriteDNSNames_def)

lemma rewrite_answers:
  assumes "rr \<in> set (msg_Answer (rewriteDNSNames m c to))" "c \<noteq> []" "to \<noteq> []" "equalDNSName (rr_Name rr) c"
  shows "equalDNSName (rr_Name rr) to"
  using assms by (auto simp: rewriteDNSNames_def rewriteRRNames_def equalDNSName_def split: if_splits)

definition reply_ok :: "dnsMsg \<Rightarrow> dnsQuestion \<Rightarrow> string list \<Rightarrow> dnsMsg \<Rightarrow> bool" where
  "reply_ok req q candidates out \<longleftrightarrow> msg_Id out = msg_Id req \<and>
     (\<exists>n. msg_Question out = [q\<lparr>q_Name := n\<rparr>] \<and> equalDNSName n (q_Name q)) \<and>
     (msg_Answer out = [] \<or> (\<exists>c \<in> set candidates. \<forall>rr \<in> set (msg_Answer out). equalDNSName (rr_Name rr) c \<longrightarrow> equalDNSName (rr_Name rr) (q_Name q)))"

lemma rewritten_ok:
  assumes "msg_Question m = [q\<lparr>q_Name := c\<rparr>]" "c \<in> set cs" "c \<noteq> []" "q_Name q \<noteq> []"
  shows "reply_ok req q cs (rewriteDNSNames (m\<lparr>msg_Id := msg_Id req\<rparr>) c (q_Name q))"
proof -
  from rewrite_question [where m = "m\<lparr>msg_Id := msg_Id req\<rparr>" and q = q and c = c and to = "q_Name q"] assms
  have "\<exists>n. msg_Question (rewriteDNSNames (m\<lparr>msg_Id := msg_Id req\<rparr>) c (q_Name q)) = [q\<lparr>q_Name := n\<rparr>] \<and> equalDNSName n (q_Name q)"
    by simp
  moreover note rewrite_answers [OF _ assms(3,4)]
  ultimately show ?thesis unfolding reply_ok_def using assms(2) by (simp del: dnsQuestion.simps) blast
qed

lemma candidateLoop_ok:
  assumes "echoes ex" "msg_Question req = [q]" "q_Name q \<noteq> []"
  shows "set cs \<subseteq> set all \<Longrightarrow> [] \<notin> set all \<Longrightarrow> \<forall>l. last0 = Some l \<longrightarrow> (\<exists>c \<in> set all. msg_Question l = [q\<lparr>q_Name := c\<rparr>]) \<Longrightarrow>
    case candidateLoop ex tcp fid req (q_Name q) last0 cs of
      Answered out \<Rightarrow> reply_ok req q all out
    | LastSeen l0 \<Rightarrow> (\<forall>l. l0 = Some l \<longrightarrow> (\<exists>c \<in> set all. msg_Question l = [q\<lparr>q_Name := c\<rparr>]))"
proof (induction cs arbitrary: last0)
  case (Cons c cs)
  let ?f = "req\<lparr>msg_Id := fid, msg_Question := [q\<lparr>q_Name := c\<rparr>]\<rparr>"
  have c: "c \<in> set all" "c \<noteq> []" using Cons.prems by auto
  show ?case
  proof (cases "\<exists>r. exchange ex tcp ?f = Inr (Some r)")
    case True
    then obtain r where r: "exchange ex tcp ?f = Inr (Some r)" by blast
    with exchange_echoes [OF assms(1)] have q: "msg_Question r = [q\<lparr>q_Name := c\<rparr>]" by fastforce
    show ?thesis
    proof (cases "msg_Rcode r \<noteq> RcodeSuccess \<or> (msg_Answer r = [] \<and> \<not> equalDNSName c (q_Name q))")
      case True
      then have "candidateLoop ex tcp fid req (q_Name q) last0 (c # cs) = candidateLoop ex tcp fid req (q_Name q) (Some r) cs"
        using r assms(2) by (auto simp: Let_def)
      with Cons.IH [of "Some r"] Cons.prems q c show ?thesis by auto
    next
      case False
      with r assms(2) rewritten_ok [OF q c assms(3), of req] show ?thesis by (auto simp: Let_def)
    qed
  next
    case False
    then have "candidateLoop ex tcp fid req (q_Name q) last0 (c # cs) = candidateLoop ex tcp fid req (q_Name q) last0 cs"
      using assms(2) by (auto simp: Let_def split: sum.split option.split)
    with Cons show ?thesis by auto
  qed
qed simp

text \<open>
  What a client of the DNS proxy sees, in front of a resolver that repeats the question it was
  asked: the proxy always replies, under the client's identifier and with the client's question (up to
  case and the final dot), and an answer that was found under an expanded name is renamed to the name
  the client asked for.
\<close>

theorem dns_reply_fits_question:
  assumes "echoes ex" "msg_Question req = [q]"
  shows "\<exists>out. serveDNS lib ex tcp fid p req = Some out \<and>
    reply_ok req q (q_Name q # dnsSearchCandidates lib (q_Name q) (px_search p) (px_domains p)) out"
proof -
  let ?cs = "dnsSearchCandidates lib (q_Name q) (px_search p) (px_domains p)"
  let ?all = "q_Name q # ?cs"
  have plain: "reply_ok req q ?all (SetRcode req code)" for code
    using assms(2) by (simp add: reply_ok_def SetRcode_def) (metis equalDNSName_refl dnsQuestion.surjective dnsQuestion.update_convs(1))
  show ?thesis
  proof (cases "kv_get (px_hosts p) (to_lower (q_Name q))")
    case (Some hostIP)
    have "reply_ok req q ?all ((SetRcode req RcodeSuccess)\<lparr>msg_Answer := [\<lparr>rr_Name = q_Name q, rr_Data = d\<rparr>]\<rparr>)" for d
      using plain [of RcodeSuccess] by (auto simp: reply_ok_def SetRcode_def)
    then show ?thesis using Some plain assms(2) by (auto simp: serveDNS_def Let_def split: option.split)
  next
    case None
    show ?thesis
    proof (cases "?cs = []")
      case True
      with None assms(2) plain show ?thesis by (simp add: serveDNS_def Let_def)
    next
      case False
      then obtain c0 where "c0 \<in> set ?cs" by (cases ?cs) auto
      from candidates_shape(1) [OF this] have ne: "q_Name q \<noteq> []" by (auto simp: normDomain_def trim_space_def to_lower_def trim_suffix_def)
      have all: "[] \<notin> set ?all" using ne candidates_shape(2) [of "[]"] by auto
      note loop = candidateLoop_ok [OF assms ne, where ?last0.0 = None and cs = ?cs and all = ?all and tcp = tcp and fid = fid, OF _ all]
      show ?thesis
      proof (cases "candidateLoop ex tcp fid req (q_Name q) None ?cs")
        case (Answered out)
        with loop None assms(2) show ?thesis by (auto simp: serveDNS_def Let_def)
      next
        case (LastSeen l0)
        show ?thesis
        proof (cases l0)
          case (Some l)
          have "\<forall>l'. l0 = Some l' \<longrightarrow> (\<exists>c \<in> set ?all. msg_Question l' = [q\<lparr>q_Name := c\<rparr>])"
            using loop unfolding LastSeen served.case by (rule meta_mp) auto
          with Some obtain c where c: "c \<in> set ?all" "msg_Question l = [q\<lparr>q_Name := c\<rparr>]" by blast
          with all have "c \<noteq> []" by auto
          from rewritten_ok [OF c(2,1) this ne] have "reply_ok req q ?all (rewriteDNSNames (l\<lparr>msg_Id := msg_Id req\<rparr>) c (q_Name q))" .
          then show ?thesis using LastSeen Some None assms(2) c(2) by (simp add: serveDNS_def Let_def)
        qed (use LastSeen None assms(2) plain in \<open>simp add: serveDNS_def Let_def\<close>)
      qed
    qed
  qed
qed

text \<open>
  An upstream answer with an error code and no question makes the handler panic: it reads the first
  question of the last answer without the check that it makes for the request.
\<close>

definition ex_mute :: exchanger where
  "ex_mute tcp m = Inr (Some ((SetRcode m RcodeServerFailure)\<lparr>msg_Question := []\<rparr>))"

lemma dns_proxy_panics: "serveDNS ex_net ex_mute False 1 (newSearchProxy ex_net [] []) ex_query = None"
proof -
  have "normDomain ''DB.corp.'' = ''db.corp''" by code_simp
  moreover have "domainsOrDefault ex_net [DefaultClusterDomain] = [DefaultClusterDomain]"
    "NormalizeClusterDomains ex_net [] = Inr [DefaultClusterDomain]"
  proof -
    have "normalDomains [DefaultClusterDomain] = [DefaultClusterDomain]" "find (badDomain ex_net) [DefaultClusterDomain] = None"
      using normalDomains_ok(3,4) [OF ex_net_laws, of "[]"] by (simp_all add: normalDomains_def domainNames_def)
    then show "domainsOrDefault ex_net [DefaultClusterDomain] = [DefaultClusterDomain]"
      by (simp add: domainsOrDefault_def NormalizeClusterDomains_eq [OF ex_net_laws])
    show "NormalizeClusterDomains ex_net [] = Inr [DefaultClusterDomain]"
      by (simp add: NormalizeClusterDomains_eq [OF ex_net_laws] normalDomains_def domainNames_def)
  qed
  ultimately have "dnsSearchCandidates ex_net ''DB.corp.'' [] [DefaultClusterDomain] = [''db.corp.'']"
    "px_domains (newSearchProxy ex_net [] []) = [DefaultClusterDomain]"
    by (simp_all add: dnsSearchCandidates_def newSearchProxy_def has_suffix_def DefaultClusterDomain_def)
  then show ?thesis
    by (simp add: serveDNS_def ex_query_def newSearchProxy_def ex_mute_def exchange_def SetRcode_def rcode_defs Let_def)
qed

definition ex_echo :: exchanger where
  "ex_echo tcp m = Inr (Some ((SetRcode m RcodeSuccess)\<lparr>msg_Question := msg_Question m,
     msg_Answer := map (\<lambda>q. \<lparr>rr_Name = q_Name q, rr_Data = ''10.0.0.1''\<rparr>) (msg_Question m)\<rparr>))"

theorem dns_reply_fits_question_witness:
  "echoes ex_echo \<and>
   (\<exists>out. serveDNS ex_net ex_echo False 1 (newSearchProxy ex_net [''svc.cluster.local''] []) ex_query = Some out \<and>
      msg_Id out = 7 \<and> (\<exists>n. msg_Question out = [\<lparr>q_Name = n, q_Qtype = TypeA\<rparr>] \<and> equalDNSName n ''DB.corp.''))"
proof -
  have e: "echoes ex_echo" by (simp add: echoes_def ex_echo_def)
  let ?q = "\<lparr>q_Name = ''DB.corp.'', q_Qtype = TypeA\<rparr>"
  have "msg_Question ex_query = [?q]" by (simp add: ex_query_def)
  from dns_reply_fits_question [OF e this, of ex_net False 1 "newSearchProxy ex_net [''svc.cluster.local''] []"] obtain out where
    "serveDNS ex_net ex_echo False 1 (newSearchProxy ex_net [''svc.cluster.local''] []) ex_query = Some out"
    "msg_Id out = msg_Id ex_query" "\<exists>n. msg_Question out = [?q\<lparr>q_Name := n\<rparr>] \<and> equalDNSName n (q_Name ?q)"
    unfolding reply_ok_def by blast
  with e show ?thesis by (simp add: ex_query_def)
qed

definition ex_process :: Process where
  "ex_process = \<lparr>pr_spec = ex_sessionSpec, pr_resolverDomains = [], pr_dnsProxy = None, pr_logOffset = 0, pr_logPending = []\<rparr>"

definition ex_log :: string where
  "ex_log = ''ab'' @ [CHR 0x0A] @ ''cd'' @ [CHR 0x0A] @ ''e''"

theorem log_lines_reassembled_witness:
  "case readAll 2 (logChunks ex_log (\<lambda>n. 4)) ex_process of (ls, p') \<Rightarrow>
     ls = [''ab'', ''cd''] \<and> pr_logPending p' = ''e'' \<and> unlines ls @ pr_logPending p' = take (nat (pr_logOffset p')) ex_log"
proof -
  have "readAll 2 (logChunks ex_log (\<lambda>n. 4)) ex_process =
      ([''ab'', ''cd''], ex_process\<lparr>pr_logOffset := 7, pr_logPending := ''e''\<rparr>)"
    by (simp add: numeral_2_eq_2 ReadLogs_def logChunks_def ex_log_def ex_process_def has_suffix_def Let_def)
  moreover have "pr_logOffset ex_process = 0" "pr_logPending ex_process = []" by (simp_all add: ex_process_def)
  note log_lines_reassembled [OF this, where n = 2 and log = ex_log and sz = "\<lambda>n. 4"]
  ultimately show ?thesis by simp
qed

end
