(* ===== verification/Connect.thy ===== *)
theory Connect
  imports Restore CoreRuntime
begin

text \<open>
  A connection from request to teardown: \<^verbatim>\<open>internal/session\<close> (\<^verbatim>\<open>connect.go\<close>, \<^verbatim>\<open>connected_loop.go\<close>,
  \<^verbatim>\<open>lifecycle.go\<close>, \<^verbatim>\<open>state_hub.go\<close> and \<^verbatim>\<open>fail\<close> of \<^verbatim>\<open>manager.go\<close>) and the manual network of
  \<^verbatim>\<open>internal/cluster/access.go\<close>.

  The cluster, the bridge, the core and the operating system are answers in a record. The context can
  be cancelled by another goroutine at any time: the record says before which check of the context
  that happens, and a cancelled context stays cancelled. A statement of \<^verbatim>\<open>run\<close> yields \<^term>\<open>None\<close> when
  the function returns there; the deferred function runs in every case. What is opened has a number,
  and closing it is a call of that number.
\<close>

section \<open>Manual network settings\<close>

text \<open>\<^verbatim>\<open>strings.FieldsFunc\<close> on the separators comma, newline, carriage return and semicolon.\<close>

fun fields_by :: "(char \<Rightarrow> bool) \<Rightarrow> string \<Rightarrow> string \<Rightarrow> string list" where
  "fields_by sep cur [] = (if cur = [] then [] else [rev cur])"
| "fields_by sep cur (c # s) =
     (if sep c then (if cur = [] then [] else [rev cur]) @ fields_by sep [] s else fields_by sep (c # cur) s)"

fun parseCIDRs :: "netLib \<Rightarrow> string list \<Rightarrow> string list res" where
  "parseCIDRs lib [] = Inr []"
| "parseCIDRs lib (part0 # parts) =
     (let part = trim_space part0 in
      if part = [] then parseCIDRs lib parts
      else case ParsePrefix lib part of
             Inl e \<Rightarrow> Inl (Errorf (''invalid CIDR '' @ quote part))
           | Inr p \<Rightarrow> bindE (parseCIDRs lib parts) (\<lambda>out. Inr (prefix_string (Masked p) # out)))"

definition parseCIDRList :: "netLib \<Rightarrow> string \<Rightarrow> string list res" where
  "parseCIDRList lib raw = parseCIDRs lib (fields_by (\<lambda>c. c \<in> {CHR '','', CHR 0x0A, CHR 0x0D, CHR '';''}) [] raw)"

fun manualCIDRs :: "netLib \<Rightarrow> string \<Rightarrow> string list \<Rightarrow> string list res" where
  "manualCIDRs lib label [] = Inr []"
| "manualCIDRs lib label (item # items) =
     (case parseCIDRList lib item of
        Inl e \<Rightarrow> Inl (Wrapf (label @ '': '') e)
      | Inr cidrs \<Rightarrow> bindE (manualCIDRs lib label items) (\<lambda>out. Inr (cidrs @ out)))"

definition NormalizeManualNetwork :: "netLib \<Rightarrow> ManualNetwork \<Rightarrow> ManualNetwork res" where
  "NormalizeManualNetwork lib network =
     bindE (manualCIDRs lib ''pod CIDR'' (mn_PodCIDRs network)) (\<lambda>pods.
     bindE (manualCIDRs lib ''service CIDR'' (mn_ServiceCIDRs network)) (\<lambda>services.
     let dns = trim_space (mn_DNSServer network) in
     bindE (if dns = [] then Inr []
            else case ParseAddr lib dns of
                   Inl e \<Rightarrow> Inl (Errorf (''dns server: invalid IP '' @ quote dns)) | Inr a \<Rightarrow> Inr (addr_string a)) (\<lambda>server.
     bindE (NormalizeClusterDomains lib (mn_ClusterDomains network)) (\<lambda>domains.
     let ns = trim_space (mn_DNSNamespace network) in
     bindE (guardE (ns = [] \<or> (ValidClusterDomain lib ns \<and> CHR ''.'' \<notin> set ns))
       (Errorf (''invalid DNS namespace '' @ quote (mn_DNSNamespace network)))) (\<lambda>_.
     Inr \<lparr>mn_PodCIDRs = pods, mn_ServiceCIDRs = services, mn_DNSServer = server,
       mn_ClusterDomains = (if domains = [DefaultClusterDomain] then [] else domains),
       mn_DNSNamespace = to_lower ns\<rparr>)))))"

text \<open>A scan with the cluster domains that the Gateway reported.\<close>

type_synonym discovered = "scanResult \<times> string list"

definition MergeManualNetwork :: "netLib \<Rightarrow> discovered \<Rightarrow> ManualNetwork \<Rightarrow> discovered" where
  "MergeManualNetwork lib auto manual =
     (let d = fst auto;
          d = (if sr_PodCIDRs d = [] \<and> mn_PodCIDRs manual \<noteq> [] then d\<lparr>sr_PodCIDRs := mn_PodCIDRs manual\<rparr> else d);
          d = (if sr_ServiceCIDRs d = [] \<and> mn_ServiceCIDRs manual \<noteq> [] then d\<lparr>sr_ServiceCIDRs := mn_ServiceCIDRs manual\<rparr> else d);
          d = (if sr_DNSServer d = [] \<and> mn_DNSServer manual \<noteq> [] then d\<lparr>sr_DNSServer := mn_DNSServer manual\<rparr> else d);
          domains = (if snd auto = [] \<and> mn_ClusterDomains manual \<noteq> [] then mn_ClusterDomains manual else snd auto)
      in (d, case NormalizeClusterDomains lib domains of
               Inr ds \<Rightarrow> ds | Inl e \<Rightarrow> if domains = [] then [DefaultClusterDomain] else domains))"

section \<open>The published state\<close>

definition PhaseIdle :: string where "PhaseIdle = ''idle''"
definition PhaseChecking :: string where "PhaseChecking = ''checking''"
definition PhaseInstalling :: string where "PhaseInstalling = ''installing-gateway''"
definition PhaseDiscovering :: string where "PhaseDiscovering = ''discovering-network''"
definition PhaseStarting :: string where "PhaseStarting = ''starting-tunnel''"
definition PhaseError :: string where "PhaseError = ''error''"
definition DefaultSOCKSPort :: int where "DefaultSOCKSPort = 7890"
definition controlRecoveryAttempts :: nat where "controlRecoveryAttempts = 5"

lemmas phase_defs = PhaseIdle_def PhaseChecking_def PhaseInstalling_def PhaseDiscovering_def PhaseStarting_def
  PhaseError_def PhaseConnected_def

record sessionState =
  ps_Phase :: string
  ps_Mode :: string
  ps_Context :: string
  ps_Namespace :: string
  ps_DNSNamespace :: string
  ps_Message :: string
  ps_Error :: string
  ps_DNSWarning :: string
  ps_KubernetesVersion :: string
  ps_GatewayManifest :: bool
  ps_ConnectedAt :: bool
  ps_SOCKSPort :: int

definition zeroState :: sessionState where
  "zeroState = \<lparr>ps_Phase = [], ps_Mode = [], ps_Context = [], ps_Namespace = [], ps_DNSNamespace = [], ps_Message = [],
     ps_Error = [], ps_DNSWarning = [], ps_KubernetesVersion = [], ps_GatewayManifest = False, ps_ConnectedAt = False,
     ps_SOCKSPort = 0\<rparr>"

record connManager =
  cm_session :: session
  cm_state :: sessionState
  cm_published :: "sessionState list"
  cm_active :: bool
  cm_runningCore :: "nat option"
  cm_tracker :: bool
  cm_shuttingDown :: bool

text \<open>
  The hub sends a state to its subscribers. \<^verbatim>\<open>AppendLog\<close> sends the current state again with one more
  entry in its log; the model keeps the log, in the session, and not that second sending.
\<close>

definition hubPublish :: "sessionState \<Rightarrow> connManager \<Rightarrow> connManager" where
  "hubPublish st c =
     c\<lparr>cm_state := st, cm_published := cm_published c @ [st],
       cm_session := (cm_session c)\<lparr>se_phase := ps_Phase st, se_mode := ps_Mode st, se_context := ps_Context st,
         se_namespace := ps_Namespace st\<rparr>\<rparr>"

definition recordLog :: "string \<Rightarrow> string \<Rightarrow> connManager \<Rightarrow> connManager" where
  "recordLog level message c = c\<lparr>cm_session := AppendLog level message (cm_session c)\<rparr>"

definition idleState :: "sessionState \<Rightarrow> sessionState" where
  "idleState current = zeroState\<lparr>ps_Phase := PhaseIdle, ps_Mode := ps_Mode current, ps_Message := ''Disconnected'',
     ps_KubernetesVersion := ps_KubernetesVersion current, ps_Context := ps_Context current,
     ps_Namespace := ps_Namespace current\<rparr>"

section \<open>The answers of the environment\<close>

record gatewayInfo =
  gw_Name :: string
  gw_IP :: string

record capabilities =
  cp_GatewayInstall :: bool
  cp_GatewayPortForward :: bool
  cp_InventoryCluster :: bool
  cp_ScopeNamespaces :: "string list"
  cp_Issues :: "string list"

record connRequest =
  cq_Context :: string
  cq_Namespace :: string
  cq_Mode :: string

text \<open>
  One attempt at recovering the control channel: whether the context ends while it waits, what the
  redial answers, the Gateway that is found and the port-forward to it.
\<close>

record recoveryAttempt =
  ra_cancelled :: bool
  ra_dial :: "(controlClient \<times> nat) res"
  ra_gateway :: "gatewayInfo res"
  ra_forward :: "(nat \<times> string) res"

datatype serveEvent = CtxDone | CoreDone "goerr option" | ControlLost "nat \<Rightarrow> recoveryAttempt" | Ticked "string list res"

text \<open>
  What is opened is a handle, a number; a port-forward and a bridge come with their address, the core
  with its traffic endpoints. \<open>ce_cancel n\<close>: the context is cancelled before its \<open>n\<close>-th check.
  \<open>ce_events\<close> are the cases the loop of an established connection selects, in their order; after
  them the context is done.
\<close>

record connEnv =
  ce_lib :: netLib
  ce_cancel :: "nat \<Rightarrow> bool"
  ce_caps :: "capabilities res"
  ce_version :: "string res"
  ce_gateway :: "gatewayInfo res"
  ce_discover :: "string list \<Rightarrow> discovered res"
  ce_issues :: "discovered \<Rightarrow> string list"
  ce_forward :: "(nat \<times> string) res"
  ce_token :: "SessionToken res"
  ce_dial :: "(controlClient \<times> nat) res"
  ce_bridge :: "string \<Rightarrow> string \<Rightarrow> (nat \<times> string) res"
  ce_hostBridge :: bool
  ce_updatable :: bool
  ce_namespaces :: "string list res"
  ce_core :: "NetworkSpec \<Rightarrow> string \<Rightarrow> string \<Rightarrow> HostAlias list \<Rightarrow> (nat \<times> TrafficEndpoints) res"
  ce_probe :: "goerr option"
  ce_watch :: "nat res"
  ce_events :: "serveEvent list"
  ce_flush :: "string list res"
  ce_closeErr :: "nat \<Rightarrow> goerr option"
  ce_release :: "string \<Rightarrow> goerr option"
  ce_api :: "nat \<Rightarrow> pfAPI"
  ce_starters :: starters
  ce_senv :: "string \<Rightarrow> senv"
  ce_save :: "nat \<Rightarrow> senv"

text \<open>The closers that \<^verbatim>\<open>run\<close> makes itself, and the closer of a handle.\<close>

definition stopBridge :: nat where "stopBridge = 0"
definition closeIntercept :: nat where "closeIntercept = 1"
definition hostRoutes :: nat where "hostRoutes = 2"
definition featureBindings :: nat where "featureBindings = 3"
definition handleCloser :: "nat \<Rightarrow> nat" where "handleCloser i = i + 4"

text \<open>
  The state of a call of \<^verbatim>\<open>run\<close>: the manager, the runtime, the context, the handles that were opened,
  the closers that were called, the address the bridge dials, and whether \<^verbatim>\<open>interceptCloseOnce\<close> has
  run.
\<close>

record connRun =
  rn_c :: connManager
  rn_rt :: sessionRuntime
  rn_clock :: nat
  rn_cancelled :: bool
  rn_opened :: "nat list"
  rn_closed :: "nat list"
  rn_bridgeGateway :: string
  rn_interceptClosed :: bool
  rn_panicked :: bool

definition upd :: "(connManager \<Rightarrow> connManager) \<Rightarrow> connRun \<Rightarrow> connRun" where
  "upd f r = r\<lparr>rn_c := f (rn_c r)\<rparr>"

text \<open>A check of \<^verbatim>\<open>ctx.Err()\<close>.\<close>

definition ctxErr :: "connEnv \<Rightarrow> connRun \<Rightarrow> bool" where
  "ctxErr env r \<longleftrightarrow> rn_cancelled r \<or> ce_cancel env (rn_clock r)"

definition tick :: "connEnv \<Rightarrow> connRun \<Rightarrow> connRun" where
  "tick env r = r\<lparr>rn_cancelled := ctxErr env r, rn_clock := rn_clock r + 1\<rparr>"

definition opened :: "nat \<Rightarrow> connRun \<Rightarrow> connRun" where
  "opened i r = r\<lparr>rn_opened := rn_opened r @ [i]\<rparr>"

definition closeNow :: "nat \<Rightarrow> connRun \<Rightarrow> connRun" where
  "closeNow i r = r\<lparr>rn_closed := rn_closed r @ [handleCloser i]\<rparr>"

definition addRes :: "string \<Rightarrow> nat \<Rightarrow> connRun \<Rightarrow> connRun" where
  "addRes name i r = r\<lparr>rn_rt := addResource name (Some i) (rn_rt r)\<rparr>"

text \<open>Statements in sequence; a statement, a check of the context, a failure and a call that may fail.\<close>

type_synonym 'a stmt = "connRun \<Rightarrow> 'a option \<times> connRun"

definition bindR :: "'a stmt \<Rightarrow> ('a \<Rightarrow> 'b stmt) \<Rightarrow> 'b stmt" where
  "bindR m f r = (case m r of (None, r') \<Rightarrow> (None, r') | (Some x, r') \<Rightarrow> f x r')"

definition actR :: "(connRun \<Rightarrow> connRun) \<Rightarrow> unit stmt" where
  "actR f r = (Some (), f r)"

definition askR :: "(connRun \<Rightarrow> 'a) \<Rightarrow> 'a stmt" where
  "askR f r = (Some (f r), r)"

definition ctxGuard :: "connEnv \<Rightarrow> unit stmt" where
  "ctxGuard env r = (if ctxErr env r then None else Some (), tick env r)"

definition failState :: "sessionState \<Rightarrow> string \<Rightarrow> goerr \<Rightarrow> sessionState" where
  "failState st message e =
     st\<lparr>ps_Phase := PhaseError, ps_Message := message, ps_Error := err_text e, ps_ConnectedAt := False\<rparr>"

definition failR :: "connEnv \<Rightarrow> sessionState \<Rightarrow> string \<Rightarrow> goerr \<Rightarrow> 'a stmt" where
  "failR env st message e r =
     (None, if ctxErr env r then tick env r
            else upd (recordLog ''ERROR'' (message @ '': '' @ err_text e) \<circ> hubPublish (failState st message e)) (tick env r))"

definition tryR :: "connEnv \<Rightarrow> sessionState \<Rightarrow> string \<Rightarrow> 'a res \<Rightarrow> 'a stmt" where
  "tryR env st message x = (case x of Inl e \<Rightarrow> failR env st message e | Inr a \<Rightarrow> (\<lambda>r. (Some a, r)))"

definition logR :: "string \<Rightarrow> string \<Rightarrow> unit stmt" where
  "logR level message = actR (upd (recordLog level message))"

definition publishR :: "sessionState \<Rightarrow> unit stmt" where
  "publishR st = actR (upd (hubPublish st))"

definition sessionR :: "(session \<Rightarrow> session) \<Rightarrow> unit stmt" where
  "sessionR f = actR (upd (\<lambda>c. c\<lparr>cm_session := f (cm_session c)\<rparr>))"

text \<open>A handle that is opened and registered at once.\<close>

definition acquireR :: "string \<Rightarrow> nat \<Rightarrow> unit stmt" where
  "acquireR name i = actR (addRes name (handleCloser i) \<circ> opened i)"

section \<open>Establishing a connection: connect.go\<close>

definition initialState :: "connRequest \<Rightarrow> sessionState \<Rightarrow> sessionState" where
  "initialState q prev =
     zeroState\<lparr>ps_Phase := PhaseChecking, ps_Mode := cq_Mode q, ps_Context := cq_Context q,
       ps_Namespace := cq_Namespace q, ps_Message := ''Checking Kubernetes access'',
       ps_KubernetesVersion := ps_KubernetesVersion prev\<rparr>"

fun logAll :: "string \<Rightarrow> string list \<Rightarrow> unit stmt" where
  "logAll level [] = actR id"
| "logAll level (line # lines) = bindR (logR level line) (\<lambda>_. logAll level lines)"

definition checkAccess :: "connEnv \<Rightarrow> connRequest \<Rightarrow> (capabilities \<times> sessionState) stmt" where
  "checkAccess env q =
     bindR (ctxGuard env) (\<lambda>_.
     bindR (askR (cm_state \<circ> rn_c)) (\<lambda>prev.
     let st = initialState q prev in
     bindR (publishR st) (\<lambda>_.
     bindR (logR ''INFO'' (''connecting to context '' @ cq_Context q)) (\<lambda>_.
     bindR (tryR env st ''Could not check cluster permissions'' (ce_caps env)) (\<lambda>caps.
     bindR (ctxGuard env) (\<lambda>_.
     let st = (case ce_version env of Inl e \<Rightarrow> st | Inr version \<Rightarrow> st\<lparr>ps_KubernetesVersion := version\<rparr>) in
     bindR (publishR st) (\<lambda>_.
     bindR (logR ''INFO'' (if ps_KubernetesVersion st \<noteq> [] then ''kubernetes '' @ ps_KubernetesVersion st
                          else ''kubernetes version unavailable'')) (\<lambda>_.
     bindR (logR ''INFO'' (''cluster access verified: gateway='' @
              (if cp_GatewayInstall caps then ''managed'' else ''preinstalled'') @ '' inventory='' @
              (if cp_InventoryCluster caps then ''cluster'' else ''namespaced''))) (\<lambda>_.
     bindR (logAll ''INFO'' (cp_Issues caps)) (\<lambda>_.
     if \<not> cp_GatewayPortForward caps
     then failR env (st\<lparr>ps_GatewayManifest := True\<rparr>) ''Current account cannot port-forward to the Gateway''
            (Errorf ''missing pods/portforward in kubeloop-system'')
     else askR (\<lambda>_. (caps, st))))))))))))"

text \<open>\<open>ce_gateway\<close> is what \<^verbatim>\<open>EnsureGateway\<close> answers, or \<^verbatim>\<open>GetGateway\<close> where the account cannot install.\<close>

definition prepareGateway :: "connEnv \<Rightarrow> capabilities \<Rightarrow> sessionState \<Rightarrow> (gatewayInfo \<times> sessionState) stmt" where
  "prepareGateway env caps st0 =
     (let st = st0\<lparr>ps_Phase := PhaseInstalling, ps_Message := ''Installing or checking the cluster Gateway''\<rparr> in
      bindR (publishR st) (\<lambda>_.
      bindR (if cp_GatewayInstall caps then tryR env st ''Could not install the cluster Gateway'' (ce_gateway env)
             else tryR env (st\<lparr>ps_GatewayManifest := True\<rparr>)
                    ''No preinstalled Gateway found; ask an admin to install it or grant install permission''
                    (ce_gateway env)) (\<lambda>gateway.
      bindR (ctxGuard env) (\<lambda>_.
      bindR (logR ''INFO'' (''gateway ready: pod='' @ gw_Name gateway @ '' ip='' @ gw_IP gateway)) (\<lambda>_.
      askR (\<lambda>_. (gateway, st)))))))"

text \<open>
  The manual settings of the store complete what was discovered; the namespace of short names is the
  manual one, or the request's. Without a store nothing is merged.
\<close>

definition mergeManual :: "netLib \<Rightarrow> Store option \<Rightarrow> connRequest \<Rightarrow> discovered \<Rightarrow> discovered \<times> string" where
  "mergeManual lib store q d =
     (case store of
        None \<Rightarrow> (d, cq_Namespace q)
      | Some s \<Rightarrow>
          let manual = getManualNetwork s (cq_Context q)
          in (MergeManualNetwork lib d manual,
              if mn_DNSNamespace manual \<noteq> [] then mn_DNSNamespace manual else cq_Namespace q))"

definition scopeNamespaces :: "capabilities \<Rightarrow> string list" where
  "scopeNamespaces caps = (if cp_InventoryCluster caps then [] else cp_ScopeNamespaces caps)"

definition discoverNetwork ::
  "connEnv \<Rightarrow> connRequest \<Rightarrow> capabilities \<Rightarrow> sessionState \<Rightarrow> (discovered \<times> string \<times> sessionState) stmt" where
  "discoverNetwork env q caps st0 =
     (let st = st0\<lparr>ps_Phase := PhaseDiscovering, ps_Message := ''Discovering Pods, Services, and cluster DNS''\<rparr> in
      bindR (publishR st) (\<lambda>_.
      bindR (tryR env st ''Could not read cluster network information'' (ce_discover env (scopeNamespaces caps))) (\<lambda>found.
      bindR (ctxGuard env) (\<lambda>_.
      bindR (askR (\<lambda>r. mergeManual (ce_lib env) (se_store (cm_session (rn_c r))) q found)) (\<lambda>(d, dnsNS).
      let st = st\<lparr>ps_DNSNamespace := dnsNS\<rparr> in
      bindR (publishR st) (\<lambda>_.
      bindR (logR ''INFO'' (''network discovered: podCIDRs='' @ itoa (length (sr_PodCIDRs (fst d))) @ '' serviceCIDRs='' @
               itoa (length (sr_ServiceCIDRs (fst d))) @ '' serviceIPs='' @ itoa (length (sr_ServiceIPs (fst d))) @
               '' dns='' @ sr_DNSServer (fst d))) (\<lambda>_.
      bindR (logAll ''WARN'' (if cq_Mode q = ConnectionModeSOCKS then [] else ce_issues env d)) (\<lambda>_.
      askR (\<lambda>_. (d, dnsNS, st))))))))))"

text \<open>The channel to the Gateway and the control session on it: the address of the port-forward.\<close>

definition startIntercept :: "connEnv \<Rightarrow> connRequest \<Rightarrow> gatewayInfo \<Rightarrow> string \<Rightarrow> SessionToken \<Rightarrow> sessionState \<Rightarrow> unit stmt" where
  "startIntercept env q gateway address token st r =
     (case Start (se_intercept (cm_session (rn_c r))) (cq_Context q) (gw_IP gateway) address (Inr token) (ce_dial env) of
        (e, ic) \<Rightarrow>
          (let r' = upd (\<lambda>c. c\<lparr>cm_session := (cm_session c)\<lparr>se_intercept := ic\<rparr>\<rparr>) r
           in case e of
                None \<Rightarrow> (Some (), r')
              | Some err \<Rightarrow> failR env st ''Could not start the Gateway control channel'' err r'))"

definition openChannel :: "connEnv \<Rightarrow> connRequest \<Rightarrow> gatewayInfo \<Rightarrow> sessionState \<Rightarrow> string stmt" where
  "openChannel env q gateway st =
     bindR (tryR env st ''Could not establish a secure Gateway channel'' (ce_forward env)) (\<lambda>(fw, address).
     bindR (acquireR ''Gateway port-forward'' fw) (\<lambda>_.
     bindR (logR ''INFO'' (''gateway channel established at '' @ address)) (\<lambda>_.
     bindR (ctxGuard env) (\<lambda>_.
     bindR (tryR env st ''Could not create a secure Gateway session'' (ce_token env)) (\<lambda>token.
     bindR (startIntercept env q gateway address token st) (\<lambda>_.
     bindR (logR ''INFO'' ''tenant-isolated Gateway control channel ready'') (\<lambda>_.
     bindR (actR (addRes ''early Intercept guard'' closeIntercept)) (\<lambda>_.
     askR (\<lambda>_. address)))))))))"

text \<open>In SOCKS mode the bridge first tries the preferred port.\<close>

definition anyPort :: string where "anyPort = ''127.0.0.1:0''"

definition listenBridge :: "connEnv \<Rightarrow> connRequest \<Rightarrow> string \<Rightarrow> ((nat \<times> string) res) stmt" where
  "listenBridge env q address =
     (if cq_Mode q \<noteq> ConnectionModeSOCKS then askR (\<lambda>_. ce_bridge env address anyPort)
      else case ce_bridge env address (join_host_port ''127.0.0.1'' (itoa_int DefaultSOCKSPort)) of
             Inr b \<Rightarrow> askR (\<lambda>_. Inr b)
           | Inl e \<Rightarrow>
               bindR (logR ''WARN'' (''preferred SOCKS5 port '' @ itoa_int DefaultSOCKSPort @
                        '' is unavailable; selecting another port: '' @ err_text e)) (\<lambda>_.
               askR (\<lambda>_. ce_bridge env address anyPort)))"

definition startBridge :: "connEnv \<Rightarrow> connRequest \<Rightarrow> string \<Rightarrow> sessionState \<Rightarrow> (nat \<times> string) stmt" where
  "startBridge env q address st =
     bindR (actR (addRes ''SOCKS Bridge context'' stopBridge)) (\<lambda>_.
     bindR (listenBridge env q address) (\<lambda>answer.
     bindR (tryR env st ''Could not start the local SOCKS Bridge'' answer) (\<lambda>(bridge, bridgeAddr).
     bindR (acquireR ''SOCKS Bridge'' bridge) (\<lambda>_.
     bindR (actR (\<lambda>r. r\<lparr>rn_bridgeGateway := address\<rparr>)) (\<lambda>_.
     bindR (logR ''INFO'' (''local SOCKS bridge listening at '' @ bridgeAddr)) (\<lambda>_.
     bindR (ctxGuard env) (\<lambda>_.
     askR (\<lambda>_. (bridge, bridgeAddr)))))))))"

text \<open>\<^verbatim>\<open>persistConnectedMode\<close>: the two saves; the second can panic, and the process ends there.\<close>

definition persistConnectedMode :: "connEnv \<Rightarrow> connRequest \<Rightarrow> unit stmt" where
  "persistConnectedMode env q r =
     (let m = cm_session (rn_c r);
          m1 = storeCall ''persist connection mode: '' (SetConnectionMode (ce_save env 0) (cq_Context q) (cq_Mode q)) m
      in case markConnected (ce_save env 1) ''persist connected state: '' (cq_Context q) (cq_Namespace q) True m1 of
           None \<Rightarrow> (None, (upd (\<lambda>c. c\<lparr>cm_session := m1\<rparr>) r)\<lparr>rn_panicked := True\<rparr>)
         | Some m2 \<Rightarrow> (Some (), upd (\<lambda>c. c\<lparr>cm_session := m2\<rparr>) r))"

definition watchInventory :: "connEnv \<Rightarrow> sessionState \<Rightarrow> unit stmt" where
  "watchInventory env st =
     bindR (tryR env st ''Could not watch cluster resource changes'' (ce_watch env)) (\<lambda>inventory.
     bindR (acquireR ''inventory watcher'' inventory) (\<lambda>_.
     logR ''INFO'' ''cluster inventory watcher started''))"

text \<open>The SOCKS5 proxy: the port of the bridge, which must listen on loopback.\<close>

definition socksAddress :: "netLib \<Rightarrow> string \<Rightarrow> int res" where
  "socksAddress lib address =
     (case split_host_port address of
        Inl e \<Rightarrow> Inl e
      | Inr (rawHost, rawPort) \<Rightarrow>
          if (case ParseIP lib rawHost of None \<Rightarrow> True | Some ip \<Rightarrow> \<not> IsLoopback ip)
          then Inl (Errorf ''SOCKS5 proxy must listen on loopback'')
          else (case atoi rawPort of
                 Inl e \<Rightarrow> Inl (Errorf ''SOCKS5 proxy has an invalid port'')
               | Inr port \<Rightarrow> if port < 1 \<or> port > 65535 then Inl (Errorf ''SOCKS5 proxy has an invalid port'')
                             else Inr port))"

definition exposeSOCKS :: "connEnv \<Rightarrow> connRequest \<Rightarrow> string \<Rightarrow> sessionState \<Rightarrow> sessionState stmt" where
  "exposeSOCKS env q bridgeAddr st0 =
     bindR (tryR env st0 ''Could not expose the local SOCKS5 proxy'' (socksAddress (ce_lib env) bridgeAddr)) (\<lambda>socksPort.
     bindR (sessionR (restoreNativePortForwards (ce_api env) (cq_Context q))) (\<lambda>_.
     let st = st0\<lparr>ps_Phase := PhaseConnected, ps_Message := ''SOCKS5 proxy connected to the cluster Gateway'',
                  ps_ConnectedAt := True, ps_SOCKSPort := socksPort, ps_DNSWarning := []\<rparr> in
     bindR (logR ''INFO'' (''SOCKS5 mode ready at 127.0.0.1:'' @ itoa_int socksPort @
              ''; TUN and system proxy are disabled'')) (\<lambda>_.
     bindR (publishR st) (\<lambda>_.
     bindR (logR ''INFO'' (''connected to context '' @ cq_Context q @ '' in SOCKS5 mode'')) (\<lambda>_.
     bindR (persistConnectedMode env q) (\<lambda>_.
     bindR (watchInventory env st) (\<lambda>_.
     askR (\<lambda>_. st))))))))"

definition hostAliasesFor :: "session \<Rightarrow> string \<Rightarrow> HostAlias list" where
  "hostAliasesFor m contextName =
     (case se_store m of
        None \<Rightarrow> []
      | Some s \<Rightarrow>
          if contextName = [] then []
          else map (\<lambda>item. \<lparr>al_Domain = ha_Domain item, al_IP = ha_IP item\<rparr>) (HostAliases s contextName))"

definition probeWarning :: string where
  "probeWarning = ''Cluster DNS probe failed; split DNS may be overridden by another proxy (for example Clash Verge TUN/system DNS). Try disabling the other client's TUN DNS or reconnect KubeLoop last.''"

definition probeClusterDNS :: "goerr option \<Rightarrow> sessionState \<Rightarrow> connManager \<Rightarrow> connManager" where
  "probeClusterDNS answer st c =
     (case answer of
        None \<Rightarrow> c
      | Some e \<Rightarrow>
          if ps_Phase (cm_state c) = PhaseConnected \<and> ps_Context (cm_state c) = ps_Context st
          then recordLog ''WARN'' (probeWarning @ '': '' @ err_text e)
                 (hubPublish ((cm_state c)\<lparr>ps_DNSWarning := probeWarning\<rparr>) c)
          else c)"

text \<open>The core: its network, its start, and the check of the inbounds it offers to the features.\<close>

definition startCore ::
  "connEnv \<Rightarrow> connRequest \<Rightarrow> capabilities \<Rightarrow> discovered \<Rightarrow> string \<Rightarrow> string \<Rightarrow> sessionState \<Rightarrow> (nat \<times> TrafficEndpoints) stmt" where
  "startCore env q caps d bridgeAddr dnsNS st =
     bindR (askR (\<lambda>r. hostAliasesFor (cm_session (rn_c r)) (cq_Context q))) (\<lambda>hosts.
     bindR (case ce_namespaces env of
              Inr namespaces \<Rightarrow> askR (\<lambda>_. namespaces)
            | Inl e \<Rightarrow> bindR (logR ''WARN'' (''could not list all namespaces for DNS search domains: '' @ err_text e)) (\<lambda>_.
                        askR (\<lambda>_. cp_ScopeNamespaces caps))) (\<lambda>namespaces.
     bindR (tryR env st ''Could not start sing-box TUN''
              (ce_core env ((networkSpec (fst d) (snd d))\<lparr>ns_Namespaces := namespaces\<rparr>) bridgeAddr dnsNS hosts)) (\<lambda>(core, endpoints).
     bindR (acquireR ''sing-box core'' core) (\<lambda>_.
     bindR (logR ''INFO'' (''sing-box TUN started: dnsNamespace='' @ dnsNS @ '' hostAliases='' @ itoa (length hosts))) (\<lambda>_.
     bindR (ctxGuard env) (\<lambda>_.
     bindR (actR (upd (\<lambda>c. c\<lparr>cm_runningCore := Some core\<rparr>))) (\<lambda>_.
     bindR (tryR env st ''sing-box feature inbounds are unavailable'' (ValidateEndpoints (ce_lib env) endpoints)) (\<lambda>_.
     askR (\<lambda>_. (core, endpoints))))))))))"

definition bindFeatures :: "connRequest \<Rightarrow> unit stmt" where
  "bindFeatures q =
     bindR (actR (upd (\<lambda>c. c\<lparr>cm_tracker := True\<rparr>))) (\<lambda>_.
     bindR (sessionR (\<lambda>m. m\<lparr>se_pf := SetTrafficDialer (cq_Context q) True (se_pf m)\<rparr>)) (\<lambda>_.
     bindR (logR ''INFO'' ''feature traffic routes ready'') (\<lambda>_.
     bindR (actR (addRes ''feature traffic bindings'' featureBindings)) (\<lambda>_.
     actR (addRes ''Intercept restore'' closeIntercept)))))"

definition exposeTUN ::
  "connEnv \<Rightarrow> connRequest \<Rightarrow> capabilities \<Rightarrow> discovered \<Rightarrow> string \<Rightarrow> string \<Rightarrow> sessionState \<Rightarrow> sessionState stmt" where
  "exposeTUN env q caps d bridgeAddr dnsNS st0 =
     bindR (ctxGuard env) (\<lambda>_.
     bindR (if ce_hostBridge env then actR (addRes ''SOCKS Bridge host routes'' hostRoutes) else actR id) (\<lambda>_.
     let st = st0\<lparr>ps_Phase := PhaseStarting, ps_Message := ''Installing and starting sing-box TUN''\<rparr> in
     bindR (publishR st) (\<lambda>_.
     bindR (startCore env q caps d bridgeAddr dnsNS st) (\<lambda>_.
     bindR (bindFeatures q) (\<lambda>_.
     let st = st\<lparr>ps_Phase := PhaseConnected, ps_Message := ''Connected; Pods, Services, and cluster DNS are reachable'',
                 ps_ConnectedAt := True, ps_SOCKSPort := 0, ps_DNSNamespace := dnsNS, ps_DNSWarning := []\<rparr> in
     bindR (sessionR (snd \<circ> restoreBindings (ce_api env) (ce_starters env) (cq_Context q))) (\<lambda>_.
     bindR (publishR st) (\<lambda>_.
     bindR (logR ''INFO'' (''connected to context '' @ cq_Context q)) (\<lambda>_.
     bindR (persistConnectedMode env q) (\<lambda>_.
     bindR (actR (upd (probeClusterDNS (ce_probe env) st))) (\<lambda>_.
     bindR (watchInventory env st) (\<lambda>_.
     askR (\<lambda>_. st))))))))))))"

section \<open>Serving a connection: connected\_loop.go\<close>

definition controlRecoveryDelay :: "nat \<Rightarrow> nat" where
  "controlRecoveryDelay attempt = (if attempt = 0 then 0 else if attempt \<ge> 3 then 2 else 1)"

text \<open>\<^verbatim>\<open>RecoverControlAt\<close> of the intercept manager, with the redial answered.\<close>

definition recoverAt :: "(controlClient \<times> nat) res \<Rightarrow> string \<Rightarrow> string \<Rightarrow> connManager \<Rightarrow> goerr option \<times> connManager" where
  "recoverAt dialed gatewayIP address c =
     (case recoverControlAt (\<lambda>_ g. (dialed, g)) id (se_intercept (cm_session c)) () gatewayIP address of
        ((e, _), ic, _) \<Rightarrow> (e, c\<lparr>cm_session := (cm_session c)\<lparr>se_intercept := ic\<rparr>\<rparr>))"

definition recoverControl :: "recoveryAttempt \<Rightarrow> connRun \<Rightarrow> goerr option \<times> connRun" where
  "recoverControl a r =
     (let ic = se_intercept (cm_session (rn_c r)); (e, c) = recoverAt (ra_dial a) (m_gatewayIP ic) (m_gatewayAddress ic) (rn_c r)
      in (e, r\<lparr>rn_c := c\<rparr>))"

definition replaceGatewayPortForward :: "connEnv \<Rightarrow> recoveryAttempt \<Rightarrow> connRun \<Rightarrow> goerr option \<times> connRun" where
  "replaceGatewayPortForward env a r0 =
     (case ra_gateway a of
        Inl e \<Rightarrow> (Some (Wrapf ''find replacement Gateway: '' e), r0)
      | Inr gateway \<Rightarrow>
          (case ra_forward a of
             Inl e \<Rightarrow> (Some (Wrapf ''replace Gateway port-forward: '' e), r0)
           | Inr (fw, address) \<Rightarrow>
               (let r1 = opened fw r0; (e, c) = recoverAt (ra_dial a) (gw_IP gateway) address (rn_c r1);
                    r2 = r1\<lparr>rn_c := c\<rparr>
                in case e of
                     Some err \<Rightarrow> (Some err, closeNow fw r2)
                   | None \<Rightarrow>
                       if \<not> ce_updatable env
                       then (Some (Errorf ''SOCKS bridge cannot replace its Gateway address''), closeNow fw r2)
                       else (None, addRes ''replacement Gateway port-forward'' (handleCloser fw)
                                     (r2\<lparr>rn_bridgeGateway := address\<rparr>)))))"

fun recoverLoop ::
  "connEnv \<Rightarrow> (nat \<Rightarrow> recoveryAttempt) \<Rightarrow> nat list \<Rightarrow> goerr option \<Rightarrow> connRun \<Rightarrow> goerr option \<times> connRun" where
  "recoverLoop env tries [] lastErr r =
     (Some (case lastErr of None \<Rightarrow> Errorf ''gateway control channel closed'' | Some e \<Rightarrow> e), r)"
| "recoverLoop env tries (attempt # attempts) lastErr r =
     (if controlRecoveryDelay attempt > 0 \<and> (rn_cancelled r \<or> ra_cancelled (tries attempt))
      then (Some Canceled, r\<lparr>rn_cancelled := True\<rparr>)
      else case (if attempt = 0 then recoverControl (tries attempt) r
                 else replaceGatewayPortForward env (tries attempt) r) of
             (None, r') \<Rightarrow> (None, r')
           | (Some e, r') \<Rightarrow>
               recoverLoop env tries attempts (Some e)
                 (upd (recordLog ''WARN'' (''gateway control reconnect attempt '' @ itoa (attempt + 1) @ ''/'' @
                    itoa controlRecoveryAttempts @ '' failed: '' @ err_text e)) r'))"

definition recoverGatewayControl :: "connEnv \<Rightarrow> (nat \<Rightarrow> recoveryAttempt) \<Rightarrow> connRun \<Rightarrow> goerr option \<times> connRun" where
  "recoverGatewayControl env tries r = recoverLoop env tries [0 ..< controlRecoveryAttempts] None r"

text \<open>
  A line of the core's log: the terminal's colour sequences are removed, and the level is read off
  the text.
\<close>

definition ansi_param :: "char \<Rightarrow> bool" where
  "ansi_param c \<longleftrightarrow> is_digit c \<or> c = CHR '';''"

definition ascii_letter :: "char \<Rightarrow> bool" where
  "ascii_letter c \<longleftrightarrow> (let n = (of_char c :: nat) in (65 \<le> n \<and> n \<le> 90) \<or> (97 \<le> n \<and> n \<le> 122))"

definition ansi_rest :: "string \<Rightarrow> string option" where
  "ansi_rest s =
     (case s of
        bracket # t \<Rightarrow>
          (case dropWhile ansi_param t of
             final # rest \<Rightarrow> if bracket = CHR ''['' \<and> ascii_letter final then Some rest else None
           | [] \<Rightarrow> None)
      | [] \<Rightarrow> None)"

lemma ansi_rest_shorter: "ansi_rest s = Some rest \<Longrightarrow> length rest < length s"
proof (cases s)
  case (Cons b t)
  assume a: "ansi_rest s = Some rest"
  have "length (dropWhile ansi_param t) \<le> length t" by (rule length_dropWhile_le)
  with a Cons show ?thesis by (auto simp: ansi_rest_def split: list.splits if_splits)
qed (simp add: ansi_rest_def)

function (sequential) strip_ansi :: "string \<Rightarrow> string" where
  "strip_ansi [] = []"
| "strip_ansi (c # s) =
     (case (if c = CHR 0x1B then ansi_rest s else None) of
        Some rest \<Rightarrow> strip_ansi rest
      | None \<Rightarrow> c # strip_ansi s)"
  by pat_completeness auto
termination
  by (relation "measure length") (auto dest: ansi_rest_shorter split: if_splits)

definition upper_char :: "char \<Rightarrow> char" where
  "upper_char c = (let n = (of_char c :: nat) in if 97 \<le> n \<and> n \<le> 122 then char_of (n - 32) else c)"

definition singBoxLogEvent :: "string \<Rightarrow> (string \<times> string) option" where
  "singBoxLogEvent raw =
     (let line = trim_space (strip_ansi raw); upper = map upper_char line in
      if line = [] then None
      else Some (if str_contains upper ''ERROR'' \<or> str_contains upper ''FATAL'' then ''ERROR''
                 else if str_contains upper ''WARN'' then ''WARN'' else ''INFO'', ''[sing-box] '' @ line))"

definition collectSingBoxLogs :: "string list res \<Rightarrow> connManager \<Rightarrow> connManager" where
  "collectSingBoxLogs answer c =
     (case answer of
        Inl e \<Rightarrow> c
      | Inr lines \<Rightarrow>
          fold (\<lambda>raw c. case singBoxLogEvent raw of None \<Rightarrow> c | Some (level, message) \<Rightarrow> recordLog level message c) lines c)"

text \<open>
  The loops of \<^verbatim>\<open>serveConnected\<close> and \<^verbatim>\<open>serveSOCKSConnected\<close>; the metrics of a tick are not modelled.
  A SOCKS connection has no core and no ticker: such events are not selected.
\<close>

definition ctxDone :: "connRun \<Rightarrow> connRun" where
  "ctxDone r = r\<lparr>rn_cancelled := True\<rparr>"

definition controlLost ::
  "connEnv \<Rightarrow> sessionState \<Rightarrow> (nat \<Rightarrow> recoveryAttempt) \<Rightarrow> unit stmt" where
  "controlLost env st tries =
     bindR (ctxGuard env) (\<lambda>_.
     bindR (logR ''WARN'' ''gateway control channel closed; reconnecting'') (\<lambda>_.
     bindR (\<lambda>r. case recoverGatewayControl env tries r of (e, r') \<Rightarrow> (Some e, r')) (\<lambda>e.
     case e of
       Some err \<Rightarrow>
         bindR (ctxGuard env) (\<lambda>_. failR env st ''Gateway control channel closed; reconnect required'' err)
     | None \<Rightarrow> logR ''INFO'' ''gateway control channel restored'')))"

fun serveConnected :: "connEnv \<Rightarrow> sessionState \<Rightarrow> serveEvent list \<Rightarrow> unit stmt" where
  "serveConnected env st [] =
     bindR (actR (upd (collectSingBoxLogs (ce_flush env)) \<circ> ctxDone)) (\<lambda>_. (\<lambda>r. (None, r)))"
| "serveConnected env st (CtxDone # events) =
     bindR (actR (upd (collectSingBoxLogs (ce_flush env)) \<circ> ctxDone)) (\<lambda>_. (\<lambda>r. (None, r)))"
| "serveConnected env st (CoreDone answer # events) =
     bindR (actR (upd (collectSingBoxLogs (ce_flush env)))) (\<lambda>_.
     bindR (ctxGuard env) (\<lambda>_.
     failR env st ''sing-box TUN exited unexpectedly''
       (case answer of None \<Rightarrow> Errorf ''sing-box stopped unexpectedly'' | Some e \<Rightarrow> e)))"
| "serveConnected env st (ControlLost tries # events) =
     bindR (controlLost env st tries) (\<lambda>_. serveConnected env st events)"
| "serveConnected env st (Ticked answer # events) =
     bindR (actR (upd (collectSingBoxLogs answer))) (\<lambda>_. serveConnected env st events)"

fun serveSOCKSConnected :: "connEnv \<Rightarrow> sessionState \<Rightarrow> serveEvent list \<Rightarrow> unit stmt" where
  "serveSOCKSConnected env st [] = bindR (actR ctxDone) (\<lambda>_. (\<lambda>r. (None, r)))"
| "serveSOCKSConnected env st (CtxDone # events) = bindR (actR ctxDone) (\<lambda>_. (\<lambda>r. (None, r)))"
| "serveSOCKSConnected env st (ControlLost tries # events) =
     bindR (controlLost env st tries) (\<lambda>_. serveSOCKSConnected env st events)"
| "serveSOCKSConnected env st (_ # events) = serveSOCKSConnected env st events"

section \<open>The whole run\<close>

record prepared =
  pd_caps :: capabilities
  pd_network :: discovered
  pd_dns :: string
  pd_bridge :: string
  pd_state :: sessionState

definition prepare :: "connEnv \<Rightarrow> connRequest \<Rightarrow> prepared stmt" where
  "prepare env q =
     bindR (checkAccess env q) (\<lambda>(caps, st).
     bindR (prepareGateway env caps st) (\<lambda>(gateway, st).
     bindR (discoverNetwork env q caps st) (\<lambda>(d, dnsNS, st).
     bindR (openChannel env q gateway st) (\<lambda>address.
     bindR (startBridge env q address st) (\<lambda>(bridge, bridgeAddr).
     askR (\<lambda>_. \<lparr>pd_caps = caps, pd_network = d, pd_dns = dnsNS, pd_bridge = bridgeAddr, pd_state = st\<rparr>))))))"

definition runBody :: "connEnv \<Rightarrow> connRequest \<Rightarrow> unit stmt" where
  "runBody env q =
     bindR (prepare env q) (\<lambda>p.
     if cq_Mode q = ConnectionModeSOCKS
     then bindR (exposeSOCKS env q (pd_bridge p) (pd_state p)) (\<lambda>st. serveSOCKSConnected env st (ce_events env))
     else bindR (exposeTUN env q (pd_caps p) (pd_network p) (pd_bridge p) (pd_dns p) (pd_state p)) (\<lambda>st.
            serveConnected env st (ce_events env)))"

text \<open>What calling a closer does; those of the handles have no effect on the manager.\<close>

definition closerEffect :: "connEnv \<Rightarrow> nat \<Rightarrow> connRun \<Rightarrow> connRun" where
  "closerEffect env i r =
     (if i = closeIntercept
      then if rn_interceptClosed r then r
           else (upd (\<lambda>c. c\<lparr>cm_session := (cm_session c)\<lparr>se_intercept :=
                   (case StopAll (\<lambda>g _. (None, g)) (ce_release env) (se_intercept (cm_session c)) () of (_, ic, _) \<Rightarrow> ic)\<rparr>\<rparr>) r)
                 \<lparr>rn_interceptClosed := True\<rparr>
      else if i = featureBindings
      then upd (\<lambda>c. let m = cm_session c;
                       m1 = m\<lparr>se_pf := SetTrafficDialer [] False (snd (StopRouted (se_pf m)))\<rparr>
                   in c\<lparr>cm_session := (if cm_shuttingDown c then m1 else persistPortForwards (ce_senv env) m1),
                        cm_tracker := False\<rparr>) r
      else r)"

text \<open>A closer that is a function answers nil.\<close>

definition closerErr :: "connEnv \<Rightarrow> nat \<Rightarrow> goerr option" where
  "closerErr env i = (if i < 4 then None else ce_closeErr env (i - 4))"

text \<open>\<^verbatim>\<open>errors.Join\<close>\<close>

fun joinText :: "goerr list \<Rightarrow> string" where
  "joinText [] = []"
| "joinText [e] = err_text e"
| "joinText (e # es) = err_text e @ [CHR 0x0A] @ joinText es"

definition closeResources :: "connEnv \<Rightarrow> connRun \<Rightarrow> connRun" where
  "closeResources env r =
     (case closeRuntime (closerErr env) (rn_rt r) of
        (errs, rt) \<Rightarrow>
          (let r1 = fold (closerEffect env) (sr_calls rt) (r\<lparr>rn_rt := rt, rn_closed := rn_closed r @ sr_calls rt\<rparr>)
           in if errs = [] then r1 else upd (recordLog ''ERROR'' (''close session runtime: '' @ joinText errs)) r1))"

text \<open>
  The deferred function. \<^verbatim>\<open>m.done\<close> is this run's own until this function resets it, since \<^verbatim>\<open>Connect\<close>
  refuses while \<^verbatim>\<open>m.cancel\<close> is set.
\<close>

definition finishRun :: "connEnv \<Rightarrow> connRun \<Rightarrow> connRun" where
  "finishRun env r0 =
     (let r1 = tick env (closeResources env r0);
          current = cm_state (rn_c r1);
          r2 = (if rn_cancelled r1 \<and> ps_Phase current \<noteq> PhaseIdle
                then upd (hubPublish (idleState current) \<circ> recordLog ''INFO'' ''disconnected'') r1 else r1)
      in upd (\<lambda>c. c\<lparr>cm_active := False, cm_runningCore := None\<rparr>) r2)"

definition newRun :: "connManager \<Rightarrow> connRun" where
  "newRun c = \<lparr>rn_c = c, rn_rt = newSessionRuntime, rn_clock = 0, rn_cancelled = False, rn_opened = [], rn_closed = [],
     rn_bridgeGateway = [], rn_interceptClosed = False, rn_panicked = False\<rparr>"

definition runSession :: "connEnv \<Rightarrow> connRequest \<Rightarrow> connManager \<Rightarrow> connRun" where
  "runSession env q c = finishRun env (snd (runBody env q (newRun c)))"

text \<open>\<^verbatim>\<open>Connect\<close>: the request it accepts, for which it starts \<^verbatim>\<open>run\<close>.\<close>

definition Connect :: "connRequest \<Rightarrow> connManager \<Rightarrow> connRequest res \<times> connManager" where
  "Connect q0 c =
     (let rejected = (\<lambda>level e. (Inl e, recordLog level (''connection request rejected: '' @ err_text e) c)) in
      if cq_Context q0 = [] then rejected ''ERROR'' (Errorf ''context is required'')
      else
        let q = q0\<lparr>cq_Namespace := (if cq_Namespace q0 = [] then ''default'' else cq_Namespace q0),
                   cq_Mode := (if cq_Mode q0 = [] then ConnectionModeTUN else cq_Mode q0)\<rparr>
        in if cq_Mode q \<noteq> ConnectionModeTUN \<and> cq_Mode q \<noteq> ConnectionModeSOCKS
           then rejected ''ERROR'' (Errorf (''unsupported connection mode '' @ quote (cq_Mode q)))
           else if cm_active c then rejected ''WARN'' (Errorf ''a connection is already active'')
           else (Inr q, c\<lparr>cm_active := True\<rparr>))"

section \<open>Disconnecting: lifecycle.go\<close>

definition markDisconnected :: "senv \<Rightarrow> string \<Rightarrow> string \<Rightarrow> connManager \<Rightarrow> connManager option" where
  "markDisconnected env contextName namespace c =
     (if contextName = [] then Some c
      else case markConnected env ''persist disconnected state: '' contextName namespace False (cm_session c) of
             None \<Rightarrow> None
           | Some m \<Rightarrow> Some (c\<lparr>cm_session := m\<rparr>))"

text \<open>
  \<open>ended c\<close> is the manager once the run that was cancelled has ended, \<open>None\<close> when that takes longer
  than the 25 seconds. The result is \<open>None\<close> where the process panics.
\<close>

definition disconnect ::
  "senv \<Rightarrow> (connManager \<Rightarrow> connManager option) \<Rightarrow> bool \<Rightarrow> connManager \<Rightarrow> (goerr option \<times> connManager) option" where
  "disconnect env ended clearConnected c =
     (let st = cm_state c;
          clear = (\<lambda>c. if clearConnected
                       then (case markDisconnected env (ps_Context st) (ps_Namespace st) c of
                               None \<Rightarrow> None | Some c' \<Rightarrow> Some (None, c'))
                       else Some (None, c))
      in if \<not> cm_active c then clear (hubPublish (idleState st) c)
         else case ended c of
                Some c' \<Rightarrow> clear c'
              | None \<Rightarrow> Some (Some (Errorf ''timed out cleaning up the active connection''),
                              recordLog ''ERROR'' ''timed out cleaning up the active connection'' c))"

definition Disconnect :: "senv \<Rightarrow> (connManager \<Rightarrow> connManager option) \<Rightarrow> connManager \<Rightarrow> (goerr option \<times> connManager) option" where
  "Disconnect env ended c = disconnect env ended True (recordLog ''INFO'' ''disconnect requested'' c)"

definition Shutdown ::
  "(string \<Rightarrow> senv) \<Rightarrow> senv \<Rightarrow> (connManager \<Rightarrow> connManager option) \<Rightarrow> connManager \<Rightarrow> (goerr option \<times> connManager) option" where
  "Shutdown env env1 ended c0 =
     (let c1 = (recordLog ''INFO'' ''application shutdown started; preserving session restore state'' c0)\<lparr>cm_shuttingDown := True\<rparr>
      in case PersistShutdown env env1 (cm_session c1) of
           None \<Rightarrow> None
         | Some m \<Rightarrow>
             disconnect env1 ended False (c1\<lparr>cm_session := m\<lparr>se_pf := snd (pfStopAll (se_pf m))\<rparr>\<rparr>))"

end
