(* ===== verification/Connection.thy ===== *)
theory Connection
  imports Connect
begin

text \<open>
  What holds of a connection from request to teardown: a calculus for the statements of \<^verbatim>\<open>run\<close>, the
  properties that every stage keeps (the locale \<open>steady\<close>), the end of a run, what precedes the phase
  connected, and the recovery of the control channel.
\<close>


section \<open>Reasoning about a run\<close>

text \<open>
  \<open>triple P m Q X\<close>: from a state with \<open>P\<close>, a statement that goes on does so with \<open>Q\<close> of its value,
  and one that returns leaves a state with \<open>X\<close>.
\<close>

definition triple :: "(connRun \<Rightarrow> bool) \<Rightarrow> 'a stmt \<Rightarrow> ('a \<Rightarrow> connRun \<Rightarrow> bool) \<Rightarrow> (connRun \<Rightarrow> bool) \<Rightarrow> bool" where
  "triple P m Q X \<longleftrightarrow> (\<forall>r. P r \<longrightarrow> (case fst (m r) of None \<Rightarrow> X (snd (m r)) | Some x \<Rightarrow> Q x (snd (m r))))"

lemma tripleI: "(\<And>r x r'. P r \<Longrightarrow> m r = (Some x, r') \<Longrightarrow> Q x r') \<Longrightarrow> (\<And>r r'. P r \<Longrightarrow> m r = (None, r') \<Longrightarrow> X r') \<Longrightarrow> triple P m Q X"
  unfolding triple_def by (metis (no_types, lifting) option.case_eq_if option.collapse prod.collapse)

lemma triple_None: "triple P m Q X \<Longrightarrow> P r \<Longrightarrow> fst (m r) = None \<Longrightarrow> X (snd (m r))"
  by (fastforce simp: triple_def split: option.splits)

lemma triple_Some: "triple P m Q X \<Longrightarrow> P r \<Longrightarrow> fst (m r) = Some x \<Longrightarrow> Q x (snd (m r))"
  by (fastforce simp: triple_def split: option.splits)

lemma triple_end: "triple P m (\<lambda>_. X) X \<Longrightarrow> P r \<Longrightarrow> X (snd (m r))"
  by (fastforce simp: triple_def split: option.splits)

lemma triple_bindR:
  assumes "triple P m Q X" and "\<And>x. triple (Q x) (f x) R X"
  shows "triple P (bindR m f) R X"
  unfolding triple_def
proof (intro allI impI)
  fix r assume P: "P r"
  show "case fst (bindR m f r) of None \<Rightarrow> X (snd (bindR m f r)) | Some x \<Rightarrow> R x (snd (bindR m f r))"
  proof (cases "fst (m r)")
    case None
    with triple_None [OF assms(1) P] show ?thesis by (simp add: bindR_def case_prod_beta)
  next
    case (Some x)
    with triple_Some [OF assms(1) P] have "Q x (snd (m r))" by simp
    with assms(2) [of x] have c: "case fst (f x (snd (m r))) of None \<Rightarrow> X (snd (f x (snd (m r)))) | Some y \<Rightarrow> R y (snd (f x (snd (m r))))"
      by (simp add: triple_def)
    have e: "bindR m f r = f x (snd (m r))" using Some by (simp add: bindR_def case_prod_beta)
    from c show ?thesis unfolding e .
  qed
qed

lemma triple_conseq: "triple P m Q X \<Longrightarrow> (\<And>r. P' r \<Longrightarrow> P r) \<Longrightarrow> (\<And>x r. Q x r \<Longrightarrow> Q' x r) \<Longrightarrow> (\<And>r. X r \<Longrightarrow> X' r) \<Longrightarrow> triple P' m Q' X'"
  by (fastforce simp: triple_def split: option.splits)

abbreviation keeps :: "(connRun \<Rightarrow> bool) \<Rightarrow> 'a stmt \<Rightarrow> bool" where
  "keeps P m \<equiv> triple P m (\<lambda>_. P) P"

named_theorems keep

lemma keeps_bindR [keep]: "keeps P m \<Longrightarrow> (\<And>x. keeps P (f x)) \<Longrightarrow> keeps P (bindR m f)"
  by (rule triple_bindR)

lemma keeps_actR: "(\<And>r. P r \<Longrightarrow> P (f r)) \<Longrightarrow> keeps P (actR f)"
  by (simp add: triple_def actR_def)

lemma keeps_askR [keep]: "keeps P (askR f)"
  by (simp add: triple_def askR_def)

lemma keeps_return [keep]: "keeps P (\<lambda>r. (v, r))"
  by (simp add: triple_def split: option.split)

lemma keeps_if [keep]: "keeps P m \<Longrightarrow> keeps P m' \<Longrightarrow> keeps P (if b then m else m')"
  by simp

lemma keeps_let [keep]: "(\<And>x. keeps P (f x)) \<Longrightarrow> keeps P (Let v f)"
  by simp

lemma keeps_case_prod [keep]: "(\<And>x y. keeps P (f x y)) \<Longrightarrow> keeps P (case p of (x, y) \<Rightarrow> f x y)"
  by (cases p) simp

lemma keeps_case_sum [keep]: "(\<And>x. keeps P (f x)) \<Longrightarrow> (\<And>x. keeps P (g x)) \<Longrightarrow> keeps P (case s of Inl x \<Rightarrow> f x | Inr x \<Rightarrow> g x)"
  by (cases s) simp_all

lemma keeps_case_option [keep]: "keeps P m \<Longrightarrow> (\<And>x. keeps P (f x)) \<Longrightarrow> keeps P (case s of None \<Rightarrow> m | Some x \<Rightarrow> f x)"
  by (cases s) simp_all

section \<open>What a connection leaves behind\<close>

text \<open>
  What a change of the manager must not do behind the back of the closers: activate the intercepts,
  or set the dialer or the tracker of the features.
\<close>

definition intercepting :: "connManager \<Rightarrow> bool" where
  "intercepting c \<longleftrightarrow> m_active (se_intercept (cm_session c))"

definition bound :: "connManager \<Rightarrow> bool" where
  "bound c \<longleftrightarrow> pm_trafficDialer (se_pf (cm_session c)) \<or> cm_tracker c"

definition calm :: "connManager \<Rightarrow> connManager \<Rightarrow> bool" where
  "calm c c' \<longleftrightarrow> (intercepting c' \<longrightarrow> intercepting c) \<and> (bound c' \<longrightarrow> bound c)"

definition quiet :: "(connManager \<Rightarrow> connManager) \<Rightarrow> bool" where
  "quiet f \<longleftrightarrow> (\<forall>c. calm c (f c))"

lemma quietI:
  "(\<And>c. intercepting (f c) \<Longrightarrow> intercepting c) \<Longrightarrow> (\<And>c. bound (f c) \<Longrightarrow> bound c) \<Longrightarrow> quiet f"
  unfolding quiet_def calm_def by blast

lemma quietD: "quiet f \<Longrightarrow> intercepting (f c) \<Longrightarrow> intercepting c" "quiet f \<Longrightarrow> bound (f c) \<Longrightarrow> bound c"
  unfolding quiet_def calm_def by blast+

lemma quiet_comp: "quiet f \<Longrightarrow> quiet g \<Longrightarrow> quiet (f \<circ> g)"
  by (rule quietI) (auto dest: quietD)

lemma quiet_recordLog: "quiet (recordLog level message)"
  by (rule quietI) (simp_all add: recordLog_def intercepting_def bound_def)

lemma quiet_hubPublish: "quiet (hubPublish st)"
  by (rule quietI) (simp_all add: hubPublish_def intercepting_def bound_def)

lemma quiet_core: "quiet (\<lambda>c. c\<lparr>cm_runningCore := x\<rparr>)"
  by (rule quietI) (simp_all add: intercepting_def bound_def)

lemma quiet_probe: "quiet (probeClusterDNS answer st)"
  by (rule quietI) (auto simp: probeClusterDNS_def dest: quietD(1) [OF quiet_recordLog] quietD(2) [OF quiet_recordLog]
      quietD(1) [OF quiet_hubPublish] quietD(2) [OF quiet_hubPublish] split: option.splits if_splits)

lemma quiet_fold: "(\<And>x. quiet (f x)) \<Longrightarrow> quiet (fold f xs)"
  by (induction xs) (auto simp: id_def intro: quiet_comp quietI)

lemma quiet_collect: "quiet (collectSingBoxLogs answer)"
proof (cases answer)
  case (Inr lines)
  have "quiet (fold (\<lambda>raw c. case singBoxLogEvent raw of None \<Rightarrow> c | Some (level, message) \<Rightarrow> recordLog level message c) lines)"
    by (rule quiet_fold) (rule quietI; auto split: option.splits dest: quietD(1) [OF quiet_recordLog] quietD(2) [OF quiet_recordLog])
  with Inr show ?thesis by (simp add: collectSingBoxLogs_def [abs_def])
qed (simp add: collectSingBoxLogs_def [abs_def] quietI)

lemma storeCall_rest: "se_pf (storeCall p f m) = se_pf m" "se_intercept (storeCall p f m) = se_intercept m"
  by simp_all

lemma markConnected_rest:
  "markConnected env p n ns b m = Some m' \<Longrightarrow> se_pf m' = se_pf m \<and> se_intercept m' = se_intercept m"
  by (auto simp: markConnected_def Let_def split: option.splits prod.splits ret.splits)

lemma recoverAt_rest:
  "recoverAt d ip a c = (e, c') \<Longrightarrow> calm c c'"
  by (auto simp: calm_def recoverAt_def recoverControlAt_def intercepting_def bound_def Let_def
      split: prod.splits if_splits sum.splits bool.splits)


lemma pfStart_dialer: "pm_trafficDialer (snd (pfStart api (\<lambda>p. p) pf request)) = pm_trafficDialer pf"
  by (auto simp: pfStart_def pfCommit_def Let_def split: prod.splits sum.splits)

lemma restoreOne_dialer:
  "restoreOne api n item m = (b, m') \<Longrightarrow>
    pm_trafficDialer (se_pf m') = pm_trafficDialer (se_pf m) \<and> se_intercept m' = se_intercept m"
  using pfStart_dialer [of api "se_pf m" "specRequest n item"]
  by (auto simp: restoreOne_def Let_def split: prod.splits sum.splits)

lemma restoreForwards_dialer:
  "restorePortForwards api n items t m = (t', m') \<Longrightarrow>
    pm_trafficDialer (se_pf m') = pm_trafficDialer (se_pf m) \<and> se_intercept m' = se_intercept m"
proof (induction items arbitrary: api t m)
  case (Cons item items)
  then show ?case
    by (auto split: if_splits prod.splits bool.splits dest!: restoreOne_dialer)
qed simp

lemma quiet_restoreNative:
  "quiet (\<lambda>c. c\<lparr>cm_session := restoreNativePortForwards api n (cm_session c)\<rparr>)"
  by (rule quietI) (auto simp: restoreNativePortForwards_def intercepting_def bound_def Let_def
      split: option.splits if_splits prod.splits dest!: restoreForwards_dialer)

lemmas quiet_steps = quiet_recordLog quiet_hubPublish quiet_core quiet_probe quiet_collect quiet_restoreNative quiet_comp

text \<open>
  A property of a run that quiet changes, checks of the context, handles that are opened and
  registered, handles that are opened and closed, and further closers leave alone: no stage of a
  connection breaks it.
\<close>

locale steady =
  fixes env :: connEnv and P :: "connRun \<Rightarrow> bool"
  assumes P_set: "calm (rn_c r) c \<Longrightarrow> P r \<Longrightarrow> P (r\<lparr>rn_c := c\<rparr>)"
    and P_tick: "P r \<Longrightarrow> P (tick env r)"
    and P_done: "P r \<Longrightarrow> P (ctxDone r)"
    and P_acquire: "P r \<Longrightarrow> P (addRes name (handleCloser i) (opened i r))"
    and P_own: "P r \<Longrightarrow> i < 4 \<Longrightarrow> P (addRes name i r)"
    and P_drop: "P r \<Longrightarrow> P (closeNow i (opened i r))"
    and P_bridge: "P r \<Longrightarrow> P (r\<lparr>rn_bridgeGateway := a\<rparr>)"
    and P_panic: "P r \<Longrightarrow> P (r\<lparr>rn_panicked := True\<rparr>)"
begin

lemma P_upd: "quiet f \<Longrightarrow> P r \<Longrightarrow> P (upd f r)"
  unfolding upd_def by (rule P_set) (simp_all add: quiet_def)

lemma guard [keep]: "keeps P (ctxGuard env)"
  using P_tick by (simp add: triple_def ctxGuard_def)

lemma change: "quiet f \<Longrightarrow> keeps P (actR (upd f))"
  by (rule keeps_actR) (rule P_upd)

lemma logs [keep]: "keeps P (logR level message)"
  unfolding logR_def by (rule change) (rule quiet_recordLog)

lemma publishes [keep]: "keeps P (publishR st)"
  unfolding publishR_def by (rule change) (rule quiet_hubPublish)

lemma fails [keep]: "keeps P (failR env st message e)"
  using P_tick P_upd [OF quiet_comp [OF quiet_recordLog quiet_hubPublish]] by (simp add: triple_def failR_def)

lemma tries [keep]: "keeps P (tryR env st message x)"
  unfolding tryR_def by (intro keep)

lemma logsAll [keep]: "keeps P (logAll level lines)"
  by (induction lines) (auto intro!: keep keeps_actR)

lemma acquires [keep]: "keeps P (acquireR name i)"
  unfolding acquireR_def by (rule keeps_actR) (simp add: P_acquire)

lemma owns: "i < 4 \<Longrightarrow> keeps P (actR (addRes name i))"
  by (rule keeps_actR) (rule P_own)

lemma access: "keeps P (checkAccess env q)"
  unfolding checkAccess_def by (intro keep)

lemma gateway: "keeps P (prepareGateway env caps st)"
  unfolding prepareGateway_def by (intro keep)

lemma discover: "keeps P (discoverNetwork env q caps st)"
  unfolding discoverNetwork_def by (intro keep)

lemma listen [keep]: "keeps P (listenBridge env q address)"
  unfolding listenBridge_def by (intro keep)

lemma bridge: "keeps P (startBridge env q address st)"
  unfolding startBridge_def by (intro keep owns keeps_actR P_bridge) (simp add: stopBridge_def)

lemma persists [keep]: "keeps P (persistConnectedMode env q)"
proof (rule tripleI)
  fix r x r'
  assume "P r" and m: "persistConnectedMode env q r = (Some x, r')"
  then show "P r'"
    by (auto simp: persistConnectedMode_def Let_def upd_def calm_def intercepting_def bound_def
        split: option.splits dest!: markConnected_rest intro!: P_set)
next
  fix r r'
  assume "P r" and "persistConnectedMode env q r = (None, r')"
  then show "P r'"
    by (auto simp: persistConnectedMode_def Let_def upd_def calm_def intercepting_def bound_def
        split: option.splits intro!: P_panic P_set)
qed

lemma watches [keep]: "keeps P (watchInventory env st)"
  unfolding watchInventory_def by (intro keep)

lemma socks: "keeps P (exposeSOCKS env q bridgeAddr st)"
  unfolding exposeSOCKS_def sessionR_def by (intro keep change quiet_restoreNative)

lemma core: "keeps P (startCore env q caps d bridgeAddr dnsNS st)"
  unfolding startCore_def by (intro keep change quiet_core)

lemma replace:
  assumes "P r" and "replaceGatewayPortForward env a r = (e, r')"
  shows "P r'"
proof -
  have c: "calm (rn_c (opened fw r)) c" if "recoverAt d ip ad (rn_c (opened fw r)) = (e', c)" for fw d ip ad e' c
    using recoverAt_rest [OF that] .
  have drop: "P (closeNow fw ((opened fw r)\<lparr>rn_c := c\<rparr>))" if "calm (rn_c r) c" for fw c
    using P_set [OF _ P_drop [OF assms(1)], where c = c and i1 = fw] that by (cases r) (simp add: closeNow_def opened_def)
  have add: "P (addRes name (handleCloser fw) ((opened fw r)\<lparr>rn_c := c, rn_bridgeGateway := a\<rparr>))" if "calm (rn_c r) c" for fw c a name
    using P_bridge [OF P_set [OF _ P_acquire [OF assms(1)]], where c1 = c and i2 = fw and name2 = name and a = a] that by (cases r) (simp add: addRes_def opened_def)
  have o: "rn_c (opened fw r) = rn_c r" for fw by (simp add: opened_def)
  from assms show ?thesis
    by (auto simp: replaceGatewayPortForward_def Let_def o split: sum.splits prod.splits option.splits if_splits
        intro!: drop add dest!: recoverAt_rest)
qed

lemma recovers: "P r \<Longrightarrow> recoverLoop env tries attempts lastErr r = (e, r') \<Longrightarrow> P r'"
proof (induction attempts arbitrary: lastErr r)
  case (Cons attempt attempts)
  have first: "P r1" if "recoverControl a r = (e1, r1)" for a e1 r1
    using that Cons.prems(1) by (auto simp: recoverControl_def Let_def split: prod.splits intro!: P_set dest!: recoverAt_rest)
  have step: "P r1" if "(if attempt = 0 then recoverControl (tries attempt) r else replaceGatewayPortForward env (tries attempt) r) = (e1, r1)" for e1 r1
    using that first replace [OF Cons.prems(1)] by (auto split: if_splits)
  show ?case
  proof (cases "controlRecoveryDelay attempt > 0 \<and> (rn_cancelled r \<or> ra_cancelled (tries attempt))")
    case True
    with Cons.prems P_done [OF Cons.prems(1)] show ?thesis by (auto simp: ctxDone_def)
  next
    case False
    obtain e1 r1 where s: "(if attempt = 0 then recoverControl (tries attempt) r
        else replaceGatewayPortForward env (tries attempt) r) = (e1, r1)" by fastforce
    show ?thesis
    proof (cases e1)
      case None
      with Cons.prems(2) step [OF s] show ?thesis unfolding recoverLoop.simps s using False by simp
    next
      case (Some a)
      with Cons.prems(2) obtain w where "recoverLoop env tries attempts (Some a) (upd (recordLog ''WARN'' w) r1) = (e, r')"
        unfolding recoverLoop.simps s using False by auto
      then show ?thesis by (rule Cons.IH [OF P_upd [OF quiet_recordLog step [OF s]]])
    qed
  qed
qed simp

lemma lost [keep]: "keeps P (controlLost env st tries)"
proof -
  have "keeps P (\<lambda>r. case recoverGatewayControl env tries r of (e, r') \<Rightarrow> (Some e, r'))"
    by (rule tripleI) (auto simp: recoverGatewayControl_def split: prod.splits dest: recovers)
  then show ?thesis unfolding controlLost_def by (intro keep)
qed

lemma dones [keep]: "keeps P (actR ctxDone)"
  by (rule keeps_actR) (rule P_done)

lemma flushes [keep]: "keeps P (actR (upd (collectSingBoxLogs answer) \<circ> ctxDone))"
  by (rule keeps_actR) (simp add: P_upd P_done quiet_collect)

lemma serves: "keeps P (serveConnected env st events)"
proof (induction events)
  case (Cons event events)
  then show ?case by (cases event) (simp_all, (intro keep change quiet_collect; assumption)+)
qed (simp, intro keep)

lemma servesSOCKS: "keeps P (serveSOCKSConnected env st events)"
proof (induction events)
  case (Cons event events)
  then show ?case by (cases event) (simp_all, (intro keep; assumption)+)
qed (simp, intro keep)

end

text \<open>
  The books of a run: a handle has been registered or closed as often as it was opened. The guards:
  whoever could find the intercepts active, or the features bound, also finds the closer that ends it.
\<close>

definition closers :: "connRun \<Rightarrow> nat list" where
  "closers r = map rr_closer (sr_resources (rn_rt r))"

definition books :: "connRun \<Rightarrow> bool" where
  "books r \<longleftrightarrow> (\<forall>i. count_list (rn_opened r) i = count_list (closers r) (handleCloser i) + count_list (rn_closed r) (handleCloser i)) \<and>
     \<not> sr_once (rn_rt r) \<and> sr_calls (rn_rt r) = [] \<and> \<not> rn_interceptClosed r"

definition guarded :: "connRun \<Rightarrow> bool" where
  "guarded r \<longleftrightarrow> books r \<and> (intercepting (rn_c r) \<longrightarrow> closeIntercept \<in> set (closers r)) \<and>
     (bound (rn_c r) \<longrightarrow> featureBindings \<in> set (closers r))"

definition guarded1 :: "connRun \<Rightarrow> bool" where
  "guarded1 r \<longleftrightarrow> books r \<and> closeIntercept \<in> set (closers r) \<and> (bound (rn_c r) \<longrightarrow> featureBindings \<in> set (closers r))"

definition guarded2 :: "connRun \<Rightarrow> bool" where
  "guarded2 r \<longleftrightarrow> books r \<and> closeIntercept \<in> set (closers r) \<and> featureBindings \<in> set (closers r)"

lemma count_list_snoc [simp]: "count_list (xs @ [x]) y = count_list xs y + (if x = y then 1 else 0)"
  by (induction xs) auto

lemma closers_simps [simp]:
  "closers (r\<lparr>rn_c := c\<rparr>) = closers r" "closers (tick env r) = closers r" "closers (ctxDone r) = closers r"
  "closers (opened i r) = closers r" "closers (closeNow i r) = closers r" "closers (r\<lparr>rn_bridgeGateway := a\<rparr>) = closers r"
  "closers (r\<lparr>rn_panicked := b\<rparr>) = closers r" "closers (addRes name i r) = closers r @ [i]" "closers (upd f r) = closers r"
  by (simp_all add: closers_def tick_def ctxDone_def opened_def closeNow_def addRes_def addResource_def upd_def)

lemma rn_c_simps [simp]:
  "rn_c (tick env r) = rn_c r" "rn_c (ctxDone r) = rn_c r" "rn_c (opened i r) = rn_c r" "rn_c (closeNow i r) = rn_c r"
  "rn_c (addRes name i r) = rn_c r" "rn_c (upd f r) = f (rn_c r)"
  by (simp_all add: tick_def ctxDone_def opened_def closeNow_def addRes_def upd_def)

lemma books_steps:
  "books (r\<lparr>rn_c := c\<rparr>) = books r" "books (tick env r) = books r" "books (ctxDone r) = books r"
  "books (r\<lparr>rn_bridgeGateway := a\<rparr>) = books r" "books (r\<lparr>rn_panicked := b\<rparr>) = books r" "books (upd f r) = books r"
  "books r \<Longrightarrow> books (addRes name (handleCloser i) (opened i r))" "books r \<Longrightarrow> books (closeNow i (opened i r))"
  "books r \<Longrightarrow> j < 4 \<Longrightarrow> books (addRes name j r)"
  unfolding books_def closers_simps
  by (auto simp: tick_def ctxDone_def opened_def closeNow_def addRes_def addResource_def upd_def handleCloser_def)

interpretation g0: steady env guarded
  by unfold_locales (auto simp: guarded_def books_steps calm_def)

interpretation g1: steady env guarded1
  by unfold_locales (auto simp: guarded1_def books_steps calm_def)

interpretation g2: steady env guarded2
  by unfold_locales (auto simp: guarded2_def books_steps calm_def)


lemma triple_actR: "(\<And>r. P r \<Longrightarrow> Q () (f r)) \<Longrightarrow> triple P (actR f) Q X"
  by (simp add: triple_def actR_def)

lemma triple_case_prod: "(\<And>x y. triple P (f x y) Q X) \<Longrightarrow> triple P (case p of (x, y) \<Rightarrow> f x y) Q X"
  by (cases p) simp

lemma triple_askR: "(\<And>r. P r \<Longrightarrow> Q (f r) r) \<Longrightarrow> triple P (askR f) Q X"
  by (simp add: triple_def askR_def)

definition starting :: "connRun \<Rightarrow> bool" where
  "starting r \<longleftrightarrow> books r \<and> (bound (rn_c r) \<longrightarrow> featureBindings \<in> set (closers r))"

lemma guarded1D: "guarded1 r \<Longrightarrow> guarded r" and guarded2D: "guarded2 r \<Longrightarrow> guarded r"
  by (auto simp: guarded_def guarded1_def guarded2_def)


lemma bound_recordLog [simp]: "bound (recordLog l t c) = bound c" "intercepting (recordLog l t c) = intercepting c"
  by (simp_all add: recordLog_def bound_def intercepting_def)

lemma startIntercept_triple: "triple guarded (startIntercept env q gateway address token st) (\<lambda>_. starting) guarded"
proof (rule tripleI)
  fix r x r'
  assume g: "guarded r" and "startIntercept env q gateway address token st r = (Some x, r')"
  then show "starting r'"
    by (auto simp: startIntercept_def Let_def failR_def guarded_def starting_def books_steps bound_def
        split: prod.splits option.splits)
next
  fix r r'
  assume g: "guarded r" and s: "startIntercept env q gateway address token st r = (None, r')"
  obtain e ic where st: "Start (se_intercept (cm_session (rn_c r))) (cq_Context q) (gw_IP gateway) address (Inr token) (ce_dial env) = (e, ic)"
    by fastforce
  with s obtain err where e: "e = Some err" by (auto simp: startIntercept_def Let_def split: option.splits)
  let ?f = "\<lambda>c. c\<lparr>cm_session := (cm_session c)\<lparr>se_intercept := ic\<rparr>\<rparr>"
  have "m_active ic = m_active (se_intercept (cm_session (rn_c r)))"
    using st e by (auto simp: Start_def split: if_splits prod.splits option.splits)
  then have "guarded (upd ?f r)"
    using g by (auto simp: guarded_def books_steps bound_def intercepting_def)
  moreover have "r' = snd (failR env st ''Could not start the Gateway control channel'' err (upd ?f r) :: unit option \<times> connRun)"
    using s by (simp add: startIntercept_def st e)
  ultimately show "guarded r'" using triple_end [OF g0.fails] by blast
qed

lemma openChannel_triple: "triple guarded (openChannel env q gateway st) (\<lambda>_. guarded1) guarded"
proof -
  have a: "triple starting (actR (addRes n closeIntercept)) (\<lambda>_. guarded1) guarded" for n
    by (rule triple_actR) (auto simp: starting_def guarded1_def books_steps closeIntercept_def)
  have l: "triple starting (logR l t) (\<lambda>_. starting) guarded" for l t
    unfolding logR_def by (rule triple_actR) (simp add: starting_def books_steps)
  have k: "triple guarded1 (askR (\<lambda>_. v)) (\<lambda>_. guarded1) guarded" for v :: string
    by (rule triple_askR)
  show ?thesis
    unfolding openChannel_def
    by (intro triple_case_prod triple_bindR [OF g0.tries] triple_bindR [OF g0.acquires] triple_bindR [OF g0.logs] triple_bindR [OF g0.guard]
        triple_bindR [OF startIntercept_triple] triple_bindR [OF l] triple_bindR [OF a] k)
qed

lemma keeps1: "keeps guarded1 m \<Longrightarrow> triple guarded1 m (\<lambda>_. guarded1) guarded"
  by (erule triple_conseq) (auto dest: guarded1D)

lemma keeps2: "keeps guarded2 m \<Longrightarrow> triple guarded2 m (\<lambda>_. guarded2) guarded"
  by (erule triple_conseq) (auto dest: guarded2D)

lemma prepare_triple: "triple guarded (prepare env q) (\<lambda>_. guarded1) guarded"
  unfolding prepare_def
  by (intro triple_case_prod triple_bindR [OF g0.access] triple_bindR [OF g0.gateway] triple_bindR [OF g0.discover]
      triple_bindR [OF openChannel_triple] triple_bindR [OF keeps1 [OF g1.bridge]] triple_askR)

lemma bindFeatures_triple: "triple guarded1 (bindFeatures q) (\<lambda>_. guarded2) guarded"
proof -
  have "triple guarded1 (bindFeatures q) (\<lambda>_. guarded2) guarded2"
    by (rule tripleI) (auto simp: bindFeatures_def bindR_def actR_def sessionR_def logR_def guarded1_def guarded2_def books_steps
        featureBindings_def closeIntercept_def)
  then show ?thesis by (rule triple_conseq) (auto dest: guarded2D)
qed

lemma exposeTUN_triple: "triple guarded1 (exposeTUN env q caps d bridgeAddr dnsNS st) (\<lambda>_. guarded2) guarded"
proof -
  have free: "keeps guarded2 (actR (upd f))" for f
    by (rule keeps_actR) (simp add: guarded2_def books_steps)
  have own: "keeps guarded1 (if b then actR (addRes n hostRoutes) else actR id)" for b n
    using g1.owns [of hostRoutes] keeps_actR [of guarded1 id] by (simp add: hostRoutes_def)
  show ?thesis
    unfolding exposeTUN_def Let_def sessionR_def
    by (intro triple_bindR [OF keeps1 [OF g1.guard]] triple_bindR [OF keeps1 [OF own]] triple_bindR [OF keeps1 [OF g1.publishes]]
        triple_bindR [OF keeps1 [OF g1.core]] triple_bindR [OF bindFeatures_triple] triple_bindR [OF keeps2 [OF free]]
        triple_bindR [OF keeps2 [OF g2.publishes]] triple_bindR [OF keeps2 [OF g2.logs]] triple_bindR [OF keeps2 [OF g2.persists]]
        triple_bindR [OF keeps2 [OF g2.watches]] triple_askR)
qed

lemma runBody_guarded: "guarded r \<Longrightarrow> guarded (snd (runBody env q r))"
proof -
  have s: "triple guarded2 (serveConnected env st es) (\<lambda>_. guarded) guarded" for st es
    using g2.serves by (rule triple_conseq) (auto dest: guarded2D)
  have t: "triple guarded1 (serveSOCKSConnected env st es) (\<lambda>_. guarded) guarded" for st es
    using g1.servesSOCKS by (rule triple_conseq) (auto dest: guarded1D)
  have "triple guarded1 (if b then bindR (exposeSOCKS env q (pd_bridge p) (pd_state p)) (\<lambda>st. serveSOCKSConnected env st es)
      else bindR (exposeTUN env q (pd_caps p) (pd_network p) (pd_bridge p) (pd_dns p) (pd_state p)) (\<lambda>st. serveConnected env st es))
      (\<lambda>_. guarded) guarded" for b p es
    using triple_bindR [OF keeps1 [OF g1.socks], OF t] triple_bindR [OF exposeTUN_triple, OF s] by (cases b) (simp_all (no_asm_simp))
  then have "triple guarded (runBody env q) (\<lambda>_. guarded) guarded"
    unfolding runBody_def by (rule triple_bindR [OF prepare_triple])
  then show "guarded r \<Longrightarrow> guarded (snd (runBody env q r))" by (rule triple_end)
qed


section \<open>The end of a run\<close>

lemma Stop_active: "Stop unregister e id m g ID = (e', m', g') \<Longrightarrow> m_active m' = m_active m"
  by (auto simp: Stop_def set_stopping_def Let_def split: option.splits if_splits)

lemma stopLoop_active: "stopLoop unregister rel IDs e m g = (e', m', g') \<Longrightarrow> m_active m' = m_active m"
proof (induction IDs arbitrary: e m g)
  case (Cons ID IDs)
  then show ?case by (auto split: prod.splits dest!: Stop_active)
qed simp

lemma StopAll_inactive: "StopAll unregister rel m g = (x, m', g') \<Longrightarrow> \<not> m_active m'"
  by (auto simp: StopAll_def split: prod.splits dest!: stopLoop_active)

lemma storeGroups_rest: "se_pf (storeGroups env gs m) = se_pf m" "se_intercept (storeGroups env gs m) = se_intercept m"
  by (induction env gs m rule: storeGroups.induct) simp_all

lemma persist_rest: "se_pf (persistPortForwards env m) = se_pf m" "se_intercept (persistPortForwards env m) = se_intercept m"
  by (simp_all add: persistPortForwards_def storeGroups_rest split: option.split)

lemma closerEffect_frame [simp]:
  "rn_closed (closerEffect env i r) = rn_closed r" "rn_opened (closerEffect env i r) = rn_opened r"
  "rn_cancelled (closerEffect env i r) = rn_cancelled r" "rn_panicked (closerEffect env i r) = rn_panicked r"
  "rn_clock (closerEffect env i r) = rn_clock r" "rn_rt (closerEffect env i r) = rn_rt r"
  "cm_state (rn_c (closerEffect env i r)) = cm_state (rn_c r)" "cm_published (rn_c (closerEffect env i r)) = cm_published (rn_c r)"
  by (simp_all add: closerEffect_def upd_def Let_def)

lemma fold_closerEffect_frame [simp]:
  "rn_closed (fold (closerEffect env) is r) = rn_closed r" "rn_opened (fold (closerEffect env) is r) = rn_opened r"
  "rn_cancelled (fold (closerEffect env) is r) = rn_cancelled r" "rn_panicked (fold (closerEffect env) is r) = rn_panicked r"
  "rn_clock (fold (closerEffect env) is r) = rn_clock r" "rn_rt (fold (closerEffect env) is r) = rn_rt r"
  "cm_state (rn_c (fold (closerEffect env) is r)) = cm_state (rn_c r)"
  "cm_published (rn_c (fold (closerEffect env) is r)) = cm_published (rn_c r)"
  by (induction "is" arbitrary: r) simp_all

lemma effect_intercept:
  "rn_interceptClosed (closerEffect env i r) = (rn_interceptClosed r \<or> i = closeIntercept)"
  "intercepting (rn_c (closerEffect env i r)) = (intercepting (rn_c r) \<and> (i = closeIntercept \<longrightarrow> rn_interceptClosed r))"
  by (auto simp: closerEffect_def intercepting_def persist_rest upd_def Let_def split: prod.split dest!: StopAll_inactive)

lemma effect_bound: "bound (rn_c (closerEffect env i r)) = (bound (rn_c r) \<and> i \<noteq> featureBindings)"
  by (auto simp: closerEffect_def bound_def persist_rest SetTrafficDialer_def upd_def Let_def featureBindings_def closeIntercept_def)

lemma fold_effect_intercept:
  "(rn_interceptClosed r \<Longrightarrow> \<not> intercepting (rn_c r)) \<Longrightarrow>
    intercepting (rn_c (fold (closerEffect env) is r)) = (intercepting (rn_c r) \<and> closeIntercept \<notin> set is)"
proof (induction "is" arbitrary: r)
  case (Cons i "is")
  have "intercepting (rn_c (fold (closerEffect env) is (closerEffect env i r))) =
      (intercepting (rn_c (closerEffect env i r)) \<and> closeIntercept \<notin> set is)"
    by (rule Cons.IH) (use Cons.prems in \<open>auto simp: effect_intercept\<close>)
  with Cons.prems show ?case by (auto simp: effect_intercept)
qed simp

lemma fold_effect_bound:
  "bound (rn_c (fold (closerEffect env) is r)) = (bound (rn_c r) \<and> featureBindings \<notin> set is)"
  by (induction "is" arbitrary: r) (auto simp: effect_bound)

lemma closeResources_spec:
  assumes "books r"
  shows "rn_closed (closeResources env r) = rn_closed r @ rev (closers r)"
    and "rn_opened (closeResources env r) = rn_opened r" "rn_panicked (closeResources env r) = rn_panicked r"
    and "rn_cancelled (closeResources env r) = rn_cancelled r" "rn_clock (closeResources env r) = rn_clock r"
    and "cm_state (rn_c (closeResources env r)) = cm_state (rn_c r)"
    and "cm_published (rn_c (closeResources env r)) = cm_published (rn_c r)"
    and "intercepting (rn_c (closeResources env r)) = (intercepting (rn_c r) \<and> closeIntercept \<notin> set (closers r))"
    and "bound (rn_c (closeResources env r)) = (bound (rn_c r) \<and> featureBindings \<notin> set (closers r))"
proof -
  obtain errs rt where c: "closeRuntime (closerErr env) (rn_rt r) = (errs, rt)" by fastforce
  with assms have calls: "sr_calls rt = rev (closers r)"
    by (auto simp: closeRuntime_def books_def closeLoop_eq closers_def rev_map)
  let ?s = "r\<lparr>rn_rt := rt, rn_closed := rn_closed r @ rev (closers r)\<rparr>"
  have i: "\<not> rn_interceptClosed ?s" using assms by (simp add: books_def)
  have e: "closeResources env r = (if errs = [] then fold (closerEffect env) (rev (closers r)) ?s
      else upd (recordLog ''ERROR'' (''close session runtime: '' @ joinText errs)) (fold (closerEffect env) (rev (closers r)) ?s))"
    by (simp add: closeResources_def c calls Let_def)
  show "rn_closed (closeResources env r) = rn_closed r @ rev (closers r)"
    "rn_opened (closeResources env r) = rn_opened r" "rn_panicked (closeResources env r) = rn_panicked r"
    "rn_cancelled (closeResources env r) = rn_cancelled r" "rn_clock (closeResources env r) = rn_clock r"
    "cm_state (rn_c (closeResources env r)) = cm_state (rn_c r)"
    "cm_published (rn_c (closeResources env r)) = cm_published (rn_c r)"
    by (simp_all add: e upd_def recordLog_def)
  show "intercepting (rn_c (closeResources env r)) = (intercepting (rn_c r) \<and> closeIntercept \<notin> set (closers r))"
    using i fold_effect_intercept [of ?s env "rev (closers r)"] by (simp add: e)
  show "bound (rn_c (closeResources env r)) = (bound (rn_c r) \<and> featureBindings \<notin> set (closers r))"
    by (simp add: e fold_effect_bound)
qed

section \<open>How a run ends\<close>

text \<open>A statement that returns: the context is done, or the failure is published, or the process panics.\<close>

definition ended :: "connRun \<Rightarrow> bool" where
  "ended r \<longleftrightarrow> rn_cancelled r \<or> rn_panicked r \<or> ps_Phase (cm_state (rn_c r)) = PhaseError"

abbreviation ends :: "'a stmt \<Rightarrow> bool" where
  "ends m \<equiv> triple (\<lambda>_. True) m (\<lambda>_ _. True) ended"

named_theorems ending

lemma ends_bindR [ending]: "ends m \<Longrightarrow> (\<And>x. ends (f x)) \<Longrightarrow> ends (bindR m f)"
  by (rule triple_bindR)

lemma ends_actR [ending]: "ends (actR f)"
  by (simp add: triple_def actR_def)

lemma ends_askR [ending]: "ends (askR f)"
  by (simp add: triple_def askR_def)

lemma ends_guard [ending]: "ends (ctxGuard env)"
  by (simp add: triple_def ctxGuard_def tick_def ended_def)

lemma ends_failR [ending]: "ends (failR env st message e)"
  by (simp add: triple_def failR_def tick_def ended_def upd_def recordLog_def hubPublish_def failState_def)

lemma failR_ended: "failR env st message e r = (x, r') \<Longrightarrow> ended r'"
  by (auto simp: failR_def tick_def ended_def upd_def recordLog_def hubPublish_def failState_def split: if_splits)

lemma ends_Some [ending]: "ends (\<lambda>r. (Some (f r), g r))"
  by (simp add: triple_def)

lemma ends_tryR [ending]: "ends (tryR env st message x)"
  unfolding tryR_def by (cases x) (simp_all add: ends_failR ends_Some)

lemma ends_prod [ending]: "(\<And>x y. ends (f x y)) \<Longrightarrow> ends (case p of (x, y) \<Rightarrow> f x y)"
  by (cases p) simp

lemma ends_sum [ending]: "(\<And>x. ends (f x)) \<Longrightarrow> (\<And>x. ends (g x)) \<Longrightarrow> ends (case s of Inl x \<Rightarrow> f x | Inr x \<Rightarrow> g x)"
  by (cases s) simp_all

lemma ends_option [ending]: "ends m \<Longrightarrow> (\<And>x. ends (f x)) \<Longrightarrow> ends (case s of None \<Rightarrow> m | Some x \<Rightarrow> f x)"
  by (cases s) simp_all

lemma ends_if [ending]: "ends m \<Longrightarrow> ends m' \<Longrightarrow> ends (if b then m else m')"
  by simp

lemma ends_let [ending]: "(\<And>x. ends (f x)) \<Longrightarrow> ends (Let v f)"
  by simp

lemma ends_logs [ending]: "ends (logR level message)" "ends (publishR st)" "ends (sessionR h)" "ends (acquireR name i)"
  by (simp_all add: logR_def publishR_def sessionR_def acquireR_def ends_actR)

lemma ends_logAll [ending]: "ends (logAll level lines)"
  by (induction lines) (auto intro!: ending)

lemma ends_startIntercept [ending]: "ends (startIntercept env q gateway address token st)"
  by (rule tripleI) (auto simp: startIntercept_def Let_def split: prod.splits option.splits dest: failR_ended)

lemma ends_persist [ending]: "ends (persistConnectedMode env q)"
  by (rule tripleI) (auto simp: persistConnectedMode_def Let_def ended_def split: option.splits)

lemma ends_prepare: "ends (prepare env q)"
  unfolding prepare_def checkAccess_def prepareGateway_def discoverNetwork_def openChannel_def startBridge_def listenBridge_def
  by (intro ending)

lemma ends_socks: "ends (exposeSOCKS env q bridgeAddr st)"
  unfolding exposeSOCKS_def watchInventory_def by (intro ending)

lemma ends_tun: "ends (exposeTUN env q caps d bridgeAddr dnsNS st)"
  unfolding exposeTUN_def startCore_def bindFeatures_def watchInventory_def by (intro ending)

lemma ends_return: "ends (bindR (actR (f \<circ> ctxDone)) (\<lambda>_ r. (None, r)))" if "\<And>r. rn_cancelled (f r) = rn_cancelled r" for f
  using that by (simp add: triple_def bindR_def actR_def ended_def ctxDone_def)

lemma ends_lost [ending]: "ends (controlLost env st tries)"
proof -
  have "ends (\<lambda>r. case recoverGatewayControl env tries r of (e, r') \<Rightarrow> (Some e, r'))"
    by (rule tripleI) (auto split: prod.splits)
  then show ?thesis unfolding controlLost_def by (intro ending)
qed

lemma serve_ends: "fst (serveConnected env st events r) = None \<and> ended (snd (serveConnected env st events r))"
proof -
  have "ends (serveConnected env st events)"
  proof (induction events)
    case (Cons event events)
    then show ?case
      by (cases event) (simp_all, intro ends_return, simp add: upd_def, (intro ending; assumption)+)
  qed (simp, intro ends_return, simp add: upd_def)
  moreover have "fst (serveConnected env st events r) = None"
  proof (induction events arbitrary: r)
    case (Cons event events)
    then show ?case by (cases event) (auto simp: bindR_def actR_def ctxGuard_def failR_def split: prod.splits option.splits)
  qed (simp add: bindR_def actR_def)
  ultimately show ?thesis by (auto dest: triple_None)
qed

lemma serveSOCKS_ends: "fst (serveSOCKSConnected env st events r) = None \<and> ended (snd (serveSOCKSConnected env st events r))"
proof -
  have "ends (serveSOCKSConnected env st events)"
  proof (induction events)
    case (Cons event events)
    then show ?case
      using ends_return [of id] by (cases event) (simp_all, (intro ending; assumption)+)
  qed (use ends_return [of id] in simp)
  moreover have "fst (serveSOCKSConnected env st events r) = None"
  proof (induction events arbitrary: r)
    case (Cons event events)
    then show ?case by (cases event) (auto simp: bindR_def actR_def split: prod.splits option.splits)
  qed (simp add: bindR_def actR_def)
  ultimately show ?thesis by (auto dest: triple_None)
qed

lemma runBody_ended: "ended (snd (runBody env q r))"
proof -
  have s: "triple (\<lambda>_. True) (serveConnected env st es) (\<lambda>_. ended) ended"
    "triple (\<lambda>_. True) (serveSOCKSConnected env st es) (\<lambda>_. ended) ended" for st es
    using serve_ends serveSOCKS_ends by (simp_all add: triple_def)
  have "triple (\<lambda>_. True) (if b then bindR (exposeSOCKS env q (pd_bridge p) (pd_state p)) (\<lambda>st. serveSOCKSConnected env st es)
      else bindR (exposeTUN env q (pd_caps p) (pd_network p) (pd_bridge p) (pd_dns p) (pd_state p)) (\<lambda>st. serveConnected env st es))
      (\<lambda>_. ended) ended" for b p es
    using triple_bindR [OF ends_socks, OF s(2)] triple_bindR [OF ends_tun, OF s(1)] by (cases b) (simp_all (no_asm_simp))
  then have "triple (\<lambda>_. True) (runBody env q) (\<lambda>_. ended) ended"
    unfolding runBody_def by (rule triple_bindR [OF ends_prepare])
  from triple_end [OF this] show ?thesis by simp
qed

lemma newRun_guarded: "\<not> intercepting c \<Longrightarrow> \<not> bound c \<Longrightarrow> guarded (newRun c)"
  by (simp add: guarded_def books_def closers_def newRun_def newSessionRuntime_def)

lemma session_left:
  assumes "\<not> intercepting c" "\<not> bound c"
  shows "let r = runSession env q c in
    (\<forall>i. count_list (rn_closed r) (handleCloser i) = count_list (rn_opened r) i) \<and>
    \<not> intercepting (rn_c r) \<and> \<not> bound (rn_c r) \<and> \<not> cm_active (rn_c r) \<and> cm_runningCore (rn_c r) = None \<and>
    (rn_panicked r \<or> ps_Phase (cm_state (rn_c r)) = (if rn_cancelled r then PhaseIdle else PhaseError))"
proof -
  define b where "b = snd (runBody env q (newRun c))"
  define r where "r = runSession env q c"
  have g: "guarded b" unfolding b_def by (rule runBody_guarded) (rule newRun_guarded [OF assms])
  then have k: "books b" by (simp add: guarded_def)
  have e: "ended b" unfolding b_def by (rule runBody_ended)
  note cl = closeResources_spec [OF k, of env]
  have r: "r = finishRun env b" by (simp add: r_def b_def runSession_def)
  have "count_list (rn_closed r) (handleCloser i) = count_list (rn_opened r) i" for i
    using k cl(1,2) by (simp add: r finishRun_def Let_def upd_def tick_def books_def)
  moreover have "\<not> intercepting (rn_c r)" "\<not> bound (rn_c r)"
    using g cl(8,9) by (auto simp: r finishRun_def Let_def guarded_def intercepting_def bound_def hubPublish_def recordLog_def)
  moreover have "\<not> cm_active (rn_c r)" "cm_runningCore (rn_c r) = None" by (simp_all add: r finishRun_def Let_def)
  moreover have "rn_panicked r \<or> ps_Phase (cm_state (rn_c r)) = (if rn_cancelled r then PhaseIdle else PhaseError)"
    using e cl(3,4,6) by (auto simp: r finishRun_def Let_def ended_def upd_def tick_def ctxErr_def hubPublish_def recordLog_def idleState_def)
  ultimately show ?thesis by (simp add: r_def Let_def)
qed


section \<open>Connected means ready\<close>

text \<open>
  What has answered before a connection is called connected: the account, the Gateway, the channel,
  its token and its control session, the bridge, and the SOCKS5 port or the core with its inbounds.
\<close>

definition ready :: "connEnv \<Rightarrow> connRequest \<Rightarrow> bool" where
  "ready env q \<longleftrightarrow>
     (\<exists>caps gateway fw address token client listen bridge bridgeAddr.
        ce_caps env = Inr caps \<and> cp_GatewayPortForward caps \<and> ce_gateway env = Inr gateway \<and>
        ce_forward env = Inr (fw, address) \<and> ce_token env = Inr token \<and> ce_dial env = Inr client \<and>
        ce_bridge env address listen = Inr (bridge, bridgeAddr) \<and>
        (if cq_Mode q = ConnectionModeSOCKS then \<exists>port. socksAddress (ce_lib env) bridgeAddr = Inr port
         else \<exists>spec dns hosts core endpoints. ce_core env spec bridgeAddr dns hosts = Inr (core, endpoints) \<and>
                ValidateEndpoints (ce_lib env) endpoints = Inr ()))"

definition silent :: "sessionState list \<Rightarrow> connRun \<Rightarrow> bool" where
  "silent before r \<longleftrightarrow> (\<exists>states. cm_published (rn_c r) = before @ states \<and> list_all (\<lambda>s. ps_Phase s \<noteq> PhaseConnected) states)"

text \<open>Statements that publish nothing, or not the phase in question.\<close>

lemma silent_simps [simp]:
  "silent b (tick env r) = silent b r" "silent b (ctxDone r) = silent b r" "silent b (opened i r) = silent b r"
  "silent b (addRes name i r) = silent b r" "silent b (r\<lparr>rn_bridgeGateway := a\<rparr>) = silent b r"
  "silent b (upd (recordLog l t) r) = silent b r" "silent b (upd (\<lambda>c. c\<lparr>cm_session := f c\<rparr>) r) = silent b r"
  "silent b (upd (\<lambda>c. c\<lparr>cm_runningCore := x\<rparr>) r) = silent b r"
  by (simp_all add: silent_def tick_def ctxDone_def opened_def addRes_def upd_def recordLog_def)

lemma silent_publish: "silent b r \<Longrightarrow> ps_Phase st \<noteq> PhaseConnected \<Longrightarrow> silent b (upd (hubPublish st) r)"
  by (auto simp: silent_def upd_def hubPublish_def)

lemma silent_fail: "silent b r \<Longrightarrow> silent b (snd (failR env st message e r))"
proof -
  have "PhaseError \<noteq> PhaseConnected" by (simp add: phase_defs)
  then show "silent b r \<Longrightarrow> silent b (snd (failR env st message e r))"
    by (auto simp: failR_def silent_def upd_def hubPublish_def recordLog_def tick_def failState_def)
qed

lemma silent_failD: "failR env st message e r = (x, r') \<Longrightarrow> silent b r \<Longrightarrow> silent b r'"
  using silent_fail [of b r env st message e] by (simp add: failR_def)

text \<open>\<open>F\<close> is what the value of a statement says about the environment.\<close>

abbreviation quietly :: "sessionState list \<Rightarrow> 'a stmt \<Rightarrow> ('a \<Rightarrow> bool) \<Rightarrow> bool" where
  "quietly b m F \<equiv> triple (silent b) m (\<lambda>x r. silent b r \<and> F x) (silent b)"

lemma quietly_bindR: "quietly b m F \<Longrightarrow> (\<And>x. F x \<Longrightarrow> quietly b (f x) G) \<Longrightarrow> quietly b (bindR m f) G"
proof (rule triple_bindR, assumption)
  fix x
  assume "\<And>x. F x \<Longrightarrow> quietly b (f x) G"
  then show "triple (\<lambda>r. silent b r \<and> F x) (f x) (\<lambda>x r. silent b r \<and> G x) (silent b)"
    by (cases "F x") (auto intro: triple_conseq simp: triple_def)
qed

named_theorems silence

lemma quietly_fail [silence]: "quietly b (failR env st message e) F"
  using silent_fail [of b] by (fastforce simp: triple_def failR_def)

lemma quietly_try [silence]: "quietly b (tryR env st message x) (\<lambda>a. x = Inr a)"
proof (cases x)
  case (Inl e)
  show ?thesis unfolding tryR_def Inl sum.case by (rule quietly_fail)
qed (simp add: tryR_def triple_def)

lemma quietly_guard [silence]: "quietly b (ctxGuard env) (\<lambda>_. True)"
  by (simp add: triple_def ctxGuard_def)

lemma quietly_log [silence]: "quietly b (logR l t) (\<lambda>_. True)"
  by (simp add: triple_def logR_def actR_def)

lemma quietly_act: "(\<And>r. silent b (f r) = silent b r) \<Longrightarrow> quietly b (actR f) (\<lambda>_. True)"
  by (simp add: triple_def actR_def)

lemma quietly_acquire [silence]: "quietly b (acquireR name i) (\<lambda>_. True)"
  unfolding acquireR_def by (rule quietly_act) simp

lemma quietly_publish: "ps_Phase st \<noteq> PhaseConnected \<Longrightarrow> quietly b (publishR st) (\<lambda>_. True)"
  by (simp add: triple_def publishR_def actR_def silent_publish)

lemma quietly_ask: "(\<And>r. F (f r)) \<Longrightarrow> quietly b (askR f) F"
  by (simp add: triple_def askR_def)

lemma quietly_logAll [silence]: "quietly b (logAll l ts) (\<lambda>_. True)"
proof (induction ts)
  case (Cons t ts)
  show ?case unfolding logAll.simps by (rule quietly_bindR [OF quietly_log]) (rule Cons.IH)
qed (simp only: logAll.simps, rule quietly_act, simp)

lemma quietly_start [silence]:
  "quietly b (startIntercept env q gateway address token st) (\<lambda>_. \<exists>client. ce_dial env = Inr client)"
proof (rule tripleI)
  fix r x r'
  assume "silent b r" "startIntercept env q gateway address token st r = (Some x, r')"
  then show "silent b r' \<and> (\<exists>client. ce_dial env = Inr client)"
    by (auto simp: startIntercept_def Let_def failR_def Start_def cs_connect_def split: prod.splits option.splits if_splits sum.splits)
next
  fix r r'
  assume "silent b r" "startIntercept env q gateway address token st r = (None, r')"
  then show "silent b r'"
    by (auto simp: startIntercept_def Let_def split: prod.splits option.splits dest!: silent_failD [of _ _ _ _ _ _ _ b])
qed

lemma quietly_access [silence]:
  "quietly b (checkAccess env q) (\<lambda>(caps, st). ce_caps env = Inr caps \<and> cp_GatewayPortForward caps)"
proof -
  have ph: "ps_Phase (initialState q prev) \<noteq> PhaseConnected" for prev
    by (simp add: initialState_def phase_defs)
  have ph': "ps_Phase (case ce_version env of Inl e \<Rightarrow> initialState q prev | Inr v \<Rightarrow> (initialState q prev)\<lparr>ps_KubernetesVersion := v\<rparr>) \<noteq> PhaseConnected" for prev
    using ph by (simp split: sum.split)
  have last: "quietly b (if \<not> cp_GatewayPortForward caps then failR env st m e else askR (\<lambda>_. (caps, st')))
      (\<lambda>(caps, st). ce_caps env = Inr caps \<and> cp_GatewayPortForward caps)" if "ce_caps env = Inr caps" for caps st m e st'
    using that by (auto intro: quietly_fail quietly_ask)
  show ?thesis
    unfolding checkAccess_def Let_def
    by (rule quietly_bindR [OF quietly_guard], rule quietly_bindR [OF quietly_ask [where F = "\<lambda>_. True"]], simp,
        rule quietly_bindR [OF quietly_publish [OF ph]], rule quietly_bindR [OF quietly_log], rule quietly_bindR [OF quietly_try],
        rule quietly_bindR [OF quietly_guard], rule quietly_bindR [OF quietly_publish [OF ph']], rule quietly_bindR [OF quietly_log],
        rule quietly_bindR [OF quietly_log], rule quietly_bindR [OF quietly_logAll], rule last)
qed

lemma quietly_gateway [silence]:
  "quietly b (prepareGateway env caps st) (\<lambda>_. \<exists>gateway. ce_gateway env = Inr gateway)"
proof -
  have t: "quietly b (if cp_GatewayInstall caps then tryR env s1 m1 (ce_gateway env) else tryR env s2 m2 (ce_gateway env))
      (\<lambda>g. ce_gateway env = Inr g)" for s1 m1 s2 m2
    by (cases "cp_GatewayInstall caps") (simp_all only: if_True if_False not_True_eq_False not_False_eq_True, (rule quietly_try)+)
  show ?thesis
    unfolding prepareGateway_def Let_def
    by (rule quietly_bindR [OF quietly_publish], simp add: phase_defs, rule quietly_bindR [OF t],
        rule quietly_bindR [OF quietly_guard], rule quietly_bindR [OF quietly_log], rule quietly_ask, blast)
qed

lemma quietly_discover [silence]: "quietly b (discoverNetwork env q caps st) (\<lambda>_. True)"
  unfolding discoverNetwork_def Let_def
  by (rule quietly_bindR [OF quietly_publish], simp add: phase_defs, rule quietly_bindR [OF quietly_try],
      rule quietly_bindR [OF quietly_guard], rule quietly_bindR [OF quietly_ask [where F = "\<lambda>_. True"]], simp, rule triple_case_prod,
      rule quietly_bindR [OF quietly_publish], simp add: phase_defs, rule quietly_bindR [OF quietly_log],
      rule quietly_bindR [OF quietly_logAll], rule quietly_ask, simp)

lemma quietly_channel [silence]:
  "quietly b (openChannel env q gateway st)
    (\<lambda>address. \<exists>fw token client. ce_forward env = Inr (fw, address) \<and> ce_token env = Inr token \<and> ce_dial env = Inr client)"
  unfolding openChannel_def
  by (rule quietly_bindR [OF quietly_try], simp only: split_paired_all prod.case,
      rule quietly_bindR [OF quietly_acquire], rule quietly_bindR [OF quietly_log], rule quietly_bindR [OF quietly_guard],
      rule quietly_bindR [OF quietly_try], rule quietly_bindR [OF quietly_start], rule quietly_bindR [OF quietly_log],
      rule quietly_bindR [OF quietly_act], simp, rule quietly_ask, blast)

lemma quietly_listen: "quietly b (listenBridge env q address) (\<lambda>x. \<exists>listen. x = ce_bridge env address listen)"
proof (cases "cq_Mode q \<noteq> ConnectionModeSOCKS")
  case True
  show ?thesis unfolding listenBridge_def if_P [OF True] by (rule quietly_ask) blast
next
  case False
  show ?thesis
  proof (cases "ce_bridge env address (join_host_port ''127.0.0.1'' (itoa_int DefaultSOCKSPort))")
    case (Inl e)
    show ?thesis
      unfolding listenBridge_def if_not_P [OF False] Inl sum.case
      by (rule quietly_bindR [OF quietly_log], rule quietly_ask, blast)
  next
    case (Inr x)
    show ?thesis unfolding listenBridge_def if_not_P [OF False] Inr sum.case by (rule quietly_ask) (metis Inr)
  qed
qed

lemma quietly_bridge [silence]:
  "quietly b (startBridge env q address st) (\<lambda>(bridge, bridgeAddr). \<exists>listen. ce_bridge env address listen = Inr (bridge, bridgeAddr))"
  unfolding startBridge_def
  by (rule quietly_bindR [OF quietly_act], simp, rule quietly_bindR [OF quietly_listen], rule quietly_bindR [OF quietly_try],
      simp only: split_paired_all prod.case, rule quietly_bindR [OF quietly_acquire], rule quietly_bindR [OF quietly_act], simp,
      rule quietly_bindR [OF quietly_log], rule quietly_bindR [OF quietly_guard], rule quietly_ask, unfold prod.case, erule exE, rule exI, simp)

definition preparedOK :: "connEnv \<Rightarrow> string \<Rightarrow> bool" where
  "preparedOK env bridgeAddr \<longleftrightarrow>
     (\<exists>caps gateway fw address token client listen bridge.
        ce_caps env = Inr caps \<and> cp_GatewayPortForward caps \<and> ce_gateway env = Inr gateway \<and>
        ce_forward env = Inr (fw, address) \<and> ce_token env = Inr token \<and> ce_dial env = Inr client \<and>
        ce_bridge env address listen = Inr (bridge, bridgeAddr))"

lemma quietly_prepare: "quietly b (prepare env q) (\<lambda>p. preparedOK env (pd_bridge p))"
  unfolding prepare_def
  by (rule quietly_bindR [OF quietly_access], simp only: split_paired_all prod.case,
      rule quietly_bindR [OF quietly_gateway], simp only: split_paired_all prod.case,
      rule quietly_bindR [OF quietly_discover], simp only: split_paired_all prod.case,
      rule quietly_bindR [OF quietly_channel], rule quietly_bindR [OF quietly_bridge], simp only: split_paired_all prod.case,
      rule quietly_ask, simp add: preparedOK_def, metis)

lemma ready_iff:
  "ready env q \<longleftrightarrow> (\<exists>bridgeAddr. preparedOK env bridgeAddr \<and>
     (if cq_Mode q = ConnectionModeSOCKS then \<exists>port. socksAddress (ce_lib env) bridgeAddr = Inr port
      else \<exists>spec dns hosts core endpoints. ce_core env spec bridgeAddr dns hosts = Inr (core, endpoints) \<and>
             ValidateEndpoints (ce_lib env) endpoints = Inr ()))"
  unfolding ready_def preparedOK_def by blast

lemma quietly_core:
  "quietly b (startCore env q caps d bridgeAddr dnsNS st)
    (\<lambda>_. \<exists>spec dns hosts core endpoints. ce_core env spec bridgeAddr dns hosts = Inr (core, endpoints) \<and>
       ValidateEndpoints (ce_lib env) endpoints = Inr ())"
proof -
  have n: "quietly b (case ce_namespaces env of Inr namespaces \<Rightarrow> askR (\<lambda>_. namespaces)
      | Inl e \<Rightarrow> bindR (logR l (t e)) (\<lambda>_. askR (\<lambda>_. ns))) (\<lambda>_. True)" for l t ns
    by (cases "ce_namespaces env") (simp_all only: sum.case, rule quietly_bindR [OF quietly_log], (rule quietly_ask, simp)+)
  have last: "quietly b (bindR (tryR env st m (ValidateEndpoints (ce_lib env) e)) (\<lambda>_. askR (\<lambda>_. v)))
      (\<lambda>_. \<exists>spec dns hosts core endpoints. ce_core env spec bridgeAddr dns hosts = Inr (core, endpoints) \<and>
         ValidateEndpoints (ce_lib env) endpoints = Inr ())"
    if "ce_core env spec bridgeAddr dns hosts = Inr (core, e)" for m e spec dns hosts core and v :: "nat \<times> TrafficEndpoints"
    by (rule quietly_bindR [OF quietly_try], rule quietly_ask, insert that, unfold unit_all_eq1, intro exI conjI, assumption, simp)
  show ?thesis
    unfolding startCore_def
    by (rule quietly_bindR [OF quietly_ask [where F = "\<lambda>_. True"]], simp, rule quietly_bindR [OF n], rule quietly_bindR [OF quietly_try],
        simp only: split_paired_all prod.case, rule quietly_bindR [OF quietly_acquire], rule quietly_bindR [OF quietly_log],
        rule quietly_bindR [OF quietly_guard], rule quietly_bindR [OF quietly_act], simp, erule last)
qed

lemma triple_known: "K \<Longrightarrow> triple P m (\<lambda>_ r. silent b r \<or> K) (\<lambda>r. silent b r \<or> K)"
  by (simp add: triple_def split: option.split)

abbreviation until :: "sessionState list \<Rightarrow> bool \<Rightarrow> 'a stmt \<Rightarrow> bool" where
  "until b K m \<equiv> triple (silent b) m (\<lambda>_ r. silent b r \<or> K) (\<lambda>r. silent b r \<or> K)"

lemma until_bindR:
  assumes "quietly b m F" and "\<And>x. F x \<Longrightarrow> until b K (f x)"
  shows "until b K (bindR m f)"
proof (rule triple_bindR)
  show "triple (silent b) m (\<lambda>x r. silent b r \<and> F x) (\<lambda>r. silent b r \<or> K)"
    using assms(1) by (rule triple_conseq) auto
next
  fix x
  show "triple (\<lambda>r. silent b r \<and> F x) (f x) (\<lambda>_ r. silent b r \<or> K) (\<lambda>r. silent b r \<or> K)"
  proof (cases "F x")
    case True
    from assms(2) [OF this] show ?thesis by (rule triple_conseq) auto
  qed (simp add: triple_def)
qed

lemma bindR_assoc: "bindR (bindR m f) g = bindR m (\<lambda>x. bindR (f x) g)"
  by (rule ext) (simp add: bindR_def split: prod.split option.split)

lemma runBody_until: "until b (ready env q) (runBody env q)"
proof -
  have socks: "until b (ready env q) (bindR (exposeSOCKS env q a st) f)"
    if "preparedOK env a" "cq_Mode q = ConnectionModeSOCKS" for a st and f :: "sessionState \<Rightarrow> unit stmt"
  proof -
    have r: "ready env q" if "socksAddress (ce_lib env) a = Inr port" for port
      using that \<open>preparedOK env a\<close> \<open>cq_Mode q = _\<close> unfolding ready_iff by auto
    show ?thesis
      unfolding exposeSOCKS_def bindR_assoc
      by (rule until_bindR [OF quietly_try], rule triple_known, erule r)
  qed
  have tun: "until b (ready env q) (bindR (exposeTUN env q caps d a dns st) f)"
    if "preparedOK env a" "cq_Mode q \<noteq> ConnectionModeSOCKS" for caps d a dns st and f :: "sessionState \<Rightarrow> unit stmt"
  proof -
    have r: "ready env q" if "\<exists>spec dns hosts core endpoints. ce_core env spec a dns hosts = Inr (core, endpoints) \<and>
        ValidateEndpoints (ce_lib env) endpoints = Inr ()"
      unfolding ready_iff if_not_P [OF \<open>cq_Mode q \<noteq> _\<close>] using that \<open>preparedOK env a\<close> by blast
    have own: "quietly b (if ce_hostBridge env then actR (addRes n i) else actR id) (\<lambda>_. True)" for n i
      by (cases "ce_hostBridge env") (simp_all only: if_True if_False, (rule quietly_act, simp)+)
    show ?thesis
      unfolding exposeTUN_def Let_def bindR_assoc
      by (rule until_bindR [OF quietly_guard], rule until_bindR [OF own], rule until_bindR [OF quietly_publish], simp add: phase_defs,
          rule until_bindR [OF quietly_core], rule triple_known, erule r)
  qed
  show ?thesis
    unfolding runBody_def
    by (rule until_bindR [OF quietly_prepare]) (auto intro: socks tun)
qed

lemma closeResources_published: "cm_published (rn_c (closeResources env r)) = cm_published (rn_c r)"
  by (simp add: closeResources_def Let_def upd_def recordLog_def split: prod.split)

lemma Connected_ready:
  assumes "\<not> ready env q"
  shows "\<exists>states. cm_published (rn_c (runSession env q c)) = cm_published c @ states \<and>
    list_all (\<lambda>s. ps_Phase s \<noteq> PhaseConnected) states"
proof -
  let ?b = "snd (runBody env q (newRun c))"
  have "silent (cm_published c) (newRun c)" by (simp add: silent_def newRun_def)
  with triple_end [OF runBody_until [of "cm_published c" env q]] assms have "silent (cm_published c) ?b" by blast
  moreover have "PhaseIdle \<noteq> PhaseConnected" by (simp add: phase_defs)
  ultimately show ?thesis
    by (auto simp: runSession_def finishRun_def Let_def silent_def upd_def tick_def hubPublish_def recordLog_def idleState_def
        closeResources_published)
qed


section \<open>Recovering the control channel\<close>

abbreviation controlAddress :: "connRun \<Rightarrow> string" where
  "controlAddress r \<equiv> m_gatewayAddress (se_intercept (cm_session (rn_c r)))"

lemma recoverAt_address:
  "recoverAt d ip a c = (None, c') \<Longrightarrow> m_gatewayAddress (se_intercept (cm_session c')) = a"
  by (auto simp: recoverAt_def recoverControlAt_def Let_def split: prod.splits if_splits sum.splits bool.splits)

lemma replace_once:
  "replaceGatewayPortForward env a r = (e, r') \<Longrightarrow>
    (\<exists>fws. length fws \<le> 1 \<and> rn_opened r' = rn_opened r @ fws \<and>
      (if e \<noteq> None then rn_closed r' = rn_closed r @ map handleCloser fws \<and> closers r' = closers r
       else fws \<noteq> [] \<and> rn_closed r' = rn_closed r \<and> closers r' = closers r @ map handleCloser fws \<and>
         rn_bridgeGateway r' = controlAddress r'))"
proof -
  have o: "rn_opened (opened i r) = rn_opened r @ [i]" "rn_closed (opened i r) = rn_closed r"
    "rn_opened (closeNow i s) = rn_opened s" "rn_closed (closeNow i s) = rn_closed s @ [handleCloser i]"
    "rn_opened (addRes n i s) = rn_opened s" "rn_closed (addRes n i s) = rn_closed s"
    "rn_bridgeGateway (addRes n i s) = rn_bridgeGateway s" for i s n
    by (simp_all add: opened_def closeNow_def addRes_def)
  assume "replaceGatewayPortForward env a r = (e, r')"
  then show ?thesis
  proof (cases "\<exists>gateway fw address. ra_gateway a = Inr gateway \<and> ra_forward a = Inr (fw, address)")
    case False
    with \<open>replaceGatewayPortForward env a r = (e, r')\<close> have "e \<noteq> None" "r' = r"
      by (auto simp: replaceGatewayPortForward_def split: sum.splits)
    then show ?thesis by (intro exI [of _ "[]"]) simp
  next
    case True
    then obtain gateway fw address where g: "ra_gateway a = Inr gateway" "ra_forward a = Inr (fw, address)" by blast
    obtain e' c where rc: "recoverAt (ra_dial a) (gw_IP gateway) address (rn_c (opened fw r)) = (e', c)" by fastforce
    from \<open>replaceGatewayPortForward env a r = (e, r')\<close> rc recoverAt_address [of _ _ _ _ c] show ?thesis
      by (intro exI [of _ "[fw]"])
         (auto simp: replaceGatewayPortForward_def g Let_def o split: option.splits if_splits)
  qed
qed

definition channels :: "connRun \<Rightarrow> nat list \<Rightarrow> goerr option \<Rightarrow> connRun \<Rightarrow> bool" where
  "channels r fws e r' \<longleftrightarrow> rn_opened r' = rn_opened r @ fws \<and>
     (case e of
        Some _ \<Rightarrow> rn_closed r' = rn_closed r @ map handleCloser fws \<and> closers r' = closers r
      | None \<Rightarrow> fws \<noteq> [] \<and> rn_closed r' = rn_closed r @ map handleCloser (butlast fws) \<and>
          closers r' = closers r @ [handleCloser (last fws)] \<and> rn_bridgeGateway r' = controlAddress r')"

lemma recoverLoop_channels:
  "0 \<notin> set as \<Longrightarrow> recoverLoop env tries as lastErr r = (e, r') \<Longrightarrow> \<exists>fws. length fws \<le> length as \<and> channels r fws e r'"
proof (induction "as" arbitrary: lastErr r)
  case Nil
  then show ?case by (auto simp: channels_def split: option.split)
next
  case (Cons k as)
  show ?case
  proof (cases "controlRecoveryDelay k > 0 \<and> (rn_cancelled r \<or> ra_cancelled (tries k))")
    case True
    with Cons.prems(2) show ?thesis by (intro exI [of _ "[]"]) (auto simp: channels_def closers_def)
  next
    case False
    obtain e1 r1 where s: "replaceGatewayPortForward env (tries k) r = (e1, r1)" by fastforce
    from replace_once [OF s] obtain f where f: "length f \<le> 1" "rn_opened r1 = rn_opened r @ f"
      "if e1 \<noteq> None then rn_closed r1 = rn_closed r @ map handleCloser f \<and> closers r1 = closers r
       else f \<noteq> [] \<and> rn_closed r1 = rn_closed r \<and> closers r1 = closers r @ map handleCloser f \<and> rn_bridgeGateway r1 = controlAddress r1"
      by blast
    show ?thesis
    proof (cases e1)
      case None
      with Cons.prems False s have "e = None" "r' = r1" by auto
      moreover obtain x where "f = [x]" using f(1,3) None by (cases f) auto
      ultimately show ?thesis using f None by (intro exI [of _ f]) (auto simp: channels_def)
    next
      case (Some a)
      from Cons.prems(2) False s Some Cons.prems(1) obtain w
        where l: "recoverLoop env tries as (Some a) (upd (recordLog ''WARN'' w) r1) = (e, r')" by auto
      have "rn_opened (upd g r1) = rn_opened r1" "rn_closed (upd g r1) = rn_closed r1" for g by (simp_all add: upd_def)
      with Cons.IH [OF _ l] Cons.prems(1) f Some obtain fws where "length fws \<le> length as"
        "channels r (f @ fws) e r'"
        by (auto simp: channels_def butlast_append split: option.splits)
      with f(1) show ?thesis by (intro exI [of _ "f @ fws"]) auto
    qed
  qed
qed

text \<open>
  A lost control channel is tried five times at most, first on the port-forward there is and then
  each time on a new one. When all fail, every new port-forward has been closed and nothing is
  registered. When one works it is the only one kept: it is registered for the end of the run, and
  the bridge and the control session use the same address.
\<close>

lemma recovery_channels:
  assumes "recoverGatewayControl env tries r = (e, r')"
  shows "\<exists>fws. length fws < controlRecoveryAttempts \<and> rn_opened r' = rn_opened r @ fws \<and>
    (case e of
       Some _ \<Rightarrow> rn_closed r' = rn_closed r @ map handleCloser fws \<and> closers r' = closers r
     | None \<Rightarrow>
         if fws = [] then rn_closed r' = rn_closed r \<and> closers r' = closers r \<and> rn_bridgeGateway r' = rn_bridgeGateway r \<and>
           controlAddress r' = controlAddress r
         else rn_closed r' = rn_closed r @ map handleCloser (butlast fws) \<and>
           closers r' = closers r @ [handleCloser (last fws)] \<and> rn_bridgeGateway r' = controlAddress r')"
proof -
  have five: "[0 ..< controlRecoveryAttempts] = [0, 1, 2, 3, 4]" by (simp add: controlRecoveryAttempts_def upt_rec)
  obtain e1 r1 where s: "recoverControl (tries 0) r = (e1, r1)" by fastforce
  then have fr: "rn_opened r1 = rn_opened r" "rn_closed r1 = rn_closed r" "closers r1 = closers r" "rn_bridgeGateway r1 = rn_bridgeGateway r"
    by (auto simp: recoverControl_def Let_def split: prod.splits)
  have ad: "controlAddress r1 = controlAddress r" if "e1 = None"
    using s that by (auto simp: recoverControl_def Let_def split: prod.splits dest!: recoverAt_address)
  show ?thesis
  proof (cases e1)
    case None
    with assms s have "e = None" "r' = r1" by (auto simp: recoverGatewayControl_def five controlRecoveryDelay_def)
    then show ?thesis using fr ad None by (intro exI [of _ "[]"]) (simp add: controlRecoveryAttempts_def)
  next
    case (Some a)
    with assms s obtain w where "recoverLoop env tries [1, 2, 3, 4] (Some a) (upd (recordLog ''WARN'' w) r1) = (e, r')"
      by (simp only: recoverGatewayControl_def five recoverLoop.simps(2) [of _ _ 0]) (auto simp: controlRecoveryDelay_def)
    from recoverLoop_channels [OF _ this] obtain fws where l: "length fws \<le> 4" "channels (upd (recordLog ''WARN'' w) r1) fws e r'"
      by (auto simp: numeral_eq_Suc)
    have "rn_opened (upd g r1) = rn_opened r1" "rn_closed (upd g r1) = rn_closed r1" for g by (simp_all add: upd_def)
    with l fr show ?thesis
      by (intro exI [of _ fws]) (auto simp: channels_def controlRecoveryAttempts_def split: option.splits)
  qed
qed


section \<open>The properties\<close>

definition ex_conn :: connManager where
  "ex_conn = \<lparr>cm_session = \<lparr>se_store = None, se_phase = PhaseIdle, se_mode = [], se_context = [], se_namespace = [],
      se_events = [], se_restoring = False, se_pf = newPfManager, se_intercept = NewManager\<rparr>,
     cm_state = zeroState\<lparr>ps_Phase := PhaseIdle\<rparr>, cm_published = [], cm_active = False, cm_runningCore = None,
     cm_tracker = False, cm_shuttingDown = False\<rparr>"

definition ex_try :: "nat \<Rightarrow> recoveryAttempt" where
  "ex_try k = \<lparr>ra_cancelled = False, ra_dial = (if k = 2 then Inr (\<lparr>cc_conn = 2, cc_closed = False\<rparr>, 2) else Inl EOF),
     ra_gateway = Inr \<lparr>gw_Name = ''gw'', gw_IP = ''10.1.0.2''\<rparr>, ra_forward = Inr (10 + k, ''127.0.0.1:9002'')\<rparr>"

definition ex_cenv :: connEnv where
  "ex_cenv = \<lparr>ce_lib = ex_net, ce_cancel = (\<lambda>_. False),
     ce_caps = Inr \<lparr>cp_GatewayInstall = True, cp_GatewayPortForward = True, cp_InventoryCluster = True,
       cp_ScopeNamespaces = [], cp_Issues = []\<rparr>,
     ce_version = Inr ''v1'', ce_gateway = Inr \<lparr>gw_Name = ''gw'', gw_IP = ''10.1.0.1''\<rparr>,
     ce_discover = (\<lambda>_. Inr (\<lparr>sr_PodCIDRs = [''10.1.0.0/16''], sr_ServiceCIDRs = [], sr_ServiceIPs = [], sr_DNSServer = ''10.2.0.10'',
       sr_Pods = 1, sr_Services = 1, sr_Deployments = 1\<rparr>, [''cluster.local''])), ce_issues = (\<lambda>_. []), ce_forward = Inr (1, ''127.0.0.1:9001''), ce_token = Inr zero_token,
     ce_dial = Inr (\<lparr>cc_conn = 1, cc_closed = False\<rparr>, 1), ce_bridge = (\<lambda>_ _. Inr (2, ''127.0.0.1:7'')), ce_hostBridge = True, ce_updatable = True,
     ce_namespaces = Inr [], ce_core = (\<lambda>_ _ _ _. Inr (3, trafficEndpoints 4000 ''pw'')), ce_probe = None, ce_watch = Inl EOF,
     ce_events = [Ticked (Inr []), ControlLost ex_try, CtxDone], ce_flush = Inr [], ce_closeErr = (\<lambda>_. None), ce_release = (\<lambda>_. None),
     ce_api = (\<lambda>_. ex_port_api), ce_starters = \<lparr>sr_exchange = (\<lambda>m _. (Inl EOF, m)), sr_mirror = (\<lambda>m _. (Inl EOF, m)), sr_preview = (\<lambda>m _. (Inl EOF, m))\<rparr>, ce_senv = (\<lambda>_. ex_senv), ce_save = (\<lambda>_. ex_senv)\<rparr>"


definition ex_socks :: connRequest where
  "ex_socks = \<lparr>cq_Context = ''dev'', cq_Namespace = ''default'', cq_Mode = ''socks''\<rparr>"

definition live :: "bool \<Rightarrow> connRun \<Rightarrow> bool" where
  "live b r \<longleftrightarrow> \<not> rn_cancelled r \<and> se_store (cm_session (rn_c r)) = None \<and> (b \<longrightarrow> \<not> intercepting (rn_c r))"

definition seen :: "connRun \<Rightarrow> bool" where
  "seen r \<longleftrightarrow> list_ex (\<lambda>s. ps_Phase s = PhaseConnected) (cm_published (rn_c r))"

abbreviation goes :: "bool \<Rightarrow> 'a stmt \<Rightarrow> ('a \<Rightarrow> bool) \<Rightarrow> bool" where
  "goes b m F \<equiv> triple (live b) m (\<lambda>x r. live b r \<and> F x) seen"

lemma goes_bindR:
  assumes "goes b m F" and "\<And>x. F x \<Longrightarrow> triple (live b) (f x) Q seen"
  shows "triple (live b) (bindR m f) Q seen"
proof (rule triple_bindR [OF assms(1)])
  fix x
  show "triple (\<lambda>r. live b r \<and> F x) (f x) Q seen"
  proof (cases "F x")
    case True
    from assms(2) [OF this] show ?thesis by (rule triple_conseq) auto
  qed (simp add: triple_def)
qed

lemma goes_act: "(\<And>r. live b r \<Longrightarrow> live b (f r)) \<Longrightarrow> goes b (actR f) (\<lambda>_. True)"
  by (simp add: triple_def actR_def)

lemma goes_ask: "(\<And>r. live b r \<Longrightarrow> F (f r)) \<Longrightarrow> goes b (askR f) F"
  by (simp add: triple_def askR_def)

lemma goes_try: "x = Inr a \<Longrightarrow> goes b (tryR env st m x) (\<lambda>y. y = a)"
  by (simp add: triple_def tryR_def)

lemma goes_guard: "goes b (ctxGuard ex_cenv) (\<lambda>_. True)"
  by (simp add: triple_def ctxGuard_def ctxErr_def live_def tick_def ex_cenv_def)

lemma goes_log: "goes b (logR l t) (\<lambda>_. True)"
  unfolding logR_def by (rule goes_act) (simp add: live_def upd_def recordLog_def intercepting_def)

lemma goes_publish: "goes b (publishR st) (\<lambda>_. True)"
  unfolding publishR_def by (rule goes_act) (simp add: live_def upd_def hubPublish_def intercepting_def)

lemma goes_acquire: "goes b (acquireR n i) (\<lambda>_. True)"
  unfolding acquireR_def by (rule goes_act) (simp add: live_def opened_def addRes_def)

lemma ex_socksAddress: "socksAddress ex_net ''127.0.0.1:7'' = Inr 7"
proof -
  have "split_host_port (''127.0.0.1'' @ '':'' @ ''7'') = Inr (''127.0.0.1'', ''7'')"
    by (rule split_host_port_plain) simp_all
  moreover have "ParseIP ex_net ''127.0.0.1'' = Some (V4 0x7F000001)"
  proof -
    have "addr_string (V4 0x7F000001) = ''127.0.0.1''" by (simp add: v4_string_def octet_def itoa.simps char_of_digit)
    then show ?thesis using parse_addr4_string [of "0x7F000001"] by (simp add: ex_net_def)
  qed
  moreover have "IsLoopback (V4 0x7F000001)" by (simp add: IsLoopback_def octet_def)
  moreover have "atoi ''7'' = Inr 7" by code_simp
  ultimately show ?thesis by (simp add: socksAddress_def)
qed

lemma goes_logAll: "goes b (logAll l ts) (\<lambda>_. True)"
proof (induction ts)
  case (Cons t ts)
  show ?case unfolding logAll.simps by (rule goes_bindR [OF goes_log]) (rule Cons.IH)
qed (simp only: logAll.simps, rule goes_act, simp)

lemma ex_access: "goes b (checkAccess ex_cenv ex_socks) (\<lambda>_. True)"
proof -
  obtain caps where caps: "ce_caps ex_cenv = Inr caps" "cp_GatewayPortForward caps" by (simp add: ex_cenv_def)
  have last: "goes b (if \<not> cp_GatewayPortForward x then failR ex_cenv s m e else askR (\<lambda>_. (x, t))) (\<lambda>_. True)"
    if "x = caps" for x s m e t
  proof -
    have "\<not> \<not> cp_GatewayPortForward caps" using caps(2) by simp
    then show ?thesis unfolding that if_not_P [OF \<open>\<not> \<not> cp_GatewayPortForward caps\<close>] by (intro goes_ask TrueI)
  qed
  show ?thesis
    unfolding checkAccess_def Let_def
    by (rule goes_bindR [OF goes_guard], rule goes_bindR [OF goes_ask [where F = "\<lambda>_. True"]], rule TrueI, rule goes_bindR [OF goes_publish],
        rule goes_bindR [OF goes_log], rule goes_bindR [OF goes_try], rule caps(1), rule goes_bindR [OF goes_guard],
        rule goes_bindR [OF goes_publish], rule goes_bindR [OF goes_log], rule goes_bindR [OF goes_log],
        rule goes_bindR [OF goes_logAll], erule last)
qed

lemma ex_gateway: "goes b (prepareGateway ex_cenv caps st) (\<lambda>_. True)"
proof -
  have "ce_gateway ex_cenv = Inr \<lparr>gw_Name = ''gw'', gw_IP = ''10.1.0.1''\<rparr>" by (simp add: ex_cenv_def)
  from goes_try [OF this] have t: "goes b (if c then tryR ex_cenv s1 m1 (ce_gateway ex_cenv) else tryR ex_cenv s2 m2 (ce_gateway ex_cenv))
      (\<lambda>y. y = \<lparr>gw_Name = ''gw'', gw_IP = ''10.1.0.1''\<rparr>)" for c s1 m1 s2 m2
    by (cases c) (simp_all only: if_True if_False)
  show ?thesis
    unfolding prepareGateway_def Let_def
    by (rule goes_bindR [OF goes_publish], rule goes_bindR [OF t], rule goes_bindR [OF goes_guard],
        rule goes_bindR [OF goes_log], rule goes_ask, rule TrueI)
qed

lemma ex_discover: "goes b (discoverNetwork ex_cenv ex_socks caps st) (\<lambda>_. True)"
proof -
  obtain d where d: "ce_discover ex_cenv ns = Inr d" for ns by (simp add: ex_cenv_def)
  show ?thesis
    unfolding discoverNetwork_def Let_def
    by (rule goes_bindR [OF goes_publish], rule goes_bindR [OF goes_try], rule d,
        rule goes_bindR [OF goes_guard], rule goes_bindR [OF goes_ask [where F = "\<lambda>_. True"]], rule TrueI,
        simp only: split_paired_all prod.case, rule goes_bindR [OF goes_publish], rule goes_bindR [OF goes_log],
        rule goes_bindR [OF goes_logAll], rule goes_ask, rule TrueI)
qed

lemma ex_intercept:
  "triple (live True) (startIntercept ex_cenv q gateway address token st) (\<lambda>_. live False) seen"
  by (rule tripleI) (auto simp: startIntercept_def Let_def live_def intercepting_def Start_def cs_connect_def ex_cenv_def upd_def
      split: prod.splits if_splits option.splits)

lemma ex_channel: "triple (live True) (openChannel ex_cenv ex_socks gateway st) (\<lambda>_. live False) seen"
  unfolding openChannel_def
  by (rule goes_bindR [OF goes_try], simp add: ex_cenv_def, simp only: split_paired_all prod.case,
      rule goes_bindR [OF goes_acquire], rule goes_bindR [OF goes_log], rule goes_bindR [OF goes_guard], rule goes_bindR [OF goes_try],
      simp add: ex_cenv_def, rule triple_bindR [OF ex_intercept], rule goes_bindR [OF goes_log], rule goes_bindR [OF goes_act],
      simp add: live_def addRes_def, rule triple_askR)

lemma ex_listen: "goes b (listenBridge ex_cenv ex_socks address) (\<lambda>x. x = Inr (2, ''127.0.0.1:7''))"
  unfolding listenBridge_def
  by (simp add: ex_socks_def ConnectionModeSOCKS_def, simp add: ex_cenv_def, rule goes_ask, simp)

lemma ex_bridge: "goes b (startBridge ex_cenv ex_socks address st) (\<lambda>x. snd x = ''127.0.0.1:7'')"
  unfolding startBridge_def
  by (rule goes_bindR [OF goes_act], simp add: live_def addRes_def, rule goes_bindR [OF ex_listen], rule goes_bindR [OF goes_try], assumption,
      simp only: split_paired_all prod.case, rule goes_bindR [OF goes_acquire], rule goes_bindR [OF goes_act], simp add: live_def,
      rule goes_bindR [OF goes_log], rule goes_bindR [OF goes_guard], rule goes_ask, simp)

lemma ex_prepare: "triple (live True) (prepare ex_cenv ex_socks) (\<lambda>p r. live False r \<and> pd_bridge p = ''127.0.0.1:7'') seen"
  unfolding prepare_def
  by (rule goes_bindR [OF ex_access], simp only: split_paired_all prod.case, rule goes_bindR [OF ex_gateway],
      simp only: split_paired_all prod.case, rule goes_bindR [OF ex_discover], simp only: split_paired_all prod.case,
      rule triple_bindR [OF ex_channel], rule goes_bindR [OF ex_bridge], simp only: split_paired_all prod.case, rule triple_askR, simp)

lemma ex_expose: "triple (live False) (exposeSOCKS ex_cenv ex_socks ''127.0.0.1:7'' st) Q seen"
proof -
  have p: "triple (live False) (publishR (s\<lparr>ps_Phase := PhaseConnected, ps_Message := m, ps_ConnectedAt := b, ps_SOCKSPort := n, ps_DNSWarning := w\<rparr>))
      (\<lambda>_ r. live False r \<and> seen r) seen" for s m b n w
    unfolding publishR_def by (rule triple_actR) (simp add: live_def seen_def upd_def hubPublish_def)
  have rest: "triple (\<lambda>r. live False r \<and> seen r) (bindR (logR l t) (\<lambda>_. bindR (persistConnectedMode ex_cenv ex_socks)
      (\<lambda>_. bindR (watchInventory ex_cenv s) f))) Q seen" for l t s f
    by (rule tripleI) (auto simp: bindR_def logR_def actR_def persistConnectedMode_def storeCall_def markConnected_def
        watchInventory_def tryR_def failR_def live_def seen_def upd_def recordLog_def hubPublish_def tick_def ex_cenv_def Let_def split: if_splits)
  show ?thesis
    unfolding exposeSOCKS_def Let_def sessionR_def
    by (rule goes_bindR [OF goes_try], simp add: ex_cenv_def ex_socksAddress, rule goes_bindR [OF goes_act],
        simp add: live_def upd_def restoreNativePortForwards_def, rule goes_bindR [OF goes_log], rule triple_bindR [OF p], rule rest)
qed

lemma ex_connects: "seen (runSession ex_cenv ex_socks ex_conn)"
proof -
  have "triple (live True) (runBody ex_cenv ex_socks) (\<lambda>_. seen) seen"
    unfolding runBody_def
  proof (rule triple_bindR [OF ex_prepare])
    fix p
    show "triple (\<lambda>r. live False r \<and> pd_bridge p = ''127.0.0.1:7'')
        (if cq_Mode ex_socks = ConnectionModeSOCKS
         then bindR (exposeSOCKS ex_cenv ex_socks (pd_bridge p) (pd_state p)) (\<lambda>st. serveSOCKSConnected ex_cenv st (ce_events ex_cenv))
         else bindR (exposeTUN ex_cenv ex_socks (pd_caps p) (pd_network p) (pd_bridge p) (pd_dns p) (pd_state p))
                (\<lambda>st. serveConnected ex_cenv st (ce_events ex_cenv))) (\<lambda>_. seen) seen"
      using triple_bindR [OF ex_expose [where Q = "\<lambda>_ _. False"], of "\<lambda>st. serveSOCKSConnected ex_cenv st (ce_events ex_cenv)" "\<lambda>_. seen" "pd_state p"]
      by (cases "pd_bridge p = ''127.0.0.1:7''") (simp_all add: ex_socks_def ConnectionModeSOCKS_def triple_def)
  qed
  from triple_end [OF this, of "newRun ex_conn"]
  have "seen (snd (runBody ex_cenv ex_socks (newRun ex_conn)))"
    by (simp add: live_def newRun_def ex_conn_def intercepting_def NewManager_def)
  then show ?thesis
    by (simp add: seen_def runSession_def finishRun_def Let_def upd_def tick_def hubPublish_def recordLog_def closeResources_published)
qed




text \<open>
  C5. A run publishes the phase connected only after everything it needs has answered: the account
  may reach the Gateway, the Gateway is there, its port-forward, token and control session stand, the
  bridge listens, and either the SOCKS5 proxy has a port on loopback or the core runs with valid
  feature inbounds.
\<close>

theorem connected_means_ready:
  assumes "cm_published (rn_c (runSession env q c)) = cm_published c @ states"
    and "list_ex (\<lambda>s. ps_Phase s = PhaseConnected) states"
  shows "ready env q"
proof (rule ccontr)
  assume "\<not> ready env q"
  from Connected_ready [OF this, of c] assms(1) have "list_all (\<lambda>s. ps_Phase s \<noteq> PhaseConnected) states" by auto
  with assms(2) show False by (auto simp: list_all_iff list_ex_iff)
qed

theorem connected_means_ready_witness:
  "list_ex (\<lambda>s. ps_Phase s = PhaseConnected) (cm_published (rn_c (runSession ex_cenv ex_socks ex_conn))) \<and> ready ex_cenv ex_socks"
  using connected_means_ready [of ex_cenv ex_socks ex_conn "cm_published (rn_c (runSession ex_cenv ex_socks ex_conn))"] ex_connects
  by (simp add: seen_def ex_conn_def)

text \<open>
  C6. A lost control channel is tried five times at most, first on the port-forward there is and then
  each time on a new one. When all fail, every new port-forward has been closed. When one works it is
  the only one kept: it is registered for the end of the run, and the bridge and the control session
  use the same address.
\<close>

theorem recovery_keeps_one_channel:
  "case recoverGatewayControl env tries r of (e, r') \<Rightarrow>
     \<exists>fws. length fws < controlRecoveryAttempts \<and> rn_opened r' = rn_opened r @ fws \<and>
      (case e of
         Some _ \<Rightarrow> rn_closed r' = rn_closed r @ map handleCloser fws \<and> closers r' = closers r
       | None \<Rightarrow>
           if fws = [] then rn_closed r' = rn_closed r \<and> closers r' = closers r \<and> rn_bridgeGateway r' = rn_bridgeGateway r \<and>
             controlAddress r' = controlAddress r
           else rn_closed r' = rn_closed r @ map handleCloser (butlast fws) \<and>
             closers r' = closers r @ [handleCloser (last fws)] \<and> rn_bridgeGateway r' = controlAddress r')"
proof (cases "recoverGatewayControl env tries r")
  case (Pair e r')
  from recovery_channels [OF this] show ?thesis unfolding Pair prod.case .
qed

text \<open>
  \<^verbatim>\<open>AppendLog\<close> and \<^verbatim>\<open>SetKubernetesVersion\<close> copy the state, release the lock and publish the copy. A
  phase that another goroutine publishes in between is lost: the copy puts the old phase back.
\<close>

lemma appendLog_loses_publish:
  "let copy = cm_state c; c' = hubPublish st (recordLog level message c) in
    ps_Phase (cm_state c') = ps_Phase st \<and> ps_Phase (cm_state (hubPublish copy c')) = ps_Phase (cm_state c)"
  by (simp add: hubPublish_def)

end
