(* ===== verification/ServiceBinding.thy ===== *)
theory ServiceBinding
  imports Ports
begin

text \<open>
  Binding a Service to the Gateway: \<^verbatim>\<open>internal/cluster/servicebinding\<close> (\<^verbatim>\<open>endpoints.go\<close>, \<^verbatim>\<open>preview.go\<close>).

  The API server is a state: the Services and EndpointSlices of one namespace. A call is answered from
  it unless it fails, and a write that fails may have taken effect all the same: the argument \<open>api\<close>
  says of the \<open>n\<close>-th call whether it fails, with which error, and whether its write happened. Objects
  hold what a client sets; the fields of the server (versions, identifiers, times) are left out, and
  so is the deletion of an object with finalizers, which only marks it. The texts of
  \<^verbatim>\<open>encoding/json\<close> for a selector are arguments.
\<close>

section \<open>Objects\<close>

definition interceptManagedLabel :: string where "interceptManagedLabel = ''app.kubernetes.io/managed-by''"
definition interceptManagedValue :: string where "interceptManagedValue = ''kubeloop''"
definition ServiceNameLabel :: string where "ServiceNameLabel = ''kubernetes.io/service-name''"
definition annotationInterceptID :: string where "annotationInterceptID = ''kubeloop.dev/intercept-id''"
definition annotationSelectorBackup :: string where "annotationSelectorBackup = ''kubeloop.dev/selector-backup''"
definition annotationPreviewID :: string where "annotationPreviewID = ''kubeloop.dev/preview-id''"
definition appNameLabel :: string where "appNameLabel = ''app.kubernetes.io/name''"
definition previewAppLabel :: string where "previewAppLabel = ''kubeloop-preview''"

lemmas label_defs = interceptManagedLabel_def ServiceNameLabel_def appNameLabel_def interceptManagedValue_def
  annotationInterceptID_def annotationSelectorBackup_def annotationPreviewID_def

type_synonym smap = "(string, string) kv"

text \<open>Reading a missing key of a Go map gives the empty string.\<close>

definition sget :: "smap \<Rightarrow> string \<Rightarrow> string" where
  "sget m k = (case kv_get m k of None \<Rightarrow> [] | Some v \<Rightarrow> v)"

record kEndpoint =
  ke_Addresses :: "string list"
  ke_Ready :: "bool option"
  ke_Serving :: "bool option"
  ke_Terminating :: "bool option"

record kEndpointPort =
  kp_Name :: "string option"
  kp_Protocol :: "string option"
  kp_Port :: "i32 option"

record EndpointSlice =
  es_Name :: string
  es_Labels :: smap
  es_Annotations :: smap
  es_OwnerReferences :: "string list"
  es_Finalizers :: "string list"
  es_AddressType :: string
  es_Endpoints :: "kEndpoint list"
  es_Ports :: "kEndpointPort list"

record kSubset =
  kx_Addresses :: "string list"
  kx_NotReadyAddresses :: "string list"
  kx_Ports :: "kEndpointPort list"

record kServicePort =
  kw_Name :: string
  kw_Protocol :: string
  kw_Port :: i32
  kw_TargetPort :: i32

record kService =
  ks_Name :: string
  ks_Labels :: smap
  ks_Annotations :: smap
  ks_Selector :: smap
  ks_Type :: string
  ks_ClusterIP :: string
  ks_Ports :: "kServicePort list"

record kube =
  kb_services :: "(string, kService) kv"
  kb_slices :: "(string, EndpointSlice) kv"
  kb_endpoints :: "(string, kSubset list) kv"
  kb_clock :: nat

section \<open>The API server\<close>

datatype kerr = KNotFound string | KAlreadyExists string | KOther goerr

fun kerr_err :: "kerr \<Rightarrow> goerr" where
  "kerr_err (KNotFound name) = Errorf (quote name @ '' not found'')"
| "kerr_err (KAlreadyExists name) = Errorf (quote name @ '' already exists'')"
| "kerr_err (KOther e) = e"

text \<open>What can be wrong with a call: its error, and whether its write took effect.\<close>

type_synonym kapi = "nat \<Rightarrow> (goerr \<times> bool) option"

definition kread :: "kapi \<Rightarrow> kube \<Rightarrow> (kerr + 'a) \<Rightarrow> (kerr + 'a) \<times> kube" where
  "kread api k answer =
     ((case api (kb_clock k) of Some (e, _) \<Rightarrow> Inl (KOther e) | None \<Rightarrow> answer), k\<lparr>kb_clock := kb_clock k + 1\<rparr>)"

definition kwrite :: "kapi \<Rightarrow> kube \<Rightarrow> (kerr + kube) \<Rightarrow> kerr option \<times> kube" where
  "kwrite api k outcome =
     (let k' = k\<lparr>kb_clock := kb_clock k + 1\<rparr>;
          done0 = (case outcome of Inl e \<Rightarrow> k' | Inr k1 \<Rightarrow> k1\<lparr>kb_clock := kb_clock k + 1\<rparr>)
      in case api (kb_clock k) of
           Some (e, took) \<Rightarrow> (Some (KOther e), if took then done0 else k')
         | None \<Rightarrow> (case outcome of Inl e \<Rightarrow> Some e | Inr _ \<Rightarrow> None, done0))"

definition lookupK :: "(string, 'v) kv \<Rightarrow> string \<Rightarrow> kerr + 'v" where
  "lookupK m name = (case kv_get m name of None \<Rightarrow> Inl (KNotFound name) | Some v \<Rightarrow> Inr v)"

definition getServiceK :: "kapi \<Rightarrow> string \<Rightarrow> kube \<Rightarrow> (kerr + kService) \<times> kube" where
  "getServiceK api name k = kread api k (lookupK (kb_services k) name)"

definition updateServiceK :: "kapi \<Rightarrow> kService \<Rightarrow> kube \<Rightarrow> kerr option \<times> kube" where
  "updateServiceK api s k =
     kwrite api k (if kv_get (kb_services k) (ks_Name s) = None then Inl (KNotFound (ks_Name s))
                   else Inr (k\<lparr>kb_services := kv_put (ks_Name s) s (kb_services k)\<rparr>))"

definition createServiceK :: "kapi \<Rightarrow> kService \<Rightarrow> kube \<Rightarrow> kerr option \<times> kube" where
  "createServiceK api s k =
     kwrite api k (if kv_get (kb_services k) (ks_Name s) \<noteq> None then Inl (KAlreadyExists (ks_Name s))
                   else Inr (k\<lparr>kb_services := kv_put (ks_Name s) s (kb_services k)\<rparr>))"

definition deleteServiceK :: "kapi \<Rightarrow> string \<Rightarrow> kube \<Rightarrow> kerr option \<times> kube" where
  "deleteServiceK api name k =
     kwrite api k (if kv_get (kb_services k) name = None then Inl (KNotFound name)
                   else Inr (k\<lparr>kb_services := kv_del name (kb_services k)\<rparr>))"

definition listSlicesK :: "kapi \<Rightarrow> string \<Rightarrow> kube \<Rightarrow> (kerr + EndpointSlice list) \<times> kube" where
  "listSlicesK api service k =
     kread api k (Inr (filter (\<lambda>s. kv_get (es_Labels s) ServiceNameLabel = Some service) (map snd (kb_slices k))))"

definition getSliceK :: "kapi \<Rightarrow> string \<Rightarrow> kube \<Rightarrow> (kerr + EndpointSlice) \<times> kube" where
  "getSliceK api name k = kread api k (lookupK (kb_slices k) name)"

definition createSliceK :: "kapi \<Rightarrow> EndpointSlice \<Rightarrow> kube \<Rightarrow> kerr option \<times> kube" where
  "createSliceK api s k =
     kwrite api k (if kv_get (kb_slices k) (es_Name s) \<noteq> None then Inl (KAlreadyExists (es_Name s))
                   else Inr (k\<lparr>kb_slices := kv_put (es_Name s) s (kb_slices k)\<rparr>))"

definition updateSliceK :: "kapi \<Rightarrow> EndpointSlice \<Rightarrow> kube \<Rightarrow> kerr option \<times> kube" where
  "updateSliceK api s k =
     kwrite api k (if kv_get (kb_slices k) (es_Name s) = None then Inl (KNotFound (es_Name s))
                   else Inr (k\<lparr>kb_slices := kv_put (es_Name s) s (kb_slices k)\<rparr>))"

definition deleteSliceK :: "kapi \<Rightarrow> string \<Rightarrow> kube \<Rightarrow> kerr option \<times> kube" where
  "deleteSliceK api name k =
     kwrite api k (if kv_get (kb_slices k) name = None then Inl (KNotFound name)
                   else Inr (k\<lparr>kb_slices := kv_del name (kb_slices k)\<rparr>))"

definition getEndpointsK :: "kapi \<Rightarrow> string \<Rightarrow> kube \<Rightarrow> (kerr + kSubset list) \<times> kube" where
  "getEndpointsK api name k = kread api k (lookupK (kb_endpoints k) name)"

definition createEndpointsK :: "kapi \<Rightarrow> string \<Rightarrow> kSubset list \<Rightarrow> kube \<Rightarrow> kerr option \<times> kube" where
  "createEndpointsK api name subsets k =
     kwrite api k (if kv_get (kb_endpoints k) name \<noteq> None then Inl (KAlreadyExists name)
                   else Inr (k\<lparr>kb_endpoints := kv_put name subsets (kb_endpoints k)\<rparr>))"

definition updateEndpointsK :: "kapi \<Rightarrow> string \<Rightarrow> kSubset list \<Rightarrow> kube \<Rightarrow> kerr option \<times> kube" where
  "updateEndpointsK api name subsets k =
     kwrite api k (if kv_get (kb_endpoints k) name = None then Inl (KNotFound name)
                   else Inr (k\<lparr>kb_endpoints := kv_put name subsets (kb_endpoints k)\<rparr>))"

section \<open>Intercepting a Service: endpoints.go\<close>

record ServiceInterceptSnapshot =
  si_Namespace :: string
  si_Service :: string
  si_Selector :: smap
  si_Ports :: "InterceptPort list"
  si_GatewayIP :: string
  si_EndpointSlices :: "EndpointSlice list"
  si_HasEndpointSlices :: bool
  si_EndpointsSubsets :: "kSubset list"
  si_HasEndpoints :: bool

text \<open>\<^verbatim>\<open>json.Marshal\<close> and \<^verbatim>\<open>json.Unmarshal\<close> on a selector.\<close>

record jsonLib =
  marshal :: "smap \<Rightarrow> string res"
  unmarshal :: "string \<Rightarrow> smap res"

definition trim_right :: "char \<Rightarrow> string \<Rightarrow> string" where
  "trim_right c s = rev (dropWhile (\<lambda>x. x = c) (rev s))"

definition managedEndpointSliceName :: "string \<Rightarrow> string" where
  "managedEndpointSliceName serviceName =
     (let name = serviceName @ ''-kubeloop''
      in if length name > 63 then trim_right (CHR ''-'') (take 63 name) else name)"

definition managedPort :: "InterceptPort \<Rightarrow> kEndpointPort" where
  "managedPort port =
     \<lparr>kp_Name = Some (ip_Name port),
      kp_Protocol = Some (if ip_Protocol port = [] then ''TCP'' else ip_Protocol port),
      kp_Port = Some (ip_ListenPort port)\<rparr>"

definition managedEndpointSlice :: "ServiceInterceptSnapshot \<Rightarrow> string \<Rightarrow> EndpointSlice" where
  "managedEndpointSlice snapshot interceptID =
     \<lparr>es_Name = managedEndpointSliceName (si_Service snapshot),
      es_Labels = [(ServiceNameLabel, si_Service snapshot), (interceptManagedLabel, interceptManagedValue),
                   (appNameLabel, ''kubeloop-intercept'')],
      es_Annotations = [(annotationInterceptID, interceptID)], es_OwnerReferences = [], es_Finalizers = [],
      es_AddressType = ''IPv4'',
      es_Endpoints = [\<lparr>ke_Addresses = [si_GatewayIP snapshot], ke_Ready = Some True, ke_Serving = Some True,
                       ke_Terminating = Some False\<rparr>],
      es_Ports = map managedPort (si_Ports snapshot)\<rparr>"

definition snapshotEndpointSlices ::
  "kapi \<Rightarrow> ServiceInterceptSnapshot \<Rightarrow> kube \<Rightarrow> (string list \<times> ServiceInterceptSnapshot) res \<times> kube" where
  "snapshotEndpointSlices api snapshot k =
     (case listSlicesK api (si_Service snapshot) k of
        (Inl e, k') \<Rightarrow> (Inl (Wrapf ''list endpoint slices: '' (kerr_err e)), k')
      | (Inr items, k') \<Rightarrow>
          (let kept = filter (\<lambda>s. sget (es_Labels s) interceptManagedLabel \<noteq> interceptManagedValue) items
           in (Inr (map es_Name items,
                 snapshot\<lparr>si_EndpointSlices := kept, si_HasEndpointSlices := (length kept > 0), si_HasEndpoints := False,
                   si_EndpointsSubsets := []\<rparr>), k')))"

fun deleteEndpointSlices :: "kapi \<Rightarrow> string list \<Rightarrow> kube \<Rightarrow> goerr option \<times> kube" where
  "deleteEndpointSlices api [] k = (None, k)"
| "deleteEndpointSlices api (name # names) k =
     (case deleteSliceK api name k of
        (None, k') \<Rightarrow> deleteEndpointSlices api names k'
      | (Some (KNotFound _), k') \<Rightarrow> deleteEndpointSlices api names k'
      | (Some e, k') \<Rightarrow> (Some (Wrapf (''delete endpoint slice '' @ name @ '': '') (kerr_err e)), k'))"

text \<open>The copy that is created again: every field that the model has.\<close>

definition endpointSliceForCreate :: "EndpointSlice \<Rightarrow> EndpointSlice" where
  "endpointSliceForCreate saved =
     \<lparr>es_Name = es_Name saved, es_Labels = es_Labels saved, es_Annotations = es_Annotations saved,
      es_OwnerReferences = es_OwnerReferences saved, es_Finalizers = es_Finalizers saved,
      es_AddressType = es_AddressType saved, es_Endpoints = es_Endpoints saved, es_Ports = es_Ports saved\<rparr>"

definition restoreSlice :: "kapi \<Rightarrow> EndpointSlice \<Rightarrow> kube \<Rightarrow> goerr option \<times> kube" where
  "restoreSlice api saved k =
     (let desired = endpointSliceForCreate saved;
          failed = (\<lambda>e. Some (Wrapf (''restore endpoint slice '' @ es_Name desired @ '': '') (kerr_err e)))
      in case createSliceK api desired k of
           (None, k1) \<Rightarrow> (None, k1)
         | (Some (KAlreadyExists _), k1) \<Rightarrow>
             (case getSliceK api (es_Name desired) k1 of
                (Inl e, k2) \<Rightarrow> (Some (Wrapf (''get endpoint slice '' @ es_Name desired @ '' for restore: '') (kerr_err e)), k2)
              | (Inr current, k2) \<Rightarrow>
                  (case updateSliceK api (current\<lparr>es_Labels := es_Labels desired, es_Annotations := es_Annotations desired,
                      es_OwnerReferences := es_OwnerReferences desired, es_AddressType := es_AddressType desired,
                      es_Endpoints := es_Endpoints desired, es_Ports := es_Ports desired\<rparr>) k2 of
                     (None, k3) \<Rightarrow> (None, k3)
                   | (Some e, k3) \<Rightarrow> (failed e, k3)))
         | (Some e, k1) \<Rightarrow> (failed e, k1))"

fun restoreEndpointSlices :: "kapi \<Rightarrow> EndpointSlice list \<Rightarrow> kube \<Rightarrow> goerr option \<times> kube" where
  "restoreEndpointSlices api [] k = (None, k)"
| "restoreEndpointSlices api (saved # rest) k =
     (case restoreSlice api saved k of
        (Some e, k') \<Rightarrow> (Some e, k')
      | (None, k') \<Rightarrow> restoreEndpointSlices api rest k')"

definition restoredSelector :: "jsonLib \<Rightarrow> ServiceInterceptSnapshot \<Rightarrow> kService \<Rightarrow> smap res" where
  "restoredSelector lib snapshot service =
     (if length (si_Selector snapshot) = 0 \<and> sget (ks_Annotations service) annotationSelectorBackup \<noteq> []
      then (case unmarshal lib (sget (ks_Annotations service) annotationSelectorBackup) of
              Inl e \<Rightarrow> Inl (Wrapf ''decode selector backup: '' e) | Inr selector \<Rightarrow> Inr selector)
      else Inr (si_Selector snapshot))"

text \<open>
  The classic Endpoints object of the Service is restored only when the snapshot has one. No snapshot
  that \<^verbatim>\<open>snapshotEndpointSlices\<close> takes does.
\<close>

definition restoreEndpoints :: "kapi \<Rightarrow> ServiceInterceptSnapshot \<Rightarrow> kube \<Rightarrow> goerr option \<times> kube" where
  "restoreEndpoints api snapshot k =
     (let failed = (\<lambda>e. Some (Wrapf ''restore endpoints: '' (kerr_err e)))
      in if \<not> si_HasEndpoints snapshot then (None, k)
         else case createEndpointsK api (si_Service snapshot) (si_EndpointsSubsets snapshot) k of
           (None, k1) \<Rightarrow> (None, k1)
         | (Some (KAlreadyExists _), k1) \<Rightarrow>
             (case getEndpointsK api (si_Service snapshot) k1 of
                (Inl e, k2) \<Rightarrow> (Some (Wrapf ''get endpoints for restore: '' (kerr_err e)), k2)
              | (Inr current, k2) \<Rightarrow>
                  (case updateEndpointsK api (si_Service snapshot) (si_EndpointsSubsets snapshot) k2 of
                     (None, k3) \<Rightarrow> (None, k3)
                   | (Some e, k3) \<Rightarrow> (failed e, k3)))
         | (Some e, k1) \<Rightarrow> (failed e, k1))"

definition restoreServiceIntercept :: "jsonLib \<Rightarrow> kapi \<Rightarrow> ServiceInterceptSnapshot \<Rightarrow> kube \<Rightarrow> goerr option \<times> kube" where
  "restoreServiceIntercept lib api snapshot k0 =
     (let managed = managedEndpointSliceName (si_Service snapshot) in
      case getServiceK api (si_Service snapshot) k0 of
        (Inl (KNotFound _), k1) \<Rightarrow> (None, snd (deleteSliceK api managed k1))
      | (Inl e, k1) \<Rightarrow> (Some (Wrapf ''get service for restore: '' (kerr_err e)), k1)
      | (Inr service, k1) \<Rightarrow>
          (case restoredSelector lib snapshot service of
             Inl e \<Rightarrow> (Some e, k1)
           | Inr selector \<Rightarrow>
               (case updateServiceK api (service\<lparr>ks_Selector := selector, ks_Annotations :=
                   kv_del annotationSelectorBackup (kv_del annotationInterceptID (ks_Annotations service))\<rparr>) k1 of
                  (Some e, k2) \<Rightarrow> (Some (Wrapf ''restore service selector: '' (kerr_err e)), k2)
                | (None, k2) \<Rightarrow>
                    (let k3 = snd (deleteSliceK api managed k2)
                     in if si_HasEndpointSlices snapshot then restoreEndpointSlices api (si_EndpointSlices snapshot) k3
                        else restoreEndpoints api snapshot k3))))"

text \<open>The managed slice; one of its name that is left over is deleted first.\<close>

definition createManaged :: "kapi \<Rightarrow> EndpointSlice \<Rightarrow> kube \<Rightarrow> kerr option \<times> kube" where
  "createManaged api desired k =
     (case createSliceK api desired k of
        (Some (KAlreadyExists _), k1) \<Rightarrow> createSliceK api desired (snd (deleteSliceK api (es_Name desired) k1))
      | (e, k1) \<Rightarrow> (e, k1))"

definition checkSnapshot :: "ServiceInterceptSnapshot \<Rightarrow> unit res" where
  "checkSnapshot snapshot =
     bindE (guardE (si_Namespace snapshot \<noteq> [] \<and> si_Service snapshot \<noteq> []) (Errorf ''namespace and service are required'')) (\<lambda>_.
     bindE (guardE (si_GatewayIP snapshot \<noteq> []) (Errorf ''gateway IP is required'')) (\<lambda>_.
     guardE (length (si_Ports snapshot) \<noteq> 0) (Errorf ''at least one port mapping is required'')))"

definition serviceName :: "ServiceInterceptSnapshot \<Rightarrow> string" where
  "serviceName snapshot = ''service '' @ si_Namespace snapshot @ ''/'' @ si_Service snapshot"

definition checkService :: "ServiceInterceptSnapshot \<Rightarrow> string \<Rightarrow> kService \<Rightarrow> unit res" where
  "checkService snapshot interceptID service =
     bindE (guardE (\<not> (ks_ClusterIP service = ''None'' \<or> ks_Type service = ''ExternalName''))
       (Errorf (serviceName snapshot @ '' cannot be intercepted''))) (\<lambda>_.
     let owner = sget (ks_Annotations service) annotationInterceptID in
     guardE (\<not> (owner \<noteq> [] \<and> owner \<noteq> interceptID)) (Errorf (serviceName snapshot @ '' is already intercepted'')))"

definition claimedService :: "jsonLib \<Rightarrow> string \<Rightarrow> kService \<Rightarrow> kService res" where
  "claimedService lib interceptID service =
     bindE (if sget (ks_Annotations service) annotationSelectorBackup = [] \<and> length (ks_Selector service) > 0
            then (case marshal lib (ks_Selector service) of
                    Inl e \<Rightarrow> Inl (Wrapf ''marshal selector: '' e)
                  | Inr raw \<Rightarrow> Inr (kv_put annotationSelectorBackup raw (ks_Annotations service)))
            else Inr (ks_Annotations service)) (\<lambda>annotations.
     Inr (service\<lparr>ks_Annotations := kv_put annotationInterceptID interceptID annotations, ks_Selector := []\<rparr>))"

definition rollbackIntercept ::
  "jsonLib \<Rightarrow> kapi \<Rightarrow> ServiceInterceptSnapshot \<Rightarrow> goerr \<Rightarrow> kube \<Rightarrow> goerr option \<times> kube" where
  "rollbackIntercept lib api snapshot cause k =
     (case restoreServiceIntercept lib api snapshot k of
        (None, k') \<Rightarrow> (Some cause, k')
      | (Some e, k') \<Rightarrow> (Some (Errorf (err_text cause @ [CHR 0x0A] @ ''rollback intercept: '' @ err_text e)), k'))"

text \<open>The second half of \<^verbatim>\<open>applyServiceIntercept\<close>, after the Service is claimed.\<close>

definition takeSlices ::
  "jsonLib \<Rightarrow> kapi \<Rightarrow> string \<Rightarrow> string list \<Rightarrow> ServiceInterceptSnapshot \<Rightarrow> kube \<Rightarrow> goerr option \<times> kube" where
  "takeSlices lib api interceptID names snap k3 =
     (case deleteEndpointSlices api names k3 of
        (Some e, k4) \<Rightarrow> rollbackIntercept lib api snap e k4
      | (None, k4) \<Rightarrow>
          (case createManaged api (managedEndpointSlice snap interceptID) k4 of
             (None, k5) \<Rightarrow> (None, k5)
           | (Some e, k5) \<Rightarrow> rollbackIntercept lib api snap (Wrapf ''create managed endpoint slice: '' (kerr_err e)) k5))"

text \<open>\<^verbatim>\<open>applyServiceIntercept\<close>, with the snapshot as it leaves it.\<close>

definition applyServiceIntercept ::
  "jsonLib \<Rightarrow> kapi \<Rightarrow> string \<Rightarrow> ServiceInterceptSnapshot \<Rightarrow> kube \<Rightarrow> goerr option \<times> ServiceInterceptSnapshot \<times> kube" where
  "applyServiceIntercept lib api interceptID snapshot k0 =
     (case checkSnapshot snapshot of
        Inl e \<Rightarrow> (Some e, snapshot, k0)
      | Inr _ \<Rightarrow>
     (case getServiceK api (si_Service snapshot) k0 of
        (Inl e, k1) \<Rightarrow> (Some (Wrapf ''get service: '' (kerr_err e)), snapshot, k1)
      | (Inr service, k1) \<Rightarrow>
     (case checkService snapshot interceptID service of
        Inl e \<Rightarrow> (Some e, snapshot, k1)
      | Inr _ \<Rightarrow>
     (case snapshotEndpointSlices api snapshot k1 of
        (Inl e, k2) \<Rightarrow> (Some e, snapshot, k2)
      | (Inr (names, snap), k2) \<Rightarrow>
     (case claimedService lib interceptID service of
        Inl e \<Rightarrow> (Some e, snap, k2)
      | Inr claimed \<Rightarrow>
     (case updateServiceK api claimed k2 of
        (Some e, k3) \<Rightarrow> (Some (Wrapf ''clear service selector: '' (kerr_err e)), snap, k3)
      | (None, k3) \<Rightarrow>
     (case takeSlices lib api interceptID names snap k3 of (e, k4) \<Rightarrow> (e, snap, k4))))))))"

text \<open>\<^verbatim>\<open>GetService\<close> and \<^verbatim>\<open>BuildInterceptPorts\<close>; the allocator of listen ports is an argument with a state.\<close>

definition GetService :: "kapi \<Rightarrow> string \<Rightarrow> string \<Rightarrow> kube \<Rightarrow> kService res \<times> kube" where
  "GetService api namespace name k =
     (case getServiceK api name k of
        (Inl e, k') \<Rightarrow> (Inl (Wrapf (''get service '' @ namespace @ ''/'' @ name @ '': '') (kerr_err e)), k')
      | (Inr service, k') \<Rightarrow> (Inr service, k'))"

fun buildInterceptLoop :: "(string \<Rightarrow> 's \<Rightarrow> i32 res \<times> 's) \<Rightarrow> kServicePort list \<Rightarrow> 's \<Rightarrow> InterceptPort list res \<times> 's" where
  "buildInterceptLoop allocate [] a = (Inr [], a)"
| "buildInterceptLoop allocate (port # ports) a =
     (let protocol = (if kw_Protocol port = [] then ''TCP'' else kw_Protocol port)
      in case allocate protocol a of
           (Inl e, a') \<Rightarrow> (Inl e, a')
         | (Inr listenPort, a') \<Rightarrow>
             (case buildInterceptLoop allocate ports a' of
                (Inl e, a'') \<Rightarrow> (Inl e, a'')
              | (Inr rest, a'') \<Rightarrow>
                  (Inr (\<lparr>ip_Name = (if kw_Name port = [] then to_lower protocol @ ''-'' @ itoa_int (sint (kw_Port port)) else kw_Name port),
                         ip_Protocol = protocol, ip_ServicePort = kw_Port port, ip_ListenPort = listenPort\<rparr> # rest), a'')))"

definition BuildInterceptPorts :: "kService \<Rightarrow> (string \<Rightarrow> 's \<Rightarrow> i32 res \<times> 's) \<Rightarrow> 's \<Rightarrow> InterceptPort list res \<times> 's" where
  "BuildInterceptPorts service allocate a =
     (case buildInterceptLoop allocate (ks_Ports service) a of
        (Inl e, a') \<Rightarrow> (Inl e, a')
      | (Inr ports, a') \<Rightarrow> (if length ports = 0 then Inl (Errorf ''service has no ports'') else Inr ports, a'))"

section \<open>Previews: preview.go\<close>

record PreviewServiceSnapshot =
  pq_Namespace :: string
  pq_Service :: string
  pq_Ports :: "InterceptPort list"
  pq_GatewayIP :: string

text \<open>\<^verbatim>\<open>^[a-z0-9]([-a-z0-9]*[a-z0-9])?$\<close>\<close>

definition label_alnum :: "char \<Rightarrow> bool" where
  "label_alnum c \<longleftrightarrow> (let n = (of_char c :: nat) in (97 \<le> n \<and> n \<le> 122) \<or> (48 \<le> n \<and> n \<le> 57))"

definition dns1123Label :: "string \<Rightarrow> bool" where
  "dns1123Label s \<longleftrightarrow> s \<noteq> [] \<and> label_alnum (hd s) \<and> label_alnum (last s) \<and>
     list_all (\<lambda>c. label_alnum c \<or> c = CHR ''-'') s"

fun previewPortsOK :: "InterceptPort list \<Rightarrow> unit res" where
  "previewPortsOK [] = Inr ()"
| "previewPortsOK (port # ports) =
     bindE (guardE (\<not> (sint (ip_ServicePort port) \<le> 0 \<or> sint (ip_ServicePort port) > 65535))
       (Errorf (''invalid service port '' @ itoa_int (sint (ip_ServicePort port))))) (\<lambda>_.
     bindE (guardE (\<not> (sint (ip_ListenPort port) \<le> 0 \<or> sint (ip_ListenPort port) > 65535))
       (Errorf (''invalid listen port '' @ itoa_int (sint (ip_ListenPort port))))) (\<lambda>_.
     previewPortsOK ports))"

definition validatePreviewSnapshot :: "PreviewServiceSnapshot \<Rightarrow> unit res" where
  "validatePreviewSnapshot snapshot =
     bindE (guardE (pq_Namespace snapshot \<noteq> [] \<and> pq_Service snapshot \<noteq> []) (Errorf ''namespace and service are required'')) (\<lambda>_.
     bindE (guardE (dns1123Label (pq_Service snapshot) \<and> length (pq_Service snapshot) \<le> 63)
       (Errorf (''service name '' @ quote (pq_Service snapshot) @ '' is not a valid DNS-1123 label''))) (\<lambda>_.
     bindE (guardE (pq_GatewayIP snapshot \<noteq> []) (Errorf ''gateway IP is required'')) (\<lambda>_.
     bindE (guardE (length (pq_Ports snapshot) \<noteq> 0) (Errorf ''at least one port mapping is required'')) (\<lambda>_.
     previewPortsOK (pq_Ports snapshot)))))"

definition previewPort :: "InterceptPort \<Rightarrow> kServicePort" where
  "previewPort port =
     (let protocol = (if ip_Protocol port = [] then ''TCP'' else ip_Protocol port)
      in \<lparr>kw_Name = (if ip_Name port = [] then to_lower protocol @ ''-'' @ itoa_int (sint (ip_ServicePort port)) else ip_Name port),
          kw_Protocol = protocol, kw_Port = ip_ServicePort port, kw_TargetPort = ip_ListenPort port\<rparr>)"

definition previewService :: "PreviewServiceSnapshot \<Rightarrow> string \<Rightarrow> kService" where
  "previewService snapshot previewID =
     \<lparr>ks_Name = pq_Service snapshot,
      ks_Labels = [(interceptManagedLabel, interceptManagedValue), (appNameLabel, previewAppLabel)],
      ks_Annotations = [(annotationPreviewID, previewID)], ks_Selector = [], ks_Type = ''ClusterIP'', ks_ClusterIP = [],
      ks_Ports = map previewPort (pq_Ports snapshot)\<rparr>"

definition previewSlice :: "PreviewServiceSnapshot \<Rightarrow> string \<Rightarrow> EndpointSlice" where
  "previewSlice snapshot previewID =
     (let sl = managedEndpointSlice \<lparr>si_Namespace = pq_Namespace snapshot, si_Service = pq_Service snapshot, si_Selector = [],
            si_Ports = pq_Ports snapshot, si_GatewayIP = pq_GatewayIP snapshot, si_EndpointSlices = [],
            si_HasEndpointSlices = False, si_EndpointsSubsets = [], si_HasEndpoints = False\<rparr> previewID
      in sl\<lparr>es_Labels := kv_put appNameLabel previewAppLabel (es_Labels sl),
               es_Annotations := kv_del annotationInterceptID (kv_put annotationPreviewID previewID (es_Annotations sl))\<rparr>)"

definition createPreviewService :: "kapi \<Rightarrow> PreviewServiceSnapshot \<Rightarrow> string \<Rightarrow> kube \<Rightarrow> kService res \<times> kube" where
  "createPreviewService api snapshot previewID k0 =
     (case validatePreviewSnapshot snapshot of
        Inl e \<Rightarrow> (Inl e, k0)
      | Inr _ \<Rightarrow>
          (case createServiceK api (previewService snapshot previewID) k0 of
             (Some (KAlreadyExists _), k1) \<Rightarrow>
               (Inl (Errorf (''service '' @ pq_Namespace snapshot @ ''/'' @ pq_Service snapshot @ '' already exists'')), k1)
           | (Some e, k1) \<Rightarrow> (Inl (Wrapf ''create preview service: '' (kerr_err e)), k1)
           | (None, k1) \<Rightarrow>
               (case createManaged api (previewSlice snapshot previewID) k1 of
                  (None, k2) \<Rightarrow> (Inr (previewService snapshot previewID), k2)
                | (Some e, k2) \<Rightarrow> (Inl (Wrapf ''create preview endpoint slice: '' (kerr_err e)),
                                   snd (deleteServiceK api (pq_Service snapshot) k2)))))"

definition deletePreviewService :: "kapi \<Rightarrow> PreviewServiceSnapshot \<Rightarrow> kube \<Rightarrow> goerr option \<times> kube" where
  "deletePreviewService api snapshot k0 =
     (let k1 = snd (deleteSliceK api (managedEndpointSliceName (pq_Service snapshot)) k0) in
      case deleteServiceK api (pq_Service snapshot) k1 of
        (None, k2) \<Rightarrow> (None, k2)
      | (Some (KNotFound _), k2) \<Rightarrow> (None, k2)
      | (Some e, k2) \<Rightarrow> (Some (Wrapf ''delete preview service: '' (kerr_err e)), k2))"

section \<open>What the calls do\<close>

text \<open>Calls that do not fail.\<close>

definition calm_from :: "kapi \<Rightarrow> nat \<Rightarrow> bool" where
  "calm_from api n \<longleftrightarrow> (\<forall>i \<ge> n. api i = None)"

end
