(* ===== verification/EndpointBinding.thy ===== *)
theory EndpointBinding
  imports ServiceBinding
begin

text \<open>
  What binding a Service to the Gateway does to its namespace (\<^verbatim>\<open>internal/cluster/servicebinding\<close>): an
  intercept and its end are a round trip, an intercept that fails is undone, a preview touches only
  its own objects. The first part says what each call of the API server does to the Services and the
  slices, by name; the second follows \<^verbatim>\<open>applyServiceIntercept\<close> through the state \<open>taking\<close>, in which the
  Service is claimed and its slices are being replaced, and from which restoring gives back the
  original state.
\<close>

section \<open>Calls and their effects\<close>

abbreviation sv :: "kube \<Rightarrow> string \<Rightarrow> kService option" where "sv k \<equiv> kv_get (kb_services k)"
abbreviation sl :: "kube \<Rightarrow> string \<Rightarrow> EndpointSlice option" where "sl k \<equiv> kv_get (kb_slices k)"

definition faulty :: "kapi \<Rightarrow> nat \<Rightarrow> bool" where
  "faulty api n \<longleftrightarrow> api n \<noteq> None"

definition failed_before :: "kapi \<Rightarrow> nat \<Rightarrow> nat \<Rightarrow> bool" where
  "failed_before api i j \<longleftrightarrow> (\<exists>n. i \<le> n \<and> n < j \<and> faulty api n)"

lemma kv_get_put_fun: "kv_get (kv_put k v m) = (kv_get m)(k := Some v)"
  by (rule ext) (simp add: kv_get_put)

lemma kv_get_del_fun: "kv_get (kv_del k m) = (kv_get m)(k := None)"
  by (rule ext) (simp add: kv_get_del)

lemmas kcalls = getServiceK_def updateServiceK_def createServiceK_def deleteServiceK_def listSlicesK_def getSliceK_def
  createSliceK_def updateSliceK_def deleteSliceK_def kread_def kwrite_def lookupK_def Let_def

lemma deleteSliceK_spec:
  assumes "deleteSliceK api n k = (e, k')"
  shows "kb_clock k' = kb_clock k + 1" "sv k' = sv k" "sl k' = sl k \<or> sl k' = (sl k)(n := None)"
    and "\<not> faulty api (kb_clock k) \<Longrightarrow> sl k' = (sl k)(n := None) \<and> (e = None \<or> e = Some (KNotFound n))"
    and "faulty api (kb_clock k) \<Longrightarrow> \<exists>g. e = Some (KOther g)"
  using assms by (auto simp: faulty_def kcalls kv_get_del_fun split: option.splits prod.splits if_splits)

lemma createSliceK_spec:
  assumes "createSliceK api s k = (e, k')"
  shows "kb_clock k' = kb_clock k + 1" "sv k' = sv k" "sl k' = sl k \<or> sl k' = (sl k)(es_Name s := Some s)"
    and "\<not> faulty api (kb_clock k) \<Longrightarrow> sl k (es_Name s) = None \<Longrightarrow> e = None"
    and "\<not> faulty api (kb_clock k) \<Longrightarrow> sl k (es_Name s) \<noteq> None \<Longrightarrow> e = Some (KAlreadyExists (es_Name s)) \<and> sl k' = sl k"
    and "e = None \<Longrightarrow> sl k' = (sl k)(es_Name s := Some s) \<and> \<not> faulty api (kb_clock k)"
    and "faulty api (kb_clock k) \<Longrightarrow> \<exists>g. e = Some (KOther g)"
  using assms by (auto simp: faulty_def kcalls kv_get_put_fun split: option.splits prod.splits if_splits)

lemma createManaged_spec:
  assumes "createManaged api s k = (e, k')"
  shows "kb_clock k < kb_clock k'" "sv k' = sv k" "\<And>n. n \<noteq> es_Name s \<Longrightarrow> sl k' n = sl k n"
    and "e = None \<Longrightarrow> sl k' = (sl k)(es_Name s := Some s)"
    and "e \<noteq> None \<Longrightarrow> failed_before api (kb_clock k) (kb_clock k')"
proof -
  obtain e1 k1 where c1: "createSliceK api s k = (e1, k1)" by fastforce
  note s1 = createSliceK_spec [OF c1]
  obtain e2 k2 where d: "deleteSliceK api (es_Name s) k1 = (e2, k2)" by fastforce
  note s2 = deleteSliceK_spec [OF d]
  obtain e3 k3 where c3: "createSliceK api s k2 = (e3, k3)" by fastforce
  note s3 = createSliceK_spec [OF c3]
  have "kb_clock k < kb_clock k' \<and> sv k' = sv k \<and> (\<forall>n. n \<noteq> es_Name s \<longrightarrow> sl k' n = sl k n) \<and>
      (e = None \<longrightarrow> sl k' = (sl k)(es_Name s := Some s)) \<and> (e \<noteq> None \<longrightarrow> failed_before api (kb_clock k) (kb_clock k'))"
  proof (cases "\<exists>x. e1 = Some (KAlreadyExists x)")
    case True
    with assms c1 d c3 have r: "e = e3" "k' = k3" by (auto simp: createManaged_def)
    have n1: "sl k1 = sl k" using True s1(3,4,5,7) by (cases "faulty api (kb_clock k)"; cases "sl k (es_Name s)") auto
    have "failed_before api (kb_clock k) (kb_clock k3)" if "e3 \<noteq> None"
    proof (rule ccontr)
      assume "\<not> failed_before api (kb_clock k) (kb_clock k3)"
      then have "\<not> faulty api (kb_clock k1)" "\<not> faulty api (kb_clock k2)"
        using s1(1) s2(1) s3(1) by (auto simp: failed_before_def)
      with s2(4) s3(4) that show False by auto
    qed
    with r n1 s1(1,2) s2(1,2,3) s3(1,2,3,6) show ?thesis by auto
  next
    case False
    with assms c1 have r: "e = e1" "k' = k1" by (auto simp: createManaged_def split: option.splits kerr.splits)
    have "failed_before api (kb_clock k) (kb_clock k1)" if "e1 \<noteq> None"
    proof -
      have "faulty api (kb_clock k)" using that False s1(4,5) by (cases "sl k (es_Name s)") auto
      then show ?thesis using s1(1) by (auto simp: failed_before_def)
    qed
    with r s1(1,2,3,6) show ?thesis by auto
  qed
  then show "kb_clock k < kb_clock k'" "sv k' = sv k" "\<And>n. n \<noteq> es_Name s \<Longrightarrow> sl k' n = sl k n"
    "e = None \<Longrightarrow> sl k' = (sl k)(es_Name s := Some s)" "e \<noteq> None \<Longrightarrow> failed_before api (kb_clock k) (kb_clock k')" by auto
qed

lemma failed_before_mono: "failed_before api i j \<Longrightarrow> i' \<le> i \<Longrightarrow> j \<le> j' \<Longrightarrow> failed_before api i' j'"
  unfolding failed_before_def by (meson le_trans less_le_trans)

lemma deleteEndpointSlices_spec:
  assumes "deleteEndpointSlices api names k = (e, k')"
  shows "kb_clock k \<le> kb_clock k' \<and> sv k' = sv k \<and> (\<forall>n. n \<notin> set names \<longrightarrow> sl k' n = sl k n) \<and>
    (\<forall>n. sl k' n = sl k n \<or> sl k' n = None) \<and> (e = None \<longrightarrow> (\<forall>n \<in> set names. sl k' n = None)) \<and>
    (e \<noteq> None \<longrightarrow> failed_before api (kb_clock k) (kb_clock k'))"
  using assms
proof (induction names arbitrary: k)
  case Nil
  then show ?case by simp
next
  case (Cons name names)
  obtain e1 k1 where d: "deleteSliceK api name k = (e1, k1)" by fastforce
  note s = deleteSliceK_spec [OF d]
  show ?case
  proof (cases "e1 = None \<or> (\<exists>x. e1 = Some (KNotFound x))")
    case True
    with Cons.prems d have r: "deleteEndpointSlices api names k1 = (e, k')" by auto
    have a: "\<not> faulty api (kb_clock k)" using True s(5) by auto
    have n: "sl k1 = (sl k)(name := None)" using s(4) [OF a] by simp
    note ih = Cons.IH [OF r]
    have "sl k' name = None" using ih n by (cases "name \<in> set names") (auto, metis)
    moreover have "sl k' m = sl k m \<or> sl k' m = None" for m
    proof -
      have "sl k' m = sl k1 m \<or> sl k' m = None" using ih by (elim conjE) (rule spec)
      then show ?thesis unfolding n by (cases "m = name") simp_all
    qed
    moreover have "failed_before api (kb_clock k) (kb_clock k')" if "e \<noteq> None" using ih s(1) that by (auto intro: failed_before_mono)
    ultimately show ?thesis using ih n s(1,2) by auto
  next
    case False
    with Cons.prems d have "k' = k1" "e \<noteq> None" by (auto split: option.splits kerr.splits)
    moreover have "faulty api (kb_clock k)" using False s(4) by auto
    ultimately show ?thesis using s(1,2,3) by (auto simp: failed_before_def split: if_splits)
  qed
qed


text \<open>Restoring one slice, and all of them, without failures: what is there is what was saved.\<close>

lemma restoreSlice_calm:
  assumes "calm_from api (kb_clock k)" and "sl k (es_Name s) = None \<or> sl k (es_Name s) = Some s"
  shows "\<exists>k'. restoreSlice api s k = (None, k') \<and> kb_clock k \<le> kb_clock k' \<and> sv k' = sv k \<and> sl k' = (sl k)(es_Name s := Some s)"
proof -
  have c: "endpointSliceForCreate s = s" by (simp add: endpointSliceForCreate_def)
  have a: "api (kb_clock k + i) = None" for i using assms(1) by (simp add: calm_from_def)
  from a [of 0] a [of 1] a [of 2] assms(2) show ?thesis
    by (auto simp: restoreSlice_def c kcalls kv_get_put_fun fun_upd_idem)
qed

lemma restoreSlices_calm:
  assumes "calm_from api (kb_clock k)" and "\<And>s. s \<in> set ss \<Longrightarrow> sl k (es_Name s) = None \<or> sl k (es_Name s) = Some s"
    and "distinct (map es_Name ss)"
  shows "\<exists>k'. restoreEndpointSlices api ss k = (None, k') \<and> sv k' = sv k \<and>
    (\<forall>s \<in> set ss. sl k' (es_Name s) = Some s) \<and> (\<forall>n. n \<notin> es_Name ` set ss \<longrightarrow> sl k' n = sl k n)"
  using assms
proof (induction ss arbitrary: k)
  case Nil
  then show ?case by simp
next
  case (Cons s ss)
  obtain k1 where k1: "restoreSlice api s k = (None, k1)" "kb_clock k \<le> kb_clock k1" "sv k1 = sv k" "sl k1 = (sl k)(es_Name s := Some s)"
    using restoreSlice_calm [OF Cons.prems(1), of s] Cons.prems(2) [of s] by auto
  have "calm_from api (kb_clock k1)" using Cons.prems(1) k1(2) by (simp add: calm_from_def)
  moreover have "sl k1 (es_Name t) = None \<or> sl k1 (es_Name t) = Some t" if "t \<in> set ss" for t
  proof -
    have "es_Name t \<noteq> es_Name s" using that Cons.prems(3) by (metis distinct.simps(2) image_eqI list.set_map list.simps(9))
    then show ?thesis using that Cons.prems(2) [of t] by (simp add: k1(4))
  qed
  ultimately obtain k' where k': "restoreEndpointSlices api ss k1 = (None, k')" "sv k' = sv k1"
    "\<forall>t \<in> set ss. sl k' (es_Name t) = Some t" "\<forall>n. n \<notin> es_Name ` set ss \<longrightarrow> sl k' n = sl k1 n"
    using Cons.IH [of k1] Cons.prems(3) by auto
  moreover have "sl k' (es_Name s) = Some s" using k'(4) k1(4) Cons.prems(3) by auto
  ultimately show ?case using k1 by auto
qed

definition restored :: "kService \<Rightarrow> smap \<Rightarrow> kService" where
  "restored service selector = service\<lparr>ks_Selector := selector, ks_Annotations :=
     kv_del annotationSelectorBackup (kv_del annotationInterceptID (ks_Annotations service))\<rparr>"

lemma restore_calm:
  assumes "calm_from api (kb_clock k)" and "sv k (si_Service snap) = Some service" and "ks_Name service = si_Service snap"
    and "restoredSelector lib snap service = Inr selector"
    and "si_HasEndpointSlices snap = (si_EndpointSlices snap \<noteq> [])" and "\<not> si_HasEndpoints snap"
    and "distinct (map es_Name (si_EndpointSlices snap))"
    and "\<And>s. s \<in> set (si_EndpointSlices snap) \<Longrightarrow> sl k (es_Name s) = None \<or> sl k (es_Name s) = Some s"
    and "managedEndpointSliceName (si_Service snap) \<notin> es_Name ` set (si_EndpointSlices snap)"
  shows "\<exists>k'. restoreServiceIntercept lib api snap k = (None, k') \<and>
    sv k' = (sv k)(si_Service snap := Some (restored service selector)) \<and>
    (\<forall>s \<in> set (si_EndpointSlices snap). sl k' (es_Name s) = Some s) \<and>
    (\<forall>n. n \<notin> es_Name ` set (si_EndpointSlices snap) \<longrightarrow>
       sl k' n = (if n = managedEndpointSliceName (si_Service snap) then None else sl k n))"
proof -
  let ?m = "managedEndpointSliceName (si_Service snap)"
  have a: "api (kb_clock k + i) = None" for i using assms(1) by (simp add: calm_from_def)
  obtain k1 where k1: "getServiceK api (si_Service snap) k = (Inr service, k1)" "kb_clock k1 = kb_clock k + 1" "sv k1 = sv k" "sl k1 = sl k"
    using a [of 0] assms(2) by (auto simp: kcalls)
  obtain k2 where k2: "updateServiceK api (restored service selector) k1 = (None, k2)" "kb_clock k2 = kb_clock k + 2"
    "sv k2 = (sv k)(si_Service snap := Some (restored service selector))" "sl k2 = sl k"
    using a [of 1] assms(2,3) k1 by (auto simp: kcalls restored_def kv_get_put_fun)
  obtain e3 k3 where d: "deleteSliceK api ?m k2 = (e3, k3)" by fastforce
  note s3 = deleteSliceK_spec [OF d]
  have k3: "kb_clock k3 = kb_clock k + 3" "sv k3 = sv k2" "sl k3 = (sl k)(?m := None)"
    using s3(1,2) s3(4) k2 a [of 2] by (auto simp: faulty_def)
  have r: "restoreServiceIntercept lib api snap k =
      (if si_HasEndpointSlices snap then restoreEndpointSlices api (si_EndpointSlices snap) k3 else (None, k3))"
    using k1(1) k2(1) d assms(4,6) by (simp add: restoreServiceIntercept_def restoreEndpoints_def restored_def Let_def)
  have "calm_from api (kb_clock k3)" using assms(1) k3(1) by (simp add: calm_from_def)
  moreover have "sl k3 (es_Name s) = None \<or> sl k3 (es_Name s) = Some s" if "s \<in> set (si_EndpointSlices snap)" for s
    using assms(8) [OF that] k3(3) by auto
  ultimately obtain k' where k': "restoreEndpointSlices api (si_EndpointSlices snap) k3 = (None, k')" "sv k' = sv k3"
    "\<forall>s \<in> set (si_EndpointSlices snap). sl k' (es_Name s) = Some s"
    "\<forall>n. n \<notin> es_Name ` set (si_EndpointSlices snap) \<longrightarrow> sl k' n = sl k3 n"
    using restoreSlices_calm [of api k3 "si_EndpointSlices snap"] assms(7) by auto
  show ?thesis
  proof (cases "si_EndpointSlices snap = []")
    case True
    then show ?thesis using r assms(5) k2(3) k3 by auto
  next
    case False
    then show ?thesis using r assms(5) k' k2(3) k3(2,3) by auto
  qed
qed

section \<open>Intercepting and restoring\<close>

text \<open>
  A namespace as the API server keeps it: objects under their names. The slices of a Service carry
  its label; those that an earlier intercept left behind also carry the label of the program.
\<close>

definition kube_ok :: "kube \<Rightarrow> bool" where
  "kube_ok k \<longleftrightarrow> kv_ok (kb_services k) \<and> kv_ok (kb_slices k) \<and>
     list_all (\<lambda>(n, s). ks_Name s = n) (kb_services k) \<and> list_all (\<lambda>(n, s). es_Name s = n) (kb_slices k)"

definition sliceOf :: "string \<Rightarrow> EndpointSlice \<Rightarrow> bool" where
  "sliceOf service s \<longleftrightarrow> kv_get (es_Labels s) ServiceNameLabel = Some service"

definition managed :: "EndpointSlice \<Rightarrow> bool" where
  "managed s \<longleftrightarrow> sget (es_Labels s) interceptManagedLabel = interceptManagedValue"

definition leftover :: "string \<Rightarrow> kube \<Rightarrow> string \<Rightarrow> bool" where
  "leftover service k n \<longleftrightarrow> (case sl k n of None \<Rightarrow> False | Some s \<Rightarrow> sliceOf service s \<and> managed s)"

text \<open>A Service that nobody intercepts, and the snapshot that an intercept of it begins with.\<close>

definition interceptable :: "ServiceInterceptSnapshot \<Rightarrow> kube \<Rightarrow> bool" where
  "interceptable snap k \<longleftrightarrow>
     (case sv k (si_Service snap) of
        None \<Rightarrow> True
      | Some service \<Rightarrow> si_Selector snap = ks_Selector service \<and>
          kv_get (ks_Annotations service) annotationInterceptID = None \<and>
          kv_get (ks_Annotations service) annotationSelectorBackup = None) \<and>
     (sl k (managedEndpointSliceName (si_Service snap)) = None \<or>
      leftover (si_Service snap) k (managedEndpointSliceName (si_Service snap)))"

definition willing :: "jsonLib \<Rightarrow> string \<Rightarrow> ServiceInterceptSnapshot \<Rightarrow> kube \<Rightarrow> bool" where
  "willing lib ID snap k \<longleftrightarrow> checkSnapshot snap = Inr () \<and>
     (case sv k (si_Service snap) of
        None \<Rightarrow> False
      | Some service \<Rightarrow> checkService snap ID service = Inr () \<and>
          (case claimedService lib ID service of Inl e \<Rightarrow> False | Inr claimed \<Rightarrow> True))"

lemma kv_del_absent: "kv_get m k = None \<Longrightarrow> kv_del k m = m"
  by (force simp: kv_del_filter kv_get_None kv_keys_def filter_id_conv)

lemma kv_del_put_other: "k \<noteq> k' \<Longrightarrow> kv_get m k = None \<Longrightarrow> kv_del k (kv_put k' v m) = kv_put k' v m"
  by (rule kv_del_absent) (simp add: kv_get_put)

lemma claimed_restored:
  assumes "claimedService lib ID service = Inr claimed"
    and "kv_get (ks_Annotations service) annotationInterceptID = None" "kv_get (ks_Annotations service) annotationSelectorBackup = None"
    and "si_Selector snap = ks_Selector service"
  shows "restoredSelector lib snap claimed = Inr (ks_Selector service)" "restored claimed (ks_Selector service) = service"
    and "ks_Name claimed = ks_Name service" "ks_Selector claimed = []"
    and "kv_get (ks_Annotations claimed) annotationInterceptID = Some ID"
proof -
  have ne: "annotationInterceptID \<noteq> annotationSelectorBackup" by (simp add: label_defs)
  have s: "sget (ks_Annotations service) annotationSelectorBackup = []" using assms(3) by (simp add: sget_def)
  obtain a where c: "claimed = service\<lparr>ks_Annotations := kv_put annotationInterceptID ID a, ks_Selector := []\<rparr>"
    and a: "a = ks_Annotations service \<or> (ks_Selector service \<noteq> [] \<and> (\<exists>raw. a = kv_put annotationSelectorBackup raw (ks_Annotations service)))"
    "ks_Selector service = [] \<Longrightarrow> a = ks_Annotations service"
    using assms(1) s by (auto simp: claimedService_def bindE_Inr_iff split: if_splits sum.splits)
  show "restoredSelector lib snap claimed = Inr (ks_Selector service)"
    using a(2) assms(4) s ne by (auto simp: restoredSelector_def c sget_def kv_get_put)
  have "kv_del annotationInterceptID (kv_put annotationInterceptID ID a) = a"
    using a(1) assms(2) ne by (auto simp: kv_del_absent kv_del_put_other)
  moreover have "kv_del annotationSelectorBackup a = ks_Annotations service" using a(1) assms(3) by (auto simp: kv_del_absent)
  ultimately show "restored claimed (ks_Selector service) = service" by (simp add: restored_def c)
  show "ks_Name claimed = ks_Name service" "ks_Selector claimed = []" "kv_get (ks_Annotations claimed) annotationInterceptID = Some ID"
    by (simp_all add: c kv_get_put)
qed

text \<open>What the list and the snapshot of a Service's slices hold.\<close>

lemma slices_of:
  fixes svc :: string
  assumes "kube_ok k"
  defines "items \<equiv> filter (\<lambda>s. kv_get (es_Labels s) ServiceNameLabel = Some svc) (map snd (kb_slices k))"
  shows "s \<in> set items \<longleftrightarrow> sl k (es_Name s) = Some s \<and> sliceOf svc s" "distinct (map es_Name items)"
proof -
  have ok: "kv_ok (kb_slices k)" "\<And>n s. (n, s) \<in> set (kb_slices k) \<Longrightarrow> es_Name s = n"
    using assms(1) by (auto simp: kube_ok_def list_all_iff)
  show "s \<in> set items \<longleftrightarrow> sl k (es_Name s) = Some s \<and> sliceOf svc s"
  proof -
    have "s \<in> snd ` set (kb_slices k) \<longleftrightarrow> (es_Name s, s) \<in> set (kb_slices k)"
      using ok(2) by (metis (no_types, lifting) imageE imageI prod.collapse snd_conv)
    then show ?thesis by (simp add: items_def sliceOf_def kv_get_mem [OF ok(1)])
  qed
  have e: "map es_Name (map snd (kb_slices k)) = map fst (kb_slices k)" using ok(2) by (auto simp: list.map_comp)
  have "distinct (map es_Name (map snd (kb_slices k)))" unfolding e using ok(1) by (simp add: kv_ok_def)
  then show "distinct (map es_Name items)" by (simp add: items_def distinct_map_filter)
qed

lemma sl_name: "kube_ok k \<Longrightarrow> sl k n = Some s \<Longrightarrow> es_Name s = n"
  by (auto simp: kube_ok_def list_all_iff kv_get_mem)

lemma sv_name: "kube_ok k \<Longrightarrow> sv k n = Some s \<Longrightarrow> ks_Name s = n"
  by (auto simp: kube_ok_def list_all_iff kv_get_mem)

text \<open>
  The state in which the slices of a Service are being replaced: \<open>snap\<close> is the snapshot of the
  original state \<open>k\<close>, the Service is claimed, and every slice that is not the managed one is as it
  was or gone, and gone only if it belongs to the Service.
\<close>

definition taking :: "jsonLib \<Rightarrow> ServiceInterceptSnapshot \<Rightarrow> kube \<Rightarrow> kube \<Rightarrow> bool" where
  "taking lib snap k kn \<longleftrightarrow>
     (\<exists>service claimed. sv k (si_Service snap) = Some service \<and> restoredSelector lib snap claimed = Inr (ks_Selector service) \<and>
        restored claimed (ks_Selector service) = service \<and> ks_Name claimed = si_Service snap \<and>
        sv kn = (sv k)(si_Service snap := Some claimed)) \<and>
     si_HasEndpointSlices snap = (si_EndpointSlices snap \<noteq> []) \<and> \<not> si_HasEndpoints snap \<and> distinct (map es_Name (si_EndpointSlices snap)) \<and>
     (\<forall>s. s \<in> set (si_EndpointSlices snap) \<longleftrightarrow> sl k (es_Name s) = Some s \<and> sliceOf (si_Service snap) s \<and> \<not> managed s) \<and>
     (\<forall>n. n \<noteq> managedEndpointSliceName (si_Service snap) \<longrightarrow>
        sl kn n = sl k n \<or> (sl kn n = None \<and> (\<exists>s. sl k n = Some s \<and> sliceOf (si_Service snap) s)))"

lemma taking_restored:
  assumes ok: "kube_ok k" and int: "interceptable snap k" and t: "taking lib snap k kn" and calm: "calm_from api (kb_clock kn)"
  shows "\<exists>k'. restoreServiceIntercept lib api snap kn = (None, k') \<and> sv k' = sv k \<and>
    (\<forall>n. sl k' n = sl k n \<or> leftover (si_Service snap) k n)"
proof -
  let ?m = "managedEndpointSliceName (si_Service snap)"
  from t obtain service claimed where c: "sv k (si_Service snap) = Some service" "restoredSelector lib snap claimed = Inr (ks_Selector service)"
    "restored claimed (ks_Selector service) = service" "ks_Name claimed = si_Service snap" "sv kn = (sv k)(si_Service snap := Some claimed)"
    and h: "si_HasEndpointSlices snap = (si_EndpointSlices snap \<noteq> [])" "\<not> si_HasEndpoints snap" "distinct (map es_Name (si_EndpointSlices snap))"
    and kept: "\<And>s. s \<in> set (si_EndpointSlices snap) \<longleftrightarrow> sl k (es_Name s) = Some s \<and> sliceOf (si_Service snap) s \<and> \<not> managed s"
    and rest: "\<And>n. n \<noteq> ?m \<Longrightarrow> sl kn n = sl k n \<or> (sl kn n = None \<and> (\<exists>s. sl k n = Some s \<and> sliceOf (si_Service snap) s))"
    unfolding taking_def by blast
  have m: "sl k ?m = None \<or> leftover (si_Service snap) k ?m" using int by (simp add: interceptable_def)
  have nm: "?m \<notin> es_Name ` set (si_EndpointSlices snap)"
  proof
    assume "?m \<in> es_Name ` set (si_EndpointSlices snap)"
    then obtain s where "sl k ?m = Some s" "\<not> managed s" using kept by auto
    with m show False by (simp add: leftover_def)
  qed
  have there: "sl kn (es_Name s) = None \<or> sl kn (es_Name s) = Some s" if "s \<in> set (si_EndpointSlices snap)" for s
  proof -
    have "es_Name s \<noteq> ?m" using that nm by (metis imageI)
    then show ?thesis using rest [of "es_Name s"] kept [of s] that by auto
  qed
  obtain k' where r: "restoreServiceIntercept lib api snap kn = (None, k')"
    "sv k' = (sv kn)(si_Service snap := Some (restored claimed (ks_Selector service)))"
    "\<forall>s \<in> set (si_EndpointSlices snap). sl k' (es_Name s) = Some s"
    "\<forall>n. n \<notin> es_Name ` set (si_EndpointSlices snap) \<longrightarrow> sl k' n = (if n = ?m then None else sl kn n)"
    using restore_calm [OF calm _ c(4) c(2) h there nm] c(5) by auto
  have "sv k' = sv k" using r(2) c(1,3,5) by auto
  moreover have "sl k' n = sl k n \<or> leftover (si_Service snap) k n" for n
  proof (cases "n \<in> es_Name ` set (si_EndpointSlices snap)")
    case True
    then show ?thesis using r(3) kept by auto
  next
    case False
    show ?thesis
    proof (cases "n = ?m")
      case True
      then show ?thesis using r(4) False m by auto
    next
      case nm': False
      with rest [OF nm'] r(4) False consider "sl k' n = sl k n" | s where "sl k n = Some s" "sliceOf (si_Service snap) s" by auto
      then show ?thesis
      proof cases
        case 2
        then have "managed s" using kept [of s] False sl_name [OF ok 2(1)] by force
        with 2 show ?thesis by (simp add: leftover_def)
      qed simp
    qed
  qed
  ultimately show ?thesis using r(1) by blast
qed


text \<open>The state after the Service was claimed, and what the second half does from there.\<close>

lemma claimed_taking:
  assumes ok: "kube_ok k" and int: "interceptable snap k" and s: "sv k (si_Service snap) = Some service"
    and l: "snapshotEndpointSlices api snap k1 = (Inr (names, snap'), k2)" and k1: "sv k1 = sv k" "kb_slices k1 = kb_slices k"
    and cl: "claimedService lib ID service = Inr claimed"
    and k3: "sv k3 = (sv k)(si_Service snap := Some claimed)" "sl k3 = sl k"
  shows "taking lib snap' k k3" "si_Service snap' = si_Service snap" "si_Selector snap' = si_Selector snap"
    and "n \<in> set names \<longleftrightarrow> (\<exists>s. sl k n = Some s \<and> sliceOf (si_Service snap) s)"
proof -
  let ?items = "filter (\<lambda>s. kv_get (es_Labels s) ServiceNameLabel = Some (si_Service snap)) (map snd (kb_slices k))"
  have r: "names = map es_Name ?items" "snap' = snap\<lparr>si_EndpointSlices := filter (\<lambda>s. \<not> managed s) ?items,
      si_HasEndpointSlices := (filter (\<lambda>s. \<not> managed s) ?items \<noteq> []), si_HasEndpoints := False, si_EndpointsSubsets := []\<rparr>"
    using l k1 by (auto simp: snapshotEndpointSlices_def kcalls managed_def split: option.splits prod.splits sum.splits)
  show eq: "si_Service snap' = si_Service snap" "si_Selector snap' = si_Selector snap" by (simp_all add: r(2))
  from int s have i: "si_Selector snap' = ks_Selector service" "kv_get (ks_Annotations service) annotationInterceptID = None"
    "kv_get (ks_Annotations service) annotationSelectorBackup = None" by (auto simp: interceptable_def eq)
  note c = claimed_restored [OF cl i(2,3,1)]
  note it = slices_of [OF ok, where svc = "si_Service snap"]
  have n: "ks_Name service = si_Service snap" using sv_name [OF ok s] .
  show "taking lib snap' k k3"
    unfolding taking_def eq
  proof (intro conjI)
    show "\<exists>service claimed. sv k (si_Service snap) = Some service \<and> restoredSelector lib snap' claimed = Inr (ks_Selector service) \<and>
        restored claimed (ks_Selector service) = service \<and> ks_Name claimed = si_Service snap \<and>
        sv k3 = (sv k)(si_Service snap := Some claimed)"
      by (intro exI [of _ service] exI [of _ claimed]) (use s c(1-3) n k3(1) in simp)
    show "si_HasEndpointSlices snap' = (si_EndpointSlices snap' \<noteq> [])" "\<not> si_HasEndpoints snap'" by (simp_all add: r(2))
    show "distinct (map es_Name (si_EndpointSlices snap'))" 
      using distinct_map_filter [OF it(2), of "\<lambda>s. \<not> managed s"] by (simp only: r(2) ServiceInterceptSnapshot.simps) simp
    show "\<forall>s. s \<in> set (si_EndpointSlices snap') \<longleftrightarrow> sl k (es_Name s) = Some s \<and> sliceOf (si_Service snap) s \<and> \<not> managed s"
      using it(1) by (simp add: r(2)) blast
    show "\<forall>n. n \<noteq> managedEndpointSliceName (si_Service snap) \<longrightarrow>
        sl k3 n = sl k n \<or> (sl k3 n = None \<and> (\<exists>s. sl k n = Some s \<and> sliceOf (si_Service snap) s))"
      using k3(2) by simp
  qed
  show "n \<in> set names \<longleftrightarrow> (\<exists>s. sl k n = Some s \<and> sliceOf (si_Service snap) s)"
  proof
    assume "n \<in> set names"
    then show "\<exists>s. sl k n = Some s \<and> sliceOf (si_Service snap) s" using it(1) by (auto simp: r(1))
  next
    assume "\<exists>s. sl k n = Some s \<and> sliceOf (si_Service snap) s"
    then obtain s where "sl k n = Some s" "sliceOf (si_Service snap) s" by blast
    then have "s \<in> set ?items" "es_Name s = n" using it(1) [of s] sl_name [OF ok] by auto
    then show "n \<in> set names" unfolding r(1) by force
  qed
qed

lemma taking_step:
  assumes "taking lib snap k kn" and "sv k' = sv kn"
    and "\<And>n. n \<noteq> managedEndpointSliceName (si_Service snap) \<Longrightarrow>
      sl k' n = sl kn n \<or> (sl k' n = None \<and> (\<exists>s. sl k n = Some s \<and> sliceOf (si_Service snap) s))"
  shows "taking lib snap k k'"
proof -
  from assms(1) have old: "sl kn n = sl k n \<or> (sl kn n = None \<and> (\<exists>s. sl k n = Some s \<and> sliceOf (si_Service snap) s))"
    if "n \<noteq> managedEndpointSliceName (si_Service snap)" for n using that by (simp add: taking_def)
  have "sl k' n = sl k n \<or> (sl k' n = None \<and> (\<exists>s. sl k n = Some s \<and> sliceOf (si_Service snap) s))"
    if "n \<noteq> managedEndpointSliceName (si_Service snap)" for n using old [OF that] assms(3) [OF that] by metis
  with assms(1,2) show ?thesis by (simp add: taking_def)
qed

lemma takeSlices_cases:
  assumes t: "taking lib snap k k3" and names: "\<And>n. n \<in> set names \<longleftrightarrow> (\<exists>s. sl k n = Some s \<and> sliceOf (si_Service snap) s)"
    and ts: "takeSlices lib api ID names snap k3 = (e, k')"
  obtains (rolled) kn cause where "taking lib snap k kn" "failed_before api (kb_clock k3) (kb_clock kn)"
      "rollbackIntercept lib api snap cause kn = (e, k')"
    | (taken) "kb_clock k3 \<le> kb_clock k'" "e = None" "taking lib snap k k'" "sv k' = sv k3"
      "sl k' (managedEndpointSliceName (si_Service snap)) = Some (managedEndpointSlice snap ID)"
      "\<And>n. n \<noteq> managedEndpointSliceName (si_Service snap) \<Longrightarrow> n \<in> set names \<Longrightarrow> sl k' n = None"
proof -
  let ?m = "managedEndpointSliceName (si_Service snap)"
  obtain e4 k4 where d: "deleteEndpointSlices api names k3 = (e4, k4)" by fastforce
  note s4 = deleteEndpointSlices_spec [OF d]
  have t4: "taking lib snap k k4"
  proof (rule taking_step [OF t])
    fix n
    show "sl k4 n = sl k3 n \<or> (sl k4 n = None \<and> (\<exists>s. sl k n = Some s \<and> sliceOf (si_Service snap) s))"
      using s4 names [of n] by (cases "n \<in> set names") blast+
  qed (use s4 in simp)
  show thesis
  proof (cases e4)
    case (Some err)
    with ts d s4 t4 show thesis by (intro rolled [of k4 err]) (auto simp: takeSlices_def)
  next
    case None
    obtain e5 k5 where c: "createManaged api (managedEndpointSlice snap ID) k4 = (e5, k5)" by fastforce
    note s5 = createManaged_spec [OF c]
    have mn: "es_Name (managedEndpointSlice snap ID) = ?m" by (simp add: managedEndpointSlice_def)
    have t5: "taking lib snap k k5" by (rule taking_step [OF t4]) (use s5(2,3) mn in auto)
    show thesis
    proof (cases e5)
      case None
      with ts d c \<open>e4 = None\<close> have "e = None" "k' = k5" by (auto simp: takeSlices_def)
      with None t5 s4 s5 mn \<open>e4 = None\<close> show thesis by (intro taken) auto
    next
      case (Some err)
      with ts d c \<open>e4 = None\<close> s4 s5(5) t5 show thesis
        by (intro rolled [of k5 "Wrapf ''create managed endpoint slice: '' (kerr_err err)"])
           (auto simp: takeSlices_def intro: failed_before_mono)
    qed
  qed
qed


text \<open>The ways an application of an intercept goes.\<close>

lemma apply_cases:
  assumes ok: "kube_ok k" and int: "interceptable snap k" and a: "applyServiceIntercept lib api ID snap k = (e, snap', k')"
    and claim: "\<And>g. api (kb_clock k + 2) \<noteq> Some (g, True)"
  obtains (refused) "e \<noteq> None" "sv k' = sv k" "sl k' = sl k" "willing lib ID snap k \<Longrightarrow> \<exists>i \<ge> kb_clock k. faulty api i"
    | (went) k3 names claimed where "takeSlices lib api ID names snap' k3 = (e, k')" "taking lib snap' k k3" "kb_clock k \<le> kb_clock k3"
        "si_Service snap' = si_Service snap" "si_Selector snap' = si_Selector snap"
        "\<And>n. n \<in> set names \<longleftrightarrow> (\<exists>s. sl k n = Some s \<and> sliceOf (si_Service snap) s)"
        "sv k3 (si_Service snap) = Some claimed" "ks_Selector claimed = []" "kv_get (ks_Annotations claimed) annotationInterceptID = Some ID"
proof (cases "\<exists>service. sv k (si_Service snap) = Some service \<and> \<not> faulty api (kb_clock k) \<and> checkSnapshot snap = Inr () \<and>
    checkService snap ID service = Inr () \<and> \<not> faulty api (kb_clock k + 1) \<and> (\<exists>cl. claimedService lib ID service = Inr cl)")
  case False
  then have "e \<noteq> None \<and> sv k' = sv k \<and> sl k' = sl k"
    using a by (auto simp: applyServiceIntercept_def snapshotEndpointSlices_def kcalls faulty_def split: sum.splits option.splits prod.splits)
  moreover have "\<exists>i \<ge> kb_clock k. faulty api i" if "willing lib ID snap k"
  proof (rule ccontr)
    assume "\<not> (\<exists>i \<ge> kb_clock k. faulty api i)"
    then have "\<not> faulty api (kb_clock k)" "\<not> faulty api (kb_clock k + 1)" by auto
    with False that show False by (auto simp: willing_def split: option.splits sum.splits)
  qed
  ultimately show thesis using refused by simp
next
  case True
  then obtain service cl where s: "sv k (si_Service snap) = Some service" and f: "\<not> faulty api (kb_clock k)" "\<not> faulty api (kb_clock k + 1)"
    and chk: "checkSnapshot snap = Inr ()" "checkService snap ID service = Inr ()" and cl: "claimedService lib ID service = Inr cl" by blast
  have n: "api (kb_clock k) = None" "api (Suc (kb_clock k)) = None" using f by (simp_all add: faulty_def del: not_None_eq)
  obtain k1 where g: "getServiceK api (si_Service snap) k = (Inr service, k1)" and k1: "k1 = k\<lparr>kb_clock := kb_clock k + 1\<rparr>"
    using s n(1) by (simp add: kcalls)
  obtain names snap2 k2 where l: "snapshotEndpointSlices api snap k1 = (Inr (names, snap2), k2)" and k2: "k2 = k\<lparr>kb_clock := kb_clock k + 2\<rparr>"
    using n(2) k1 by (simp add: snapshotEndpointSlices_def kcalls)
  obtain e3 k3 where u: "updateServiceK api cl k2 = (e3, k3)" by fastforce
  have "ks_Name cl = si_Service snap"
    using claimed_restored(3) [OF cl, where snap = snap] sv_name [OF ok s] int s by (simp add: interceptable_def)
  then have k3: "sl k3 = sl k" "kb_clock k \<le> kb_clock k3" "if e3 = None then sv k3 = (sv k)(si_Service snap := Some cl) else sv k3 = sv k"
    using u s claim by (auto simp: kcalls k2 kv_get_put_fun split: option.splits prod.splits if_splits)
  show thesis
  proof (cases e3)
    case (Some err)
    with a chk g l cl u k3 have "e \<noteq> None \<and> sv k' = sv k \<and> sl k' = sl k" by (auto simp: applyServiceIntercept_def)
    moreover have "faulty api (kb_clock k + 2)"
      using u Some s \<open>ks_Name cl = si_Service snap\<close> by (auto simp: kcalls k2 faulty_def split: option.splits)
    ultimately show thesis using refused by (meson le_add1)
  next
    case None
    with a chk g l cl u have r: "takeSlices lib api ID names snap2 k3 = (e, k')" "snap' = snap2"
      by (auto simp: applyServiceIntercept_def split: prod.splits)
    have sv3: "sv k3 = (sv k)(si_Service snap := Some cl)" using k3(3) None by simp
    have k1': "sv k1 = sv k" "kb_slices k1 = kb_slices k" by (simp_all add: k1)
    note t = claimed_taking [OF ok int s l k1' cl sv3 k3(1)]
    from int s have i: "kv_get (ks_Annotations service) annotationInterceptID = None"
      "kv_get (ks_Annotations service) annotationSelectorBackup = None" "si_Selector snap = ks_Selector service" by (auto simp: interceptable_def)
    show thesis
      by (rule went [of names k3 cl]) (use r t k3(2) sv3 claimed_restored(4,5) [OF cl i] in simp_all)
  qed
qed

lemma interceptable_snap: "interceptable snap k \<Longrightarrow> si_Service snap' = si_Service snap \<Longrightarrow> si_Selector snap' = si_Selector snap \<Longrightarrow> interceptable snap' k"
  by (cases "sv k (si_Service snap)") (simp_all add: interceptable_def)

lemma apply_fails_clean:
  assumes "kube_ok k" "interceptable snap k" "\<And>i i'. faulty api i \<Longrightarrow> faulty api i' \<Longrightarrow> i = i'"
    and "\<And>g. api (kb_clock k + 2) \<noteq> Some (g, True)" and a: "applyServiceIntercept lib api ID snap k = (Some e, snap', k')"
  shows "sv k' = sv k \<and> (\<forall>n. sl k' n = sl k n \<or> leftover (si_Service snap) k n)"
  using assms(1,2) a assms(4)
proof (cases rule: apply_cases)
  case (went k3 names claimed)
  note w = went
  show ?thesis
    using w(2) w(6) [folded w(4)] w(1)
  proof (cases rule: takeSlices_cases)
    case (rolled kn cause)
    obtain j where j: "j < kb_clock kn" "faulty api j" using rolled(2) by (auto simp: failed_before_def)
    have "api i = None" if "i \<ge> kb_clock kn" for i
    proof (rule ccontr)
      assume "api i \<noteq> None"
      then have "i = j" using assms(3) [of i j] j(2) by (simp only: faulty_def simp_thms)
      with j(1) that show False by simp
    qed
    then have "calm_from api (kb_clock kn)" by (simp add: calm_from_def)
    from taking_restored [OF assms(1) interceptable_snap [OF assms(2) w(4,5)] rolled(1) this] rolled(3) show ?thesis
      by (auto simp: rollbackIntercept_def w(4))
  qed simp
qed simp

lemma apply_restores:
  assumes "kube_ok k" "interceptable snap k" "calm_from api (kb_clock k)"
    and a: "applyServiceIntercept lib api ID snap k = (None, snap', k')"
  shows "\<exists>k''. restoreServiceIntercept lib api snap' k' = (None, k'') \<and> sv k'' = sv k \<and>
      (\<forall>n. sl k'' n = sl k n \<or> leftover (si_Service snap) k n)"
    and "\<exists>s. sv k' (si_Service snap) = Some s \<and> ks_Selector s = [] \<and> kv_get (ks_Annotations s) annotationInterceptID = Some ID"
    and "\<And>n s. sl k' n = Some s \<Longrightarrow> sliceOf (si_Service snap) s \<Longrightarrow> n = managedEndpointSliceName (si_Service snap) \<and> s = managedEndpointSlice snap' ID"
    and "kb_clock k \<le> kb_clock k'" and "sl k' (managedEndpointSliceName (si_Service snap)) = Some (managedEndpointSlice snap' ID)"
    and "\<And>n. (\<And>s. sl k n = Some s \<Longrightarrow> \<not> sliceOf (si_Service snap) s) \<Longrightarrow> n \<noteq> managedEndpointSliceName (si_Service snap) \<Longrightarrow> sl k' n = sl k n"
proof -
  have nt: "api (kb_clock k + 2) \<noteq> Some (g, True)" for g using assms(3) by (simp add: calm_from_def)
  from assms(1,2) a nt obtain k3 names claimed where w: "takeSlices lib api ID names snap' k3 = (None, k')" "taking lib snap' k k3" "kb_clock k \<le> kb_clock k3"
      "si_Service snap' = si_Service snap" "si_Selector snap' = si_Selector snap"
      "\<And>n. n \<in> set names \<longleftrightarrow> (\<exists>s. sl k n = Some s \<and> sliceOf (si_Service snap) s)"
      "sv k3 (si_Service snap) = Some claimed" "ks_Selector claimed = []" "kv_get (ks_Annotations claimed) annotationInterceptID = Some ID"
    by (cases rule: apply_cases) auto
  have nf: "\<not> failed_before api (kb_clock k3) j" for j
    using assms(3) w(3) by (auto simp: failed_before_def faulty_def calm_from_def)
  from w(2) w(6) [folded w(4)] w(1) have d: "taking lib snap' k k'" "sv k' = sv k3"
      "sl k' (managedEndpointSliceName (si_Service snap')) = Some (managedEndpointSlice snap' ID)"
      "\<And>n. n \<noteq> managedEndpointSliceName (si_Service snap') \<Longrightarrow> n \<in> set names \<Longrightarrow> sl k' n = None"
      "kb_clock k3 \<le> kb_clock k'"
    using nf by (cases rule: takeSlices_cases; blast)+
  have "calm_from api (kb_clock k')" using assms(3) w(3) d(5) by (simp add: calm_from_def)
  then show "\<exists>k''. restoreServiceIntercept lib api snap' k' = (None, k'') \<and> sv k'' = sv k \<and>
      (\<forall>n. sl k'' n = sl k n \<or> leftover (si_Service snap) k n)"
    using taking_restored [OF assms(1) interceptable_snap [OF assms(2) w(4,5)] d(1)] by (simp add: w(4))
  show "\<exists>s. sv k' (si_Service snap) = Some s \<and> ks_Selector s = [] \<and> kv_get (ks_Annotations s) annotationInterceptID = Some ID"
    using d(2) w(7-9) by simp
  have other: "sl k' n = sl k n \<or> (sl k' n = None \<and> (\<exists>s. sl k n = Some s \<and> sliceOf (si_Service snap) s))"
    if "n \<noteq> managedEndpointSliceName (si_Service snap)" for n
    using d(1) that by (simp add: taking_def w(4))
  show "n = managedEndpointSliceName (si_Service snap) \<and> s = managedEndpointSlice snap' ID"
    if "sl k' n = Some s" "sliceOf (si_Service snap) s" for n s
  proof (cases "n = managedEndpointSliceName (si_Service snap)")
    case True
    then show ?thesis using d(3) that(1) by (simp add: w(4))
  next
    case False
    from other [OF False] that(1) have "sl k n = Some s" by (cases "sl k' n = sl k n") simp_all
    then have "n \<in> set names" using w(6) that(2) by simp
    with d(4) False that(1) w(4) show ?thesis by simp
  qed
  show "sl k' (managedEndpointSliceName (si_Service snap)) = Some (managedEndpointSlice snap' ID)" using d(3) by (simp add: w(4))
  show "kb_clock k \<le> kb_clock k'" using w(3) d(5) by simp
  show "sl k' n = sl k n" if "\<And>s. sl k n = Some s \<Longrightarrow> \<not> sliceOf (si_Service snap) s" "n \<noteq> managedEndpointSliceName (si_Service snap)" for n
    using other [OF that(2)] that(1) by blast
qed


lemma apply_succeeds:
  assumes "kube_ok k" "interceptable snap k" "calm_from api (kb_clock k)" "willing lib ID snap k"
  shows "\<exists>snap' k'. applyServiceIntercept lib api ID snap k = (None, snap', k')"
proof -
  obtain e snap' k' where a: "applyServiceIntercept lib api ID snap k = (e, snap', k')" by (metis prod.collapse)
  have calm: "\<not> faulty api i" if "kb_clock k \<le> i" for i using assms(3) that by (simp add: calm_from_def faulty_def)
  have nt: "api (kb_clock k + 2) \<noteq> Some (g, True)" for g using assms(3) by (simp add: calm_from_def)
  from assms(1,2) a nt have "e = None"
  proof (cases rule: apply_cases)
    case refused
    with assms(4) calm show ?thesis by blast
  next
    case (went k3 names claimed)
    note w = went
    show ?thesis
      using w(2) w(6) [folded w(4)] w(1)
    proof (cases rule: takeSlices_cases)
      case (rolled kn cause)
      then obtain j where "kb_clock k3 \<le> j" "faulty api j" by (auto simp: failed_before_def)
      with calm [of j] w(3) show ?thesis by simp
    qed simp
  qed
  with a show ?thesis by blast
qed

lemma service_bound:
  assumes "kube_ok k" "interceptable snap k" "calm_from api (kb_clock k)" "willing lib ID snap k"
  shows "case applyServiceIntercept lib api ID snap k of (e, snap', k') \<Rightarrow>
    e = None \<and>
    (\<exists>s. sv k' (si_Service snap) = Some s \<and> ks_Selector s = [] \<and> kv_get (ks_Annotations s) annotationInterceptID = Some ID) \<and>
    sl k' (managedEndpointSliceName (si_Service snap)) = Some (managedEndpointSlice snap' ID) \<and>
    (\<forall>n s. sl k' n = Some s \<and> sliceOf (si_Service snap) s \<longrightarrow> s = managedEndpointSlice snap' ID) \<and>
    (case restoreServiceIntercept lib api snap' k' of (e', k'') \<Rightarrow>
       e' = None \<and> sv k'' = sv k \<and> (\<forall>n. leftover (si_Service snap) k n \<or> sl k'' n = sl k n))"
proof -
  obtain snap' k' where a: "applyServiceIntercept lib api ID snap k = (None, snap', k')"
    using apply_succeeds [OF assms] by blast
  note r = apply_restores [OF assms(1-3) a]
  obtain k'' where k'': "restoreServiceIntercept lib api snap' k' = (None, k'')" "sv k'' = sv k"
    "\<forall>n. sl k'' n = sl k n \<or> leftover (si_Service snap) k n" using r(1) by blast
  show ?thesis
    unfolding a prod.case k''(1)
    by (intro conjI refl r(2,5) k''(2) allI impI) (use r(3) k''(3) in blast)+
qed

section \<open>The properties of the bindings\<close>

definition ex_slice :: "string \<Rightarrow> string \<Rightarrow> EndpointSlice" where
  "ex_slice name service =
     \<lparr>es_Name = name, es_Labels = [(ServiceNameLabel, service)], es_Annotations = [], es_OwnerReferences = [], es_Finalizers = [],
      es_AddressType = ''IPv4'', es_Endpoints = [\<lparr>ke_Addresses = [''10.1.0.7''], ke_Ready = Some True, ke_Serving = None, ke_Terminating = None\<rparr>],
      es_Ports = []\<rparr>"

definition ex_kservice :: kService where
  "ex_kservice = \<lparr>ks_Name = ''web'', ks_Labels = [], ks_Annotations = [], ks_Selector = [(''app'', ''web'')], ks_Type = ''ClusterIP'',
     ks_ClusterIP = ''10.2.0.1'', ks_Ports = []\<rparr>"

definition ex_ns :: kube where
  "ex_ns = \<lparr>kb_services = [(''web'', ex_kservice)], kb_slices = [(''web-1'', ex_slice ''web-1'' ''web''), (''db-1'', ex_slice ''db-1'' ''db'')], kb_endpoints = [], kb_clock = 0\<rparr>"

definition ex_snap :: ServiceInterceptSnapshot where
  "ex_snap = \<lparr>si_Namespace = ''shop'', si_Service = ''web'', si_Selector = [(''app'', ''web'')],
     si_Ports = [\<lparr>ip_Name = ''http'', ip_Protocol = ''TCP'', ip_ServicePort = 80, ip_ListenPort = 20000\<rparr>], si_GatewayIP = ''10.1.0.1'',
     si_EndpointSlices = [], si_HasEndpointSlices = False, si_EndpointsSubsets = [], si_HasEndpoints = False\<rparr>"

definition ex_json :: jsonLib where
  "ex_json = \<lparr>marshal = (\<lambda>m. Inr (concat (map (\<lambda>(k, v). k @ ''='' @ v @ '';'') m))), unmarshal = (\<lambda>s. Inl (Errorf ''unexpected end of JSON input''))\<rparr>"

lemma ex_ns_ok: "kube_ok ex_ns" "interceptable ex_snap ex_ns" "willing ex_json ''shop/web'' ex_snap ex_ns"
  by code_simp+

text \<open>
  C1. An intercept of a Service and its end are a round trip. When the API server answers, the
  intercept succeeds: the Service has no selector and names its owner, and the only EndpointSlice of
  the Service is the managed one, which leads to the Gateway. Restoring succeeds too, and then every
  Service and every slice is what it was, except for slices an earlier intercept left behind.
\<close>

theorem service_intercept_roundtrip:
  assumes "kube_ok k" and "interceptable snap k" and "calm_from api (kb_clock k)" and "willing lib ID snap k"
  shows "case applyServiceIntercept lib api ID snap k of (e, snap', k') \<Rightarrow>
    e = None \<and>
    (\<exists>s. sv k' (si_Service snap) = Some s \<and> ks_Selector s = [] \<and> kv_get (ks_Annotations s) annotationInterceptID = Some ID) \<and>
    sl k' (managedEndpointSliceName (si_Service snap)) = Some (managedEndpointSlice snap' ID) \<and>
    (\<forall>n s. sl k' n = Some s \<and> sliceOf (si_Service snap) s \<longrightarrow> s = managedEndpointSlice snap' ID) \<and>
    (case restoreServiceIntercept lib api snap' k' of (e', k'') \<Rightarrow>
       e' = None \<and> sv k'' = sv k \<and> (\<forall>n. leftover (si_Service snap) k n \<or> sl k'' n = sl k n))"
  using assms by (rule service_bound)

theorem service_intercept_roundtrip_witness:
  "case applyServiceIntercept ex_json (\<lambda>_. None) ''shop/web'' ex_snap ex_ns of (e, snap', k') \<Rightarrow>
    e = None \<and>
    (case restoreServiceIntercept ex_json (\<lambda>_. None) snap' k' of (e', k'') \<Rightarrow> e' = None \<and> sv k'' = sv ex_ns)"
  using service_intercept_roundtrip [OF ex_ns_ok(1,2), where api = "\<lambda>_. None" and lib = ex_json and ID = "''shop/web''"] ex_ns_ok(3)
  by (auto simp: calm_from_def split: prod.splits)

text \<open>
  C2. An intercept that fails leaves nothing behind: when one call fails, whichever it is and whether
  or not its write took effect (the claim of the Service excepted), every Service and every slice is
  what it was, except for slices an earlier intercept left behind.
\<close>

theorem service_intercept_fails_clean:
  assumes "kube_ok k" and "interceptable snap k" and "\<And>i i'. faulty api i \<Longrightarrow> faulty api i' \<Longrightarrow> i = i'"
    and "\<And>g. api (kb_clock k + 2) \<noteq> Some (g, True)"
  shows "case applyServiceIntercept lib api ID snap k of (e, snap', k') \<Rightarrow>
    e = None \<or> (sv k' = sv k \<and> (\<forall>n. sl k' n = sl k n \<or> leftover (si_Service snap) k n))"
proof -
  obtain e snap' k' where a: "applyServiceIntercept lib api ID snap k = (e, snap', k')" by (metis prod.collapse)
  show ?thesis
  proof (cases e)
    case (Some err)
    have "sv k' = sv k \<and> (\<forall>n. sl k' n = sl k n \<or> leftover (si_Service snap) k n)"
      by (rule apply_fails_clean [where api = api and e = err, OF assms(1,2)]) (use assms(3,4) a Some in simp_all)
    then show ?thesis by (simp add: a)
  qed (simp add: a)
qed

definition ex_late_fault :: kapi where
  "ex_late_fault = (\<lambda>i. if i = 4 then Some (EOF, True) else None)"

lemma ex_late: "fst (applyServiceIntercept ex_json ex_late_fault ''shop/web'' ex_snap ex_ns) = Some (Wrapf ''create managed endpoint slice: '' EOF)"
  by code_simp

theorem service_intercept_fails_clean_witness:
  "case applyServiceIntercept ex_json ex_late_fault ''shop/web'' ex_snap ex_ns of (e, snap', k') \<Rightarrow>
    e = Some (Wrapf ''create managed endpoint slice: '' EOF) \<and> sv k' = sv ex_ns"
proof -
  have f: "i = 4" if "faulty ex_late_fault i" for i using that by (simp add: faulty_def ex_late_fault_def split: if_splits)
  have t: "ex_late_fault (kb_clock ex_ns + 2) \<noteq> Some (g, True)" for g by (simp add: ex_late_fault_def ex_ns_def)
  obtain e snap' k' where a: "applyServiceIntercept ex_json ex_late_fault ''shop/web'' ex_snap ex_ns = (e, snap', k')" by (metis prod.collapse)
  have "case applyServiceIntercept ex_json ex_late_fault ''shop/web'' ex_snap ex_ns of (e, snap', k') \<Rightarrow>
      e = None \<or> (sv k' = sv ex_ns \<and> (\<forall>n. sl k' n = sl ex_ns n \<or> leftover (si_Service ex_snap) ex_ns n))"
    by (rule service_intercept_fails_clean [OF ex_ns_ok(1,2)]) (use f t in \<open>blast+\<close>)
  then show ?thesis using ex_late by (simp add: a)
qed

text \<open>
  C3. The exception is real. When the claim of the Service fails although it took effect (a timeout
  after the write), the intercept fails without its rollback: the Service has lost its selector and
  names an owner, so its endpoints are no longer maintained and others cannot intercept it.
\<close>

theorem claim_timeout_strands_service:
  assumes "kube_ok k" and "interceptable snap k" and "willing lib ID snap k"
    and "api (kb_clock k) = None" and "api (kb_clock k + 1) = None" and "api (kb_clock k + 2) = Some (g, True)"
  shows "case applyServiceIntercept lib api ID snap k of (e, snap', k') \<Rightarrow>
    e = Some (Wrapf ''clear service selector: '' g) \<and> sl k' = sl k \<and>
    (\<exists>s. sv k' (si_Service snap) = Some s \<and> ks_Selector s = [] \<and> kv_get (ks_Annotations s) annotationInterceptID = Some ID)"
proof -
  obtain service cl where s: "sv k (si_Service snap) = Some service" "checkSnapshot snap = Inr ()" "checkService snap ID service = Inr ()"
    "claimedService lib ID service = Inr cl" using assms(3) by (auto simp: willing_def split: option.splits sum.splits)
  have i: "kv_get (ks_Annotations service) annotationInterceptID = None" "kv_get (ks_Annotations service) annotationSelectorBackup = None"
    "si_Selector snap = ks_Selector service" using assms(2) s(1) by (auto simp: interceptable_def)
  note c = claimed_restored [OF s(4) i]
  have "ks_Name cl = si_Service snap" using c(3) sv_name [OF assms(1) s(1)] by simp
  then show ?thesis
    using s assms(4-6) c(4,5) by (simp add: applyServiceIntercept_def snapshotEndpointSlices_def kcalls kv_get_put_fun)
qed

theorem claim_timeout_strands_service_witness:
  "case applyServiceIntercept ex_json (\<lambda>i. if i = 2 then Some (EOF, True) else None) ''shop/web'' ex_snap ex_ns of (e, snap', k') \<Rightarrow>
    e = Some (Wrapf ''clear service selector: '' EOF) \<and> sl k' = sl ex_ns \<and> (\<exists>s. sv k' ''web'' = Some s \<and> ks_Selector s = [])"
  using claim_timeout_strands_service [OF ex_ns_ok, where api = "\<lambda>i. if i = 2 then Some (EOF, True) else None" and g = EOF]
  by (simp add: ex_ns_def ex_snap_def) (auto split: prod.splits)

section \<open>Previews\<close>

lemma deleteServiceK_spec:
  assumes "deleteServiceK api n k = (e, k')"
  shows "sl k' = sl k" "sv k' = sv k \<or> sv k' = (sv k)(n := None)"
    and "\<not> faulty api (kb_clock k) \<Longrightarrow> sv k' = (sv k)(n := None) \<and> (e = None \<or> e = Some (KNotFound n))"
  using assms by (auto simp: kcalls faulty_def kv_get_del_fun split: option.splits prod.splits if_splits)

lemma createServiceK_spec:
  assumes "createServiceK api s k = (e, k')"
  shows "sl k' = sl k" "kb_clock k' = kb_clock k + 1" "sv k' = sv k \<or> (sv k (ks_Name s) = None \<and> sv k' = (sv k)(ks_Name s := Some s))"
    and "sv k (ks_Name s) \<noteq> None \<Longrightarrow> e \<noteq> None"
    and "e = None \<Longrightarrow> sv k' = (sv k)(ks_Name s := Some s)"
    and "\<not> faulty api (kb_clock k) \<Longrightarrow> sv k (ks_Name s) = None \<Longrightarrow> e = None"
  using assms by (auto simp: kcalls faulty_def kv_get_put_fun split: option.splits prod.splits if_splits)

text \<open>
  A preview touches nothing but its own Service and slice, whatever fails: a Service of its name
  that exists already is left alone, and the preview is refused.
\<close>

theorem preview_spares_others:
  assumes "validatePreviewSnapshot snap = Inr ()"
  shows "case createPreviewService api snap ID k of (r, k') \<Rightarrow>
    (\<forall>n. n = pq_Service snap \<or> sv k' n = sv k n) \<and> (\<forall>n. n = managedEndpointSliceName (pq_Service snap) \<or> sl k' n = sl k n) \<and>
    (sv k (pq_Service snap) = None \<or> ((\<exists>e. r = Inl e) \<and> sv k' = sv k \<and> sl k' = sl k))"
proof -
  let ?s = "previewService snap ID" and ?m = "previewSlice snap ID"
  have n: "ks_Name ?s = pq_Service snap" "es_Name ?m = managedEndpointSliceName (pq_Service snap)"
    by (simp_all add: previewService_def previewSlice_def managedEndpointSlice_def Let_def)
  obtain e1 k1 where c: "createServiceK api ?s k = (e1, k1)" by fastforce
  note s1 = createServiceK_spec [OF c, unfolded n]
  obtain e2 k2 where m: "createManaged api ?m k1 = (e2, k2)" by fastforce
  note s2 = createManaged_spec [OF m, unfolded n]
  obtain e3 k3 where d: "deleteServiceK api (pq_Service snap) k2 = (e3, k3)" by fastforce
  note s3 = deleteServiceK_spec [OF d]
  show ?thesis
  proof (cases e1)
    case (Some err)
    then obtain x where "createPreviewService api snap ID k = (Inl x, k1)"
      using assms c by (cases err) (auto simp: createPreviewService_def)
    with Some s1 show ?thesis by (auto split: if_splits)
  next
    case None
    then have "sv k (pq_Service snap) = None" using s1(4) by (cases "sv k (pq_Service snap)") auto
    moreover have "createPreviewService api snap ID k =
        (case e2 of None \<Rightarrow> (Inr ?s, k2) | Some e \<Rightarrow> (Inl (Wrapf ''create preview endpoint slice: '' (kerr_err e)), k3))"
      using None assms c m d by (auto simp: createPreviewService_def split: option.split)
    moreover have "sv k2 n = sv k n \<and> sv k3 n = sv k n" if "n \<noteq> pq_Service snap" for n
      using that s1(3) s2(2) s3(2) by (auto split: if_splits)
    moreover have "sl k2 n = sl k n \<and> sl k3 n = sl k n" if "n \<noteq> managedEndpointSliceName (pq_Service snap)" for n
      using that s1(1) s2(3) s3(1) by simp
    ultimately show ?thesis by (cases e2) auto
  qed
qed

theorem preview_spares_others_witness:
  "case createPreviewService (\<lambda>_. None) \<lparr>pq_Namespace = ''shop'', pq_Service = ''web'', pq_Ports = si_Ports ex_snap, pq_GatewayIP = ''10.1.0.1''\<rparr> ''p1'' ex_ns of
     (r, k') \<Rightarrow> (\<exists>e. r = Inl e) \<and> sv k' = sv ex_ns \<and> sl k' = sl ex_ns"
proof -
  let ?p = "\<lparr>pq_Namespace = ''shop'', pq_Service = ''web'', pq_Ports = si_Ports ex_snap, pq_GatewayIP = ''10.1.0.1''\<rparr>"
  have l: "dns1123Label ''web''" by code_simp
  have o: "previewPortsOK (si_Ports ex_snap) = Inr ()" by (simp add: ex_snap_def guardE_def)
  have v: "validatePreviewSnapshot ?p = Inr ()" using l o by (simp add: validatePreviewSnapshot_def guardE_def ex_snap_def)
  have e: "sv ex_ns ''web'' = Some ex_kservice" by (simp add: ex_ns_def kv_get_def)
  obtain r k' where c: "createPreviewService (\<lambda>_. None) ?p ''p1'' ex_ns = (r, k')" by fastforce
  from preview_spares_others [OF v, where api = "\<lambda>_. None" and ID = "''p1''" and k = ex_ns] e show ?thesis unfolding c prod.case by simp
qed

text \<open>
  When the API server answers, a valid preview of a free name is created, with one slice that leads to
  the Gateway, and deleting it gives back the namespace as it was.
\<close>

theorem preview_roundtrip:
  assumes "validatePreviewSnapshot snap = Inr ()" and "calm_from api (kb_clock k)"
    and "sv k (pq_Service snap) = None" and "sl k (managedEndpointSliceName (pq_Service snap)) = None"
  shows "case createPreviewService api snap ID k of (r, k') \<Rightarrow>
    r = Inr (previewService snap ID) \<and> sv k' = (sv k)(pq_Service snap := Some (previewService snap ID)) \<and>
    sl k' = (sl k)(managedEndpointSliceName (pq_Service snap) := Some (previewSlice snap ID)) \<and>
    (case deletePreviewService api snap k' of (e, k'') \<Rightarrow> e = None \<and> sv k'' = sv k \<and> sl k'' = sl k)"
proof -
  let ?m = "managedEndpointSliceName (pq_Service snap)"
  have n: "ks_Name (previewService snap ID) = pq_Service snap" "es_Name (previewSlice snap ID) = ?m"
    by (simp_all add: previewService_def previewSlice_def managedEndpointSlice_def Let_def)
  have a: "api (kb_clock k + i) = None" for i using assms(2) by (simp add: calm_from_def)
  obtain k' where c: "createPreviewService api snap ID k = (Inr (previewService snap ID), k')" "kb_clock k' = kb_clock k + 2"
    "sv k' = (sv k)(pq_Service snap := Some (previewService snap ID))" "sl k' = (sl k)(?m := Some (previewSlice snap ID))"
    using a [of 0] a [of 1] assms(1,3,4) n by (auto simp: createPreviewService_def createManaged_def kcalls kv_get_put_fun)
  have "deletePreviewService api snap k' = (None, snd (deletePreviewService api snap k')) \<and>
      sv (snd (deletePreviewService api snap k')) = sv k \<and> sl (snd (deletePreviewService api snap k')) = sl k"
    using a [of 2] a [of "Suc (Suc (Suc 0))"] c(2-4) assms(3,4) by (auto simp: deletePreviewService_def kcalls kv_get_del_fun)
  then show ?thesis unfolding c(1) prod.case using c(3,4) by (auto split: prod.split)
qed

text \<open>
  The name of the managed slice has at most 63 characters. It is cut for that, so Services with long
  names can share it: the second intercept then deletes the slice of the first.
\<close>

lemma managedName_length: "length (managedEndpointSliceName s) \<le> 63"
proof -
  have "length (trim_right c t) \<le> length t" for c t
    using length_dropWhile_le [of "\<lambda>x. x = c" "rev t"] by (simp add: trim_right_def)
  then have "length (trim_right c (take 63 t)) \<le> 63" for c t
    by (rule order_trans) simp
  then show ?thesis unfolding managedEndpointSliceName_def Let_def by (simp only: split: if_split) simp
qed

lemma managedName_inject:
  "length a \<le> 54 \<Longrightarrow> length b \<le> 54 \<Longrightarrow> managedEndpointSliceName a = managedEndpointSliceName b \<longleftrightarrow> a = b"
  by (simp add: managedEndpointSliceName_def)

lemma managedName_collision:
  "managedEndpointSliceName (replicate 60 (CHR ''a'')) = managedEndpointSliceName (replicate 60 (CHR ''a'') @ ''-ku'')"
  by code_simp

text \<open>
  The ports an intercept is built with: one for each port of the Service, in order, each with the
  protocol TCP by default, a name, and the listen port that the allocator gave.
\<close>

lemma buildInterceptLoop_ports:
  "buildInterceptLoop allocate ports a = (Inr out, a') \<Longrightarrow>
     map ip_ServicePort out = map kw_Port ports \<and> list_all (\<lambda>p. ip_Name p \<noteq> [] \<and> ip_Protocol p \<noteq> []) out"
proof (induction ports arbitrary: a out a')
  case (Cons port ports)
  then show ?case by (auto simp: Let_def split: prod.splits sum.splits)
qed simp

lemma BuildInterceptPorts_ports:
  assumes "BuildInterceptPorts service allocate a = (Inr out, a')"
  shows "map ip_ServicePort out = map kw_Port (ks_Ports service)" and "out \<noteq> []"
    and "list_all (\<lambda>p. ip_Name p \<noteq> [] \<and> ip_Protocol p \<noteq> []) out"
  using assms buildInterceptLoop_ports
  by (fastforce simp: BuildInterceptPorts_def split: prod.splits sum.splits if_splits)+

lemma BuildInterceptPorts_total:
  assumes "\<And>protocol a. \<exists>p a'. allocate protocol a = (Inr p, a')" and "ks_Ports service \<noteq> []"
  shows "\<exists>out a'. BuildInterceptPorts service allocate a = (Inr out, a')"
proof -
  have "\<exists>out a'. buildInterceptLoop allocate ports a = (Inr out, a') \<and> length out = length ports" for ports a
  proof (induction ports arbitrary: a)
    case (Cons port ports)
    show ?case
    proof -
      obtain p a' where "allocate (if kw_Protocol port = [] then ''TCP'' else kw_Protocol port) a = (Inr p, a')" using assms(1) by blast
      moreover obtain out a'' where "buildInterceptLoop allocate ports a' = (Inr out, a'')" "length out = length ports" using Cons.IH by blast
      ultimately show ?thesis by (simp add: Let_def)
    qed
  qed simp
  from this [of "ks_Ports service" a] show ?thesis using assms(2) by (auto simp: BuildInterceptPorts_def)
qed

end
