(* ===== verification/Socks.thy ===== *)
theory Socks
  imports Singbox Tunnel
begin

text \<open>
  The SOCKS5 client of the features: \<^verbatim>\<open>internal/traffic/socks.go\<close>.

  A connection to the endpoint is the writer it sends to, the bytes the endpoint will still send, and
  whether it is open. \<^verbatim>\<open>net.ParseIP\<close> is the field \<open>ParseIP\<close> of the library argument. The answers of the
  operating system (dialing, resolving) are arguments.
\<close>

section \<open>Constants and data\<close>

abbreviation socksVersion :: byte where "socksVersion \<equiv> 5"
abbreviation socksMethodNone :: byte where "socksMethodNone \<equiv> 0"
abbreviation socksMethodPassword :: byte where "socksMethodPassword \<equiv> 2"
abbreviation socksCommandConnect :: byte where "socksCommandConnect \<equiv> 1"
abbreviation socksCommandUDPAssociate :: byte where "socksCommandUDPAssociate \<equiv> 3"
abbreviation socksAddressIPv4 :: byte where "socksAddressIPv4 \<equiv> 1"
abbreviation socksAddressDomain :: byte where "socksAddressDomain \<equiv> 3"
abbreviation socksAddressIPv6 :: byte where "socksAddressIPv6 \<equiv> 4"

record Endpoint =
  ep_Address :: string
  ep_Username :: string
  ep_Password :: string

record sconn =
  sc_w :: writer
  sc_in :: "byte list"
  sc_open :: bool

section \<open>Addresses on the wire\<close>

text \<open>\<^verbatim>\<open>net.IP.String\<close>, which prints an IPv4-mapped address as the IPv4 address.\<close>

definition ip_string :: "addr \<Rightarrow> string" where
  "ip_string ip = addr_string (Unmap ip)"

definition encodeHost :: "netLib \<Rightarrow> string \<Rightarrow> byte list res" where
  "encodeHost lib host =
     (case ParseIP lib host of
        Some ip \<Rightarrow>
          (case Unmap ip of
             V4 w \<Rightarrow> Inr ([socksAddressIPv4] @ be_enc 4 (unat w))
           | V6 w \<Rightarrow> Inr ([socksAddressIPv6] @ be_enc 16 (unat w)))
      | None \<Rightarrow>
          if length host > 0 \<and> length host \<le> 255
          then Inr ([socksAddressDomain, word_of_nat (length host)] @ bytes_of host)
          else Inl (Errorf (''invalid SOCKS target host '' @ quote host)))"

definition encodeAddress :: "netLib \<Rightarrow> string \<Rightarrow> u16 \<Rightarrow> byte list res" where
  "encodeAddress lib host port = bindE (encodeHost lib host) (\<lambda>encoded. Inr (encoded @ put_u16 port))"

definition readHost :: "byte \<Rightarrow> byte list \<Rightarrow> (string \<times> byte list) res" where
  "readHost kind r =
     (if kind = socksAddressIPv4
      then bindE (read_full 4 r) (\<lambda>(value, r). Inr (ip_string (V4 (word_of_nat (be_dec value))), r))
      else if kind = socksAddressIPv6
      then bindE (read_full 16 r) (\<lambda>(value, r). Inr (ip_string (V6 (word_of_nat (be_dec value))), r))
      else if kind = socksAddressDomain
      then bindE (read_full 1 r) (\<lambda>(size, r).
             bindE (read_full (unat (size ! 0)) r) (\<lambda>(value, r). Inr (string_of value, r)))
      else Inl (Errorf (''unsupported SOCKS address type '' @ itoa (unat kind))))"

definition readAddress :: "byte list \<Rightarrow> ((string \<times> u16) \<times> byte list) res" where
  "readAddress r =
     bindE (read_full 1 r) (\<lambda>(kind, r).
     bindE (readHost (kind ! 0) r) (\<lambda>(host, r).
     bindE (read_full 2 r) (\<lambda>(rawPort, r). Inr ((host, get_u16 rawPort), r))))"

definition splitTarget :: "string \<Rightarrow> (string \<times> u16) res" where
  "splitTarget address =
     (case split_host_port address of
        Inl e \<Rightarrow> Inl (Wrapf (''parse target address '' @ quote address @ '': '') e)
      | Inr (host, rawPort) \<Rightarrow>
          (case parse_uint 16 rawPort of
             Inl e \<Rightarrow> Inl (Errorf (''invalid target port '' @ quote rawPort))
           | Inr port \<Rightarrow>
               if port = 0 then Inl (Errorf (''invalid target port '' @ quote rawPort))
               else if host = [] then Inl (Errorf ''target host is required'')
               else Inr (host, word_of_nat port)))"

definition requestBytes :: "netLib \<Rightarrow> byte \<Rightarrow> string \<Rightarrow> byte list res" where
  "requestBytes lib command address =
     (case split_host_port address of
        Inl e \<Rightarrow> Inl (Wrapf (''parse target address '' @ quote address @ '': '') e)
      | Inr (host, rawPort) \<Rightarrow>
          (case parse_uint 16 rawPort of
             Inl e \<Rightarrow> Inl (Errorf (''invalid target port '' @ quote rawPort))
           | Inr parsedPort \<Rightarrow>
               if parsedPort = 0 \<and> command \<noteq> socksCommandUDPAssociate
               then Inl (Errorf (''invalid target port '' @ quote rawPort))
               else if host = [] then Inl (Errorf ''target host is required'')
               else bindE (encodeAddress lib host (word_of_nat parsedPort)) (\<lambda>encoded.
                 Inr ([socksVersion, command, 0] @ encoded))))"

definition readReply :: "byte list \<Rightarrow> (string \<times> byte list) res" where
  "readReply r =
     bindE (read_full 3 r) (\<lambda>(header, r).
       if header ! 0 \<noteq> socksVersion then Inl (Errorf (''unexpected SOCKS version '' @ itoa (unat (header ! 0))))
       else if header ! 1 \<noteq> 0 then Inl (Errorf (''SOCKS reply status '' @ itoa (unat (header ! 1))))
       else bindE (readAddress r) (\<lambda>((host, port), r). Inr (join_host_port host (itoa (unat port)), r)))"

section \<open>Steps on a connection\<close>

text \<open>
  A step may fail and changes the connection. \<open>orClose\<close> is the idiom \<^verbatim>\<open>if err != nil\<close> that closes the
  connection before it returns the error.
\<close>

type_synonym 'a sstep = "sconn \<Rightarrow> 'a res \<times> sconn"

definition retS :: "'a \<Rightarrow> 'a sstep" where "retS x c = (Inr x, c)"
definition errS :: "goerr \<Rightarrow> 'a sstep" where "errS e c = (Inl e, c)"

definition bindS :: "'a sstep \<Rightarrow> ('a \<Rightarrow> 'b sstep) \<Rightarrow> 'b sstep" where
  "bindS m f c = (case m c of (Inl e, c') \<Rightarrow> (Inl e, c') | (Inr x, c') \<Rightarrow> f x c')"

definition orClose :: "'a sstep \<Rightarrow> 'a sstep" where
  "orClose m c = (case m c of (Inl e, c') \<Rightarrow> (Inl e, c'\<lparr>sc_open := False\<rparr>) | r \<Rightarrow> r)"

definition wrapS :: "string \<Rightarrow> 'a sstep \<Rightarrow> 'a sstep" where
  "wrapS what m c = (case m c of (Inl e, c') \<Rightarrow> (Inl (Wrapf what e), c') | r \<Rightarrow> r)"

definition sendAll :: "byte list \<Rightarrow> unit sstep" where
  "sendAll value c = (case writeAll (sc_w c) value of
     (Some e, w) \<Rightarrow> (Inl e, c\<lparr>sc_w := w\<rparr>) | (None, w) \<Rightarrow> (Inr (), c\<lparr>sc_w := w\<rparr>))"

definition parseS :: "(byte list \<Rightarrow> ('a \<times> byte list) res) \<Rightarrow> 'a sstep" where
  "parseS f c = (case f (sc_in c) of Inl e \<Rightarrow> (Inl e, c) | Inr (x, rest) \<Rightarrow> (Inr x, c\<lparr>sc_in := rest\<rparr>))"

definition credentials :: "Endpoint \<Rightarrow> bool" where
  "credentials ep \<longleftrightarrow> ep_Username ep \<noteq> [] \<or> ep_Password ep \<noteq> []"

definition authRequest :: "string \<Rightarrow> string \<Rightarrow> byte list" where
  "authRequest username password =
     [1, word_of_nat (length username)] @ bytes_of username @ [word_of_nat (length password)] @ bytes_of password"

definition authenticate :: "string \<Rightarrow> string \<Rightarrow> unit sstep" where
  "authenticate username password =
     (if length username = 0 \<or> length username > 255 \<or> length password = 0 \<or> length password > 255
      then errS (Errorf ''invalid SOCKS username or password length'')
      else bindS (sendAll (authRequest username password)) (\<lambda>_.
           bindS (parseS (read_full 2)) (\<lambda>response.
           if response ! 0 \<noteq> 1 \<or> response ! 1 \<noteq> 0 then errS (Errorf ''SOCKS authentication failed'')
           else retS ())))"

definition greeting :: "Endpoint \<Rightarrow> byte list" where
  "greeting ep =
     (let methods = (if credentials ep then [socksMethodPassword] else [socksMethodNone])
      in [socksVersion, word_of_nat (length methods)] @ methods)"

definition negotiate :: "Endpoint \<Rightarrow> unit sstep" where
  "negotiate ep =
     bindS (orClose (sendAll (greeting ep))) (\<lambda>_.
     bindS (orClose (parseS (read_full 2))) (\<lambda>response.
     if response ! 0 \<noteq> socksVersion
     then orClose (errS (Errorf (''unexpected SOCKS version '' @ itoa (unat (response ! 0)))))
     else if response ! 1 = socksMethodNone
     then (if credentials ep then orClose (errS (Errorf ''SOCKS endpoint skipped required authentication'')) else retS ())
     else if response ! 1 = socksMethodPassword then orClose (authenticate (ep_Username ep) (ep_Password ep))
     else orClose (errS (Errorf (''SOCKS authentication method '' @ itoa (unat (response ! 1)) @ '' rejected'')))))"

text \<open>
  \<^verbatim>\<open>openControl\<close>: \<open>dialed\<close> is the answer of the dialer. A failure says what has become of the connection, if
  there was one.
\<close>

definition openControl :: "Endpoint \<Rightarrow> sconn res \<Rightarrow> (goerr \<times> sconn option) + sconn" where
  "openControl ep dialed =
     (if ep_Address ep = [] then Inl (Errorf ''SOCKS endpoint address is required'', None)
      else case dialed of
        Inl e \<Rightarrow> Inl (Wrapf ''connect SOCKS endpoint: '' e, None)
      | Inr c \<Rightarrow> (case negotiate ep c of (Inl e, c') \<Rightarrow> Inl (e, Some c') | (Inr _, c') \<Rightarrow> Inr c'))"

definition writeRequest :: "netLib \<Rightarrow> byte \<Rightarrow> string \<Rightarrow> unit sstep" where
  "writeRequest lib command address =
     (case requestBytes lib command address of Inl e \<Rightarrow> errS e | Inr request \<Rightarrow> sendAll request)"

definition request :: "netLib \<Rightarrow> byte \<Rightarrow> string \<Rightarrow> string \<Rightarrow> string sstep" where
  "request lib command address what =
     bindS (orClose (writeRequest lib command address)) (\<lambda>_. orClose (wrapS what (parseS readReply)))"

definition dialTCP :: "netLib \<Rightarrow> Endpoint \<Rightarrow> sconn res \<Rightarrow> string \<Rightarrow> (goerr \<times> sconn option) + sconn" where
  "dialTCP lib ep dialed address =
     (case openControl ep dialed of
        Inl f \<Rightarrow> Inl f
      | Inr c \<Rightarrow>
          (case request lib socksCommandConnect address (''SOCKS connect '' @ address @ '': '') c of
             (Inl e, c') \<Rightarrow> Inl (e, Some c')
           | (Inr _, c') \<Rightarrow> Inr c'))"

section \<open>UDP\<close>

text \<open>
  \<^verbatim>\<open>dialUDP\<close>. A failure says what has become of the control connection and of the socket (open or not).
  \<open>resolveUDP\<close> and \<open>dialSocket\<close> answer for \<^verbatim>\<open>net.ResolveUDPAddr\<close> and \<^verbatim>\<open>net.DialUDP\<close>.
\<close>

record udpConn =
  uc_target :: string
  uc_targetHost :: string
  uc_targetPort :: u16

record sockEnv =
  resolveUDP :: "string \<Rightarrow> string \<Rightarrow> string res"
  dialSocket :: "string \<Rightarrow> string \<Rightarrow> unit res"

definition closeS :: "sconn \<Rightarrow> sconn" where
  "closeS c = c\<lparr>sc_open := False\<rparr>"

definition relayHost :: "Endpoint \<Rightarrow> string \<Rightarrow> (string \<times> string) res" where
  "relayHost ep relayAddress =
     (case split_host_port relayAddress of
        Inl e \<Rightarrow> Inl (Wrapf ''parse SOCKS UDP relay: '' e)
      | Inr (host, port) \<Rightarrow>
          if host = [] \<or> host = ''0.0.0.0'' \<or> host = ''::''
          then (case split_host_port (ep_Address ep) of
                  Inl e \<Rightarrow> Inl (Wrapf ''parse SOCKS endpoint: '' e)
                | Inr (host, _) \<Rightarrow> Inr (host, port))
          else Inr (host, port))"

type_synonym udpFail = "goerr \<times> sconn option \<times> bool option"

definition openSocket ::
  "sockEnv \<Rightarrow> string \<Rightarrow> string \<Rightarrow> string \<times> string \<Rightarrow> sconn \<Rightarrow> udpFail + (udpConn \<times> sconn)" where
  "openSocket env network target hp control =
     (case resolveUDP env network (join_host_port (fst hp) (snd hp)) of
        Inl e \<Rightarrow> Inl (Wrapf ''resolve SOCKS UDP relay: '' e, Some (closeS control), None)
      | Inr relay \<Rightarrow>
          (case dialSocket env network relay of
             Inl e \<Rightarrow> Inl (Wrapf ''connect SOCKS UDP relay: '' e, Some (closeS control), None)
           | Inr _ \<Rightarrow>
               (case splitTarget target of
                  Inl e \<Rightarrow> Inl (e, Some (closeS control), Some False)
                | Inr (host, port) \<Rightarrow>
                    Inr (\<lparr>uc_target = target, uc_targetHost = host, uc_targetPort = port\<rparr>, control))))"

definition dialUDP ::
  "netLib \<Rightarrow> Endpoint \<Rightarrow> sconn res \<Rightarrow> sockEnv \<Rightarrow> string \<Rightarrow> string \<Rightarrow> udpFail + (udpConn \<times> sconn)" where
  "dialUDP lib ep dialed env network target =
     (case openControl ep dialed of
        Inl (e, c) \<Rightarrow> Inl (e, c, None)
      | Inr c \<Rightarrow>
          (case request lib socksCommandUDPAssociate ''0.0.0.0:0'' ''SOCKS UDP associate: '' c of
             (Inl e, control) \<Rightarrow> Inl (e, Some control, None)
           | (Inr relayAddress, control) \<Rightarrow>
               (case relayHost ep relayAddress of
                  Inl e \<Rightarrow> Inl (e, Some (closeS control), None)
                | Inr hp \<Rightarrow> openSocket env network target hp control)))"

datatype trafficConn = TCPConn sconn | UDPConn udpConn sconn

text \<open>\<^verbatim>\<open>DialContext\<close>: the network chooses between the two.\<close>

definition DialContext ::
  "netLib \<Rightarrow> Endpoint \<Rightarrow> sconn res \<Rightarrow> sockEnv \<Rightarrow> string \<Rightarrow> string \<Rightarrow> udpFail + trafficConn" where
  "DialContext lib ep dialed env network address =
     (if network = ''tcp'' \<or> network = ''tcp4'' \<or> network = ''tcp6''
      then (case dialTCP lib ep dialed address of Inl (e, c) \<Rightarrow> Inl (e, c, None) | Inr c \<Rightarrow> Inr (TCPConn c))
      else if network = ''udp'' \<or> network = ''udp4'' \<or> network = ''udp6''
      then (case dialUDP lib ep dialed env network address of Inl f \<Rightarrow> Inl f | Inr (u, c) \<Rightarrow> Inr (UDPConn u c))
      else Inl (Errorf (''unsupported traffic network '' @ quote network), None, None))"

text \<open>Datagrams: \<^verbatim>\<open>udpConn.Write\<close>, with the answer of the socket, and \<^verbatim>\<open>udpConn.Read\<close> into \<open>n\<close> bytes.\<close>

definition udpPacket :: "netLib \<Rightarrow> udpConn \<Rightarrow> byte list \<Rightarrow> byte list res" where
  "udpPacket lib u payload =
     bindE (encodeAddress lib (uc_targetHost u) (uc_targetPort u)) (\<lambda>address. Inr ([0, 0, 0] @ address @ payload))"

definition udpWrite :: "netLib \<Rightarrow> udpConn \<Rightarrow> goerr option \<Rightarrow> byte list \<Rightarrow> (nat \<times> goerr option) \<times> byte list option" where
  "udpWrite lib u answer payload =
     (case udpPacket lib u payload of
        Inl e \<Rightarrow> ((0, Some e), None)
      | Inr packet \<Rightarrow> (case answer of Some e \<Rightarrow> ((0, Some e), Some packet) | None \<Rightarrow> ((length payload, None), Some packet)))"

definition decodeDatagram :: "byte list \<Rightarrow> byte list res" where
  "decodeDatagram packet =
     (if length packet < 4 \<or> packet ! 0 \<noteq> 0 \<or> packet ! 1 \<noteq> 0 then Inl (Errorf ''invalid SOCKS UDP datagram'')
      else if packet ! 2 \<noteq> 0 then Inl (Errorf ''fragmented SOCKS UDP datagrams are not supported'')
      else case readAddress (drop 3 packet) of
        Inl e \<Rightarrow> Inl e
      | Inr (_, rest) \<Rightarrow> Inr (drop (length packet - length rest) packet))"

definition ErrShortBuffer :: goerr where "ErrShortBuffer = Errorf ''short buffer''"

definition udpRead :: "nat \<Rightarrow> byte list res \<Rightarrow> byte list \<times> goerr option" where
  "udpRead n answer =
     (case answer of
        Inl e \<Rightarrow> ([], Some e)
      | Inr datagram \<Rightarrow>
          (case decodeDatagram (take (65535 + 512) datagram) of
             Inl e \<Rightarrow> ([], Some e)
           | Inr payload \<Rightarrow>
               if length payload > n then (take n payload, Some ErrShortBuffer) else (payload, None)))"

text \<open>\<^verbatim>\<open>udpConn.Close\<close>, once: the socket and the control connection are closed, the first error is returned.\<close>

definition udpClose :: "bool \<Rightarrow> goerr option \<Rightarrow> goerr option \<Rightarrow> goerr option \<times> string list" where
  "udpClose closed socketErr controlErr =
     (if closed then (None, [])
      else (case socketErr of Some e \<Rightarrow> Some e | None \<Rightarrow> controlErr, [''socket'', ''control'']))"

section \<open>Addresses are read back\<close>

definition canonHost :: "netLib \<Rightarrow> string \<Rightarrow> string" where
  "canonHost lib host = (case ParseIP lib host of Some ip \<Rightarrow> ip_string ip | None \<Rightarrow> host)"

lemma Unmap_twice [simp]: "Unmap (Unmap ip) = Unmap ip"
  by (cases ip) simp_all

lemma be_word_round:
  "word_of_nat (be_dec (be_enc 4 (unat w))) = (w :: u32)" "word_of_nat (be_dec (be_enc 16 (unat v))) = (v :: u128)"
  using unat_bound [of w] unat_bound [of v] by (simp_all add: be_dec_enc del: be_enc.simps)

lemma encodeHost_round:
  assumes "encodeHost lib host = Inr bs"
  obtains kind more where "bs = kind # more" "\<And>rest. readHost kind (more @ rest) = Inr (canonHost lib host, rest)"
proof (cases "ParseIP lib host")
  case None
  with assms have b: "bs = [socksAddressDomain, word_of_nat (length host)] @ bytes_of host" "length host \<le> 255"
    by (auto simp: encodeHost_def split: if_splits)
  have "unat (word_of_nat (length host) :: byte) = length host" using b(2) by (simp add: unat_of_nat)
  then have "readHost socksAddressDomain ((word_of_nat (length host) # bytes_of host) @ rest) = Inr (canonHost lib host, rest)" for rest
    using read_full_append [of "[word_of_nat (length host)]" 1 "bytes_of host @ rest"]
    by (simp add: readHost_def canonHost_def None)
  then show thesis using that b(1) by simp
next
  case (Some ip)
  show thesis
  proof (cases "Unmap ip")
    case (V4 w)
    then have "bs = socksAddressIPv4 # be_enc 4 (unat w)" using assms Some by (simp add: encodeHost_def del: be_enc.simps)
    moreover have "readHost socksAddressIPv4 (be_enc 4 (unat w) @ rest) = Inr (canonHost lib host, rest)" for rest
      using V4 Some by (simp add: readHost_def canonHost_def ip_string_def be_word_round del: be_enc.simps addr_string.simps)
    ultimately show thesis using that by blast
  next
    case (V6 w)
    then have "bs = socksAddressIPv6 # be_enc 16 (unat w)" using assms Some by (simp add: encodeHost_def del: be_enc.simps)
    moreover have "Unmap (V6 w) = V6 w" using V6 by (metis Unmap_twice)
    then have "readHost socksAddressIPv6 (be_enc 16 (unat w) @ rest) = Inr (canonHost lib host, rest)" for rest
      using V6 Some by (simp add: readHost_def canonHost_def ip_string_def be_word_round del: be_enc.simps addr_string.simps Unmap.simps)
    ultimately show thesis using that by blast
  qed
qed

lemma readAddress_encode:
  assumes "encodeAddress lib host port = Inr bs"
  shows "readAddress (bs @ rest) = Inr ((canonHost lib host, port), rest)"
proof -
  from assms obtain hb where hb: "encodeHost lib host = Inr hb" "bs = hb @ put_u16 port" by (auto simp: encodeAddress_def bindE_Inr_iff)
  from hb(1) obtain kind more where k: "hb = kind # more" "\<And>rest. readHost kind (more @ rest) = Inr (canonHost lib host, rest)"
    by (rule encodeHost_round) blast
  show ?thesis
    using read_full_append [of "[kind]" 1 "more @ put_u16 port @ rest"] by (simp add: readAddress_def hb(2) k)
qed

definition socks_ok :: "netLib \<Rightarrow> string \<times> u16 \<Rightarrow> bool" where
  "socks_ok lib x \<longleftrightarrow> canonHost lib (fst x) = fst x"

interpretation saddr: wire_codec "socks_ok lib" "\<lambda>(host, port). encodeAddress lib host port" readAddress for lib
  by unfold_locales (auto simp: socks_ok_def readAddress_encode)

section \<open>Steps that close what they break\<close>

text \<open>\<open>keepsOpen\<close>: the step leaves the connection as open as it was; \<open>tidy\<close>: a step that fails leaves it closed.\<close>

definition keepsOpen :: "'a sstep \<Rightarrow> bool" where
  "keepsOpen m \<longleftrightarrow> (\<forall>c. sc_open (snd (m c)) = sc_open c)"

definition tidy :: "'a sstep \<Rightarrow> bool" where
  "tidy m \<longleftrightarrow> (\<forall>c. case m c of (Inl e, c') \<Rightarrow> \<not> sc_open c' | (Inr x, c') \<Rightarrow> sc_open c' = sc_open c)"

named_theorems tidy_intros

lemma keepsOpen_basic [tidy_intros]: "keepsOpen (retS x)" "keepsOpen (errS e)" "keepsOpen (sendAll v)" "keepsOpen (parseS f)"
  by (auto simp: keepsOpen_def retS_def errS_def sendAll_def parseS_def split: prod.splits option.splits sum.splits)

lemma keepsOpenD: "keepsOpen m \<Longrightarrow> m c = (r, c') \<Longrightarrow> sc_open c' = sc_open c"
  unfolding keepsOpen_def by (metis snd_conv)

lemma keepsOpenI: "(\<And>c r c'. m c = (r, c') \<Longrightarrow> sc_open c' = sc_open c) \<Longrightarrow> keepsOpen m"
  unfolding keepsOpen_def by (metis prod.collapse)

lemma keepsOpen_bind [tidy_intros]: "keepsOpen m \<Longrightarrow> (\<And>x. keepsOpen (f x)) \<Longrightarrow> keepsOpen (bindS m f)"
  by (rule keepsOpenI) (auto simp: bindS_def dest!: keepsOpenD split: prod.splits sum.splits)

lemma keepsOpen_wrap [tidy_intros]: "keepsOpen m \<Longrightarrow> keepsOpen (wrapS what m)"
  by (rule keepsOpenI) (auto simp: wrapS_def dest!: keepsOpenD split: prod.splits sum.splits)

lemma keepsOpen_if [tidy_intros]: "keepsOpen m \<Longrightarrow> keepsOpen m' \<Longrightarrow> keepsOpen (if b then m else m')" "tidy n \<Longrightarrow> tidy n' \<Longrightarrow> tidy (if b then n else n')"
  by simp_all

lemma tidy_close [tidy_intros]: "keepsOpen m \<Longrightarrow> tidy (orClose m)"
  by (auto simp: tidy_def orClose_def dest!: keepsOpenD split: prod.splits sum.splits)

lemma tidy_ret [tidy_intros]: "tidy (retS x)"
  by (simp add: tidy_def retS_def)

lemma tidy_bind [tidy_intros]: "tidy m \<Longrightarrow> (\<And>x. tidy (f x)) \<Longrightarrow> tidy (bindS m f)"
  unfolding tidy_def bindS_def by (fastforce split: prod.split sum.split prod.split_asm sum.split_asm)

lemma tidyD:
  "tidy m \<Longrightarrow> m c = (Inl e, c') \<Longrightarrow> \<not> sc_open c'"
  "tidy m \<Longrightarrow> m c = (Inr x, c') \<Longrightarrow> sc_open c' = sc_open c"
  by (auto simp: tidy_def dest!: spec [of _ c])

lemma keepsOpen_authenticate [tidy_intros]: "keepsOpen (authenticate u p)"
  unfolding authenticate_def by (intro tidy_intros)

lemma keepsOpen_writeRequest [tidy_intros]: "keepsOpen (writeRequest lib command address)"
  by (cases "requestBytes lib command address") (simp_all add: writeRequest_def keepsOpen_basic)

lemma tidy_negotiate: "tidy (negotiate ep)"
  unfolding negotiate_def by (intro tidy_intros)

lemma tidy_request: "tidy (request lib command address what)"
  unfolding request_def by (intro tidy_intros)

section \<open>What a dial says and hears\<close>

definition sent :: "byte list \<Rightarrow> sconn \<Rightarrow> sconn" where
  "sent v c = c\<lparr>sc_w := sc_w c\<lparr>w_out := w_out (sc_w c) @ v\<rparr>\<rparr>"

lemma sent_simps [simp]: "sc_in (sent v c) = sc_in c" "sc_open (sent v c) = sc_open c" "w_sched (sc_w (sent v c)) = w_sched (sc_w c)"
  "w_out (sc_w (sent v c)) = w_out (sc_w c) @ v" "sent v' (sent v c) = sent (v @ v') c"
  "sent v (c\<lparr>sc_in := r\<rparr>) = (sent v c)\<lparr>sc_in := r\<rparr>"
  by (simp_all add: sent_def)

lemma sendAll_sent: "w_sched (sc_w c) = [] \<Longrightarrow> sendAll v c = (Inr (), sent v c)"
proof -
  assume "w_sched (sc_w c) = []"
  then have "writeAll (sc_w c) v = (None, (sc_w c)\<lparr>w_out := w_out (sc_w c) @ v\<rparr>)"
    by (cases "v = []") (simp_all add: writeAll.simps w_write_def)
  then show ?thesis by (simp add: sendAll_def sent_def)
qed

lemma read_two: "read_full 2 s = Inr (x, r) \<longleftrightarrow> (\<exists>a b. x = [a, b] \<and> s = a # b # r)"
proof -
  have "length x = 2 \<longleftrightarrow> (\<exists>a b. x = [a, b])" by (auto simp: numeral_2_eq_2 length_Suc_conv)
  then show ?thesis by (auto simp: read_full_Inr)
qed

definition cred_ok :: "Endpoint \<Rightarrow> bool" where
  "cred_ok ep \<longleftrightarrow> ep_Username ep \<noteq> [] \<and> length (ep_Username ep) \<le> 255 \<and> ep_Password ep \<noteq> [] \<and> length (ep_Password ep) \<le> 255"

definition authenticated :: "Endpoint \<Rightarrow> byte list \<times> byte list" where
  "authenticated ep = (if credentials ep then (greeting ep @ authRequest (ep_Username ep) (ep_Password ep), [socksVersion, socksMethodPassword, 1, 0])
     else (greeting ep, [socksVersion, socksMethodNone]))"

lemma authenticate_iff:
  assumes "w_sched (sc_w c) = []"
  shows "authenticate (ep_Username ep) (ep_Password ep) c = (Inr (), c') \<longleftrightarrow>
    cred_ok ep \<and> (\<exists>rest. sc_in c = [1, 0] @ rest \<and> c' = (sent (authRequest (ep_Username ep) (ep_Password ep)) c)\<lparr>sc_in := rest\<rparr>)"
proof (cases "cred_ok ep")
  case False
  then show ?thesis by (auto simp: authenticate_def cred_ok_def errS_def)
next
  case True
  then have a: "authenticate (ep_Username ep) (ep_Password ep) = bindS (sendAll (authRequest (ep_Username ep) (ep_Password ep))) (\<lambda>_.
      bindS (parseS (read_full 2)) (\<lambda>response. if response ! 0 \<noteq> 1 \<or> response ! 1 \<noteq> 0 then errS (Errorf ''SOCKS authentication failed'') else retS ()))"
    by (auto simp: authenticate_def cred_ok_def)
  show ?thesis
  proof (cases "read_full 2 (sc_in c)")
    case (Inl e)
    then have "sc_in c \<noteq> [1, 0] @ rest" for rest using read_two [of "sc_in c" "[1, 0]" rest] by auto
    then show ?thesis using assms Inl by (simp add: a bindS_def sendAll_sent parseS_def)
  next
    case (Inr b)
    then obtain x y r where "b = ([x, y], r)" "sc_in c = x # y # r" by (cases b) (auto simp: read_two)
    then show ?thesis using assms True Inr by (auto simp: a bindS_def sendAll_sent parseS_def errS_def retS_def split: if_splits)
  qed
qed

lemma negotiate_iff:
  assumes "w_sched (sc_w c) = []"
  shows "negotiate ep c = (Inr (), c') \<longleftrightarrow> (credentials ep = cred_ok ep) \<and>
    (\<exists>rest. sc_in c = snd (authenticated ep) @ rest \<and> c' = (sent (fst (authenticated ep)) c)\<lparr>sc_in := rest\<rparr>)"
proof (cases "read_full 2 (sc_in c)")
  case (Inl e)
  then have "sc_in c \<noteq> [x, y] @ rest" for x y rest using read_two [of "sc_in c" "[x, y]" rest] by auto
  then have "sc_in c \<noteq> snd (authenticated ep) @ rest" for rest by (auto simp: authenticated_def)
  then show ?thesis using assms Inl by (simp add: negotiate_def bindS_def orClose_def sendAll_sent parseS_def)
next
  case (Inr b)
  then obtain x y r where b: "b = ([x, y], r)" "sc_in c = x # y # r" by (cases b) (auto simp: read_two)
  have c0: "\<not> credentials ep \<Longrightarrow> \<not> cred_ok ep" by (auto simp: credentials_def cred_ok_def)
  let ?c = "(sent (greeting ep) c)\<lparr>sc_in := r\<rparr>"
  have n: "negotiate ep c =
     (if x \<noteq> socksVersion then orClose (errS (Errorf (''unexpected SOCKS version '' @ itoa (unat x)))) ?c
     else if y = socksMethodNone
     then (if credentials ep then orClose (errS (Errorf ''SOCKS endpoint skipped required authentication'')) ?c else retS () ?c)
     else if y = socksMethodPassword then orClose (authenticate (ep_Username ep) (ep_Password ep)) ?c
     else orClose (errS (Errorf (''SOCKS authentication method '' @ itoa (unat y) @ '' rejected''))) ?c)"
    using assms Inr b by (simp add: negotiate_def bindS_def orClose_def sendAll_sent parseS_def)
  have au: "orClose m ?c = (Inr (), c') \<longleftrightarrow> m ?c = (Inr (), c')" for m :: "unit sstep"
    by (auto simp: orClose_def split: prod.splits sum.splits)
  have "w_sched (sc_w ?c) = []" using assms by simp
  note au2 = authenticate_iff [OF this, of ep c']
  show ?thesis
  proof (cases "credentials ep")
    case True
    then have "snd (authenticated ep) = [socksVersion, socksMethodPassword, 1, 0]" "fst (authenticated ep) = greeting ep @ authRequest (ep_Username ep) (ep_Password ep)"
      by (simp_all add: authenticated_def)
    with True b(2) show ?thesis unfolding n by (auto simp: au au2 errS_def retS_def)
  next
    case False
    then have "snd (authenticated ep) = [socksVersion, socksMethodNone]" "fst (authenticated ep) = greeting ep"
      by (simp_all add: authenticated_def)
    with False b(2) c0 show ?thesis unfolding n by (auto simp: au au2 errS_def retS_def)
  qed
qed

lemma request_iff:
  assumes "w_sched (sc_w c) = []"
  shows "request lib command address what c = (Inr bound, c') \<longleftrightarrow>
    (\<exists>req rest. requestBytes lib command address = Inr req \<and> readReply (sc_in c) = Inr (bound, rest) \<and> c' = (sent req c)\<lparr>sc_in := rest\<rparr>)"
proof (cases "requestBytes lib command address")
  case (Inl e)
  then show ?thesis by (simp add: request_def bindS_def orClose_def writeRequest_def errS_def)
next
  case (Inr req)
  then show ?thesis using assms
    by (cases "readReply (sc_in c)") (auto simp: request_def bindS_def orClose_def writeRequest_def sendAll_sent wrapS_def parseS_def)
qed

lemma requestBytes_connect:
  "requestBytes lib socksCommandConnect address =
     bindE (splitTarget address) (\<lambda>(host, port). bindE (encodeAddress lib host port) (\<lambda>enc. Inr ([socksVersion, socksCommandConnect, 0] @ enc)))"
  by (auto simp: requestBytes_def splitTarget_def split: sum.splits prod.splits)

lemma dial_iff:
  assumes "w_sched (sc_w c) = []" and "ep_Address ep \<noteq> []"
  shows "dialTCP lib ep (Inr c) address = Inr c' \<longleftrightarrow> credentials ep = cred_ok ep \<and>
    (\<exists>host port enc reply bound rest. splitTarget address = Inr (host, port) \<and> encodeAddress lib host port = Inr enc \<and>
       sc_in c = snd (authenticated ep) @ reply \<and> readReply reply = Inr (bound, rest) \<and>
       c' = (sent (fst (authenticated ep) @ [socksVersion, socksCommandConnect, 0] @ enc) c)\<lparr>sc_in := rest\<rparr>)"
    (is "?l \<longleftrightarrow> ?cred \<and> ?r")
proof -
  let ?q = "request lib socksCommandConnect address (''SOCKS connect '' @ address @ '': '')"
  have d: "?l \<longleftrightarrow> (\<exists>c1 bound. negotiate ep c = (Inr (), c1) \<and> ?q c1 = (Inr bound, c'))"
    using assms(2) by (auto simp: dialTCP_def openControl_def split: prod.splits sum.splits)
  have q: "?q ((sent v c)\<lparr>sc_in := reply\<rparr>) = (Inr bound, c') \<longleftrightarrow> (\<exists>req rest. requestBytes lib socksCommandConnect address = Inr req \<and>
      readReply reply = Inr (bound, rest) \<and> c' = (sent (v @ req) c)\<lparr>sc_in := rest\<rparr>)" for v reply bound
    using request_iff [of "(sent v c)\<lparr>sc_in := reply\<rparr>"] assms(1) by simp
  show ?thesis
    unfolding d negotiate_iff [OF assms(1)] using q requestBytes_connect [of lib address]
    by (auto simp: bindE_Inr_iff)
qed

definition shut :: "sconn option \<Rightarrow> bool" where
  "shut c \<longleftrightarrow> (case c of None \<Rightarrow> True | Some c' \<Rightarrow> \<not> sc_open c')"

lemma openControl_shuts:
  "openControl ep dialed = Inl (e, c) \<Longrightarrow> shut c"
  "openControl ep dialed = Inr c' \<Longrightarrow> \<exists>c0. dialed = Inr c0 \<and> sc_open c' = sc_open c0"
  by (auto simp: openControl_def shut_def dest: tidyD [OF tidy_negotiate] split: sum.splits prod.splits if_splits)

lemma request_shuts:
  "request lib command address what c = (Inl e, c') \<Longrightarrow> \<not> sc_open c'"
  "request lib command address what c = (Inr b, c') \<Longrightarrow> sc_open c' = sc_open c"
  by (auto dest: tidyD [OF tidy_request])

lemma dialTCP_shuts:
  "dialTCP lib ep dialed address = Inl (e, c) \<Longrightarrow> shut c"
  "dialTCP lib ep dialed address = Inr c' \<Longrightarrow> \<exists>c0. dialed = Inr c0 \<and> sc_open c' = sc_open c0"
  by (auto simp: dialTCP_def shut_def dest: openControl_shuts request_shuts split: sum.splits prod.splits)

lemma openSocket_shuts:
  "openSocket env network target hp control = Inl (e, c, s) \<Longrightarrow> shut c \<and> s \<noteq> Some True"
  "openSocket env network target hp control = Inr (u, c') \<Longrightarrow> c' = control"
  by (auto simp: openSocket_def shut_def closeS_def split: sum.splits prod.splits)

lemma dialUDP_shuts:
  "dialUDP lib ep dialed env network target = Inl (e, c, s) \<Longrightarrow> shut c \<and> s \<noteq> Some True"
  "dialUDP lib ep dialed env network target = Inr (u, c') \<Longrightarrow> \<exists>c0. dialed = Inr c0 \<and> sc_open c' = sc_open c0"
  using openControl_shuts [of ep dialed] openSocket_shuts [of env network target]
  by (auto simp: dialUDP_def shut_def closeS_def dest!: request_shuts split: sum.splits prod.splits) metis+

lemma datagram_round:
  assumes "udpPacket lib u payload = Inr packet" and "length packet \<le> 65535 + 512"
  shows "readAddress (drop 3 packet) = Inr ((canonHost lib (uc_targetHost u), uc_targetPort u), payload)"
    and "udpRead n (Inr packet) = (take n payload, if length payload > n then Some ErrShortBuffer else None)"
proof -
  from assms(1) obtain a where a: "encodeAddress lib (uc_targetHost u) (uc_targetPort u) = Inr a" "packet = [0, 0, 0] @ a @ payload"
    by (auto simp: udpPacket_def bindE_Inr_iff)
  have l: "length a \<ge> 2" using a(1) by (auto simp: encodeAddress_def bindE_Inr_iff)
  show r: "readAddress (drop 3 packet) = Inr ((canonHost lib (uc_targetHost u), uc_targetPort u), payload)"
    using readAddress_encode [OF a(1)] a(2) by simp
  have "decodeDatagram packet = Inr payload"
  proof -
    have "drop (length packet - length payload) packet = payload" by (simp add: a(2) drop_Cons')
    moreover have "\<not> length packet < 4" "packet ! 0 = 0" "packet ! 1 = 0" "packet ! 2 = 0" using l by (auto simp: a(2))
    ultimately show ?thesis using r by (simp add: decodeDatagram_def)
  qed
  then show "udpRead n (Inr packet) = (take n payload, if length payload > n then Some ErrShortBuffer else None)"
    using assms(2) by (simp add: udpRead_def)
qed

section \<open>The properties of the client\<close>

definition ex_sep :: Endpoint where
  "ex_sep = \<lparr>ep_Address = ''127.0.0.1:1080'', ep_Username = ''u'', ep_Password = ''p''\<rparr>"

definition ex_sreply :: "byte list" where
  "ex_sreply = [5, 0, 0, 3, 1, 97, 0, 80, 42]"

definition ex_sconn :: sconn where
  "ex_sconn = \<lparr>sc_w = \<lparr>w_out = [], w_sched = []\<rparr>, sc_in = [5, 2, 1, 0] @ ex_sreply, sc_open = True\<rparr>"

definition ex_udpc :: udpConn where
  "ex_udpc = \<lparr>uc_target = ''db:80'', uc_targetHost = ''db'', uc_targetPort = 80\<rparr>"

lemma ex_split: "splitTarget ''db:80'' = Inr (''db'', 80)"
proof -
  have "split_host_port ''db:80'' = Inr (''db'', ''80'')" by code_simp
  moreover have "itoa 80 = ''80''" by code_simp
  then have "parse_uint 16 ''80'' = Inr 80" using parse_uint_itoa [of 80 16] by simp
  ultimately show ?thesis by (simp add: splitTarget_def)
qed

lemma ex_enc: "encodeAddress ex_net ''db'' 80 = Inr [3, 2, 100, 98, 0, 80]"
proof -
  have "ParseIP ex_net ''db'' = None" by code_simp
  moreover have "bytes_of ''db'' = [100, 98]" by (simp add: bytes_of_def of_char_def)
  moreover have "put_u16 80 = [0, 80]" by code_simp
  ultimately show ?thesis by (simp add: encodeAddress_def encodeHost_def)
qed

lemma ex_cred: "credentials ex_sep" "cred_ok ex_sep"
  by (simp_all add: credentials_def cred_ok_def ex_sep_def)

lemma ex_reply: "readReply ex_sreply = Inr (''a:80'', [42])"
  by code_simp

lemma ex_auth: "authenticated ex_sep = ([5, 1, 2, 1, 1, 117, 1, 112], [5, 2, 1, 0])"
  by (simp add: authenticated_def ex_cred greeting_def authRequest_def) (simp add: ex_sep_def bytes_of_def of_char_def)

lemmas ex_socks_eval = ex_split ex_enc ex_cred ex_reply ex_auth

text \<open>
  C15. A dial through the SOCKS endpoint succeeds exactly when the target is well formed and the endpoint
  accepts version, method (the password method if and only if there are credentials), credentials and
  request; then exactly the greeting, the credentials and the request have been sent, and what the
  endpoint sends after its reply is the caller's to read.
\<close>

theorem socks_dial_exact:
  assumes "w_sched (sc_w c) = []" and "ep_Address ep \<noteq> []"
  shows "dialTCP lib ep (Inr c) address = Inr c' \<longleftrightarrow> credentials ep = cred_ok ep \<and>
    (\<exists>host port enc reply bound rest. splitTarget address = Inr (host, port) \<and> encodeAddress lib host port = Inr enc \<and>
       sc_in c = snd (authenticated ep) @ reply \<and> readReply reply = Inr (bound, rest) \<and>
       c' = (sent (fst (authenticated ep) @ [socksVersion, socksCommandConnect, 0] @ enc) c)\<lparr>sc_in := rest\<rparr>)"
  using assms by (rule dial_iff)

theorem socks_dial_exact_witness:
  "dialTCP ex_net ex_sep (Inr ex_sconn) ''db:80'' =
     Inr \<lparr>sc_w = \<lparr>w_out = [5, 1, 2, 1, 1, 117, 1, 112, 5, 1, 0, 3, 2, 100, 98, 0, 80], w_sched = []\<rparr>, sc_in = [42], sc_open = True\<rparr>"
proof -
  have "w_sched (sc_w ex_sconn) = []" "ep_Address ex_sep \<noteq> []" by (simp_all add: ex_sconn_def ex_sep_def)
  note d = socks_dial_exact [OF this, where lib = ex_net and address = "''db:80''"]
  show ?thesis unfolding d using ex_socks_eval
    by (intro conjI exI [of _ "''db''"] exI [of _ 80] exI [of _ "[3, 2, 100, 98, 0, 80]"] exI [of _ ex_sreply] exI [of _ "''a:80''"] exI [of _ "[42]"])
      (simp_all add: ex_sconn_def sent_def)
qed

text \<open>
  A dial that fails leaves neither the control connection nor the UDP socket open, at whichever step
  it fails; one that succeeds leaves the control connection as it was dialed.
\<close>

theorem socks_dial_closes:
  "case DialContext lib ep dialed env network address of
     Inl (e, c, s) \<Rightarrow> shut c \<and> s \<noteq> Some True
   | Inr (TCPConn c) \<Rightarrow> \<exists>c0. dialed = Inr c0 \<and> sc_open c = sc_open c0
   | Inr (UDPConn u c) \<Rightarrow> \<exists>c0. dialed = Inr c0 \<and> sc_open c = sc_open c0"
proof -
  consider (tcp) "network = ''tcp'' \<or> network = ''tcp4'' \<or> network = ''tcp6''" | (udp) "network = ''udp'' \<or> network = ''udp4'' \<or> network = ''udp6''"
    | (other) "\<not> (network = ''tcp'' \<or> network = ''tcp4'' \<or> network = ''tcp6'')" "\<not> (network = ''udp'' \<or> network = ''udp4'' \<or> network = ''udp6'')"
    by blast
  then show ?thesis
  proof cases
    case tcp
    then have d: "DialContext lib ep dialed env network address =
        (case dialTCP lib ep dialed address of Inl (e, c) \<Rightarrow> Inl (e, c, None) | Inr c \<Rightarrow> Inr (TCPConn c))" by (simp add: DialContext_def)
    show ?thesis
    proof (cases "dialTCP lib ep dialed address")
      case (Inl f)
      then show ?thesis by (cases f) (simp add: d dialTCP_shuts)
    next
      case (Inr c)
      then show ?thesis by (simp add: d dialTCP_shuts)
    qed
  next
    case udp
    then have d: "DialContext lib ep dialed env network address =
        (case dialUDP lib ep dialed env network address of Inl f \<Rightarrow> Inl f | Inr (u, c) \<Rightarrow> Inr (UDPConn u c))" by (auto simp: DialContext_def)
    show ?thesis
    proof (cases "dialUDP lib ep dialed env network address")
      case (Inl f)
      then show ?thesis by (cases f) (simp add: d dialUDP_shuts)
    next
      case (Inr p)
      then show ?thesis by (cases p) (simp add: d dialUDP_shuts)
    qed
  qed (simp add: DialContext_def shut_def)
qed

text \<open>
  A datagram is framed with the address of its target, which the relay reads back, and an answer framed
  the same way is unwrapped to its payload, cut to the caller's buffer with an error if that is too small.
\<close>

theorem socks_datagram_roundtrip:
  assumes "udpPacket lib u payload = Inr packet" and "length packet \<le> 65535 + 512"
  shows "readAddress (drop 3 packet) = Inr ((canonHost lib (uc_targetHost u), uc_targetPort u), payload) \<and>
    udpRead n (Inr packet) = (take n payload, if length payload > n then Some ErrShortBuffer else None)"
  using datagram_round [OF assms] by blast

theorem socks_datagram_roundtrip_witness:
  "readAddress [3, 2, 100, 98, 0, 80, 7, 8] = Inr ((''db'', 80), [7, 8]) \<and>
   udpRead 1 (Inr [0, 0, 0, 3, 2, 100, 98, 0, 80, 7, 8]) = ([7], Some ErrShortBuffer)"
proof -
  have p: "udpPacket ex_net ex_udpc [7, 8] = Inr [0, 0, 0, 3, 2, 100, 98, 0, 80, 7, 8]"
    using ex_socks_eval(2) by (simp add: udpPacket_def ex_udpc_def)
  have h: "canonHost ex_net ''db'' = ''db''" by code_simp
  from socks_datagram_roundtrip [OF p, where n = 1] h show ?thesis by (simp add: ex_udpc_def)
qed

end
