(* ===== verification/Bridge.thy ===== *)
theory Bridge
  imports Socks
begin

text \<open>
  The local SOCKS bridge in front of the Gateway: \<^verbatim>\<open>internal/socksbridge\<close>.

  The SOCKS server itself is a library; the code here handles one request that the library has read. A
  handler of the host is a number, and whether the client's writer takes the success reply is an
  argument. The relay of bytes between the two connections is left out.
\<close>

section \<open>State and requests\<close>

record AddrSpec =
  as_FQDN :: string
  as_IP :: "addr option"
  as_Port :: int

record bridgeServer =
  br_GatewayAddress :: string
  br_SessionToken :: SessionToken
  br_HostTCP :: "(string \<Rightarrow> u16 \<Rightarrow> nat option \<times> bool) option"
  br_HostUDP :: "(string \<Rightarrow> u16 \<Rightarrow> nat option \<times> bool) option"

definition SetHostTCPHandler :: "(string \<Rightarrow> u16 \<Rightarrow> nat option \<times> bool) option \<Rightarrow> bridgeServer \<Rightarrow> bridgeServer" where
  "SetHostTCPHandler handler b = b\<lparr>br_HostTCP := handler\<rparr>"

definition SetHostUDPHandler :: "(string \<Rightarrow> u16 \<Rightarrow> nat option \<times> bool) option \<Rightarrow> bridgeServer \<Rightarrow> bridgeServer" where
  "SetHostUDPHandler handler b = b\<lparr>br_HostUDP := handler\<rparr>"

definition SetGatewayAddress :: "string \<Rightarrow> bridgeServer \<Rightarrow> bridgeServer" where
  "SetGatewayAddress address b = b\<lparr>br_GatewayAddress := address\<rparr>"

definition newBridge :: "string \<Rightarrow> SessionToken \<Rightarrow> bridgeServer" where
  "newBridge gatewayAddress token =
     \<lparr>br_GatewayAddress = gatewayAddress, br_SessionToken = token, br_HostTCP = None, br_HostUDP = None\<rparr>"

definition destination :: "AddrSpec option \<Rightarrow> (string \<times> u16) res" where
  "destination address =
     (case address of
        None \<Rightarrow> Inl (Errorf ''invalid SOCKS destination'')
      | Some a \<Rightarrow>
          if as_Port a < 0 \<or> as_Port a > 65535 then Inl (Errorf ''invalid SOCKS destination'')
          else let host = (if as_FQDN a = [] then (case as_IP a of Some ip \<Rightarrow> ip_string ip | None \<Rightarrow> []) else as_FQDN a)
               in if host = [] then Inl (Errorf ''empty SOCKS destination'') else Inr (host, word_of_int (as_Port a)))"

section \<open>Opening a stream at the Gateway\<close>

text \<open>\<^verbatim>\<open>openGateway\<close>: \<open>dial\<close> is the dialer, which is asked for the address in force.\<close>

definition openGateway ::
  "(string \<Rightarrow> sconn res) \<Rightarrow> bridgeServer \<Rightarrow> byte \<Rightarrow> string \<Rightarrow> u16 \<Rightarrow> (goerr \<times> sconn option) + sconn" where
  "openGateway dial b command host port =
     (case dial (br_GatewayAddress b) of
        Inl e \<Rightarrow> Inl (Wrapf ''connect gateway: '' e, None)
      | Inr c \<Rightarrow>
          (case WriteOpen (sc_w c) \<lparr>Command = command, Host = host, Port = port\<rparr> (br_SessionToken b) of
             (Some e, w) \<Rightarrow> Inl (e, Some (closeS (c\<lparr>sc_w := w\<rparr>)))
           | (None, w) \<Rightarrow>
               (case ReadStatus (sc_in c) of
                  Inl e \<Rightarrow> Inl (e, Some (closeS (c\<lparr>sc_w := w\<rparr>)))
                | Inr (_, rest) \<Rightarrow> Inr (c\<lparr>sc_w := w, sc_in := rest\<rparr>))))"

section \<open>A CONNECT request\<close>

datatype socksReply = RepSuccess | RepServerFailure | RepConnectionRefused | RepAddrTypeNotSupported

datatype bridgeEvent = SendReply socksReply | Serve nat | Relay

text \<open>
  \<^verbatim>\<open>handleConnect\<close>: \<open>isConn\<close> says whether the writer is a network connection, \<open>sendErr\<close> is the error of the
  success reply. The results are the error, the events in order, and the connection to the Gateway as it
  is left.
\<close>

definition claimed :: "(string \<Rightarrow> u16 \<Rightarrow> nat option \<times> bool) option \<Rightarrow> string \<Rightarrow> u16 \<Rightarrow> nat option" where
  "claimed handler host port =
     (case handler of None \<Rightarrow> None | Some h \<Rightarrow> (case h host port of (serve, ok) \<Rightarrow> if ok then serve else None))"

definition handleConnect ::
  "(string \<Rightarrow> sconn res) \<Rightarrow> bool \<Rightarrow> goerr option \<Rightarrow> bridgeServer \<Rightarrow> AddrSpec option \<Rightarrow> goerr option \<times> bridgeEvent list \<times> sconn option" where
  "handleConnect dial isConn sendErr b dest =
     (case destination dest of
        Inl e \<Rightarrow> (Some e, [SendReply RepAddrTypeNotSupported], None)
      | Inr (host, port) \<Rightarrow>
          (case claimed (br_HostTCP b) host port of
             Some serve \<Rightarrow>
               if \<not> isConn then (Some (Errorf ''SOCKS client is not a network connection''), [SendReply RepServerFailure], None)
               else (case sendErr of
                       Some e \<Rightarrow> (Some e, [SendReply RepSuccess], None)
                     | None \<Rightarrow> (None, [SendReply RepSuccess, Serve serve], None))
           | None \<Rightarrow>
               (case openGateway dial b CommandTCP host port of
                  Inl (e, c) \<Rightarrow> (Some e, [SendReply RepConnectionRefused], c)
                | Inr target \<Rightarrow>
                    (case sendErr of
                       Some e \<Rightarrow> (Some e, [SendReply RepSuccess], Some (closeS target))
                     | None \<Rightarrow> (None, [SendReply RepSuccess, Relay], Some (closeS target))))))"

section \<open>Dialing for the associations of UDP\<close>

datatype dialed = ToGateway sconn | ToFramed sconn | ToHost nat

definition bridgeDial ::
  "(string \<Rightarrow> sconn res) \<Rightarrow> (nat \<Rightarrow> unit res) \<Rightarrow> bridgeServer \<Rightarrow> string \<Rightarrow> string \<Rightarrow> (goerr \<times> sconn option) + dialed" where
  "bridgeDial dial hostDial b network address =
     (case split_host_port address of
        Inl e \<Rightarrow> Inl (Wrapf ''split SOCKS destination: '' e, None)
      | Inr (host, rawPort) \<Rightarrow>
          (case parse_uint 16 rawPort of
             Inl e \<Rightarrow> Inl (Wrapf ''parse SOCKS destination port: '' e, None)
           | Inr v \<Rightarrow>
               (let port = (word_of_nat v :: u16) in
                if network \<noteq> ''udp''
                then (case openGateway dial b CommandTCP host port of Inl f \<Rightarrow> Inl f | Inr c \<Rightarrow> Inr (ToGateway c))
                else (case claimed (br_HostUDP b) host port of
                        Some h \<Rightarrow> (case hostDial h of Inl e \<Rightarrow> Inl (e, None) | Inr _ \<Rightarrow> Inr (ToHost h))
                      | None \<Rightarrow>
                          (case openGateway dial b CommandUDP host port of
                             Inl f \<Rightarrow> Inl f | Inr c \<Rightarrow> Inr (ToFramed c))))))"

text \<open>\<^verbatim>\<open>framedConn\<close>: datagrams over the stream of the Gateway.\<close>

definition framedRead :: "nat \<Rightarrow> sconn \<Rightarrow> (byte list \<times> goerr option) \<times> sconn" where
  "framedRead n c =
     (case ReadDatagram (sc_in c) of
        Inl e \<Rightarrow> (([], Some e), c)
      | Inr (payload, rest) \<Rightarrow>
          ((take n payload, if length payload > n then Some ErrShortBuffer else None), c\<lparr>sc_in := rest\<rparr>))"

definition framedWrite :: "byte list \<Rightarrow> sconn \<Rightarrow> (nat \<times> goerr option) \<times> sconn" where
  "framedWrite payload c =
     (case WriteDatagram (sc_w c) payload of
        (Some e, w) \<Rightarrow> ((0, Some e), c\<lparr>sc_w := w\<rparr>)
      | (None, w) \<Rightarrow> ((length payload, None), c\<lparr>sc_w := w\<rparr>))"

section \<open>What a request does\<close>

lemma openGateway_shuts: "openGateway dial b command host port = Inl (e, c) \<Longrightarrow> shut c"
  by (auto simp: openGateway_def shut_def closeS_def split: sum.splits prod.splits option.splits)

lemma openGateway_asks:
  assumes "openGateway dial b command host port = Inr c"
  shows "\<exists>c0 bs. dial (br_GatewayAddress b) = Inr c0 \<and> OpenBytes \<lparr>Command = command, Host = host, Port = port\<rparr> (br_SessionToken b) = Inr bs \<and>
    w_out (sc_w c) = w_out (sc_w c0) @ bs \<and> ReadStatus (sc_in c0) = Inr ((), sc_in c) \<and> sc_open c = sc_open c0"
proof -
  from assms obtain c0 w where c: "dial (br_GatewayAddress b) = Inr c0"
    "WriteOpen (sc_w c0) \<lparr>Command = command, Host = host, Port = port\<rparr> (br_SessionToken b) = (None, w)"
    "ReadStatus (sc_in c0) = Inr ((), sc_in c)" "sc_w c = w" "sc_open c = sc_open c0"
    by (auto simp: openGateway_def split: sum.splits prod.splits option.splits)
  then obtain bs where "OpenBytes \<lparr>Command = command, Host = host, Port = port\<rparr> (br_SessionToken b) = Inr bs" "writeAll (sc_w c0) bs = (None, w)"
    by (auto simp: WriteOpen_def send_res_def split: sum.splits)
  then show ?thesis using c writeAll_None by blast
qed

text \<open>What the Gateway reads: the tenant's token and the destination.\<close>

lemma openGateway_read:
  assumes "openGateway dial b command host port = Inr c" and "token_ok (br_SessionToken b)"
  shows "\<exists>c0 bs. dial (br_GatewayAddress b) = Inr c0 \<and> w_out (sc_w c) = w_out (sc_w c0) @ bs \<and>
    ReadOpenFrame bs = Inr ((br_SessionToken b, \<lparr>Command = command, Host = host, Port = port\<rparr>), [])"
proof -
  obtain c0 bs where o: "dial (br_GatewayAddress b) = Inr c0" "w_out (sc_w c) = w_out (sc_w c0) @ bs"
    "OpenBytes \<lparr>Command = command, Host = host, Port = port\<rparr> (br_SessionToken b) = Inr bs" using openGateway_asks [OF assms(1)] by blast
  have "ReadOpenFrame (bs @ []) = Inr ((br_SessionToken b, \<lparr>Command = command, Host = host, Port = port\<rparr>), [])"
    by (rule opn.round) (use o assms(2) in \<open>simp_all add: open_ok_def\<close>)
  then show ?thesis using o(1,2) by auto
qed

fun is_reply :: "bridgeEvent \<Rightarrow> bool" where
  "is_reply (SendReply r) = True"
| "is_reply e = False"

lemma framed_round:
  assumes "framedWrite payload c = ((n, None), c')"
  shows "n = length payload"
    and "\<exists>bs. w_out (sc_w c') = w_out (sc_w c) @ bs \<and>
      (\<forall>d rest m. sc_in d = bs @ rest \<longrightarrow> framedRead m d =
         ((take m payload, if length payload > m then Some ErrShortBuffer else None), d\<lparr>sc_in := rest\<rparr>))"
proof -
  from assms obtain w where w: "WriteDatagram (sc_w c) payload = (None, w)" "c' = c\<lparr>sc_w := w\<rparr>" "n = length payload"
    by (auto simp: framedWrite_def split: prod.splits option.splits)
  show "n = length payload" by (rule w(3))
  from w(1) obtain w1 where d: "payload \<noteq> []" "length payload \<le> MaxDatagramSize"
    "writeAll (sc_w c) (put_u16 (word_of_nat (length payload))) = (None, w1)" "writeAll w1 payload = (None, w)"
    by (auto simp: WriteDatagram_def split: if_splits prod.splits option.splits)
  let ?bs = "put_u16 (word_of_nat (length payload)) @ payload"
  have "w_out w = w_out (sc_w c) @ ?bs" using writeAll_None [OF d(3)] writeAll_None [OF d(4)] by simp
  moreover have "DatagramBytes payload = Inr ?bs" using d(1,2) by (simp add: DatagramBytes_def)
  then have "ReadDatagram (?bs @ rest) = Inr (payload, rest)" for rest using dgram.round [of payload ?bs rest] by simp
  ultimately show "\<exists>bs. w_out (sc_w c') = w_out (sc_w c) @ bs \<and>
      (\<forall>d rest m. sc_in d = bs @ rest \<longrightarrow> framedRead m d =
         ((take m payload, if length payload > m then Some ErrShortBuffer else None), d\<lparr>sc_in := rest\<rparr>))"
    using w(2) by (intro exI [of _ ?bs]) (simp add: framedRead_def)
qed

definition ex_bridge :: bridgeServer where
  "ex_bridge = newBridge ''127.0.0.1:9'' ex_token"

definition ex_gconn :: sconn where
  "ex_gconn = \<lparr>sc_w = \<lparr>w_out = [], w_sched = []\<rparr>, sc_in = [StatusOK, 42], sc_open = True\<rparr>"

definition ex_dest :: AddrSpec where
  "ex_dest = \<lparr>as_FQDN = ''db'', as_IP = None, as_Port = 80\<rparr>"



end
