(* ===== verification/Mirror.thy ===== *)
theory Mirror
  imports Tunnel "HOL-Library.Sublist"
begin

text \<open>
  Mirroring: \<^verbatim>\<open>shadowWriter\<close>, \<^verbatim>\<open>mirrorTCP\<close> and \<^verbatim>\<open>mirrorUDP\<close> of \<^verbatim>\<open>internal/intercept/mirror.go\<close>.

  Every payload of the client (a chunk of \<^verbatim>\<open>io.Copy\<close>, or a datagram) is handed to the shadow writer and then
  written to the primary. The shadow writer has a queue of sixteen payloads and a goroutine that writes
  them to the local copy. The goroutine of the client and that of the shadow interleave freely, the
  writes of the local connection may fail at any time after any part of a payload, and the connection may
  be torn down at any time.
\<close>

section \<open>The shadow writer\<close>

definition mirrorShadowQueueSize :: nat where
  "mirrorShadowQueueSize = 16"

text \<open>Where the goroutine \<^verbatim>\<open>run\<close> is: waiting, with a payload in hand, past the check, after a failed write, or ended.\<close>

datatype runState = Waiting | Got "byte list" | Checked "byte list" | Failed | Ended

text \<open>
  \<open>sw_out\<close> is what the local connection has taken; \<open>sw_offered\<close> and \<open>sw_accepted\<close> record all payloads given to
  \<^verbatim>\<open>Write\<close> and those that entered the queue.
\<close>

record shadowWriter =
  sw_queue :: "byte list list"
  sw_aborted :: bool
  sw_closed :: bool
  sw_connOpen :: bool
  sw_run :: runState
  sw_out :: "byte list"
  sw_offered :: "byte list list"
  sw_accepted :: "byte list list"

definition newShadowWriter :: shadowWriter where
  "newShadowWriter = \<lparr>sw_queue = [], sw_aborted = False, sw_closed = False, sw_connOpen = True, sw_run = Waiting, sw_out = [],
     sw_offered = [], sw_accepted = []\<rparr>"

text \<open>\<^verbatim>\<open>Write\<close>, under its lock: it never waits, and it always reports success.\<close>

definition shadowWrite :: "byte list \<Rightarrow> shadowWriter \<Rightarrow> (nat \<times> goerr option) \<times> shadowWriter" where
  "shadowWrite payload w =
     (let w1 = w\<lparr>sw_offered := sw_offered w @ [payload]\<rparr>
      in ((length payload, None),
          if sw_aborted w \<or> sw_closed w then w1
          else if length (sw_queue w) < mirrorShadowQueueSize
          then w1\<lparr>sw_queue := sw_queue w @ [payload], sw_accepted := sw_accepted w @ [payload]\<rparr>
          else w1\<lparr>sw_aborted := True, sw_connOpen := False\<rparr>))"

text \<open>The first half of \<^verbatim>\<open>Close\<close>; the second closes the connection after a while.\<close>

definition shadowClose :: "shadowWriter \<Rightarrow> shadowWriter" where
  "shadowClose w = w\<lparr>sw_closed := True\<rparr>"

inductive shadowRun :: "shadowWriter \<Rightarrow> shadowWriter \<Rightarrow> bool" where
  take_one: "sw_run w = Waiting \<Longrightarrow> sw_queue w = p # q \<Longrightarrow> shadowRun w (w\<lparr>sw_run := Got p, sw_queue := q\<rparr>)"
| skip: "sw_run w = Got p \<Longrightarrow> sw_aborted w \<Longrightarrow> shadowRun w (w\<lparr>sw_run := Waiting\<rparr>)"
| check: "sw_run w = Got p \<Longrightarrow> \<not> sw_aborted w \<Longrightarrow> shadowRun w (w\<lparr>sw_run := Checked p\<rparr>)"
| written: "sw_run w = Checked p \<Longrightarrow> sw_connOpen w \<Longrightarrow> shadowRun w (w\<lparr>sw_run := Waiting, sw_out := sw_out w @ p\<rparr>)"
| fails: "sw_run w = Checked p \<Longrightarrow> prefix part p \<Longrightarrow> part = [] \<or> sw_connOpen w \<Longrightarrow>
    shadowRun w (w\<lparr>sw_run := Failed, sw_out := sw_out w @ part\<rparr>)"
| abort: "sw_run w = Failed \<Longrightarrow> shadowRun w (w\<lparr>sw_run := Waiting, sw_aborted := True, sw_connOpen := False\<rparr>)"
| drained: "sw_run w = Waiting \<Longrightarrow> sw_queue w = [] \<Longrightarrow> sw_closed w \<Longrightarrow> shadowRun w (w\<lparr>sw_run := Ended\<rparr>)"
| hang_up: "sw_closed w \<Longrightarrow> sw_connOpen w \<Longrightarrow> shadowRun w (w\<lparr>sw_connOpen := False\<rparr>)"

section \<open>The client's goroutine\<close>

datatype clientState = Reading | Teeing "byte list" | Forwarding "byte list" | Stopped

text \<open>
  \<open>mi_in\<close> is what the client will still send, \<open>mi_primary\<close> what the primary has been sent. Without a local copy
  there is no shadow.
\<close>

record mirror =
  mi_in :: "byte list list"
  mi_client :: clientState
  mi_primary :: "byte list list"
  mi_shadow :: "shadowWriter option"

definition newMirror :: "byte list list \<Rightarrow> bool \<Rightarrow> mirror" where
  "newMirror payloads hasLocal = \<lparr>mi_in = payloads, mi_client = Reading, mi_primary = [],
     mi_shadow = (if hasLocal then Some newShadowWriter else None)\<rparr>"

inductive clientStep :: "mirror \<Rightarrow> mirror \<Rightarrow> bool" where
  reads: "mi_client m = Reading \<Longrightarrow> mi_in m = p # ps \<Longrightarrow> clientStep m (m\<lparr>mi_client := Teeing p, mi_in := ps\<rparr>)"
| ends: "mi_client m = Reading \<Longrightarrow> clientStep m (m\<lparr>mi_client := Stopped\<rparr>)"
| tees: "mi_client m = Teeing p \<Longrightarrow>
    clientStep m (m\<lparr>mi_client := Forwarding p, mi_shadow := map_option (\<lambda>w. snd (shadowWrite p w)) (mi_shadow m)\<rparr>)"
| forwards: "mi_client m = Forwarding p \<Longrightarrow> clientStep m (m\<lparr>mi_client := Reading, mi_primary := mi_primary m @ [p]\<rparr>)"
| refused: "mi_client m = Forwarding p \<Longrightarrow> clientStep m (m\<lparr>mi_client := Stopped\<rparr>)"

inductive mirrorStep :: "mirror \<Rightarrow> mirror \<Rightarrow> bool" where
  client: "clientStep m m' \<Longrightarrow> mirrorStep m m'"
| shadow: "mi_shadow m = Some w \<Longrightarrow> shadowRun w w' \<Longrightarrow> mirrorStep m (m\<lparr>mi_shadow := Some w'\<rparr>)"
| teardown: "mi_shadow m = Some w \<Longrightarrow> mirrorStep m (m\<lparr>mi_shadow := Some (shadowClose w)\<rparr>)"

inductive_cases shadowRun_E: "shadowRun w w'"
inductive_cases clientStep_E: "clientStep m m'"
inductive_cases mirrorStep_E: "mirrorStep m m'"

definition mirrored :: "byte list list \<Rightarrow> bool \<Rightarrow> mirror \<Rightarrow> bool" where
  "mirrored payloads hasLocal m \<longleftrightarrow> mirrorStep\<^sup>*\<^sup>* (newMirror payloads hasLocal) m"

section \<open>Invariants\<close>

fun in_hand :: "runState \<Rightarrow> byte list" where
  "in_hand (Got p) = p"
| "in_hand (Checked p) = p"
| "in_hand _ = []"

fun past_check :: "runState \<Rightarrow> byte list" where
  "past_check (Checked p) = p"
| "past_check _ = []"

definition shadow_inv :: "shadowWriter \<Rightarrow> bool" where
  "shadow_inv w \<longleftrightarrow>
     length (sw_queue w) \<le> mirrorShadowQueueSize \<and> prefix (sw_accepted w) (sw_offered w) \<and>
     (\<not> sw_aborted w \<and> \<not> sw_closed w \<longrightarrow> sw_accepted w = sw_offered w) \<and>
     (\<not> sw_aborted w \<and> sw_run w \<noteq> Failed \<longrightarrow> sw_out w @ in_hand (sw_run w) @ concat (sw_queue w) = concat (sw_accepted w)) \<and>
     (sw_run w = Ended \<longrightarrow> sw_closed w \<and> sw_queue w = []) \<and>
     prefix (sw_out w @ past_check (sw_run w)) (concat (sw_accepted w))"

lemma prefix_concat_snoc: "prefix xs (concat ys) \<Longrightarrow> prefix xs (concat (ys @ [y]))"
  by (auto simp: prefix_def)

lemma shadow_inv_new: "shadow_inv newShadowWriter"
  by (simp add: shadow_inv_def newShadowWriter_def)

lemma shadow_inv_write: "shadow_inv w \<Longrightarrow> shadow_inv (snd (shadowWrite p w))"
  unfolding shadow_inv_def shadowWrite_def Let_def by (auto simp: prefix_def)

lemma shadow_inv_close: "shadow_inv w \<Longrightarrow> shadow_inv (shadowClose w)"
  unfolding shadow_inv_def shadowClose_def by (auto simp: prefix_def)

lemma shadow_inv_run: "shadowRun w w' \<Longrightarrow> shadow_inv w \<Longrightarrow> shadow_inv w'"
  by (erule shadowRun_E) (auto simp: shadow_inv_def prefix_def)

fun teed :: "clientState \<Rightarrow> byte list list" where
  "teed (Forwarding p) = [p]"
| "teed _ = []"

fun current :: "clientState \<Rightarrow> byte list list" where
  "current (Teeing p) = [p]"
| "current (Forwarding p) = [p]"
| "current _ = []"

definition mirror_inv :: "byte list list \<Rightarrow> mirror \<Rightarrow> bool" where
  "mirror_inv payloads m \<longleftrightarrow>
     prefix (mi_primary m) payloads \<and> (mi_client m \<noteq> Stopped \<longrightarrow> payloads = mi_primary m @ current (mi_client m) @ mi_in m) \<and>
     (case mi_shadow m of None \<Rightarrow> True | Some w \<Rightarrow>
        shadow_inv w \<and> prefix (sw_offered w) payloads \<and> (mi_client m \<noteq> Stopped \<longrightarrow> sw_offered w = mi_primary m @ teed (mi_client m)))"

lemma shadowWrite_offered: "sw_offered (snd (shadowWrite p w)) = sw_offered w @ [p]"
  by (simp add: shadowWrite_def Let_def)

lemma shadowRun_offered: "shadowRun w w' \<Longrightarrow> sw_offered w' = sw_offered w"
  by (erule shadowRun_E) simp_all

lemma mirror_inv_new: "mirror_inv payloads (newMirror payloads hasLocal)"
  by (auto simp: mirror_inv_def newMirror_def shadow_inv_new) (simp add: newShadowWriter_def)+

lemma mirror_inv_client: "clientStep m m' \<Longrightarrow> mirror_inv payloads m \<Longrightarrow> mirror_inv payloads m'"
  by (erule clientStep_E) (auto simp: mirror_inv_def shadow_inv_write shadowWrite_offered split: option.splits)

lemma mirror_inv_step: "mirrorStep m m' \<Longrightarrow> mirror_inv payloads m \<Longrightarrow> mirror_inv payloads m'"
proof (erule mirrorStep_E)
  assume "clientStep m m'" "mirror_inv payloads m"
  then show "mirror_inv payloads m'" by (rule mirror_inv_client)
next
  fix w w' assume "mirror_inv payloads m" "m' = m\<lparr>mi_shadow := Some w'\<rparr>" "mi_shadow m = Some w" "shadowRun w w'"
  then show "mirror_inv payloads m'" by (auto simp: mirror_inv_def shadowRun_offered intro: shadow_inv_run)
next
  fix w assume "mirror_inv payloads m" "m' = m\<lparr>mi_shadow := Some (shadowClose w)\<rparr>" "mi_shadow m = Some w"
  then show "mirror_inv payloads m'" by (auto simp: mirror_inv_def shadow_inv_close) (simp_all add: shadowClose_def)
qed

lemma mirror_inv_reach: "mirrored payloads hasLocal m \<Longrightarrow> mirror_inv payloads m"
  unfolding mirrored_def
  by (induction rule: rtranclp_induct) (blast intro: mirror_inv_new mirror_inv_step)+

text \<open>What the client and the primary see, and that the shadow has no part in it: a simulation both ways.\<close>

definition alone :: "mirror \<Rightarrow> mirror" where
  "alone m = m\<lparr>mi_shadow := None\<rparr>"

lemma alone_client: "clientStep m m' \<Longrightarrow> clientStep (alone m) (alone m')"
proof (erule clientStep_E)
  fix p ps assume "m' = m\<lparr>mi_client := Teeing p, mi_in := ps\<rparr>" "mi_client m = Reading" "mi_in m = p # ps"
  then show ?thesis using clientStep.reads [of "alone m" p ps] by (cases m) (simp add: alone_def)
next
  assume "m' = m\<lparr>mi_client := Stopped\<rparr>" "mi_client m = Reading"
  then show ?thesis using clientStep.ends [of "alone m"] by (cases m) (simp add: alone_def)
next
  fix p assume "m' = m\<lparr>mi_client := Forwarding p, mi_shadow := map_option (\<lambda>w. snd (shadowWrite p w)) (mi_shadow m)\<rparr>" "mi_client m = Teeing p"
  then show ?thesis using clientStep.tees [of "alone m" p] by (cases m) (simp add: alone_def)
next
  fix p assume "m' = m\<lparr>mi_client := Reading, mi_primary := mi_primary m @ [p]\<rparr>" "mi_client m = Forwarding p"
  then show ?thesis using clientStep.forwards [of "alone m" p] by (cases m) (simp add: alone_def)
next
  fix p assume "m' = m\<lparr>mi_client := Stopped\<rparr>" "mi_client m = Forwarding p"
  then show ?thesis using clientStep.refused [of "alone m" p] by (cases m) (simp add: alone_def)
qed

lemma client_alone: "clientStep (alone m) n \<Longrightarrow> \<exists>m'. clientStep m m' \<and> alone m' = n"
proof (erule clientStep_E)
  fix p ps assume "n = alone m\<lparr>mi_client := Teeing p, mi_in := ps\<rparr>" "mi_client (alone m) = Reading" "mi_in (alone m) = p # ps"
  then show ?thesis using clientStep.reads [of m p ps] by (force simp: alone_def)
next
  assume "n = alone m\<lparr>mi_client := Stopped\<rparr>" "mi_client (alone m) = Reading"
  then show ?thesis using clientStep.ends [of m] by (force simp: alone_def)
next
  fix p assume "n = alone m\<lparr>mi_client := Forwarding p, mi_shadow := map_option (\<lambda>w. snd (shadowWrite p w)) (mi_shadow (alone m))\<rparr>"
    "mi_client (alone m) = Teeing p"
  then show ?thesis using clientStep.tees [of m p] by (force simp: alone_def)
next
  fix p assume "n = alone m\<lparr>mi_client := Reading, mi_primary := mi_primary (alone m) @ [p]\<rparr>" "mi_client (alone m) = Forwarding p"
  then show ?thesis using clientStep.forwards [of m p] by (force simp: alone_def)
next
  fix p assume "n = alone m\<lparr>mi_client := Stopped\<rparr>" "mi_client (alone m) = Forwarding p"
  then show ?thesis using clientStep.refused [of m p] by (force simp: alone_def)
qed

lemma alone_step: "mirrorStep m m' \<Longrightarrow> mirrorStep\<^sup>*\<^sup>* (alone m) (alone m')"
proof (erule mirrorStep_E)
  assume "clientStep m m'"
  then show ?thesis using alone_client mirrorStep.client by blast
qed (simp_all add: alone_def)

lemma alone_new: "alone (newMirror payloads hasLocal) = newMirror payloads False"
  by (simp add: alone_def newMirror_def)

lemma alone_reach: "mirrored payloads hasLocal m \<Longrightarrow> mirrored payloads False (alone m)"
  unfolding mirrored_def
proof (induction rule: rtranclp_induct)
  case base
  then show ?case by (simp add: alone_new)
next
  case (step y z)
  then show ?case using alone_step by (metis rtranclp_trans)
qed

definition ex_mirror :: mirror where
  "ex_mirror = (newMirror [[1], [2]] True)\<lparr>mi_client := Teeing [1], mi_in := [[2]]\<rparr>"

text \<open>
  C10. A local copy never disturbs the primary path. Whatever the shadow does, even if it blocks or fails,
  the client's side is in a state it could be in without any shadow, and it can make every step that it
  could make without; the primary has been sent a prefix of the client's payloads. The local copy has
  received a prefix of the same bytes, in order and without gaps, from a queue of at most sixteen
  payloads; if the writer ended without being aborted it has received everything that was accepted.
\<close>

theorem mirror_shadow_harmless:
  assumes "mirrored payloads hasLocal m"
  shows "mirrored payloads False (alone m) \<and> (\<forall>n. clientStep (alone m) n \<longrightarrow> (\<exists>m'. clientStep m m' \<and> alone m' = n)) \<and>
    prefix (mi_primary m) payloads \<and>
    (case mi_shadow m of None \<Rightarrow> True | Some w \<Rightarrow>
       prefix (sw_out w) (concat payloads) \<and> length (sw_queue w) \<le> mirrorShadowQueueSize \<and>
       (sw_run w = Ended \<and> \<not> sw_aborted w \<longrightarrow> sw_out w = concat (sw_accepted w)))"
proof -
  note inv = mirror_inv_reach [OF assms]
  have "prefix (sw_out w) (concat payloads) \<and> length (sw_queue w) \<le> mirrorShadowQueueSize \<and>
      (sw_run w = Ended \<and> \<not> sw_aborted w \<longrightarrow> sw_out w = concat (sw_accepted w))" if "mi_shadow m = Some w" for w
  proof -
    have s: "shadow_inv w" "prefix (sw_offered w) payloads" using inv that by (auto simp: mirror_inv_def)
    have o: "prefix (sw_out w) (concat (sw_accepted w))" using s(1) by (auto simp: shadow_inv_def intro: append_prefixD)
    have "prefix (sw_accepted w) payloads" using s prefix_order.trans unfolding shadow_inv_def by blast
    then have "prefix (concat (sw_accepted w)) (concat payloads)" by (auto simp: prefix_def)
    then have "prefix (sw_out w) (concat payloads)" using o by (rule prefix_order.trans [rotated])
    moreover have "sw_out w = concat (sw_accepted w)" if "sw_run w = Ended" "\<not> sw_aborted w" using s(1) that by (auto simp: shadow_inv_def)
    ultimately show ?thesis using s(1) by (simp add: shadow_inv_def)
  qed
  moreover have "prefix (mi_primary m) payloads" using inv by (simp add: mirror_inv_def)
  ultimately show ?thesis using alone_reach [OF assms] client_alone by (auto split: option.split)
qed

theorem mirror_shadow_harmless_witness:
  "mirrored [[1], [2]] False (alone ex_mirror) \<and> prefix (mi_primary ex_mirror) [[1], [2]]"
proof -
  have "mirrorStep (newMirror [[1], [2]] True) ex_mirror"
    unfolding ex_mirror_def by (rule mirrorStep.client, rule clientStep.reads) (simp_all add: newMirror_def)
  then have "mirrored [[1], [2]] True ex_mirror" by (simp add: mirrored_def)
  from mirror_shadow_harmless [OF this] show ?thesis by blast
qed

end
