(* ===== verification/Inbound.thy ===== *)
theory Inbound
  imports Manager Bridge Mirror
begin

text \<open>
  Where the traffic of an intercept goes: \<^verbatim>\<open>internal/intercept/traffic.go\<close>, \<^verbatim>\<open>acceptStream\<close> of \<^verbatim>\<open>control.go\<close> and the
  UDP view of a mirror of \<^verbatim>\<open>mirror.go\<close>.

  Dialers are numbers, with \<^term>\<open>None\<close> for a dialer that is not set. The answers of the dialers are arguments.
  The outcome says what is relayed with what; the relays are those of the theories on relays and mirrors.
\<close>

section \<open>Dialing\<close>

record TrafficDialers =
  td_Exchange :: "nat option"
  td_Preview :: "nat option"
  td_MirrorShadow :: "nat option"

record dialEnv =
  de_gateway :: "string \<Rightarrow> sconn res"
  de_dial :: "nat option \<Rightarrow> string \<Rightarrow> string \<Rightarrow> unit res"

definition acceptStream :: "dialEnv \<Rightarrow> string \<Rightarrow> SessionToken \<Rightarrow> u64 \<Rightarrow> (goerr \<times> sconn option) + sconn" where
  "acceptStream env gatewayAddress token streamID =
     (case de_gateway env gatewayAddress of
        Inl e \<Rightarrow> Inl (e, None)
      | Inr c \<Rightarrow>
          (case WriteAccept (sc_w c) streamID token of
             (Some e, w) \<Rightarrow> Inl (e, Some (closeS (c\<lparr>sc_w := w\<rparr>)))
           | (None, w) \<Rightarrow>
               (case ReadStatus (sc_in c) of
                  Inl e \<Rightarrow> Inl (e, Some (closeS (c\<lparr>sc_w := w\<rparr>)))
                | Inr (_, rest) \<Rightarrow> Inr (c\<lparr>sc_w := w, sc_in := rest\<rparr>))))"

definition dialGatewayOpen ::
  "dialEnv \<Rightarrow> string \<Rightarrow> SessionToken \<Rightarrow> byte \<Rightarrow> string \<Rightarrow> u16 \<Rightarrow> (goerr \<times> sconn option) + sconn" where
  "dialGatewayOpen env gatewayAddress token command host port =
     (case de_gateway env gatewayAddress of
        Inl e \<Rightarrow> Inl (Wrapf ''connect gateway: '' e, None)
      | Inr c \<Rightarrow>
          (case WriteOpen (sc_w c) \<lparr>Command = command, Host = host, Port = port\<rparr> token of
             (Some e, w) \<Rightarrow> Inl (e, Some (closeS (c\<lparr>sc_w := w\<rparr>)))
           | (None, w) \<Rightarrow>
               (case ReadStatus (sc_in c) of
                  Inl e \<Rightarrow> Inl (e, Some (closeS (c\<lparr>sc_w := w\<rparr>)))
                | Inr (_, rest) \<Rightarrow> Inr (c\<lparr>sc_w := w, sc_in := rest\<rparr>))))"

text \<open>\<^verbatim>\<open>dialTraffic\<close>: the feature's dialer, or a direct one.\<close>

definition dialTraffic :: "dialEnv \<Rightarrow> nat option \<Rightarrow> string \<Rightarrow> string \<Rightarrow> unit res" where
  "dialTraffic env dialer network address = (case dialer of Some d \<Rightarrow> de_dial env (Some d) network address | None \<Rightarrow> de_dial env None network address)"

definition isLoopbackHost :: "netLib \<Rightarrow> string \<Rightarrow> bool" where
  "isLoopbackHost lib host =
     (if host = ''localhost'' then True else case ParseIP lib host of None \<Rightarrow> False | Some ip \<Rightarrow> IsLoopback ip)"

text \<open>The primary of a mirror: reached by the Gateway, or by a direct dial.\<close>

datatype primaryConn = ByGateway sconn | Directly string string

definition primaryPort :: "string \<Rightarrow> (string \<times> u16) res" where
  "primaryPort primaryAddr =
     (case split_host_port primaryAddr of
        Inl e \<Rightarrow> Inl e
      | Inr (host, portStr) \<Rightarrow>
          (case atoi portStr of
             Inl e \<Rightarrow> Inl (Errorf (''invalid primary port '' @ quote portStr))
           | Inr port \<Rightarrow> if port \<le> 0 \<or> port > 65535 then Inl (Errorf (''invalid primary port '' @ quote portStr))
                         else Inr (host, word_of_int port)))"

definition dialMirrorPrimary ::
  "netLib \<Rightarrow> dialEnv \<Rightarrow> string \<Rightarrow> SessionToken \<Rightarrow> string \<Rightarrow> byte \<Rightarrow> (primaryConn \<times> bool) res" where
  "dialMirrorPrimary lib env gatewayAddress token primaryAddr network =
     (case primaryPort primaryAddr of
        Inl e \<Rightarrow> Inl e
      | Inr (host, port) \<Rightarrow>
          (let command = (if network = NetworkUDP then CommandUDP else CommandTCP);
               name = (if network = NetworkUDP then ''udp'' else ''tcp'');
               direct = (case de_dial env None name primaryAddr of Inl e \<Rightarrow> Inl e | Inr _ \<Rightarrow> Inr (Directly name primaryAddr, False))
           in if gatewayAddress \<noteq> [] \<and> \<not> isLoopbackHost lib host
              then (case dialGatewayOpen env gatewayAddress token command host port of
                      Inr c \<Rightarrow> Inr (ByGateway c, network = NetworkUDP)
                    | Inl _ \<Rightarrow> direct)
              else direct))"

section \<open>Serving\<close>

text \<open>
  What becomes of a connection: nothing is found for it, it is closed, it is relayed through a dialer to
  a local target, or it is mirrored: to the primary, with a local copy if one could be dialed.
\<close>

datatype outcome =
    NotServed
  | ClosedClient
  | Relayed "nat option" string string
  | Mirrored primaryConn bool "(nat option \<times> string) option"

definition localHost :: "PortMapping \<Rightarrow> string" where
  "localHost local = (if pm_LocalHost local = [] then ''127.0.0.1'' else pm_LocalHost local)"

definition localTarget :: "PortMapping \<Rightarrow> string" where
  "localTarget local = join_host_port (localHost local) (itoa_int (pm_LocalPort local))"

definition shadowOf :: "dialEnv \<Rightarrow> nat option \<Rightarrow> string \<Rightarrow> string \<Rightarrow> (nat option \<times> string) option" where
  "shadowOf env dialer network target =
     (case dialTraffic env dialer network target of Inl _ \<Rightarrow> None | Inr _ \<Rightarrow> Some (dialer, target))"

definition serveMirrorTCP :: "netLib \<Rightarrow> dialEnv \<Rightarrow> string \<Rightarrow> SessionToken \<Rightarrow> string \<Rightarrow> PortMapping \<Rightarrow> nat option \<Rightarrow> outcome" where
  "serveMirrorTCP lib env gatewayAddress token primaryAddr local shadowDialer =
     (case dialMirrorPrimary lib env gatewayAddress token primaryAddr NetworkTCP of
        Inl e \<Rightarrow> ClosedClient
      | Inr (primary, _) \<Rightarrow> Mirrored primary False (shadowOf env shadowDialer ''tcp'' (localTarget local)))"

definition serveMirrorUDP :: "netLib \<Rightarrow> dialEnv \<Rightarrow> string \<Rightarrow> SessionToken \<Rightarrow> string \<Rightarrow> PortMapping \<Rightarrow> outcome" where
  "serveMirrorUDP lib env gatewayAddress token primaryAddr local =
     (case dialMirrorPrimary lib env gatewayAddress token primaryAddr NetworkUDP of
        Inl e \<Rightarrow> ClosedClient
      | Inr (primary, framed) \<Rightarrow> Mirrored primary framed (shadowOf env None ''udp'' (localTarget local)))"

definition serveMirror :: "netLib \<Rightarrow> dialEnv \<Rightarrow> string \<Rightarrow> SessionToken \<Rightarrow> byte \<Rightarrow> string \<Rightarrow> PortMapping \<Rightarrow> nat option \<Rightarrow> outcome" where
  "serveMirror lib env gatewayAddress token network primaryAddr local shadowDialer =
     (if primaryAddr = [] then ClosedClient
      else if network = NetworkUDP then serveMirrorUDP lib env gatewayAddress token primaryAddr local
      else serveMirrorTCP lib env gatewayAddress token primaryAddr local shadowDialer)"

definition serveInbound ::
  "netLib \<Rightarrow> dialEnv \<Rightarrow> string \<Rightarrow> SessionToken \<Rightarrow> u64 \<Rightarrow> byte \<Rightarrow> PortMapping \<Rightarrow> string \<Rightarrow> string \<Rightarrow> nat option \<Rightarrow> nat option \<Rightarrow> outcome" where
  "serveInbound lib env gatewayAddress token streamID network local mode primaryAddr localDialer shadowDialer =
     (case acceptStream env gatewayAddress token streamID of
        Inl e \<Rightarrow> NotServed
      | Inr tunnelConn \<Rightarrow>
          if mode = ModeMirror then serveMirror lib env gatewayAddress token network primaryAddr local shadowDialer
          else if network = NetworkUDP
          then (case de_dial env None ''udp'' (localTarget local) of
                  Inl e \<Rightarrow> ClosedClient | Inr _ \<Rightarrow> Relayed None ''udp'' (localTarget local))
          else (case dialTraffic env localDialer ''tcp'' (localTarget local) of
                  Inl e \<Rightarrow> ClosedClient | Inr _ \<Rightarrow> Relayed localDialer ''tcp'' (localTarget local)))"

definition handleReady :: "netLib \<Rightarrow> dialEnv \<Rightarrow> TrafficDialers \<Rightarrow> string \<Rightarrow> byte \<Rightarrow> u64 \<Rightarrow> manager \<Rightarrow> outcome" where
  "handleReady lib env dialers sub network streamID m =
     (case findPort (m_registry m) sub of
        None \<Rightarrow> NotServed
      | Some (local, primaryAddr, mode, preview) \<Rightarrow>
          if m_gatewayAddress m = [] then NotServed
          else serveInbound lib env (m_gatewayAddress m) (m_sessionToken m) streamID network local mode primaryAddr
                 (if preview then td_Preview dialers else td_Exchange dialers) (td_MirrorShadow dialers))"

definition serveHostTCP :: "netLib \<Rightarrow> dialEnv \<Rightarrow> string \<Rightarrow> SessionToken \<Rightarrow> hostRoute \<Rightarrow> TrafficDialers \<Rightarrow> outcome" where
  "serveHostTCP lib env gatewayAddress token route dialers =
     (if hr_mode route = ModeMirror
      then serveMirrorTCP lib env gatewayAddress token (hr_primaryAddr route) (hr_local route) (td_MirrorShadow dialers)
      else (let dialer = (if hr_preview route then td_Preview dialers else td_Exchange dialers)
            in case dialTraffic env dialer ''tcp'' (localTarget (hr_local route)) of
                 Inl e \<Rightarrow> ClosedClient | Inr _ \<Rightarrow> Relayed dialer ''tcp'' (localTarget (hr_local route))))"

definition dialHostMirrorUDP :: "netLib \<Rightarrow> dialEnv \<Rightarrow> string \<Rightarrow> SessionToken \<Rightarrow> string \<Rightarrow> PortMapping \<Rightarrow> outcome res" where
  "dialHostMirrorUDP lib env gatewayAddress token primaryAddr local =
     (if primaryAddr = [] then Inl (Errorf ''mirror primary address is required'')
      else case dialMirrorPrimary lib env gatewayAddress token primaryAddr NetworkUDP of
        Inl e \<Rightarrow> Inl e
      | Inr (primary, framed) \<Rightarrow> Inr (Mirrored primary framed (shadowOf env None ''udp'' (localTarget local))))"

definition dialHostUDP :: "netLib \<Rightarrow> dialEnv \<Rightarrow> string \<Rightarrow> SessionToken \<Rightarrow> hostRoute \<Rightarrow> outcome res" where
  "dialHostUDP lib env gatewayAddress token route =
     (if hr_mode route = ModeMirror
      then dialHostMirrorUDP lib env gatewayAddress token (hr_primaryAddr route) (hr_local route)
      else case de_dial env None ''udp'' (localTarget (hr_local route)) of
        Inl e \<Rightarrow> Inl e | Inr _ \<Rightarrow> Inr (Relayed None ''udp'' (localTarget (hr_local route))))"

text \<open>\<^verbatim>\<open>HostTCP\<close> and \<^verbatim>\<open>HostUDP\<close>, which the bridge asks whether the host claims a destination.\<close>

definition HostTCP :: "netLib \<Rightarrow> dialEnv \<Rightarrow> TrafficDialers \<Rightarrow> string \<Rightarrow> u16 \<Rightarrow> manager \<Rightarrow> outcome option" where
  "HostTCP lib env dialers host port m =
     (case routes_lookup (m_routes m) host port of
        None \<Rightarrow> None
      | Some route \<Rightarrow> Some (serveHostTCP lib env (m_gatewayAddress m) (m_sessionToken m) route dialers))"

definition HostUDP :: "netLib \<Rightarrow> dialEnv \<Rightarrow> string \<Rightarrow> u16 \<Rightarrow> manager \<Rightarrow> outcome res option" where
  "HostUDP lib env host port m =
     (case routes_lookup (m_routes m) host port of
        None \<Rightarrow> None
      | Some route \<Rightarrow> Some (dialHostUDP lib env (m_gatewayAddress m) (m_sessionToken m) route))"

section \<open>The UDP view of a mirror\<close>

definition writeMirrorUDP :: "bool \<Rightarrow> byte list \<Rightarrow> sconn \<Rightarrow> goerr option \<times> sconn" where
  "writeMirrorUDP framed payload c =
     (if framed then (case WriteDatagram (sc_w c) payload of (e, w) \<Rightarrow> (e, c\<lparr>sc_w := w\<rparr>))
      else (case w_write (sc_w c) payload of ((n, e), w) \<Rightarrow> (e, c\<lparr>sc_w := w\<rparr>)))"

record hostMirrorUDPConn =
  hm_primary :: sconn
  hm_primaryFramed :: bool
  hm_shadow :: "shadowWriter option"
  hm_closed :: bool

definition newHostMirrorUDPConn :: "sconn \<Rightarrow> bool \<Rightarrow> bool \<Rightarrow> hostMirrorUDPConn" where
  "newHostMirrorUDPConn primary framed hasLocal =
     \<lparr>hm_primary = primary, hm_primaryFramed = framed, hm_shadow = (if hasLocal then Some newShadowWriter else None), hm_closed = False\<rparr>"

text \<open>\<open>raw\<close> is the answer of a plain read of the primary.\<close>

definition hostMirrorRead :: "nat \<Rightarrow> byte list \<times> goerr option \<Rightarrow> hostMirrorUDPConn \<Rightarrow> (byte list \<times> goerr option) \<times> hostMirrorUDPConn" where
  "hostMirrorRead n raw c =
     (if hm_primaryFramed c
      then (case ReadDatagram (sc_in (hm_primary c)) of
              Inl e \<Rightarrow> (([], Some e), c)
            | Inr (payload, rest) \<Rightarrow>
                ((take n payload, if n < length payload then Some ErrShortBuffer else None), c\<lparr>hm_primary := (hm_primary c)\<lparr>sc_in := rest\<rparr>\<rparr>))
      else (raw, c))"

definition hostMirrorWrite :: "byte list \<Rightarrow> hostMirrorUDPConn \<Rightarrow> (nat \<times> goerr option) \<times> hostMirrorUDPConn" where
  "hostMirrorWrite payload c =
     (let c1 = c\<lparr>hm_shadow := map_option (\<lambda>w. snd (shadowWrite payload w)) (hm_shadow c)\<rparr>
      in case writeMirrorUDP (hm_primaryFramed c) payload (hm_primary c) of
           (Some e, p) \<Rightarrow> ((0, Some e), c1\<lparr>hm_primary := p\<rparr>)
         | (None, p) \<Rightarrow> ((length payload, None), c1\<lparr>hm_primary := p\<rparr>))"

definition hostMirrorClose :: "hostMirrorUDPConn \<Rightarrow> hostMirrorUDPConn" where
  "hostMirrorClose c =
     (if hm_closed c then c
      else c\<lparr>hm_closed := True, hm_shadow := map_option shadowClose (hm_shadow c), hm_primary := closeS (hm_primary c)\<rparr>)"

section \<open>Traffic reaches its own mapping\<close>

lemma dialGatewayOpen_asks:
  assumes "dialGatewayOpen env gw token command host port = Inr c" and "token_ok token"
  shows "\<exists>c0 bs. de_gateway env gw = Inr c0 \<and> w_out (sc_w c) = w_out (sc_w c0) @ bs \<and>
    ReadOpenFrame bs = Inr ((token, \<lparr>Command = command, Host = host, Port = port\<rparr>), [])"
proof -
  have "dialGatewayOpen env gw token command host port = openGateway (de_gateway env) (newBridge gw token) command host port"
    unfolding dialGatewayOpen_def openGateway_def newBridge_def bridgeServer.simps by (rule refl)
  then show ?thesis using openGateway_read [of "de_gateway env" "newBridge gw token" command host port c] assms by (simp add: newBridge_def)
qed

lemma acceptStream_claims:
  assumes "acceptStream env gw token streamID = Inr c" and "token_ok token"
  shows "\<exists>c0 bs. de_gateway env gw = Inr c0 \<and> w_out (sc_w c) = w_out (sc_w c0) @ bs \<and> AcceptBytes streamID token = Inr bs"
proof -
  from assms(1) obtain c0 w where c: "de_gateway env gw = Inr c0" "WriteAccept (sc_w c0) streamID token = (None, w)" "sc_w c = w"
    by (auto simp: acceptStream_def split: sum.splits prod.splits option.splits)
  then obtain bs where "AcceptBytes streamID token = Inr bs" "writeAll (sc_w c0) bs = (None, w)"
    by (auto simp: WriteAccept_def send_res_def split: sum.splits)
  then show ?thesis using c writeAll_None by blast
qed

text \<open>The primary that a mirror's answers come from.\<close>

definition leads_to :: "dialEnv \<Rightarrow> string \<Rightarrow> SessionToken \<Rightarrow> byte \<Rightarrow> string \<Rightarrow> primaryConn \<Rightarrow> bool" where
  "leads_to env gw token network primaryAddr p \<longleftrightarrow>
     (case p of
        Directly n a \<Rightarrow> a = primaryAddr
      | ByGateway c \<Rightarrow> \<exists>host port c0 bs. primaryPort primaryAddr = Inr (host, port) \<and> de_gateway env gw = Inr c0 \<and>
          w_out (sc_w c) = w_out (sc_w c0) @ bs \<and>
          ReadOpenFrame bs = Inr ((token, \<lparr>Command = (if network = NetworkUDP then CommandUDP else CommandTCP), Host = host, Port = port\<rparr>), []))"

lemma dialMirrorPrimary_leads:
  assumes "dialMirrorPrimary lib env gw token primaryAddr network = Inr (p, framed)" and "token_ok token"
  shows "leads_to env gw token network primaryAddr p"
proof -
  from assms(1) obtain host port where hp: "primaryPort primaryAddr = Inr (host, port)"
    by (cases "primaryPort primaryAddr") (auto simp: dialMirrorPrimary_def)
  let ?command = "if network = NetworkUDP then CommandUDP else CommandTCP"
  from assms(1) hp consider (direct) n where "p = Directly n primaryAddr" | (gateway) c where "p = ByGateway c" "dialGatewayOpen env gw token ?command host port = Inr c"
    by (auto simp: dialMirrorPrimary_def Let_def split: sum.splits if_splits)
  then show ?thesis
  proof cases
    case direct
    then show ?thesis by (simp add: leads_to_def)
  next
    case gateway
    from dialGatewayOpen_asks [OF gateway(2) assms(2)] hp show ?thesis unfolding leads_to_def gateway(1) primaryConn.case by blast
  qed
qed

lemma serveMirror_outcome:
  assumes "token_ok token"
  shows "serveMirror lib env gw token network primaryAddr local shadowDialer = ClosedClient \<or>
    (\<exists>p framed sh. serveMirror lib env gw token network primaryAddr local shadowDialer = Mirrored p framed sh \<and>
       leads_to env gw token network primaryAddr p \<and> framed = (network = NetworkUDP \<and> (\<exists>c. p = ByGateway c)) \<and>
       (sh = None \<or> sh = Some (if network = NetworkUDP then None else shadowDialer, localTarget local)))"
proof (cases "network = NetworkUDP")
  case True
  show ?thesis
  proof (cases "dialMirrorPrimary lib env gw token primaryAddr NetworkUDP")
    case (Inr x)
    then obtain p framed where x: "dialMirrorPrimary lib env gw token primaryAddr NetworkUDP = Inr (p, framed)" by (cases x) auto
    have "framed = (\<exists>c. p = ByGateway c)" using x by (auto simp: dialMirrorPrimary_def Let_def split: sum.splits if_splits)
    then show ?thesis using x True dialMirrorPrimary_leads [OF x assms]
      by (auto simp: serveMirror_def serveMirrorUDP_def shadowOf_def split: sum.split)
  qed (use True in \<open>simp add: serveMirror_def serveMirrorUDP_def\<close>)
next
  case False
  show ?thesis
  proof (cases "dialMirrorPrimary lib env gw token primaryAddr NetworkTCP")
    case (Inr x)
    then obtain p framed where x: "dialMirrorPrimary lib env gw token primaryAddr NetworkTCP = Inr (p, framed)" by (cases x) auto
    have "leads_to env gw token network primaryAddr p" using dialMirrorPrimary_leads [OF x assms] False by (cases p) (simp_all add: leads_to_def)
    then show ?thesis using x False by (auto simp: serveMirror_def serveMirrorTCP_def shadowOf_def split: sum.split)
  qed (use False in \<open>simp add: serveMirror_def serveMirrorTCP_def\<close>)
qed

text \<open>
  C11. A stream that the Gateway announces for a registered port is served by the mapping of that port. It is
  left alone only when the Gateway does not hand it over; otherwise it is closed, or relayed to the local
  target of the mapping, or, for a mirror only, to the original backend that was recorded for the port,
  with the local target as a copy.
\<close>

theorem inbound_goes_home:
  assumes "findPort (m_registry m) sub = Some (local, primaryAddr, mode, preview)" and "m_gatewayAddress m \<noteq> []" and "token_ok (m_sessionToken m)"
  shows "case handleReady lib env dialers sub network streamID m of
      NotServed \<Rightarrow> isl (acceptStream env (m_gatewayAddress m) (m_sessionToken m) streamID)
    | ClosedClient \<Rightarrow> True
    | Relayed d n target \<Rightarrow> mode \<noteq> ModeMirror \<and> target = localTarget local \<and>
        (n, d) = (if network = NetworkUDP then (''udp'', None) else (''tcp'', if preview then td_Preview dialers else td_Exchange dialers))
    | Mirrored p framed sh \<Rightarrow> mode = ModeMirror \<and> leads_to env (m_gatewayAddress m) (m_sessionToken m) network primaryAddr p \<and>
        (sh = None \<or> sh = Some (if network = NetworkUDP then None else td_MirrorShadow dialers, localTarget local))"
proof (cases "acceptStream env (m_gatewayAddress m) (m_sessionToken m) streamID")
  case (Inl f)
  then show ?thesis using assms by (simp add: handleReady_def serveInbound_def)
next
  case (Inr c)
  let ?sm = "serveMirror lib env (m_gatewayAddress m) (m_sessionToken m) network primaryAddr local (td_MirrorShadow dialers)"
  show ?thesis
  proof (cases "mode = ModeMirror")
    case True
    then have "handleReady lib env dialers sub network streamID m = ?sm" using assms(1,2) Inr by (simp add: handleReady_def serveInbound_def)
    then show ?thesis using serveMirror_outcome [OF assms(3), of lib env "m_gatewayAddress m" network primaryAddr local "td_MirrorShadow dialers"] True
      by (auto split: if_splits)
  next
    case False
    then show ?thesis using assms(1,2) Inr by (auto simp: handleReady_def serveInbound_def split: sum.split)
  qed
qed

definition ex_denv :: dialEnv where
  "ex_denv = \<lparr>de_gateway = (\<lambda>_. Inr ex_gconn), de_dial = (\<lambda>_ _ _. Inr ())\<rparr>"

definition ex_imanager :: manager where
  "ex_imanager = NewManager\<lparr>m_registry := rg (ex_running_on ex_port), m_gatewayAddress := ''g'', m_sessionToken := ex_token\<rparr>"

theorem inbound_goes_home_witness:
  "case handleReady ex_net ex_denv \<lparr>td_Exchange = Some 1, td_Preview = Some 2, td_MirrorShadow = Some 3\<rparr> (port_subID ''shop/api'' ex_port) NetworkTCP 7 ex_imanager of
      Relayed d n target \<Rightarrow> target = localTarget ex_mapping \<and> d = Some 1
    | NotServed \<Rightarrow> False | ClosedClient \<Rightarrow> False | Mirrored p framed sh \<Rightarrow> False"
proof -
  let ?d = "\<lparr>td_Exchange = Some 1, td_Preview = Some 2, td_MirrorShadow = Some 3\<rparr> :: TrafficDialers"
  have f: "findPort (m_registry ex_imanager) (port_subID ''shop/api'' ex_port) = Some (ex_mapping, [], ModeExchange, False)"
    using findPort_owner_witness by (simp add: ex_imanager_def)
  have g: "m_gatewayAddress ex_imanager \<noteq> []" "token_ok (m_sessionToken ex_imanager)"
    by (simp_all add: ex_imanager_def token_ok_def ex_token_def zero_token_def)
  have "\<not> isl (acceptStream ex_denv ''g'' ex_token 7)" by code_simp
  then have a: "\<exists>c. acceptStream ex_denv (m_gatewayAddress ex_imanager) (m_sessionToken ex_imanager) 7 = Inr c"
    by (cases "acceptStream ex_denv ''g'' ex_token 7") (simp_all add: ex_imanager_def)
  have "\<exists>d n t. handleReady ex_net ex_denv ?d (port_subID ''shop/api'' ex_port) NetworkTCP 7 ex_imanager = Relayed d n t"
    using f g a by (auto simp: handleReady_def serveInbound_def dialTraffic_def ex_denv_def)
  then obtain d n t where "handleReady ex_net ex_denv ?d (port_subID ''shop/api'' ex_port) NetworkTCP 7 ex_imanager = Relayed d n t" by blast
  with inbound_goes_home [OF f g, where lib = ex_net and env = ex_denv and dialers = ?d and network = NetworkTCP and streamID = 7]
  show ?thesis by simp
qed

text \<open>
  The same for a connection of the host: the bridge hands it to the mapping whose route was installed for
  its host and port, and a preview or an exchange is never sent through the Gateway.
\<close>

lemma host_goes_home:
  assumes "HostTCP lib env dialers host port m = Some out" and "token_ok (m_sessionToken m)"
  shows "\<exists>route. routes_lookup (m_routes m) host port = Some route \<and>
    (out = ClosedClient \<or>
     (hr_mode route \<noteq> ModeMirror \<and> out = Relayed (if hr_preview route then td_Preview dialers else td_Exchange dialers) ''tcp'' (localTarget (hr_local route))) \<or>
     (hr_mode route = ModeMirror \<and> (\<exists>p framed sh. out = Mirrored p framed sh \<and>
        leads_to env (m_gatewayAddress m) (m_sessionToken m) NetworkTCP (hr_primaryAddr route) p)))"
proof -
  from assms(1) obtain route where r: "routes_lookup (m_routes m) host port = Some route"
    "out = serveHostTCP lib env (m_gatewayAddress m) (m_sessionToken m) route dialers" by (auto simp: HostTCP_def split: option.splits)
  show ?thesis
  proof (cases "hr_mode route = ModeMirror")
    case True
    then show ?thesis using r dialMirrorPrimary_leads [OF _ assms(2)]
      by (auto simp: serveHostTCP_def serveMirrorTCP_def split: sum.splits prod.splits)
  next
    case False
    then show ?thesis using r by (auto simp: serveHostTCP_def Let_def split: sum.splits)
  qed
qed

end
