(* ===== verification/Relay.thy ===== *)
theory Relay
  imports Tunnel "HOL-Library.Sublist"
begin

text \<open>
  The relay of a TCP connection, as \<^verbatim>\<open>relayTCP\<close> of \<^verbatim>\<open>internal/gateway/server.go\<close>; the same code is
  \<^verbatim>\<open>relayTCP\<close> of \<^verbatim>\<open>internal/intercept/control.go\<close>, \<^verbatim>\<open>relay\<close> of \<^verbatim>\<open>internal/socksbridge/server.go\<close> and the end of
  \<^verbatim>\<open>forward\<close> of \<^verbatim>\<open>internal/portfwd/routed_tcp.go\<close>.

  Two goroutines copy, one in each direction; the relay returns when the first of them is done, and the
  caller then closes the connection. Each side is the list of chunks that its peer will still send before
  it closes its direction. The steps of the goroutines interleave freely. The network itself loses nothing
  here: only what the relay does is at stake.
\<close>

section \<open>The relay as a step relation\<close>

record relay =
  rl_left :: "byte list list"
  rl_right :: "byte list list"
  rl_toLeft :: "byte list"
  rl_toRight :: "byte list"
  rl_finLeft :: bool
  rl_finRight :: bool
  rl_doneLR :: bool
  rl_doneRL :: bool
  rl_returned :: bool
  rl_closed :: bool

definition newRelay :: "byte list list \<Rightarrow> byte list list \<Rightarrow> relay" where
  "newRelay l r = \<lparr>rl_left = l, rl_right = r, rl_toLeft = [], rl_toRight = [], rl_finLeft = False, rl_finRight = False,
     rl_doneLR = False, rl_doneRL = False, rl_returned = False, rl_closed = False\<rparr>"

text \<open>
  \<open>copyLR\<close> and \<open>endLR\<close> are the goroutine that copies from left to right: one chunk of \<^verbatim>\<open>io.Copy\<close>, and its end
  with \<^verbatim>\<open>CloseWrite\<close> and the message on \<^verbatim>\<open>done\<close>; \<open>stopLR\<close> is its failure on a connection that is closed.
\<close>

inductive relayTCP :: "relay \<Rightarrow> relay \<Rightarrow> bool" where
  copyLR: "\<not> rl_closed s \<Longrightarrow> \<not> rl_doneLR s \<Longrightarrow> rl_left s = c # cs \<Longrightarrow> relayTCP s (s\<lparr>rl_left := cs, rl_toRight := rl_toRight s @ c\<rparr>)"
| endLR: "\<not> rl_closed s \<Longrightarrow> \<not> rl_doneLR s \<Longrightarrow> rl_left s = [] \<Longrightarrow> relayTCP s (s\<lparr>rl_finRight := True, rl_doneLR := True\<rparr>)"
| stopLR: "rl_closed s \<Longrightarrow> \<not> rl_doneLR s \<Longrightarrow> relayTCP s (s\<lparr>rl_doneLR := True\<rparr>)"
| copyRL: "\<not> rl_closed s \<Longrightarrow> \<not> rl_doneRL s \<Longrightarrow> rl_right s = c # cs \<Longrightarrow> relayTCP s (s\<lparr>rl_right := cs, rl_toLeft := rl_toLeft s @ c\<rparr>)"
| endRL: "\<not> rl_closed s \<Longrightarrow> \<not> rl_doneRL s \<Longrightarrow> rl_right s = [] \<Longrightarrow> relayTCP s (s\<lparr>rl_finLeft := True, rl_doneRL := True\<rparr>)"
| stopRL: "rl_closed s \<Longrightarrow> \<not> rl_doneRL s \<Longrightarrow> relayTCP s (s\<lparr>rl_doneRL := True\<rparr>)"
| returns: "rl_doneLR s \<or> rl_doneRL s \<Longrightarrow> \<not> rl_returned s \<Longrightarrow> relayTCP s (s\<lparr>rl_returned := True\<rparr>)"
| closes: "rl_returned s \<Longrightarrow> \<not> rl_closed s \<Longrightarrow> relayTCP s (s\<lparr>rl_closed := True\<rparr>)"

inductive_cases relayTCP_E: "relayTCP s s'"

definition relayed :: "byte list list \<Rightarrow> byte list list \<Rightarrow> relay \<Rightarrow> bool" where
  "relayed l r s \<longleftrightarrow> relayTCP\<^sup>*\<^sup>* (newRelay l r) s"

definition relay_inv :: "byte list list \<Rightarrow> byte list list \<Rightarrow> relay \<Rightarrow> bool" where
  "relay_inv l r s \<longleftrightarrow>
     concat l = rl_toRight s @ concat (rl_left s) \<and> concat r = rl_toLeft s @ concat (rl_right s) \<and>
     (rl_finRight s \<longrightarrow> rl_left s = []) \<and> (rl_finLeft s \<longrightarrow> rl_right s = []) \<and>
     (rl_doneLR s \<longrightarrow> rl_finRight s \<or> rl_closed s) \<and> (rl_doneRL s \<longrightarrow> rl_finLeft s \<or> rl_closed s) \<and>
     (rl_returned s \<longrightarrow> rl_finRight s \<or> rl_finLeft s) \<and> (rl_closed s \<longrightarrow> rl_returned s)"

lemma relay_inv_step: "relayTCP s s' \<Longrightarrow> relay_inv l r s \<Longrightarrow> relay_inv l r s'"
  by (erule relayTCP_E) (auto simp: relay_inv_def)

lemma relay_inv_reach: "relayed l r s \<Longrightarrow> relay_inv l r s"
  unfolding relayed_def
proof (induction rule: rtranclp_induct)
  case base
  then show ?case by (simp add: relay_inv_def newRelay_def)
next
  case (step y z)
  then show ?case by (blast intro: relay_inv_step)
qed

text \<open>The steps that are left: every run ends.\<close>

definition relay_todo :: "relay \<Rightarrow> nat" where
  "relay_todo s = length (rl_left s) + length (rl_right s) + (if rl_doneLR s then 0 else 1) + (if rl_doneRL s then 0 else 1)
     + (if rl_returned s then 0 else 1) + (if rl_closed s then 0 else 1)"

lemma relay_todo_step: "relayTCP s s' \<Longrightarrow> relay_todo s' < relay_todo s"
  by (erule relayTCP_E) (auto simp: relay_todo_def)

lemma relay_stuck:
  assumes "relay_inv l r s" and "\<And>s'. \<not> relayTCP s s'"
  shows "rl_closed s \<and> rl_doneLR s \<and> rl_doneRL s"
proof -
  have lr: "rl_doneLR s" using assms(2) relayTCP.copyLR relayTCP.endLR relayTCP.stopLR by (metis neq_Nil_conv)
  have rl: "rl_doneRL s" using assms(2) relayTCP.copyRL relayTCP.endRL relayTCP.stopRL by (metis neq_Nil_conv)
  have "rl_returned s" using assms(2) lr relayTCP.returns by blast
  then have "rl_closed s" using assms(2) relayTCP.closes by blast
  then show ?thesis using lr rl by blast
qed



lemma relay_copies: "relayTCP\<^sup>*\<^sup>* ((newRelay l r)\<lparr>rl_toRight := t\<rparr>) ((newRelay [] r)\<lparr>rl_toRight := t @ concat l\<rparr>)"
proof (induction l arbitrary: t)
  case (Cons c l)
  have "relayTCP ((newRelay (c # l) r)\<lparr>rl_toRight := t\<rparr>) ((newRelay l r)\<lparr>rl_toRight := t @ c\<rparr>)"
    using relayTCP.copyLR [of "(newRelay (c # l) r)\<lparr>rl_toRight := t\<rparr>" c l] by (simp add: newRelay_def)
  from converse_rtranclp_into_rtranclp [of relayTCP, OF this Cons [of "t @ c"]] show ?case by simp
qed simp

text \<open>
  C14. A half-closed connection loses its answer. When the left side has sent everything and closed its
  direction, the relay may return, and the connection be closed, before anything that the right side
  answers has been passed on.
\<close>

theorem relay_loses_answer:
  "\<exists>s. relayed l r s \<and> rl_closed s \<and> rl_doneLR s \<and> rl_doneRL s \<and> rl_toRight s = concat l \<and> rl_finRight s \<and> rl_toLeft s = [] \<and> rl_right s = r"
proof -
  let ?s0 = "(newRelay [] r)\<lparr>rl_toRight := concat l\<rparr>"
  let ?s1 = "?s0\<lparr>rl_finRight := True, rl_doneLR := True\<rparr>"
  let ?s2 = "?s1\<lparr>rl_returned := True\<rparr>"
  let ?s3 = "?s2\<lparr>rl_closed := True\<rparr>"
  let ?s4 = "?s3\<lparr>rl_doneRL := True\<rparr>"
  have "relayTCP\<^sup>*\<^sup>* (newRelay l r) ?s0" using relay_copies [where l = l and r = r and t = "[]"] by (simp add: newRelay_def)
  moreover have "relayTCP ?s0 ?s1" by (rule relayTCP.endLR) (simp_all add: newRelay_def)
  moreover have "relayTCP ?s1 ?s2" by (rule relayTCP.returns) (simp_all add: newRelay_def)
  moreover have "relayTCP ?s2 ?s3" by (rule relayTCP.closes) (simp_all add: newRelay_def)
  moreover have "relayTCP ?s3 ?s4" by (rule relayTCP.stopRL) (simp_all add: newRelay_def)
  ultimately have "relayed l r ?s4" unfolding relayed_def by (meson rtranclp.rtrancl_into_rtrancl)
  then show ?thesis by (intro exI [of _ ?s4]) (simp add: newRelay_def)
qed

end
