(* ===== verification/Tracker.thy ===== *)
theory Tracker
  imports Netip
begin

text \<open>
  The tracker of feature traffic: \<^verbatim>\<open>internal/traffic/tracker.go\<close>.

  The map of connections is an association list, in one of the orders in which Go may range over it. The
  counters are 64-bit. Times are nanoseconds; \<^term>\<open>None\<close> is the zero time. A connection is its identifier:
  its entry is found under it as long as the map has it, and an entry that was dropped from the map is
  never read again.
\<close>

section \<open>The tracker\<close>

definition trackerRetainFor :: int where
  "trackerRetainFor = 30000000000"

record tracked =
  tk_feature :: string
  tk_network :: string
  tk_source :: string
  tk_sourcePort :: string
  tk_destination :: string
  tk_startedAt :: int
  tk_closedAt :: "int option"
  tk_upload :: "64 word"
  tk_download :: "64 word"

record LiveConn =
  lc_ID :: string
  lc_Feature :: string
  lc_Network :: string
  lc_Source :: string
  lc_Destination :: string
  lc_StartedAt :: int
  lc_Upload :: "64 word"
  lc_Download :: "64 word"
  lc_Closed :: bool

type_synonym tracker = "(string, tracked) kv"

text \<open>
  \<^verbatim>\<open>TrackedDialer.DialContext\<close>: without tracker or feature the inner dialer's answer is passed on; otherwise
  a connection is entered under a new identifier, with the port of its local address. \<open>inner\<close> is the
  answer of the inner dialer: an error, or the local address, if there is one.
\<close>

definition newEntry :: "string \<Rightarrow> string \<Rightarrow> string option \<Rightarrow> string \<Rightarrow> int \<Rightarrow> tracked" where
  "newEntry feature network localAddr address now =
     (let source = (case localAddr of None \<Rightarrow> [] | Some s \<Rightarrow> s)
      in \<lparr>tk_feature = feature, tk_network = network, tk_source = source,
          tk_sourcePort = (case split_host_port source of Inl _ \<Rightarrow> [] | Inr (_, port) \<Rightarrow> if localAddr = None then [] else port),
          tk_destination = address, tk_startedAt = now, tk_closedAt = None, tk_upload = 0, tk_download = 0\<rparr>)"

definition TrackedDial ::
  "string \<Rightarrow> string \<Rightarrow> string \<Rightarrow> string \<Rightarrow> int \<Rightarrow> string option res \<Rightarrow> tracker option \<Rightarrow> string option res \<times> tracker option" where
  "TrackedDial feature cid network address now inner t =
     (case t of
        None \<Rightarrow> (case inner of Inl e \<Rightarrow> Inl e | Inr _ \<Rightarrow> Inr None, t)
      | Some m \<Rightarrow>
          if feature = [] then (case inner of Inl e \<Rightarrow> Inl e | Inr _ \<Rightarrow> Inr None, t)
          else (case inner of
                  Inl e \<Rightarrow> (Inl e, t)
                | Inr localAddr \<Rightarrow> (Inr (Some cid), Some (kv_put cid (newEntry feature network localAddr address now) m))))"

text \<open>\<^verbatim>\<open>Snapshot\<close>: entries that were closed too long ago are dropped, the others are listed.\<close>

definition expired :: "int \<Rightarrow> tracked \<Rightarrow> bool" where
  "expired now item \<longleftrightarrow> (case tk_closedAt item of None \<Rightarrow> False | Some at0 \<Rightarrow> now - at0 > trackerRetainFor)"

definition liveConn :: "string \<times> tracked \<Rightarrow> LiveConn" where
  "liveConn p = (case p of (cid, item) \<Rightarrow>
     \<lparr>lc_ID = cid, lc_Feature = tk_feature item, lc_Network = tk_network item, lc_Source = tk_source item,
      lc_Destination = tk_destination item, lc_StartedAt = tk_startedAt item, lc_Upload = tk_upload item,
      lc_Download = tk_download item, lc_Closed = (tk_closedAt item \<noteq> None)\<rparr>)"

definition trackerSnapshot :: "int \<Rightarrow> tracker \<Rightarrow> LiveConn list \<times> tracker" where
  "trackerSnapshot now m = (let kept = filter (\<lambda>(k, item). \<not> expired now item) m in (map liveConn kept, kept))"

definition FeatureBySourcePort :: "string \<Rightarrow> tracker \<Rightarrow> string" where
  "FeatureBySourcePort port m =
     (if port = [] then []
      else case find (\<lambda>(k, item). tk_sourcePort item = port) m of None \<Rightarrow> [] | Some (k, item) \<Rightarrow> tk_feature item)"

definition trackerClose :: "string \<Rightarrow> int \<Rightarrow> tracker \<Rightarrow> tracker" where
  "trackerClose cid now m =
     (case kv_get m cid of
        Some item \<Rightarrow> if tk_closedAt item = None then kv_put cid (item\<lparr>tk_closedAt := Some now\<rparr>) m else m
      | None \<Rightarrow> m)"

text \<open>\<^verbatim>\<open>trackedConn\<close>: what the inner connection read or wrote, and its errors, are arguments.\<close>

definition count :: "string \<Rightarrow> (tracked \<Rightarrow> tracked) \<Rightarrow> tracker \<Rightarrow> tracker" where
  "count cid f m = (case kv_get m cid of None \<Rightarrow> m | Some item \<Rightarrow> kv_put cid (f item) m)"

definition trackedRead :: "string \<Rightarrow> nat \<Rightarrow> bool \<Rightarrow> int \<Rightarrow> tracker \<Rightarrow> tracker" where
  "trackedRead cid n eof now m =
     (let m1 = (if n > 0 then count cid (\<lambda>item. item\<lparr>tk_download := tk_download item + word_of_nat n\<rparr>) m else m)
      in if eof then trackerClose cid now m1 else m1)"

definition trackedWrite :: "string \<Rightarrow> nat \<Rightarrow> tracker \<Rightarrow> tracker" where
  "trackedWrite cid n m =
     (if n > 0 then count cid (\<lambda>item. item\<lparr>tk_upload := tk_upload item + word_of_nat n\<rparr>) m else m)"

definition trackedClose :: "string \<Rightarrow> int \<Rightarrow> tracker \<Rightarrow> tracker" where
  "trackedClose cid now m = trackerClose cid now m"

section \<open>Runs\<close>

datatype tevent =
    TDial string string string "string option" string int
  | TRead string nat bool int
  | TWrite string nat
  | TClose string int
  | TSnapshot int

fun trackEvent :: "tevent \<Rightarrow> tracker \<Rightarrow> tracker" where
  "trackEvent (TDial cid feature network localAddr address now) m =
     (case TrackedDial feature cid network address now (Inr localAddr) (Some m) of (_, Some m') \<Rightarrow> m' | (_, None) \<Rightarrow> m)"
| "trackEvent (TRead cid n eof now) m = trackedRead cid n eof now m"
| "trackEvent (TWrite cid n) m = trackedWrite cid n m"
| "trackEvent (TClose cid now) m = trackedClose cid now m"
| "trackEvent (TSnapshot now) m = snd (trackerSnapshot now m)"

definition trackAll :: "tevent list \<Rightarrow> tracker \<Rightarrow> tracker" where
  "trackAll es m = foldl (\<lambda>m e. trackEvent e m) m es"

text \<open>The history of one connection alone: what its entry should be.\<close>

definition shutAt :: "int \<Rightarrow> tracked \<Rightarrow> tracked" where
  "shutAt now item = (if tk_closedAt item = None then item\<lparr>tk_closedAt := Some now\<rparr> else item)"

fun own :: "string \<Rightarrow> tevent \<Rightarrow> tracked option \<Rightarrow> tracked option" where
  "own cid (TDial i feature network localAddr address now) t =
     (if i = cid \<and> feature \<noteq> [] then Some (newEntry feature network localAddr address now) else t)"
| "own cid (TRead i n eof now) t =
     (if i \<noteq> cid then t
      else map_option (\<lambda>item. (if eof then shutAt now else (\<lambda>x. x)) (item\<lparr>tk_download := tk_download item + word_of_nat n\<rparr>)) t)"
| "own cid (TWrite i n) t = (if i \<noteq> cid then t else map_option (\<lambda>item. item\<lparr>tk_upload := tk_upload item + word_of_nat n\<rparr>) t)"
| "own cid (TClose i now) t = (if i \<noteq> cid then t else map_option (shutAt now) t)"
| "own cid (TSnapshot now) t = (case t of None \<Rightarrow> None | Some item \<Rightarrow> if expired now item then None else Some item)"

definition owns :: "string \<Rightarrow> tevent list \<Rightarrow> tracked option \<Rightarrow> tracked option" where
  "owns cid es t = foldl (\<lambda>t e. own cid e t) t es"

section \<open>Every connection has its own history\<close>

lemma kv_ok_track: "kv_ok m \<Longrightarrow> kv_ok (trackEvent e m)"
  by (cases e) (auto simp: TrackedDial_def trackedRead_def trackedWrite_def trackedClose_def trackerClose_def count_def trackerSnapshot_def Let_def
      split: option.split)

lemma kv_ok_tracks: "kv_ok m \<Longrightarrow> kv_ok (trackAll es m)"
  by (induction es arbitrary: m) (simp_all add: trackAll_def kv_ok_track)

lemma close_get: "kv_get (trackerClose i now m) cid = (if i = cid then map_option (shutAt now) (kv_get m cid) else kv_get m cid)"
  by (auto simp: trackerClose_def shutAt_def kv_simps split: option.split)

lemma count_get: "kv_get (count i f m) cid = (if i = cid then map_option f (kv_get m cid) else kv_get m cid)"
  by (auto simp: count_def kv_simps split: option.split)

lemma filter_get:
  fixes m :: "('a, 'b) kv"
  assumes "kv_ok m"
  shows "kv_get (filter P m) k = (case kv_get m k of None \<Rightarrow> None | Some v \<Rightarrow> if P (k, v) then Some v else None)"
proof -
  have f: "kv_get (filter P m) k = Some v \<longleftrightarrow> kv_get m k = Some v \<and> P (k, v)" for v
    using assms by (simp add: kv_get_mem)
  have e: "x = y" if "\<And>v. x = Some v \<longleftrightarrow> y = Some v" for x y :: "'b option" using that by (metis option.exhaust)
  show ?thesis by (rule e) (auto simp: f split: option.split)
qed

lemma trackEvent_own: "kv_ok m \<Longrightarrow> kv_get (trackEvent e m) cid = own cid e (kv_get m cid)"
proof (cases e)
  case (TSnapshot now)
  assume "kv_ok m"
  then show ?thesis using TSnapshot by (simp add: trackerSnapshot_def Let_def filter_get split: option.split)
next
  case (TRead i n eof now)
  have z: "item\<lparr>tk_download := tk_download item + word_of_nat 0\<rparr> = item" for item :: tracked by simp
  show ?thesis using TRead by (cases "kv_get m cid") (auto simp: trackedRead_def Let_def close_get count_get)
next
  case (TWrite i n)
  then show ?thesis by (cases "kv_get m cid") (auto simp: trackedWrite_def count_get)
qed (auto simp: TrackedDial_def trackedClose_def close_get kv_simps)

text \<open>The map is the family of the histories: no connection is seen in the entry of another.\<close>

lemma tracks_owns: "kv_ok m \<Longrightarrow> kv_get (trackAll es m) cid = owns cid es (kv_get m cid)"
  by (induction es arbitrary: m) (simp_all add: trackAll_def owns_def trackEvent_own kv_ok_track)

section \<open>One connection\<close>

text \<open>The events that concern a connection, and those that end it.\<close>

fun uploaded :: "string \<Rightarrow> tevent \<Rightarrow> nat" where
  "uploaded cid (TWrite i n) = (if i = cid then n else 0)"
| "uploaded cid e = 0"

fun downloaded :: "string \<Rightarrow> tevent \<Rightarrow> nat" where
  "downloaded cid (TRead i n eof now) = (if i = cid then n else 0)"
| "downloaded cid e = 0"

fun endsConn :: "string \<Rightarrow> tevent \<Rightarrow> bool" where
  "endsConn cid (TClose i now) = (i = cid)"
| "endsConn cid (TRead i n eof now) = (i = cid \<and> eof)"
| "endsConn cid e = False"

fun dials :: "string \<Rightarrow> tevent \<Rightarrow> bool" where
  "dials cid (TDial i f n l a t) = (i = cid)"
| "dials cid e = False"

text \<open>Times at which the retention period of a connection that was closed at \<open>ended\<close> is not over.\<close>

fun within :: "int \<Rightarrow> tevent \<Rightarrow> bool" where
  "within ended (TSnapshot now) = (now - ended \<le> trackerRetainFor)"
| "within ended e = True"

definition moved :: "string \<Rightarrow> tevent list \<Rightarrow> tracked \<Rightarrow> tracked" where
  "moved cid es item = item\<lparr>tk_upload := tk_upload item + word_of_nat (sum_list (map (uploaded cid) es)),
     tk_download := tk_download item + word_of_nat (sum_list (map (downloaded cid) es))\<rparr>"

lemma owns_open:
  "tk_closedAt item = None \<Longrightarrow> list_all (\<lambda>e. \<not> endsConn cid e \<and> \<not> dials cid e) es \<Longrightarrow> owns cid es (Some item) = Some (moved cid es item)"
proof (induction es arbitrary: item)
  case (Cons e es)
  show ?case
  proof (cases e)
    case (TRead i n eof now)
    with Cons.prems Cons.IH [of "item\<lparr>tk_download := tk_download item + word_of_nat n\<rparr>"] Cons.IH [of item] show ?thesis
      by (auto simp: owns_def moved_def algebra_simps)
  next
    case (TWrite i n)
    with Cons.prems Cons.IH [of "item\<lparr>tk_upload := tk_upload item + word_of_nat n\<rparr>"] Cons.IH [of item] show ?thesis
      by (auto simp: owns_def moved_def algebra_simps)
  next
    case (TSnapshot now)
    with Cons.prems Cons.IH [of item] show ?thesis by (auto simp: owns_def moved_def expired_def)
  qed (use Cons.prems Cons.IH [of item] in \<open>auto simp: owns_def moved_def\<close>)
qed (simp add: owns_def moved_def)

lemma owns_closed:
  "tk_closedAt item = Some ended \<Longrightarrow> list_all (\<lambda>e. within ended e \<and> \<not> dials cid e) es \<Longrightarrow> owns cid es (Some item) = Some (moved cid es item)"
proof (induction es arbitrary: item)
  case (Cons e es)
  show ?case
  proof (cases e)
    case (TRead i n eof now)
    with Cons.prems Cons.IH [of "item\<lparr>tk_download := tk_download item + word_of_nat n\<rparr>"] Cons.IH [of item] show ?thesis
      by (auto simp: owns_def moved_def shutAt_def algebra_simps)
  next
    case (TWrite i n)
    with Cons.prems Cons.IH [of "item\<lparr>tk_upload := tk_upload item + word_of_nat n\<rparr>"] Cons.IH [of item] show ?thesis
      by (auto simp: owns_def moved_def algebra_simps)
  next
    case (TSnapshot now)
    with Cons.prems Cons.IH [of item] show ?thesis by (auto simp: owns_def moved_def expired_def)
  qed (use Cons.prems Cons.IH [of item] in \<open>auto simp: owns_def moved_def shutAt_def\<close>)
qed (simp add: owns_def moved_def)

lemma snapshot_lists: "kv_ok m \<Longrightarrow> kv_get m cid = Some item \<Longrightarrow> \<not> expired now item \<Longrightarrow> liveConn (cid, item) \<in> set (fst (trackerSnapshot now m))"
  by (force simp: trackerSnapshot_def Let_def kv_get_mem)

text \<open>
  C16. A tracked connection is listed with its feature, its addresses and exactly the bytes that were
  moved through it, whatever other connections do: as open until it is closed or has read the end of the
  stream, and as closed in every snapshot within the retention period after that, after which it is
  dropped.
\<close>

theorem tracker_accounts:
  assumes "kv_ok m" and "feature \<noteq> []"
    and "list_all (\<lambda>e. \<not> endsConn cid e \<and> \<not> dials cid e) es" and "list_all (\<lambda>e. within ended e \<and> \<not> dials cid e) es'"
  shows "let dial = TDial cid feature network localAddr address started;
             item = newEntry feature network localAddr address started;
             live = moved cid es item;
             closed = moved cid es' (live\<lparr>tk_closedAt := Some ended\<rparr>);
             m1 = trackAll (dial # es) m; m2 = trackAll (dial # es @ TClose cid ended # es') m
         in liveConn (cid, live) \<in> set (fst (trackerSnapshot now m1)) \<and>
            (if now - ended \<le> trackerRetainFor then liveConn (cid, closed) \<in> set (fst (trackerSnapshot now m2))
             else kv_get (snd (trackerSnapshot now m2)) cid = None)"
proof -
  let ?item = "newEntry feature network localAddr address started" and ?dial = "TDial cid feature network localAddr address started"
  let ?live = "moved cid es ?item"
  let ?closed = "moved cid es' (?live\<lparr>tk_closedAt := Some ended\<rparr>)"
  have n: "tk_closedAt ?item = None" by (simp add: newEntry_def Let_def)
  have l: "owns cid (?dial # es) t = Some ?live" for t
    using owns_open [OF n assms(3)] assms(2) by (simp add: owns_def)
  have nl: "tk_closedAt ?live = None" using n by (simp add: moved_def)
  have c: "owns cid (?dial # es @ TClose cid ended # es') t = Some ?closed" for t
    using l owns_closed [of "?live\<lparr>tk_closedAt := Some ended\<rparr>" ended cid es'] assms(4) nl by (simp add: owns_def shutAt_def)
  let ?m1 = "trackAll (?dial # es) m" and ?m2 = "trackAll (?dial # es @ TClose cid ended # es') m"
  have k: "kv_ok ?m1" "kv_ok ?m2" using assms(1) by (simp_all only: kv_ok_tracks)
  have g: "kv_get ?m1 cid = Some ?live" "kv_get ?m2 cid = Some ?closed" using tracks_owns [OF assms(1)] l c by simp_all
  have x: "tk_closedAt ?closed = Some ended" by (simp add: moved_def)
  have "liveConn (cid, ?live) \<in> set (fst (trackerSnapshot now ?m1))"
    using snapshot_lists [OF k(1) g(1)] nl by (simp add: expired_def)
  moreover have "liveConn (cid, ?closed) \<in> set (fst (trackerSnapshot now ?m2))" if "now - ended \<le> trackerRetainFor"
    using snapshot_lists [OF k(2) g(2)] x that by (simp add: expired_def)
  moreover have "kv_get (snd (trackerSnapshot now ?m2)) cid = None" if "\<not> now - ended \<le> trackerRetainFor"
    using filter_get [OF k(2)] g(2) x that by (simp add: trackerSnapshot_def Let_def expired_def)
  ultimately show ?thesis by (simp add: Let_def)
qed

theorem tracker_accounts_witness:
  "let dial = TDial ''a'' ''f'' ''tcp'' None ''db:80'' 5; m = trackAll [dial, TWrite ''a'' 3, TRead ''b'' 9 False 6, TRead ''a'' 4 False 7] []
   in list_ex (\<lambda>l. lc_ID l = ''a'' \<and> lc_Upload l = 3 \<and> lc_Download l = 4 \<and> \<not> lc_Closed l) (fst (trackerSnapshot 8 m))"
proof -
  let ?es = "[TWrite ''a'' 3, TRead ''b'' 9 False 6, TRead ''a'' 4 False 7]"
  let ?m = "trackAll (TDial ''a'' ''f'' ''tcp'' None ''db:80'' 5 # ?es) []"
  have "list_all (\<lambda>e. \<not> endsConn ''a'' e \<and> \<not> dials ''a'' e) ?es" by simp
  from tracker_accounts [where m = "[]" and feature = "''f''" and es' = "[]" and network = "''tcp''" and localAddr = None and address = "''db:80''"
      and started = 5 and now = 8 and ended = 8, OF _ _ this]
  have "liveConn (''a'', moved ''a'' ?es (newEntry ''f'' ''tcp'' None ''db:80'' 5)) \<in> set (fst (trackerSnapshot 8 ?m))"
    by (simp add: Let_def)
  moreover have "(let l = liveConn (''a'', moved ''a'' ?es (newEntry ''f'' ''tcp'' None ''db:80'' 5))
      in lc_ID l = ''a'' \<and> lc_Upload l = 3 \<and> lc_Download l = 4 \<and> \<not> lc_Closed l)"
    by (simp add: liveConn_def moved_def newEntry_def Let_def)
  ultimately show ?thesis by (auto simp: list_ex_iff Let_def)
qed

text \<open>
  The feature of a port is looked up among closed connections too. When a port is used again by another
  feature, the map has two entries for it, and which one is found depends on the order of the map.
\<close>

lemma reused_port_ambiguous:
  assumes "kv_ok m" and "a \<noteq> b" and "kv_get m a = Some x" and "kv_get m b = Some y" and "tk_sourcePort x = port" and "tk_sourcePort y = port" and "port \<noteq> []"
  shows "\<exists>m1 m2. set m1 = set m \<and> set m2 = set m \<and> kv_ok m1 \<and> kv_ok m2 \<and>
    FeatureBySourcePort port m1 = tk_feature x \<and> FeatureBySourcePort port m2 = tk_feature y"
proof -
  have first: "\<exists>m1. set m1 = set m \<and> kv_ok m1 \<and> FeatureBySourcePort port m1 = tk_feature z" if "kv_get m k = Some z" "tk_sourcePort z = port" for k z
  proof -
    have mem: "(k, z) \<in> set m" using that(1) assms(1) by (simp add: kv_get_mem)
    have "set ((k, z) # kv_del k m) = set m"
      using mem assms(1) by (auto simp: kv_del_filter kv_get_mem [OF assms(1), symmetric])
    moreover have "kv_ok ((k, z) # kv_del k m)" using assms(1) by (auto simp: kv_ok_def kv_keys_def kv_del_filter distinct_map_filter)
    moreover have "FeatureBySourcePort port ((k, z) # kv_del k m) = tk_feature z" using that(2) assms(7) by (simp add: FeatureBySourcePort_def)
    ultimately show ?thesis by blast
  qed
  from first [OF assms(3,5)] first [OF assms(4,6)] show ?thesis by blast
qed

end
