(* ===== verification/TrafficMetrics.thy ===== *)
theory TrafficMetrics
  imports Singbox Tracker "HOL-Library.Multiset"
begin

text \<open>
  The traffic metrics of a session: \<^verbatim>\<open>internal/session/traffic_metrics.go\<close>, with the data of
  \<^verbatim>\<open>internal/singbox/metrics.go\<close> and \<^verbatim>\<open>internal/session/manager.go\<close>.

  Byte counts and speeds are 64-bit and compared as signed numbers. \<^verbatim>\<open>sort.Slice\<close> on the items of a map is a
  stable sort of one of the orders of the map. The division of a byte count by a time in floating point
  and the text of a time are arguments.
\<close>

section \<open>Data\<close>

type_synonym i64 = "64 word"

record ConnectionRow =
  cn_ID :: string
  cn_Network :: string
  cn_Source :: string
  cn_Destination :: string
  cn_Process :: string
  cn_Upload :: i64
  cn_Download :: i64
  cn_UploadSpeed :: i64
  cn_DownloadSpeed :: i64
  cn_StartedAt :: string
  cn_Inbound :: string
  cn_Feature :: string
  cn_Outbound :: string
  cn_Rule :: string

record Metrics =
  mt_DownloadTotal :: i64
  mt_UploadTotal :: i64
  mt_Memory :: u64
  mt_ActiveConnections :: nat
  mt_Connections :: "ConnectionRow list"

record recentConnection =
  rc_connection :: ConnectionRow
  rc_lastSeen :: int

record connectionTraffic =
  ct_upload :: i64
  ct_download :: i64
  ct_at :: int

record metricsState =
  ms_recent :: "(string, recentConnection) kv"
  ms_last :: "(string, connectionTraffic) kv"

definition connectionRetainFor :: int where "connectionRetainFor = 30000000000"
definition maxRetainedConnections :: nat where "maxRetainedConnections = 500"
definition maxPublishedConnections :: nat where "maxPublishedConnections = 100"

section \<open>Merging the tracker\<close>

definition trafficOutboundForFeature :: "string \<Rightarrow> string" where
  "trafficOutboundForFeature feature =
     (if feature = TrafficUserPortForward then KubernetesOutbound
      else if feature = TrafficUserExchange \<or> feature = TrafficUserPreview \<or> feature = TrafficUserMirrorShadow then LocalOutbound
      else DirectOutbound)"

definition portOf :: "string \<Rightarrow> string" where
  "portOf source = (case split_host_port source of Inl _ \<Rightarrow> [] | Inr (_, port) \<Rightarrow> port)"

text \<open>A row of the traffic inbound, with its port; other rows are passed over.\<close>

definition inboundPort :: "ConnectionRow \<Rightarrow> string option" where
  "inboundPort c =
     (if cn_Inbound c \<noteq> TrafficInbound then None
      else case split_host_port (cn_Source c) of Inl _ \<Rightarrow> None | Inr (_, port) \<Rightarrow> Some port)"

definition dye :: "tracker \<Rightarrow> ConnectionRow \<Rightarrow> ConnectionRow" where
  "dye t c =
     (case inboundPort c of
        None \<Rightarrow> c
      | Some port \<Rightarrow> (let feature = FeatureBySourcePort port t in if feature \<noteq> [] then c\<lparr>cn_Feature := feature\<rparr> else c))"

definition adapterRow :: "(int \<Rightarrow> string) \<Rightarrow> LiveConn \<Rightarrow> ConnectionRow" where
  "adapterRow fmt item =
     \<lparr>cn_ID = ''adapter-'' @ lc_ID item,
      cn_Network = (if lc_Network item = ''tcp4'' \<or> lc_Network item = ''tcp6'' then ''tcp''
                    else if lc_Network item = ''udp4'' \<or> lc_Network item = ''udp6'' then ''udp'' else lc_Network item),
      cn_Source = lc_Source item, cn_Destination = lc_Destination item, cn_Process = ''KubeLoop'', cn_Upload = lc_Upload item,
      cn_Download = lc_Download item, cn_UploadSpeed = 0, cn_DownloadSpeed = 0, cn_StartedAt = fmt (lc_StartedAt item),
      cn_Inbound = TrafficInbound, cn_Feature = lc_Feature item, cn_Outbound = trafficOutboundForFeature (lc_Feature item), cn_Rule = []\<rparr>"

definition unseen :: "string list \<Rightarrow> LiveConn \<Rightarrow> bool" where
  "unseen ports item \<longleftrightarrow> \<not> (portOf (lc_Source item) \<noteq> [] \<and> portOf (lc_Source item) \<in> set ports)"

definition mergeTrafficTracker :: "(int \<Rightarrow> string) \<Rightarrow> int \<Rightarrow> Metrics \<Rightarrow> tracker option \<Rightarrow> Metrics \<times> tracker option" where
  "mergeTrafficTracker fmt now metrics tracker0 =
     (case tracker0 of
        None \<Rightarrow> (metrics, None)
      | Some t0 \<Rightarrow>
          (case trackerSnapshot now t0 of (live, t) \<Rightarrow>
             if live = [] \<and> mt_Connections metrics = [] then (metrics, Some t)
             else let seenPorts = List.map_filter inboundPort (mt_Connections metrics);
                      rows = map (dye t) (mt_Connections metrics) @ map (adapterRow fmt) (filter (unseen seenPorts) live)
                  in (metrics\<lparr>mt_Connections := rows, mt_ActiveConnections := length rows\<rparr>, Some t)))"

section \<open>Retaining, ranking and publishing\<close>

definition connectionRank :: "ConnectionRow \<Rightarrow> i64" where
  "connectionRank c = cn_DownloadSpeed c + cn_UploadSpeed c + cn_Download c + cn_Upload c"

definition byRank :: "('a \<Rightarrow> ConnectionRow) \<Rightarrow> 'a list \<Rightarrow> 'a list" where
  "byRank f xs = sort_key (\<lambda>x. - sint (connectionRank (f x))) xs"

definition limitConnections :: "nat \<Rightarrow> ConnectionRow list \<Rightarrow> ConnectionRow list" where
  "limitConnections limit connections =
     (if limit = 0 \<or> length connections \<le> limit then connections else take limit (byRank (\<lambda>c. c) connections))"

definition pruneRecentConnections :: "nat \<Rightarrow> (string, recentConnection) kv \<Rightarrow> (string, recentConnection) kv" where
  "pruneRecentConnections limit recent =
     (if limit = 0 \<or> length recent \<le> limit then recent
      else foldl (\<lambda>m item. kv_put (cn_ID (rc_connection item)) item m) [] (take limit (byRank rc_connection (map snd recent))))"

text \<open>The new speed of one direction: kept when it is known, otherwise the rate since the last time if it is positive.\<close>

definition newSpeed :: "(i64 \<Rightarrow> int \<Rightarrow> i64) \<Rightarrow> i64 \<Rightarrow> i64 \<Rightarrow> i64 \<Rightarrow> int \<Rightarrow> i64" where
  "newSpeed rate speed bytes previous elapsed =
     (if speed = 0 then (let s = rate (bytes - previous) elapsed in if sint s > 0 then s else speed) else speed)"

definition annotate :: "(i64 \<Rightarrow> int \<Rightarrow> i64) \<Rightarrow> (string, connectionTraffic) kv \<Rightarrow> int \<Rightarrow> ConnectionRow \<Rightarrow> ConnectionRow" where
  "annotate rate last0 now c =
     (case kv_get last0 (cn_ID c) of
        None \<Rightarrow> c
      | Some previous \<Rightarrow>
          (let elapsed = now - ct_at previous
           in if elapsed \<le> 0 then c
              else c\<lparr>cn_DownloadSpeed := newSpeed rate (cn_DownloadSpeed c) (cn_Download c) (ct_download previous) elapsed,
                     cn_UploadSpeed := newSpeed rate (cn_UploadSpeed c) (cn_Upload c) (ct_upload previous) elapsed\<rparr>))"

definition annotateSpeeds ::
  "(i64 \<Rightarrow> int \<Rightarrow> i64) \<Rightarrow> int \<Rightarrow> ConnectionRow list \<Rightarrow> (string, connectionTraffic) kv \<Rightarrow> ConnectionRow list \<times> (string, connectionTraffic) kv" where
  "annotateSpeeds rate now connections last0 =
     (map (annotate rate last0 now) connections,
      foldl (\<lambda>next c. kv_put (cn_ID c) \<lparr>ct_upload = cn_Upload c, ct_download = cn_Download c, ct_at = now\<rparr> next) [] connections)"

definition noteRecent :: "int \<Rightarrow> ConnectionRow list \<Rightarrow> (string, recentConnection) kv \<Rightarrow> (string, recentConnection) kv" where
  "noteRecent now connections recent =
     foldl (\<lambda>m c. kv_put (cn_ID c) \<lparr>rc_connection = c, rc_lastSeen = now\<rparr> m) recent connections"

definition retainMetrics :: "(i64 \<Rightarrow> int \<Rightarrow> i64) \<Rightarrow> int \<Rightarrow> Metrics \<Rightarrow> metricsState \<Rightarrow> Metrics \<times> metricsState" where
  "retainMetrics rate now metrics st =
     (let noted = noteRecent now (mt_Connections metrics) (ms_recent st);
          fresh = filter (\<lambda>(k, item). \<not> now - rc_lastSeen item > connectionRetainFor) noted;
          recent = pruneRecentConnections maxRetainedConnections fresh
      in if recent = [] then (metrics\<lparr>mt_Connections := []\<rparr>, \<lparr>ms_recent = recent, ms_last = []\<rparr>)
         else let live = foldl (\<lambda>m c. kv_put (cn_ID c) c m) [] (mt_Connections metrics);
                  merged = map (\<lambda>(k, item). case kv_get live k of Some c \<Rightarrow> c | None \<Rightarrow> rc_connection item) recent;
                  (annotated, last1) = annotateSpeeds rate now merged (ms_last st)
              in (metrics\<lparr>mt_Connections := limitConnections maxPublishedConnections annotated\<rparr>,
                  \<lparr>ms_recent = recent, ms_last = last1\<rparr>))"

definition clearRecentConnections :: "metricsState \<Rightarrow> metricsState" where
  "clearRecentConnections st = \<lparr>ms_recent = [], ms_last = []\<rparr>"

text \<open>
  \<^verbatim>\<open>updateCoreMetrics\<close>: the phase is read before and after; \<open>current\<close> is what is published. The last result is
  what the subscribers are sent.
\<close>

definition updateCoreMetrics ::
  "(int \<Rightarrow> string) \<Rightarrow> (i64 \<Rightarrow> int \<Rightarrow> i64) \<Rightarrow> int \<Rightarrow> Metrics res \<Rightarrow> bool \<Rightarrow> bool \<Rightarrow>
   tracker option \<Rightarrow> metricsState \<Rightarrow> Metrics option \<Rightarrow> tracker option \<times> metricsState \<times> Metrics option \<times> Metrics option" where
  "updateCoreMetrics fmt rate now snapshot connected connectedStill t st current =
     (case snapshot of
        Inl e \<Rightarrow> (t, st, current, None)
      | Inr metrics \<Rightarrow>
          if \<not> connected then (t, st, current, None)
          else case mergeTrafficTracker fmt now metrics t of (metrics1, t1) \<Rightarrow>
            (case retainMetrics rate now metrics1 st of (retained, st1) \<Rightarrow>
               if \<not> connectedStill then (t1, st1, current, None) else (t1, st1, Some retained, Some retained)))"

section \<open>Ranking\<close>

lemma byRank_mset [simp]: "mset (byRank f xs) = mset xs" "set (byRank f xs) = set xs" "length (byRank f xs) = length xs"
  by (simp_all add: byRank_def)

lemma byRank_top:
  assumes "x \<in> set (take n (byRank f xs))" and "y \<in> set (drop n (byRank f xs))"
  shows "sint (connectionRank (f x)) \<ge> sint (connectionRank (f y))"
proof -
  let ?k = "\<lambda>x. - sint (connectionRank (f x))"
  have "sorted (map ?k (take n (byRank f xs) @ drop n (byRank f xs)))" unfolding append_take_drop_id byRank_def by (rule sorted_sort_key)
  then have "?k x \<le> ?k y" using assms unfolding map_append sorted_append by auto
  then show ?thesis by simp
qed

text \<open>A list is cut to its highest ranked elements.\<close>

lemma limit_spec:
  assumes "n > 0"
  shows "length (limitConnections n cs) \<le> n" "set (limitConnections n cs) \<subseteq> set cs"
    and "distinct (map cn_ID cs) \<Longrightarrow> distinct (map cn_ID (limitConnections n cs))"
    and "length cs \<le> n \<Longrightarrow> limitConnections n cs = cs"
proof -
  show "length (limitConnections n cs) \<le> n" using assms by (simp add: limitConnections_def)
  show "set (limitConnections n cs) \<subseteq> set cs"
    using set_take_subset [of n "byRank (\<lambda>c. c) cs"] by (auto simp: limitConnections_def)
  show "length cs \<le> n \<Longrightarrow> limitConnections n cs = cs" by (simp add: limitConnections_def)
  assume d: "distinct (map cn_ID cs)"
  have "mset (map cn_ID (byRank (\<lambda>c. c) cs)) = mset (map cn_ID cs)" by simp
  then have "distinct (map cn_ID (byRank (\<lambda>c. c) cs))" using d by (metis mset_eq_imp_distinct_iff)
  then show "distinct (map cn_ID (limitConnections n cs))" using d by (simp add: limitConnections_def take_map [symmetric] distinct_take)
qed

lemma limit_top:
  assumes "n > 0" and "p \<in> set (limitConnections n cs)" and "c \<in> set cs" and "c \<notin> set (limitConnections n cs)"
  shows "sint (connectionRank p) \<ge> sint (connectionRank c)" and "length (limitConnections n cs) = n"
proof -
  have l: "limitConnections n cs = take n (byRank (\<lambda>c. c) cs)" "n < length cs" using assms by (auto simp: limitConnections_def split: if_splits)
  have "c \<in> set (byRank (\<lambda>c. c) cs)" using assms(3) by simp
  then have "c \<in> set (take n (byRank (\<lambda>c. c) cs)) \<union> set (drop n (byRank (\<lambda>c. c) cs))" by (metis append_take_drop_id set_append)
  then have "c \<in> set (drop n (byRank (\<lambda>c. c) cs))" using assms(4) l(1) by auto
  then show "sint (connectionRank p) \<ge> sint (connectionRank c)" using byRank_top [where f = "\<lambda>c. c"] assms(2) l(1) by auto
  show "length (limitConnections n cs) = n" using l by simp
qed

section \<open>The recent connections\<close>

definition wf_recent :: "(string, recentConnection) kv \<Rightarrow> bool" where
  "wf_recent r \<longleftrightarrow> kv_ok r \<and> list_all (\<lambda>(k, item). cn_ID (rc_connection item) = k) r"

lemma foldl_put_distinct:
  "distinct (map key xs @ kv_keys m) \<Longrightarrow> foldl (\<lambda>m x. kv_put (key x) (val x) m) m xs = m @ map (\<lambda>x. (key x, val x)) xs"
proof (induction xs arbitrary: m)
  case (Cons x xs)
  then have n: "kv_get m (key x) = None" by (auto simp: kv_get_None)
  have "foldl (\<lambda>m x. kv_put (key x) (val x) m) (m @ [(key x, val x)]) xs = (m @ [(key x, val x)]) @ map (\<lambda>x. (key x, val x)) xs"
    by (rule Cons.IH) (use Cons.prems in \<open>auto simp: kv_keys_def\<close>)
  then show ?case using n by (simp add: kv_put_new)
qed simp

lemma wf_put: "wf_recent r \<Longrightarrow> cn_ID (rc_connection item) = k \<Longrightarrow> wf_recent (kv_put k item r)"
proof -
  assume w: "wf_recent r" "cn_ID (rc_connection item) = k"
  then have ok: "kv_ok (kv_put k item r)" by (simp add: wf_recent_def)
  have "cn_ID (rc_connection v) = i" if "(i, v) \<in> set (kv_put k item r)" for i v
  proof -
    have "kv_get (kv_put k item r) i = Some v" using that ok by (simp add: kv_get_mem)
    then show ?thesis using w by (auto simp: kv_simps wf_recent_def list_all_iff kv_get_mem split: if_splits)
  qed
  then show ?thesis using ok by (auto simp: wf_recent_def list_all_iff)
qed

lemma wf_note: "wf_recent r \<Longrightarrow> wf_recent (noteRecent now cs r)"
proof (induction cs arbitrary: r)
  case (Cons c cs)
  have "wf_recent (kv_put (cn_ID c) \<lparr>rc_connection = c, rc_lastSeen = now\<rparr> r)" by (rule wf_put) (use Cons.prems in simp_all)
  from Cons.IH [OF this] show ?case by (simp add: noteRecent_def)
qed (simp add: noteRecent_def)

lemma note_get:
  "distinct (map cn_ID cs) \<Longrightarrow> kv_get (noteRecent now cs r) k =
     (case find (\<lambda>c. cn_ID c = k) cs of Some c \<Rightarrow> Some \<lparr>rc_connection = c, rc_lastSeen = now\<rparr> | None \<Rightarrow> kv_get r k)"
proof (induction cs arbitrary: r)
  case (Cons c cs)
  have i: "kv_get (noteRecent now (c # cs) r) k = kv_get (noteRecent now cs (kv_put (cn_ID c) \<lparr>rc_connection = c, rc_lastSeen = now\<rparr> r)) k"
    by (simp add: noteRecent_def)
  have "find (\<lambda>d. cn_ID d = cn_ID c) cs = None" using Cons.prems unfolding find_None_iff by (auto simp: image_iff)
  then show ?case unfolding i using Cons by (auto simp: kv_simps split: option.split)
qed (simp add: noteRecent_def)

lemma wf_filter: "wf_recent r \<Longrightarrow> wf_recent (filter P r)"
  by (auto simp: wf_recent_def list_all_iff)

lemma wf_prune:
  assumes "wf_recent r" and "n > 0"
  shows "wf_recent (pruneRecentConnections n r)" "length (pruneRecentConnections n r) \<le> n" "length r \<le> n \<Longrightarrow> pruneRecentConnections n r = r"
proof -
  let ?xs = "take n (byRank rc_connection (map snd r))"
  let ?key = "\<lambda>i. cn_ID (rc_connection i)"
  have "map ?key (map snd r) = kv_keys r" using assms(1) by (auto simp: wf_recent_def list_all_iff kv_keys_def)
  then have "distinct (map ?key (map snd r))" using assms(1) by (simp only: wf_recent_def kv_ok_def kv_keys_def)
  then have "distinct (map ?key (byRank rc_connection (map snd r)))" by (metis byRank_mset(1) mset_map mset_eq_imp_distinct_iff)
  then have d: "distinct (map ?key ?xs)" by (simp add: take_map [symmetric] distinct_take)
  have f: "foldl (\<lambda>m item. kv_put (?key item) item m) [] ?xs = map (\<lambda>i. (?key i, i)) ?xs"
    using foldl_put_distinct [of ?key ?xs "[]" "\<lambda>i. i"] d by (simp add: kv_keys_def)
  show "wf_recent (pruneRecentConnections n r)"
    using assms(1) d by (simp add: pruneRecentConnections_def f) (simp add: wf_recent_def kv_ok_def kv_keys_def comp_def list_all_iff)
  show "length (pruneRecentConnections n r) \<le> n" using assms(2) by (simp add: pruneRecentConnections_def f)
  show "length r \<le> n \<Longrightarrow> pruneRecentConnections n r = r" by (simp add: pruneRecentConnections_def)
qed

section \<open>What is published\<close>

definition sameTraffic :: "ConnectionRow \<Rightarrow> ConnectionRow \<Rightarrow> bool" where
  "sameTraffic c p \<longleftrightarrow> p\<lparr>cn_UploadSpeed := cn_UploadSpeed c, cn_DownloadSpeed := cn_DownloadSpeed c\<rparr> = c"

lemma annotate_same: "sameTraffic c (annotate rate last0 now c)" "cn_ID (annotate rate last0 now c) = cn_ID c"
  by (auto simp: annotate_def sameTraffic_def Let_def split: option.split)

lemma length_note: "length (noteRecent now cs r) \<le> length r + length cs"
proof (induction cs arbitrary: r)
  case (Cons c cs)
  have "length (kv_put k v m) \<le> Suc (length m)" for k and v :: recentConnection and m
    by (induction m) (auto simp: kv_put_def)
  from this [of "cn_ID c" "\<lparr>rc_connection = c, rc_lastSeen = now\<rparr>" r] Cons [of "kv_put (cn_ID c) \<lparr>rc_connection = c, rc_lastSeen = now\<rparr> r"]
  show ?case by (simp add: noteRecent_def)
qed (simp add: noteRecent_def)

definition merged :: "ConnectionRow list \<Rightarrow> (string, recentConnection) kv \<Rightarrow> ConnectionRow list" where
  "merged cs recent = map (\<lambda>(k, item). case kv_get (foldl (\<lambda>m c. kv_put (cn_ID c) c m) [] cs) k of Some c \<Rightarrow> c | None \<Rightarrow> rc_connection item) recent"

lemma live_get:
  assumes "distinct (map cn_ID cs)"
  shows "kv_get (foldl (\<lambda>m c. kv_put (cn_ID c) c m) [] cs) k = Some c \<longleftrightarrow> c \<in> set cs \<and> cn_ID c = k"
proof -
  have "foldl (\<lambda>m c. kv_put (cn_ID c) c m) [] cs = map (\<lambda>c. (cn_ID c, c)) cs"
    using foldl_put_distinct [of cn_ID cs "[]" "\<lambda>c. c"] assms by (simp add: kv_keys_def)
  moreover have "kv_ok (map (\<lambda>c. (cn_ID c, c)) cs)" using assms by (simp add: kv_ok_def kv_keys_def comp_def)
  ultimately show ?thesis by (auto simp: kv_get_mem)
qed

lemma merged_ids:
  assumes "wf_recent recent" and "distinct (map cn_ID cs)"
  shows "map cn_ID (merged cs recent) = map fst recent"
  unfolding merged_def map_map
proof (rule map_cong [OF refl])
  fix p assume p: "p \<in> set recent"
  obtain k item where ki: "p = (k, item)" by (cases p)
  then have "cn_ID (rc_connection item) = k" using p assms(1) by (auto simp: wf_recent_def list_all_iff)
  then show "(cn_ID \<circ> (\<lambda>(k, item). case kv_get (foldl (\<lambda>m c. kv_put (cn_ID c) c m) [] cs) k of Some c \<Rightarrow> c | None \<Rightarrow> rc_connection item)) p = fst p"
    using live_get [OF assms(2), of k] ki by (auto split: option.split)
qed

lemma retain_cases:
  obtains recent where "recent = pruneRecentConnections maxRetainedConnections
      (filter (\<lambda>(k, item). \<not> now - rc_lastSeen item > connectionRetainFor) (noteRecent now (mt_Connections metrics) (ms_recent st)))"
    and "ms_recent (snd (retainMetrics rate now metrics st)) = recent"
    and "mt_Connections (fst (retainMetrics rate now metrics st)) =
      limitConnections maxPublishedConnections (map (annotate rate (ms_last st) now) (merged (mt_Connections metrics) recent))"
  by (rule that [OF refl]) (auto simp: retainMetrics_def Let_def annotateSpeeds_def merged_def limitConnections_def split: prod.split)

text \<open>
  C17. However many connections there are, at most 500 are remembered and at most 100 published, each
  identifier once. As long as the connections of the core and those remembered are no more than 100, every
  connection of the core is published as it is now, its speeds apart.
\<close>

theorem metrics_published:
  assumes "wf_recent (ms_recent st)" and "distinct (map cn_ID (mt_Connections metrics))"
  shows "case retainMetrics rate now metrics st of (pub, st') \<Rightarrow>
    wf_recent (ms_recent st') \<and> length (ms_recent st') \<le> 500 \<and>
    length (mt_Connections pub) \<le> 100 \<and> distinct (map cn_ID (mt_Connections pub)) \<and>
    (length (ms_recent st) + length (mt_Connections metrics) \<le> 100 \<longrightarrow>
       (\<forall>c \<in> set (mt_Connections metrics). \<exists>p \<in> set (mt_Connections pub). sameTraffic c p))"
proof -
  let ?cs = "mt_Connections metrics" and ?an = "annotate rate (ms_last st) now"
  let ?fresh = "filter (\<lambda>(k, item). \<not> now - rc_lastSeen item > connectionRetainFor) (noteRecent now ?cs (ms_recent st))"
  obtain recent where r: "recent = pruneRecentConnections maxRetainedConnections ?fresh"
      "ms_recent (snd (retainMetrics rate now metrics st)) = recent"
      "mt_Connections (fst (retainMetrics rate now metrics st)) = limitConnections maxPublishedConnections (map ?an (merged ?cs recent))"
    by (rule retain_cases)
  have wf: "wf_recent ?fresh" using wf_filter wf_note assms(1) by blast
  have pos: "maxRetainedConnections > 0" "maxPublishedConnections > 0" by (simp_all add: maxRetainedConnections_def maxPublishedConnections_def)
  note p = wf_prune [OF wf pos(1), folded r(1)]
  have ids: "map cn_ID (map ?an (merged ?cs recent)) = map fst recent"
    using merged_ids [OF p(1) assms(2)] by (simp add: annotate_same comp_def)
  then have d: "distinct (map cn_ID (map ?an (merged ?cs recent)))" using p(1) by (simp only: wf_recent_def kv_ok_def)
  note l = limit_spec [OF pos(2), of "map ?an (merged ?cs recent)"]
  have "\<exists>q \<in> set (limitConnections maxPublishedConnections (map ?an (merged ?cs recent))). sameTraffic c q"
    if few: "length (ms_recent st) + length ?cs \<le> 100" and c: "c \<in> set ?cs" for c
  proof -
    have "length ?fresh \<le> length (noteRecent now ?cs (ms_recent st))" by (rule length_filter_le)
    then have "length ?fresh \<le> 100" using length_note [of now ?cs "ms_recent st"] few by linarith
    then have same: "recent = ?fresh" using p(3) by (simp add: maxRetainedConnections_def)
    have "length (merged ?cs recent) \<le> 100" using \<open>length ?fresh \<le> 100\<close> same by (simp add: merged_def)
    then have lim: "limitConnections maxPublishedConnections (map ?an (merged ?cs recent)) = map ?an (merged ?cs recent)"
      using l(4) by (simp add: maxPublishedConnections_def)
    have lv: "kv_get (foldl (\<lambda>m c. kv_put (cn_ID c) c m) [] ?cs) (cn_ID c) = Some c" using live_get [OF assms(2)] c by blast
    have "find (\<lambda>d. cn_ID d = cn_ID c) ?cs \<noteq> None" unfolding find_None_iff using c by blast
    then obtain c' where "find (\<lambda>d. cn_ID d = cn_ID c) ?cs = Some c'" by blast
    then have "kv_get (noteRecent now ?cs (ms_recent st)) (cn_ID c) = Some \<lparr>rc_connection = c', rc_lastSeen = now\<rparr>"
      using note_get [OF assms(2)] by simp
    then have "(cn_ID c, \<lparr>rc_connection = c', rc_lastSeen = now\<rparr>) \<in> set ?fresh"
      using wf_note [OF assms(1)] by (simp add: wf_recent_def kv_get_mem connectionRetainFor_def)
    then have "c \<in> set (merged ?cs recent)" unfolding same merged_def using lv by force
    then show ?thesis unfolding lim using annotate_same(1) by (metis image_eqI list.set_map)
  qed
  then show ?thesis using p(1,2) l(1,3) d r(2,3)
    by (simp add: case_prod_beta maxRetainedConnections_def maxPublishedConnections_def)
qed

definition ex_cn :: ConnectionRow where
  "ex_cn = \<lparr>cn_ID = ''c1'', cn_Network = ''tcp'', cn_Source = ''127.0.0.1:9'', cn_Destination = ''db:80'', cn_Process = [], cn_Upload = 3, cn_Download = 4,
     cn_UploadSpeed = 0, cn_DownloadSpeed = 0, cn_StartedAt = [], cn_Inbound = ''tun-in'', cn_Feature = [], cn_Outbound = ''kubernetes'', cn_Rule = []\<rparr>"

definition ex_mt :: Metrics where
  "ex_mt = \<lparr>mt_DownloadTotal = 4, mt_UploadTotal = 3, mt_Memory = 0, mt_ActiveConnections = 1, mt_Connections = [ex_cn]\<rparr>"

theorem metrics_published_witness:
  "case retainMetrics (\<lambda>_ _. 0) 7 ex_mt \<lparr>ms_recent = [], ms_last = []\<rparr> of (pub, st') \<Rightarrow>
     length (mt_Connections pub) \<le> 100 \<and> list_ex (sameTraffic ex_cn) (mt_Connections pub)"
proof -
  let ?st = "\<lparr>ms_recent = [], ms_last = []\<rparr> :: metricsState"
  have "wf_recent (ms_recent ?st)" "distinct (map cn_ID (mt_Connections ex_mt))" by (simp_all add: wf_recent_def ex_mt_def)
  from metrics_published [OF this, where rate = "\<lambda>_ _. 0" and now = 7] show ?thesis
    by (auto simp: ex_mt_def list_ex_iff split: prod.splits)
qed

section \<open>What the tracker adds\<close>

text \<open>
  Every connection the tracker lists is shown: by a row of the core on the same port of the traffic
  inbound, or by a row of its own; the core's rows change only in their feature, and the count is right.
\<close>

lemma merge_shows_tracked:
  assumes "mergeTrafficTracker fmt now metrics (Some t) = (metrics', t')" and "trackerSnapshot now t = (live, t1)" and "item \<in> set live"
  shows "adapterRow fmt item \<in> set (mt_Connections metrics') \<or>
      list_ex (\<lambda>row. inboundPort row = Some (portOf (lc_Source item))) (mt_Connections metrics')"
    and "mt_ActiveConnections metrics' = length (mt_Connections metrics')"
    and "\<exists>n. take n (mt_Connections metrics') = map (dye t1) (mt_Connections metrics) \<and> n = length (mt_Connections metrics)"
proof -
  let ?ports = "List.map_filter inboundPort (mt_Connections metrics)"
  let ?rows = "map (dye t1) (mt_Connections metrics) @ map (adapterRow fmt) (filter (unseen ?ports) live)"
  have m: "metrics' = metrics\<lparr>mt_Connections := ?rows, mt_ActiveConnections := length ?rows\<rparr>"
  proof -
    have "\<not> (live = [] \<and> mt_Connections metrics = [])" using assms(3) by auto
    then show ?thesis using assms(1,2) unfolding mergeTrafficTracker_def Let_def by (simp split: if_splits)
  qed
  have ib: "inboundPort (dye t1 row) = inboundPort row" for row
    by (auto simp: dye_def inboundPort_def Let_def split: option.split)
  show "adapterRow fmt item \<in> set (mt_Connections metrics') \<or>
      list_ex (\<lambda>row. inboundPort row = Some (portOf (lc_Source item))) (mt_Connections metrics')"
  proof (cases "unseen ?ports item")
    case True
    then show ?thesis using assms(3) by (simp add: m)
  next
    case False
    then have "portOf (lc_Source item) \<in> set ?ports" by (simp add: unseen_def)
    then obtain row where "row \<in> set (mt_Connections metrics)" "inboundPort row = Some (portOf (lc_Source item))" by (auto simp: List.map_filter_def)
    then have "dye t1 row \<in> set (mt_Connections metrics')" "inboundPort (dye t1 row) = Some (portOf (lc_Source item))" by (simp_all add: m ib)
    then show ?thesis by (auto simp: list_ex_iff)
  qed
  show "mt_ActiveConnections metrics' = length (mt_Connections metrics')" by (simp add: m)
  show "\<exists>n. take n (mt_Connections metrics') = map (dye t1) (mt_Connections metrics) \<and> n = length (mt_Connections metrics)" by (simp add: m)
qed

end
