(* ===== verification/Helper.thy ===== *)
theory Helper
  imports Singbox
begin

text \<open>
  The privileged helper: \<^verbatim>\<open>internal/helper\<close> (\<^verbatim>\<open>server.go\<close>, \<^verbatim>\<open>session_start.go\<close>, \<^verbatim>\<open>session_lifecycle.go\<close>,
  \<^verbatim>\<open>session_logs.go\<close>, \<^verbatim>\<open>protocol.go\<close>).

  The host is what the helper changes on it: the protected directories, the DNS override of the platform
  and that of the tunnel's link, and the processes. The answers of the operating system to one request
  are its environment. Requests are handled one after the other; between two of them a process may exit,
  and, later, the goroutine that waits for it cleans up. Restoring the DNS of the platform and removing a
  directory, whose errors the code ignores or logs, are taken to succeed; the routes the core installed,
  the helper's own log lines and the constant
  fields of a response (version, protocol, installed, running) are not modelled.
\<close>

section \<open>State\<close>

record hsession =
  hs_routes :: "string list"
  hs_dns :: DNSMeta
  hs_tun :: string
  hs_pid :: "nat option"

record hostOS =
  ho_dirs :: "string list"
  ho_dns :: "DNSMeta option"
  ho_link :: "DNSMeta option"
  ho_procs :: "nat list"

record helper =
  hp_token :: string
  hp_sessions :: "(string, hsession) kv"
  hp_os :: hostOS

datatype startTick = CoreExited "goerr option" string | StartTick bool bool bool

text \<open>
  The environment of one request: the answers to the steps of a start, the ticks of its waiting loop (whether
  the link's DNS could be set, whether the controller is ready, whether the link's DNS could be set on the
  last try), whether the goroutine of a core that exited during the start is done when the start returns,
  whether the process of a session is gone and cleaned up in time when it is stopped, the answers to a DNS
  update, the log file, whether the helper can be reached, and whether its response arrives.
\<close>

record helperEnv =
  le_lib :: netLib
  le_goos :: string
  le_root :: "goerr option"
  le_clear :: "goerr option"
  le_mkdir :: "goerr option"
  le_config :: "goerr option"
  le_binary :: "string res"
  le_log :: "goerr option"
  le_dns :: "goerr option"
  le_start :: "nat res"
  le_ticks :: "startTick list"
  le_cleaned :: bool
  le_exits :: "string \<Rightarrow> bool"
  le_update :: "goerr option"
  le_undo :: "goerr option"
  le_link :: "goerr option"
  le_file :: "string res"
  le_dial :: "goerr option"
  le_answered :: bool

record hRequest =
  rq_Op :: string
  rq_Token :: string
  rq_Session :: "SessionSpec option"
  rq_SessionID :: string
  rq_LogOffset :: int
  rq_DNS :: "DNSMeta option"

record hResponse =
  rp_OK :: bool
  rp_Error :: string
  rp_CoreReady :: bool
  rp_ActiveSessions :: "string list"
  rp_PID :: nat
  rp_LogData :: string
  rp_LogOffset :: int

definition okResponse :: hResponse where
  "okResponse = \<lparr>rp_OK = True, rp_Error = [], rp_CoreReady = False, rp_ActiveSessions = [], rp_PID = 0, rp_LogData = [], rp_LogOffset = 0\<rparr>"

definition errResponse :: "string \<Rightarrow> hResponse" where
  "errResponse e = okResponse\<lparr>rp_OK := False, rp_Error := e\<rparr>"

section \<open>Ending a session\<close>

definition removeDir :: "string \<Rightarrow> hostOS \<Rightarrow> hostOS" where
  "removeDir sid os = os\<lparr>ho_dirs := filter (\<lambda>d. d \<noteq> sid) (ho_dirs os)\<rparr>"

definition restoreDNS :: "hostOS \<Rightarrow> hostOS" where
  "restoreDNS os = os\<lparr>ho_dns := None\<rparr>"

definition procsWithout :: "nat option \<Rightarrow> hostOS \<Rightarrow> hostOS" where
  "procsWithout pid os = os\<lparr>ho_procs := filter (\<lambda>p. Some p \<noteq> pid) (ho_procs os)\<rparr>"

text \<open>A process exits; then the goroutine that waits for it cleans up.\<close>

definition processExits :: "string \<Rightarrow> helper \<Rightarrow> helper" where
  "processExits sid h =
     (case kv_get (hp_sessions h) sid of
        None \<Rightarrow> h
      | Some current \<Rightarrow> h\<lparr>hp_os := procsWithout (hs_pid current) (hp_os h)\<rparr>)"

definition sessionExited :: "string \<Rightarrow> helper \<Rightarrow> helper" where
  "sessionExited sid h =
     (case kv_get (hp_sessions h) sid of
        None \<Rightarrow> h
      | Some current \<Rightarrow>
          h\<lparr>hp_os := removeDir sid (restoreDNS ((hp_os h)\<lparr>ho_link := None\<rparr>)),
            hp_sessions := kv_del sid (hp_sessions h)\<rparr>)"

definition stopSession :: "helperEnv \<Rightarrow> string \<Rightarrow> helper \<Rightarrow> goerr option \<times> helper" where
  "stopSession env sid h =
     (case kv_get (hp_sessions h) sid of
        None \<Rightarrow> (None, h)
      | Some current \<Rightarrow>
          if hs_pid current = None then (Some (Errorf ''session is still starting''), h)
          else if le_exits env sid then (None, sessionExited sid (processExits sid h))
          else (Some (Errorf ''timed out waiting for privileged session to stop''), h))"

definition stopAllSessions :: "helperEnv \<Rightarrow> helper \<Rightarrow> helper" where
  "stopAllSessions env h = foldl (\<lambda>h sid. snd (stopSession env sid h)) h (kv_keys (hp_sessions h))"

section \<open>Starting a session\<close>

text \<open>Everything that is computed from the request before anything is changed.\<close>

definition wrapR :: "string \<Rightarrow> 'a res \<Rightarrow> 'a res" where
  "wrapR what r = (case r of Inl e \<Rightarrow> Inl (Wrapf what e) | Inr x \<Rightarrow> Inr x)"

definition prepareSession :: "helperEnv \<Rightarrow> SessionSpec \<Rightarrow> hsession res" where
  "prepareSession env spec =
     bindE (wrapR ''validate session: '' (Validate (le_lib env) spec)) (\<lambda>_.
     bindE (wrapR ''generate sing-box config: '' (GenerateConfig (le_lib env) (le_goos env) spec)) (\<lambda>_.
     bindE (wrapR ''build DNS settings: '' (DNS (le_lib env) spec)) (\<lambda>dns.
     bindE (wrapR ''build route settings: '' (Routes (le_lib env) spec)) (\<lambda>routes0.
     Inr \<lparr>hs_routes = routes0, hs_dns = dns, hs_tun = ss_TUNAddress spec, hs_pid = None\<rparr>))))"

text \<open>From the protected directory to the running process.\<close>

definition launchSession :: "helperEnv \<Rightarrow> string \<Rightarrow> hsession \<Rightarrow> hostOS \<Rightarrow> nat res \<times> hostOS" where
  "launchSession env sid current os0 =
     (case le_root env of Some e \<Rightarrow> (Inl (Wrapf ''create protected session root: '' e), os0) | None \<Rightarrow>
     (case le_clear env of Some e \<Rightarrow> (Inl (Wrapf ''clear stale protected session: '' e), os0) | None \<Rightarrow>
     (let os1 = removeDir sid os0 in
      case le_mkdir env of Some e \<Rightarrow> (Inl (Wrapf ''create protected session: '' e), os1) | None \<Rightarrow>
     (let os2 = os1\<lparr>ho_dirs := sid # ho_dirs os1\<rparr> in
      case le_config env of Some e \<Rightarrow> (Inl (Wrapf ''write protected sing-box config: '' e), removeDir sid os2) | None \<Rightarrow>
     (case le_binary env of Inl e \<Rightarrow> (Inl (Wrapf ''ensure trusted sing-box core: '' e), removeDir sid os2) | Inr binaryPath \<Rightarrow>
     (case le_log env of Some e \<Rightarrow> (Inl (Wrapf ''open protected session log: '' e), removeDir sid os2) | None \<Rightarrow>
     (let os3 = os2\<lparr>ho_dns := Some (hs_dns current)\<rparr> in
      case le_dns env of Some e \<Rightarrow> (Inl (Wrapf ''install split DNS: '' e), removeDir sid (restoreDNS os3)) | None \<Rightarrow>
     (case le_start env of Inl e \<Rightarrow> (Inl (Wrapf ''start trusted sing-box core: '' e), removeDir sid (restoreDNS os3)) | Inr pid \<Rightarrow>
       (Inr pid, os3\<lparr>ho_procs := pid # ho_procs os3\<rparr>)))))))))"

text \<open>
  The waiting loop: it ends when the core exits, when its controller answers, or at the deadline, which is the
  last startTick of the list. The link's DNS is tried at every startTick until it could be set, and once more at the end.
\<close>

fun waitStart :: "bool \<Rightarrow> DNSMeta \<Rightarrow> startTick list \<Rightarrow> hostOS \<Rightarrow> goerr option \<times> hostOS" where
  "waitStart linked dns [] os0 = (None, os0)"
| "waitStart linked dns (CoreExited err log # ts) os0 =
     (let detail = (if trim_space log = [] then ''sing-box produced no diagnostic output'' else trim_space log)
      in (Some (case err of
            Some e \<Rightarrow> Errorf (''sing-box exited during startup: '' @ err_text e @ '': '' @ detail)
          | None \<Rightarrow> Errorf (''sing-box exited during startup: '' @ detail)), os0))"
| "waitStart linked dns (StartTick linkOK ready lastOK # ts) os0 =
     (let os1 = (if \<not> linked \<and> linkOK then os0\<lparr>ho_link := Some dns\<rparr> else os0);
          linked1 = (linked \<or> linkOK)
      in if ready \<or> ts = []
         then (None, if \<not> linked1 \<and> lastOK then os1\<lparr>ho_link := Some dns\<rparr> else os1)
         else waitStart linked1 dns ts os1)"

definition startSession :: "helperEnv \<Rightarrow> SessionSpec \<Rightarrow> helper \<Rightarrow> goerr option \<times> helper" where
  "startSession env spec h0 =
     (case prepareSession env spec of
        Inl e \<Rightarrow> (Some e, h0)
      | Inr current \<Rightarrow>
          if kv_get (hp_sessions h0) (ss_ID spec) \<noteq> None then (None, h0)
          else let h1 = (if hp_sessions h0 \<noteq> [] then stopAllSessions env h0 else h0) in
            if hp_sessions h1 \<noteq> [] then (Some (Errorf ''another privileged TUN session is already active''), h1)
            else (case launchSession env (ss_ID spec) current (hp_os h1) of
              (Inl e, os) \<Rightarrow> (Some e, h1\<lparr>hp_os := os\<rparr>)
            | (Inr pid, os) \<Rightarrow>
                (case waitStart False (hs_dns current) (le_ticks env) os of
                   (err, os') \<Rightarrow>
                     let h2 = h1\<lparr>hp_sessions := kv_put (ss_ID spec) (current\<lparr>hs_pid := Some pid\<rparr>) (hp_sessions h1), hp_os := os'\<rparr>
                     in (err, if err = None then h2
                              else if le_cleaned env then sessionExited (ss_ID spec) (processExits (ss_ID spec) h2)
                              else processExits (ss_ID spec) h2))))"

section \<open>DNS updates and logs\<close>

definition updateSessionDNS :: "helperEnv \<Rightarrow> string \<Rightarrow> DNSMeta \<Rightarrow> helper \<Rightarrow> goerr option \<times> helper" where
  "updateSessionDNS env sid dns h =
     (if dm_Listen dns = [] \<or> dm_Port dns < 1 \<or> dm_Port dns > 65535 then (Some (Errorf ''invalid DNS listen address''), h)
      else if dm_Domains dns = [] then (Some (Errorf ''DNS domains are required''), h)
      else case kv_get (hp_sessions h) sid of
        None \<Rightarrow> (Some (Errorf (''session '' @ sid @ '' is not active'')), h)
      | Some current \<Rightarrow>
          let os0 = hp_os h; previous = hs_dns current in
          (case le_update env of
             Some e \<Rightarrow>
               (Some (Wrapf ''install split DNS: '' e),
                h\<lparr>hp_os := os0\<lparr>ho_dns := (if le_undo env = None then Some previous else None), ho_link := (if le_link env = None then Some previous else None)\<rparr>\<rparr>)
           | None \<Rightarrow>
               (None, h\<lparr>hp_os := os0\<lparr>ho_dns := Some dns, ho_link := (if le_link env = None then Some dns else None)\<rparr>,
                        hp_sessions := kv_put sid (current\<lparr>hs_dns := dns\<rparr>) (hp_sessions h)\<rparr>)))"

definition maxSessionLogRead :: nat where
  "maxSessionLogRead = 262144"

definition readSessionLogs :: "helperEnv \<Rightarrow> string \<Rightarrow> int \<Rightarrow> helper \<Rightarrow> (string \<times> int) res" where
  "readSessionLogs env sid offset h =
     (if offset < 0 then Inl (Errorf ''log offset must not be negative'')
      else if kv_get (hp_sessions h) sid = None then Inl (Errorf ''session not found'')
      else case le_file env of
        Inl e \<Rightarrow> Inl (Wrapf ''open sing-box log: '' e)
      | Inr content \<Rightarrow>
          let from0 = (if offset > int (length content) then 0 else offset);
              data = take maxSessionLogRead (drop (nat from0) content)
          in Inr (data, from0 + int (length data)))"

section \<open>Requests\<close>

definition activeSessionState :: "helper \<Rightarrow> string list \<times> nat" where
  "activeSessionState h =
     (kv_keys (hp_sessions h),
      foldl (\<lambda>pid (sid, current). case hs_pid current of Some p \<Rightarrow> p | None \<Rightarrow> pid) 0 (hp_sessions h))"

definition answer :: "goerr option \<Rightarrow> hResponse" where
  "answer err = (case err of None \<Rightarrow> okResponse | Some e \<Rightarrow> errResponse (err_text e))"

definition dispatchRequest :: "helperEnv \<Rightarrow> hRequest \<Rightarrow> helper \<Rightarrow> hResponse \<times> helper" where
  "dispatchRequest env request h =
     (if rq_Token request = [] \<or> rq_Token request \<noteq> hp_token h then (errResponse ''unauthorized'', h)
      else if rq_Op request = ''ping'' \<or> rq_Op request = ''status'' then
        (case activeSessionState h of (active, pid) \<Rightarrow>
          (okResponse\<lparr>rp_CoreReady := \<not> isl (le_binary env), rp_ActiveSessions := active, rp_PID := pid\<rparr>, h))
      else if rq_Op request = ''start'' then
        (case rq_Session request of
           None \<Rightarrow> (errResponse ''session is required'', h)
         | Some spec \<Rightarrow> (case startSession env spec h of (err, h') \<Rightarrow> (answer err, h')))
      else if rq_Op request = ''stop'' then
        (case ValidateSessionID (rq_SessionID request) of
           Inl e \<Rightarrow> (errResponse (err_text e), h)
         | Inr _ \<Rightarrow> (case stopSession env (rq_SessionID request) h of (err, h') \<Rightarrow> (answer err, h')))
      else if rq_Op request = ''stop-all'' then (okResponse, stopAllSessions env h)
      else if rq_Op request = ''update-dns'' then
        (case ValidateSessionID (rq_SessionID request) of
           Inl e \<Rightarrow> (errResponse (err_text e), h)
         | Inr _ \<Rightarrow>
             (case rq_DNS request of
                None \<Rightarrow> (errResponse ''dns is required'', h)
              | Some dns \<Rightarrow> (case updateSessionDNS env (rq_SessionID request) dns h of (err, h') \<Rightarrow> (answer err, h'))))
      else if rq_Op request = ''read-logs'' then
        (case ValidateSessionID (rq_SessionID request) of
           Inl e \<Rightarrow> (errResponse (err_text e), h)
         | Inr _ \<Rightarrow>
             (case readSessionLogs env (rq_SessionID request) (rq_LogOffset request) h of
                Inl e \<Rightarrow> (errResponse (err_text e), h)
              | Inr (data, offset) \<Rightarrow> (okResponse\<lparr>rp_LogData := data, rp_LogOffset := offset\<rparr>, h)))
      else (errResponse (''unsupported op '' @ quote (rq_Op request)), h))"

text \<open>\<^verbatim>\<open>handle\<close>: the request is \<^term>\<open>None\<close> when it cannot be decoded; a session whose start cannot be reported is stopped.\<close>

definition handleRequest :: "helperEnv \<Rightarrow> hRequest option \<Rightarrow> helper \<Rightarrow> hResponse \<times> helper" where
  "handleRequest env decoded h =
     (case decoded of
        None \<Rightarrow> (errResponse ''invalid request'', h)
      | Some request \<Rightarrow>
          (case dispatchRequest env request h of
             (response, h') \<Rightarrow>
               (response,
                if \<not> le_answered env \<and> rq_Op request = ''start'' \<and> rp_OK response
                then (case rq_Session request of None \<Rightarrow> h' | Some spec \<Rightarrow> snd (stopSession env (ss_ID spec) h'))
                else h')))"

definition NewHelperServer :: "string \<Rightarrow> helper" where
  "NewHelperServer token = \<lparr>hp_token = token, hp_sessions = [], hp_os = \<lparr>ho_dirs = [], ho_dns = None, ho_link = None, ho_procs = []\<rparr>\<rparr>"

section \<open>Reachable states\<close>

text \<open>
  A helper started on a clean host serves requests; in between a process exits by itself, and the goroutine
  of a process that has exited cleans up.
\<close>

inductive helper_reach :: "string \<Rightarrow> helper \<Rightarrow> bool" for token where
  fresh: "helper_reach token (NewHelperServer token)"
| served: "helper_reach token h \<Longrightarrow> helper_reach token (snd (handleRequest env decoded h))"
| exits: "helper_reach token h \<Longrightarrow> helper_reach token (processExits sid h)"
| cleaned: "helper_reach token h \<Longrightarrow> kv_get (hp_sessions h) sid = Some current \<Longrightarrow>
    list_all (\<lambda>p. Some p \<noteq> hs_pid current) (ho_procs (hp_os h)) \<Longrightarrow> helper_reach token (sessionExited sid h)"

text \<open>
  At most one session, whose core has been started; the host carries nothing that is not of that session.
\<close>

fun host_of :: "(string, hsession) kv \<Rightarrow> hostOS \<Rightarrow> bool" where
  "host_of [] os0 = (ho_dirs os0 = [] \<and> ho_dns os0 = None \<and> ho_link os0 = None \<and> ho_procs os0 = [])"
| "host_of [(sid, current)] os0 =
     (hs_pid current \<noteq> None \<and> set (ho_dirs os0) \<subseteq> {sid} \<and> ho_dns os0 \<in> {None, Some (hs_dns current)} \<and>
      ho_link os0 \<in> {None, Some (hs_dns current)} \<and> list_all (\<lambda>p. hs_pid current = Some p) (ho_procs os0))"
| "host_of (a # b # m) os0 = False"

definition helper_ok :: "helper \<Rightarrow> bool" where
  "helper_ok h = host_of (hp_sessions h) (hp_os h)"

lemma helper_ok_cases:
  assumes "helper_ok h"
  obtains "hp_sessions h = []" "ho_dirs (hp_os h) = []" "ho_dns (hp_os h) = None" "ho_link (hp_os h) = None"
    "ho_procs (hp_os h) = []"
  | sid current pid where "hp_sessions h = [(sid, current)]" "hs_pid current = Some pid"
    "set (ho_dirs (hp_os h)) \<subseteq> {sid}" "ho_dns (hp_os h) \<in> {None, Some (hs_dns current)}"
    "ho_link (hp_os h) \<in> {None, Some (hs_dns current)}" "list_all (\<lambda>p. pid = p) (ho_procs (hp_os h))"
  using assms unfolding helper_ok_def
  by (cases "(hp_sessions h, hp_os h)" rule: host_of.cases) auto

lemma kv_one [simp]: "kv_get [(sid, v)] k = (if k = sid then Some v else None)"
  "kv_del k [(sid, v)] = (if k = sid then [] else [(sid, v)])" "kv_keys [(sid, v)] = [sid]"
  "kv_keys [] = []" "kv_put k w [] = [(k, w)]"
  by (auto simp: kv_get_def kv_del_def kv_keys_def kv_put_def)

lemma processExits_ok: "helper_ok h \<Longrightarrow> helper_ok (processExits sid h)"
  by (erule helper_ok_cases)
    (auto simp: helper_ok_def processExits_def procsWithout_def list_all_iff)

lemma sessionExited_ok:
  assumes "helper_ok h" and "kv_get (hp_sessions h) sid = Some current"
    and "list_all (\<lambda>p. Some p \<noteq> hs_pid current) (ho_procs (hp_os h))"
  shows "helper_ok (sessionExited sid h) \<and> hp_sessions (sessionExited sid h) = []"
  using assms(1)
proof (cases rule: helper_ok_cases)
  case 1
  with assms(2) show ?thesis by simp
next
  case (2 sid' current' pid)
  then have sid: "sid' = sid" "current' = current" using assms(2) by (auto split: if_splits)
  have "ho_procs (hp_os h) = []"
    using 2 assms(3) sid by (cases "ho_procs (hp_os h)") (auto simp: list_all_iff)
  moreover have "filter (\<lambda>d. d \<noteq> sid) (ho_dirs (hp_os h)) = []"
    using 2 sid by (auto simp: filter_empty_conv)
  ultimately show ?thesis
    using 2 sid by (simp add: helper_ok_def sessionExited_def removeDir_def restoreDNS_def)
qed

lemma gone_ok:
  assumes "helper_ok h" and "kv_get (hp_sessions h) sid = Some current"
  shows "helper_ok (sessionExited sid (processExits sid h)) \<and> hp_sessions (sessionExited sid (processExits sid h)) = []"
proof (rule sessionExited_ok)
  show "helper_ok (processExits sid h)" using assms(1) by (rule processExits_ok)
  show "kv_get (hp_sessions (processExits sid h)) sid = Some current"
    using assms(2) by (simp add: processExits_def)
  show "list_all (\<lambda>p. Some p \<noteq> hs_pid current) (ho_procs (hp_os (processExits sid h)))"
    using assms(2) by (auto simp: processExits_def procsWithout_def list_all_iff)
qed

lemma stopSession_ok: "helper_ok h \<Longrightarrow> helper_ok (snd (stopSession env sid h))"
  using gone_ok by (auto simp: stopSession_def split: option.splits)

lemma stopAllSessions_ok: "helper_ok h \<Longrightarrow> helper_ok (stopAllSessions env h)"
proof -
  have "helper_ok h \<Longrightarrow> helper_ok (foldl (\<lambda>h sid. snd (stopSession env sid h)) h ids)" for ids
    by (induction ids arbitrary: h) (simp_all add: stopSession_ok)
  then show "helper_ok h \<Longrightarrow> helper_ok (stopAllSessions env h)" by (simp add: stopAllSessions_def)
qed

section \<open>Starting\<close>

definition os_clean :: "hostOS \<Rightarrow> bool" where
  "os_clean os0 = host_of [] os0"

lemma os_clean_removeDir: "os_clean os0 \<Longrightarrow> removeDir sid os0 = os0"
  by (cases os0) (simp add: os_clean_def removeDir_def)

lemma removeDir_made: "os_clean os0 \<Longrightarrow> removeDir sid (os0\<lparr>ho_dirs := [sid]\<rparr>) = os0"
  by (cases os0) (simp add: os_clean_def removeDir_def)

lemma restoreDNS_made:
  "os_clean os0 \<Longrightarrow> removeDir sid (restoreDNS (os0\<lparr>ho_dirs := [sid], ho_dns := d\<rparr>)) = os0"
  by (cases os0) (simp add: os_clean_def removeDir_def restoreDNS_def)

lemma launchSession_cases:
  assumes clean: "os_clean os0"
  shows "(\<exists>e. launchSession env sid current os0 = (Inl e, os0)) \<or>
    (\<exists>pid. launchSession env sid current os0 =
      (Inr pid, os0\<lparr>ho_dirs := [sid], ho_dns := Some (hs_dns current), ho_procs := [pid]\<rparr>))"
proof -
  note s = launchSession_def os_clean_removeDir [OF clean] removeDir_made [OF clean] restoreDNS_made [OF clean] Let_def
  have empty: "ho_dirs os0 = []" "ho_procs os0 = []" using clean by (simp_all add: os_clean_def)
  consider "\<exists>e. le_root env = Some e"
  | "le_root env = None" "\<exists>e. le_clear env = Some e"
  | "le_root env = None" "le_clear env = None" "\<exists>e. le_mkdir env = Some e"
  | "le_root env = None" "le_clear env = None" "le_mkdir env = None" "\<exists>e. le_config env = Some e"
  | "le_root env = None" "le_clear env = None" "le_mkdir env = None" "le_config env = None" 
      "\<exists>e. le_binary env = Inl e"
  | "le_root env = None" "le_clear env = None" "le_mkdir env = None" "le_config env = None" 
      "\<exists>b. le_binary env = Inr b" "\<exists>e. le_log env = Some e"
  | "le_root env = None" "le_clear env = None" "le_mkdir env = None" "le_config env = None" 
      "\<exists>b. le_binary env = Inr b" "le_log env = None" "\<exists>e. le_dns env = Some e"
  | "le_root env = None" "le_clear env = None" "le_mkdir env = None" "le_config env = None" 
      "\<exists>b. le_binary env = Inr b" "le_log env = None" "le_dns env = None" 
      "\<exists>e. le_start env = Inl e"
  | "le_root env = None" "le_clear env = None" "le_mkdir env = None" "le_config env = None" 
      "\<exists>b. le_binary env = Inr b" "le_log env = None" "le_dns env = None" 
      "\<exists>b. le_start env = Inr b"
    by (cases "le_binary env"; cases "le_start env") blast+
  then show ?thesis
    by cases (use empty in \<open>auto simp: s\<close>)
qed

lemma launchSession_fails:
  "os_clean os0 \<Longrightarrow> launchSession env sid current os0 = (Inl e, os1) \<Longrightarrow> os_clean os1"
  using launchSession_cases [of os0 env sid current] by auto

lemma launchSession_runs:
  "os_clean os0 \<Longrightarrow> launchSession env sid current os0 = (Inr pid, os1) \<Longrightarrow>
   ho_dirs os1 = [sid] \<and> ho_dns os1 = Some (hs_dns current) \<and> ho_link os1 = None \<and> ho_procs os1 = [pid]"
  using launchSession_cases [of os0 env sid current] by (auto simp: os_clean_def)

lemma waitStart_keeps [simp]:
  "ho_dirs (snd (waitStart linked dns ts os0)) = ho_dirs os0"
  "ho_dns (snd (waitStart linked dns ts os0)) = ho_dns os0"
  "ho_procs (snd (waitStart linked dns ts os0)) = ho_procs os0"
  by (induction linked dns ts os0 rule: waitStart.induct) (simp_all add: Let_def)

lemma waitStart_link:
  "ho_link (snd (waitStart linked dns ts os0)) \<in> {ho_link os0, Some dns}"
  by (induction linked dns ts os0 rule: waitStart.induct) (simp_all add: Let_def, fastforce+)

lemma waitStart_host:
  "waitStart linked dns ts os0 = (err, os1) \<Longrightarrow>
   ho_dirs os1 = ho_dirs os0 \<and> ho_dns os1 = ho_dns os0 \<and> ho_procs os1 = ho_procs os0 \<and>
   ho_link os1 \<in> {ho_link os0, Some dns}"
  using waitStart_keeps [of linked dns ts os0] waitStart_link [of linked dns ts os0] by simp

lemma started_ok:
  assumes "os_clean os0" and "launchSession env sid current os0 = (Inr pid, os1)"
    and "waitStart False (hs_dns current) ts os1 = (err, os2)"
  shows "helper_ok \<lparr>hp_token = t, hp_sessions = [(sid, current\<lparr>hs_pid := Some pid\<rparr>)], hp_os = os2\<rparr>"
  using launchSession_runs [OF assms(1, 2)] waitStart_host [OF assms(3)]
  by (auto simp: helper_ok_def)

lemma startSession_cases:
  assumes "helper_ok h"
  obtains (invalid) e where "prepareSession env spec = Inl e" "startSession env spec h = (Some e, h)"
  | (known) "kv_get (hp_sessions h) (ss_ID spec) \<noteq> None" "startSession env spec h = (None, h)"
  | (busy) "kv_get (hp_sessions h) (ss_ID spec) = None" "hp_sessions (stopAllSessions env h) \<noteq> []"
      "startSession env spec h =
         (Some (Errorf ''another privileged TUN session is already active''), stopAllSessions env h)"
  | (failed) e h1 where "kv_get (hp_sessions h) (ss_ID spec) = None" "startSession env spec h = (Some e, h1)"
      "helper_ok h1" "hp_sessions h1 = []"
  | (launched) err current pid h2 where "kv_get (hp_sessions h) (ss_ID spec) = None"
      "prepareSession env spec = Inr current" "hp_sessions h2 = [(ss_ID spec, current\<lparr>hs_pid := Some pid\<rparr>)]"
      "helper_ok h2" "ho_dirs (hp_os h2) = [ss_ID spec]" "ho_dns (hp_os h2) = Some (hs_dns current)"
      "ho_procs (hp_os h2) = [pid]"
      "startSession env spec h =
         (err, if err = None then h2
               else if le_cleaned env then sessionExited (ss_ID spec) (processExits (ss_ID spec) h2)
               else processExits (ss_ID spec) h2)"
proof -
  define h1 where "h1 = (if hp_sessions h \<noteq> [] then stopAllSessions env h else h)"
  have ok1: "helper_ok h1" using assms by (simp add: h1_def stopAllSessions_ok)
  show thesis
  proof (cases "prepareSession env spec")
    case (Inl e)
    then show ?thesis by (intro invalid [of e]) (simp_all add: startSession_def)
  next
    case (Inr current)
    show ?thesis
    proof (cases "kv_get (hp_sessions h) (ss_ID spec)")
      case (Some x)
      then show ?thesis using Inr by (intro known) (simp_all add: startSession_def)
    next
      case None
      have start: "startSession env spec h =
         (if hp_sessions h1 \<noteq> [] then (Some (Errorf ''another privileged TUN session is already active''), h1)
          else (case launchSession env (ss_ID spec) current (hp_os h1) of
              (Inl e, os) \<Rightarrow> (Some e, h1\<lparr>hp_os := os\<rparr>)
            | (Inr pid, os) \<Rightarrow>
                (case waitStart False (hs_dns current) (le_ticks env) os of
                   (err, os') \<Rightarrow>
                     let h2 = h1\<lparr>hp_sessions := kv_put (ss_ID spec) (current\<lparr>hs_pid := Some pid\<rparr>) (hp_sessions h1), hp_os := os'\<rparr>
                     in (err, if err = None then h2
                              else if le_cleaned env then sessionExited (ss_ID spec) (processExits (ss_ID spec) h2)
                              else processExits (ss_ID spec) h2))))"
        unfolding startSession_def h1_def Inr None by (simp only: sum.case Let_def if_False not_True_eq_False simp_thms)
      show ?thesis
      proof (cases "hp_sessions h1 = []")
        case False
        then have "h1 = stopAllSessions env h" by (auto simp: h1_def)
        then show ?thesis using None start False by (intro busy) simp_all
      next
        case empty: True
        have clean: "os_clean (hp_os h1)" using ok1 empty by (simp add: helper_ok_def os_clean_def)
        obtain r os1 where l: "launchSession env (ss_ID spec) current (hp_os h1) = (r, os1)"
          by (cases "launchSession env (ss_ID spec) current (hp_os h1)")
        show ?thesis
        proof (cases r)
          case (Inl e)
          have "helper_ok (h1\<lparr>hp_os := os1\<rparr>)"
            using launchSession_fails [OF clean l [unfolded Inl]] empty by (simp add: helper_ok_def os_clean_def)
          then show ?thesis using None start empty l Inl by (intro failed [of e "h1\<lparr>hp_os := os1\<rparr>"]) simp_all
        next
          case (Inr pid)
          obtain err os2 where w: "waitStart False (hs_dns current) (le_ticks env) os1 = (err, os2)"
            by (cases "waitStart False (hs_dns current) (le_ticks env) os1")
          let ?h2 = "h1\<lparr>hp_sessions := [(ss_ID spec, current\<lparr>hs_pid := Some pid\<rparr>)], hp_os := os2\<rparr>"
          have "helper_ok ?h2"
            using started_ok [OF clean l [unfolded Inr] w, of "hp_token h1"] by (simp add: helper_ok_def)
          moreover note launchSession_runs [OF clean l [unfolded Inr]] waitStart_host [OF w]
          moreover note \<open>prepareSession env spec = Inr current\<close>
          ultimately show ?thesis using None start empty l Inr w
            by (intro launched [of current ?h2 pid err]) (simp_all add: Let_def)
        qed
      qed
    qed
  qed
qed

lemma startSession_ok:
  assumes "helper_ok h"
  shows "helper_ok (snd (startSession env spec h))"
  using assms
proof (cases rule: startSession_cases [where env = env and spec = spec])
  case (launched err current pid h2)
  then have "kv_get (hp_sessions h2) (ss_ID spec) = Some (current\<lparr>hs_pid := Some pid\<rparr>)" by simp
  with launched show ?thesis using gone_ok [OF launched(4)] processExits_ok [OF launched(4)] by simp
qed (use assms stopAllSessions_ok in auto)

lemma updateSessionDNS_ok:
  assumes "helper_ok h"
  shows "helper_ok (snd (updateSessionDNS env sid dns h))"
  using assms
proof (cases rule: helper_ok_cases)
  case 1
  then show ?thesis using assms by (simp add: updateSessionDNS_def)
next
  case (2 sid' current pid)
  then show ?thesis using assms
    by (auto simp: updateSessionDNS_def helper_ok_def Let_def kv_put_def split: option.splits)
qed

lemma dispatch_ok: "helper_ok h \<Longrightarrow> helper_ok (snd (dispatchRequest env request h))"
  using startSession_ok [of h env] stopSession_ok [of h env] stopAllSessions_ok [of h env]
    updateSessionDNS_ok [of h env]
  by (auto simp: dispatchRequest_def split_beta split: option.splits sum.splits)

lemma handleRequest_ok: "helper_ok h \<Longrightarrow> helper_ok (snd (handleRequest env decoded h))"
  using dispatch_ok [of h env] stopSession_ok [of _ env]
  by (auto simp: handleRequest_def split_beta split: option.splits)

lemma reach_ok: "helper_reach token h \<Longrightarrow> helper_ok h"
proof (induction rule: helper_reach.induct)
  case fresh
  then show ?case by (simp add: helper_ok_def NewHelperServer_def)
next
  case (served h env decoded)
  then show ?case by (simp add: handleRequest_ok)
next
  case (exits h sid)
  then show ?case by (simp add: processExits_ok)
next
  case (cleaned h sid current)
  then show ?case using sessionExited_ok [of h sid current] by blast
qed

end
