(* ===== verification/HelperClient.thy ===== *)
theory HelperClient
  imports Helper CoreRuntime
begin

text \<open>
  The client of the privileged helper, \<^verbatim>\<open>internal/helper/client.go\<close> and
  \<^verbatim>\<open>internal/session/helper_runtime.go\<close>: what the desktop process asks of the helper. An answer that does
  not arrive, for whatever reason, is a read error.
\<close>

section \<open>The client\<close>

definition emptyRequest :: "string \<Rightarrow> hRequest" where
  "emptyRequest op = \<lparr>rq_Op = op, rq_Token = [], rq_Session = None, rq_SessionID = [], rq_LogOffset = 0, rq_DNS = None\<rparr>"

definition clientRoundTrip :: "helperEnv \<Rightarrow> string \<Rightarrow> hRequest \<Rightarrow> helper \<Rightarrow> hResponse res \<times> helper" where
  "clientRoundTrip env token request h =
     (if token = [] then (Inl (Errorf ''helper token is required''), h)
      else case le_dial env of
        Some e \<Rightarrow> (Inl e, h)
      | None \<Rightarrow>
          (case handleRequest env (Some (request\<lparr>rq_Token := token\<rparr>)) h of
             (response, h') \<Rightarrow>
               if \<not> le_answered env then (Inl (Errorf ''read helper response: EOF''), h')
               else if \<not> rp_OK response
               then (Inl (Errorf (if rp_Error response = [] then ''helper request failed'' else rp_Error response)), h')
               else (Inr response, h')))"

definition isHelperSessionBusy :: "goerr \<Rightarrow> bool" where
  "isHelperSessionBusy e = str_contains (err_text e) ''another privileged TUN session is already active''"

definition clientStart :: "helperEnv \<Rightarrow> string \<Rightarrow> SessionSpec \<Rightarrow> helper \<Rightarrow> hResponse res \<times> helper" where
  "clientStart env token spec h = clientRoundTrip env token (emptyRequest ''start''\<lparr>rq_Session := Some spec\<rparr>) h"

definition clientStopAll :: "helperEnv \<Rightarrow> string \<Rightarrow> helper \<Rightarrow> hResponse res \<times> helper" where
  "clientStopAll env token h = clientRoundTrip env token (emptyRequest ''stop-all'') h"

definition clientReadLogs :: "helperEnv \<Rightarrow> string \<Rightarrow> string \<Rightarrow> int \<Rightarrow> helper \<Rightarrow> hResponse res \<times> helper" where
  "clientReadLogs env token sid offset h =
     clientRoundTrip env token (emptyRequest ''read-logs''\<lparr>rq_SessionID := sid, rq_LogOffset := offset\<rparr>) h"

text \<open>
  \<^verbatim>\<open>PrivilegedStart\<close>: a session that a crash left behind is stopped, and the start is tried once more. The
  three requests have their own environments.
\<close>

definition PrivilegedStart ::
    "helperEnv \<Rightarrow> helperEnv \<Rightarrow> helperEnv \<Rightarrow> goerr option \<Rightarrow> string \<Rightarrow> SessionSpec \<Rightarrow> helper \<Rightarrow> unit res \<times> helper" where
  "PrivilegedStart env1 env2 env3 ensure token spec h0 =
     (case ensure of
        Some e \<Rightarrow> (Inl (Wrapf ''ensure privileged helper: '' e), h0)
      | None \<Rightarrow>
          (case clientStart env1 token spec h0 of
             (Inr _, h1) \<Rightarrow> (Inr (), h1)
           | (Inl e, h1) \<Rightarrow>
               if \<not> isHelperSessionBusy e then (Inl (Wrapf ''helper start session: '' e), h1)
               else (case clientStopAll env2 token h1 of
                 (Inl stopErr, h2) \<Rightarrow> (Inl (Errorf (''helper start session: '' @ err_text e @ '' (stop-all: '' @ err_text stopErr @ '')'')), h2)
               | (Inr _, h2) \<Rightarrow>
                   (case clientStart env3 token spec h2 of
                      (Inl e', h3) \<Rightarrow> (Inl (Wrapf ''helper start session: '' e'), h3)
                    | (Inr _, h3) \<Rightarrow> (Inr (), h3)))))"

definition PrivilegedReadLogs :: "helperEnv \<Rightarrow> string \<Rightarrow> helper \<Rightarrow> string \<Rightarrow> int \<Rightarrow> (string \<times> int) res" where
  "PrivilegedReadLogs env token h sid offset =
     (case fst (clientReadLogs env token sid offset h) of
        Inl e \<Rightarrow> Inl e
      | Inr response \<Rightarrow> Inr (rp_LogData response, rp_LogOffset response))"

section \<open>The host is clean when no session is active\<close>

lemma helper_host_clean_lemma:
  assumes "helper_reach token h"
  shows "length (hp_sessions h) \<le> 1 \<and>
    (case hp_sessions h of
       [] \<Rightarrow> hp_os h = \<lparr>ho_dirs = [], ho_dns = None, ho_link = None, ho_procs = []\<rparr>
     | (sid, current) # _ \<Rightarrow>
         hs_pid current \<noteq> None \<and> list_all (\<lambda>d. d = sid) (ho_dirs (hp_os h)) \<and>
         list_all (\<lambda>p. Some p = hs_pid current) (ho_procs (hp_os h)) \<and>
         ho_dns (hp_os h) \<in> {None, Some (hs_dns current)} \<and> ho_link (hp_os h) \<in> {None, Some (hs_dns current)})"
  using reach_ok [OF assms]
proof (cases rule: helper_ok_cases)
  case 1
  then show ?thesis by simp
next
  case (2 sid current pid)
  then show ?thesis by (auto simp: list_all_iff)
qed

section \<open>Starting\<close>

definition session_up :: "SessionSpec \<Rightarrow> helper \<Rightarrow> bool" where
  "session_up spec h =
     (case hp_sessions h of
        [(sid, current)] \<Rightarrow> sid = ss_ID spec \<and> hs_tun current = ss_TUNAddress spec \<and>
          (case hs_pid current of None \<Rightarrow> False | Some pid \<Rightarrow> ho_procs (hp_os h) = [pid]) \<and>
          ho_dirs (hp_os h) = [sid] \<and> ho_dns (hp_os h) = Some (hs_dns current)
      | _ \<Rightarrow> False)"

lemma prepareSession_tun: "prepareSession env spec = Inr current \<Longrightarrow> hs_tun current = ss_TUNAddress spec"
  by (auto simp: prepareSession_def bindE_def wrapR_def split: sum.splits)

lemma stopSession_absent:
  "kv_get (hp_sessions h) k = None \<Longrightarrow> kv_get (hp_sessions (snd (stopSession env sid h))) k = None"
  by (auto simp: stopSession_def sessionExited_def processExits_def kv_simps split: option.splits)

lemma stopAll_absent:
  assumes "kv_get (hp_sessions h) k = None"
  shows "kv_get (hp_sessions (stopAllSessions env h)) k = None"
proof -
  have "kv_get (hp_sessions (foldl (\<lambda>h sid. snd (stopSession env sid h)) h ids)) k = None" for ids
    using assms by (induction ids arbitrary: h) (simp_all add: stopSession_absent)
  then show ?thesis by (simp add: stopAllSessions_def)
qed

lemma startSession_outcome:
  assumes "helper_ok h" "kv_get (hp_sessions h) (ss_ID spec) = None" "startSession env spec h = (err, h')"
  shows "(err = None \<longrightarrow> session_up spec h') \<and>
    (err \<noteq> None \<and> le_cleaned env \<longrightarrow> kv_get (hp_sessions h') (ss_ID spec) = None)"
  using assms(1)
proof (cases rule: startSession_cases [where env = env and spec = spec])
  case (launched err' current pid h2)
  have "kv_get (hp_sessions h2) (ss_ID spec) = Some (current\<lparr>hs_pid := Some pid\<rparr>)" using launched by simp
  note gone_ok [OF launched(4) this]
  moreover have "session_up spec h2" using launched prepareSession_tun [of env spec current] by (simp add: session_up_def)
  ultimately show ?thesis using launched assms by (auto split: if_splits)
qed (use assms stopAll_absent in auto)

text \<open>
  A start whose core has exited is answered before the goroutine of that core has cleaned up: a second start
  of the same session in between succeeds, although nothing runs.
\<close>

lemma start_meets_dead_session:
  assumes "helper_ok h" "kv_get (hp_sessions h) (ss_ID spec) = None" "startSession env spec h = (Some e, h')"
    and "kv_get (hp_sessions h') (ss_ID spec) \<noteq> None" "prepareSession env2 spec = Inr current2"
  shows "startSession env2 spec h' = (None, h') \<and> ho_procs (hp_os h') = []"
proof -
  have "startSession env2 spec h' = (None, h')" using assms(4,5) by (simp add: startSession_def)
  moreover from assms(1) have "ho_procs (hp_os h') = []"
  proof (cases rule: startSession_cases [where env = env and spec = spec])
    case (launched err current pid h2)
    have "kv_get (hp_sessions h2) (ss_ID spec) = Some (current\<lparr>hs_pid := Some pid\<rparr>)" using launched by simp
    note g = gone_ok [OF launched(4) this] and get2 = this
    have "ho_procs (hp_os (processExits (ss_ID spec) h2)) = []"
      using launched get2 by (simp add: processExits_def procsWithout_def)
    then show ?thesis using launched assms g by (auto split: if_splits)
  qed (use assms stopAll_absent in auto)
  ultimately show ?thesis by blast
qed

lemma emptyRequest_simps [simp]: "rq_Op (emptyRequest op) = op" "rq_Session (emptyRequest op) = None"
  "rq_SessionID (emptyRequest op) = []" "rq_LogOffset (emptyRequest op) = 0" "rq_DNS (emptyRequest op) = None"
  by (simp_all add: emptyRequest_def)

lemma dispatch_start:
  "dispatchRequest env (emptyRequest ''start''\<lparr>rq_Session := Some spec, rq_Token := token\<rparr>) h =
     (if token = [] \<or> token \<noteq> hp_token h then (errResponse ''unauthorized'', h)
      else case startSession env spec h of (err, h') \<Rightarrow> (answer err, h'))"
  by (simp add: dispatchRequest_def emptyRequest_def)

lemma dispatch_stop_all:
  "dispatchRequest env (emptyRequest ''stop-all''\<lparr>rq_Token := token\<rparr>) h =
     (if token = [] \<or> token \<noteq> hp_token h then (errResponse ''unauthorized'', h) else (okResponse, stopAllSessions env h))"
  by (simp add: dispatchRequest_def emptyRequest_def)

lemma rp_OK_simps [simp]: "rp_OK okResponse" "\<not> rp_OK (errResponse e)" "rp_OK (answer err) \<longleftrightarrow> err = None"
  by (simp_all add: okResponse_def errResponse_def answer_def split: option.splits)

lemma stopped_up:
  assumes "session_up spec h" "helper_ok h" "le_exits env (ss_ID spec)"
  shows "kv_get (hp_sessions (snd (stopSession env (ss_ID spec) h))) (ss_ID spec) = None"
proof -
  from assms(1) obtain current pid where s: "hp_sessions h = [(ss_ID spec, current)]" "hs_pid current = Some pid"
    by (cases "hp_sessions h" rule: list.exhaust)
       (auto simp: session_up_def split: prod.splits list.splits option.splits)
  then have "kv_get (hp_sessions h) (ss_ID spec) = Some current" by simp
  from gone_ok [OF assms(2) this] this s(2) assms(3) show ?thesis by (simp add: stopSession_def)
qed

lemma clientStart_outcome:
  assumes ok: "helper_ok h" and absent: "kv_get (hp_sessions h) (ss_ID spec) = None"
  shows "(case clientStart env token spec h of
      (Inr _, h') \<Rightarrow> session_up spec h'
    | (Inl e, h') \<Rightarrow> helper_ok h' \<and> (le_cleaned env \<and> le_exits env (ss_ID spec) \<longrightarrow> kv_get (hp_sessions h') (ss_ID spec) = None))"
proof -
  obtain err h1 where st: "startSession env spec h = (err, h1)" by (cases "startSession env spec h")
  note out = startSession_outcome [OF ok absent st]
  have ok1: "helper_ok h1" using startSession_ok [OF ok, of env spec] st by simp
  have rq [simp]: "rq_Op (emptyRequest ''start''\<lparr>rq_Session := Some spec, rq_Token := token\<rparr>) = ''start''"
    "rq_Session (emptyRequest ''start''\<lparr>rq_Session := Some spec, rq_Token := token\<rparr>) = Some spec"
    by (simp_all add: emptyRequest_def)
  let ?served = "handleRequest env (Some (emptyRequest ''start''\<lparr>rq_Session := Some spec, rq_Token := token\<rparr>)) h"
  consider (away) "token = [] \<or> le_dial env \<noteq> None" | (refused) "token \<noteq> []" "le_dial env = None" "token \<noteq> hp_token h"
    | (served) "token \<noteq> []" "le_dial env = None" "token = hp_token h" by blast
  then show ?thesis
  proof cases
    case away
    then show ?thesis using ok absent by (auto simp: clientStart_def clientRoundTrip_def split: option.splits)
  next
    case refused
    then have "?served = (errResponse ''unauthorized'', h)"
      by (simp add: handleRequest_def dispatch_start)
    then show ?thesis using refused ok absent by (simp add: clientStart_def clientRoundTrip_def)
  next
    case served
    then have h': "?served = (answer err, if \<not> le_answered env \<and> err = None then snd (stopSession env (ss_ID spec) h1) else h1)"
      using st by (simp add: handleRequest_def dispatch_start)
    show ?thesis
    proof (cases err)
      case None
      then have up: "session_up spec h1" using out by simp
      show ?thesis
        using served h' None up stopped_up [OF up ok1, of env] stopSession_ok [OF ok1, of env "ss_ID spec"]
        by (simp add: clientStart_def clientRoundTrip_def)
    next
      case (Some e)
      then show ?thesis using served h' out ok1 by (simp add: clientStart_def clientRoundTrip_def)
    qed
  qed
qed

lemma clientStopAll_keeps:
  assumes "helper_ok h" "kv_get (hp_sessions h) k = None"
  shows "helper_ok (snd (clientStopAll env token h)) \<and> kv_get (hp_sessions (snd (clientStopAll env token h))) k = None"
proof -
  have rq: "rq_Op (emptyRequest ''stop-all''\<lparr>rq_Token := token\<rparr>) \<noteq> ''start''" by (simp add: emptyRequest_def)
  have "snd (clientStopAll env token h) = h \<or> snd (clientStopAll env token h) = stopAllSessions env h"
    unfolding clientStopAll_def clientRoundTrip_def handleRequest_def
    by (simp add: dispatch_stop_all rq split: option.split)
  then show ?thesis using assms stopAllSessions_ok [of h env] stopAll_absent [of h k env] by auto
qed

text \<open>
  C7. Starting the privileged session, from the desktop process to the host. Whatever state the helper
  has reached and whatever left-over session it holds, when \<^verbatim>\<open>PrivilegedStart\<close> succeeds the session asked for
  is the only one, its core is the only process, its directory the only protected directory, and the
  platform's DNS is its own; when it fails, at any step, with a lost answer or with a core that exits, no
  session of that ID is left behind (provided the goroutine of a core that exited is done, and a core that
  is told to stop exits in time).
\<close>

theorem privileged_start_exact:
  assumes reach: "helper_reach tok h" and absent: "kv_get (hp_sessions h) (ss_ID spec) = None"
    and live: "list_all (\<lambda>env. le_cleaned env \<and> le_exits env (ss_ID spec)) [env1, env3]"
  shows "case PrivilegedStart env1 env2 env3 ensure token spec h of
      (Inr _, h') \<Rightarrow> session_up spec h'
    | (Inl e, h') \<Rightarrow> kv_get (hp_sessions h') (ss_ID spec) = None"
proof (cases ensure)
  case (Some e)
  then show ?thesis using absent by (simp add: PrivilegedStart_def)
next
  case None
  obtain r1 h1 where c1: "clientStart env1 token spec h = (r1, h1)" by (cases "clientStart env1 token spec h")
  note out1 = clientStart_outcome [OF reach_ok [OF reach] absent, of env1 token, unfolded c1, simplified]
  show ?thesis
  proof (cases r1)
    case (Inr resp)
    then show ?thesis using out1 None c1 by (simp add: PrivilegedStart_def)
  next
    case (Inl e1)
    then have h1: "helper_ok h1" "kv_get (hp_sessions h1) (ss_ID spec) = None" using out1 live by simp_all
    obtain r2 h2 where c2: "clientStopAll env2 token h1 = (r2, h2)" by (cases "clientStopAll env2 token h1")
    have h2: "helper_ok h2" "kv_get (hp_sessions h2) (ss_ID spec) = None"
      using clientStopAll_keeps [OF h1, of env2 token] c2 by simp_all
    obtain r3 h3 where c3: "clientStart env3 token spec h2 = (r3, h3)" by (cases "clientStart env3 token spec h2")
    note out3 = clientStart_outcome [OF h2, of env3 token, unfolded c3, simplified]
    show ?thesis
      using Inl None c1 c2 c3 h1 h2 out3 live by (simp add: PrivilegedStart_def split: sum.splits)
  qed
qed


section \<open>An example\<close>

definition ex_helperEnv :: helperEnv where
  "ex_helperEnv = \<lparr>le_lib = ex_net, le_goos = ''linux'', le_root = None, le_clear = None, le_mkdir = None, le_config = None,
     le_binary = Inr ''/usr/bin/sing-box'', le_log = None, le_dns = None, le_start = Inr 42,
     le_ticks = [StartTick False False False, StartTick True True False], le_cleaned = True, le_exits = (\<lambda>_. True), le_update = None,
     le_undo = None, le_link = None, le_file = Inr ''ready'', le_dial = None, le_answered = True\<rparr>"

lemma ex_prepared: "\<exists>current. prepareSession ex_helperEnv ex_sessionSpec = Inr current"
  using session_configured [OF ex_net_laws ex_net_addr, where s = ex_sessionSpec and goos = "''linux''"] ex_sessionSpec_valid
  by (auto simp: prepareSession_def ex_helperEnv_def wrapR_def)

lemma ex_startSession:
  "\<exists>h'. startSession ex_helperEnv ex_sessionSpec (NewHelperServer ''token'') = (None, h') \<and> hp_sessions h' \<noteq> [] \<and>
     hp_token h' = ''token'' \<and> kv_get (hp_sessions h') (ss_ID ex_sessionSpec) \<noteq> None"
proof -
  obtain current where "prepareSession ex_helperEnv ex_sessionSpec = Inr current" using ex_prepared by blast
  moreover have "launchSession ex_helperEnv sid current (hp_os (NewHelperServer t)) =
      (Inr 42, \<lparr>ho_dirs = [sid], ho_dns = Some (hs_dns current), ho_link = None, ho_procs = [42]\<rparr>)" for sid t
    by (simp add: launchSession_def ex_helperEnv_def NewHelperServer_def removeDir_def)
  moreover have "hp_sessions (NewHelperServer t) = []" "hp_token (NewHelperServer t) = t" for t by (simp_all add: NewHelperServer_def)
  moreover have "waitStart False d (le_ticks ex_helperEnv) os0 = (None, os0\<lparr>ho_link := Some d\<rparr>)" for d os0
    by (simp add: ex_helperEnv_def)
  ultimately have "startSession ex_helperEnv ex_sessionSpec (NewHelperServer ''token'') =
      (None, (NewHelperServer ''token'')\<lparr>hp_sessions := [(ss_ID ex_sessionSpec, current\<lparr>hs_pid := Some 42\<rparr>)],
        hp_os := \<lparr>ho_dirs = [ss_ID ex_sessionSpec], ho_dns = Some (hs_dns current), ho_link = Some (hs_dns current), ho_procs = [42]\<rparr>\<rparr>)"
    by (simp add: startSession_def)
  then show ?thesis by (simp add: NewHelperServer_def)
qed

lemma ex_env: "le_dial ex_helperEnv = None" "le_answered ex_helperEnv" "hp_token (NewHelperServer ''token'') = ''token''"
  by (simp_all add: ex_helperEnv_def NewHelperServer_def)

lemma ex_started:
  "\<exists>h'. PrivilegedStart ex_helperEnv ex_helperEnv ex_helperEnv None ''token'' ex_sessionSpec (NewHelperServer ''token'') = (Inr (), h') \<and>
     hp_sessions h' \<noteq> []"
  using ex_startSession ex_env
  by (auto simp: PrivilegedStart_def clientStart_def clientRoundTrip_def handleRequest_def dispatch_start)

theorem privileged_start_exact_witness:
  "\<exists>h'. PrivilegedStart ex_helperEnv ex_helperEnv ex_helperEnv None ''token'' ex_sessionSpec (NewHelperServer ''token'') = (Inr (), h') \<and>
     session_up ex_sessionSpec h'"
proof -
  have "list_all (\<lambda>env. le_cleaned env \<and> le_exits env (ss_ID ex_sessionSpec)) [ex_helperEnv, ex_helperEnv]"
    by (simp add: ex_helperEnv_def)
  moreover have "kv_get (hp_sessions (NewHelperServer ''token'')) (ss_ID ex_sessionSpec) = None" by (simp add: NewHelperServer_def)
  ultimately show ?thesis
    using ex_started helper_reach.fresh [of "''token''"]
      privileged_start_exact [of "''token''" "NewHelperServer ''token''" ex_sessionSpec ex_helperEnv ex_helperEnv ex_helperEnv None "''token''"]
    by auto
qed


section \<open>The log of the core, from the file to the lines\<close>

lemma dispatch_read_logs:
  "dispatchRequest env (emptyRequest ''read-logs''\<lparr>rq_SessionID := sid, rq_LogOffset := offset, rq_Token := token\<rparr>) h =
     (if token = [] \<or> token \<noteq> hp_token h then (errResponse ''unauthorized'', h)
      else case ValidateSessionID sid of
           Inl e \<Rightarrow> (errResponse (err_text e), h)
         | Inr _ \<Rightarrow>
             (case readSessionLogs env sid offset h of
                Inl e \<Rightarrow> (errResponse (err_text e), h)
              | Inr (data, offset) \<Rightarrow> (okResponse\<lparr>rp_LogData := data, rp_LogOffset := offset\<rparr>, h)))"
  by (cases "ValidateSessionID sid") (simp_all add: dispatchRequest_def)

lemma privilegedRead:
  assumes "PrivilegedReadLogs env token h sid offset = Inr (data, next0)"
  shows "readSessionLogs env sid offset h = Inr (data, next0) \<and> le_dial env = None \<and> le_answered env"
  using assms
  by (auto simp: PrivilegedReadLogs_def clientReadLogs_def clientRoundTrip_def handleRequest_def dispatch_read_logs okResponse_def errResponse_def
      split: if_splits option.splits sum.splits)

lemma privilegedRead_ok:
  assumes "le_dial env = None" "le_answered env" "token \<noteq> []" "hp_token h = token" "ValidateSessionID sid = Inr ()"
    and "readSessionLogs env sid offset h = Inr (data, next0)"
  shows "PrivilegedReadLogs env token h sid offset = Inr (data, next0)"
  using assms
  by (simp add: PrivilegedReadLogs_def clientReadLogs_def clientRoundTrip_def handleRequest_def dispatch_read_logs okResponse_def)

lemma take_length_take: "take (length (take m xs)) xs = take m xs"
  by (simp add: min_def)

lemma readSessionLogs_chunk:
  assumes "readSessionLogs env sid (int k) h = Inr (data, next0)" "le_file env = Inr content" "k \<le> length content"
  shows "data = take maxSessionLogRead (drop k content)" "next0 = int (k + length data)"
    "take (k + length data) content = take k content @ data"
proof -
  from assms show data: "data = take maxSessionLogRead (drop k content)" "next0 = int (k + length data)"
    by (auto simp: readSessionLogs_def Let_def split: if_splits)
  show "take (k + length data) content = take k content @ data"
    unfolding take_add data(1) take_length_take by (rule refl)
qed

lemma take_grown:
  assumes "k \<le> length (take n log)" shows "take k (take n log) = take k log"
  using assms by (simp add: min_absorb1)

text \<open>The state of the client after some reads of a log of which a prefix has been written.\<close>

definition log_read :: "string \<Rightarrow> string \<Rightarrow> string list \<Rightarrow> Process \<Rightarrow> bool" where
  "log_read sid log ls p \<longleftrightarrow> ss_ID (pr_spec p) = sid \<and> 0 \<le> pr_logOffset p \<and>
     unlines ls @ pr_logPending p = take (nat (pr_logOffset p)) log \<and> list_all (\<lambda>l. CHR 0x0A \<notin> set l) ls"

lemma log_read_step:
  assumes r: "log_read sid log ls p" and grown: "nat (pr_logOffset p) \<le> length (take n log)"
    and content: "case le_file env of Inl e \<Rightarrow> True | Inr s \<Rightarrow> s = take n log"
  shows "case ReadLogs (Some (PrivilegedReadLogs env token h)) p of
      (Inl e, p') \<Rightarrow> p' = p
    | (Inr ms, p') \<Rightarrow> log_read sid log (ls @ ms) p' \<and> le_file env = Inr (take n log) \<and>
        pr_logOffset p' = pr_logOffset p + int (min maxSessionLogRead (length (take n log) - nat (pr_logOffset p)))"
proof (cases "PrivilegedReadLogs env token h sid (pr_logOffset p)")
  case (Inl e)
  then show ?thesis using r by (simp add: ReadLogs_def log_read_def)
next
  case (Inr d)
  obtain data next0 where d: "d = (data, next0)" by (cases d)
  let ?k = "nat (pr_logOffset p)"
  have k: "int ?k = pr_logOffset p" using r by (simp add: log_read_def)
  note read = privilegedRead [OF Inr [unfolded d]]
  then have chunk_file: "le_file env = Inr (take n log)"
    using content by (auto simp: readSessionLogs_def split: if_splits sum.splits)
  have "readSessionLogs env sid (int ?k) h = Inr (data, next0)" using read k by simp
  note chunk = readSessionLogs_chunk [OF this chunk_file grown]
  have len: "length data = min maxSessionLogRead (length (take n log) - ?k)" by (simp add: chunk(1) min.commute)
  then have "?k + length data \<le> length (take n log)" using grown by arith
  then have joined: "take (?k + length data) log = take ?k log @ data"
    using chunk(3) take_grown [of "?k + length data" n log] take_grown [OF grown] by simp
  have f: "PrivilegedReadLogs env token h (ss_ID (pr_spec p)) (pr_logOffset p) = Inr (data, next0)"
    using Inr d r by (simp add: log_read_def)
  have "pr_logOffset p \<le> next0" using chunk(2) k by simp
  from ReadLogs_step [where f = "PrivilegedReadLogs env token h", OF f this] obtain ms p' where p': "ReadLogs (Some (PrivilegedReadLogs env token h)) p = (Inr ms, p')"
    "pr_logPending p @ data = unlines ms @ pr_logPending p'" "pr_logOffset p' = next0" "pr_spec p' = pr_spec p"
    "\<forall>l \<in> set ms. CHR 0x0A \<notin> set l" by blast
  have "unlines (ls @ ms) @ pr_logPending p' = (unlines ls @ pr_logPending p) @ data"
    using p'(2) by (simp add: unlines_def)
  then have "unlines (ls @ ms) @ pr_logPending p' = take (nat next0) log"
    using r joined chunk(2) by (simp add: log_read_def nat_add_distrib flip: of_nat_add)
  moreover have "ss_ID (pr_spec p') = sid" "0 \<le> next0" "list_all (\<lambda>l. CHR 0x0A \<notin> set l) (ls @ ms)"
    using p'(4,5) r chunk(2) by (auto simp: log_read_def list_all_iff)
  ultimately have "log_read sid log (ls @ ms) p'" by (simp only: log_read_def p'(3) simp_thms)
  moreover have "pr_logOffset p' = pr_logOffset p + int (min maxSessionLogRead (length (take n log) - ?k))"
    by (simp only: p'(3) chunk(2) len of_nat_add k)
  ultimately show ?thesis unfolding p'(1) using chunk_file by simp
qed

lemma helper_logs_state:
  assumes start: "ss_ID (pr_spec p) = sid" "pr_logOffset p = 0" "pr_logPending p = []"
    and content: "\<And>i. case le_file (env i) of Inl e \<Rightarrow> True | Inr s \<Rightarrow> s = take (written i) log"
    and grows: "mono written"
  shows "case readAll n (\<lambda>i. PrivilegedReadLogs (env i) token h) p of (ls, p') \<Rightarrow>
    log_read sid log ls p' \<and> nat (pr_logOffset p') \<le> length (take (written n) log)"
proof (induction n)
  case 0
  then show ?case using start by (simp add: log_read_def unlines_def)
next
  case (Suc n)
  obtain ls p1 where p1: "readAll n (\<lambda>i. PrivilegedReadLogs (env i) token h) p = (ls, p1)"
    by (cases "readAll n (\<lambda>i. PrivilegedReadLogs (env i) token h) p")
  have r: "log_read sid log ls p1" and o: "nat (pr_logOffset p1) \<le> length (take (written n) log)"
    using Suc p1 by simp_all
  have w: "written n \<le> written (Suc n)" using grows by (simp add: monoD)
  then have o': "length (take (written n) log) \<le> length (take (written (Suc n)) log)" by simp
  obtain res p2 where p2: "ReadLogs (Some (PrivilegedReadLogs (env n) token h)) p1 = (res, p2)"
    by (cases "ReadLogs (Some (PrivilegedReadLogs (env n) token h)) p1")
  note step = log_read_step [OF r o content [of n], of token h, unfolded p2]
  show ?case
  proof (cases res)
    case (Inl e)
    then show ?thesis using p1 p2 r o o' step by (simp, linarith)
  next
    case (Inr ms)
    have "0 \<le> pr_logOffset p1" using r by (simp add: log_read_def)
    then have "nat (pr_logOffset p2) \<le> length (take (written n) log)"
      using step Inr o by (simp add: nat_add_distrib del: length_take)
    then have "nat (pr_logOffset p2) \<le> length (take (written (Suc n)) log)" using o' by (rule order_trans)
    then show ?thesis using p1 p2 Inr step by (simp del: length_take)
  qed
qed

lemma helper_logs_all:
  assumes start: "ss_ID (pr_spec p) = sid" "pr_logOffset p = 0" "pr_logPending p = []"
    and served: "token \<noteq> []" "hp_token h = token" "ValidateSessionID sid = Inr ()" "kv_get (hp_sessions h) sid \<noteq> None"
    and env: "\<And>i. le_dial (env i) = None" "\<And>i. le_answered (env i)" "\<And>i. le_file (env i) = Inr log"
  shows "case readAll n (\<lambda>i. PrivilegedReadLogs (env i) token h) p of (ls, p') \<Rightarrow>
    pr_logOffset p' = int (min (length log) (n * maxSessionLogRead))"
proof (induction n)
  case 0
  then show ?case using start by simp
next
  case (Suc n)
  obtain ls p1 where p1: "readAll n (\<lambda>i. PrivilegedReadLogs (env i) token h) p = (ls, p1)"
    by (cases "readAll n (\<lambda>i. PrivilegedReadLogs (env i) token h) p")
  have content: "case le_file (env i) of Inl e \<Rightarrow> True | Inr s \<Rightarrow> s = take (length log) log" for i using env(3) by simp
  have r: "log_read sid log ls p1" and o: "nat (pr_logOffset p1) \<le> length (take (length log) log)"
    using helper_logs_state [where env = env and written = "\<lambda>_. length log" and n = n and token = token and h = h, OF start content] p1
    by (simp_all add: mono_def)
  obtain res p2 where p2: "ReadLogs (Some (PrivilegedReadLogs (env n) token h)) p1 = (res, p2)"
    by (cases "ReadLogs (Some (PrivilegedReadLogs (env n) token h)) p1")
  note step = log_read_step [OF r o content [of n], of token h, unfolded p2]
  have "0 \<le> pr_logOffset p1" "ss_ID (pr_spec p1) = sid" using r by (simp_all add: log_read_def)
  moreover from this obtain data next0 where "readSessionLogs (env n) sid (pr_logOffset p1) h = Inr (data, next0)"
    using served(4) env(3) by (auto simp: readSessionLogs_def Let_def split: if_splits)
  ultimately obtain ms where "res = Inr ms"
    using privilegedRead_ok [OF env(1, 2) served(1-3)] p2 by (fastforce simp: ReadLogs_def Let_def)
  then have "pr_logOffset p2 = pr_logOffset p1 + int (min maxSessionLogRead (length log - nat (pr_logOffset p1)))"
    using step by simp
  moreover have "nat (pr_logOffset p1) = min (length log) (n * maxSessionLogRead)"
    and "pr_logOffset p1 = int (nat (pr_logOffset p1))" using Suc p1 by simp_all
  ultimately have "pr_logOffset p2 = int (min (length log) (n * maxSessionLogRead) +
      min maxSessionLogRead (length log - min (length log) (n * maxSessionLogRead)))" by presburger
  also have "min (length log) (n * maxSessionLogRead) + min maxSessionLogRead (length log - min (length log) (n * maxSessionLogRead)) =
      min (length log) (Suc n * maxSessionLogRead)" by (simp add: min_def) linarith
  finally show ?case using p1 p2 \<open>res = Inr ms\<close> by simp
qed



end
