(* ===== verification/Paths.thy ===== *)
theory Paths
  imports Netip
begin

text \<open>
  Slash-separated paths as Go's \<^verbatim>\<open>path\<close> (and, on Unix, \<^verbatim>\<open>path/filepath\<close>) treats them: \<^verbatim>\<open>Clean\<close>,
  \<^verbatim>\<open>Join\<close>, \<^verbatim>\<open>Dir\<close>, \<^verbatim>\<open>Base\<close> and \<^verbatim>\<open>Rel\<close>, as far as the file manager uses them, and the facts about clean paths
  that its checks rest on.
\<close>

section \<open>Definitions\<close>

fun join_slash :: "string list \<Rightarrow> string" where
  "join_slash [] = []"
| "join_slash [w] = w"
| "join_slash (w # v # ws) = w @ CHR 0x2F # join_slash (v # ws)"

definition IsAbs :: "string \<Rightarrow> bool" where
  "IsAbs p \<longleftrightarrow> has_prefix p ''/''"

text \<open>The elements kept so far are in reverse order.\<close>

definition cleanStep :: "bool \<Rightarrow> string list \<Rightarrow> string \<Rightarrow> string list" where
  "cleanStep rooted out w =
     (if w = [] \<or> w = ''.'' then out
      else if w = ''..'' then
        (case out of
           [] \<Rightarrow> if rooted then [] else [''..'']
         | u # us \<Rightarrow> if u = ''..'' then ''..'' # out else us)
      else w # out)"

definition cleanParts :: "bool \<Rightarrow> string list \<Rightarrow> string list" where
  "cleanParts rooted ws = rev (foldl (cleanStep rooted) [] ws)"

definition render :: "bool \<Rightarrow> string list \<Rightarrow> string" where
  "render rooted ws = (if rooted then CHR 0x2F # join_slash ws else if ws = [] then ''.'' else join_slash ws)"

definition pathParts :: "string \<Rightarrow> string list" where
  "pathParts p = cleanParts (IsAbs p) (split_on (CHR 0x2F) p)"

definition pathClean :: "string \<Rightarrow> string" where
  "pathClean p = render (IsAbs p) (pathParts p)"

definition pathJoin :: "string \<Rightarrow> string \<Rightarrow> string" where
  "pathJoin a b =
     (if a = [] \<and> b = [] then []
      else if a = [] then pathClean b
      else if b = [] then pathClean a
      else pathClean (a @ CHR 0x2F # b))"

text \<open>\<^verbatim>\<open>Dir\<close> and \<^verbatim>\<open>Base\<close> of a clean absolute path.\<close>

definition pathDir :: "string \<Rightarrow> string" where
  "pathDir p = render (IsAbs p) (butlast (pathParts p))"

definition pathBase :: "string \<Rightarrow> string" where
  "pathBase p = (if pathParts p = [] then (if IsAbs p then ''/'' else ''.'') else last (pathParts p))"

fun dropCommon :: "string list \<Rightarrow> string list \<Rightarrow> string list \<times> string list" where
  "dropCommon (b # bs) (t # ts) = (if b = t then dropCommon bs ts else (b # bs, t # ts))"
| "dropCommon bs ts = (bs, ts)"

definition pathRel :: "string \<Rightarrow> string \<Rightarrow> string res" where
  "pathRel base targ =
     (if IsAbs base \<noteq> IsAbs targ then Inl (Errorf (''Rel: can't make '' @ targ @ '' relative to '' @ base))
      else case dropCommon (pathParts base) (pathParts targ) of (bs, ts) \<Rightarrow>
        if bs \<noteq> [] \<and> hd bs = ''..'' then Inl (Errorf (''Rel: can't make '' @ targ @ '' relative to '' @ base))
        else Inr (render False (replicate (length bs) ''..'' @ ts)))"

section \<open>Clean paths\<close>

definition plain :: "string \<Rightarrow> bool" where
  "plain w \<longleftrightarrow> w \<noteq> [] \<and> w \<noteq> ''.'' \<and> w \<noteq> ''..'' \<and> CHR 0x2F \<notin> set w"

lemma split_on_parts: "w \<in> set (split_on c s) \<Longrightarrow> c \<notin> set w"
  by (induction s arbitrary: w) (auto split: list.splits if_splits)

lemma split_on_append: "split_on c (s @ c # t) = split_on c s @ split_on c t"
  by (induction s) (auto split: list.split)

lemma split_join: "ws \<noteq> [] \<Longrightarrow> \<forall>w \<in> set ws. CHR 0x2F \<notin> set w \<Longrightarrow> split_on (CHR 0x2F) (join_slash ws) = ws"
  by (induction ws rule: join_slash.induct) (auto simp: split_on_none split_on_append)

lemma join_slash_nonempty: "ws \<noteq> [] \<Longrightarrow> hd ws \<noteq> [] \<Longrightarrow> join_slash ws \<noteq> [] \<and> hd (join_slash ws) = hd (hd ws)"
  by (induction ws rule: join_slash.induct) auto

lemma cleanStep_plain [simp]: "plain w \<Longrightarrow> cleanStep r out w = w # out"
  by (simp add: cleanStep_def plain_def)

lemma cleanStep_dot [simp]: "cleanStep r out [] = out" "cleanStep r out ''.'' = out"
  by (simp_all add: cleanStep_def)

lemma cleanStep_dots: "cleanStep False (replicate n ''..'') ''..'' = ''..'' # replicate n ''..''"
  by (cases n) (simp_all add: cleanStep_def)

lemma foldl_plain: "list_all plain ws \<Longrightarrow> foldl (cleanStep r) out ws = rev ws @ out"
  by (induction ws arbitrary: out) simp_all

lemma foldl_dots: "foldl (cleanStep False) (replicate n ''..'') (replicate k ''..'') = replicate (k + n) ''..''"
proof (induction k arbitrary: n)
  case (Suc k)
  have "cleanStep False (replicate n ''..'') ''..'' = replicate (Suc n) ''..''" by (simp add: cleanStep_dots)
  then show ?case using Suc [of "Suc n"] by simp
qed simp

text \<open>The shape of what \<^const>\<open>cleanParts\<close> returns, and that it is left alone.\<close>

definition clean_shape :: "bool \<Rightarrow> string list \<Rightarrow> bool" where
  "clean_shape rooted ws \<longleftrightarrow> (\<exists>k cs. ws = replicate k ''..'' @ cs \<and> list_all plain cs \<and> (rooted \<longrightarrow> k = 0))"

lemma clean_shape_step:
  assumes "clean_shape r (rev out)" "CHR 0x2F \<notin> set w"
  shows "clean_shape r (rev (cleanStep r out w))"
proof -
  from assms(1) obtain k cs where o: "rev out = replicate k ''..'' @ cs" "list_all plain cs" "r \<longrightarrow> k = 0"
    by (auto simp: clean_shape_def)
  consider (skip) "w = [] \<or> w = ''.''" | (up) "w = ''..''" | (name) "plain w" using assms(2) by (auto simp: plain_def)
  then show ?thesis
  proof cases
    case skip
    then show ?thesis using assms(1) by (auto simp: cleanStep_def)
  next
    case name
    have "rev (w # out) = replicate k ''..'' @ (cs @ [w])" using o(1) by simp
    moreover have "list_all plain (cs @ [w])" using o(2) name by simp
    ultimately show ?thesis using o(3) name unfolding clean_shape_def by (metis cleanStep_plain)
  next
    case up
    show ?thesis
    proof (cases cs rule: rev_cases)
      case Nil
      then have out: "out = replicate k ''..''" using o(1) by (metis append.right_neutral rev_replicate rev_rev_ident)
      show ?thesis
      proof (cases r)
        case True
        then show ?thesis using out o(3) up by (simp add: cleanStep_def clean_shape_def)
      next
        case False
        then have "rev (cleanStep r out w) = replicate (Suc k) ''..'' @ []"
          using out up by (simp add: cleanStep_dots replicate_append_same)
        then show ?thesis using False unfolding clean_shape_def by (intro exI [of _ "Suc k"] exI [of _ "[]"]) simp
      qed
    next
      case (snoc ds d)
      then have out: "out = d # rev (replicate k ''..'' @ ds)" using o(1) by (metis append_assoc rev_eq_Cons_iff rev_rev_ident)
      moreover have "d \<noteq> ''..''" "list_all plain ds" using o(2) snoc by (auto simp: plain_def)
      ultimately show ?thesis using up o(3) by (auto simp: cleanStep_def clean_shape_def)
    qed
  qed
qed

lemma cleanParts_shape: "\<forall>w \<in> set ws. CHR 0x2F \<notin> set w \<Longrightarrow> clean_shape r (cleanParts r ws)"
proof -
  have "clean_shape r (rev out) \<Longrightarrow> \<forall>w \<in> set ws. CHR 0x2F \<notin> set w \<Longrightarrow> clean_shape r (rev (foldl (cleanStep r) out ws))" for out
    by (induction ws arbitrary: out) (simp_all add: clean_shape_step)
  moreover have "clean_shape r (rev [])" by (simp add: clean_shape_def)
  ultimately show "\<forall>w \<in> set ws. CHR 0x2F \<notin> set w \<Longrightarrow> clean_shape r (cleanParts r ws)" unfolding cleanParts_def by blast
qed

lemma pathParts_shape: "clean_shape (IsAbs p) (pathParts p)"
  unfolding pathParts_def by (rule cleanParts_shape) (blast dest: split_on_parts)

lemma cleanParts_id: "clean_shape r ws \<Longrightarrow> cleanParts r ws = ws"
proof -
  assume "clean_shape r ws"
  then obtain k cs where ws: "ws = replicate k ''..'' @ cs" "list_all plain cs" "r \<longrightarrow> k = 0" by (auto simp: clean_shape_def)
  have "foldl (cleanStep r) [] (replicate k ''..'') = replicate k ''..''"
    using ws(3) foldl_dots [of 0 k] by (cases r) simp_all
  then show "cleanParts r ws = ws" using ws(1,2) by (simp add: cleanParts_def foldl_plain)
qed

lemma clean_shape_noslash: "clean_shape r ws \<Longrightarrow> \<forall>w \<in> set ws. w \<noteq> [] \<and> CHR 0x2F \<notin> set w"
proof -
  assume "clean_shape r ws"
  then obtain k cs where ws: "ws = replicate k ''..'' @ cs" "list_all plain cs" by (auto simp: clean_shape_def)
  have "w \<noteq> [] \<and> CHR 0x2F \<notin> set w" if "w \<in> set ws" for w
  proof -
    have "w = ''..'' \<or> plain w" using that ws by (auto simp: list_all_iff split: if_splits)
    then show ?thesis by (elim disjE) (simp_all add: plain_def)
  qed
  then show ?thesis by blast
qed

lemma render_abs: "clean_shape r ws \<Longrightarrow> IsAbs (render r ws) = r"
proof -
  assume a: "clean_shape r ws"
  show "IsAbs (render r ws) = r"
  proof (cases "r \<or> ws = []")
    case True
    then show ?thesis by (auto simp: render_def IsAbs_def has_prefix_def)
  next
    case False
    then have "hd ws \<noteq> []" "CHR 0x2F \<notin> set (hd ws)" using clean_shape_noslash [OF a] by simp_all
    moreover have "hd (join_slash ws) = hd (hd ws)" "join_slash ws \<noteq> []" using join_slash_nonempty [of ws] False calculation(1) by blast+
    ultimately have "hd (join_slash ws) \<noteq> CHR 0x2F" "join_slash ws \<noteq> []" by (metis list.set_sel(1))+
    then show ?thesis using False by (cases "join_slash ws") (simp_all add: render_def IsAbs_def has_prefix_def)
  qed
qed

lemma parts_render: "clean_shape r ws \<Longrightarrow> pathParts (render r ws) = ws"
proof -
  assume a: "clean_shape r ws"
  note abs = render_abs [OF a]
  show "pathParts (render r ws) = ws"
  proof (cases "ws = []")
    case True
    then show ?thesis by (cases r) (simp_all add: pathParts_def render_def cleanParts_def)
  next
    case False
    have s: "split_on (CHR 0x2F) (join_slash ws) = ws" using False clean_shape_noslash [OF a] by (simp add: split_join)
    have "cleanParts r (split_on (CHR 0x2F) (render r ws)) = ws"
      using s cleanParts_id [OF a] False by (cases r) (simp_all add: render_def cleanParts_def)
    then show ?thesis using abs by (simp add: pathParts_def)
  qed
qed

lemma clean_idem: "pathClean (pathClean p) = pathClean p"
  unfolding pathClean_def render_abs [OF pathParts_shape] parts_render [OF pathParts_shape] by (rule refl)

lemma IsAbs_clean [simp]: "IsAbs (pathClean p) = IsAbs p"
  unfolding pathClean_def by (rule render_abs [OF pathParts_shape])

lemma parts_clean [simp]: "pathParts (pathClean p) = pathParts p"
  unfolding pathClean_def by (rule parts_render [OF pathParts_shape])

lemma abs_parts_plain: "IsAbs p \<Longrightarrow> list_all plain (pathParts p)"
  using pathParts_shape [of p] by (auto simp: clean_shape_def)

text \<open>Joining a relative clean path without \<^verbatim>\<open>..\<close> to an absolute one.\<close>

lemma plain_shape: "list_all plain cs \<Longrightarrow> clean_shape r cs"
  unfolding clean_shape_def by (metis append_Nil replicate_0)

lemma pathJoin_below:
  assumes "IsAbs a" "list_all plain cs" "cs \<noteq> []"
  shows "pathJoin a (join_slash cs) = render True (pathParts a @ cs)"
    and "pathParts (pathJoin a (join_slash cs)) = pathParts a @ cs" and "IsAbs (pathJoin a (join_slash cs))"
proof -
  have ne: "a \<noteq> []" using assms(1) by (auto simp: IsAbs_def has_prefix_def)
  have "join_slash cs \<noteq> []"
    using join_slash_nonempty [of cs] assms(2,3) by (cases cs) (auto simp: plain_def)
  then have j: "pathJoin a (join_slash cs) = pathClean (a @ CHR 0x2F # join_slash cs)" using ne by (simp add: pathJoin_def)
  have abs: "IsAbs (a @ CHR 0x2F # join_slash cs)" using assms(1) ne by (cases a) (auto simp: IsAbs_def has_prefix_def)
  have "split_on (CHR 0x2F) (join_slash cs) = cs"
    using assms(2,3) by (intro split_join) (auto simp: list_all_iff plain_def)
  then have "pathParts (a @ CHR 0x2F # join_slash cs) = pathParts a @ cs"
    using abs assms(1,2) by (simp add: pathParts_def split_on_append cleanParts_def foldl_plain)
  then show "pathParts (pathJoin a (join_slash cs)) = pathParts a @ cs" and "IsAbs (pathJoin a (join_slash cs))"
    and "pathJoin a (join_slash cs) = render True (pathParts a @ cs)"
    using abs unfolding j by (simp, simp, simp only: pathClean_def)
qed

lemma dropCommon_prefix: "dropCommon bs (bs @ ts) = ([], ts)"
  by (induction bs) simp_all

lemma pathRel_below:
  assumes "IsAbs a" "IsAbs t" "pathParts t = pathParts a @ cs"
  shows "pathRel a t = Inr (render False cs)"
  using assms by (simp add: pathRel_def dropCommon_prefix)

end
