(* ===== verification/Archive.thy ===== *)
theory Archive
  imports Paths
begin

text \<open>
  The archives of the file manager, \<^verbatim>\<open>internal/filemanager/filesystem.go\<close>: a directory is written as a tar
  stream and a tar stream is extracted below a directory. A file system maps the elements of an absolute
  path to a file or a directory; the operating system may refuse any operation, by an error that depends on
  the path. File modes, progress reports and times are left out; paths are those of Unix.
\<close>

section \<open>Directories and streams\<close>

datatype fsNode = FDir | FFile string

type_synonym fsMap = "(string list, fsNode) kv"

datatype localTree = LFile string | LDir "(string \<times> localTree) list" | LLink | LSpecial | LBroken goerr

text \<open>
  What reading a tar stream gives: a directory, a file with its content and the error that cut it short, an
  entry of another type, or an error (of the stream, or because the context is done). The end of the list is
  the end of the stream.
\<close>

datatype tarNext = TarDir string | TarReg string string "goerr option" | TarOther string | TarErr goerr

section \<open>Where an entry goes\<close>

definition fromBackslash :: "string \<Rightarrow> string" where
  "fromBackslash name = map (\<lambda>c. if c = CHR 0x5C then CHR 0x2F else c) name"

definition escapes :: "string \<Rightarrow> goerr" where
  "escapes name = Errorf (''archive entry '' @ quote name @ '' escapes the destination'')"

definition safeArchiveTarget :: "string \<Rightarrow> string \<Rightarrow> string res" where
  "safeArchiveTarget root name =
     (let cleaned = pathClean (fromBackslash name) in
      if cleaned = ''.'' then Inr root
      else if IsAbs cleaned \<or> cleaned = ''..'' \<or> has_prefix cleaned ''../'' then Inl (escapes name)
      else let target = pathJoin root cleaned in
        case pathRel root target of
          Inl e \<Rightarrow> Inl (escapes name)
        | Inr relative \<Rightarrow>
            if relative = ''..'' \<or> has_prefix relative ''../'' then Inl (escapes name) else Inr target)"

section \<open>Extracting\<close>

text \<open>\<^verbatim>\<open>os.MkdirAll\<close>: the elements already passed, and those to come.\<close>

fun mkdirs :: "(string list \<Rightarrow> goerr option) \<Rightarrow> string list \<Rightarrow> string list \<Rightarrow> fsMap \<Rightarrow> goerr option \<times> fsMap" where
  "mkdirs io done0 [] fs = (None, fs)"
| "mkdirs io done0 (w # ws) fs =
     (let p = done0 @ [w] in
      case kv_get fs p of
        Some FDir \<Rightarrow> mkdirs io p ws fs
      | Some (FFile c) \<Rightarrow> (Some (Errorf ''not a directory''), fs)
      | None \<Rightarrow> (case io p of Some e \<Rightarrow> (Some e, fs) | None \<Rightarrow> mkdirs io p ws (kv_put p FDir fs)))"

definition mkdirAll :: "(string list \<Rightarrow> goerr option) \<Rightarrow> string \<Rightarrow> fsMap \<Rightarrow> goerr option \<times> fsMap" where
  "mkdirAll io path fs = mkdirs io [] (pathParts path) fs"

definition writeFile :: "(string list \<Rightarrow> goerr option) \<Rightarrow> string \<Rightarrow> string \<Rightarrow> fsMap \<Rightarrow> goerr option \<times> fsMap" where
  "writeFile io path content fs =
     (let p = pathParts path in
      if kv_get fs p = Some FDir then (Some (Errorf ''is a directory''), fs)
      else case io p of Some e \<Rightarrow> (Some e, fs) | None \<Rightarrow> (None, kv_put p (FFile content) fs))"

fun extractArchive ::
    "(string list \<Rightarrow> goerr option) \<Rightarrow> string \<Rightarrow> tarNext list \<Rightarrow> fsMap \<Rightarrow> goerr option \<times> fsMap" where
  "extractArchive io root [] fs = (None, fs)"
| "extractArchive io root (TarErr e # es) fs = (Some e, fs)"
| "extractArchive io root (TarOther name # es) fs =
     (case safeArchiveTarget root name of
        Inl e \<Rightarrow> (Some e, fs)
      | Inr target \<Rightarrow>
          if target = root then extractArchive io root es fs
          else (Some (Errorf (''archive entry '' @ quote name @ '' has unsupported type'')), fs))"
| "extractArchive io root (TarDir name # es) fs =
     (case safeArchiveTarget root name of
        Inl e \<Rightarrow> (Some e, fs)
      | Inr target \<Rightarrow>
          if target = root then extractArchive io root es fs
          else (case mkdirAll io target fs of
            (Some e, fs1) \<Rightarrow> (Some e, fs1)
          | (None, fs1) \<Rightarrow> extractArchive io root es fs1))"
| "extractArchive io root (TarReg name content copyErr # es) fs =
     (case safeArchiveTarget root name of
        Inl e \<Rightarrow> (Some e, fs)
      | Inr target \<Rightarrow>
          if target = root then extractArchive io root es fs
          else (case mkdirAll io (pathDir target) fs of
            (Some e, fs1) \<Rightarrow> (Some e, fs1)
          | (None, fs1) \<Rightarrow>
              (case writeFile io target content fs1 of
                 (Some e, fs2) \<Rightarrow> (Some e, fs2)
               | (None, fs2) \<Rightarrow>
                   (case copyErr of Some e \<Rightarrow> (Some e, fs2) | None \<Rightarrow> extractArchive io root es fs2))))"

section \<open>Writing\<close>

text \<open>
  \<^verbatim>\<open>filepath.Walk\<close> visits the entries of a directory in the order of their names, which is the order of the
  list. The result is the stream and the error with which the walk stopped.
\<close>

fun walkTree :: "string list \<Rightarrow> localTree \<Rightarrow> tarNext list \<times> goerr option"
  and walkList :: "string list \<Rightarrow> (string \<times> localTree) list \<Rightarrow> tarNext list \<times> goerr option" where
  "walkTree relative (LBroken e) = ([], Some e)"
| "walkTree relative LLink =
     ([], Some (Errorf (''symbolic link '' @ quote (join_slash relative) @ '' is not supported'')))"
| "walkTree relative LSpecial =
     ([], Some (Errorf (''special file '' @ quote (join_slash relative) @ '' is not supported'')))"
| "walkTree relative (LFile content) = ([TarReg (join_slash relative) content None], None)"
| "walkTree relative (LDir items) =
     (case walkList relative items of
        (es, err) \<Rightarrow> (TarDir (join_slash relative @ ''/'') # es, err))"
| "walkList relative [] = ([], None)"
| "walkList relative ((name, t) # items) =
     (case walkTree (relative @ [name]) t of
        (es, Some e) \<Rightarrow> (es, Some e)
      | (es, None) \<Rightarrow> (case walkList relative items of (fs, err) \<Rightarrow> (es @ fs, err)))"

text \<open>The root itself has no entry of its own.\<close>

definition writeArchive :: "localTree \<Rightarrow> tarNext list \<times> goerr option" where
  "writeArchive t =
     (case t of
        LDir items \<Rightarrow> walkList [] items
      | LBroken e \<Rightarrow> ([], Some e)
      | _ \<Rightarrow> ([], None))"

text \<open>The size of a directory as \<^verbatim>\<open>localTreeSize\<close> counts it.\<close>

fun localTreeSize :: "string \<Rightarrow> localTree \<Rightarrow> nat res"
  and localListSize :: "(string \<times> localTree) list \<Rightarrow> nat res" where
  "localTreeSize name (LFile content) = Inr (length content)"
| "localTreeSize name LLink = Inl (Errorf (''symbolic link '' @ quote name @ '' is not supported''))"
| "localTreeSize name LSpecial = Inr 0"
| "localTreeSize name (LBroken e) = Inl e"
| "localTreeSize name (LDir items) = localListSize items"
| "localListSize [] = Inr 0"
| "localListSize ((name, t) # items) =
     bindE (localTreeSize name t) (\<lambda>n. bindE (localListSize items) (\<lambda>m. Inr (n + m)))"

section \<open>An entry stays below the root\<close>

lemma render_False_dots:
  assumes "clean_shape False ws" "render False ws \<noteq> ''.''"
    "\<not> (render False ws = ''..'' \<or> has_prefix (render False ws) ''../'')"
  shows "list_all plain ws \<and> ws \<noteq> []"
proof -
  from assms(1) obtain k cs where ws: "ws = replicate k ''..'' @ cs" "list_all plain cs" by (auto simp: clean_shape_def)
  have "ws \<noteq> []" using assms(2) by (auto simp: render_def)
  moreover have "k = 0"
  proof (rule ccontr)
    assume "k \<noteq> 0"
    then obtain vs where "ws = ''..'' # vs" using ws(1) by (cases k) auto
    then have "render False ws = ''..'' \<or> has_prefix (render False ws) ''../''"
      by (cases vs) (simp_all add: render_def has_prefix_def)
    with assms(3) show False by blast
  qed
  ultimately show ?thesis using ws by simp
qed

lemma pathRel_safe:
  assumes "list_all plain cs" "cs \<noteq> []"
  shows "\<not> (render False cs = ''..'' \<or> has_prefix (render False cs) ''../'')"
proof -
  obtain c ds where cs: "cs = c # ds" using assms(2) by (cases cs) simp_all
  have split: "split_on (CHR 0x2F) (join_slash cs) = cs"
    using assms by (intro split_join) (auto simp: list_all_iff plain_def)
  have "c \<noteq> ''..''" using assms(1) cs by (auto simp: plain_def)
  have "join_slash cs \<noteq> ''..''"
  proof
    assume "join_slash cs = ''..''"
    with split have "cs = [''..'']" by simp
    with cs \<open>c \<noteq> ''..''\<close> show False by simp
  qed
  moreover have "\<not> has_prefix (join_slash cs) ''../''"
  proof
    assume "has_prefix (join_slash cs) ''../''"
    then obtain t where "join_slash cs = ''..'' @ CHR 0x2F # t"
      unfolding has_prefix_def by (metis append_Cons append_Nil append_take_drop_id)
    with split have "''..'' # split_on (CHR 0x2F) t = cs" by simp
    with cs \<open>c \<noteq> ''..''\<close> show False by simp
  qed
  ultimately show ?thesis using assms(2) by (simp add: render_def)
qed

lemma safeArchiveTarget_cases:
  assumes "IsAbs root"
  shows "case safeArchiveTarget root name of
      Inl e \<Rightarrow> e = escapes name \<and> \<not> (list_all plain (pathParts (fromBackslash name)) \<and> \<not> IsAbs (fromBackslash name))
    | Inr target \<Rightarrow> (target = root \<and> pathParts (fromBackslash name) = []) \<or>
        (pathParts (fromBackslash name) \<noteq> [] \<and> list_all plain (pathParts (fromBackslash name)) \<and>
         target = render True (pathParts root @ pathParts (fromBackslash name)) \<and>
         pathParts target = pathParts root @ pathParts (fromBackslash name))"
proof -
  let ?n = "fromBackslash name"
  let ?cs = "pathParts ?n"
  consider (dot) "pathClean ?n = ''.''"
    | (bad) "pathClean ?n \<noteq> ''.''" "IsAbs ?n \<or> pathClean ?n = ''..'' \<or> has_prefix (pathClean ?n) ''../''"
    | (good) "pathClean ?n \<noteq> ''.''" "\<not> IsAbs ?n" "\<not> (pathClean ?n = ''..'' \<or> has_prefix (pathClean ?n) ''../'')" by blast
  then show ?thesis
  proof cases
    case dot
    then have "?cs = []" using parts_clean [of ?n] by (simp add: pathParts_def IsAbs_def has_prefix_def cleanParts_def)
    then show ?thesis using dot by (simp add: safeArchiveTarget_def)
  next
    case bad
    have "\<not> (list_all plain ?cs \<and> \<not> IsAbs ?n)"
    proof
      assume a: "list_all plain ?cs \<and> \<not> IsAbs ?n"
      then have "?cs \<noteq> []" using bad(1) by (auto simp: pathClean_def render_def)
      from pathRel_safe [OF _ this] a bad show False by (simp add: pathClean_def)
    qed
    then show ?thesis using bad by (auto simp: safeArchiveTarget_def Let_def)
  next
    case good
    have shape: "clean_shape False ?cs" using pathParts_shape [of ?n] good(2) by simp
    have r: "pathClean ?n = render False ?cs" using good(2) by (simp add: pathClean_def)
    have p: "list_all plain ?cs" "?cs \<noteq> []" using render_False_dots [OF shape] good r by simp_all
    then have r': "pathClean ?n = join_slash ?cs" using r by (simp add: render_def)
    note join = pathJoin_below [OF assms p]
    have "pathRel root (pathJoin root (pathClean ?n)) = Inr (render False ?cs)"
      unfolding r' by (rule pathRel_below [OF assms join(3, 2)])
    then have "safeArchiveTarget root name = Inr (pathJoin root (pathClean ?n))"
      using good pathRel_safe [OF p] by (simp add: safeArchiveTarget_def Let_def)
    then show ?thesis using join p r' by simp
  qed
qed

section \<open>What extracting touches\<close>

definition below :: "string list \<Rightarrow> string list \<Rightarrow> bool" where
  "below R p \<longleftrightarrow> take (length R) p = R \<and> length R < length p"

lemma below_append [simp]: "below R (R @ cs) \<longleftrightarrow> cs \<noteq> []"
  by (auto simp: below_def)

lemma below_trans: "below R p \<Longrightarrow> below R (p @ q)"
  by (auto simp: below_def)

definition dirsTo :: "string list \<Rightarrow> fsMap \<Rightarrow> bool" where
  "dirsTo R fs \<longleftrightarrow> (\<forall>k \<in> {1..length R}. kv_get fs (take k R) = Some FDir)"

definition confined :: "string list \<Rightarrow> fsMap \<Rightarrow> fsMap \<Rightarrow> bool" where
  "confined R fs fs' \<longleftrightarrow> (\<forall>p. \<not> below R p \<longrightarrow> kv_get fs' p = kv_get fs p)"

lemma confined_refl [simp]: "confined R fs fs"
  by (simp add: confined_def)

lemma confined_trans: "confined R fs fs1 \<Longrightarrow> confined R fs1 fs2 \<Longrightarrow> confined R fs fs2"
  by (simp add: confined_def)

lemma confined_dirsTo: "confined R fs fs' \<Longrightarrow> dirsTo R fs \<Longrightarrow> dirsTo R fs'"
  by (auto simp: confined_def dirsTo_def below_def)

lemma confined_put: "below R p \<Longrightarrow> confined R fs (kv_put p v fs)"
  by (auto simp: confined_def kv_simps)

lemma mkdirs_existing:
  "\<forall>k \<in> {1..length ws}. kv_get fs (d @ take k ws) = Some FDir \<Longrightarrow> mkdirs io d (ws @ vs) fs = mkdirs io (d @ ws) vs fs"
proof (induction ws arbitrary: d)
  case (Cons w ws)
  have "kv_get fs (d @ [w]) = Some FDir" using Cons.prems by (force dest: bspec [where x = 1])
  moreover have "\<forall>k \<in> {1..length ws}. kv_get fs ((d @ [w]) @ take k ws) = Some FDir"
  proof
    fix k assume "k \<in> {1..length ws}"
    then show "kv_get fs ((d @ [w]) @ take k ws) = Some FDir" using Cons.prems by (auto dest: bspec [where x = "Suc k"])
  qed
  ultimately show ?case using Cons.IH [of "d @ [w]"] by simp
qed simp

lemma mkdirs_confined: "below R d \<or> d = R \<Longrightarrow> mkdirs io d ws fs = (err, fs') \<Longrightarrow> confined R fs fs'"
proof (induction ws arbitrary: d fs)
  case (Cons w ws)
  have b: "below R (d @ [w])" using Cons.prems(1) below_trans by auto
  show ?case
  proof (cases "kv_get fs (d @ [w])")
    case None
    show ?thesis
    proof (cases "io (d @ [w])")
      case None
      then have "mkdirs io (d @ [w]) ws (kv_put (d @ [w]) FDir fs) = (err, fs')"
        using Cons.prems(2) \<open>kv_get fs (d @ [w]) = None\<close> by (simp add: Let_def)
      from Cons.IH [OF disjI1 [OF b] this] show ?thesis using confined_trans confined_put [OF b] by blast
    qed (use Cons.prems None in simp)
  next
    case (Some n)
    then show ?thesis using Cons.prems(2) Cons.IH [OF disjI1 [OF b]] by (cases n) simp_all
  qed
qed simp

lemma mkdirAll_confined:
  assumes "dirsTo R fs" "pathParts path = R @ cs" "mkdirAll io path fs = (err, fs')"
  shows "confined R fs fs'"
proof -
  have "mkdirs io [] (R @ cs) fs = mkdirs io R cs fs"
    using mkdirs_existing [of R fs "[]" io cs] assms(1) by (simp add: dirsTo_def)
  then show ?thesis using mkdirs_confined [of R R io cs fs err fs'] assms by (simp add: mkdirAll_def)
qed

lemma pathDir_below:
  assumes "IsAbs t" "pathParts t = R @ cs" "cs \<noteq> []"
  shows "pathParts (pathDir t) = R @ butlast cs"
proof -
  have "list_all plain (butlast (R @ cs))"
    using abs_parts_plain [OF assms(1)] assms(2) by (auto simp: list_all_iff dest: in_set_butlastD)
  then show ?thesis using assms by (simp add: pathDir_def parts_render [OF plain_shape] butlast_append)
qed

lemma safe_target:
  assumes "IsAbs root" "safeArchiveTarget root name = Inr target" "target \<noteq> root"
  shows "pathParts target = pathParts root @ pathParts (fromBackslash name) \<and> pathParts (fromBackslash name) \<noteq> [] \<and>
    IsAbs target \<and> list_all plain (pathParts (fromBackslash name))"
  using safeArchiveTarget_cases [OF assms(1), of name] assms(2,3)
  by (auto simp: render_abs plain_shape abs_parts_plain [OF assms(1)])

lemma writeFile_confined: "below R (pathParts path) \<Longrightarrow> writeFile io path content fs = (err, fs') \<Longrightarrow> confined R fs fs'"
  by (auto simp: writeFile_def Let_def confined_put split: if_splits option.splits)

lemma extract_dir:
  assumes "IsAbs root" "dirsTo (pathParts root) fs" "safeArchiveTarget root name = Inr target" "target \<noteq> root"
    and "mkdirAll io target fs = (e, fs1)"
  shows "confined (pathParts root) fs fs1"
  using mkdirAll_confined [OF assms(2) _ assms(5)] safe_target [OF assms(1, 3, 4)] by blast

lemma extract_file:
  assumes "IsAbs root" "dirsTo (pathParts root) fs" "safeArchiveTarget root name = Inr target" "target \<noteq> root"
    and "mkdirAll io (pathDir target) fs = (e, fs1)" "writeFile io target content fs1 = (e', fs2)"
  shows "confined (pathParts root) fs fs1 \<and> confined (pathParts root) fs fs2"
proof -
  note t = safe_target [OF assms(1, 3, 4)]
  have d: "pathParts (pathDir target) = pathParts root @ butlast (pathParts (fromBackslash name))"
    using pathDir_below [of target "pathParts root"] t by blast
  have "confined (pathParts root) fs fs1" by (rule mkdirAll_confined [OF assms(2) d assms(5)])
  moreover have "confined (pathParts root) fs1 fs2" using writeFile_confined [OF _ assms(6)] t by simp
  ultimately show ?thesis using confined_trans by blast
qed

lemma extract_confined_lemma:
  assumes "IsAbs root"
  shows "dirsTo (pathParts root) fs \<Longrightarrow> confined (pathParts root) fs (snd (extractArchive io root es fs))"
proof (induction es arbitrary: fs)
  case (Cons x es)
  note step = Cons.IH [OF confined_dirsTo [OF _ Cons.prems]]
  show ?case
  proof (cases x)
    case (TarErr e)
    then show ?thesis by simp
  next
    case (TarOther name)
    then show ?thesis using Cons.IH [OF Cons.prems] by (simp split: sum.split)
  next
    case (TarDir name)
    show ?thesis
    proof (cases "safeArchiveTarget root name")
      case (Inr target)
      obtain e fs1 where m: "mkdirAll io target fs = (e, fs1)" by (cases "mkdirAll io target fs")
      show ?thesis
      proof (cases "target = root")
        case False
        note c = extract_dir [OF assms Cons.prems Inr False m]
        show ?thesis using TarDir Inr False m c confined_trans [OF c step [OF c]] by (cases e) simp_all
      qed (use TarDir Inr Cons.IH [OF Cons.prems] in simp)
    qed (use TarDir in simp)
  next
    case (TarReg name content copyErr)
    show ?thesis
    proof (cases "safeArchiveTarget root name")
      case (Inr target)
      obtain e fs1 where m: "mkdirAll io (pathDir target) fs = (e, fs1)" by (cases "mkdirAll io (pathDir target) fs")
      obtain e' fs2 where w: "writeFile io target content fs1 = (e', fs2)" by (cases "writeFile io target content fs1")
      show ?thesis
      proof (cases "target = root")
        case False
        note c = extract_file [OF assms Cons.prems Inr False m w]
        then have "confined (pathParts root) fs (snd (extractArchive io root es fs2))" using confined_trans step by blast
        then show ?thesis using TarReg Inr False m w c by (cases e; cases e'; cases copyErr) simp_all
      qed (use TarReg Inr Cons.IH [OF Cons.prems] in simp)
    qed (use TarReg in simp)
  qed
qed simp

text \<open>
  C18. No archive escapes the directory it is extracted to. Whatever entries the tar stream of a container
  names, with \<^verbatim>\<open>..\<close>, absolute names, backslashes or anything else, and wherever the stream or the operating
  system fails, only paths strictly below the destination are created or written; every other path keeps
  what it held. A name that would leave the destination is refused.
\<close>

theorem extract_confined:
  assumes "IsAbs root" "dirsTo (pathParts root) fs" "\<not> below (pathParts root) p"
  shows "kv_get (snd (extractArchive io root es fs)) p = kv_get fs p"
  using extract_confined_lemma [OF assms(1, 2), of io es] assms(3) by (simp add: confined_def)

definition ex_fs :: fsMap where
  "ex_fs = [([''d''], FDir), ([''d'', ''in''], FDir), ([''d'', ''key''], FFile ''old'')]"

theorem extract_confined_witness:
  "case extractArchive (\<lambda>_. None) ''/d/in'' [TarReg ''a/../b'' ''new'' None, TarReg ''x/../../key'' ''evil'' None] ex_fs of
     (err, fs') \<Rightarrow> err = Some (escapes ''x/../../key'') \<and> kv_get fs' [''d'', ''in'', ''b''] = Some (FFile ''new'') \<and>
       kv_get fs' [''d'', ''key''] = Some (FFile ''old'')"
proof -
  let ?es = "[TarReg ''a/../b'' ''new'' None, TarReg ''x/../../key'' ''evil'' None]"
  have parts: "pathParts ''/d/in'' = [''d'', ''in'']" by code_simp
  have abs: "IsAbs ''/d/in''" by code_simp
  have "dirsTo (pathParts ''/d/in'') ex_fs"
    unfolding parts by (auto simp: dirsTo_def ex_fs_def kv_get_def numeral_2_eq_2 less_Suc_eq le_Suc_eq)
  note c = extract_confined [OF abs this, where p = "[''d'', ''key'']" and io = "\<lambda>_. None" and es = ?es, unfolded parts]
  have "\<not> below [''d'', ''in''] [''d'', ''key'']" by (simp add: below_def)
  with c have "kv_get (snd (extractArchive (\<lambda>_. None) ''/d/in'' ?es ex_fs)) [''d'', ''key''] = Some (FFile ''old'')"
    by (simp add: ex_fs_def kv_get_def)
  moreover have "fst (extractArchive (\<lambda>_. None) ''/d/in'' ?es ex_fs) = Some (escapes ''x/../../key'')" by code_simp
  moreover have "kv_get (snd (extractArchive (\<lambda>_. None) ''/d/in'' ?es ex_fs)) [''d'', ''in'', ''b''] = Some (FFile ''new'')" by code_simp
  ultimately show ?thesis by (simp add: split_beta)
qed

section \<open>What was written is what is extracted\<close>

fun treeAt :: "localTree \<Rightarrow> string list \<Rightarrow> fsNode option" where
  "treeAt (LFile content) [] = Some (FFile content)"
| "treeAt (LDir items) [] = Some FDir"
| "treeAt (LDir items) (n # p) = (case map_of items n of None \<Rightarrow> None | Some t \<Rightarrow> treeAt t p)"
| "treeAt _ _ = None"

text \<open>Only files and directories, under names a Unix system and the extraction understand alike.\<close>

definition nameOK :: "string \<Rightarrow> bool" where
  "nameOK n \<longleftrightarrow> plain n \<and> CHR 0x5C \<notin> set n"

fun treeOK :: "localTree \<Rightarrow> bool" and listOK :: "(string \<times> localTree) list \<Rightarrow> bool" where
  "treeOK (LFile content) = True"
| "treeOK (LDir items) = listOK items"
| "treeOK LLink = False"
| "treeOK LSpecial = False"
| "treeOK (LBroken e) = False"
| "listOK [] = True"
| "listOK ((n, t) # items) = (nameOK n \<and> n \<notin> set (map fst items) \<and> treeOK t \<and> listOK items)"

definition rename :: "string \<Rightarrow> tarNext \<Rightarrow> tarNext" where
  "rename pre e = (case e of TarDir n \<Rightarrow> TarDir (pre @ n) | TarReg n c err \<Rightarrow> TarReg (pre @ n) c err | TarOther n \<Rightarrow> TarOther (pre @ n) | TarErr x \<Rightarrow> TarErr x)"

lemma fromBackslash_id: "CHR 0x5C \<notin> set s \<Longrightarrow> fromBackslash s = s"
  by (induction s) (auto simp: fromBackslash_def)

lemma join_no_backslash: "\<forall>w \<in> set ws. CHR 0x5C \<notin> set w \<Longrightarrow> CHR 0x5C \<notin> set (join_slash ws)"
  by (induction ws rule: join_slash.induct) auto

lemma plain_IsAbs:
  assumes "list_all nameOK rel" "rel \<noteq> []"
  shows "\<not> IsAbs (join_slash rel @ z)" "join_slash rel \<noteq> []"
proof -
  have h: "hd rel \<noteq> []" "CHR 0x2F \<notin> set (hd rel)" using assms by (cases rel; auto simp: nameOK_def plain_def)+
  then have "join_slash rel \<noteq> []" "hd (join_slash rel) \<noteq> CHR 0x2F"
    using join_slash_nonempty [OF assms(2) h(1)] by (auto dest: hd_in_set)
  then show "\<not> IsAbs (join_slash rel @ z)" "join_slash rel \<noteq> []"
    by (cases "join_slash rel", auto simp: IsAbs_def has_prefix_def)+
qed

text \<open>The names of the entries, as the file manager writes them and as \<^verbatim>\<open>tar\<close> does.\<close>

lemma entry_parts:
  assumes "list_all nameOK rel" "rel \<noteq> []" "pre = [] \<or> pre = ''./''" "z = [] \<or> z = ''/''"
  shows "pathParts (fromBackslash (pre @ join_slash rel @ z)) = rel" "\<not> IsAbs (fromBackslash (pre @ join_slash rel @ z))"
proof -
  have "\<forall>w \<in> set rel. CHR 0x5C \<notin> set w" using assms(1) by (auto simp: list_all_iff nameOK_def)
  then have "CHR 0x5C \<notin> set (pre @ join_slash rel @ z)"
    using join_no_backslash assms(3,4) by auto
  then have id: "fromBackslash (pre @ join_slash rel @ z) = pre @ join_slash rel @ z" by (rule fromBackslash_id)
  have na: "\<not> IsAbs (pre @ join_slash rel @ z)"
    using plain_IsAbs(1) [OF assms(1, 2)] assms(3) by (auto simp: IsAbs_def has_prefix_def)
  have p: "list_all plain rel" using assms(1) by (auto simp: list_all_iff nameOK_def)
  have "split_on (CHR 0x2F) (join_slash rel) = rel"
    using assms(2) p by (intro split_join) (auto simp: list_all_iff plain_def)
  then have "split_on (CHR 0x2F) (join_slash rel @ z) = rel @ (if z = [] then [] else [[]])"
    using assms(4) split_on_append [of "CHR 0x2F" "join_slash rel" "[]"] by auto
  then have "split_on (CHR 0x2F) (pre @ join_slash rel @ z) = (if pre = [] then [] else [''.'']) @ rel @ (if z = [] then [] else [[]])"
    using assms(3) by auto
  then have "pathParts (pre @ join_slash rel @ z) = rel"
    using na p by (simp add: pathParts_def cleanParts_def foldl_plain)
  then show "pathParts (fromBackslash (pre @ join_slash rel @ z)) = rel" "\<not> IsAbs (fromBackslash (pre @ join_slash rel @ z))"
    using na by (simp_all add: id)
qed

lemma entry_target:
  assumes "IsAbs root" "list_all nameOK rel" "rel \<noteq> []" "pre = [] \<or> pre = ''./''" "z = [] \<or> z = ''/''"
  obtains target where "safeArchiveTarget root (pre @ join_slash rel @ z) = Inr target" "target \<noteq> root"
    "pathParts target = pathParts root @ rel" "pathParts (pathDir target) = pathParts root @ butlast rel"
proof -
  let ?n = "pre @ join_slash rel @ z"
  note e = entry_parts [OF assms(2-5)]
  have p: "list_all plain (pathParts (fromBackslash ?n))" using assms(2) by (auto simp: e list_all_iff nameOK_def)
  obtain target where t: "safeArchiveTarget root ?n = Inr target"
    "target = render True (pathParts root @ rel)" "pathParts target = pathParts root @ rel"
    using safeArchiveTarget_cases [OF assms(1), of ?n] p e assms(3) by (cases "safeArchiveTarget root ?n") auto
  have "target \<noteq> root" using t(3) assms(3) by (metis append_self_conv)
  moreover have "clean_shape True (pathParts root @ rel)"
    using p e abs_parts_plain [OF assms(1)] by (intro plain_shape) simp
  then have "IsAbs target" using render_abs [of True "pathParts root @ rel"] by (simp add: t(2))
  ultimately show ?thesis using that t pathDir_below [of target "pathParts root" rel] assms(3) by blast
qed

lemma mkdirAll_new:
  assumes "dirsTo (butlast R) fs" "R \<noteq> []" "pathParts path = R" "kv_get fs R = None"
  shows "mkdirAll (\<lambda>_. None) path fs = (None, kv_put R FDir fs)"
proof -
  have "mkdirs (\<lambda>_. None) [] (butlast R @ [last R]) fs = mkdirs (\<lambda>_. None) (butlast R) [last R] fs"
    using mkdirs_existing [of "butlast R" fs "[]" "\<lambda>_. None" "[last R]"] assms(1) by (simp add: dirsTo_def)
  then show ?thesis using assms(2-4) by (simp add: mkdirAll_def)
qed

lemma mkdirAll_there:
  assumes "dirsTo R fs" "pathParts path = R"
  shows "mkdirAll io path fs = (None, fs)"
  using mkdirs_existing [of R fs "[]" io "[]"] assms by (simp add: mkdirAll_def dirsTo_def)

lemma dirsTo_put: "dirsTo (butlast R) fs \<Longrightarrow> R \<noteq> [] \<Longrightarrow> dirsTo R (kv_put R FDir fs)"
proof -
  assume a: "dirsTo (butlast R) fs" "R \<noteq> []"
  show "dirsTo R (kv_put R FDir fs)"
    unfolding dirsTo_def
  proof
    fix k assume k: "k \<in> {1..length R}"
    show "kv_get (kv_put R FDir fs) (take k R) = Some FDir"
    proof (cases "k = length R")
      case False
      then have "k \<in> {1..length (butlast R)}" "take k (butlast R) = take k R" "take k R \<noteq> R"
        using k by (auto simp: take_butlast)
      moreover from this(1) have "kv_get fs (take k (butlast R)) = Some FDir" using a(1) unfolding dirsTo_def by blast
      ultimately show ?thesis by (simp add: kv_simps)
    qed (simp add: kv_simps)
  qed
qed

text \<open>A file system over which a directory, or the entries of one, have been laid.\<close>

definition put_tree :: "string list \<Rightarrow> localTree \<Rightarrow> (string list \<Rightarrow> fsNode option) \<Rightarrow> string list \<Rightarrow> fsNode option" where
  "put_tree base t m = (\<lambda>p. if take (length base) p = base then treeAt t (drop (length base) p) else m p)"

fun put_list :: "string list \<Rightarrow> (string \<times> localTree) list \<Rightarrow> (string list \<Rightarrow> fsNode option) \<Rightarrow> string list \<Rightarrow> fsNode option" where
  "put_list base [] m = m"
| "put_list base ((n, t) # items) m = put_list base items (put_tree (base @ [n]) t m)"

lemma put_tree_other: "take (length base) p \<noteq> base \<Longrightarrow> put_tree base t m p = m p"
  by (simp add: put_tree_def)

lemma put_list_other: "(\<And>n q. p = base @ n # q \<Longrightarrow> n \<notin> set (map fst items)) \<Longrightarrow> put_list base items m p = m p"
proof (induction items arbitrary: m)
  case (Cons x items)
  obtain n t where x: "x = (n, t)" by (cases x)
  have "take (length (base @ [n])) p \<noteq> base @ [n]"
  proof
    assume "take (length (base @ [n])) p = base @ [n]"
    then have "p = base @ n # drop (Suc (length base)) p" using append_take_drop_id [of "length (base @ [n])" p] by simp
    with Cons.prems [OF this] x show False by simp
  qed
  then show ?case using Cons x by (simp add: put_tree_other)
qed simp

lemma put_list_inside:
  "listOK items \<Longrightarrow> put_list base items m (base @ n # q) =
     (case map_of items n of None \<Rightarrow> m (base @ n # q) | Some t \<Rightarrow> treeAt t q)"
proof (induction items arbitrary: m)
  case (Cons x items)
  obtain k t where x: "x = (k, t)" by (cases x)
  show ?case
  proof (cases "k = n")
    case True
    then have "put_list base items (put_tree (base @ [k]) t m) (base @ n # q) = put_tree (base @ [k]) t m (base @ n # q)"
      using Cons.prems x by (intro put_list_other) auto
    then show ?thesis using True x by (simp add: put_tree_def)
  next
    case False
    then show ?thesis using Cons x by (simp add: put_tree_def split: option.split)
  qed
qed simp

lemma put_list_tree:
  assumes "listOK items" "\<And>p. below base p \<Longrightarrow> m p = None" "m base = Some FDir"
  shows "put_list base items m = put_tree base (LDir items) m"
proof
  fix p
  show "put_list base items m p = put_tree base (LDir items) m p"
  proof (cases "take (length base) p = base")
    case False
    then have "put_list base items m p = m p" by (intro put_list_other) auto
    then show ?thesis using False by (simp add: put_tree_other)
  next
    case True
    then have p: "p = base @ drop (length base) p" using append_take_drop_id [of "length base" p] by simp
    show ?thesis
    proof (cases "drop (length base) p")
      case Nil
      then have "p = base" using p by simp
      then show ?thesis using put_list_other [of base base items m] assms(3) by (simp add: put_tree_def)
    next
      case (Cons n q)
      then have e: "p = base @ n # q" using p by simp
      have "below base p" using e by simp
      then show ?thesis using put_list_inside [OF assms(1), of base m n q] assms(2) e
        by (simp add: put_tree_def split: option.split)
    qed
  qed
qed

text \<open>Extracting the entries of a tree lays the tree over the file system.\<close>

lemma extract_walk:
  assumes root: "IsAbs root" and pre: "pre = [] \<or> pre = ''./''"
  shows "treeOK t \<Longrightarrow> list_all nameOK rel \<Longrightarrow> rel \<noteq> [] \<Longrightarrow> dirsTo (pathParts root @ butlast rel) fs \<Longrightarrow>
      (\<And>p. take (length (pathParts root @ rel)) p = pathParts root @ rel \<Longrightarrow> kv_get fs p = None) \<Longrightarrow>
      \<exists>es fs'. walkTree rel t = (es, None) \<and> kv_get fs' = put_tree (pathParts root @ rel) t (kv_get fs) \<and>
        (\<forall>more. extractArchive (\<lambda>_. None) root (map (rename pre) es @ more) fs = extractArchive (\<lambda>_. None) root more fs')"
    and "listOK items \<Longrightarrow> list_all nameOK rel \<Longrightarrow> dirsTo (pathParts root @ rel) fs \<Longrightarrow>
      (\<And>p. below (pathParts root @ rel) p \<Longrightarrow> p ! length (pathParts root @ rel) \<in> set (map fst items) \<Longrightarrow> kv_get fs p = None) \<Longrightarrow>
      \<exists>es fs'. walkList rel items = (es, None) \<and> kv_get fs' = put_list (pathParts root @ rel) items (kv_get fs) \<and>
        (\<forall>more. extractArchive (\<lambda>_. None) root (map (rename pre) es @ more) fs = extractArchive (\<lambda>_. None) root more fs')"
proof (induction rel t and rel items arbitrary: fs and fs rule: walkTree_walkList.induct)
  case (4 rel c)
  let ?R = "pathParts root @ rel"
  obtain target where t: "safeArchiveTarget root (pre @ join_slash rel) = Inr target" "target \<noteq> root"
    "pathParts target = ?R" "pathParts (pathDir target) = pathParts root @ butlast rel"
    using entry_target [OF root 4(2,3) pre, of "[]"] by auto
  have none: "kv_get fs ?R = None" using 4(5) by simp
  let ?fs = "kv_put ?R (FFile c) fs"
  have "mkdirAll (\<lambda>_. None) (pathDir target) fs = (None, fs)" by (rule mkdirAll_there [OF 4(4) t(4)])
  moreover have "writeFile (\<lambda>_. None) target c fs = (None, ?fs)" using t(3) none by (simp add: writeFile_def Let_def)
  ultimately have "extractArchive (\<lambda>_. None) root (map (rename pre) [TarReg (join_slash rel) c None] @ more) fs =
      extractArchive (\<lambda>_. None) root more ?fs" for more
    using t(1,2) by (simp add: rename_def)
  moreover have "kv_get ?fs = put_tree ?R (LFile c) (kv_get fs)"
  proof
    fix p
    show "kv_get ?fs p = put_tree ?R (LFile c) (kv_get fs) p"
    proof (cases "take (length ?R) p = ?R")
      case True
      then show ?thesis using 4(5) [OF True] append_take_drop_id [of "length ?R" p]
        by (cases "drop (length ?R) p") (auto simp: put_tree_def kv_simps)
    qed (auto simp: put_tree_def kv_simps)
  qed
  ultimately show ?case by auto
next
  case (5 rel items)
  let ?R = "pathParts root @ rel"
  obtain target where t: "safeArchiveTarget root (pre @ join_slash rel @ ''/'') = Inr target" "target \<noteq> root"
    "pathParts target = ?R"
    using entry_target [OF root 5(3,4) pre, of "''/''"] by auto
  have none: "kv_get fs ?R = None" using 5(6) by simp
  let ?fs = "kv_put ?R FDir fs"
  have d: "dirsTo (butlast ?R) fs" "?R \<noteq> []" using 5(4,5) by (simp_all add: butlast_append)
  have "mkdirAll (\<lambda>_. None) target fs = (None, ?fs)" by (rule mkdirAll_new [OF d t(3) none])
  then have dir: "extractArchive (\<lambda>_. None) root (rename pre (TarDir (join_slash rel @ ''/'')) # more) fs =
      extractArchive (\<lambda>_. None) root more ?fs" for more
    using t(1,2) by (simp add: rename_def)
  have below: "kv_get ?fs p = None" if "below ?R p" for p
    using 5(6) [of p] that by (auto simp: kv_simps below_def)
  have ok: "listOK items" using 5(2) by simp
  from 5(1) [OF ok 5(3) dirsTo_put [OF d] below] obtain es fs' where
    es: "walkList rel items = (es, None)" "kv_get fs' = put_list ?R items (kv_get ?fs)"
    "\<And>more. extractArchive (\<lambda>_. None) root (map (rename pre) es @ more) ?fs = extractArchive (\<lambda>_. None) root more fs'"
    by blast
  have "put_list ?R items (kv_get ?fs) = put_tree ?R (LDir items) (kv_get ?fs)"
    by (rule put_list_tree [OF ok below]) (simp_all add: kv_simps)
  also have "\<dots> = put_tree ?R (LDir items) (kv_get fs)"
    by (rule ext) (auto simp: put_tree_def kv_simps)
  finally have "kv_get fs' = put_tree ?R (LDir items) (kv_get fs)" using es(2) by simp
  then show ?case using es dir by (intro exI [of _ "TarDir (join_slash rel @ ''/'') # es"] exI [of _ fs']) simp
next
  case (6 rel)
  show ?case by (intro exI [of _ "[]"] exI [of _ fs]) simp
next
  case (7 rel n t items)
  let ?R = "pathParts root @ rel"
  have ok: "nameOK n" "n \<notin> set (map fst items)" "treeOK t" "listOK items" using 7(3) by simp_all
  have rel: "list_all nameOK (rel @ [n])" "rel @ [n] \<noteq> []" using 7(4) ok(1) by simp_all
  have d: "dirsTo (pathParts root @ butlast (rel @ [n])) fs" using 7(5) by simp
  have fresh: "kv_get fs p = None" if "take (length (pathParts root @ rel @ [n])) p = pathParts root @ rel @ [n]" for p
  proof -
    have "p = ?R @ n # drop (Suc (length ?R)) p" using that append_take_drop_id [of "Suc (length ?R)" p] by simp
    moreover have "below ?R (?R @ n # q)" "(?R @ n # q) ! length ?R = n" for q
      by (simp del: append_assoc) (rule nth_append_length)
    ultimately have "below ?R p" "p ! length ?R = n" by metis+
    then show ?thesis using 7(6) by simp
  qed
  from 7(1) [OF ok(3) rel d fresh] obtain es fs1 where
    es: "walkTree (rel @ [n]) t = (es, None)" "kv_get fs1 = put_tree (?R @ [n]) t (kv_get fs)"
    "\<And>more. extractArchive (\<lambda>_. None) root (map (rename pre) es @ more) fs = extractArchive (\<lambda>_. None) root more fs1"
    by auto
  have d1: "dirsTo ?R fs1"
  proof -
    have "kv_get fs1 q = kv_get fs q" if "length q \<le> length ?R" for q
      unfolding es(2) by (rule put_tree_other) (use that in \<open>auto dest: arg_cong [where f = length]\<close>)
    then show ?thesis using 7(5) by (simp add: dirsTo_def)
  qed
  have fresh1: "kv_get fs1 p = None" if "below ?R p" "p ! length ?R \<in> set (map fst items)" for p
  proof -
    have "p ! length ?R \<noteq> n" using that(2) ok(2) by auto
    then have "take (length (?R @ [n])) p \<noteq> ?R @ [n]" by (metis nth_append_length nth_take lessI length_append_singleton)
    then show ?thesis using 7(6) [OF that(1)] that(2) by (simp add: es(2) put_tree_def)
  qed
  from 7(2) [OF es(1) [symmetric] refl ok(4) 7(4) d1 fresh1] obtain es' fs2 where
    es': "walkList rel items = (es', None)" "kv_get fs2 = put_list ?R items (kv_get fs1)"
    "\<And>more. extractArchive (\<lambda>_. None) root (map (rename pre) es' @ more) fs1 = extractArchive (\<lambda>_. None) root more fs2"
    by blast
  show ?case using es es' by (intro exI [of _ "es @ es'"] exI [of _ fs2]) simp
qed (simp_all)

lemma archive_roundtrip_lemma:
  assumes "IsAbs root" "dirsTo (pathParts root) fs" "\<And>p. below (pathParts root) p \<Longrightarrow> kv_get fs p = None"
    and "listOK items" "pre = [] \<or> pre = ''./''"
  shows "\<exists>es fs'. writeArchive (LDir items) = (es, None) \<and>
    extractArchive (\<lambda>_. None) root (map (rename pre) es) fs = (None, fs') \<and>
    (\<forall>p. kv_get fs' p = (if below (pathParts root) p then treeAt (LDir items) (drop (length (pathParts root)) p) else kv_get fs p))"
proof -
  let ?R = "pathParts root"
  obtain es fs' where es: "walkList [] items = (es, None)" "kv_get fs' = put_list ?R items (kv_get fs)"
    "\<And>more. extractArchive (\<lambda>_. None) root (map (rename pre) es @ more) fs = extractArchive (\<lambda>_. None) root more fs'"
    using extract_walk(2) [OF assms(1,5,4), of "[]" fs] assms(2,3) by auto
  have "kv_get fs' p = (if below ?R p then treeAt (LDir items) (drop (length ?R) p) else kv_get fs p)" for p
  proof (cases "below ?R p")
    case True
    then obtain n q where "p = ?R @ n # q"
      unfolding below_def by (metis append_take_drop_id drop_eq_Nil2 linorder_not_less neq_Nil_conv)
    then show ?thesis using True put_list_inside [OF assms(4), of ?R "kv_get fs" n q] assms(3) [OF True] es(2)
      by (simp split: option.split)
  next
    case False
    then have "put_list ?R items (kv_get fs) p = kv_get fs p" by (intro put_list_other) auto
    then show ?thesis using False es(2) by simp
  qed
  then show ?thesis using es(1) es(3) [of "[]"] by (auto simp: writeArchive_def)
qed


definition ex_tree :: "(string \<times> localTree) list" where
  "ex_tree = [(''a'', LDir [(''x.txt'', LFile ''one''), (''empty'', LDir [])]), (''b c'', LFile [])]"


end
