(* ===== verification/FileTransfer.thy ===== *)
theory FileTransfer
  imports Archive
begin

text \<open>
  The transfers of the file manager, \<^verbatim>\<open>internal/filemanager/types.go\<close> and \<^verbatim>\<open>transfer.go\<close>: one run of a
  download or an upload of a file. The local and the remote file system map paths to contents; what the
  operating system, the container's shell (\<^verbatim>\<open>cat\<close>, \<^verbatim>\<open>tail\<close>, \<^verbatim>\<open>mv\<close>, \<^verbatim>\<open>rm\<close>) and the connection answer in one run is
  its environment. A run may be cut short at every step, with any part of the data on the other side.
\<close>

section \<open>Tasks\<close>

record Target =
  tg_Context :: string
  tg_Namespace :: string
  tg_Pod :: string
  tg_PodUID :: string
  tg_Container :: string

text \<open>Times are in nanoseconds.\<close>

record FileEntry =
  fe_Name :: string
  fe_Path :: string
  fe_Dir :: bool
  fe_Size :: nat
  fe_ModTime :: int

datatype Direction = DirectionUpload | DirectionDownload

datatype TaskStatus =
    StatusQueued | StatusRunning | StatusPaused | StatusCompleted | StatusFailed | StatusCancelled | StatusStale

record TransferTask =
  tt_ID :: string
  tt_Direction :: Direction
  tt_Target :: Target
  tt_SourcePath :: string
  tt_DestinationPath :: string
  tt_TempPath :: string
  tt_Directory :: bool
  tt_Status :: TaskStatus
  tt_TotalBytes :: nat
  tt_DoneBytes :: nat
  tt_SourceModTime :: int
  tt_Overwrite :: bool
  tt_Error :: string
  tt_CreatedAt :: int
  tt_CompletedAt :: "int option"

definition errSourceChanged :: goerr where
  "errSourceChanged = Errorf ''source file changed''"

definition sameModTime :: "int \<Rightarrow> int \<Rightarrow> bool" where
  "sameModTime left right \<longleftrightarrow> left div 1000000000 = right div 1000000000"

definition unchanged :: "TransferTask \<Rightarrow> FileEntry \<Rightarrow> bool" where
  "unchanged task info \<longleftrightarrow> fe_Size info = tt_TotalBytes task \<and> sameModTime (fe_ModTime info) (tt_SourceModTime task)"

definition alreadyExists :: "string \<Rightarrow> goerr" where
  "alreadyExists destination = Errorf (''destination '' @ destination @ '' already exists'')"

text \<open>Opening for writing creates the file; a rename replaces its target.\<close>

definition touch :: "string \<Rightarrow> (string, string) kv \<Rightarrow> (string, string) kv" where
  "touch p fs = (if kv_get fs p = None then kv_put p [] fs else fs)"

definition appendTo :: "string \<Rightarrow> string \<Rightarrow> (string, string) kv \<Rightarrow> (string, string) kv" where
  "appendTo p data fs = kv_put p ((case kv_get fs p of None \<Rightarrow> [] | Some c \<Rightarrow> c) @ data) fs"

definition moveFile :: "string \<Rightarrow> string \<Rightarrow> (string, string) kv \<Rightarrow> (string, string) kv" where
  "moveFile p q fs = (case kv_get fs p of None \<Rightarrow> fs | Some c \<Rightarrow> kv_put q c (kv_del p fs))"

section \<open>Download\<close>

text \<open>
  \<^term>\<open>dn_source\<close> is the source while it is read; when the command fails, the first \<^term>\<open>dn_sent\<close> bytes asked for
  have been written to the temporary file.
\<close>

record downloadEnv =
  dn_stat :: "FileEntry res"
  dn_mkdir :: "goerr option"
  dn_open :: "goerr option"
  dn_fstat :: "goerr option"
  dn_truncate :: "goerr option"
  dn_seek :: "goerr option"
  dn_source :: string
  dn_exec :: "goerr option"
  dn_sent :: nat
  dn_sync :: "goerr option"
  dn_close :: "goerr option"
  dn_rename :: "goerr option"
  dn_remove :: "goerr option"
  dn_rename2 :: "goerr option"

text \<open>The last steps: the temporary file takes the place of the destination.\<close>

definition placeDownload ::
    "downloadEnv \<Rightarrow> TransferTask \<Rightarrow> (string, string) kv \<Rightarrow> goerr option \<times> (string, string) kv" where
  "placeDownload env task fs =
     (case dn_rename env of
        None \<Rightarrow> (None, moveFile (tt_TempPath task) (tt_DestinationPath task) fs)
      | Some e \<Rightarrow>
          if \<not> tt_Overwrite task then (Some e, fs)
          else (case dn_remove env of
            Some removeErr \<Rightarrow> (Some removeErr, fs)
          | None \<Rightarrow>
              let fs1 = kv_del (tt_DestinationPath task) fs in
              (case dn_rename2 env of
                 Some e' \<Rightarrow> (Some e', fs1)
               | None \<Rightarrow> (None, moveFile (tt_TempPath task) (tt_DestinationPath task) fs1))))"

text \<open>From the temporary file at some offset to the end of the command.\<close>

definition fetch ::
    "downloadEnv \<Rightarrow> TransferTask \<Rightarrow> nat \<Rightarrow> (string, string) kv \<Rightarrow> goerr option \<times> (string, string) kv" where
  "fetch env task offset fs =
     (let rest = drop offset (dn_source env);
          data = (if dn_exec env = None then rest else take (dn_sent env) rest);
          fs1 = appendTo (tt_TempPath task) data fs in
      case dn_exec env of
        Some e \<Rightarrow> (Some e, fs1)
      | None \<Rightarrow>
          if offset + length data \<noteq> tt_TotalBytes task
          then (Some (Errorf (''download stopped at '' @ itoa (offset + length data) @ '' of '' @ itoa (tt_TotalBytes task) @ '' bytes'')), fs1)
          else (case dn_sync env of Some e \<Rightarrow> (Some e, fs1) | None \<Rightarrow>
            (case dn_close env of Some e \<Rightarrow> (Some e, fs1) | None \<Rightarrow> placeDownload env task fs1)))"

definition download ::
    "downloadEnv \<Rightarrow> TransferTask \<Rightarrow> (string, string) kv \<Rightarrow> goerr option \<times> (string, string) kv" where
  "download env task fs =
     (case dn_stat env of Inl e \<Rightarrow> (Some e, fs) | Inr info \<Rightarrow>
      if \<not> unchanged task info then (Some errSourceChanged, fs)
      else case dn_mkdir env of Some e \<Rightarrow> (Some e, fs) | None \<Rightarrow>
      (case dn_open env of Some e \<Rightarrow> (Some e, fs) | None \<Rightarrow>
      (let fs1 = touch (tt_TempPath task) fs;
           offset = (case kv_get fs1 (tt_TempPath task) of None \<Rightarrow> 0 | Some c \<Rightarrow> length c) in
       case dn_fstat env of Some e \<Rightarrow> (Some e, fs1) | None \<Rightarrow>
       (if offset > tt_TotalBytes task
        then (case dn_truncate env of
            Some e \<Rightarrow> (Some e, fs1)
          | None \<Rightarrow>
              let fs2 = kv_put (tt_TempPath task) [] fs1 in
              (case dn_seek env of Some e \<Rightarrow> (Some e, fs2) | None \<Rightarrow> fetch env task 0 fs2))
        else (case dn_seek env of Some e \<Rightarrow> (Some e, fs1) | None \<Rightarrow> fetch env task offset fs1)))))"

section \<open>Upload\<close>

text \<open>
  A stat of a remote file may fail although the file is there, and the removal of a partial file that is too
  long may fail, which is ignored. When the copying command fails, it may not
  have started, or it has stored the first \<^term>\<open>up_kept\<close> bytes it was to store; when the last command fails, the
  removal and the move may have taken effect nevertheless.
\<close>

record uploadEnv =
  up_stat :: "FileEntry res"
  up_tempStat :: "goerr option"
  up_cleared :: bool
  up_open :: "goerr option"
  up_seek :: "goerr option"
  up_source :: string
  up_exec :: "goerr option"
  up_started :: bool
  up_kept :: nat
  up_destStat :: "goerr option"
  up_final :: "goerr option"
  up_removed :: bool
  up_moved :: bool

definition placeUpload ::
    "uploadEnv \<Rightarrow> TransferTask \<Rightarrow> (string, string) kv \<Rightarrow> goerr option \<times> (string, string) kv" where
  "placeUpload env task fs =
     (if \<not> tt_Overwrite task \<and> up_destStat env = None \<and> kv_get fs (tt_DestinationPath task) \<noteq> None
      then (Some (alreadyExists (tt_DestinationPath task)), fs)
      else
        let removed = (if tt_Overwrite task then kv_del (tt_DestinationPath task) fs else fs);
            moved = moveFile (tt_TempPath task) (tt_DestinationPath task) removed in
        (up_final env,
         if up_final env = None then moved
         else if \<not> up_removed env then fs
         else if \<not> up_moved env then removed else moved))"

text \<open>Where the copying goes on: after what the partial file holds, or at the start when that cannot be found out.\<close>

definition uploadOffset :: "uploadEnv \<Rightarrow> TransferTask \<Rightarrow> (string, string) kv \<Rightarrow> nat" where
  "uploadOffset env task fs =
     (if up_tempStat env = None then (case kv_get fs (tt_TempPath task) of None \<Rightarrow> 0 | Some c \<Rightarrow> length c) else 0)"

definition upload ::
    "uploadEnv \<Rightarrow> TransferTask \<Rightarrow> (string, string) kv \<Rightarrow> goerr option \<times> (string, string) kv" where
  "upload env task fs =
     (case up_stat env of Inl e \<Rightarrow> (Some e, fs) | Inr info \<Rightarrow>
      if \<not> unchanged task info then (Some errSourceChanged, fs)
      else
      let offset0 = uploadOffset env task fs;
          offset = (if offset0 > tt_TotalBytes task then 0 else offset0);
          fs0 = (if offset0 > tt_TotalBytes task \<and> up_cleared env then kv_del (tt_TempPath task) fs else fs);
          rest = drop offset (up_source env);
          emptied = (if offset = 0 then kv_put (tt_TempPath task) [] fs0 else fs0) in
      case up_open env of Some e \<Rightarrow> (Some e, fs0) | None \<Rightarrow>
      (case up_seek env of Some e \<Rightarrow> (Some e, fs0) | None \<Rightarrow>
      (case up_exec env of
         Some e \<Rightarrow> (Some e, if up_started env then appendTo (tt_TempPath task) (take (up_kept env) rest) emptied else fs0)
       | None \<Rightarrow>
           let fs1 = appendTo (tt_TempPath task) rest emptied in
           if offset + length rest \<noteq> tt_TotalBytes task
           then (Some (Errorf (''upload stopped at '' @ itoa (offset + length rest) @ '' of '' @ itoa (tt_TotalBytes task) @ '' bytes'')), fs1)
           else placeUpload env task fs1)))"

section \<open>Partial files\<close>

definition partial :: "string \<Rightarrow> string option \<Rightarrow> bool" where
  "partial S c \<longleftrightarrow> (case c of None \<Rightarrow> True | Some d \<Rightarrow> d = take (length d) S)"

lemma partial_simps [simp]: "partial S None" "partial S (Some [])"
  by (simp_all add: partial_def)

lemma partial_grow:
  assumes "partial S (Some c)"
  shows "partial S (Some (c @ take n (drop (length c) S)))"
proof -
  have c: "c = take (length c) S" using assms by (simp add: partial_def)
  have "c @ take n (drop (length c) S) = take (length c + n) S"
    by (subst (1) c) (simp add: take_add)
  then show ?thesis by (simp add: partial_def min_def)
qed

lemma partial_full:
  assumes "partial S (Some c)" shows "c @ drop (length c) S = S"
  using assms append_take_drop_id [of "length c" S] by (simp add: partial_def)

lemma partial_length: "partial S (Some c) \<Longrightarrow> length c \<le> length S"
  by (simp add: partial_def) (metis length_take min.cobounded1)

text \<open>What a run leaves: success, or a partial file and the destination as it was.\<close>

definition placed :: "TransferTask \<Rightarrow> string \<Rightarrow> (string, string) kv \<Rightarrow> (string, string) kv \<Rightarrow> bool" where
  "placed task S fs fs' \<longleftrightarrow>
     kv_get fs' (tt_DestinationPath task) = Some S \<and> kv_get fs' (tt_TempPath task) = None \<and>
     (\<forall>p. p \<noteq> tt_DestinationPath task \<and> p \<noteq> tt_TempPath task \<longrightarrow> kv_get fs' p = kv_get fs p)"

definition interrupted :: "TransferTask \<Rightarrow> string \<Rightarrow> (string, string) kv \<Rightarrow> (string, string) kv \<Rightarrow> bool" where
  "interrupted task S fs fs' \<longleftrightarrow>
     partial S (kv_get fs' (tt_TempPath task)) \<and>
     (kv_get fs' (tt_DestinationPath task) = kv_get fs (tt_DestinationPath task) \<or>
      tt_Overwrite task \<and> kv_get fs' (tt_DestinationPath task) = None \<and> kv_get fs' (tt_TempPath task) = Some S) \<and>
     (\<forall>p. p \<noteq> tt_DestinationPath task \<and> p \<noteq> tt_TempPath task \<longrightarrow> kv_get fs' p = kv_get fs p)"

section \<open>Downloads\<close>

lemma placeDownload_outcome:
  assumes "tt_DestinationPath task \<noteq> tt_TempPath task" "kv_get fs (tt_TempPath task) = Some S"
  shows "case placeDownload env task fs of
      (None, fs') \<Rightarrow> placed task S fs fs'
    | (Some e, fs') \<Rightarrow> interrupted task S fs fs'"
  using assms
  by (auto simp: placeDownload_def placed_def interrupted_def partial_def moveFile_def kv_simps Let_def split: option.splits)

lemma fetch_outcome:
  assumes "tt_DestinationPath task \<noteq> tt_TempPath task" "length S = tt_TotalBytes task" "dn_source env = S"
    and temp: "kv_get fs (tt_TempPath task) = Some c" "partial S (Some c)"
  shows "case fetch env task (length c) fs of
      (None, fs') \<Rightarrow> placed task S fs fs'
    | (Some e, fs') \<Rightarrow> interrupted task S fs fs'"
proof (cases "dn_exec env")
  case (Some e)
  then show ?thesis using assms partial_grow [OF temp(2)]
    by (simp add: fetch_def Let_def interrupted_def appendTo_def kv_simps)
next
  case None
  let ?fs = "appendTo (tt_TempPath task) (drop (length c) S) fs"
  have full: "kv_get ?fs (tt_TempPath task) = Some S" using temp partial_full by (simp add: appendTo_def kv_simps)
  have same: "kv_get ?fs p = kv_get fs p" if "p \<noteq> tt_TempPath task" for p using that by (simp add: appendTo_def kv_simps)
  have len: "length c + length (drop (length c) S) = tt_TotalBytes task"
    using partial_length [OF temp(2)] assms(2) by simp
  have f: "fetch env task (length c) fs =
      (case dn_sync env of Some e \<Rightarrow> (Some e, ?fs) | None \<Rightarrow>
        (case dn_close env of Some e \<Rightarrow> (Some e, ?fs) | None \<Rightarrow> placeDownload env task ?fs))"
    using None len assms(3) by (simp add: fetch_def Let_def)
  have "interrupted task S fs ?fs" using full same assms(1) by (simp add: interrupted_def partial_def)
  moreover note placeDownload_outcome [OF assms(1) full, of env]
  moreover have "placed task S ?fs fs' \<Longrightarrow> placed task S fs fs'" "interrupted task S ?fs fs' \<Longrightarrow> interrupted task S fs fs'" for fs'
    using same assms(1) by (auto simp: placed_def interrupted_def)
  ultimately show ?thesis unfolding f by (auto split: option.splits prod.splits)
qed

definition source_stable :: "TransferTask \<Rightarrow> string \<Rightarrow> FileEntry res \<Rightarrow> string \<Rightarrow> bool" where
  "source_stable task S stat content \<longleftrightarrow> (case stat of Inl e \<Rightarrow> True | Inr info \<Rightarrow> unchanged task info \<longrightarrow> content = S)"

lemma interrupted_refl: "partial S (kv_get fs (tt_TempPath task)) \<Longrightarrow> interrupted task S fs fs"
  by (simp add: interrupted_def)

lemma download_outcome:
  assumes "tt_DestinationPath task \<noteq> tt_TempPath task" "length S = tt_TotalBytes task"
    and "source_stable task S (dn_stat env) (dn_source env)" "partial S (kv_get fs (tt_TempPath task))"
  shows "case download env task fs of
      (None, fs') \<Rightarrow> placed task S fs fs'
    | (Some e, fs') \<Rightarrow> interrupted task S fs fs'"
proof -
  have stay: "interrupted task S fs fs" using assms(4) by (rule interrupted_refl)
  let ?fs = "touch (tt_TempPath task) fs"
  obtain c where c: "kv_get ?fs (tt_TempPath task) = Some c" "partial S (Some c)"
    using assms(4) by (cases "kv_get fs (tt_TempPath task)") (auto simp: touch_def kv_simps)
  have same: "kv_get ?fs p = kv_get fs p" if "p \<noteq> tt_TempPath task" for p using that by (simp add: touch_def kv_simps)
  then have lift: "placed task S ?fs fs' \<Longrightarrow> placed task S fs fs'" "interrupted task S ?fs fs' \<Longrightarrow> interrupted task S fs fs'" for fs'
    using assms(1) by (auto simp: placed_def interrupted_def)
  have stay1: "interrupted task S fs ?fs" using c by (intro lift interrupted_refl) simp
  have ne: "(length c > tt_TotalBytes task) = False" using partial_length [OF c(2)] assms(2) by simp
  have d: "download env task fs =
     (case dn_stat env of Inl e \<Rightarrow> (Some e, fs) | Inr info \<Rightarrow>
      if \<not> unchanged task info then (Some errSourceChanged, fs)
      else case dn_mkdir env of Some e \<Rightarrow> (Some e, fs) | None \<Rightarrow>
      (case dn_open env of Some e \<Rightarrow> (Some e, fs) | None \<Rightarrow>
      (case dn_fstat env of Some e \<Rightarrow> (Some e, ?fs) | None \<Rightarrow>
       (case dn_seek env of Some e \<Rightarrow> (Some e, ?fs) | None \<Rightarrow> fetch env task (length c) ?fs))))"
    unfolding download_def Let_def c(1) option.case ne if_False by (rule refl)
  show ?thesis
  proof (cases "\<exists>info. dn_stat env = Inr info \<and> unchanged task info")
    case True
    then have "dn_source env = S" using assms(3) by (auto simp: source_stable_def)
    from fetch_outcome [OF assms(1, 2) this c] lift stay stay1 True show ?thesis
      unfolding d by (auto split: option.splits prod.splits)
  next
    case False
    then show ?thesis unfolding d using stay by (auto split: sum.splits)
  qed
qed

text \<open>Runs of one task, resumed until one succeeds.\<close>

fun downloads :: "downloadEnv list \<Rightarrow> TransferTask \<Rightarrow> (string, string) kv \<Rightarrow> bool \<times> (string, string) kv" where
  "downloads [] task fs = (False, fs)"
| "downloads (env # envs) task fs =
     (case download env task fs of
        (None, fs1) \<Rightarrow> (True, fs1)
      | (Some e, fs1) \<Rightarrow> downloads envs task fs1)"

definition undisturbed :: "TransferTask \<Rightarrow> (string, string) kv \<Rightarrow> (string, string) kv \<Rightarrow> bool" where
  "undisturbed task fs fs' \<longleftrightarrow>
     kv_get fs' (tt_DestinationPath task) = kv_get fs (tt_DestinationPath task) \<or>
     tt_Overwrite task \<and> kv_get fs' (tt_DestinationPath task) = None"

lemma downloads_lemma:
  assumes "tt_DestinationPath task \<noteq> tt_TempPath task" "length S = tt_TotalBytes task"
    and "list_all (\<lambda>env. source_stable task S (dn_stat env) (dn_source env)) envs" "partial S (kv_get fs (tt_TempPath task))"
  shows "case downloads envs task fs of (ok, fs') \<Rightarrow>
    (if ok then kv_get fs' (tt_DestinationPath task) = Some S \<and> kv_get fs' (tt_TempPath task) = None
     else undisturbed task fs fs' \<and> partial S (kv_get fs' (tt_TempPath task))) \<and>
    (\<forall>p. p \<noteq> tt_DestinationPath task \<and> p \<noteq> tt_TempPath task \<longrightarrow> kv_get fs' p = kv_get fs p)"
  using assms(3,4)
proof (induction envs arbitrary: fs)
  case Nil
  then show ?case by (simp add: undisturbed_def)
next
  case (Cons env envs)
  have "source_stable task S (dn_stat env) (dn_source env)" using Cons.prems by simp
  note out = download_outcome [OF assms(1, 2) this Cons.prems(2)]
  obtain r fs1 where d: "download env task fs = (r, fs1)" by (cases "download env task fs")
  show ?case
  proof (cases r)
    case None
    then show ?thesis using out d by (simp add: placed_def)
  next
    case (Some e)
    then have i: "interrupted task S fs fs1" using out d by simp
    then have "partial S (kv_get fs1 (tt_TempPath task))" by (simp add: interrupted_def)
    moreover have "list_all (\<lambda>env. source_stable task S (dn_stat env) (dn_source env)) envs" using Cons.prems by simp
    ultimately have ih: "case downloads envs task fs1 of (ok, fs') \<Rightarrow>
      (if ok then kv_get fs' (tt_DestinationPath task) = Some S \<and> kv_get fs' (tt_TempPath task) = None
       else undisturbed task fs1 fs' \<and> partial S (kv_get fs' (tt_TempPath task))) \<and>
      (\<forall>p. p \<noteq> tt_DestinationPath task \<and> p \<noteq> tt_TempPath task \<longrightarrow> kv_get fs' p = kv_get fs1 p)"
      by (intro Cons.IH)
    obtain ok fs2 where ds: "downloads envs task fs1 = (ok, fs2)" by (cases "downloads envs task fs1")
    have "downloads (env # envs) task fs = (ok, fs2)" using d Some ds by simp
    moreover have "undisturbed task fs1 fs2 \<Longrightarrow> undisturbed task fs fs2"
      using i by (auto simp: interrupted_def undisturbed_def)
    moreover have "\<forall>p. p \<noteq> tt_DestinationPath task \<and> p \<noteq> tt_TempPath task \<longrightarrow> kv_get fs1 p = kv_get fs p"
      using i by (simp add: interrupted_def)
    ultimately show ?thesis using ih unfolding ds by (simp split: if_splits)
  qed
qed

definition download_answers :: "TransferTask \<Rightarrow> downloadEnv \<Rightarrow> bool" where
  "download_answers task env \<longleftrightarrow>
     (case dn_stat env of Inl e \<Rightarrow> False | Inr info \<Rightarrow> unchanged task info) \<and>
     list_all (\<lambda>e. e = None) [dn_mkdir env, dn_open env, dn_fstat env, dn_seek env, dn_exec env, dn_sync env, dn_close env, dn_rename env]"

lemma download_completes:
  assumes "tt_DestinationPath task \<noteq> tt_TempPath task" "length S = tt_TotalBytes task"
    and "source_stable task S (dn_stat env) (dn_source env)" "partial S (kv_get fs (tt_TempPath task))" "download_answers task env"
  shows "fst (download env task fs) = None"
proof -
  let ?fs = "touch (tt_TempPath task) fs"
  obtain c where c: "kv_get ?fs (tt_TempPath task) = Some c" "partial S (Some c)"
    using assms(4) by (cases "kv_get fs (tt_TempPath task)") (auto simp: touch_def kv_simps)
  have "length c \<le> length S" using c(2) by (rule partial_length)
  then have "\<not> length c > tt_TotalBytes task" "length c + length (drop (length c) S) = tt_TotalBytes task" using assms(2) by simp_all
  moreover obtain info where "dn_stat env = Inr info" "unchanged task info"
    using assms(5) by (auto simp: download_answers_def split: sum.splits)
  moreover from this have "dn_source env = S" using assms(3) by (simp add: source_stable_def)
  ultimately show ?thesis using assms(5)
    by (simp add: download_def c(1) Let_def fetch_def placeDownload_def download_answers_def)
qed

lemma downloads_complete:
  assumes "tt_DestinationPath task \<noteq> tt_TempPath task" "length S = tt_TotalBytes task"
    and "list_all (\<lambda>env. source_stable task S (dn_stat env) (dn_source env)) envs" "partial S (kv_get fs (tt_TempPath task))"
    and "list_ex (download_answers task) envs"
  shows "fst (downloads envs task fs)"
  using assms(3-5)
proof (induction envs arbitrary: fs)
  case (Cons env envs)
  have stable: "source_stable task S (dn_stat env) (dn_source env)" using Cons.prems by simp
  obtain r fs1 where d: "download env task fs = (r, fs1)" by (cases "download env task fs")
  show ?case
  proof (cases r)
    case None
    then show ?thesis using d by simp
  next
    case (Some e)
    then have "\<not> download_answers task env"
      using download_completes [OF assms(1, 2) stable Cons.prems(2)] d by auto
    then have "list_ex (download_answers task) envs" using Cons.prems(3) by simp
    moreover have "partial S (kv_get fs1 (tt_TempPath task))"
      using download_outcome [OF assms(1, 2) stable Cons.prems(2)] d Some by (simp add: interrupted_def)
    ultimately show ?thesis using Cons d Some by simp
  qed
qed simp


definition ex_transfer :: TransferTask where
  "ex_transfer = \<lparr>tt_ID = ''t1'', tt_Direction = DirectionDownload,
     tt_Target = \<lparr>tg_Context = ''c'', tg_Namespace = ''n'', tg_Pod = ''p'', tg_PodUID = [], tg_Container = ''k''\<rparr>,
     tt_SourcePath = ''/s'', tt_DestinationPath = ''/d'', tt_TempPath = ''/d.part'', tt_Directory = False,
     tt_Status = StatusRunning, tt_TotalBytes = 5, tt_DoneBytes = 0, tt_SourceModTime = 0, tt_Overwrite = False,
     tt_Error = [], tt_CreatedAt = 0, tt_CompletedAt = None\<rparr>"

definition ex_download :: downloadEnv where
  "ex_download = \<lparr>dn_stat = Inr \<lparr>fe_Name = ''s'', fe_Path = ''/s'', fe_Dir = False, fe_Size = 5, fe_ModTime = 7\<rparr>, dn_mkdir = None,
     dn_open = None, dn_fstat = None, dn_truncate = None, dn_seek = None, dn_source = ''hello'', dn_exec = None, dn_sent = 0,
     dn_sync = None, dn_close = None, dn_rename = None, dn_remove = None, dn_rename2 = None\<rparr>"


text \<open>
  A download does not look at the destination again before it replaces it: without \<^verbatim>\<open>Overwrite\<close>, a file that
  appeared there after the transfer was started is lost. The other three transfers check once more.
\<close>

lemma download_replaces:
  assumes "tt_DestinationPath task \<noteq> tt_TempPath task" "length S = tt_TotalBytes task" "\<not> tt_Overwrite task"
    and "source_stable task S (dn_stat env) (dn_source env)" "kv_get fs (tt_TempPath task) = None" "download_answers task env"
  shows "case download env task (kv_put (tt_DestinationPath task) precious fs) of (err, fs') \<Rightarrow>
    err = None \<and> kv_get fs' (tt_DestinationPath task) = Some S"
proof -
  let ?fs = "kv_put (tt_DestinationPath task) precious fs"
  have p: "partial S (kv_get ?fs (tt_TempPath task))" using assms(1,5) by (simp add: kv_simps)
  show ?thesis
    using download_completes [OF assms(1,2,4) p assms(6)] download_outcome [OF assms(1,2,4) p]
    by (auto simp: placed_def split: prod.splits option.splits)
qed

section \<open>Uploads\<close>

definition upload_left :: "TransferTask \<Rightarrow> string \<Rightarrow> (string, string) kv \<Rightarrow> (string, string) kv \<Rightarrow> bool" where
  "upload_left task S fs fs' \<longleftrightarrow> interrupted task S fs fs' \<or> placed task S fs fs'"

lemma placeUpload_outcome:
  assumes "tt_DestinationPath task \<noteq> tt_TempPath task" "kv_get fs (tt_TempPath task) = Some S"
  shows "case placeUpload env task fs of
      (None, fs') \<Rightarrow> placed task S fs fs'
    | (Some e, fs') \<Rightarrow> upload_left task S fs fs'"
  using assms
  by (auto simp: placeUpload_def placed_def upload_left_def interrupted_def partial_def moveFile_def kv_simps Let_def
      split: option.splits)

lemma placeUpload_respects:
  assumes "\<not> tt_Overwrite task" "up_destStat env = None" "kv_get fs (tt_DestinationPath task) \<noteq> None"
  shows "placeUpload env task fs = (Some (alreadyExists (tt_DestinationPath task)), fs)"
  using assms by (simp add: placeUpload_def)

lemma upload_steps:
  assumes "length S = tt_TotalBytes task" "source_stable task S (up_stat env) (up_source env)" "partial S (kv_get fs (tt_TempPath task))"
    and "tt_DestinationPath task \<noteq> tt_TempPath task"
  shows "\<exists>fs1. (\<forall>p. p \<noteq> tt_TempPath task \<longrightarrow> kv_get fs1 p = kv_get fs p) \<and> partial S (kv_get fs1 (tt_TempPath task)) \<and>
    ((\<exists>e. upload env task fs = (Some e, fs1)) \<or>
     kv_get fs1 (tt_TempPath task) = Some S \<and> upload env task fs = placeUpload env task fs1)"
proof (cases "\<exists>info. up_stat env = Inr info \<and> unchanged task info")
  case False
  then show ?thesis using assms(3) by (intro exI [of _ fs]) (auto simp: upload_def split: sum.splits)
next
  case True
  then have src: "up_source env = S" using assms(2) by (auto simp: source_stable_def)
  from True obtain info where info: "up_stat env = Inr info" "unchanged task info" by blast
  let ?o = "uploadOffset env task fs"
  define emptied where "emptied = (if ?o = 0 then kv_put (tt_TempPath task) [] fs else fs)"
  obtain c where c: "length c = ?o" "partial S (Some c)" "kv_get emptied (tt_TempPath task) = Some c"
  proof (cases "?o = 0")
    case True
    then show thesis by (intro that [of "[]"]) (simp_all add: emptied_def kv_simps)
  next
    case False
    then obtain c where "kv_get fs (tt_TempPath task) = Some c" "?o = length c"
      by (auto simp: uploadOffset_def split: if_splits option.splits)
    then show thesis using False assms(3) by (intro that [of c]) (simp_all add: emptied_def)
  qed
  have o': "(?o > tt_TotalBytes task) = False" using partial_length [OF c(2)] c(1) assms(1) by simp
  have same: "kv_get emptied p = kv_get fs p" if "p \<noteq> tt_TempPath task" for p
    using that by (simp add: emptied_def kv_simps)
  have u: "upload env task fs =
     (case up_open env of Some e \<Rightarrow> (Some e, fs) | None \<Rightarrow>
      (case up_seek env of Some e \<Rightarrow> (Some e, fs) | None \<Rightarrow>
      (case up_exec env of
         Some e \<Rightarrow> (Some e, if up_started env then appendTo (tt_TempPath task) (take (up_kept env) (drop ?o S)) emptied else fs)
       | None \<Rightarrow>
           if ?o + length (drop ?o S) \<noteq> tt_TotalBytes task
           then (Some (Errorf (''upload stopped at '' @ itoa (?o + length (drop ?o S)) @ '' of '' @ itoa (tt_TotalBytes task) @ '' bytes'')),
                 appendTo (tt_TempPath task) (drop ?o S) emptied)
           else placeUpload env task (appendTo (tt_TempPath task) (drop ?o S) emptied))))"
    unfolding upload_def Let_def info(1) sum.case eqTrueI [OF info(2)] not_True_eq_False if_False o' simp_thms src emptied_def
    by (rule TrueI)
  have len: "?o + length (drop ?o S) = tt_TotalBytes task" using o' assms(1) by simp
  let ?full = "appendTo (tt_TempPath task) (drop ?o S) emptied"
  have full: "kv_get ?full (tt_TempPath task) = Some S" "\<forall>p. p \<noteq> tt_TempPath task \<longrightarrow> kv_get ?full p = kv_get fs p"
    using c same partial_full [OF c(2)] by (simp_all add: appendTo_def kv_simps)
  let ?part = "appendTo (tt_TempPath task) (take (up_kept env) (drop ?o S)) emptied"
  have part: "partial S (kv_get ?part (tt_TempPath task))" "\<forall>p. p \<noteq> tt_TempPath task \<longrightarrow> kv_get ?part p = kv_get fs p"
    using c same partial_grow [OF c(2)] by (simp_all add: appendTo_def kv_simps)
  consider (early) e where "upload env task fs = (Some e, fs)" | (part) e where "upload env task fs = (Some e, ?part)"
    | (full) "upload env task fs = placeUpload env task ?full"
    unfolding u using len by (cases "up_open env"; cases "up_seek env"; cases "up_exec env"; cases "up_started env") simp_all
  then show ?thesis
  proof cases
    case early
    then show ?thesis using assms(3) by (intro exI [of _ fs]) simp
  next
    case part': part
    then show ?thesis using part by (intro exI [of _ ?part]) simp
  next
    case full': full
    then show ?thesis using full by (intro exI [of _ ?full]) (simp add: partial_def)
  qed
qed

lemma upload_outcome:
  assumes "tt_DestinationPath task \<noteq> tt_TempPath task" "length S = tt_TotalBytes task"
    and "source_stable task S (up_stat env) (up_source env)" "partial S (kv_get fs (tt_TempPath task))"
  shows "case upload env task fs of
      (None, fs') \<Rightarrow> placed task S fs fs'
    | (Some e, fs') \<Rightarrow> upload_left task S fs fs'"
proof -
  from upload_steps [OF assms(2-4,1)] obtain fs1 where
    same: "\<forall>p. p \<noteq> tt_TempPath task \<longrightarrow> kv_get fs1 p = kv_get fs p" "partial S (kv_get fs1 (tt_TempPath task))"
    and u: "(\<exists>e. upload env task fs = (Some e, fs1)) \<or>
      kv_get fs1 (tt_TempPath task) = Some S \<and> upload env task fs = placeUpload env task fs1" by blast
  from u show ?thesis
  proof (elim disjE exE conjE)
    fix e assume "upload env task fs = (Some e, fs1)"
    moreover have "interrupted task S fs fs1" using same assms(1) by (simp add: interrupted_def)
    ultimately show ?thesis by (simp add: upload_left_def)
  next
    assume full: "kv_get fs1 (tt_TempPath task) = Some S" and p: "upload env task fs = placeUpload env task fs1"
    have "placed task S fs1 fs' \<Longrightarrow> placed task S fs fs'" "upload_left task S fs1 fs' \<Longrightarrow> upload_left task S fs fs'" for fs'
      using same assms(1) by (auto simp: placed_def interrupted_def upload_left_def)
    with placeUpload_outcome [OF assms(1) full, of env] show ?thesis unfolding p by (auto split: prod.splits option.splits)
  qed
qed

lemma upload_respects:
  assumes "tt_DestinationPath task \<noteq> tt_TempPath task" "length S = tt_TotalBytes task" "\<not> tt_Overwrite task"
    and "source_stable task S (up_stat env) (up_source env)" "partial S (kv_get fs (tt_TempPath task))"
    and "up_destStat env = None" "kv_get fs (tt_DestinationPath task) = Some old"
  shows "case upload env task fs of (err, fs') \<Rightarrow>
    err \<noteq> None \<and> kv_get fs' (tt_DestinationPath task) = Some old \<and> partial S (kv_get fs' (tt_TempPath task))"
proof -
  from upload_steps [OF assms(2,4,5,1)] obtain fs1 where
    same: "\<forall>p. p \<noteq> tt_TempPath task \<longrightarrow> kv_get fs1 p = kv_get fs p" "partial S (kv_get fs1 (tt_TempPath task))"
    and u: "(\<exists>e. upload env task fs = (Some e, fs1)) \<or>
      kv_get fs1 (tt_TempPath task) = Some S \<and> upload env task fs = placeUpload env task fs1" by blast
  have "kv_get fs1 (tt_DestinationPath task) = Some old" using same assms(1,7) by simp
  then show ?thesis using u same placeUpload_respects [OF assms(3,6), of fs1] by auto
qed

fun uploads :: "uploadEnv list \<Rightarrow> TransferTask \<Rightarrow> (string, string) kv \<Rightarrow> bool \<times> (string, string) kv" where
  "uploads [] task fs = (False, fs)"
| "uploads (env # envs) task fs =
     (case upload env task fs of
        (None, fs1) \<Rightarrow> (True, fs1)
      | (Some e, fs1) \<Rightarrow> uploads envs task fs1)"

lemma uploads_lemma:
  assumes "tt_DestinationPath task \<noteq> tt_TempPath task" "length S = tt_TotalBytes task"
    and "list_all (\<lambda>env. source_stable task S (up_stat env) (up_source env)) envs" "partial S (kv_get fs (tt_TempPath task))"
  shows "case uploads envs task fs of (ok, fs') \<Rightarrow>
    (if ok then kv_get fs' (tt_DestinationPath task) = Some S \<and> kv_get fs' (tt_TempPath task) = None
     else (undisturbed task fs fs' \<or> kv_get fs' (tt_DestinationPath task) = Some S) \<and> partial S (kv_get fs' (tt_TempPath task))) \<and>
    (\<forall>p. p \<noteq> tt_DestinationPath task \<and> p \<noteq> tt_TempPath task \<longrightarrow> kv_get fs' p = kv_get fs p)"
  using assms(3,4)
proof (induction envs arbitrary: fs)
  case Nil
  then show ?case by (simp add: undisturbed_def)
next
  case (Cons env envs)
  have "source_stable task S (up_stat env) (up_source env)" using Cons.prems by simp
  note out = upload_outcome [OF assms(1, 2) this Cons.prems(2)]
  obtain r fs1 where d: "upload env task fs = (r, fs1)" by (cases "upload env task fs")
  show ?case
  proof (cases r)
    case None
    then show ?thesis using out d by (simp add: placed_def)
  next
    case (Some e)
    then have i: "upload_left task S fs fs1" using out d by simp
    then have "partial S (kv_get fs1 (tt_TempPath task))" by (auto simp: upload_left_def interrupted_def placed_def)
    moreover have "list_all (\<lambda>env. source_stable task S (up_stat env) (up_source env)) envs" using Cons.prems by simp
    ultimately have ih: "case uploads envs task fs1 of (ok, fs') \<Rightarrow>
      (if ok then kv_get fs' (tt_DestinationPath task) = Some S \<and> kv_get fs' (tt_TempPath task) = None
       else (undisturbed task fs1 fs' \<or> kv_get fs' (tt_DestinationPath task) = Some S) \<and> partial S (kv_get fs' (tt_TempPath task))) \<and>
      (\<forall>p. p \<noteq> tt_DestinationPath task \<and> p \<noteq> tt_TempPath task \<longrightarrow> kv_get fs' p = kv_get fs1 p)"
      by (intro Cons.IH)
    obtain ok fs2 where ds: "uploads envs task fs1 = (ok, fs2)" by (cases "uploads envs task fs1")
    have "uploads (env # envs) task fs = (ok, fs2)" using d Some ds by simp
    moreover have "undisturbed task fs1 fs2 \<Longrightarrow> undisturbed task fs fs2 \<or> kv_get fs2 (tt_DestinationPath task) = Some S"
      using i by (auto simp: upload_left_def interrupted_def placed_def undisturbed_def)
    moreover have "\<forall>p. p \<noteq> tt_DestinationPath task \<and> p \<noteq> tt_TempPath task \<longrightarrow> kv_get fs1 p = kv_get fs p"
      using i by (auto simp: upload_left_def interrupted_def placed_def)
    ultimately show ?thesis using ih unfolding ds by (auto split: if_splits)
  qed
qed

lemma uploads_respect:
  assumes "tt_DestinationPath task \<noteq> tt_TempPath task" "length S = tt_TotalBytes task" "\<not> tt_Overwrite task"
    and "list_all (\<lambda>env. source_stable task S (up_stat env) (up_source env) \<and> up_destStat env = None) envs"
    and "partial S (kv_get fs (tt_TempPath task))" "kv_get fs (tt_DestinationPath task) = Some old"
  shows "\<not> fst (uploads envs task fs) \<and> kv_get (snd (uploads envs task fs)) (tt_DestinationPath task) = Some old"
  using assms(4-6)
proof (induction envs arbitrary: fs)
  case (Cons env envs)
  have s: "source_stable task S (up_stat env) (up_source env)" "up_destStat env = None" using Cons.prems by simp_all
  obtain r fs1 where d: "upload env task fs = (r, fs1)" by (cases "upload env task fs")
  from upload_respects [OF assms(1-3) s(1) Cons.prems(2) s(2) Cons.prems(3)] d obtain e where
    "r = Some e" "kv_get fs1 (tt_DestinationPath task) = Some old" "partial S (kv_get fs1 (tt_TempPath task))" by auto
  then show ?case using Cons d by simp
qed simp


definition ex_upload :: uploadEnv where
  "ex_upload = \<lparr>up_stat = Inr \<lparr>fe_Name = ''s'', fe_Path = ''/s'', fe_Dir = False, fe_Size = 5, fe_ModTime = 7\<rparr>, up_tempStat = None,
     up_cleared = True, up_open = None, up_seek = None, up_source = ''hello'', up_exec = None, up_started = True, up_kept = 3,
     up_destStat = None, up_final = None, up_removed = False, up_moved = False\<rparr>"


section \<open>Directories\<close>

definition inside :: "string list \<Rightarrow> string list \<Rightarrow> bool" where
  "inside P k \<longleftrightarrow> take (length P) k = P"

definition removeTree :: "string list \<Rightarrow> fsMap \<Rightarrow> fsMap" where
  "removeTree P fs = filter (\<lambda>(k, v). \<not> inside P k) fs"

text \<open>A rename moves everything below the old path; an empty directory at the new one is replaced.\<close>

definition renameTree :: "string list \<Rightarrow> string list \<Rightarrow> fsMap \<Rightarrow> fsMap" where
  "renameTree P Q fs = map (\<lambda>(k, v). (if inside P k then Q @ drop (length P) k else k, v)) (removeTree Q fs)"

text \<open>
  The stream that the container's \<^verbatim>\<open>tar\<close> sends, how its command ends, and the answers of the local operating
  system. The file system is that of \<^verbatim>\<open>Archive\<close>.
\<close>

record dirDownloadEnv =
  dd_stat :: "FileEntry res"
  dd_clear :: "goerr option"
  dd_io :: "string list \<Rightarrow> goerr option"
  dd_stream :: "tarNext list"
  dd_exec :: "goerr option"
  dd_lstat :: "goerr option"
  dd_remove :: "goerr option"
  dd_rename :: "goerr option"

definition placeDirectory :: "dirDownloadEnv \<Rightarrow> TransferTask \<Rightarrow> fsMap \<Rightarrow> goerr option \<times> fsMap" where
  "placeDirectory env task fs =
     (let dest = pathParts (tt_DestinationPath task);
          move = (\<lambda>fs0. case dd_rename env of
              Some e \<Rightarrow> (Some e, fs0)
            | None \<Rightarrow> (None, renameTree (pathParts (tt_TempPath task)) dest fs0)) in
      if \<not> tt_Overwrite task
      then (case dd_lstat env of
          Some e \<Rightarrow> (Some e, fs)
        | None \<Rightarrow>
            if kv_get fs dest \<noteq> None then (Some (alreadyExists (tt_DestinationPath task)), fs) else move fs)
      else (case dd_remove env of
          Some e \<Rightarrow> (Some e, fs)
        | None \<Rightarrow> move (removeTree dest fs)))"

definition downloadDirectory :: "dirDownloadEnv \<Rightarrow> TransferTask \<Rightarrow> fsMap \<Rightarrow> goerr option \<times> fsMap" where
  "downloadDirectory env task fs =
     (case dd_stat env of Inl e \<Rightarrow> (Some e, fs) | Inr info \<Rightarrow>
      if \<not> fe_Dir info \<or> \<not> sameModTime (fe_ModTime info) (tt_SourceModTime task) then (Some errSourceChanged, fs)
      else case dd_clear env of Some e \<Rightarrow> (Some e, fs) | None \<Rightarrow>
      (case mkdirAll (dd_io env) (tt_TempPath task) (removeTree (pathParts (tt_TempPath task)) fs) of
         (Some e, fs1) \<Rightarrow> (Some e, fs1)
       | (None, fs1) \<Rightarrow>
           (case extractArchive (dd_io env) (tt_TempPath task) (dd_stream env) fs1 of
              (Some e, fs2) \<Rightarrow> (Some e, fs2)
            | (None, fs2) \<Rightarrow>
                (case dd_exec env of
                   Some e \<Rightarrow> (Some e, fs2)
                 | None \<Rightarrow> placeDirectory env task fs2))))"

text \<open>
  An upload sends the stream of the local directory; a remote path holds the stream that was unpacked there.
  When a command fails, its effects may or may not have happened, and any part of the stream may be unpacked.
\<close>

record dirUploadEnv =
  du_stat :: "FileEntry res"
  du_tree :: localTree
  du_exec :: "goerr option"
  du_started :: bool
  du_kept :: nat
  du_destStat :: "goerr option"
  du_final :: "goerr option"
  du_removed :: bool
  du_moved :: bool

definition moveStream :: "string \<Rightarrow> string \<Rightarrow> (string, tarNext list) kv \<Rightarrow> (string, tarNext list) kv" where
  "moveStream p q fs = (case kv_get fs p of None \<Rightarrow> fs | Some c \<Rightarrow> kv_put q c (kv_del p fs))"

definition uploadDirectory ::
    "dirUploadEnv \<Rightarrow> TransferTask \<Rightarrow> (string, tarNext list) kv \<Rightarrow> goerr option \<times> (string, tarNext list) kv" where
  "uploadDirectory env task fs =
     (case du_stat env of Inl e \<Rightarrow> (Some e, fs) | Inr info \<Rightarrow>
      if \<not> fe_Dir info \<or> \<not> sameModTime (fe_ModTime info) (tt_SourceModTime task) then (Some errSourceChanged, fs)
      else case localTreeSize (pathBase (tt_SourcePath task)) (du_tree env) of Inl e \<Rightarrow> (Some e, fs) | Inr totalBytes \<Rightarrow>
      if totalBytes \<noteq> tt_TotalBytes task then (Some errSourceChanged, fs)
      else
      (case writeArchive (du_tree env) of (stream, archiveErr) \<Rightarrow>
      (case du_exec env of
         Some e \<Rightarrow> (Some e, if du_started env then kv_put (tt_TempPath task) (take (du_kept env) stream) fs else fs)
       | None \<Rightarrow>
           let fs1 = kv_put (tt_TempPath task) stream fs in
           (case archiveErr of
              Some e \<Rightarrow> (Some e, fs1)
            | None \<Rightarrow>
                if \<not> tt_Overwrite task \<and> du_destStat env = None \<and> kv_get fs1 (tt_DestinationPath task) \<noteq> None
                then (Some (alreadyExists (tt_DestinationPath task)), fs1)
                else
                  let removed = (if tt_Overwrite task then kv_del (tt_DestinationPath task) fs1 else fs1);
                      moved = moveStream (tt_TempPath task) (tt_DestinationPath task) removed in
                  (du_final env,
                   if du_final env = None then moved
                   else if \<not> du_removed env then fs1
                   else if \<not> du_moved env then removed else moved)))))"

section \<open>A downloaded directory is the directory\<close>

lemma kv_get_removeTree: "kv_get (removeTree P fs) k = (if inside P k then None else kv_get fs k)"
  by (induction fs) (auto simp: removeTree_def kv_get_def)

lemma inside_append [simp]: "inside P (P @ q)"
  by (simp add: inside_def)

lemma inside_refl [simp]: "inside P P"
  by (simp add: inside_def)

lemma inside_split: "inside P k \<Longrightarrow> k = P @ drop (length P) k"
  by (metis append_take_drop_id inside_def)

lemma inside_apart:
  assumes "\<not> inside P Q" "\<not> inside Q P"
  shows "\<not> (inside P j \<and> inside Q j)"
proof
  assume "inside P j \<and> inside Q j"
  then have "take (length P) j = P" "take (length Q) j = Q" by (simp_all add: inside_def)
  then have "inside P Q \<or> inside Q P"
    unfolding inside_def by (metis min.absorb1 min.absorb2 nat_le_linear take_take)
  with assms show False by blast
qed

lemma kv_get_renameTree:
  assumes "\<not> inside P Q" "\<not> inside Q P"
  shows "kv_get (renameTree P Q fs) k =
    (if inside Q k then kv_get fs (P @ drop (length Q) k) else if inside P k then None else kv_get fs k)"
proof -
  note apart = inside_apart [OF assms]
  have m: "kv_get (map (\<lambda>(k, v). (if inside P k then Q @ drop (length P) k else k, v)) gs) k =
      (if inside Q k then kv_get gs (P @ drop (length Q) k) else if inside P k then None else kv_get gs k)"
    if "\<forall>(j, v) \<in> set gs. \<not> inside Q j" for gs
    using that
  proof (induction gs)
    case (Cons x gs)
    obtain j v where x: "x = (j, v)" by (cases x)
    have nq: "\<not> inside Q j" using Cons.prems x by simp
    have ih: "kv_get (map (\<lambda>(k, v). (if inside P k then Q @ drop (length P) k else k, v)) gs) k =
      (if inside Q k then kv_get gs (P @ drop (length Q) k) else if inside P k then None else kv_get gs k)"
      using Cons by simp
    show ?case
    proof (cases "inside P j")
      case True
      have "(Q @ drop (length P) j = k) = (inside Q k \<and> P @ drop (length Q) k = j)"
        using inside_split [OF True] inside_split [of Q k] by (metis append_eq_conv_conj inside_append)
      then show ?thesis using ih x True apart [of k] inside_split [of P k] by (auto simp: kv_get_def)
    next
      case False
      then have "j \<noteq> P @ drop (length Q) k" by auto
      then show ?thesis using ih x False nq by (auto simp: kv_get_def)
    qed
  qed (simp add: kv_get_def)
  have "\<forall>(j, v) \<in> set (removeTree Q fs). \<not> inside Q j" by (auto simp: removeTree_def)
  note m = m [OF this]
  have "\<not> inside Q (P @ drop (length Q) k)" using apart [of "P @ drop (length Q) k"] by simp
  then show ?thesis unfolding renameTree_def m kv_get_removeTree by simp
qed

lemma below_inside: "below P k \<longleftrightarrow> inside P k \<and> k \<noteq> P"
proof
  assume "inside P k \<and> k \<noteq> P"
  then have "k = P @ drop (length P) k" "k \<noteq> P" using inside_split by blast+
  then have "drop (length P) k \<noteq> []" by (metis append_Nil2)
  then show "below P k" using \<open>inside P k \<and> k \<noteq> P\<close> by (simp add: below_def inside_def)
qed (auto simp: below_def inside_def)

text \<open>The stream of the container's \<^verbatim>\<open>tar cf - -C source .\<close> for a directory of files and directories.\<close>

definition remoteTar :: "(string \<times> localTree) list \<Rightarrow> tarNext list" where
  "remoteTar items = TarDir ''./'' # map (rename ''./'') (fst (writeArchive (LDir items)))"

lemma remoteTar_root: "IsAbs root \<Longrightarrow> extractArchive io root (TarDir ''./'' # es) fs = extractArchive io root es fs"
proof -
  have "safeArchiveTarget root ''./'' = Inr root" by (simp add: safeArchiveTarget_def) code_simp
  then show ?thesis by simp
qed

lemma downloadDirectory_lemma:
  fixes task fs env items
  defines "D \<equiv> pathParts (tt_DestinationPath task)" and "T \<equiv> pathParts (tt_TempPath task)"
  assumes abs: "IsAbs (tt_TempPath task)" and sibling: "butlast T = butlast D" "T \<noteq> D" "T \<noteq> []" "D \<noteq> []"
    and dirs: "dirsTo (butlast T) fs" and ok: "listOK items"
    and env: "dd_stream env = remoteTar items" "dd_io env = (\<lambda>_. None)"
    and run: "downloadDirectory env task fs = (None, fs')"
  shows "kv_get fs' (D @ p) = treeAt (LDir items) p"
    and "\<not> inside D k \<Longrightarrow> kv_get fs' k = (if inside T k then None else kv_get fs k)"
proof -
  have neither: "\<not> inside T D" "\<not> inside D T"
  proof -
    have "length T = length D" using sibling by (metis One_nat_def Suc_pred length_butlast length_greater_0_conv)
    then show "\<not> inside T D" "\<not> inside D T" using sibling(2) by (auto simp: inside_def)
  qed
  let ?fs0 = "removeTree T fs"
  have dirs0: "dirsTo (butlast T) ?fs0"
    unfolding dirsTo_def
  proof
    fix j assume j: "j \<in> {1..length (butlast T)}"
    then have "length (take j (butlast T)) < length T" using sibling(3) by (cases T rule: rev_cases) auto
    moreover have "inside T q \<Longrightarrow> length T \<le> length q" for q by (metis inside_def length_take min.cobounded1)
    ultimately have "\<not> inside T (take j (butlast T))" by (metis not_less)
    then show "kv_get ?fs0 (take j (butlast T)) = Some FDir"
      using dirs j by (simp add: kv_get_removeTree dirsTo_def)
  qed
  let ?fs1 = "kv_put T FDir ?fs0"
  have "kv_get ?fs0 T = None" by (simp add: kv_get_removeTree inside_def)
  then have mk: "mkdirAll (dd_io env) (tt_TempPath task) ?fs0 = (None, ?fs1)"
    unfolding env(2) using mkdirAll_new [OF dirs0 sibling(3) meta_eq_to_obj_eq [OF T_def, symmetric]] by blast
  have fresh: "kv_get ?fs1 q = None" if "below T q" for q
    using that by (auto simp: kv_simps kv_get_removeTree below_inside)
  obtain es fs2 where es: "writeArchive (LDir items) = (es, None)"
    "extractArchive (\<lambda>_. None) (tt_TempPath task) (map (rename ''./'') es) ?fs1 = (None, fs2)"
    "\<And>q. kv_get fs2 q = (if below T q then treeAt (LDir items) (drop (length T) q) else kv_get ?fs1 q)"
    using archive_roundtrip_lemma [OF abs, of ?fs1 items "''./''"] dirsTo_put [OF dirs0 sibling(3)] fresh ok
    unfolding T_def by blast
  have ex: "extractArchive (dd_io env) (tt_TempPath task) (dd_stream env) ?fs1 = (None, fs2)"
    using es(1,2) by (simp add: env remoteTar_def remoteTar_root [OF abs] del: extractArchive.simps)
  have place: "placeDirectory env task fs2 = (None, fs')"
    using run mk ex unfolding downloadDirectory_def T_def [symmetric]
    by (auto split: sum.splits if_splits option.splits)
  then have "fs' = renameTree T D fs2 \<or> fs' = renameTree T D (removeTree D fs2)"
    by (auto simp: placeDirectory_def Let_def D_def T_def split: if_splits option.splits)
  moreover have "kv_get (renameTree T D (removeTree D fs2)) q = kv_get (renameTree T D fs2) q" for q
    using inside_apart [OF neither, of "T @ drop (length D) q"] by (simp add: kv_get_renameTree [OF neither] kv_get_removeTree)
  ultimately have get: "kv_get fs' q =
      (if inside D q then kv_get fs2 (T @ drop (length D) q) else if inside T q then None else kv_get fs2 q)" for q
    using kv_get_renameTree [OF neither, of fs2 q] by auto
  show "kv_get fs' (D @ p) = treeAt (LDir items) p"
    by (cases p) (simp_all add: get es(3) kv_simps below_def)
  show "\<not> inside D k \<Longrightarrow> kv_get fs' k = (if inside T k then None else kv_get fs k)"
    by (auto simp: get es(3) below_inside kv_simps kv_get_removeTree)
qed


definition ex_dirTask :: TransferTask where
  "ex_dirTask = ex_transfer\<lparr>tt_DestinationPath := ''/d/out'', tt_TempPath := ''/d/out.part'', tt_Directory := True, tt_Overwrite := True\<rparr>"

definition ex_dirDownload :: dirDownloadEnv where
  "ex_dirDownload = \<lparr>dd_stat = Inr \<lparr>fe_Name = ''s'', fe_Path = ''/s'', fe_Dir = True, fe_Size = 0, fe_ModTime = 7\<rparr>, dd_clear = None,
     dd_io = (\<lambda>_. None), dd_stream = remoteTar ex_tree, dd_exec = None, dd_lstat = None, dd_remove = None, dd_rename = None\<rparr>"

definition ex_dirFiles :: fsMap where
  "ex_dirFiles = [([''d''], FDir), ([''d'', ''out''], FDir), ([''d'', ''out'', ''old''], FFile ''old''), ([''d'', ''key''], FFile ''key'')]"


end
