(* ===== verification/TransferTasks.thy ===== *)
theory TransferTasks
  imports FileTransfer
begin

text \<open>
  The tasks of the file manager, \<^verbatim>\<open>internal/filemanager/tasks.go\<close> and \<^verbatim>\<open>state.go\<close>. Every call of \<^verbatim>\<open>launch\<close>
  starts a goroutine, here a worker: it waits for one of two slots, marks its task as running, runs it and
  records the result. Workers, the operations of the user and the progress reports interleave at the points
  where the code takes and releases its lock. The parameter \<^verbatim>\<open>saved\<close> says whether the state file could be
  written, which the code does not look at. Notifying the subscribers is left out.
\<close>

section \<open>State\<close>

datatype phase = Waiting | Holding | Active

record worker =
  wk_no :: nat
  wk_id :: string
  wk_phase :: phase
  wk_cancelled :: bool

text \<open>\<^term>\<open>fm_launching\<close> are the calls of \<^verbatim>\<open>launch\<close> that \<^verbatim>\<open>Start\<close> and \<^verbatim>\<open>Resume\<close> are about to make.\<close>

record fileManager =
  fm_tasks :: "(string, TransferTask) kv"
  fm_cancels :: "(string, nat) kv"
  fm_workers :: "worker list"
  fm_launching :: "string list"
  fm_next :: nat
  fm_disk :: "TransferTask list"

definition maxSavedTasks :: nat where
  "maxSavedTasks = 500"

definition saveTasks :: "bool \<Rightarrow> fileManager \<Rightarrow> fileManager" where
  "saveTasks saved m =
     (let sorted0 = sort_key tt_CreatedAt (map snd (fm_tasks m)) in
      if saved then m\<lparr>fm_disk := drop (length sorted0 - maxSavedTasks) sorted0\<rparr> else m)"

text \<open>\<^verbatim>\<open>load\<close>, when the file could be read and decoded.\<close>

definition loadTask :: "(string, TransferTask) kv \<Rightarrow> TransferTask \<Rightarrow> (string, TransferTask) kv" where
  "loadTask tasks task =
     kv_put (tt_ID task)
       (if tt_Status task = StatusRunning \<or> tt_Status task = StatusQueued then task\<lparr>tt_Status := StatusPaused\<rparr> else task) tasks"

definition loadTasks :: "TransferTask list \<Rightarrow> (string, TransferTask) kv" where
  "loadTasks saved = foldl loadTask [] saved"

definition NewFileManager :: "TransferTask list option \<Rightarrow> fileManager" where
  "NewFileManager file =
     \<lparr>fm_tasks = (case file of None \<Rightarrow> [] | Some saved \<Rightarrow> loadTasks saved), fm_cancels = [], fm_workers = [],
      fm_launching = [], fm_next = 0, fm_disk = (case file of None \<Rightarrow> [] | Some saved \<Rightarrow> saved)\<rparr>"

definition setStatus :: "bool \<Rightarrow> string \<Rightarrow> TaskStatus \<Rightarrow> string \<Rightarrow> fileManager \<Rightarrow> fileManager" where
  "setStatus saved tid status message m =
     (case kv_get (fm_tasks m) tid of
        None \<Rightarrow> m
      | Some task \<Rightarrow> saveTasks saved (m\<lparr>fm_tasks := kv_put tid (task\<lparr>tt_Status := status, tt_Error := message\<rparr>) (fm_tasks m)\<rparr>))"

definition updateProgress :: "bool \<Rightarrow> string \<Rightarrow> nat \<Rightarrow> fileManager \<Rightarrow> fileManager" where
  "updateProgress saved tid done0 m =
     (case kv_get (fm_tasks m) tid of
        None \<Rightarrow> m
      | Some task \<Rightarrow> saveTasks saved (m\<lparr>fm_tasks := kv_put tid (task\<lparr>tt_DoneBytes := done0\<rparr>) (fm_tasks m)\<rparr>))"

definition cancelWorker :: "nat \<Rightarrow> fileManager \<Rightarrow> fileManager" where
  "cancelWorker n m = m\<lparr>fm_workers := map (\<lambda>w. if wk_no w = n then w\<lparr>wk_cancelled := True\<rparr> else w) (fm_workers m)\<rparr>"

definition cancelCurrent :: "string \<Rightarrow> fileManager \<Rightarrow> fileManager" where
  "cancelCurrent tid m = (case kv_get (fm_cancels m) tid of None \<Rightarrow> m | Some n \<Rightarrow> cancelWorker n m)"

section \<open>Operations\<close>

definition notFound :: "string \<Rightarrow> goerr" where
  "notFound tid = Errorf (''transfer '' @ quote tid @ '' not found'')"

text \<open>The locked part of \<^verbatim>\<open>Start\<close>: the new task is queued, and launched next.\<close>

definition addTask :: "bool \<Rightarrow> TransferTask \<Rightarrow> fileManager \<Rightarrow> fileManager" where
  "addTask saved task m =
     saveTasks saved (m\<lparr>fm_tasks := kv_put (tt_ID task) (task\<lparr>tt_Status := StatusQueued\<rparr>) (fm_tasks m),
       fm_launching := tt_ID task # fm_launching m\<rparr>)"

definition stopTask :: "bool \<Rightarrow> string \<Rightarrow> TaskStatus \<Rightarrow> fileManager \<Rightarrow> goerr option \<times> fileManager" where
  "stopTask saved tid status m =
     (case kv_get (fm_tasks m) tid of
        None \<Rightarrow> (Some (notFound tid), m)
      | Some task \<Rightarrow>
          if tt_Status task = StatusCompleted \<or> tt_Status task = StatusCancelled then (None, m)
          else (None, saveTasks saved ((cancelCurrent tid m)\<lparr>fm_tasks := kv_put tid (task\<lparr>tt_Status := status\<rparr>) (fm_tasks m)\<rparr>)))"

definition PauseTransfer :: "bool \<Rightarrow> string \<Rightarrow> fileManager \<Rightarrow> goerr option \<times> fileManager" where
  "PauseTransfer saved tid m = stopTask saved tid StatusPaused m"

definition CancelTransfer :: "bool \<Rightarrow> string \<Rightarrow> fileManager \<Rightarrow> goerr option \<times> fileManager" where
  "CancelTransfer saved tid m = stopTask saved tid StatusCancelled m"

fun statusText :: "TaskStatus \<Rightarrow> string" where
  "statusText StatusQueued = ''queued''"
| "statusText StatusRunning = ''running''"
| "statusText StatusPaused = ''paused''"
| "statusText StatusCompleted = ''completed''"
| "statusText StatusFailed = ''failed''"
| "statusText StatusCancelled = ''cancelled''"
| "statusText StatusStale = ''stale''"

definition ResumeTransfer :: "bool \<Rightarrow> string \<Rightarrow> fileManager \<Rightarrow> goerr option \<times> fileManager" where
  "ResumeTransfer saved tid m =
     (case kv_get (fm_tasks m) tid of
        None \<Rightarrow> (Some (notFound tid), m)
      | Some task \<Rightarrow>
          if tt_Status task \<notin> {StatusPaused, StatusFailed, StatusStale}
          then (Some (Errorf (''transfer '' @ quote tid @ '' cannot resume from '' @ statusText (tt_Status task))), m)
          else (None, saveTasks saved (m\<lparr>fm_tasks := kv_put tid (task\<lparr>tt_Status := StatusQueued, tt_Error := []\<rparr>) (fm_tasks m),
                  fm_launching := tid # fm_launching m\<rparr>)))"

definition ClearHistory :: "bool \<Rightarrow> fileManager \<Rightarrow> fileManager" where
  "ClearHistory saved m =
     saveTasks saved (m\<lparr>fm_tasks := filter (\<lambda>(tid, task). tt_Status task \<notin> {StatusCompleted, StatusCancelled, StatusFailed, StatusStale}) (fm_tasks m)\<rparr>)"

definition ShutdownTransfers :: "bool \<Rightarrow> fileManager \<Rightarrow> fileManager" where
  "ShutdownTransfers saved m =
     saveTasks saved
       (m\<lparr>fm_workers := map (\<lambda>w. if list_ex (\<lambda>(tid, n). wk_no w = n) (fm_cancels m) then w\<lparr>wk_cancelled := True\<rparr> else w) (fm_workers m),
          fm_tasks := map (\<lambda>(tid, task). (tid,
            if kv_get (fm_cancels m) tid \<noteq> None \<and> tt_Status task = StatusRunning then task\<lparr>tt_Status := StatusPaused\<rparr> else task)) (fm_tasks m)\<rparr>)"

definition ListTransfers :: "fileManager \<Rightarrow> TransferTask list" where
  "ListTransfers m = rev (sort_key tt_CreatedAt (map snd (fm_tasks m)))"

section \<open>Workers\<close>

text \<open>\<^verbatim>\<open>launch\<close> up to the start of the goroutine.\<close>

definition launch :: "string \<Rightarrow> fileManager \<Rightarrow> fileManager" where
  "launch tid m =
     (let m1 = cancelCurrent tid m in
      m1\<lparr>fm_cancels := kv_put tid (fm_next m) (fm_cancels m1), fm_next := fm_next m + 1, fm_launching := remove1 tid (fm_launching m),
         fm_workers := fm_workers m1 @ [\<lparr>wk_no = fm_next m, wk_id = tid, wk_phase = Waiting, wk_cancelled = False\<rparr>]\<rparr>)"

definition slotCount :: nat where
  "slotCount = 2"

definition heldSlots :: "fileManager \<Rightarrow> nat" where
  "heldSlots m = length (filter (\<lambda>w. wk_phase w \<noteq> Waiting) (fm_workers m))"

definition setPhase :: "nat \<Rightarrow> phase \<Rightarrow> fileManager \<Rightarrow> fileManager" where
  "setPhase n ph m = m\<lparr>fm_workers := map (\<lambda>w. if wk_no w = n then w\<lparr>wk_phase := ph\<rparr> else w) (fm_workers m)\<rparr>"

definition leave :: "nat \<Rightarrow> fileManager \<Rightarrow> fileManager" where
  "leave n m = m\<lparr>fm_workers := filter (\<lambda>w. wk_no w \<noteq> n) (fm_workers m)\<rparr>"

text \<open>
  What \<^verbatim>\<open>run\<close> returns: an error of the identity check, which hides the error it was made from, or one of the
  transfer itself.
\<close>

datatype runErr = Changed goerr | Plain goerr

fun run_text :: "runErr \<Rightarrow> string" where
  "run_text (Changed e) = err_text errSourceChanged @ '': '' @ err_text e"
| "run_text (Plain e) = err_text e"

fun run_is :: "runErr \<Rightarrow> goerr \<Rightarrow> bool" where
  "run_is (Changed e) t \<longleftrightarrow> t = errSourceChanged"
| "run_is (Plain e) t \<longleftrightarrow> errors_is e t"

definition runTask :: "goerr option \<Rightarrow> goerr option \<Rightarrow> string \<Rightarrow> fileManager \<Rightarrow> runErr option" where
  "runTask identity transfer tid m =
     (if kv_get (fm_tasks m) tid = None then Some (Plain (notFound tid))
      else case identity of
        Some e \<Rightarrow> Some (Changed e)
      | None \<Rightarrow> map_option Plain transfer)"

text \<open>What the goroutine records at its end.\<close>

definition finishTask :: "bool \<Rightarrow> int \<Rightarrow> string \<Rightarrow> runErr option \<Rightarrow> fileManager \<Rightarrow> fileManager" where
  "finishTask saved now tid result m =
     (case result of
        None \<Rightarrow>
          (case kv_get (fm_tasks m) tid of
             None \<Rightarrow> m
           | Some task \<Rightarrow>
               saveTasks saved (m\<lparr>fm_tasks := kv_put tid (task\<lparr>tt_Status := StatusCompleted,
                   tt_DoneBytes := (if tt_TotalBytes task > 0 then tt_TotalBytes task else tt_DoneBytes task),
                   tt_CompletedAt := Some now\<rparr>) (fm_tasks m), fm_cancels := kv_del tid (fm_cancels m)\<rparr>))
      | Some err \<Rightarrow>
          if run_is err Canceled then m
          else setStatus saved tid (if run_is err errSourceChanged then StatusStale else StatusFailed) (run_text err) m)"

section \<open>Steps\<close>

text \<open>A worker whose context is done may or may not notice it; only then does a run report it.\<close>

inductive fmStep :: "fileManager \<Rightarrow> fileManager \<Rightarrow> bool" where
  start: "kv_get (fm_tasks m) (tt_ID task) = None \<Longrightarrow> fmStep m (addTask saved task m)"
| pause: "fmStep m (snd (PauseTransfer saved tid m))"
| cancel: "fmStep m (snd (CancelTransfer saved tid m))"
| resume: "fmStep m (snd (ResumeTransfer saved tid m))"
| clear: "fmStep m (ClearHistory saved m)"
| launch: "tid \<in> set (fm_launching m) \<Longrightarrow> fmStep m (launch tid m)"
| acquire: "w \<in> set (fm_workers m) \<Longrightarrow> wk_phase w = Waiting \<Longrightarrow> heldSlots m < slotCount \<Longrightarrow> fmStep m (setPhase (wk_no w) Holding m)"
| giveup: "w \<in> set (fm_workers m) \<Longrightarrow> wk_phase w = Waiting \<Longrightarrow> wk_cancelled w \<Longrightarrow> fmStep m (leave (wk_no w) m)"
| running: "w \<in> set (fm_workers m) \<Longrightarrow> wk_phase w = Holding \<Longrightarrow>
    fmStep m (setStatus saved (wk_id w) StatusRunning [] (setPhase (wk_no w) Active m))"
| progress: "w \<in> set (fm_workers m) \<Longrightarrow> wk_phase w = Active \<Longrightarrow> fmStep m (updateProgress saved (wk_id w) n m)"
| finish: "w \<in> set (fm_workers m) \<Longrightarrow> wk_phase w = Active \<Longrightarrow>
    \<not> wk_cancelled w \<Longrightarrow> (case transfer of None \<Rightarrow> True | Some e \<Rightarrow> \<not> errors_is e Canceled) \<Longrightarrow>
    fmStep m (leave (wk_no w) (finishTask saved now (wk_id w) (runTask identity transfer (wk_id w) m) m))"
| stopped: "w \<in> set (fm_workers m) \<Longrightarrow> wk_phase w = Active \<Longrightarrow> wk_cancelled w \<Longrightarrow>
    fmStep m (leave (wk_no w) (finishTask saved now (wk_id w) (runTask identity transfer (wk_id w) m) m))"

inductive fmReach :: "fileManager \<Rightarrow> bool" where
  fresh: "fmReach (NewFileManager file)"
| step: "fmReach m \<Longrightarrow> fmStep m m' \<Longrightarrow> fmReach m'"

section \<open>Invariants\<close>

lemma saveTasks_simps [simp]:
  "fm_tasks (saveTasks s m) = fm_tasks m" "fm_cancels (saveTasks s m) = fm_cancels m"
  "fm_workers (saveTasks s m) = fm_workers m" "fm_launching (saveTasks s m) = fm_launching m"
  "fm_next (saveTasks s m) = fm_next m"
  by (simp_all add: saveTasks_def Let_def)

lemma cancel_simps [simp]:
  "fm_tasks (cancelWorker n m) = fm_tasks m" "fm_cancels (cancelWorker n m) = fm_cancels m"
  "fm_launching (cancelWorker n m) = fm_launching m" "fm_next (cancelWorker n m) = fm_next m"
  "fm_tasks (cancelCurrent tid m) = fm_tasks m" "fm_cancels (cancelCurrent tid m) = fm_cancels m"
  "fm_launching (cancelCurrent tid m) = fm_launching m" "fm_next (cancelCurrent tid m) = fm_next m"
  by (simp_all add: cancelWorker_def cancelCurrent_def split: option.split)

lemma setPhase_simps [simp]:
  "fm_tasks (setPhase n ph m) = fm_tasks m" "fm_cancels (setPhase n ph m) = fm_cancels m"
  "fm_launching (setPhase n ph m) = fm_launching m" "fm_next (setPhase n ph m) = fm_next m"
  by (simp_all add: setPhase_def)

lemma leave_simps [simp]:
  "fm_tasks (leave n m) = fm_tasks m" "fm_cancels (leave n m) = fm_cancels m"
  "fm_launching (leave n m) = fm_launching m" "fm_next (leave n m) = fm_next m"
  by (simp_all add: leave_def)

lemma status_simps [simp]:
  "fm_cancels (setStatus s tid st msg m) = fm_cancels m" "fm_workers (setStatus s tid st msg m) = fm_workers m"
  "fm_launching (setStatus s tid st msg m) = fm_launching m" "fm_next (setStatus s tid st msg m) = fm_next m"
  by (simp_all add: setStatus_def split: option.split)

lemma finish_simps [simp]:
  "fm_workers (finishTask s now tid r m) = fm_workers m"
  "fm_launching (finishTask s now tid r m) = fm_launching m" "fm_next (finishTask s now tid r m) = fm_next m"
  by (simp_all add: finishTask_def split: option.split)

text \<open>The workers: their numbers, the slots they hold, and the cancel functions the manager keeps.\<close>

definition workers_ok :: "fileManager \<Rightarrow> bool" where
  "workers_ok m \<longleftrightarrow> distinct (map wk_no (fm_workers m)) \<and> (\<forall>w \<in> set (fm_workers m). wk_no w < fm_next m) \<and>
     heldSlots m \<le> slotCount \<and>
     (\<forall>tid n. kv_get (fm_cancels m) tid = Some n \<longrightarrow> n < fm_next m \<and> (\<forall>w \<in> set (fm_workers m). wk_no w = n \<longrightarrow> wk_id w = tid))"

text \<open>The queue: who is queued will run.\<close>

definition coming :: "string \<Rightarrow> fileManager \<Rightarrow> bool" where
  "coming tid m \<longleftrightarrow> tid \<in> set (fm_launching m) \<or>
     list_ex (\<lambda>w. wk_id w = tid \<and> \<not> wk_cancelled w \<and> wk_phase w \<noteq> Active) (fm_workers m)"

definition queued :: "string \<Rightarrow> fileManager \<Rightarrow> bool" where
  "queued tid m \<longleftrightarrow> (case kv_get (fm_tasks m) tid of None \<Rightarrow> False | Some task \<Rightarrow> tt_Status task = StatusQueued)"

definition queue_ok :: "fileManager \<Rightarrow> bool" where
  "queue_ok m \<longleftrightarrow> kv_ok (fm_tasks m) \<and> (\<forall>tid. queued tid m \<longrightarrow> coming tid m)"

lemma held_map:
  assumes "\<And>w. wk_phase (f w) = wk_phase w"
  shows "length (filter (\<lambda>w. wk_phase w \<noteq> Waiting) (map f ws)) = length (filter (\<lambda>w. wk_phase w \<noteq> Waiting) ws)"
  using assms by (induction ws) simp_all

lemma workers_ok_same:
  assumes "workers_ok m" "fm_workers m' = fm_workers m" "fm_next m' = fm_next m"
    and "\<And>tid n. kv_get (fm_cancels m') tid = Some n \<Longrightarrow> kv_get (fm_cancels m) tid = Some n"
  shows "workers_ok m'"
  using assms unfolding workers_ok_def heldSlots_def by (simp, blast)

lemma workers_ok_map:
  assumes "workers_ok m" "fm_workers m' = map f (fm_workers m)" "\<And>w. wk_no (f w) = wk_no w \<and> wk_id (f w) = wk_id w"
    and "fm_cancels m' = fm_cancels m" "fm_next m' = fm_next m" "heldSlots m' \<le> slotCount"
  shows "workers_ok m'"
proof -
  have "wk_no \<circ> f = wk_no" using assms(3) by (intro ext) simp
  then show ?thesis using assms by (simp add: workers_ok_def)
qed

lemma workers_ok_cancelCurrent:
  assumes "workers_ok m"
  shows "workers_ok (cancelCurrent tid m)"
proof (cases "kv_get (fm_cancels m) tid")
  case (Some n)
  let ?f = "\<lambda>w. if wk_no w = n then w\<lparr>wk_cancelled := True\<rparr> else w"
  have ws: "fm_workers (cancelCurrent tid m) = map ?f (fm_workers m)" using Some by (simp add: cancelCurrent_def cancelWorker_def)
  have "length (filter (\<lambda>w. wk_phase w \<noteq> Waiting) (map ?f (fm_workers m))) = length (filter (\<lambda>w. wk_phase w \<noteq> Waiting) (fm_workers m))"
    by (rule held_map) simp
  then have "heldSlots (cancelCurrent tid m) = heldSlots m" by (simp only: heldSlots_def ws)
  then show ?thesis using assms by (intro workers_ok_map [OF assms ws]) (simp_all add: workers_ok_def)
qed (use assms in \<open>simp add: cancelCurrent_def\<close>)

lemma workers_ok_launch: "workers_ok m \<Longrightarrow> workers_ok (launch tid m)"
proof -
  assume "workers_ok m"
  then have a: "workers_ok (cancelCurrent tid m)" by (rule workers_ok_cancelCurrent)
  have "\<forall>w \<in> set (fm_workers (cancelCurrent tid m)). wk_no w < fm_next m" using a by (simp add: workers_ok_def)
  then show ?thesis using a
    by (auto simp: workers_ok_def launch_def Let_def heldSlots_def kv_simps less_SucI)
qed

lemma workers_ok_leave: "workers_ok m \<Longrightarrow> workers_ok (leave n m)"
proof -
  have "length (filter (\<lambda>w. Q w \<and> P w) ws) \<le> length (filter P ws)" for P Q and ws :: "worker list"
    by (induction ws) auto
  from order_trans [OF this] show "workers_ok m \<Longrightarrow> workers_ok (leave n m)"
    by (auto simp: workers_ok_def leave_def heldSlots_def distinct_map inj_on_def)
qed

lemma held_setPhase:
  assumes "distinct (map wk_no ws)" "w \<in> set ws"
  shows "length (filter (\<lambda>w. wk_phase w \<noteq> Waiting) (map (\<lambda>v. if wk_no v = wk_no w then v\<lparr>wk_phase := ph\<rparr> else v) ws)) =
    length (filter (\<lambda>w. wk_phase w \<noteq> Waiting) ws) + (if ph = Waiting then 0 else 1) - (if wk_phase w = Waiting then 0 else 1)"
  using assms
proof (induction ws)
  case (Cons v ws)
  show ?case
  proof (cases "wk_no v = wk_no w")
    case True
    then have "v = w" using Cons.prems by auto
    moreover have "map (\<lambda>v. if wk_no v = wk_no w then v\<lparr>wk_phase := ph\<rparr> else v) ws = ws"
      using Cons.prems True by (intro map_idI) (metis distinct.simps(2) list.simps(9) image_eqI list.set_map)
    ultimately show ?thesis by simp
  next
    case False
    then have "w \<in> set ws" using Cons.prems by auto
    moreover have "wk_phase w \<noteq> Waiting \<Longrightarrow> 0 < length (filter (\<lambda>w. wk_phase w \<noteq> Waiting) ws)"
      using \<open>w \<in> set ws\<close> by (auto simp: filter_empty_conv)
    ultimately show ?thesis using Cons False by auto
  qed
qed simp

lemma workers_ok_setPhase:
  assumes "workers_ok m" "w \<in> set (fm_workers m)" "wk_phase w \<noteq> Waiting \<or> ph = Waiting \<or> heldSlots m < slotCount"
  shows "workers_ok (setPhase (wk_no w) ph m)"
proof -
  let ?f = "\<lambda>v. if wk_no v = wk_no w then v\<lparr>wk_phase := ph\<rparr> else v"
  have d: "distinct (map wk_no (fm_workers m))" using assms(1) by (simp add: workers_ok_def)
  have pos: "wk_phase w \<noteq> Waiting \<Longrightarrow> 0 < heldSlots m" using assms(2) by (auto simp: heldSlots_def filter_empty_conv)
  have "heldSlots (setPhase (wk_no w) ph m) \<le> slotCount"
    using held_setPhase [OF d assms(2), of ph] assms(1,3) pos unfolding workers_ok_def heldSlots_def setPhase_def
    by (auto split: if_splits)
  moreover have "fm_workers (setPhase (wk_no w) ph m) = map ?f (fm_workers m)" by (simp add: setPhase_def)
  ultimately show ?thesis by (intro workers_ok_map [OF assms(1), of _ ?f]) simp_all
qed

section \<open>Nobody in the queue is forgotten\<close>

lemma coming_iff:
  "coming tid m \<longleftrightarrow> tid \<in> set (fm_launching m) \<or>
     (\<exists>w \<in> set (fm_workers m). wk_id w = tid \<and> \<not> wk_cancelled w \<and> wk_phase w \<noteq> Active)"
  by (auto simp: coming_def list_ex_iff)

lemma same_worker:
  "workers_ok m \<Longrightarrow> v \<in> set (fm_workers m) \<Longrightarrow> w \<in> set (fm_workers m) \<Longrightarrow> wk_no v = wk_no w \<Longrightarrow> v = w"
  by (auto simp: workers_ok_def distinct_map inj_on_def)

lemma coming_cancelCurrent:
  assumes "workers_ok m" "coming tid m" "tid \<noteq> tid'"
  shows "coming tid (cancelCurrent tid' m)"
proof (cases "kv_get (fm_cancels m) tid'")
  case (Some n)
  then have other: "\<forall>w \<in> set (fm_workers m). wk_no w = n \<longrightarrow> wk_id w = tid'" using assms(1) by (simp add: workers_ok_def)
  from assms(2) show ?thesis
    unfolding coming_iff
  proof (elim disjE bexE conjE)
    fix w assume w: "w \<in> set (fm_workers m)" "wk_id w = tid" "\<not> wk_cancelled w" "wk_phase w \<noteq> Active"
    then have "wk_no w \<noteq> n" using other assms(3) by auto
    then have "w \<in> set (fm_workers (cancelCurrent tid' m))" using w(1) Some by (force simp: cancelCurrent_def cancelWorker_def)
    with w show "tid \<in> set (fm_launching (cancelCurrent tid' m)) \<or>
      (\<exists>w \<in> set (fm_workers (cancelCurrent tid' m)). wk_id w = tid \<and> \<not> wk_cancelled w \<and> wk_phase w \<noteq> Active)" by blast
  qed simp
qed (use assms in \<open>simp add: cancelCurrent_def\<close>)

lemma coming_launch:
  assumes "workers_ok m" "coming tid m \<or> tid = tid'"
  shows "coming tid (launch tid' m)"
proof (cases "tid = tid'")
  case True
  then show ?thesis by (simp add: coming_def launch_def Let_def)
next
  case False
  then have "coming tid (cancelCurrent tid' m)" using assms by (intro coming_cancelCurrent) simp_all
  then show ?thesis using False by (auto simp: coming_iff launch_def Let_def in_set_remove1)
qed

lemma coming_leave:
  assumes "workers_ok m" "coming tid m" "w \<in> set (fm_workers m)" "wk_cancelled w \<or> wk_phase w = Active"
  shows "coming tid (leave (wk_no w) m)"
proof -
  have "v \<in> set (fm_workers (leave (wk_no w) m))"
    if "v \<in> set (fm_workers m)" "\<not> wk_cancelled v" "wk_phase v \<noteq> Active" for v
    using that same_worker [OF assms(1) that(1) assms(3)] assms(4) by (auto simp: leave_def)
  then show ?thesis using assms(2) by (auto simp: coming_iff)
qed

lemma coming_setPhase:
  assumes "workers_ok m" "coming tid m" "w \<in> set (fm_workers m)" "ph \<noteq> Active \<or> wk_id w \<noteq> tid"
  shows "coming tid (setPhase (wk_no w) ph m)"
proof -
  have "\<exists>v' \<in> set (fm_workers (setPhase (wk_no w) ph m)). wk_id v' = tid \<and> \<not> wk_cancelled v' \<and> wk_phase v' \<noteq> Active"
    if v: "v \<in> set (fm_workers m)" "wk_id v = tid" "\<not> wk_cancelled v" "wk_phase v \<noteq> Active" for v
  proof (cases "wk_no v = wk_no w")
    case True
    then have "v = w" using same_worker [OF assms(1) v(1) assms(3)] by simp
    then have "v\<lparr>wk_phase := ph\<rparr> \<in> set (fm_workers (setPhase (wk_no w) ph m))" "ph \<noteq> Active"
      using v assms(4) by (force simp: setPhase_def)+
    then show ?thesis using v by (intro bexI [of _ "v\<lparr>wk_phase := ph\<rparr>"]) simp_all
  next
    case False
    then have "v \<in> set (fm_workers (setPhase (wk_no w) ph m))" using v(1) by (force simp: setPhase_def)
    then show ?thesis using v by blast
  qed
  then show ?thesis using assms(2) by (auto simp: coming_iff)
qed

lemma queue_okI:
  assumes "kv_ok (fm_tasks m')" "\<And>tid. queued tid m' \<Longrightarrow> coming tid m'"
  shows "queue_ok m'"
  using assms by (simp add: queue_ok_def)

lemma queued_saveTasks [simp]: "queued tid (saveTasks s m) = queued tid m" "coming tid (saveTasks s m) = coming tid m"
  by (simp_all add: queued_def coming_def)

lemma queued_put:
  "fm_tasks m' = kv_put t task (fm_tasks m) \<Longrightarrow> queued tid m' \<longleftrightarrow> (if tid = t then tt_Status task = StatusQueued else queued tid m)"
  by (simp add: queued_def kv_simps)

lemma queued_filter:
  "kv_ok (fm_tasks m) \<Longrightarrow> fm_tasks m' = filter P (fm_tasks m) \<Longrightarrow> queued tid m' \<Longrightarrow> queued tid m"
  by (cases "kv_get (filter P (fm_tasks m)) tid") (auto simp: queued_def kv_get_filter)

lemma queued_same: "fm_tasks m' = fm_tasks m \<Longrightarrow> queued tid m' = queued tid m"
  by (simp add: queued_def)

lemma setStatus_queued:
  "st \<noteq> StatusQueued \<Longrightarrow> queued tid (setStatus s t st msg m) \<Longrightarrow> queued tid m \<and> tid \<noteq> t"
  by (cases "kv_get (fm_tasks m) t") (auto simp: setStatus_def queued_def kv_simps split: if_splits option.splits)

lemma setStatus_kv_ok: "kv_ok (fm_tasks m) \<Longrightarrow> kv_ok (fm_tasks (setStatus s t st msg m))"
  by (simp add: setStatus_def split: option.split)

lemma finishTask_cases:
  "finishTask s now t r m = m \<or>
   (\<exists>st msg. st \<noteq> StatusQueued \<and> finishTask s now t r m = setStatus s t st msg m) \<or>
   (\<exists>task. tt_Status task \<noteq> StatusQueued \<and> finishTask s now t r m =
     saveTasks s (m\<lparr>fm_tasks := kv_put t task (fm_tasks m), fm_cancels := kv_del t (fm_cancels m)\<rparr>))"
proof (cases r)
  case None
  show ?thesis
  proof (cases "kv_get (fm_tasks m) t")
    case (Some task)
    let ?task = "task\<lparr>tt_Status := StatusCompleted, tt_DoneBytes := (if tt_TotalBytes task > 0 then tt_TotalBytes task else tt_DoneBytes task),
      tt_CompletedAt := Some now\<rparr>"
    have "finishTask s now t r m = saveTasks s (m\<lparr>fm_tasks := kv_put t ?task (fm_tasks m), fm_cancels := kv_del t (fm_cancels m)\<rparr>)"
      unfolding finishTask_def None Some option.case by (rule refl)
    moreover have "tt_Status ?task \<noteq> StatusQueued" by simp
    ultimately show ?thesis by blast
  qed (use None in \<open>simp add: finishTask_def\<close>)
next
  case (Some err)
  have ne: "(if run_is err errSourceChanged then StatusStale else StatusFailed) \<noteq> StatusQueued" by simp
  show ?thesis
  proof (cases "run_is err Canceled")
    case False
    then have "finishTask s now t r m = setStatus s t (if run_is err errSourceChanged then StatusStale else StatusFailed) (run_text err) m"
      using Some by (simp only: finishTask_def option.case if_False)
    with ne show ?thesis by blast
  qed (use Some in \<open>simp add: finishTask_def\<close>)
qed

lemma finishTask_queued: "queued tid (finishTask s now t r m) \<Longrightarrow> queued tid m"
  using finishTask_cases [of s now t r m]
proof (elim disjE exE conjE)
  fix task assume "queued tid (finishTask s now t r m)" "tt_Status task \<noteq> StatusQueued"
    "finishTask s now t r m = saveTasks s (m\<lparr>fm_tasks := kv_put t task (fm_tasks m), fm_cancels := kv_del t (fm_cancels m)\<rparr>)"
  then show "queued tid m" by (auto simp: queued_def kv_simps split: if_splits)
qed (use setStatus_queued in auto)

lemma finishTask_kv_ok: "kv_ok (fm_tasks m) \<Longrightarrow> kv_ok (fm_tasks (finishTask s now t r m))"
  using finishTask_cases [of s now t r m] by (elim disjE exE conjE) (simp_all add: setStatus_kv_ok)

lemma finishTask_cancels:
  "kv_get (fm_cancels (finishTask s now t r m)) tid = Some n \<Longrightarrow> kv_get (fm_cancels m) tid = Some n"
  using finishTask_cases [of s now t r m] by (elim disjE exE conjE) (simp_all add: kv_simps split: if_splits)

lemma updateProgress_simps [simp]:
  "fm_cancels (updateProgress s t n m) = fm_cancels m" "fm_workers (updateProgress s t n m) = fm_workers m"
  "fm_launching (updateProgress s t n m) = fm_launching m" "fm_next (updateProgress s t n m) = fm_next m"
  by (simp_all add: updateProgress_def split: option.split)

lemma updateProgress_queued: "queued tid (updateProgress s t n m) = queued tid m"
  by (auto simp: updateProgress_def queued_def kv_simps split: option.splits)

lemma coming_same: "fm_launching m' = fm_launching m \<Longrightarrow> fm_workers m' = fm_workers m \<Longrightarrow> coming tid m' = coming tid m"
  by (simp add: coming_def)

lemma stopTask_ok:
  assumes "workers_ok m" "queue_ok m" "st \<noteq> StatusQueued"
  shows "workers_ok (snd (stopTask s t st m)) \<and> queue_ok (snd (stopTask s t st m))"
proof -
  let ?m = "\<lambda>task. saveTasks s ((cancelCurrent t m)\<lparr>fm_tasks := kv_put t (task\<lparr>tt_Status := st\<rparr>) (fm_tasks m)\<rparr>)"
  have "workers_ok (?m task) \<and> queue_ok (?m task)" for task
  proof
    show "workers_ok (?m task)"
      by (rule workers_ok_same [OF workers_ok_cancelCurrent [OF assms(1), of t]]) simp_all
    show "queue_ok (?m task)"
    proof (rule queue_okI)
      show "kv_ok (fm_tasks (?m task))" using assms(2) by (simp add: queue_ok_def)
    next
      fix tid assume "queued tid (?m task)"
      then have "queued tid m" "tid \<noteq> t" using assms(3) by (auto simp: queued_def kv_simps split: if_splits)
      then have "coming tid m" "tid \<noteq> t" using assms(2) by (simp_all add: queue_ok_def)
      then have "coming tid (cancelCurrent t m)" by (rule coming_cancelCurrent [OF assms(1)])
      then show "coming tid (?m task)" by (simp add: coming_def)
    qed
  qed
  then show ?thesis using assms by (auto simp: stopTask_def split: option.split)
qed

lemma finish_ok:
  assumes "workers_ok m" "queue_ok m" "w \<in> set (fm_workers m)" "wk_phase w = Active"
  shows "workers_ok (leave (wk_no w) (finishTask s now t r m)) \<and> queue_ok (leave (wk_no w) (finishTask s now t r m))"
proof -
  let ?m = "finishTask s now t r m"
  have wo: "workers_ok ?m"
    by (rule workers_ok_same [OF assms(1) finish_simps(1,3)]) (rule finishTask_cancels)
  have "coming tid (leave (wk_no w) ?m)" if "queued tid (leave (wk_no w) ?m)" for tid
  proof -
    have "queued tid ?m" using that queued_same [of "leave (wk_no w) ?m" ?m tid] by simp
    then have "coming tid m" using assms(2) finishTask_queued by (simp add: queue_ok_def)
    then have "coming tid ?m" by (simp add: coming_def)
    from coming_leave [OF wo this] show ?thesis using assms(3,4) by simp
  qed
  moreover have "kv_ok (fm_tasks ?m)" using assms(2) by (simp add: queue_ok_def finishTask_kv_ok)
  ultimately show ?thesis using workers_ok_leave [OF wo] by (simp add: queue_ok_def)
qed

lemma step_ok:
  assumes "fmStep m m'" "workers_ok m" "queue_ok m"
  shows "workers_ok m' \<and> queue_ok m'"
proof -
  have q: "\<And>tid. queued tid m \<Longrightarrow> coming tid m" and kv: "kv_ok (fm_tasks m)" using assms(3) by (simp_all add: queue_ok_def)
  from assms(1) show ?thesis
  proof cases
    case (start task saved)
    have "queue_ok m'"
    proof (rule queue_okI)
      show "kv_ok (fm_tasks m')" using kv by (simp add: start addTask_def)
      show "coming tid m'" if "queued tid m'" for tid
      proof -
        have "tid = tt_ID task \<or> queued tid m" using that by (auto simp: start addTask_def queued_def kv_simps split: if_splits)
        then show ?thesis using q by (auto simp: start addTask_def coming_def)
      qed
    qed
    moreover have "workers_ok m'" by (rule workers_ok_same [OF assms(2)]) (simp_all add: start addTask_def)
    ultimately show ?thesis by blast
  next
    case (pause saved tid)
    then show ?thesis using stopTask_ok [OF assms(2,3)] by (simp add: PauseTransfer_def)
  next
    case (cancel saved tid)
    then show ?thesis using stopTask_ok [OF assms(2,3)] by (simp add: CancelTransfer_def)
  next
    case (resume saved t)
    show ?thesis
    proof (cases "m' = m")
      case False
      then obtain task where m': "m' = saveTasks saved (m\<lparr>fm_tasks := kv_put t (task\<lparr>tt_Status := StatusQueued, tt_Error := []\<rparr>) (fm_tasks m),
          fm_launching := t # fm_launching m\<rparr>)"
        using resume by (auto simp: ResumeTransfer_def split: option.splits if_splits)
      have "queue_ok m'"
      proof (rule queue_okI)
        show "kv_ok (fm_tasks m')" using kv by (simp add: m')
        show "coming tid m'" if "queued tid m'" for tid
        proof -
          have "tid = t \<or> queued tid m" using that by (auto simp: m' queued_def kv_simps split: if_splits)
          then show ?thesis using q by (auto simp: m' coming_def)
        qed
      qed
      moreover have "workers_ok m'" by (rule workers_ok_same [OF assms(2)]) (simp_all add: m')
      ultimately show ?thesis by blast
    qed (use assms in simp)
  next
    case (clear saved)
    have t: "fm_tasks m' = filter (\<lambda>(tid, task). tt_Status task \<notin> {StatusCompleted, StatusCancelled, StatusFailed, StatusStale}) (fm_tasks m)"
      by (simp add: clear ClearHistory_def)
    have "kv_ok (fm_tasks m')" using kv by (simp add: t kv_ok_def distinct_map_filter)
    moreover have "coming tid m'" if "queued tid m'" for tid
      using q [OF queued_filter [OF kv t that]] by (simp add: clear ClearHistory_def coming_def)
    moreover have "workers_ok m'" by (rule workers_ok_same [OF assms(2)]) (simp_all add: clear ClearHistory_def)
    ultimately show ?thesis by (simp add: queue_ok_def)
  next
    case (launch t)
    have tasks: "fm_tasks m' = fm_tasks m" by (simp add: launch launch_def Let_def)
    then show ?thesis using workers_ok_launch [OF assms(2)] coming_launch [OF assms(2)] q kv queued_same [OF tasks]
      by (simp add: queue_ok_def launch)
  next
    case (acquire w)
    then show ?thesis using workers_ok_setPhase [OF assms(2), of w Holding] coming_setPhase [OF assms(2), of _ w Holding] q kv
        queued_same [of m' m]
      by (auto simp: queue_ok_def)
  next
    case (giveup w)
    then show ?thesis using workers_ok_leave [OF assms(2)] coming_leave [OF assms(2), of _ w] q kv queued_same [of m' m]
      by (auto simp: queue_ok_def)
  next
    case (running w saved)
    have "workers_ok (setPhase (wk_no w) Active m)" using workers_ok_setPhase [OF assms(2) running(2)] running(3) by simp
    then have "workers_ok m'" by (rule workers_ok_same) (simp_all add: running(1))
    moreover have "queue_ok m'"
    proof (rule queue_okI)
      show "kv_ok (fm_tasks m')" using kv unfolding running(1) by (intro setStatus_kv_ok) simp
      show "coming tid m'" if "queued tid m'" for tid
      proof -
        have "queued tid (setPhase (wk_no w) Active m)" "tid \<noteq> wk_id w"
          using setStatus_queued [OF _ that [unfolded running(1)]] by simp_all
        then have "coming tid (setPhase (wk_no w) Active m)"
          using coming_setPhase [OF assms(2) q running(2)] queued_same [of "setPhase (wk_no w) Active m" m] by simp
        then show ?thesis by (simp add: running(1) coming_def)
      qed
    qed
    ultimately show ?thesis by blast
  next
    case (progress w saved n)
    have "workers_ok m'" by (rule workers_ok_same [OF assms(2)]) (simp_all add: progress)
    moreover have "kv_ok (fm_tasks m')" using kv by (simp add: progress updateProgress_def split: option.split)
    moreover have "coming tid m'" if "queued tid m'" for tid
      using q that coming_same [of m' m] by (simp add: progress updateProgress_queued)
    ultimately show ?thesis by (simp add: queue_ok_def)
  next
    case (finish w)
    then show ?thesis using finish_ok [OF assms(2,3)] by blast
  next
    case (stopped w)
    then show ?thesis using finish_ok [OF assms(2,3)] by blast
  qed
qed

definition idle_tasks :: "(string, TransferTask) kv \<Rightarrow> bool" where
  "idle_tasks tasks \<longleftrightarrow> kv_ok tasks \<and>
     (\<forall>tid task. kv_get tasks tid = Some task \<longrightarrow> tt_Status task \<noteq> StatusQueued \<and> tt_Status task \<noteq> StatusRunning)"

lemma loadTask_idle: "idle_tasks tasks \<Longrightarrow> idle_tasks (loadTask tasks task)"
  by (simp add: idle_tasks_def loadTask_def kv_simps)

lemma loadTasks_idle: "idle_tasks (loadTasks saved)"
proof -
  have "idle_tasks tasks \<Longrightarrow> idle_tasks (foldl loadTask tasks saved)" for tasks
    by (induction saved arbitrary: tasks) (simp_all add: loadTask_idle)
  moreover have "idle_tasks []" by (simp add: idle_tasks_def kv_ok_def)
  ultimately show ?thesis by (simp add: loadTasks_def)
qed

lemma transfers_reach_ok: "fmReach m \<Longrightarrow> workers_ok m \<and> queue_ok m"
proof (induction rule: fmReach.induct)
  case (fresh f)
  have "kv_ok (fm_tasks (NewFileManager f)) \<and> \<not> queued tid (NewFileManager f)" for tid
  proof (cases f)
    case (Some saved)
    then show ?thesis using loadTasks_idle [of saved]
      by (cases "kv_get (loadTasks saved) tid") (auto simp: NewFileManager_def queued_def idle_tasks_def)
  qed (simp add: NewFileManager_def queued_def kv_ok_def)
  then show ?case by (auto simp: workers_ok_def queue_ok_def NewFileManager_def heldSlots_def)
next
  case (step m m')
  then show ?case using step_ok by blast
qed

section \<open>Properties\<close>

text \<open>
  C23. Transfers share two slots and none is forgotten. However starts, pauses, cancellations, resumptions,
  clearings of the history, workers and progress reports interleave, at most two workers hold a slot, and a
  task that is queued has a worker whose context is not done and that has not begun, or is about to get one.
  After a restart no task is queued or running.
\<close>

theorem transfers_scheduled:
  assumes "fmReach m"
  shows "heldSlots m \<le> 2 \<and> (queued tid m \<longrightarrow> coming tid m) \<and> idle_tasks (fm_tasks (NewFileManager (Some saved)))"
  using transfers_reach_ok [OF assms] loadTasks_idle [of saved]
  by (simp add: workers_ok_def queue_ok_def slotCount_def NewFileManager_def)

lemma addTask_fresh: "fmReach (addTask saved t (NewFileManager None))"
  by (rule fmReach.step [OF fmReach.fresh fmStep.start]) (simp add: NewFileManager_def)

theorem transfers_scheduled_witness:
  "\<exists>m. fmReach m \<and> queued ''t1'' m \<and> coming ''t1'' m \<and> heldSlots m \<le> 2"
proof -
  let ?m = "addTask True ex_transfer (NewFileManager None)"
  have "queued ''t1'' ?m" by (simp add: queued_def addTask_def ex_transfer_def kv_simps)
  then show ?thesis using transfers_scheduled [OF addTask_fresh [of True ex_transfer], of "''t1''"] addTask_fresh by blast
qed

text \<open>The history of one task that gets a slot and is paused before its worker marks it as running.\<close>

definition pausedLate :: "bool \<Rightarrow> TransferTask \<Rightarrow> fileManager" where
  "pausedLate saved t =
     (let m1 = addTask saved t (NewFileManager None);
          m2 = launch (tt_ID t) m1;
          m3 = setPhase 0 Holding m2;
          m4 = snd (PauseTransfer saved (tt_ID t) m3) in
      setStatus saved (tt_ID t) StatusRunning [] (setPhase 0 Active m4))"

lemma pausedLate_eq:
  "fm_tasks (pausedLate saved t) = [(tt_ID t, t\<lparr>tt_Status := StatusRunning, tt_Error := []\<rparr>)]"
  "fm_workers (pausedLate saved t) = [\<lparr>wk_no = 0, wk_id = tt_ID t, wk_phase = Active, wk_cancelled = True\<rparr>]"
  "fm_launching (pausedLate saved t) = []"
  by (simp_all add: pausedLate_def addTask_def NewFileManager_def launch_def Let_def PauseTransfer_def stopTask_def setStatus_def
      setPhase_def cancelCurrent_def cancelWorker_def kv_get_def kv_put_def saveTasks_def)

lemma pausedLate_reach: "fmReach (pausedLate saved t)"
proof -
  let ?m1 = "addTask saved t (NewFileManager None)"
  let ?m2 = "launch (tt_ID t) ?m1"
  let ?m3 = "setPhase 0 Holding ?m2"
  let ?m4 = "snd (PauseTransfer saved (tt_ID t) ?m3)"
  let ?w = "\<lambda>ph c. \<lparr>wk_no = 0, wk_id = tt_ID t, wk_phase = ph, wk_cancelled = c\<rparr>"
  have w2: "fm_workers ?m2 = [?w Waiting False]"
    by (simp add: addTask_def NewFileManager_def launch_def Let_def cancelCurrent_def saveTasks_def)
  have w4: "fm_workers ?m4 = [?w Holding True]"
    by (simp add: addTask_def NewFileManager_def launch_def Let_def PauseTransfer_def stopTask_def
      setPhase_def cancelCurrent_def cancelWorker_def kv_get_def kv_put_def saveTasks_def)
  have "fmReach ?m2" by (rule fmReach.step [OF addTask_fresh fmStep.launch]) (simp add: addTask_def)
  then have "fmReach ?m3"
    using fmStep.acquire [of "?w Waiting False" ?m2] w2 by (auto intro: fmReach.step simp: heldSlots_def slotCount_def)
  then have "fmReach ?m4" using fmStep.pause by (blast intro: fmReach.step)
  then have "fmReach (setStatus saved (tt_ID t) StatusRunning [] (setPhase 0 Active ?m4))"
    using fmStep.running [of "?w Holding True" ?m4 saved] w4 by (auto intro: fmReach.step)
  then show ?thesis by (simp add: pausedLate_def Let_def)
qed

text \<open>
  C24. A pause can leave a transfer running for ever. When a task is paused after its worker got a slot and
  before the worker marks it as running, the mark overwrites the pause; the run then notices that its context
  is done and ends without a word. For every task there is a reachable state in which it is shown as running,
  no worker is left, none will be launched, and it cannot be resumed.
\<close>

theorem pause_strands_transfer:
  "\<exists>m. fmReach m \<and> kv_get (fm_tasks m) (tt_ID t) = Some (t\<lparr>tt_Status := StatusRunning, tt_Error := []\<rparr>) \<and>
     fm_workers m = [] \<and> fm_launching m = [] \<and> fst (ResumeTransfer saved (tt_ID t) m) \<noteq> None"
proof -
  let ?m = "pausedLate saved t"
  let ?w = "\<lparr>wk_no = 0, wk_id = tt_ID t, wk_phase = Active, wk_cancelled = True\<rparr>"
  let ?fin = "leave 0 (finishTask saved 0 (tt_ID t) (runTask None (Some Canceled) (tt_ID t) ?m) ?m)"
  have "fmStep ?m ?fin" using fmStep.stopped [of ?w ?m saved 0 None "Some Canceled"] by (simp add: pausedLate_eq)
  then have "fmReach ?fin" using pausedLate_reach by (blast intro: fmReach.step)
  moreover have "finishTask saved 0 (tt_ID t) (runTask None (Some Canceled) (tt_ID t) ?m) ?m = ?m"
    by (simp add: finishTask_def runTask_def pausedLate_eq kv_get_def)
  ultimately have "fmReach (leave 0 ?m)" by simp
  moreover have "fm_workers (leave 0 ?m) = []" by (simp add: leave_def pausedLate_eq)
  moreover have "kv_get (fm_tasks (leave 0 ?m)) (tt_ID t) = Some (t\<lparr>tt_Status := StatusRunning, tt_Error := []\<rparr>)"
    by (simp add: pausedLate_eq kv_get_def)
  moreover have "fst (ResumeTransfer saved (tt_ID t) (leave 0 ?m)) \<noteq> None"
    by (simp add: ResumeTransfer_def pausedLate_eq kv_get_def)
  ultimately show ?thesis using pausedLate_eq(3) by (intro exI [of _ "leave 0 ?m"]) simp
qed

text \<open>
  The identity check wraps only \<^verbatim>\<open>errSourceChanged\<close>, so a run that is cancelled during the check is recorded as
  stale, whatever the user asked for.
\<close>

lemma identity_check_hides_cancel:
  assumes "kv_get (fm_tasks m) tid = Some task"
  shows "kv_get (fm_tasks (finishTask saved now tid (runTask (Some (Wrapf ''verify Pod identity: '' Canceled)) transfer tid m) m)) tid =
    Some (task\<lparr>tt_Status := StatusStale, tt_Error := ''source file changed: verify Pod identity: context canceled''\<rparr>)"
proof -
  have ne: "Canceled \<noteq> errSourceChanged" by (simp add: errSourceChanged_def)
  have text0: "err_text errSourceChanged = ''source file changed''" by (simp add: errSourceChanged_def)
  show ?thesis using assms ne by (simp add: finishTask_def runTask_def setStatus_def kv_simps text0)
qed

end
