(* ===== verification/FileOps.thy ===== *)
theory FileOps
  imports TransferTasks
begin

text \<open>
  The file operations of the file manager, \<^verbatim>\<open>internal/filemanager/manager.go\<close> and the checks of
  \<^verbatim>\<open>filesystem.go\<close>, and the start of a transfer (\<^verbatim>\<open>tasks.go\<close>). An operation on a container ends in at most
  one shell command; the quoting of its paths is a third-party function and a parameter here. An operation on
  the local file system acts on the \<^verbatim>\<open>fsMap\<close> of \<^verbatim>\<open>Archive\<close>. Relative local paths start at a current directory.
\<close>

section \<open>Checks\<close>

definition validateTarget :: "Target \<Rightarrow> goerr option" where
  "validateTarget target =
     (if tg_Context target = [] \<or> tg_Namespace target = [] \<or> tg_Pod target = [] \<or> tg_Container target = []
      then Some (Errorf ''context, namespace, pod, and container are required'') else None)"

definition validateEntryName :: "string \<Rightarrow> string res" where
  "validateEntryName raw =
     (let name = trim_space raw in
      if name = [] \<or> name = ''.'' \<or> name = ''..'' \<or> list_ex (\<lambda>c. c = CHR 0x2F \<or> c = CHR 0x5C) name
      then Inl (Errorf ''name must be a single non-empty path component'') else Inr name)"

definition cleanRemotePath :: "string \<Rightarrow> string res" where
  "cleanRemotePath raw =
     (let cleaned = pathClean (trim_space raw) in
      if \<not> IsAbs cleaned then Inl (Errorf ''container path must be absolute'') else Inr cleaned)"

definition pathAbs :: "string \<Rightarrow> string \<Rightarrow> string" where
  "pathAbs cwd p = (if IsAbs p then pathClean p else pathJoin cwd p)"

definition cleanLocalPath :: "string \<Rightarrow> string \<Rightarrow> string res" where
  "cleanLocalPath cwd raw =
     (if trim_space raw = [] then Inl (Errorf ''local path is required'') else Inr (pathAbs cwd (pathClean raw)))"

definition isLocalRoot :: "string \<Rightarrow> bool" where
  "isLocalRoot cleaned \<longleftrightarrow> pathDir cleaned = cleaned"

record podInfo =
  pi_Namespace :: string
  pi_Name :: string
  pi_UID :: string
  pi_Ready :: bool
  pi_Containers :: "string list"

fun findPod :: "Target \<Rightarrow> podInfo list \<Rightarrow> goerr option" where
  "findPod target [] = Some (Errorf ''Pod no longer exists'')"
| "findPod target (pod # pods) =
     (if pi_Namespace pod = tg_Namespace target \<and> pi_Name pod = tg_Pod target then
        (if pi_UID pod \<noteq> tg_PodUID target then Some (Errorf ''Pod was replaced'')
         else if \<not> pi_Ready pod then Some (Errorf ''Pod is not ready'')
         else if tg_Container target \<in> set (pi_Containers pod) then None
         else Some (Errorf ''container no longer exists''))
      else findPod target pods)"

text \<open>Without a catalog of pods, or without the UID of one, there is nothing to compare.\<close>

definition validatePodIdentity :: "podInfo list res option \<Rightarrow> Target \<Rightarrow> goerr option" where
  "validatePodIdentity catalog target =
     (if tg_PodUID target = [] then None
      else case catalog of
        None \<Rightarrow> None
      | Some (Inl e) \<Rightarrow> Some (Wrapf ''verify Pod identity: '' e)
      | Some (Inr pods) \<Rightarrow> findPod target pods)"

definition sortEntries :: "FileEntry list \<Rightarrow> FileEntry list" where
  "sortEntries items = filter fe_Dir (sort_key (\<lambda>e. to_lower (fe_Name e)) items) @
     filter (\<lambda>e. \<not> fe_Dir e) (sort_key (\<lambda>e. to_lower (fe_Name e)) items)"

section \<open>Operations on a container\<close>

record podEnv =
  pe_quote :: "string \<Rightarrow> string"
  pe_catalog :: "podInfo list res option"
  pe_exists :: bool
  pe_exec :: "goerr option"

text \<open>The command that was executed, and the error.\<close>

type_synonym podResult = "string option \<times> goerr option"

definition podExec :: "podEnv \<Rightarrow> string \<Rightarrow> string \<Rightarrow> podResult" where
  "podExec env what script = (Some script, map_option (Wrapf (what @ '': '')) (pe_exec env))"

definition admitted :: "podEnv \<Rightarrow> Target \<Rightarrow> goerr option" where
  "admitted env target =
     (case validateTarget target of Some e \<Rightarrow> Some e | None \<Rightarrow> validatePodIdentity (pe_catalog env) target)"

definition CreatePodDirectory :: "podEnv \<Rightarrow> Target \<Rightarrow> string \<Rightarrow> string \<Rightarrow> podResult" where
  "CreatePodDirectory env target rawParent rawName =
     (case admitted env target of Some e \<Rightarrow> (None, Some e) | None \<Rightarrow>
      (case validateEntryName rawName of Inl e \<Rightarrow> (None, Some e) | Inr name \<Rightarrow>
      (case cleanRemotePath rawParent of Inl e \<Rightarrow> (None, Some e) | Inr parent \<Rightarrow>
       podExec env ''create container directory'' (''mkdir -- '' @ pe_quote env (pathJoin parent name)))))"

definition CreatePodFile :: "podEnv \<Rightarrow> Target \<Rightarrow> string \<Rightarrow> string \<Rightarrow> podResult" where
  "CreatePodFile env target rawParent rawName =
     (case admitted env target of Some e \<Rightarrow> (None, Some e) | None \<Rightarrow>
      (case validateEntryName rawName of Inl e \<Rightarrow> (None, Some e) | Inr name \<Rightarrow>
      (case cleanRemotePath rawParent of Inl e \<Rightarrow> (None, Some e) | Inr parent \<Rightarrow>
       (let quoted = pe_quote env (pathJoin parent name) in
        podExec env ''create container file''
          (''if [ -e '' @ quoted @ '' ] || [ -L '' @ quoted @ '' ]; then echo 'destination already exists' >&2; exit 1; fi; : > '' @ quoted)))))"

definition RenamePodPath :: "podEnv \<Rightarrow> Target \<Rightarrow> string \<Rightarrow> string \<Rightarrow> podResult" where
  "RenamePodPath env target rawSource newName =
     (case admitted env target of Some e \<Rightarrow> (None, Some e) | None \<Rightarrow>
      (case validateEntryName newName of Inl e \<Rightarrow> (None, Some e) | Inr name \<Rightarrow>
      (case cleanRemotePath rawSource of Inl e \<Rightarrow> (None, Some e) | Inr source \<Rightarrow>
       if source = ''/'' then (None, Some (Errorf ''cannot rename the container root''))
       else let destination = pathJoin (pathDir source) name in
         if pe_exists env then (None, Some (alreadyExists destination))
         else podExec env ''rename container path'' (''mv -- '' @ pe_quote env source @ '' '' @ pe_quote env destination))))"

definition DeletePodPath :: "podEnv \<Rightarrow> Target \<Rightarrow> string \<Rightarrow> podResult" where
  "DeletePodPath env target rawPath =
     (case admitted env target of Some e \<Rightarrow> (None, Some e) | None \<Rightarrow>
      (case cleanRemotePath rawPath of Inl e \<Rightarrow> (None, Some e) | Inr cleaned \<Rightarrow>
       if cleaned = ''/'' then (None, Some (Errorf ''cannot delete the container root''))
       else podExec env ''delete container path'' (''rm -rf -- '' @ pe_quote env cleaned)))"

section \<open>Operations on the local file system\<close>

text \<open>
  The operating system's own refusals are an argument; a new entry needs a directory to be in, and must not
  exist.
\<close>

definition isDir :: "fsMap \<Rightarrow> string list \<Rightarrow> bool" where
  "isDir fs p \<longleftrightarrow> p = [] \<or> kv_get fs p = Some FDir"

definition newLocalEntry :: "goerr option \<Rightarrow> fsNode \<Rightarrow> string \<Rightarrow> fsMap \<Rightarrow> goerr option \<times> fsMap" where
  "newLocalEntry refusal node path fs =
     (let p = pathParts path in
      case refusal of Some e \<Rightarrow> (Some e, fs) | None \<Rightarrow>
      if \<not> isDir fs (butlast p) then (Some (Errorf ''no such file or directory''), fs)
      else if kv_get fs p \<noteq> None then (Some (Errorf ''file exists''), fs)
      else (None, kv_put p node fs))"

definition CreateLocalDirectory :: "string \<Rightarrow> goerr option \<Rightarrow> string \<Rightarrow> string \<Rightarrow> fsMap \<Rightarrow> goerr option \<times> fsMap" where
  "CreateLocalDirectory cwd refusal rawParent rawName fs =
     (case validateEntryName rawName of Inl e \<Rightarrow> (Some e, fs) | Inr name \<Rightarrow>
      (case cleanLocalPath cwd rawParent of Inl e \<Rightarrow> (Some e, fs) | Inr parent \<Rightarrow>
       newLocalEntry refusal FDir (pathJoin parent name) fs))"

definition CreateLocalFile :: "string \<Rightarrow> goerr option \<Rightarrow> string \<Rightarrow> string \<Rightarrow> fsMap \<Rightarrow> goerr option \<times> fsMap" where
  "CreateLocalFile cwd refusal rawParent rawName fs =
     (case validateEntryName rawName of Inl e \<Rightarrow> (Some e, fs) | Inr name \<Rightarrow>
      (case cleanLocalPath cwd rawParent of Inl e \<Rightarrow> (Some e, fs) | Inr parent \<Rightarrow>
       newLocalEntry refusal (FFile []) (pathJoin parent name) fs))"

definition RenameLocalPath ::
    "string \<Rightarrow> goerr option \<Rightarrow> goerr option \<Rightarrow> string \<Rightarrow> string \<Rightarrow> fsMap \<Rightarrow> goerr option \<times> fsMap" where
  "RenameLocalPath cwd lstatErr refusal rawSource newName fs =
     (case validateEntryName newName of Inl e \<Rightarrow> (Some e, fs) | Inr name \<Rightarrow>
      (case cleanLocalPath cwd rawSource of Inl e \<Rightarrow> (Some e, fs) | Inr source \<Rightarrow>
       if isLocalRoot source then (Some (Errorf ''cannot rename a filesystem root''), fs)
       else let destination = pathJoin (pathDir source) name in
         case lstatErr of Some e \<Rightarrow> (Some e, fs) | None \<Rightarrow>
         if kv_get fs (pathParts destination) \<noteq> None then (Some (alreadyExists destination), fs)
         else (case refusal of
            Some e \<Rightarrow> (Some e, fs)
          | None \<Rightarrow>
              if kv_get fs (pathParts source) = None then (Some (Errorf ''no such file or directory''), fs)
              else (None, renameTree (pathParts source) (pathParts destination) fs))))"

text \<open>When the removal of a directory fails, what has been removed so far is a part of it.\<close>

definition DeleteLocalPath ::
    "string \<Rightarrow> goerr option \<Rightarrow> (string list \<Rightarrow> bool) \<Rightarrow> string \<Rightarrow> fsMap \<Rightarrow> goerr option \<times> fsMap" where
  "DeleteLocalPath cwd refusal removed rawPath fs =
     (case cleanLocalPath cwd rawPath of Inl e \<Rightarrow> (Some e, fs) | Inr cleaned \<Rightarrow>
      if isLocalRoot cleaned then (Some (Errorf ''cannot delete a filesystem root''), fs)
      else (case refusal of
          Some e \<Rightarrow> (Some e, filter (\<lambda>(k, v). \<not> (inside (pathParts cleaned) k \<and> removed k)) fs)
        | None \<Rightarrow> (None, removeTree (pathParts cleaned) fs)))"

section \<open>Starting a transfer\<close>

record TransferRequest =
  tq_Direction :: Direction
  tq_Target :: Target
  tq_SourcePath :: string
  tq_DestinationDir :: string
  tq_Overwrite :: bool

text \<open>The stat of the source and the size of a local directory, whether the destination was found, and the new ID.\<close>

record startEnv =
  se_cwd :: string
  se_stat :: "string \<Rightarrow> FileEntry res"
  se_treeSize :: "nat res"
  se_exists :: "string \<Rightarrow> bool"
  se_id :: string
  se_now :: int

definition sourceOf :: "startEnv \<Rightarrow> TransferRequest \<Rightarrow> (FileEntry \<times> string) res" where
  "sourceOf env request =
     (case tq_Direction request of
        DirectionUpload \<Rightarrow>
          bindE (se_stat env (pathAbs (se_cwd env) (pathClean (tq_SourcePath request)))) (\<lambda>source.
          bindE (cleanRemotePath (tq_DestinationDir request)) (\<lambda>root.
          Inr (source, pathJoin root (fe_Name source))))
      | DirectionDownload \<Rightarrow>
          bindE (cleanRemotePath (tq_SourcePath request)) (\<lambda>sourcePath.
          bindE (se_stat env sourcePath) (\<lambda>source.
          Inr (source, pathJoin (pathAbs (se_cwd env) (pathClean (tq_DestinationDir request))) (pathBase sourcePath)))))"

definition tempPathOf :: "TransferRequest \<Rightarrow> FileEntry \<Rightarrow> string \<Rightarrow> string \<Rightarrow> string" where
  "tempPathOf request source destination tid =
     destination @ (if tq_Direction request = DirectionUpload then ''.kubeloop-upload-'' else ''.kubeloop-'') @ tid @ ''.part'' @
     (if fe_Dir source then ''dir'' else [])"

definition newTask :: "startEnv \<Rightarrow> TransferRequest \<Rightarrow> TransferTask res" where
  "newTask env request =
     (case validateTarget (tq_Target request) of Some e \<Rightarrow> Inl e | None \<Rightarrow>
      bindE (sourceOf env request) (\<lambda>(source, destination).
      if fe_Dir source \<and> tq_Direction request = DirectionUpload \<and> isLocalRoot (fe_Path source)
      then Inl (Errorf ''cannot upload a filesystem root'')
      else if fe_Dir source \<and> tq_Direction request = DirectionDownload \<and> fe_Path source = ''/''
      then Inl (Errorf ''cannot download the container root'')
      else bindE (if fe_Dir source \<and> tq_Direction request = DirectionUpload then se_treeSize env else Inr (fe_Size source)) (\<lambda>size0.
      if \<not> tq_Overwrite request \<and> se_exists env destination then Inl (alreadyExists destination)
      else Inr \<lparr>tt_ID = se_id env, tt_Direction = tq_Direction request, tt_Target = tq_Target request,
        tt_SourcePath = fe_Path source, tt_DestinationPath = destination,
        tt_TempPath = tempPathOf request source destination (se_id env), tt_Directory = fe_Dir source,
        tt_Status = StatusQueued, tt_TotalBytes = size0, tt_DoneBytes = 0, tt_SourceModTime = fe_ModTime source,
        tt_Overwrite = tq_Overwrite request, tt_Error = [], tt_CreatedAt = se_now env, tt_CompletedAt = None\<rparr>)))"

definition StartTransfer :: "bool \<Rightarrow> startEnv \<Rightarrow> TransferRequest \<Rightarrow> fileManager \<Rightarrow> TransferTask res \<times> fileManager" where
  "StartTransfer saved env request m =
     (case newTask env request of Inl e \<Rightarrow> (Inl e, m) | Inr task \<Rightarrow> (Inr task, addTask saved task m))"

section \<open>Clean absolute paths\<close>

definition cleanAbs :: "string \<Rightarrow> bool" where
  "cleanAbs p \<longleftrightarrow> IsAbs p \<and> p = render True (pathParts p)"

lemma cleanAbs_clean: "IsAbs p \<Longrightarrow> cleanAbs (pathClean p)"
  unfolding cleanAbs_def by (simp add: pathClean_def [symmetric]) (simp add: pathClean_def)

lemma cleanAbs_render: "list_all plain ws \<Longrightarrow> cleanAbs (render True ws) \<and> pathParts (render True ws) = ws"
  using render_abs [OF plain_shape, of ws True] parts_render [OF plain_shape, of ws True] by (simp add: cleanAbs_def)

lemma cleanAbs_plain: "cleanAbs p \<Longrightarrow> list_all plain (pathParts p)"
  by (simp add: cleanAbs_def abs_parts_plain)

lemma cleanAbs_eq: "cleanAbs p \<Longrightarrow> cleanAbs q \<Longrightarrow> p = q \<longleftrightarrow> pathParts p = pathParts q"
  unfolding cleanAbs_def by metis

lemma cleanAbs_root: "cleanAbs p \<Longrightarrow> p = ''/'' \<longleftrightarrow> pathParts p = []"
proof -
  assume a: "cleanAbs p"
  have "cleanAbs ''/''" "pathParts ''/'' = []" by code_simp+
  with cleanAbs_eq [OF a this(1)] show "p = ''/'' \<longleftrightarrow> pathParts p = []" by simp
qed

lemma dir_parts: "cleanAbs p \<Longrightarrow> cleanAbs (pathDir p) \<and> pathParts (pathDir p) = butlast (pathParts p)"
proof -
  assume a: "cleanAbs p"
  have "list_all plain (butlast (pathParts p))"
    using cleanAbs_plain [OF a] by (auto simp: list_all_iff dest: in_set_butlastD)
  moreover have "pathDir p = render True (butlast (pathParts p))" using a by (simp add: pathDir_def cleanAbs_def)
  ultimately show ?thesis using cleanAbs_render by simp
qed

lemma isLocalRoot_iff: "cleanAbs p \<Longrightarrow> isLocalRoot p \<longleftrightarrow> pathParts p = []"
proof -
  assume a: "cleanAbs p"
  have "isLocalRoot p \<longleftrightarrow> butlast (pathParts p) = pathParts p"
    using cleanAbs_eq [of "pathDir p" p] dir_parts [OF a] a by (auto simp: isLocalRoot_def)
  then show ?thesis by (cases "pathParts p" rule: rev_cases) auto
qed

lemma join_name:
  assumes "cleanAbs p" "plain n"
  shows "cleanAbs (pathJoin p n) \<and> pathParts (pathJoin p n) = pathParts p @ [n]"
proof -
  have "pathJoin p n = render True (pathParts p @ [n])"
    using pathJoin_below(1) [of p "[n]"] assms by (simp add: cleanAbs_def)
  moreover have "list_all plain (pathParts p @ [n])" using assms cleanAbs_plain by simp
  ultimately show ?thesis using cleanAbs_render by simp
qed

lemma validateEntryName_plain: "validateEntryName raw = Inr name \<Longrightarrow> name = trim_space raw \<and> nameOK name"
  by (auto simp: validateEntryName_def Let_def nameOK_def plain_def list_ex_iff split: if_splits)

lemma cleanRemotePath_clean:
  "cleanRemotePath raw = Inr p \<Longrightarrow> cleanAbs p \<and> pathParts p = pathParts (trim_space raw)"
  using cleanAbs_clean [of "trim_space raw"] by (auto simp: cleanRemotePath_def Let_def split: if_splits)

lemma pathAbs_clean: "IsAbs cwd \<Longrightarrow> cleanAbs (pathAbs cwd p)"
proof -
  assume a: "IsAbs cwd"
  then obtain c where c: "cwd = CHR 0x2F # c" by (cases cwd) (auto simp: IsAbs_def has_prefix_def)
  have "IsAbs (cwd @ CHR 0x2F # p)" by (simp add: c IsAbs_def has_prefix_def)
  then have "cleanAbs (pathJoin cwd p)"
    using a c by (auto simp: pathJoin_def intro!: cleanAbs_clean)
  then show ?thesis by (simp add: pathAbs_def cleanAbs_clean)
qed

lemma cleanLocalPath_clean: "IsAbs cwd \<Longrightarrow> cleanLocalPath cwd raw = Inr p \<Longrightarrow> cleanAbs p"
  by (auto simp: cleanLocalPath_def pathAbs_clean split: if_splits)

section \<open>What the commands act on\<close>

text \<open>
  Every command that the file manager runs in a container for the user acts on the entry that was named
  and nothing else: a new directory or file is directly in the parent, under a name that is one path element;
  a deletion and a renaming never concern the root of the container, and a renamed entry stays where it is.
  The paths in the command are absolute and clean, and quoted.
\<close>

theorem pod_commands_confined:
  "(case CreatePodDirectory env target parent name of (None, err) \<Rightarrow> err \<noteq> None | (Some script, err) \<Rightarrow>
      \<exists>p. script = ''mkdir -- '' @ pe_quote env p \<and> cleanAbs p \<and> nameOK (trim_space name) \<and>
        pathParts p = pathParts (trim_space parent) @ [trim_space name]) \<and>
   (case RenamePodPath env target source name of (None, err) \<Rightarrow> err \<noteq> None | (Some script, err) \<Rightarrow>
      \<exists>p q. script = ''mv -- '' @ pe_quote env p @ '' '' @ pe_quote env q \<and> cleanAbs p \<and> cleanAbs q \<and> nameOK (trim_space name) \<and>
        pathParts p = pathParts (trim_space source) \<and> pathParts p \<noteq> [] \<and>
        pathParts q = butlast (pathParts p) @ [trim_space name]) \<and>
   (case DeletePodPath env target path of (None, err) \<Rightarrow> err \<noteq> None | (Some script, err) \<Rightarrow>
      \<exists>p. script = ''rm -rf -- '' @ pe_quote env p \<and> cleanAbs p \<and> pathParts p = pathParts (trim_space path) \<and> pathParts p \<noteq> [])"
  (is "?create \<and> ?rename \<and> ?delete")
proof (intro conjI)
  show ?create
  proof (cases "admitted env target")
    case None
    show ?thesis
    proof (cases "validateEntryName name")
      case (Inr n)
      note n = validateEntryName_plain [OF Inr]
      show ?thesis
      proof (cases "cleanRemotePath parent")
        case p: (Inr p)
        note c = cleanRemotePath_clean [OF p]
        have "cleanAbs (pathJoin p n) \<and> pathParts (pathJoin p n) = pathParts p @ [n]"
          by (rule join_name) (use c n in \<open>auto simp: nameOK_def\<close>)
        then show ?thesis using None Inr p c n by (auto simp: CreatePodDirectory_def podExec_def)
      qed (use None Inr in \<open>simp add: CreatePodDirectory_def\<close>)
    qed (use None in \<open>simp add: CreatePodDirectory_def\<close>)
  qed (simp add: CreatePodDirectory_def)
  show ?rename
  proof (cases "admitted env target")
    case None
    show ?thesis
    proof (cases "validateEntryName name")
      case (Inr n)
      note n = validateEntryName_plain [OF Inr]
      show ?thesis
      proof (cases "cleanRemotePath source")
        case p: (Inr p)
        note c = cleanRemotePath_clean [OF p]
        have d: "cleanAbs (pathJoin (pathDir p) n) \<and> pathParts (pathJoin (pathDir p) n) = butlast (pathParts p) @ [n]"
          using join_name [of "pathDir p" n] dir_parts [of p] c n unfolding nameOK_def by auto
        show ?thesis
        proof (cases "p = ''/'' \<or> pe_exists env")
          case False
          then have "pathParts p \<noteq> []" using cleanAbs_root [of p] c by simp
          moreover have "\<exists>err. RenamePodPath env target source name =
              (Some (''mv -- '' @ pe_quote env p @ '' '' @ pe_quote env (pathJoin (pathDir p) n)), err)"
            using False None Inr p by (simp add: RenamePodPath_def podExec_def Let_def)
          ultimately show ?thesis using c n d
            by (elim exE) (simp only: prod.case option.case, intro exI [of _ p] exI [of _ "pathJoin (pathDir p) n"], auto)
        qed (use None Inr p in \<open>auto simp: RenamePodPath_def Let_def\<close>)
      qed (use None Inr in \<open>simp add: RenamePodPath_def\<close>)
    qed (use None in \<open>simp add: RenamePodPath_def\<close>)
  qed (simp add: RenamePodPath_def)
  show ?delete
  proof (cases "admitted env target")
    case None
    show ?thesis
    proof (cases "cleanRemotePath path")
      case p: (Inr p)
      note c = cleanRemotePath_clean [OF p]
      show ?thesis
        using None p c cleanAbs_root [of p] by (auto simp: DeletePodPath_def podExec_def)
    qed (use None in \<open>simp add: DeletePodPath_def\<close>)
  qed (simp add: DeletePodPath_def)
qed

section \<open>What a transfer is started with\<close>

lemma pathBase_last: "cleanAbs p \<Longrightarrow> pathParts p \<noteq> [] \<Longrightarrow> pathBase p = last (pathParts p) \<and> plain (pathBase p)"
  using cleanAbs_plain [of p] by (auto simp: pathBase_def list_all_iff)

definition stat_laws :: "startEnv \<Rightarrow> bool" where
  "stat_laws env \<longleftrightarrow> IsAbs (se_cwd env) \<and> CHR 0x2F \<notin> set (se_id env) \<and>
     (\<forall>p info. se_stat env p = Inr info \<longrightarrow>
       fe_Path info = p \<and> (pathParts p = [] \<longrightarrow> fe_Dir info) \<and> (fe_Name info = (if pathParts p = [] then ''/'' else last (pathParts p))))"

lemma sourceOf_paths:
  assumes "stat_laws env" "sourceOf env request = Inr (source, destination)"
    and "\<not> (fe_Dir source \<and> tq_Direction request = DirectionUpload \<and> isLocalRoot (fe_Path source))"
    and "\<not> (fe_Dir source \<and> tq_Direction request = DirectionDownload \<and> fe_Path source = ''/'')"
  shows "cleanAbs destination \<and> pathParts destination \<noteq> []"
proof (cases "tq_Direction request")
  case DirectionUpload
  let ?src = "pathAbs (se_cwd env) (pathClean (tq_SourcePath request))"
  obtain root where s: "se_stat env ?src = Inr source" and r: "cleanRemotePath (tq_DestinationDir request) = Inr root"
    and d: "destination = pathJoin root (fe_Name source)"
    using assms(2) DirectionUpload by (auto simp: sourceOf_def bindE_Inr_iff)
  have c: "cleanAbs ?src" using assms(1) by (simp add: stat_laws_def pathAbs_clean)
  have l: "fe_Path source = ?src" "pathParts ?src = [] \<Longrightarrow> fe_Dir source"
    "fe_Name source = (if pathParts ?src = [] then ''/'' else last (pathParts ?src))"
    using assms(1) s unfolding stat_laws_def by blast+
  then have "pathParts ?src \<noteq> []" using assms(3) DirectionUpload isLocalRoot_iff [OF c] by auto
  then have "plain (fe_Name source)" using l(3) cleanAbs_plain [OF c] by (simp add: list_all_iff)
  then show ?thesis using join_name cleanRemotePath_clean [OF r] d by simp
next
  case DirectionDownload
  obtain src where r: "cleanRemotePath (tq_SourcePath request) = Inr src" and s: "se_stat env src = Inr source"
    and d: "destination = pathJoin (pathAbs (se_cwd env) (pathClean (tq_DestinationDir request))) (pathBase src)"
    using assms(2) DirectionDownload by (auto simp: sourceOf_def bindE_Inr_iff)
  have c: "cleanAbs src" using cleanRemotePath_clean [OF r] by simp
  have l: "fe_Path source = src" "pathParts src = [] \<Longrightarrow> fe_Dir source" using assms(1) s unfolding stat_laws_def by blast+
  then have "pathParts src \<noteq> []" using assms(4) DirectionDownload cleanAbs_root [OF c] by auto
  then have "plain (pathBase src)" using pathBase_last [OF c] by blast
  moreover have "cleanAbs (pathAbs (se_cwd env) (pathClean (tq_DestinationDir request)))"
    using assms(1) by (simp add: stat_laws_def pathAbs_clean)
  ultimately show ?thesis using join_name d by simp
qed

lemma append_suffix:
  assumes "cleanAbs p" "pathParts p \<noteq> []" "CHR 0x2F \<notin> set suffix" "3 \<le> length suffix"
  shows "cleanAbs (p @ suffix) \<and> pathParts (p @ suffix) = butlast (pathParts p) @ [last (pathParts p) @ suffix]"
proof -
  let ?ws = "butlast (pathParts p) @ [last (pathParts p) @ suffix]"
  have join: "join_slash (ws @ [w]) @ s = join_slash (ws @ [w @ s])" for ws w s
    by (induction ws rule: join_slash.induct) (auto split: list.split simp: neq_Nil_conv)
  have "p @ suffix = render True (pathParts p) @ suffix" using assms(1) by (simp add: cleanAbs_def)
  also have "\<dots> = render True ?ws" using join [of "butlast (pathParts p)" "last (pathParts p)" suffix] assms(2) by (simp add: render_def)
  finally have e: "p @ suffix = render True ?ws" .
  have "length (w @ suffix) \<ge> 3" for w using assms(4) by simp
  from this [of "last (pathParts p)"] have "last (pathParts p) @ suffix \<notin> {[], ''.'', ''..''}"
    by (cases "last (pathParts p) @ suffix" rule: list.exhaust) (auto simp: numeral_3_eq_3 append_eq_Cons_conv)
  moreover have "CHR 0x2F \<notin> set (last (pathParts p))" using cleanAbs_plain [OF assms(1)] assms(2) by (simp add: list_all_iff plain_def)
  ultimately have "list_all plain ?ws"
    using cleanAbs_plain [OF assms(1)] assms(3) by (auto simp: list_all_iff plain_def dest: in_set_butlastD)
  from cleanAbs_render [OF this] show ?thesis by (simp add: e)
qed

text \<open>
  C25. What a transfer is started with. Whatever source and destination the user names, the new task writes to
  a clean absolute destination that is not the root, and its partial file is another entry of the same
  directory; so the conditions under which downloads, uploads and downloads of directories are exact hold
  for every task the file manager starts.
\<close>

theorem started_transfer_paths:
  assumes "stat_laws env" "newTask env request = Inr task"
  shows "cleanAbs (tt_DestinationPath task) \<and> cleanAbs (tt_TempPath task) \<and>
    tt_TempPath task \<noteq> tt_DestinationPath task \<and>
    pathParts (tt_DestinationPath task) \<noteq> [] \<and> pathParts (tt_TempPath task) \<noteq> [] \<and>
    butlast (pathParts (tt_TempPath task)) = butlast (pathParts (tt_DestinationPath task)) \<and>
    tt_Status task = StatusQueued"
proof -
  obtain source destination where s: "sourceOf env request = Inr (source, destination)"
    and up: "\<not> (fe_Dir source \<and> tq_Direction request = DirectionUpload \<and> isLocalRoot (fe_Path source))"
    and down: "\<not> (fe_Dir source \<and> tq_Direction request = DirectionDownload \<and> fe_Path source = ''/'')"
    and t: "tt_DestinationPath task = destination" "tt_TempPath task = tempPathOf request source destination (se_id env)"
      "tt_Status task = StatusQueued"
    using assms(2) by (auto simp: newTask_def bindE_Inr_iff split: option.splits if_splits)
  note d = sourceOf_paths [OF assms(1) s up down]
  obtain suffix where suffix: "tempPathOf request source destination (se_id env) = destination @ suffix"
    "CHR 0x2F \<notin> set suffix" "3 \<le> length suffix"
  proof
    show "tempPathOf request source destination (se_id env) = destination @
      ((if tq_Direction request = DirectionUpload then ''.kubeloop-upload-'' else ''.kubeloop-'') @ se_id env @ ''.part'' @
       (if fe_Dir source then ''dir'' else []))" by (simp add: tempPathOf_def)
  qed (use assms(1) in \<open>auto simp: stat_laws_def\<close>)
  show ?thesis using append_suffix [OF _ _ suffix(2,3), of destination] d suffix by (auto simp: t)
qed

definition ex_startEnv :: startEnv where
  "ex_startEnv = \<lparr>se_cwd = ''/home/u'', se_stat = (\<lambda>p. if p = ''/var/log/app.log''
       then Inr \<lparr>fe_Name = ''app.log'', fe_Path = p, fe_Dir = False, fe_Size = 5, fe_ModTime = 7\<rparr> else Inl (Errorf ''no such file'')),
     se_treeSize = Inr 0, se_exists = (\<lambda>_. False), se_id = ''transfer-1-1'', se_now = 0\<rparr>"

definition ex_transferRequest :: TransferRequest where
  "ex_transferRequest = \<lparr>tq_Direction = DirectionDownload,
     tq_Target = \<lparr>tg_Context = ''c'', tg_Namespace = ''n'', tg_Pod = ''p'', tg_PodUID = [], tg_Container = ''k''\<rparr>,
     tq_SourcePath = '' /var//log/./x/../app.log'', tq_DestinationDir = ''down/../in'', tq_Overwrite = False\<rparr>"

theorem started_transfer_paths_witness:
  "case newTask ex_startEnv ex_transferRequest of Inl e \<Rightarrow> False | Inr task \<Rightarrow>
     tt_DestinationPath task = ''/home/u/in/app.log'' \<and> tt_TempPath task \<noteq> tt_DestinationPath task \<and> cleanAbs (tt_TempPath task)"
proof -
  have parts: "pathParts ''/var/log/app.log'' = [''var'', ''log'', ''app.log'']" by code_simp
  have "IsAbs ''/home/u''" by code_simp
  then have laws: "stat_laws ex_startEnv" by (simp add: stat_laws_def ex_startEnv_def parts)
  have "\<not> isl (newTask ex_startEnv ex_transferRequest)" by code_simp
  then obtain task where t: "newTask ex_startEnv ex_transferRequest = Inr task" by (cases "newTask ex_startEnv ex_transferRequest") auto
  have "map_sum id tt_DestinationPath (newTask ex_startEnv ex_transferRequest) = Inr ''/home/u/in/app.log''" by code_simp
  then have "tt_DestinationPath task = ''/home/u/in/app.log''" by (simp add: t)
  with started_transfer_paths [OF laws t] t show ?thesis by simp
qed

end
