(* ===== verification/Spec2Isabelle.thy ===== *)
theory Spec2Isabelle
  imports Connection EndpointBinding Inbound Relay TrafficMetrics HelperClient FileOps
begin

text \<open>
  A verification development of kube-loop.
\<close>

end
